(* ===== verification/Prelude.thy ===== *)
theory Prelude
  imports Main "HOL-Library.Word"
begin

text \<open>
  The vocabulary every component shares: Python's text and byte values, the exception
  classes of the repository with their inheritance (the \<open>errors.py\<close> files under
  \<open>src/infrastructure\<close> and the built-in classes the code names in an \<open>except\<close>
  clause), results of code that may raise, and a state monad whose state survives a raise.
\<close>

named_theorems res_simps \<open>equations for results of code that may raise\<close>
named_theorems io_simps \<open>equations for stateful code that may raise\<close>

section \<open>Text and bytes\<close>

text \<open>A Python \<open>str\<close> is a list of code points, \<open>bytes\<close> a list of octets.\<close>

type_synonym pystr = "nat list"
type_synonym bytes = "8 word list"

definition lit :: "string \<Rightarrow> pystr" where
  "lit s = map of_char s"

lemma lit_eq_iff [simp]: "lit s = lit t \<longleftrightarrow> s = t"
proof -
  have "inj (of_char :: char \<Rightarrow> nat)" by (rule inj_onI) simp
  then have "inj (map (of_char :: char \<Rightarrow> nat))" by simp
  then show ?thesis by (simp add: lit_def inj_eq)
qed

lemma lit_Nil_iff [simp]: "lit s = [] \<longleftrightarrow> s = []" "[] = lit s \<longleftrightarrow> s = []"
  by (simp_all add: lit_def)

lemma length_lit [simp]: "length (lit s) = length s"
  by (simp add: lit_def)

section \<open>Exceptions\<close>

text \<open>
  One constructor per exception class the sources raise or catch. \<open>OtherException\<close>
  stands for any other subclass of \<open>Exception\<close> a library may raise.
\<close>

datatype exn_class =
    KeyboardInterrupt
  | OtherException | ValueError | TypeError | AttributeError | OverflowError | EOFError
  | UnicodeEncodeError | UnicodeDecodeError | BinasciiError
  | RuntimeError
  | OSError | FileNotFoundError | FileExistsError | CalledProcessError
  | SqliteError | SqliteIntegrityError
  | InvalidTag | Argon2VerificationError | SSHException
  | AuditStorageError | DuplicateAuditEventError | AuditIntegrityError
  | UnsupportedAuditSchemaError
  | UserAuthStorageError | DuplicateUserIdError | DuplicateUsernameError
  | MalformedUserAuthError | UnsupportedUserAuthSchemaError | PasswordHashingError
  | ConfigStorageError | DuplicateTargetError | DuplicatePrivilegedAccountError
  | MalformedTargetError | MalformedPrivilegedAccountError
  | AmbiguousPrivilegedAccountError
  | PolicyStorageError | DuplicatePolicyError | MalformedPolicyError
  | SecurityError | SecretCipherError | KeyProviderError
  | SshConnectionError | HostKeyMismatchError | SshAuthenticationError | SshChannelError
  | VaultError | DuplicateCredentialError | UnsupportedVaultSchemaError
  | DatabasePermissionError | AuthenticationFailedError | ApplicationConfigurationError
  | LabProvisioningError | NegativeLabPreparationError

text \<open>The class an exception class extends, where that is not \<open>Exception\<close> itself.\<close>

fun base_class :: "exn_class \<Rightarrow> exn_class option" where
  "base_class UnicodeEncodeError = Some ValueError"
| "base_class UnicodeDecodeError = Some ValueError"
| "base_class BinasciiError = Some ValueError"
| "base_class FileNotFoundError = Some OSError"
| "base_class FileExistsError = Some OSError"
| "base_class SqliteIntegrityError = Some SqliteError"
| "base_class DuplicateAuditEventError = Some AuditStorageError"
| "base_class AuditIntegrityError = Some AuditStorageError"
| "base_class UnsupportedAuditSchemaError = Some AuditStorageError"
| "base_class DuplicateUserIdError = Some UserAuthStorageError"
| "base_class DuplicateUsernameError = Some UserAuthStorageError"
| "base_class MalformedUserAuthError = Some UserAuthStorageError"
| "base_class UnsupportedUserAuthSchemaError = Some UserAuthStorageError"
| "base_class DuplicateTargetError = Some ConfigStorageError"
| "base_class DuplicatePrivilegedAccountError = Some ConfigStorageError"
| "base_class MalformedTargetError = Some ConfigStorageError"
| "base_class MalformedPrivilegedAccountError = Some ConfigStorageError"
| "base_class AmbiguousPrivilegedAccountError = Some ConfigStorageError"
| "base_class DuplicatePolicyError = Some PolicyStorageError"
| "base_class MalformedPolicyError = Some PolicyStorageError"
| "base_class SecretCipherError = Some SecurityError"
| "base_class KeyProviderError = Some SecurityError"
| "base_class HostKeyMismatchError = Some SshConnectionError"
| "base_class SshAuthenticationError = Some SshConnectionError"
| "base_class SshChannelError = Some SshConnectionError"
| "base_class DuplicateCredentialError = Some VaultError"
| "base_class UnsupportedVaultSchemaError = Some VaultError"
| "base_class _ = None"

datatype exn = Exn (exn_class: exn_class) (exn_message: pystr)

definition err :: "exn_class \<Rightarrow> string \<Rightarrow> exn" where
  "err c m = Exn c (lit m)"

lemma exn_class_err [simp]: "exn_class (err c m) = c"
  by (simp add: err_def)

lemma err_eq_iff [simp]: "err c m = err d n \<longleftrightarrow> c = d \<and> m = n"
  by (simp add: err_def)

text \<open>
  \<open>except C\<close> catches \<open>C\<close> and its subclasses (the hierarchy is two levels deep below
  \<open>Exception\<close>); \<open>except Exception\<close> catches all but \<open>KeyboardInterrupt\<close>.
\<close>

definition catches :: "exn_class \<Rightarrow> exn \<Rightarrow> bool" where
  "catches c e \<longleftrightarrow> exn_class e = c \<or> base_class (exn_class e) = Some c"

definition catches_any :: "exn_class list \<Rightarrow> exn \<Rightarrow> bool" where
  "catches_any cs e \<longleftrightarrow> list_ex (\<lambda>c. catches c e) cs"

definition is_exception :: "exn \<Rightarrow> bool" where
  "is_exception e \<longleftrightarrow> exn_class e \<noteq> KeyboardInterrupt"

lemma catches_err [simp]:
  "catches c (err d m) \<longleftrightarrow> d = c \<or> base_class d = Some c"
  by (simp add: catches_def)

lemma is_exception_err [simp]: "is_exception (err c m) \<longleftrightarrow> c \<noteq> KeyboardInterrupt"
  by (simp add: is_exception_def)

lemma catches_any_Nil [simp]: "\<not> catches_any [] e"
  by (simp add: catches_any_def)

lemma catches_any_Cons [simp]: "catches_any (c # cs) e \<longleftrightarrow> catches c e \<or> catches_any cs e"
  by (simp add: catches_any_def)

section \<open>Results of code that may raise\<close>

type_synonym 'a res = "exn + 'a"

definition bindR :: "'a res \<Rightarrow> ('a \<Rightarrow> 'b res) \<Rightarrow> 'b res" where
  "bindR r f = (case r of Inl e \<Rightarrow> Inl e | Inr x \<Rightarrow> f x)"

text \<open>\<open>if c: raise e\<close>, and \<open>try: r except (p): raise h\<close>.\<close>

definition raise_if :: "bool \<Rightarrow> exn \<Rightarrow> unit res" where
  "raise_if b e = (if b then Inl e else Inr ())"

definition catchR :: "'a res \<Rightarrow> (exn \<Rightarrow> bool) \<Rightarrow> (exn \<Rightarrow> 'a res) \<Rightarrow> 'a res" where
  "catchR r p h = (case r of Inl e \<Rightarrow> (if p e then h e else Inl e) | Inr x \<Rightarrow> Inr x)"

lemma bindR_simps [simp, res_simps]:
  "bindR (Inl e) f = Inl e" "bindR (Inr x) f = f x"
  by (simp_all add: bindR_def)

lemma catchR_simps [simp, res_simps]:
  "catchR (Inl e) p h = (if p e then h e else Inl e)" "catchR (Inr x) p h = Inr x"
  by (simp_all add: catchR_def)

lemma bindR_eq_Inr_iff [simp]:
  "bindR r f = Inr y \<longleftrightarrow> (\<exists>x. r = Inr x \<and> f x = Inr y)"
  by (cases r) simp_all

lemma bindR_eq_Inl_iff:
  "bindR r f = Inl e \<longleftrightarrow> r = Inl e \<or> (\<exists>x. r = Inr x \<and> f x = Inl e)"
  by (cases r) simp_all

lemma raise_if_eq [simp]:
  "raise_if b e = Inr u \<longleftrightarrow> \<not> b" "raise_if b e = Inl e' \<longleftrightarrow> b \<and> e' = e"
  by (auto simp: raise_if_def)

lemma raise_if_simps [simp, res_simps]:
  "raise_if True e = Inl e" "raise_if False e = Inr ()"
  by (simp_all add: raise_if_def)

lemma catchR_eq_Inr_iff:
  "catchR r p h = Inr y \<longleftrightarrow> r = Inr y \<or> (\<exists>e. r = Inl e \<and> p e \<and> h e = Inr y)"
  by (cases r) auto

definition thenR :: "unit res \<Rightarrow> 'b res \<Rightarrow> 'b res" where
  "thenR r k = bindR r (\<lambda>_. k)"

text \<open>\<open>if b: raise ValueError(m)\<close>\<close>

definition reject :: "bool \<Rightarrow> string \<Rightarrow> unit res" where
  "reject b m = raise_if b (err ValueError m)"

lemma thenR_simps [simp, res_simps]:
  "thenR (Inl e) k = Inl e" "thenR (Inr u) k = k"
  by (simp_all add: thenR_def)

lemma thenR_eq_Inr_iff [simp]: "thenR r k = Inr y \<longleftrightarrow> r = Inr () \<and> k = Inr y"
  by (auto simp: thenR_def)

lemma thenR_eq_Inl_iff: "thenR r k = Inl e \<longleftrightarrow> r = Inl e \<or> r = Inr () \<and> k = Inl e"
  by (auto simp: thenR_def bindR_eq_Inl_iff)

lemma reject_eq [simp]:
  "reject b m = Inr u \<longleftrightarrow> \<not> b" "reject b m = Inl e \<longleftrightarrow> b \<and> e = err ValueError m"
  by (auto simp: reject_def)

lemma reject_simps [simp, res_simps]:
  "reject True m = Inl (err ValueError m)" "reject False m = Inr ()"
  by (simp_all add: reject_def)

text \<open>A comprehension \<open>[f(x) for x in xs]\<close> stops at the first raise.\<close>

fun mapR :: "('a \<Rightarrow> 'b res) \<Rightarrow> 'a list \<Rightarrow> 'b list res" where
  "mapR f [] = Inr []"
| "mapR f (x # xs) = bindR (f x) (\<lambda>y. bindR (mapR f xs) (\<lambda>ys. Inr (y # ys)))"

lemma mapR_Inr_iff: "mapR f xs = Inr ys \<longleftrightarrow> list_all2 (\<lambda>x y. f x = Inr y) xs ys"
  by (induction xs arbitrary: ys) (auto simp: list_all2_Cons1)

lemma mapR_map: "(\<And>x. x \<in> set xs \<Longrightarrow> f (g x) = Inr (h x)) \<Longrightarrow> mapR f (map g xs) = Inr (map h xs)"
  by (induction xs) auto

section \<open>Stateful code that may raise\<close>

text \<open>
  A call reads and changes a state and returns or raises; what it did to the state before
  raising stays done.
\<close>

type_synonym ('s, 'a) io = "'s \<Rightarrow> 'a res \<times> 's"

definition ret :: "'a \<Rightarrow> ('s, 'a) io" where
  "ret x = (\<lambda>s. (Inr x, s))"

definition raise :: "exn \<Rightarrow> ('s, 'a) io" where
  "raise e = (\<lambda>s. (Inl e, s))"

definition lift :: "'a res \<Rightarrow> ('s, 'a) io" where
  "lift r = (\<lambda>s. (r, s))"

definition bind :: "('s, 'a) io \<Rightarrow> ('a \<Rightarrow> ('s, 'b) io) \<Rightarrow> ('s, 'b) io" where
  "bind m f = (\<lambda>s. case m s of (Inl e, s') \<Rightarrow> (Inl e, s') | (Inr x, s') \<Rightarrow> f x s')"

definition seq :: "('s, unit) io \<Rightarrow> ('s, 'b) io \<Rightarrow> ('s, 'b) io" where
  "seq m k = bind m (\<lambda>_. k)"

text \<open>\<open>try: m except (p) as e: h(e)\<close>\<close>

definition try_except :: "('s, 'a) io \<Rightarrow> (exn \<Rightarrow> bool) \<Rightarrow> (exn \<Rightarrow> ('s, 'a) io) \<Rightarrow> ('s, 'a) io" where
  "try_except m p h =
     (\<lambda>s. case m s of
        (Inl e, s') \<Rightarrow> (if p e then h e s' else (Inl e, s'))
      | (Inr x, s') \<Rightarrow> (Inr x, s'))"

text \<open>
  \<open>try: m finally: k\<close>; a raise of \<open>k\<close> replaces the outcome of \<open>m\<close>. The first form
  also gives what the \<open>finally\<close> block computed.
\<close>

definition finally_with :: "('s, 'a) io \<Rightarrow> ('s, 'b) io \<Rightarrow> ('s, 'a \<times> 'b) io" where
  "finally_with m k =
     (\<lambda>s. case m s of (r, s') \<Rightarrow>
        (case k s' of
           (Inl e, s'') \<Rightarrow> (Inl e, s'')
         | (Inr y, s'') \<Rightarrow> (case r of Inl e \<Rightarrow> Inl e | Inr x \<Rightarrow> Inr (x, y), s'')))"

definition try_finally :: "('s, 'a) io \<Rightarrow> ('s, unit) io \<Rightarrow> ('s, 'a) io" where
  "try_finally m k = bind (finally_with m k) (\<lambda>(x, _). ret x)"

lemma io_basic_simps [simp, io_simps]:
  "ret x s = (Inr x, s)" "raise e s = (Inl e, s)" "lift r s = (r, s)"
  by (simp_all add: ret_def raise_def lift_def)

lemma bind_apply: "bind m f s = (case m s of (Inl e, s') \<Rightarrow> (Inl e, s') | (Inr x, s') \<Rightarrow> f x s')"
  by (simp add: bind_def)

lemma seq_apply: "seq m k s = (case m s of (Inl e, s') \<Rightarrow> (Inl e, s') | (Inr x, s') \<Rightarrow> k s')"
  by (simp add: seq_def bind_def)

lemma bind_ret_map: "bind (bind m (\<lambda>x. ret (f x))) g = bind m (\<lambda>x. g (f x))"
  by (auto simp: bind_def ret_def fun_eq_iff split: prod.splits sum.splits)

lemma bind_eq_iff:
  "bind m f s = (r, s') \<longleftrightarrow>
     (\<exists>e. m s = (Inl e, s') \<and> r = Inl e) \<or> (\<exists>x s1. m s = (Inr x, s1) \<and> f x s1 = (r, s'))"
  by (auto simp: bind_def split: prod.splits sum.splits)

lemma seq_eq_iff:
  "seq m k s = (r, s') \<longleftrightarrow>
     (\<exists>e. m s = (Inl e, s') \<and> r = Inl e) \<or> (\<exists>s1. m s = (Inr (), s1) \<and> k s1 = (r, s'))"
  by (auto simp: seq_def bind_eq_iff)

lemma try_except_eq_iff:
  "try_except m p h s = (r, s') \<longleftrightarrow>
     (\<exists>e. m s = (Inl e, s') \<and> \<not> p e \<and> r = Inl e)
   \<or> (\<exists>e s1. m s = (Inl e, s1) \<and> p e \<and> h e s1 = (r, s'))
   \<or> (\<exists>x. m s = (Inr x, s') \<and> r = Inr x)"
  by (auto simp: try_except_def split: prod.splits sum.splits)

lemma finally_with_eq_iff:
  "finally_with m k s = (r, s') \<longleftrightarrow>
     (\<exists>q s1. m s = (q, s1) \<and>
        ((\<exists>e. k s1 = (Inl e, s') \<and> r = Inl e)
       \<or> (\<exists>y. k s1 = (Inr y, s') \<and> (case q of Inl e \<Rightarrow> r = Inl e | Inr x \<Rightarrow> r = Inr (x, y)))))"
  by (auto simp: finally_with_def split: prod.splits sum.splits)

lemma finally_with_result:
  assumes "finally_with m k s = (q, s4)" "m s = (r, s3)" "k s3 = (qc, s5)"
  shows "s5 = s4 \<and> q = (case qc of Inl e \<Rightarrow> Inl e | Inr y \<Rightarrow>
      (case r of Inl e \<Rightarrow> Inl e | Inr x \<Rightarrow> Inr (x, y)))"
  using assms by (auto simp: finally_with_def split: sum.splits)

lemma bind_lift_simps [simp, io_simps]:
  "bind (ret x) f = f x" "bind (raise e) f = raise e"
  "bind (lift (Inr x)) f = f x" "bind (lift (Inl e)) f = raise e"
  by (simp_all add: bind_def ret_def raise_def lift_def fun_eq_iff)

text \<open>A transcript: the state of the world with the list of the calls made so far.\<close>

record ('w, 'o) tstate =
  world :: 'w
  trace :: "'o list"

text \<open>Call a dependency of the code and record the call with what it returned.\<close>

definition perform ::
  "('w, 'a) io \<Rightarrow> ('a res \<Rightarrow> 'o) \<Rightarrow> (('w, 'o, 'z) tstate_scheme, 'a) io" where
  "perform f ob = (\<lambda>s. case f (world s) of
     (r, w) \<Rightarrow> (r, s\<lparr>world := w, trace := trace s @ [ob r]\<rparr>))"

lemma perform_eq_iff:
  "perform f ob s = (r, s') \<longleftrightarrow>
     (\<exists>w. f (world s) = (r, w) \<and> s' = s\<lparr>world := w, trace := trace s @ [ob r]\<rparr>)"
  by (auto simp: perform_def split: prod.splits)

lemmas io_iffs = bind_eq_iff seq_eq_iff try_except_eq_iff finally_with_eq_iff perform_eq_iff

text \<open>Every raise of \<open>m\<close> is as \<open>P\<close> says.\<close>

definition raises :: "(exn \<Rightarrow> bool) \<Rightarrow> ('w, 'a) io \<Rightarrow> bool" where
  "raises P m \<longleftrightarrow> (\<forall>w e. fst (m w) = Inl e \<longrightarrow> P e)"

lemma perform_run:
  assumes "perform m ob s = (r, s')"
  shows "trace s' = trace s @ [ob r]" "raises P m \<Longrightarrow> r = Inl e \<Longrightarrow> P e"
    "\<exists>w. s' = s\<lparr>world := w, trace := trace s @ [ob r]\<rparr>"
  using assms by (auto simp: perform_eq_iff raises_def) (metis fst_conv)

end
