(* ===== verification/PyText.thy ===== *)
theory PyText
  imports Prelude
begin

text \<open>
  The operations on \<open>str\<close> and \<open>bytes\<close> the sources use: \<open>strip\<close>, \<open>startswith\<close>,
  \<open>removeprefix\<close>, strict UTF-8 in both directions, decimal integers and the compact JSON
  of \<open>json.dumps(..., ensure_ascii=False, separators=(",", ":"))\<close>. The JSON text of a
  value determines the value (\<open>dumps_inject\<close>), and so do its UTF-8 octets.
\<close>

section \<open>Stripping and prefixes\<close>

definition py_isspace :: "nat \<Rightarrow> bool" where
  "py_isspace c \<longleftrightarrow> 9 \<le> c \<and> c \<le> 13 \<or> 28 \<le> c \<and> c \<le> 32 \<or> c = 133 \<or> c = 160 \<or> c = 5760
     \<or> 8192 \<le> c \<and> c \<le> 8202 \<or> c = 8232 \<or> c = 8233 \<or> c = 8239 \<or> c = 8287 \<or> c = 12288"

definition strip :: "pystr \<Rightarrow> pystr" where
  "strip s = rev (dropWhile py_isspace (rev (dropWhile py_isspace s)))"

text \<open>\<open>not s.strip()\<close>, the test every constructor makes.\<close>

definition blank :: "pystr \<Rightarrow> bool" where
  "blank s \<longleftrightarrow> strip s = []"

lemma blank_iff: "blank s \<longleftrightarrow> (\<forall>c \<in> set s. py_isspace c)"
proof
  assume "blank s"
  then have "\<forall>c \<in> set (dropWhile py_isspace s). py_isspace c"
    by (simp add: blank_def strip_def dropWhile_eq_Nil_conv)
  moreover have "c \<in> set (dropWhile py_isspace s)" if "c \<in> set s" "\<not> py_isspace c" for c
    using that by (induction s) (auto split: if_splits)
  ultimately show "\<forall>c \<in> set s. py_isspace c" by blast
next
  assume "\<forall>c \<in> set s. py_isspace c"
  then show "blank s"
    by (auto simp: blank_def strip_def dropWhile_eq_Nil_conv dest: set_dropWhileD)
qed

lemma blank_Nil [simp]: "blank []"
  by (simp add: blank_iff)

lemma not_blank_Nil: "\<not> blank s \<Longrightarrow> s \<noteq> []"
  by auto

definition startswith :: "pystr \<Rightarrow> pystr \<Rightarrow> bool" where
  "startswith s p \<longleftrightarrow> take (length p) s = p"

definition removeprefix :: "pystr \<Rightarrow> pystr \<Rightarrow> pystr" where
  "removeprefix s p = (if startswith s p then drop (length p) s else s)"

lemma startswith_append [simp]: "startswith (p @ s) p"
  by (simp add: startswith_def)

lemma removeprefix_append [simp]: "removeprefix (p @ s) p = s"
  by (simp add: removeprefix_def)

lemma startswith_removeprefix: "startswith s p \<Longrightarrow> p @ removeprefix s p = s"
  by (metis append_take_drop_id removeprefix_def startswith_def)

lemma startswith_not_blank:
  "startswith s p \<Longrightarrow> \<not> blank p \<Longrightarrow> \<not> blank s"
  by (auto simp: startswith_def blank_iff dest: in_set_takeD) (metis in_set_takeD)

section \<open>UTF-8\<close>

definition surrogate :: "nat \<Rightarrow> bool" where
  "surrogate c \<longleftrightarrow> 55296 \<le> c \<and> c \<le> 57343"

definition encodable :: "nat \<Rightarrow> bool" where
  "encodable c \<longleftrightarrow> c < 1114112 \<and> \<not> surrogate c"

definition byte :: "nat \<Rightarrow> 8 word" where
  "byte n = word_of_nat n"

lemma byte_unat: "byte (unat b) = b"
  by (simp add: byte_def)

definition utf8_char :: "nat \<Rightarrow> bytes" where
  "utf8_char c =
     (if c < 128 then [byte c]
      else if c < 2048 then [byte (192 + c div 64), byte (128 + c mod 64)]
      else if c < 65536 then
        [byte (224 + c div 4096), byte (128 + c div 64 mod 64),
         byte (128 + c mod 64)]
      else
        [byte (240 + c div 262144), byte (128 + c div 4096 mod 64),
         byte (128 + c div 64 mod 64), byte (128 + c mod 64)])"

definition utf8_encode :: "pystr \<Rightarrow> bytes res" where
  "utf8_encode s =
     (if list_all encodable s then Inr (concat (map utf8_char s))
      else Inl (err UnicodeEncodeError ''surrogates not allowed''))"

definition cont_byte :: "8 word \<Rightarrow> bool" where
  "cont_byte b \<longleftrightarrow> 128 \<le> unat b \<and> unat b < 192"

definition low6 :: "8 word \<Rightarrow> nat" where
  "low6 b = unat b - 128"

fun utf8_scan :: "bytes \<Rightarrow> pystr option" where
  "utf8_scan [] = Some []"
| "utf8_scan (b # bs) =
     (let n = unat b in
      if n < 128 then map_option (Cons n) (utf8_scan bs)
      else if 194 \<le> n \<and> n < 224 then
        (case bs of
           b1 # r \<Rightarrow>
             if cont_byte b1 then map_option (Cons ((n - 192) * 64 + low6 b1)) (utf8_scan r)
             else None
         | _ \<Rightarrow> None)
      else if 224 \<le> n \<and> n < 240 then
        (case bs of
           b1 # b2 # r \<Rightarrow>
             (let c = (n - 224) * 4096 + low6 b1 * 64 + low6 b2 in
              if cont_byte b1 \<and> cont_byte b2 \<and> 2048 \<le> c \<and> \<not> surrogate c
              then map_option (Cons c) (utf8_scan r) else None)
         | _ \<Rightarrow> None)
      else if 240 \<le> n \<and> n < 245 then
        (case bs of
           b1 # b2 # b3 # r \<Rightarrow>
             (let c = (n - 240) * 262144 + low6 b1 * 4096 + low6 b2 * 64 + low6 b3 in
              if cont_byte b1 \<and> cont_byte b2 \<and> cont_byte b3 \<and> 65536 \<le> c \<and> c < 1114112
              then map_option (Cons c) (utf8_scan r) else None)
         | _ \<Rightarrow> None)
      else None)"

definition utf8_decode :: "bytes \<Rightarrow> pystr res" where
  "utf8_decode bs = (case utf8_scan bs of
     None \<Rightarrow> Inl (err UnicodeDecodeError ''invalid utf-8'') | Some s \<Rightarrow> Inr s)"

lemma unat_byte [simp]: "n < 256 \<Longrightarrow> unat (byte n) = n"
  by (simp add: byte_def unat_of_nat)

lemma byte_eq_iff: "m < 256 \<Longrightarrow> n < 256 \<Longrightarrow> byte m = byte n \<longleftrightarrow> m = n"
  by (metis unat_byte)

lemma cont_byte_of_nat: "n < 64 \<Longrightarrow> cont_byte (byte (128 + n)) \<and> low6 (byte (128 + n)) = n"
  by (simp add: cont_byte_def low6_def)

lemma split6: "(c::nat) div 64 * 64 + c mod 64 = c"
  by simp

lemma split12: "c div 4096 * 4096 + c div 64 mod 64 * 64 + c mod 64 = (c::nat)"
proof -
  have "c div 4096 = c div 64 div 64" by (simp add: div_mult2_eq)
  then have "c div 4096 * 4096 + c div 64 mod 64 * 64 = c div 64 * 64"
    using split6 [of "c div 64"] by linarith
  then show ?thesis by simp
qed

lemma split18:
  "c div 262144 * 262144 + c div 4096 mod 64 * 4096 + c div 64 mod 64 * 64 + c mod 64 = (c::nat)"
proof -
  have "c div 262144 = c div 4096 div 64" by (simp add: div_mult2_eq)
  then have "c div 262144 * 262144 + c div 4096 mod 64 * 4096 = c div 4096 * 4096"
    using split6 [of "c div 4096"] by linarith
  then show ?thesis using split12 [of c] by linarith
qed

lemma utf8_scan_char:
  assumes "encodable c"
  shows "utf8_scan (utf8_char c @ bs) = map_option (Cons c) (utf8_scan bs)"
proof -
  have m: "c mod 64 < 64" "c div 64 mod 64 < 64" "c div 4096 mod 64 < 64" by simp_all
  note cb = cont_byte_of_nat [OF m(1)] cont_byte_of_nat [OF m(2)] cont_byte_of_nat [OF m(3)]
  consider "c < 128" | "128 \<le> c" "c < 2048" | "2048 \<le> c" "c < 65536"
    | "65536 \<le> c" "c < 1114112"
    using assms by (auto simp: encodable_def) (metis not_less)
  then show ?thesis
  proof cases
    case 1
    then show ?thesis by (simp add: utf8_char_def)
  next
    case 2
    then have "2 \<le> c div 64" "c div 64 < 32" by auto
    with 2 cb show ?thesis by (simp add: utf8_char_def Let_def)
  next
    case 3
    then have "c div 4096 < 16" by auto
    with 3 cb assms show ?thesis
      by (simp add: utf8_char_def Let_def split12 encodable_def)
  next
    case 4
    then have "c div 262144 < 5" by auto
    with 4 cb assms show ?thesis
      by (simp add: utf8_char_def Let_def split18 encodable_def)
  qed
qed

lemma utf8_scan_encode: "list_all encodable s \<Longrightarrow> utf8_scan (concat (map utf8_char s)) = Some s"
  by (induction s) (simp_all add: utf8_scan_char)

lemma utf8_roundtrip: "utf8_encode s = Inr bs \<Longrightarrow> utf8_decode bs = Inr s"
  by (auto simp: utf8_encode_def utf8_decode_def utf8_scan_encode split: if_splits)

lemma utf8_encode_inject: "utf8_encode s = Inr bs \<Longrightarrow> utf8_encode t = Inr bs \<Longrightarrow> s = t"
  by (drule utf8_roundtrip)+ simp

lemma utf8_encode_error: "utf8_encode s = Inl e \<Longrightarrow> e = err UnicodeEncodeError ''surrogates not allowed''"
  by (simp add: utf8_encode_def split: if_splits)

lemma utf8_decode_error: "utf8_decode s = Inl e \<Longrightarrow> e = err UnicodeDecodeError ''invalid utf-8''"
  by (simp add: utf8_decode_def split: option.splits)

lemma utf8_encode_Inr: "(\<exists>bs. utf8_encode s = Inr bs) \<longleftrightarrow> list_all encodable s"
  by (simp add: utf8_encode_def)

lemma encodable_lit: "list_all encodable (lit s)"
proof -
  have "encodable (of_char c)" for c :: char
    using nat_of_char_less_256 [of c] by (auto simp: encodable_def surrogate_def simp del: nat_of_char_less_256)
  then show ?thesis by (simp add: lit_def list_all_iff)
qed

section \<open>Decimal integers\<close>

fun dec_nat :: "nat \<Rightarrow> pystr" where
  "dec_nat n = (if n < 10 then [48 + n] else dec_nat (n div 10) @ [48 + n mod 10])"

declare dec_nat.simps [simp del]

definition dec_int :: "int \<Rightarrow> pystr" where
  "dec_int i = (if i < 0 then 45 # dec_nat (nat (- i)) else dec_nat (nat i))"

definition undec :: "pystr \<Rightarrow> nat" where
  "undec s = foldl (\<lambda>a d. 10 * a + (d - 48)) 0 s"

lemma undec_dec_nat: "undec (dec_nat n) = n"
proof (induction n rule: dec_nat.induct)
  case (1 n)
  then show ?case
    by (cases "n < 10") (simp_all add: dec_nat.simps [of n] undec_def)
qed

lemma dec_nat_digits: "\<forall>d \<in> set (dec_nat n). 48 \<le> d \<and> d \<le> 57"
proof (induction n rule: dec_nat.induct)
  case (1 n)
  then show ?case
    by (cases "n < 10") (auto simp: dec_nat.simps [of n])
qed

lemma dec_nat_not_Nil [simp]: "dec_nat n \<noteq> []"
  by (subst dec_nat.simps) simp

lemma dec_int_chars: "\<forall>d \<in> set (dec_int i). 48 \<le> d \<and> d \<le> 57 \<or> d = 45"
  by (auto simp: dec_int_def dec_nat_digits)

lemma dec_int_inject: "dec_int i = dec_int j \<Longrightarrow> i = j"
proof -
  have hd: "dec_nat n \<noteq> 45 # s" for n s
    using dec_nat_digits [of n] by auto
  have inj: "dec_nat m = dec_nat n \<Longrightarrow> m = n" for m n
    by (metis undec_dec_nat)
  assume "dec_int i = dec_int j"
  then show "i = j"
    by (auto simp: dec_int_def hd hd [symmetric] nat_eq_iff2 eq_nat_nat_iff dest!: inj split: if_splits)
qed

lemma dec_int_not_Nil [simp]: "dec_int i \<noteq> []"
  by (simp add: dec_int_def)

section \<open>Compact JSON\<close>

datatype json = JNull | JInt int | JStr pystr | JList "json list"

definition short_escape :: "nat \<Rightarrow> nat option" where
  "short_escape c =
     (if c = 34 then Some 34 else if c = 92 then Some 92 else if c = 10 then Some 110
      else if c = 13 then Some 114 else if c = 9 then Some 116 else if c = 12 then Some 102
      else if c = 8 then Some 98 else None)"

definition hex_digit :: "nat \<Rightarrow> nat" where
  "hex_digit d = (if d < 10 then 48 + d else 87 + d)"

definition json_escape :: "nat \<Rightarrow> pystr" where
  "json_escape c = (case short_escape c of
       Some k \<Rightarrow> [92, k]
     | None \<Rightarrow> if c < 32 then [92, 117, 48, 48, hex_digit (c div 16), hex_digit (c mod 16)]
               else [c])"

definition dumps_str :: "pystr \<Rightarrow> pystr" where
  "dumps_str s = 34 # concat (map json_escape s) @ [34]"

fun dumps :: "json \<Rightarrow> pystr" where
  "dumps JNull = lit ''null''"
| "dumps (JInt i) = dec_int i"
| "dumps (JStr s) = dumps_str s"
| "dumps (JList []) = [91, 93]"
| "dumps (JList (x # xs)) = 91 # dumps x @ concat (map (\<lambda>y. 44 # dumps y) xs) @ [93]"

text \<open>
  Every value ends where a comma, a closing bracket or the end of the text follows it, so
  the text before that point determines the value.
\<close>

definition delimited :: "pystr \<Rightarrow> bool" where
  "delimited r \<longleftrightarrow> (case r of [] \<Rightarrow> True | c # _ \<Rightarrow> c = 44 \<or> c = 93)"

lemma delimited_simps [simp]: "delimited []" "delimited (c # r) \<longleftrightarrow> c = 44 \<or> c = 93"
  by (simp_all add: delimited_def)

lemma hex_digit_inject: "c < 32 \<Longrightarrow> d < 32 \<Longrightarrow> hex_digit (c div 16) = hex_digit (d div 16) \<Longrightarrow>
    hex_digit (c mod 16) = hex_digit (d mod 16) \<Longrightarrow> c = d"
proof -
  have inj: "hex_digit m = hex_digit n \<Longrightarrow> m < 16 \<Longrightarrow> n < 16 \<Longrightarrow> m = n" for m n
    by (auto simp: hex_digit_def split: if_splits)
  assume "c < 32" "d < 32" "hex_digit (c div 16) = hex_digit (d div 16)"
    "hex_digit (c mod 16) = hex_digit (d mod 16)"
  then have "c div 16 = d div 16" "c mod 16 = d mod 16"
    by (auto intro!: inj)
  then show "c = d" by (metis div_mult_mod_eq)
qed

lemma json_escape_cases:
  obtains (short) k where "short_escape c = Some k" "k \<noteq> 117" "json_escape c = [92, k]"
  | (control) "short_escape c = None" "c < 32"
      "json_escape c = [92, 117, 48, 48, hex_digit (c div 16), hex_digit (c mod 16)]"
  | (plain) "short_escape c = None" "json_escape c = [c]" "c \<noteq> 34" "c \<noteq> 92"
proof (cases "short_escape c")
  case None
  then show thesis
    by (cases "c < 32") (auto intro: control plain simp: json_escape_def short_escape_def split: if_splits)
next
  case (Some k)
  then have "k \<noteq> 117" by (auto simp: short_escape_def split: if_splits)
  with Some show thesis by (auto intro: short simp: json_escape_def)
qed

lemma short_escape_inject: "short_escape c = Some k \<Longrightarrow> short_escape d = Some k \<Longrightarrow> c = d"
  by (auto simp: short_escape_def split: if_splits)

lemma json_escape_prefix:
  assumes "json_escape c @ r = json_escape d @ r'"
  shows "c = d \<and> r = r'"
  by (cases c rule: json_escape_cases; cases d rule: json_escape_cases)
     (use assms in \<open>auto dest: short_escape_inject intro: hex_digit_inject\<close>)

lemma json_escape_quote: "json_escape c @ r \<noteq> 34 # r'"
  by (cases c rule: json_escape_cases) auto

lemma escaped_inject:
  "concat (map json_escape s) @ 34 # r = concat (map json_escape t) @ 34 # r' \<Longrightarrow> s = t \<and> r = r'"
proof (induction s arbitrary: t)
  case Nil
  then show ?case
    by (cases t) (auto simp: json_escape_quote dest: sym)
next
  case (Cons c s)
  then obtain d u where t: "t = d # u"
    using json_escape_quote by (cases t) auto
  with Cons.prems have "c = d \<and> concat (map json_escape s) @ 34 # r = concat (map json_escape u) @ 34 # r'"
    by (intro json_escape_prefix) simp
  with Cons.IH t show ?case by blast
qed

lemma dec_int_delimited:
  assumes "dec_int i @ r = dec_int j @ r'" "delimited r" "delimited r'"
  shows "i = j \<and> r = r'"
proof -
  have split: "takeWhile (\<lambda>c. c \<noteq> 44 \<and> c \<noteq> 93) (dec_int k @ q) = dec_int k
      \<and> dropWhile (\<lambda>c. c \<noteq> 44 \<and> c \<noteq> 93) (dec_int k @ q) = q" if "delimited q" for k q
  proof -
    have "\<forall>c \<in> set (dec_int k). c \<noteq> 44 \<and> c \<noteq> 93" using dec_int_chars by fastforce
    with that show ?thesis
      by (cases q) (auto simp: takeWhile_append2 dropWhile_append2)
  qed
  have "dec_int i = dec_int j" "r = r'"
    using split [OF assms(2), of i, unfolded assms(1)] split [OF assms(3), of j] by argo+
  then show ?thesis by (simp add: dec_int_inject)
qed

fun kind :: "json \<Rightarrow> nat" where
  "kind JNull = 110"
| "kind (JInt _) = 48"
| "kind (JStr _) = 34"
| "kind (JList _) = 91"

lemma dumps_head:
  "\<exists>h t. dumps x = h # t \<and> kind x = (if h = 110 \<or> h = 34 \<or> h = 91 then h else 48) \<and> h \<noteq> 93"
proof (cases x)
  case (JInt i)
  moreover obtain h t where ht: "dec_int i = h # t"
    by (cases "dec_int i") simp_all
  moreover have "48 \<le> h \<and> h \<le> 57 \<or> h = 45"
    using dec_int_chars [of i] ht by simp
  ultimately show ?thesis by simp linarith
next
  case (JList xs)
  then show ?thesis by (cases xs) auto
qed (auto simp: lit_def dumps_str_def)

lemma dumps_kind: "dumps x @ r = dumps y @ r' \<Longrightarrow> kind x = kind y"
  using dumps_head [of x] dumps_head [of y] by (elim exE conjE) simp

lemma dumps_not_bracket: "dumps x @ r \<noteq> 93 # r'"
  using dumps_head [of x] by auto

lemma dumps_items_inject:
  assumes "\<And>x y r r'. x \<in> set xs \<Longrightarrow> dumps x @ r = dumps y @ r' \<Longrightarrow> delimited r \<Longrightarrow>
      delimited r' \<Longrightarrow> x = y \<and> r = r'"
    and "concat (map (\<lambda>y. 44 # dumps y) xs) @ 93 # r = concat (map (\<lambda>y. 44 # dumps y) ys) @ 93 # r'"
  shows "xs = ys \<and> r = r'"
  using assms
proof (induction xs arbitrary: ys)
  case Nil
  then show ?case by (cases ys) auto
next
  case (Cons x xs)
  from Cons.prems(2) obtain y zs where ys: "ys = y # zs" by (cases ys) auto
  let ?rest = "\<lambda>us q. concat (map (\<lambda>y. 44 # dumps y) us) @ 93 # q"
  have d: "delimited (?rest us q)" for us q by (cases us) auto
  from Cons.prems(2) ys have "dumps x @ ?rest xs r = dumps y @ ?rest zs r'" by simp
  then have "x = y \<and> ?rest xs r = ?rest zs r'"
    using Cons.prems(1) d by (meson list.set_intros(1))
  moreover have "xs = zs \<and> r = r'" if "?rest xs r = ?rest zs r'"
    using Cons.IH [OF _ that] Cons.prems(1) by (meson list.set_intros(2))
  ultimately show ?case using ys by simp
qed

lemma dumps_delimited:
  "dumps x @ r = dumps y @ r' \<Longrightarrow> delimited r \<Longrightarrow> delimited r' \<Longrightarrow> x = y \<and> r = r'"
proof (induction x arbitrary: y r r')
  case JNull
  have "kind y = 110" using dumps_kind [OF JNull.prems(1)] by simp
  then have "y = JNull" by (cases y) simp_all
  with JNull show ?case by simp
next
  case (JInt i)
  have "kind y = 48" using dumps_kind [OF JInt.prems(1)] by simp
  then obtain j where "y = JInt j" by (cases y) simp_all
  with JInt show ?case by (auto dest: dec_int_delimited)
next
  case (JStr s)
  have "kind y = 34" using dumps_kind [OF JStr.prems(1)] by simp
  then obtain t where "y = JStr t" by (cases y) simp_all
  with JStr.prems(1) show ?case
    using escaped_inject [of s r t r'] by (simp add: dumps_str_def)
next
  case (JList xs)
  have "kind y = 91" using dumps_kind [OF JList.prems(1)] by simp
  then obtain ys where y: "y = JList ys" by (cases y) simp_all
  show ?case
  proof (cases xs)
    case Nil
    with JList.prems(1) y show ?thesis
      by (cases ys) (auto simp: dumps_not_bracket dest: sym)
  next
    case (Cons x us)
    with JList.prems(1) y obtain z vs where ys: "ys = z # vs"
      by (cases ys) (auto simp: dumps_not_bracket)
    let ?rest = "\<lambda>us q. concat (map (\<lambda>y. 44 # dumps y) us) @ 93 # q"
    have d: "delimited (?rest us q)" for us q by (cases us) auto
    have e: "dumps x @ ?rest us r = dumps z @ ?rest vs r'"
      using JList.prems(1) Cons y ys by simp
    have "x \<in> set xs" using Cons by simp
    from JList.IH [OF this e d d] have xz: "x = z" and rest: "?rest us r = ?rest vs r'"
      by blast+
    have "us = vs \<and> r = r'"
      by (rule dumps_items_inject [OF _ rest]) (use JList.IH Cons in auto)
    with xz Cons y ys show ?thesis by simp
  qed
qed

lemma dumps_inject: "dumps x = dumps y \<Longrightarrow> x = y"
  using dumps_delimited [of x "[]" y "[]"] by simp

end
