(* ===== verification/PyTime.thy ===== *)
theory PyTime
  imports PyText
begin

text \<open>
  The \<open>datetime\<close> values the sources handle: microseconds on the local calendar from
  0001-01-01 on, with what the value's \<open>tzinfo\<close> answers. Comparison, \<open>max\<close>,
  \<open>astimezone(UTC)\<close> and \<open>isoformat\<close> behave as in the standard library.
\<close>

section \<open>Datetimes\<close>

datatype tzinfo = NoTz | TzWithoutOffset | TzOffset int

record datetime =
  local_us :: int
  tz :: tzinfo

definition utcoffset :: "datetime \<Rightarrow> int option" where
  "utcoffset d = (case tz d of TzOffset k \<Rightarrow> Some k | _ \<Rightarrow> None)"

text \<open>\<open>value.tzinfo is None or value.utcoffset() is None\<close> is the negation of this.\<close>

definition aware :: "datetime \<Rightarrow> bool" where
  "aware d \<longleftrightarrow> \<not> (tz d = NoTz \<or> utcoffset d = None)"

definition utc_us :: "datetime \<Rightarrow> int" where
  "utc_us d = local_us d - (case utcoffset d of None \<Rightarrow> 0 | Some k \<Rightarrow> k)"

definition dt_less :: "datetime \<Rightarrow> datetime \<Rightarrow> bool res" where
  "dt_less a b =
     (if (utcoffset a = None) \<noteq> (utcoffset b = None)
      then Inl (err TypeError ''can't compare offset-naive and offset-aware datetimes'')
      else Inr (utc_us a < utc_us b))"

text \<open>\<open>max(a, b)\<close> keeps \<open>a\<close> unless \<open>b > a\<close>.\<close>

definition dt_max :: "datetime \<Rightarrow> datetime \<Rightarrow> datetime res" where
  "dt_max a b = bindR (dt_less a b) (\<lambda>lt. Inr (if lt then b else a))"

lemma aware_iff: "aware d \<longleftrightarrow> (\<exists>k. tz d = TzOffset k)"
  by (cases "tz d") (simp_all add: aware_def utcoffset_def)

lemma aware_utcoffset: "aware d \<longleftrightarrow> utcoffset d \<noteq> None"
  by (cases "tz d") (simp_all add: aware_def utcoffset_def)

lemma dt_less_aware [simp]: "aware a \<Longrightarrow> aware b \<Longrightarrow> dt_less a b = Inr (utc_us a < utc_us b)"
  by (simp add: dt_less_def aware_utcoffset)

lemma dt_max_aware [simp]:
  "aware a \<Longrightarrow> aware b \<Longrightarrow> dt_max a b = Inr (if utc_us a < utc_us b then b else a)"
  by (simp add: dt_max_def)

lemma dt_max_Inr_aware:
  "dt_max a b = Inr m \<Longrightarrow> aware b \<Longrightarrow> aware m \<and> utc_us b \<le> utc_us m"
  by (auto simp: dt_max_def dt_less_def aware_utcoffset split: if_splits)

section \<open>Calendar and ISO text\<close>

definition us_per_day :: int where
  "us_per_day = 86400000000"

definition max_us :: int where
  "max_us = 3652059 * us_per_day"

definition utc :: "int \<Rightarrow> datetime" where
  "utc u = \<lparr>local_us = u, tz = TzOffset 0\<rparr>"

lemma utc_simps [simp]: "aware (utc u)" "utc_us (utc u) = u"
  by (simp_all add: utc_def aware_def utc_us_def utcoffset_def)

definition astimezone_utc :: "datetime \<Rightarrow> datetime res" where
  "astimezone_utc d =
     (if 0 \<le> utc_us d \<and> utc_us d < max_us then Inr (utc (utc_us d))
      else Inl (err OverflowError ''date value out of range''))"

definition days_before_month :: "int \<Rightarrow> int" where
  "days_before_month m = [0, 0, 31, 59, 90, 120, 151, 181, 212, 243, 273, 304, 334] ! nat m"

definition days_in_month :: "int \<Rightarrow> bool \<Rightarrow> int" where
  "days_in_month m leap =
     (if m = 2 \<and> leap then 29
      else [0, 31, 28, 31, 30, 31, 30, 31, 31, 30, 31, 30, 31] ! nat m)"

text \<open>\<open>_ord2ymd\<close> of the standard library, on the day number counted from 0.\<close>

definition ymd_of_day :: "int \<Rightarrow> int \<times> int \<times> int" where
  "ymd_of_day day =
     (let n400 = day div 146097; r400 = day mod 146097;
          n100 = r400 div 36524; r100 = r400 mod 36524;
          n4 = r100 div 1461; r4 = r100 mod 1461;
          n1 = r4 div 365; n = r4 mod 365;
          year = n400 * 400 + 1 + n100 * 100 + n4 * 4 + n1
      in if n1 = 4 \<or> n100 = 4 then (year - 1, 12, 31)
         else
           let leap = (n1 = 3 \<and> (n4 \<noteq> 24 \<or> n100 = 3));
               month = (n + 50) div 32;
               preceding = days_before_month month + (if month > 2 \<and> leap then 1 else 0)
           in if preceding > n
              then (year, month - 1,
                n - (preceding - days_in_month (month - 1) leap) + 1)
              else (year, month, n - preceding + 1))"

definition pad :: "nat \<Rightarrow> int \<Rightarrow> pystr" where
  "pad w n = replicate (w - length (dec_int n)) 48 @ dec_int n"

text \<open>
  \<open>isoformat(timespec="microseconds").replace("+00:00", "Z")\<close> of a UTC value: the offset
  is the only place of the text where \<open>+\<close> occurs.
\<close>

definition isoformat_z :: "datetime \<Rightarrow> pystr" where
  "isoformat_z d =
     (let u = local_us d; r = u mod us_per_day; secs = r div 1000000
      in case ymd_of_day (u div us_per_day) of (y, m, dd) \<Rightarrow>
         pad 4 y @ [45] @ pad 2 m @ [45] @ pad 2 dd @ [84]
         @ pad 2 (secs div 3600) @ [58] @ pad 2 (secs div 60 mod 60) @ [58]
         @ pad 2 (secs mod 60) @ [46] @ pad 6 (r mod 1000000) @ [90])"

end
