(* ===== verification/Domain.thy ===== *)
theory Domain
  imports PyTime
begin

text \<open>
  The entities of \<open>src/domain\<close> and of the ports: records with the fields of the
  dataclasses and, for each, the constructor with the checks of its \<open>__post_init__\<close> in
  their order. The fields are statically typed here, so the \<open>isinstance\<close> tests of the
  sources on them have no branch. Each constructor returns a value exactly when the
  entity's invariant holds.
\<close>

named_theorems entity_defs \<open>constructors and invariants of the entities\<close>

section \<open>Access (\<open>domain/access.py\<close>)\<close>

datatype access_action = OPEN_PRIVILEGED_SESSION

datatype access_effect = ALLOW | DENY | REQUIRES_APPROVAL

definition action_value :: "access_action \<Rightarrow> pystr" where
  "action_value a = lit ''open_privileged_session''"

fun effect_value :: "access_effect \<Rightarrow> pystr" where
  "effect_value ALLOW = lit ''allow''"
| "effect_value DENY = lit ''deny''"
| "effect_value REQUIRES_APPROVAL = lit ''requires_approval''"

text \<open>\<open>AccessAction(value)\<close> and \<open>AccessEffect(value)\<close>\<close>

definition action_of_value :: "pystr \<Rightarrow> access_action res" where
  "action_of_value v =
     (if v = lit ''open_privileged_session'' then Inr OPEN_PRIVILEGED_SESSION
      else Inl (err ValueError ''not a valid AccessAction''))"

definition effect_of_value :: "pystr \<Rightarrow> access_effect res" where
  "effect_of_value v =
     (if v = lit ''allow'' then Inr ALLOW
      else if v = lit ''deny'' then Inr DENY
      else if v = lit ''requires_approval'' then Inr REQUIRES_APPROVAL
      else Inl (err ValueError ''not a valid AccessEffect''))"

lemma action_of_value_value [simp]: "action_of_value (action_value a) = Inr a"
  by (cases a) (simp add: action_of_value_def action_value_def)

lemma effect_of_value_value [simp]: "effect_of_value (effect_value e) = Inr e"
  by (cases e) (simp_all add: effect_of_value_def)

record access_decision =
  dec_effect :: access_effect
  dec_reason :: pystr

record access_policy =
  pol_id :: pystr
  pol_user_id :: pystr
  pol_target_id :: pystr
  pol_action :: access_action
  pol_effect :: access_effect

record access_request =
  req_id :: pystr
  req_user_id :: pystr
  req_target_id :: pystr
  req_action :: access_action
  req_requested_at :: datetime

definition mk_access_policy ::
  "pystr \<Rightarrow> pystr \<Rightarrow> pystr \<Rightarrow> access_action \<Rightarrow> access_effect \<Rightarrow> access_policy res" where
  "mk_access_policy i u t a e =
     thenR (reject (blank i) ''access policy id cannot be empty'')
    (thenR (reject (blank u) ''user id cannot be empty'')
    (thenR (reject (blank t) ''target id cannot be empty'')
    (Inr \<lparr>pol_id = i, pol_user_id = u, pol_target_id = t, pol_action = a, pol_effect = e\<rparr>)))"

definition mk_access_request ::
  "pystr \<Rightarrow> pystr \<Rightarrow> pystr \<Rightarrow> access_action \<Rightarrow> datetime \<Rightarrow> access_request res" where
  "mk_access_request i u t a d =
     thenR (reject (blank i) ''access request id cannot be empty'')
    (thenR (reject (blank u) ''user id cannot be empty'')
    (thenR (reject (blank t) ''target id cannot be empty'')
    (thenR (reject (\<not> aware d) ''requested_at must be timezone-aware'')
    (Inr \<lparr>req_id = i, req_user_id = u, req_target_id = t, req_action = a,
          req_requested_at = d\<rparr>))))"

definition policy_ok :: "access_policy \<Rightarrow> bool" where
  "policy_ok p \<longleftrightarrow> \<not> blank (pol_id p) \<and> \<not> blank (pol_user_id p) \<and> \<not> blank (pol_target_id p)"

definition request_ok :: "access_request \<Rightarrow> bool" where
  "request_ok r \<longleftrightarrow> \<not> blank (req_id r) \<and> \<not> blank (req_user_id r)
     \<and> \<not> blank (req_target_id r) \<and> aware (req_requested_at r)"

section \<open>Audit events (\<open>domain/audit.py\<close>)\<close>

datatype audit_event_type =
    ACCESS_ALLOWED | ACCESS_DENIED
  | SESSION_OPENING | SESSION_ACTIVE | SESSION_CLOSED | SESSION_FAILED

fun event_type_value :: "audit_event_type \<Rightarrow> pystr" where
  "event_type_value ACCESS_ALLOWED = lit ''access_allowed''"
| "event_type_value ACCESS_DENIED = lit ''access_denied''"
| "event_type_value SESSION_OPENING = lit ''session_opening''"
| "event_type_value SESSION_ACTIVE = lit ''session_active''"
| "event_type_value SESSION_CLOSED = lit ''session_closed''"
| "event_type_value SESSION_FAILED = lit ''session_failed''"

record audit_event =
  ev_id :: pystr
  ev_timestamp :: datetime
  ev_type :: audit_event_type
  ev_actor_user_id :: pystr
  ev_target_id :: pystr
  ev_session_id :: "pystr option"
  ev_result :: pystr
  ev_reason_code :: "pystr option"

definition mk_audit_event ::
  "pystr \<Rightarrow> datetime \<Rightarrow> audit_event_type \<Rightarrow> pystr \<Rightarrow> pystr \<Rightarrow> pystr option \<Rightarrow> pystr \<Rightarrow>
   pystr option \<Rightarrow> audit_event res" where
  "mk_audit_event i ts ty actor target sess result reason =
     thenR (reject (\<not> aware ts) ''timestamp must be timezone-aware'')
    (Inr \<lparr>ev_id = i, ev_timestamp = ts, ev_type = ty, ev_actor_user_id = actor,
          ev_target_id = target, ev_session_id = sess, ev_result = result,
          ev_reason_code = reason\<rparr>)"

section \<open>Principals and users (\<open>domain/authentication.py\<close>, \<open>domain/user.py\<close>)\<close>

record authenticated_principal =
  pr_user_id :: pystr
  pr_username :: pystr

definition mk_principal :: "pystr \<Rightarrow> pystr \<Rightarrow> authenticated_principal res" where
  "mk_principal u n =
     thenR (reject (blank u) ''principal user id cannot be empty'')
    (thenR (reject (blank n) ''principal username cannot be empty'')
    (Inr \<lparr>pr_user_id = u, pr_username = n\<rparr>))"

record user =
  usr_id :: pystr
  usr_username :: pystr
  usr_is_active :: bool

definition mk_user :: "pystr \<Rightarrow> pystr \<Rightarrow> bool \<Rightarrow> user res" where
  "mk_user i n a =
     thenR (reject (blank i) ''user id cannot be empty'')
    (thenR (reject (blank n) ''username cannot be empty'')
    (Inr \<lparr>usr_id = i, usr_username = n, usr_is_active = a\<rparr>))"

definition user_ok :: "user \<Rightarrow> bool" where
  "user_ok u \<longleftrightarrow> \<not> blank (usr_id u) \<and> \<not> blank (usr_username u)"

text \<open>\<open>StoredUserAuthentication\<close> of \<open>ports/authentication.py\<close>\<close>

record stored_user_authentication =
  sua_user :: user
  sua_password_hash :: pystr

definition mk_stored_user_authentication ::
  "user \<Rightarrow> pystr \<Rightarrow> stored_user_authentication res" where
  "mk_stored_user_authentication u h =
     thenR (reject (h = []) ''stored password hash is invalid'')
    (Inr \<lparr>sua_user = u, sua_password_hash = h\<rparr>)"

section \<open>Accounts and targets (\<open>domain/privileged_account.py\<close>, \<open>domain/target.py\<close>)\<close>

record credential_ref =
  cref_id :: pystr

definition mk_credential_ref :: "pystr \<Rightarrow> credential_ref res" where
  "mk_credential_ref i =
     thenR (reject (blank i) ''credential reference id cannot be empty'') (Inr \<lparr>cref_id = i\<rparr>)"

record privileged_account =
  acc_id :: pystr
  acc_target_id :: pystr
  acc_username :: pystr
  acc_credential_ref :: credential_ref
  acc_enabled :: bool

definition mk_privileged_account ::
  "pystr \<Rightarrow> pystr \<Rightarrow> pystr \<Rightarrow> credential_ref \<Rightarrow> bool \<Rightarrow> privileged_account res" where
  "mk_privileged_account i t n c e =
     thenR (reject (blank i) ''privileged account id cannot be empty'')
    (thenR (reject (blank t) ''target id cannot be empty'')
    (thenR (reject (blank n) ''username cannot be empty'')
    (Inr \<lparr>acc_id = i, acc_target_id = t, acc_username = n, acc_credential_ref = c,
          acc_enabled = e\<rparr>)))"

definition account_ok :: "privileged_account \<Rightarrow> bool" where
  "account_ok a \<longleftrightarrow> \<not> blank (acc_id a) \<and> \<not> blank (acc_target_id a)
     \<and> \<not> blank (acc_username a) \<and> \<not> blank (cref_id (acc_credential_ref a))"

record host_key_fingerprint =
  hkf_value :: pystr

definition mk_host_key_fingerprint :: "pystr \<Rightarrow> host_key_fingerprint res" where
  "mk_host_key_fingerprint v =
     thenR (reject (\<not> startswith v (lit ''SHA256:''))
              (''SSH host key fingerprint must start with '' @ [CHR 0x27] @ ''SHA256:'' @ [CHR 0x27]))
    (Inr \<lparr>hkf_value = v\<rparr>)"

record target =
  tgt_id :: pystr
  tgt_name :: pystr
  tgt_host :: pystr
  tgt_port :: int
  tgt_expected_host_key :: host_key_fingerprint
  tgt_enabled :: bool

definition mk_target ::
  "pystr \<Rightarrow> pystr \<Rightarrow> pystr \<Rightarrow> int \<Rightarrow> host_key_fingerprint \<Rightarrow> bool \<Rightarrow> target res" where
  "mk_target i n h p k e =
     thenR (reject (blank i) ''target id cannot be empty'')
    (thenR (reject (blank n) ''target name cannot be empty'')
    (thenR (reject (blank h) ''target host cannot be empty'')
    (thenR (reject (\<not> (1 \<le> p \<and> p \<le> 65535)) ''target port must be between 1 and 65535'')
    (Inr \<lparr>tgt_id = i, tgt_name = n, tgt_host = h, tgt_port = p, tgt_expected_host_key = k,
          tgt_enabled = e\<rparr>))))"

definition target_ok :: "target \<Rightarrow> bool" where
  "target_ok t \<longleftrightarrow> \<not> blank (tgt_id t) \<and> \<not> blank (tgt_name t) \<and> \<not> blank (tgt_host t)
     \<and> 1 \<le> tgt_port t \<and> tgt_port t \<le> 65535
     \<and> startswith (hkf_value (tgt_expected_host_key t)) (lit ''SHA256:'')"

text \<open>What each constructor accepts.\<close>

lemmas constructor_defs [entity_defs] =
  mk_access_policy_def mk_access_request_def mk_audit_event_def mk_principal_def mk_user_def
  mk_stored_user_authentication_def mk_credential_ref_def mk_privileged_account_def
  mk_host_key_fingerprint_def mk_target_def

lemmas invariant_defs = policy_ok_def request_ok_def user_ok_def account_ok_def target_ok_def

lemma mk_access_policy_fields [simp]:
  "mk_access_policy (pol_id p) (pol_user_id p) (pol_target_id p) (pol_action p) (pol_effect p)
     = Inr p \<longleftrightarrow> policy_ok p"
  by (simp add: mk_access_policy_def policy_ok_def)

lemma mk_access_policy_ok: "mk_access_policy i u t a e = Inr p \<Longrightarrow> policy_ok p"
  by (auto simp: mk_access_policy_def policy_ok_def)

lemma mk_access_request_ok: "mk_access_request i u t a d = Inr r \<Longrightarrow> request_ok r"
  by (auto simp: mk_access_request_def request_ok_def)

lemma mk_user_fields [simp]:
  "mk_user (usr_id u) (usr_username u) (usr_is_active u) = Inr u \<longleftrightarrow> user_ok u"
  by (simp add: mk_user_def user_ok_def)

lemma mk_user_ok: "mk_user i n a = Inr u \<Longrightarrow> user_ok u"
  by (auto simp: mk_user_def user_ok_def)

lemma mk_credential_ref_fields [simp]:
  "mk_credential_ref (cref_id c) = Inr c \<longleftrightarrow> \<not> blank (cref_id c)"
  by (simp add: mk_credential_ref_def)

lemma mk_privileged_account_fields [simp]:
  "mk_privileged_account (acc_id a) (acc_target_id a) (acc_username a) (acc_credential_ref a)
     (acc_enabled a) = Inr a
   \<longleftrightarrow> \<not> blank (acc_id a) \<and> \<not> blank (acc_target_id a) \<and> \<not> blank (acc_username a)"
  by (simp add: mk_privileged_account_def)

lemma mk_host_key_fingerprint_fields [simp]:
  "mk_host_key_fingerprint (hkf_value k) = Inr k \<longleftrightarrow> startswith (hkf_value k) (lit ''SHA256:'')"
  by (simp add: mk_host_key_fingerprint_def)

lemma mk_target_fields [simp]:
  "mk_target (tgt_id t) (tgt_name t) (tgt_host t) (tgt_port t) (tgt_expected_host_key t)
     (tgt_enabled t) = Inr t
   \<longleftrightarrow> \<not> blank (tgt_id t) \<and> \<not> blank (tgt_name t) \<and> \<not> blank (tgt_host t)
     \<and> 1 \<le> tgt_port t \<and> tgt_port t \<le> 65535"
  by (auto simp: mk_target_def)

lemma mk_audit_event_Inr_iff:
  "mk_audit_event i ts ty actor target sess result reason = Inr ev \<longleftrightarrow>
     aware ts \<and> ev = \<lparr>ev_id = i, ev_timestamp = ts, ev_type = ty, ev_actor_user_id = actor,
          ev_target_id = target, ev_session_id = sess, ev_result = result,
          ev_reason_code = reason\<rparr>"
  by (auto simp: mk_audit_event_def)

text \<open>Every constructor of the domain raises only \<open>ValueError\<close>.\<close>

lemma reject_ValueError: "reject b m = Inl e \<Longrightarrow> exn_class e = ValueError"
  by simp

lemma constructors_raise_ValueError:
  "mk_user i n a = Inl e \<Longrightarrow> exn_class e = ValueError"
  "mk_access_policy i u t ac ef = Inl e \<Longrightarrow> exn_class e = ValueError"
  "mk_access_request i u t ac d = Inl e \<Longrightarrow> exn_class e = ValueError"
  "mk_credential_ref i = Inl e \<Longrightarrow> exn_class e = ValueError"
  "mk_privileged_account i t n c b = Inl e \<Longrightarrow> exn_class e = ValueError"
  "mk_host_key_fingerprint v = Inl e \<Longrightarrow> exn_class e = ValueError"
  "mk_target i n h p k b = Inl e \<Longrightarrow> exn_class e = ValueError"
  "mk_principal u n = Inl e \<Longrightarrow> exn_class e = ValueError"
  by (auto simp: entity_defs thenR_eq_Inl_iff)

end
