(* ===== verification/Session.thy ===== *)
theory Session
  imports Domain
begin

text \<open>
  The session entity of \<open>src/domain/session.py\<close>: its constructor, the three operations
  that change it, and its life cycle as a step relation. A \<open>mark_\<close> operation checks
  everything before it writes, so a raise leaves the session unchanged. Every reachable
  session satisfies the constructor's invariant, and the terminal states are final.
\<close>

section \<open>State and operations\<close>

datatype session_status = OPENING | ACTIVE | CLOSED | FAILED

record session =
  ses_id :: pystr
  ses_request_id :: pystr
  ses_user_id :: pystr
  ses_target_id :: pystr
  ses_account_id :: pystr
  ses_status :: session_status
  ses_started_at :: datetime
  ses_ended_at :: "datetime option"
  ses_close_reason :: "pystr option"

definition require_reason :: "pystr option \<Rightarrow> unit res" where
  "require_reason r =
     reject (case r of None \<Rightarrow> True | Some x \<Rightarrow> blank x) ''close_reason cannot be empty''"

definition require_aware :: "datetime \<Rightarrow> string \<Rightarrow> unit res" where
  "require_aware d name = reject (\<not> aware d) (name @ '' must be timezone-aware'')"

definition require_not_before_start :: "datetime \<Rightarrow> datetime \<Rightarrow> unit res" where
  "require_not_before_start started ended =
     bindR (dt_less ended started)
       (\<lambda>b. reject b ''ended_at cannot be earlier than started_at'')"

definition validate_terminal_values :: "session \<Rightarrow> datetime \<Rightarrow> pystr \<Rightarrow> unit res" where
  "validate_terminal_values s ended reason =
     thenR (require_aware ended ''ended_at'')
    (thenR (require_not_before_start (ses_started_at s) ended)
    (require_reason (Some reason)))"

definition mk_session :: "session \<Rightarrow> session res" where
  "mk_session s =
     thenR (reject (blank (ses_id s)) ''session id cannot be empty'')
    (thenR (reject (blank (ses_request_id s)) ''request id cannot be empty'')
    (thenR (reject (blank (ses_user_id s)) ''user id cannot be empty'')
    (thenR (reject (blank (ses_target_id s)) ''target id cannot be empty'')
    (thenR (reject (blank (ses_account_id s)) ''account id cannot be empty'')
    (thenR (require_aware (ses_started_at s) ''started_at'')
    (thenR (case ses_ended_at s of
        None \<Rightarrow> Inr ()
      | Some d \<Rightarrow> thenR (require_aware d ''ended_at'')
                   (require_not_before_start (ses_started_at s) d))
    (thenR (if ses_status s = OPENING \<or> ses_status s = ACTIVE then
        thenR (reject (ses_ended_at s \<noteq> None)
                 ''an opening or active session cannot have ended_at'')
          (reject (ses_close_reason s \<noteq> None)
                 ''an opening or active session cannot have close_reason'')
      else
        thenR (reject (ses_ended_at s = None) ''a terminal session must have ended_at'')
          (require_reason (ses_close_reason s)))
    (Inr s))))))))"

definition mark_active :: "session \<Rightarrow> session res" where
  "mark_active s =
     thenR (reject (ses_status s \<noteq> OPENING) ''only an opening session can become active'')
    (Inr (s\<lparr>ses_status := ACTIVE\<rparr>))"

definition mark_failed :: "session \<Rightarrow> datetime \<Rightarrow> pystr \<Rightarrow> session res" where
  "mark_failed s ended reason =
     thenR (reject (\<not> (ses_status s = OPENING \<or> ses_status s = ACTIVE))
              ''only an opening or active session can fail'')
    (thenR (validate_terminal_values s ended reason)
    (Inr (s\<lparr>ses_status := FAILED, ses_ended_at := Some ended,
            ses_close_reason := Some reason\<rparr>)))"

definition mark_closed :: "session \<Rightarrow> datetime \<Rightarrow> pystr \<Rightarrow> session res" where
  "mark_closed s ended reason =
     thenR (reject (ses_status s \<noteq> ACTIVE) ''only an active session can close'')
    (thenR (validate_terminal_values s ended reason)
    (Inr (s\<lparr>ses_status := CLOSED, ses_ended_at := Some ended,
            ses_close_reason := Some reason\<rparr>)))"

section \<open>The invariant\<close>

definition terminal :: "session_status \<Rightarrow> bool" where
  "terminal st \<longleftrightarrow> st = CLOSED \<or> st = FAILED"

definition ends_well :: "datetime \<Rightarrow> datetime \<Rightarrow> pystr \<Rightarrow> bool" where
  "ends_well started ended reason \<longleftrightarrow>
     aware ended \<and> utc_us started \<le> utc_us ended \<and> \<not> blank reason"

definition session_ok :: "session \<Rightarrow> bool" where
  "session_ok s \<longleftrightarrow>
     \<not> blank (ses_id s) \<and> \<not> blank (ses_request_id s) \<and> \<not> blank (ses_user_id s)
     \<and> \<not> blank (ses_target_id s) \<and> \<not> blank (ses_account_id s) \<and> aware (ses_started_at s)
     \<and> (if terminal (ses_status s)
        then \<exists>d r. ses_ended_at s = Some d \<and> ses_close_reason s = Some r
               \<and> ends_well (ses_started_at s) d r
        else ses_ended_at s = None \<and> ses_close_reason s = None)"

lemma terminal_simps [simp]:
  "\<not> terminal OPENING" "\<not> terminal ACTIVE" "terminal CLOSED" "terminal FAILED"
  by (simp_all add: terminal_def)

lemma not_terminal_iff: "\<not> terminal st \<longleftrightarrow> st = OPENING \<or> st = ACTIVE"
  by (cases st) simp_all

lemma require_reason_iff [simp]:
  "require_reason r = Inr u \<longleftrightarrow> (\<exists>x. r = Some x \<and> \<not> blank x)"
  by (cases r) (auto simp: require_reason_def)

lemma require_aware_iff [simp]: "require_aware d n = Inr u \<longleftrightarrow> aware d"
  by (simp add: require_aware_def)

lemma require_not_before_start_iff [simp]:
  "aware a \<Longrightarrow> aware d \<Longrightarrow> require_not_before_start a d = Inr u \<longleftrightarrow> utc_us a \<le> utc_us d"
  by (auto simp: require_not_before_start_def)

lemma validate_terminal_values_iff:
  "aware (ses_started_at s) \<Longrightarrow>
     validate_terminal_values s d r = Inr u \<longleftrightarrow> ends_well (ses_started_at s) d r"
  by (auto simp: validate_terminal_values_def ends_well_def)

lemma mk_session_iff: "mk_session s = Inr s' \<longleftrightarrow> session_ok s \<and> s' = s"
proof (cases "terminal (ses_status s)")
  case True
  then have "ses_status s = CLOSED \<or> ses_status s = FAILED" by (simp add: terminal_def)
  with True show ?thesis
    by (cases "ses_ended_at s") (auto simp: mk_session_def session_ok_def ends_well_def)
next
  case False
  then have "ses_status s = OPENING \<or> ses_status s = ACTIVE" by (simp add: not_terminal_iff)
  with False show ?thesis
    by (cases "ses_ended_at s") (auto simp: mk_session_def session_ok_def)
qed

lemma mark_active_iff:
  "mark_active s = Inr s' \<longleftrightarrow> ses_status s = OPENING \<and> s' = s\<lparr>ses_status := ACTIVE\<rparr>"
  by (auto simp: mark_active_def)

lemma mark_failed_iff:
  "aware (ses_started_at s) \<Longrightarrow> mark_failed s d r = Inr s' \<longleftrightarrow>
     (ses_status s = OPENING \<or> ses_status s = ACTIVE) \<and> ends_well (ses_started_at s) d r
     \<and> s' = s\<lparr>ses_status := FAILED, ses_ended_at := Some d, ses_close_reason := Some r\<rparr>"
  by (auto simp: mark_failed_def validate_terminal_values_iff)

lemma mark_closed_iff:
  "aware (ses_started_at s) \<Longrightarrow> mark_closed s d r = Inr s' \<longleftrightarrow>
     ses_status s = ACTIVE \<and> ends_well (ses_started_at s) d r
     \<and> s' = s\<lparr>ses_status := CLOSED, ses_ended_at := Some d, ses_close_reason := Some r\<rparr>"
  by (auto simp: mark_closed_def validate_terminal_values_iff)

lemmas mark_iffs = mark_active_iff mark_failed_iff mark_closed_iff

section \<open>The life cycle\<close>

datatype session_op =
    MarkActive
  | MarkFailed datetime pystr
  | MarkClosed datetime pystr

fun run_op :: "session_op \<Rightarrow> session \<Rightarrow> session res" where
  "run_op MarkActive s = mark_active s"
| "run_op (MarkFailed d r) s = mark_failed s d r"
| "run_op (MarkClosed d r) s = mark_closed s d r"

text \<open>
  A caller may try any operation at any time; one that raises leaves the session as it is.
\<close>

inductive session_step :: "session \<Rightarrow> session_op \<Rightarrow> session \<Rightarrow> bool" where
  performed: "run_op op s = Inr s' \<Longrightarrow> session_step s op s'"
| rejected: "run_op op s = Inl e \<Longrightarrow> session_step s op s"

inductive session_reaches :: "session \<Rightarrow> session \<Rightarrow> bool" where
  created: "mk_session s = Inr s' \<Longrightarrow> ses_status s = OPENING \<Longrightarrow> session_reaches s' s'"
| stepped: "session_reaches s t \<Longrightarrow> session_step t op t' \<Longrightarrow> session_reaches s t'"

inductive_cases session_stepE: "session_step s op s'"

text \<open>The abstract life cycle of the domain model.\<close>

fun status_edge :: "session_status \<Rightarrow> session_status \<Rightarrow> bool" where
  "status_edge OPENING st = (st = ACTIVE \<or> st = FAILED)"
| "status_edge ACTIVE st = (st = CLOSED \<or> st = FAILED)"
| "status_edge _ _ = False"

definition same_identity :: "session \<Rightarrow> session \<Rightarrow> bool" where
  "same_identity s t \<longleftrightarrow> ses_id t = ses_id s \<and> ses_request_id t = ses_request_id s
     \<and> ses_user_id t = ses_user_id s \<and> ses_target_id t = ses_target_id s
     \<and> ses_account_id t = ses_account_id s \<and> ses_started_at t = ses_started_at s"

lemma same_identity_refl [simp]: "same_identity s s"
  by (simp add: same_identity_def)

lemma same_identity_trans: "same_identity s t \<Longrightarrow> same_identity t u \<Longrightarrow> same_identity s u"
  by (simp add: same_identity_def)

lemma session_ok_started: "session_ok s \<Longrightarrow> aware (ses_started_at s)"
  by (simp add: session_ok_def)

lemma run_op_ok:
  assumes "session_ok s" "run_op op s = Inr s'"
  shows "session_ok s' \<and> same_identity s s' \<and> status_edge (ses_status s) (ses_status s')"
proof -
  note st = session_ok_started [OF assms(1)]
  show ?thesis
    using assms by (cases op) (auto simp: mark_active_iff mark_failed_iff [OF st]
      mark_closed_iff [OF st] session_ok_def same_identity_def)
qed

lemma session_step_ok:
  "session_step s op s' \<Longrightarrow> session_ok s \<Longrightarrow>
     session_ok s' \<and> same_identity s s' \<and> (s' = s \<or> status_edge (ses_status s) (ses_status s'))"
  by (auto elim!: session_stepE dest: run_op_ok)

lemma session_reaches_ok:
  "session_reaches s t \<Longrightarrow> session_ok t \<and> same_identity s t"
proof (induction rule: session_reaches.induct)
  case (created s s')
  then show ?case by (simp add: mk_session_iff)
next
  case (stepped s t op t')
  then show ?case by (blast dest: session_step_ok intro: same_identity_trans)
qed

lemma run_op_terminal: "run_op op s = Inr s' \<Longrightarrow> \<not> terminal (ses_status s)"
  by (cases op; cases "ses_status s") (simp_all add: mark_active_def mark_failed_def mark_closed_def)

text \<open>
  C12. A session that exists satisfies the constructor's invariant whatever operations were
  tried on it, in any order and with any arguments: an opening or active session has no end,
  a closed or failed one has an aware end not before its start and a reason that is not
  blank; its identity and its start never change, and once it is closed or failed nothing
  changes any more.
\<close>

theorem session_lifecycle:
  assumes "session_reaches s t"
  shows "session_ok t \<and> same_identity s t
    \<and> (terminal (ses_status t) \<longrightarrow> (\<forall>op t'. session_step t op t' \<longrightarrow> t' = t))"
  using session_reaches_ok [OF assms]
  by (auto elim!: session_stepE dest: run_op_terminal)

definition example_session :: session where
  "example_session = \<lparr>ses_id = lit ''s'', ses_request_id = lit ''r'', ses_user_id = lit ''u'',
     ses_target_id = lit ''t'', ses_account_id = lit ''a'', ses_status = OPENING,
     ses_started_at = utc 10, ses_ended_at = None, ses_close_reason = None\<rparr>"

lemma example_session_ok: "session_ok example_session"
  by (simp add: example_session_def session_ok_def blank_iff py_isspace_def lit_def)

lemma lit_not_blank [simp]: "\<not> blank (lit ''relay_completed'')" "\<not> blank (lit ''relay_failed'')"
  "\<not> blank (lit ''max_duration_exceeded'')" "\<not> blank (lit ''broker_open_failed'')"
  "\<not> blank (lit ''broker_close_failed'')" "\<not> blank (lit ''audit_persistence_failed'')"
  by (simp_all add: blank_iff py_isspace_def lit_def)

theorem session_lifecycle_witness:
  "session_ok (example_session\<lparr>ses_status := CLOSED, ses_ended_at := Some (utc 12),
     ses_close_reason := Some (lit ''relay_completed'')\<rparr>)"
proof -
  let ?a = "example_session\<lparr>ses_status := ACTIVE\<rparr>"
  let ?c = "?a\<lparr>ses_status := CLOSED, ses_ended_at := Some (utc 12),
     ses_close_reason := Some (lit ''relay_completed'')\<rparr>"
  have "session_reaches example_session example_session"
    by (rule session_reaches.created [of example_session])
       (simp_all add: mk_session_iff example_session_ok, simp add: example_session_def)
  moreover have "session_step example_session MarkActive ?a"
    by (rule session_step.performed) (simp add: mark_active_def example_session_def)
  ultimately have "session_reaches example_session ?a" by (rule session_reaches.stepped)
  moreover have "session_step ?a (MarkClosed (utc 12) (lit ''relay_completed'')) ?c"
    by (rule session_step.performed)
       (simp add: mark_closed_iff example_session_def ends_well_def)
  ultimately have "session_reaches example_session ?c" by (rule session_reaches.stepped)
  from session_lifecycle [OF this] show ?thesis by simp
qed

text \<open>
  The sequences of operations that succeed: all the histories a session can have.
\<close>

fun run_ops :: "session_op list \<Rightarrow> session \<Rightarrow> session res" where
  "run_ops [] s = Inr s"
| "run_ops (op # ops) s = bindR (run_op op s) (run_ops ops)"

lemma run_ops_terminal: "terminal (ses_status s) \<Longrightarrow> run_ops ops s = Inr t \<Longrightarrow> ops = []"
  by (cases ops) (auto dest!: run_op_terminal)

lemma run_ops_active:
  "ses_status s = ACTIVE \<Longrightarrow> run_ops ops s = Inr t \<Longrightarrow>
     ops = [] \<or> (\<exists>d r. ops = [MarkClosed d r] \<or> ops = [MarkFailed d r])"
proof (cases ops)
  case (Cons op rest)
  assume a: "ses_status s = ACTIVE" "run_ops ops s = Inr t"
  then obtain s' where s': "run_op op s = Inr s'" "run_ops rest s' = Inr t" using Cons by auto
  then have "op \<noteq> MarkActive" using a by (auto simp: mark_active_iff)
  moreover have "terminal (ses_status s')"
    using s'(1) a(1) \<open>op \<noteq> MarkActive\<close> by (cases op) (auto simp: mark_failed_def mark_closed_def)
  ultimately show ?thesis using run_ops_terminal [OF _ s'(2)] Cons by (cases op) auto
qed simp

text \<open>
  From an opening session exactly five kinds of history succeed: none, becoming active,
  failing at once, and becoming active and then closing or failing.
\<close>

theorem session_histories:
  assumes "ses_status s = OPENING" "run_ops ops s = Inr t"
  shows "ops = [] \<or> ops = [MarkActive] \<or> (\<exists>d r. ops = [MarkFailed d r])
    \<or> (\<exists>d r. ops = [MarkActive, MarkClosed d r]) \<or> (\<exists>d r. ops = [MarkActive, MarkFailed d r])"
proof (cases ops)
  case (Cons op rest)
  with assms obtain s' where s': "run_op op s = Inr s'" "run_ops rest s' = Inr t" by auto
  show ?thesis
  proof (cases op)
    case MarkActive
    then have "ses_status s' = ACTIVE" using s'(1) by (auto simp: mark_active_iff)
    from run_ops_active [OF this s'(2)] show ?thesis using Cons MarkActive by auto
  next
    case (MarkFailed d r)
    then have "terminal (ses_status s')" using s'(1) by (auto simp: mark_failed_def)
    with run_ops_terminal [OF _ s'(2)] show ?thesis using Cons MarkFailed by auto
  next
    case (MarkClosed d r)
    then show ?thesis using s'(1) assms(1) by (auto simp: mark_closed_def)
  qed
qed simp

theorem session_histories_witness:
  "\<exists>t. run_ops [MarkActive, MarkFailed (utc 10) (lit ''relay_failed'')] example_session = Inr t
     \<and> [MarkActive, MarkFailed (utc 10) (lit ''relay_failed'')] \<noteq> []"
proof -
  let ?ops = "[MarkActive, MarkFailed (utc 10) (lit ''relay_failed'')]"
  have o: "ses_status example_session = OPENING" by (simp add: example_session_def)
  obtain t where t: "run_ops ?ops example_session = Inr t"
    by (simp add: mark_active_def example_session_def mark_failed_iff ends_well_def)
  from session_histories [OF o t] t show ?thesis by blast
qed

end
