(* ===== verification/Policy.thy ===== *)
theory Policy
  imports Domain
begin

text \<open>
  The policy evaluator of \<open>src/application/policy_evaluator.py\<close>. The decision depends on
  the set of effects among the matching policies only: access is allowed exactly when there
  is a matching policy and all of them allow it.
\<close>

definition decide :: "access_policy list \<Rightarrow> access_decision" where
  "decide policies =
     (case find (\<lambda>p. pol_effect p = DENY) policies of
        Some p \<Rightarrow> \<lparr>dec_effect = DENY, dec_reason = pol_id p\<rparr>
      | None \<Rightarrow>
          if list_ex (\<lambda>p. pol_effect p = REQUIRES_APPROVAL) policies
          then \<lparr>dec_effect = DENY, dec_reason = lit ''approval_not_supported''\<rparr>
          else (case find (\<lambda>p. pol_effect p = ALLOW) policies of
                  Some p \<Rightarrow> \<lparr>dec_effect = ALLOW, dec_reason = pol_id p\<rparr>
                | None \<Rightarrow> \<lparr>dec_effect = DENY, dec_reason = lit ''no_matching_policy''\<rparr>))"

text \<open>\<open>PolicyEvaluator.evaluate\<close>, over the repository's \<open>find_matching\<close>\<close>

definition evaluate ::
  "(pystr \<Rightarrow> pystr \<Rightarrow> access_action \<Rightarrow> ('s, access_policy list) io) \<Rightarrow> access_request \<Rightarrow>
   ('s, access_decision) io" where
  "evaluate find_matching r =
     bind (find_matching (req_user_id r) (req_target_id r) (req_action r))
       (\<lambda>policies. ret (decide policies))"

lemma decide_cases:
  obtains (deny) p where "p \<in> set ps" "pol_effect p = DENY"
      "decide ps = \<lparr>dec_effect = DENY, dec_reason = pol_id p\<rparr>"
  | (approval) p where "\<forall>q \<in> set ps. pol_effect q \<noteq> DENY" "p \<in> set ps"
      "pol_effect p = REQUIRES_APPROVAL"
      "decide ps = \<lparr>dec_effect = DENY, dec_reason = lit ''approval_not_supported''\<rparr>"
  | (allow) p where "\<forall>q \<in> set ps. pol_effect q = ALLOW" "p \<in> set ps"
      "decide ps = \<lparr>dec_effect = ALLOW, dec_reason = pol_id p\<rparr>"
  | (none) "ps = []" "decide ps = \<lparr>dec_effect = DENY, dec_reason = lit ''no_matching_policy''\<rparr>"
proof (cases "find (\<lambda>p. pol_effect p = DENY) ps")
  case (Some p)
  then have "p \<in> set ps" "pol_effect p = DENY" by (auto simp: find_Some_iff)
  with Some show thesis by (intro deny [of p]) (simp_all add: decide_def)
next
  case None
  then have nd: "\<forall>q \<in> set ps. pol_effect q \<noteq> DENY" by (simp add: find_None_iff)
  show thesis
  proof (cases "list_ex (\<lambda>p. pol_effect p = REQUIRES_APPROVAL) ps")
    case True
    then obtain p where "p \<in> set ps" "pol_effect p = REQUIRES_APPROVAL"
      by (auto simp: list_ex_iff)
    with True None nd show thesis by (intro approval [of p]) (simp_all add: decide_def)
  next
    case False
    then have all: "\<forall>q \<in> set ps. pol_effect q = ALLOW"
      using nd access_effect.exhaust by (auto simp: list_ex_iff)
    show thesis
    proof (cases ps)
      case Nil
      then show thesis using none by (simp add: decide_def)
    next
      case (Cons p qs)
      then have "find (\<lambda>p. pol_effect p = ALLOW) ps = Some p" using all by simp
      with False None all Cons show thesis by (intro allow [of p]) (simp_all add: decide_def)
    qed
  qed
qed

lemma decide_allow_iff:
  "dec_effect (decide ps) = ALLOW \<longleftrightarrow> ps \<noteq> [] \<and> (\<forall>p \<in> set ps. pol_effect p = ALLOW)"
  by (cases ps rule: decide_cases) auto

lemma decide_not_approval: "dec_effect (decide ps) = ALLOW \<or> dec_effect (decide ps) = DENY"
  by (cases ps rule: decide_cases) auto

text \<open>
  C13. Access is allowed exactly when a policy matches and every matching policy allows it:
  no match denies, one explicit denial overrides any number of allowing policies, and so
  does one policy that asks for approval. An allowing decision names a policy that matched,
  and a decision is never \<open>REQUIRES_APPROVAL\<close>.
\<close>

theorem decide_fail_closed:
  "(dec_effect (decide ps) = ALLOW) = (ps \<noteq> [] \<and> list_all (\<lambda>p. pol_effect p = ALLOW) ps)
   \<and> (dec_effect (decide ps) = (if dec_effect (decide ps) = ALLOW then ALLOW else DENY))
   \<and> dec_reason (decide ps) \<in> pol_id ` set ps
        \<union> (if dec_effect (decide ps) = ALLOW then {}
           else {lit ''approval_not_supported'', lit ''no_matching_policy''})"
  by (cases ps rule: decide_cases) (auto simp: list_all_iff)

text \<open>
  The effect does not depend on the order in which the repository returns the policies
  nor on repetitions, and a decision to deny survives any further policy unless nothing
  matched before.
\<close>

theorem decide_order_irrelevant:
  assumes "set ps = set qs"
  shows "dec_effect (decide ps) = dec_effect (decide qs)
    \<and> (ps \<noteq> [] \<and> dec_effect (decide ps) = DENY \<longrightarrow> dec_effect (decide (ps @ rs)) = DENY)"
proof -
  have "(ps = []) = (qs = [])" using assms by (metis set_empty)
  then have "(dec_effect (decide ps) = ALLOW) = (dec_effect (decide qs) = ALLOW)"
    using assms by (simp add: decide_allow_iff)
  moreover have "dec_effect (decide (ps @ rs)) \<noteq> ALLOW"
    if "ps \<noteq> []" "dec_effect (decide ps) = DENY"
    using that decide_allow_iff [of ps] decide_allow_iff [of "ps @ rs"] by auto
  ultimately show ?thesis
    using decide_not_approval [of ps] decide_not_approval [of qs] decide_not_approval [of "ps @ rs"]
    by auto
qed

definition example_policy :: "string \<Rightarrow> access_effect \<Rightarrow> access_policy" where
  "example_policy i e = \<lparr>pol_id = lit i, pol_user_id = lit ''u'', pol_target_id = lit ''t'',
     pol_action = OPEN_PRIVILEGED_SESSION, pol_effect = e\<rparr>"

theorem decide_order_irrelevant_witness:
  "dec_effect (decide [example_policy ''a'' ALLOW, example_policy ''b'' DENY])
   = dec_effect (decide [example_policy ''b'' DENY, example_policy ''a'' ALLOW])"
  using decide_order_irrelevant
    [of "[example_policy ''a'' ALLOW, example_policy ''b'' DENY]"
        "[example_policy ''b'' DENY, example_policy ''a'' ALLOW]"] by auto

end
