(* ===== verification/Access.thy ===== *)
theory Access
  imports Session Policy
begin

text \<open>
  \<open>AccessService\<close> of \<open>src/application/access_service.py\<close> over the ports of
  \<open>src/ports\<close>. Every call of a port is recorded with what it returned, and the session
  object is a cell of the state, since the code changes it in place. The service runs on
  arbitrary ports; the theory \<open>Access_Protocol\<close> says what every run looks like.
\<close>

section \<open>Ports\<close>

record broker_credential =
  bc_value :: bytes

datatype relay_outcome = COMPLETED | MAX_DURATION_EXCEEDED

text \<open>A relay may return something that is not a \<open>RelayOutcome\<close>; the code checks for it.\<close>

datatype relay_value = Outcome relay_outcome | NotAnOutcome

record ('w, 'h) ports =
  p_find_matching :: "pystr \<Rightarrow> pystr \<Rightarrow> access_action \<Rightarrow> ('w, access_policy list) io"
  p_get_target :: "pystr \<Rightarrow> ('w, target option) io"
  p_find_for_target :: "pystr \<Rightarrow> ('w, privileged_account option) io"
  p_resolve :: "credential_ref \<Rightarrow> ('w, broker_credential option) io"
  p_open_session :: "target \<Rightarrow> privileged_account \<Rightarrow> broker_credential \<Rightarrow> ('w, 'h) io"
  p_relay :: "'h \<Rightarrow> int \<Rightarrow> ('w, relay_value) io"
  p_close :: "'h \<Rightarrow> ('w, unit) io"
  p_append :: "audit_event \<Rightarrow> ('w, unit) io"
  p_now :: "('w, datetime) io"
  p_new_id :: "('w, pystr) io"

datatype 'h obs =
    FindMatching pystr pystr access_action "access_policy list res"
  | GetTarget pystr "target option res"
  | FindForTarget pystr "privileged_account option res"
  | Resolve credential_ref "broker_credential option res"
  | OpenSession target privileged_account broker_credential "'h res"
  | Relay 'h int "relay_value res"
  | Close 'h "unit res"
  | Append audit_event "unit res"
  | Now "datetime res"
  | NewId "pystr res"

record ('w, 'h) svc = "('w, 'h obs) tstate" +
  cell :: "session option"

record access_result =
  ar_decision :: access_decision
  ar_session :: "session option"

section \<open>The service\<close>

definition call_now :: "('w, 'h) ports \<Rightarrow> (('w, 'h) svc, datetime) io" where
  "call_now P = perform (p_now P) Now"

definition call_new_id :: "('w, 'h) ports \<Rightarrow> (('w, 'h) svc, pystr) io" where
  "call_new_id P = perform (p_new_id P) NewId"

text \<open>\<open>session.mark_...(...)\<close> on the session object\<close>

definition on_session :: "(session \<Rightarrow> session res) \<Rightarrow> (('w, 'h) svc, unit) io" where
  "on_session f = (\<lambda>s. case cell s of
       None \<Rightarrow> (Inl (err AttributeError ''session''), s)
     | Some x \<Rightarrow> (case f x of Inl e \<Rightarrow> (Inl e, s) | Inr y \<Rightarrow> (Inr (), s\<lparr>cell := Some y\<rparr>)))"

definition started_at :: "(('w, 'h) svc, datetime) io" where
  "started_at = (\<lambda>s. case cell s of
       None \<Rightarrow> (Inl (err AttributeError ''session''), s)
     | Some x \<Rightarrow> (Inr (ses_started_at x), s))"

text \<open>\<open>_append_event\<close>\<close>

definition append_event ::
  "('w, 'h) ports \<Rightarrow> access_request \<Rightarrow> audit_event_type \<Rightarrow> pystr option \<Rightarrow> string \<Rightarrow>
   pystr option \<Rightarrow> pystr option \<Rightarrow> datetime option \<Rightarrow> (('w, 'h) svc, unit) io" where
  "append_event P req ty sid result reason actor timestamp =
     bind (call_new_id P) (\<lambda>i.
     bind (case timestamp of None \<Rightarrow> call_now P | Some t \<Rightarrow> ret t) (\<lambda>t.
     bind (lift (mk_audit_event i t ty
             (case actor of None \<Rightarrow> req_user_id req | Some u \<Rightarrow> u)
             (req_target_id req) sid (lit result) reason)) (\<lambda>ev.
     perform (p_append P ev) (Append ev))))"

text \<open>\<open>_deny\<close> and \<open>_deny_with_reason\<close>\<close>

definition deny ::
  "('w, 'h) ports \<Rightarrow> access_request \<Rightarrow> access_decision \<Rightarrow> pystr option \<Rightarrow>
   (('w, 'h) svc, access_result) io" where
  "deny P req decision actor =
     seq (append_event P req ACCESS_DENIED None ''denied'' (Some (dec_reason decision)) actor None)
     (ret \<lparr>ar_decision = decision, ar_session = None\<rparr>)"

definition deny_with_reason ::
  "('w, 'h) ports \<Rightarrow> access_request \<Rightarrow> string \<Rightarrow> (('w, 'h) svc, access_result) io" where
  "deny_with_reason P req reason =
     deny P req \<lparr>dec_effect = DENY, dec_reason = lit reason\<rparr> None"

text \<open>\<open>_terminal_timestamp\<close>: the clock's value, not before the session's start\<close>

definition terminal_timestamp :: "('w, 'h) ports \<Rightarrow> (('w, 'h) svc, datetime) io" where
  "terminal_timestamp P =
     bind (call_now P) (\<lambda>observed. bind started_at (\<lambda>started. lift (dt_max observed started)))"

text \<open>\<open>_fail_session\<close>\<close>

definition fail_session ::
  "('w, 'h) ports \<Rightarrow> access_request \<Rightarrow> pystr \<Rightarrow> string \<Rightarrow> (('w, 'h) svc, unit) io" where
  "fail_session P req sid reason =
     bind (terminal_timestamp P) (\<lambda>ended.
     seq (on_session (\<lambda>x. mark_failed x ended (lit reason)))
     (append_event P req SESSION_FAILED (Some sid) ''failed'' (Some (lit reason)) None
        (Some ended)))"

text \<open>The two places where \<open>handle\<close> marks the session and re-raises an audit failure\<close>

definition abandon :: "('w, 'h) ports \<Rightarrow> exn \<Rightarrow> (('w, 'h) svc, 'a) io" where
  "abandon P e =
     bind (terminal_timestamp P) (\<lambda>ended.
     seq (on_session (\<lambda>x. mark_failed x ended (lit ''audit_persistence_failed'')))
     (raise e))"

text \<open>\<open>return AccessResult(decision=decision, session=session)\<close>\<close>

definition finish :: "access_decision \<Rightarrow> (('w, 'h) svc, access_result) io" where
  "finish decision = (\<lambda>s. (Inr \<lparr>ar_decision = decision, ar_session = cell s\<rparr>, s))"

text \<open>
  The body of the \<open>try\<close> around the relay: \<open>None\<close> stands for \<open>relay_failure = True\<close>,
  and the \<open>finally\<close> block computes \<open>close_succeeded\<close>.
\<close>

definition relay_session ::
  "('w, 'h) ports \<Rightarrow> access_request \<Rightarrow> pystr \<Rightarrow> int \<Rightarrow> 'h \<Rightarrow>
   (('w, 'h) svc, relay_outcome option) io" where
  "relay_session P req sid max_duration h =
     seq (on_session mark_active)
    (seq (try_except
           (append_event P req SESSION_ACTIVE (Some sid) ''active'' None None None)
           is_exception (abandon P))
    (try_except
       (bind (perform (p_relay P h max_duration) (Relay h max_duration)) (\<lambda>v.
          case v of
            Outcome out \<Rightarrow> ret (Some out)
          | NotAnOutcome \<Rightarrow> raise (err ValueError ''unsupported relay outcome'')))
       is_exception (\<lambda>_. ret None)))"

definition close_broker :: "('w, 'h) ports \<Rightarrow> 'h \<Rightarrow> (('w, 'h) svc, bool) io" where
  "close_broker P h =
     try_except (seq (perform (p_close P h) (Close h)) (ret True)) is_exception (\<lambda>_. ret False)"

definition conclude ::
  "('w, 'h) ports \<Rightarrow> access_request \<Rightarrow> access_decision \<Rightarrow> pystr \<Rightarrow> relay_outcome option \<Rightarrow> bool \<Rightarrow>
   (('w, 'h) svc, access_result) io" where
  "conclude P req decision sid outcome close_succeeded =
     seq (case outcome of
            None \<Rightarrow> fail_session P req sid ''relay_failed''
          | Some out \<Rightarrow>
              if \<not> close_succeeded then fail_session P req sid ''broker_close_failed''
              else
                (let close_reason = (if out = MAX_DURATION_EXCEEDED
                                     then ''max_duration_exceeded'' else ''relay_completed'')
                 in bind (terminal_timestamp P) (\<lambda>ended.
                    seq (on_session (\<lambda>x. mark_closed x ended (lit close_reason)))
                    (append_event P req SESSION_CLOSED (Some sid) ''closed''
                       (Some (lit close_reason)) None (Some ended)))))
     (finish decision)"

text \<open>From the opened broker on\<close>

definition broker_phase ::
  "('w, 'h) ports \<Rightarrow> int \<Rightarrow> access_request \<Rightarrow> access_decision \<Rightarrow> pystr \<Rightarrow> 'h \<Rightarrow>
   (('w, 'h) svc, access_result) io" where
  "broker_phase P max_duration req decision sid h =
     bind (finally_with (relay_session P req sid max_duration h) (close_broker P h))
       (\<lambda>(outcome, close_succeeded). conclude P req decision sid outcome close_succeeded)"

definition run_session ::
  "('w, 'h) ports \<Rightarrow> int \<Rightarrow> access_request \<Rightarrow> access_decision \<Rightarrow> target \<Rightarrow>
   privileged_account \<Rightarrow> broker_credential \<Rightarrow> pystr \<Rightarrow> (('w, 'h) svc, access_result) io" where
  "run_session P max_duration req decision tgt account credential sid =
     seq (try_except
           (seq (append_event P req ACCESS_ALLOWED (Some sid) ''allowed''
                   (Some (dec_reason decision)) None None)
                (append_event P req SESSION_OPENING (Some sid) ''opening'' None None None))
           is_exception (abandon P))
     (bind (try_except
              (bind (perform (p_open_session P tgt account credential)
                       (OpenSession tgt account credential)) (\<lambda>h. ret (Some h)))
              is_exception
              (\<lambda>_. seq (fail_session P req sid ''broker_open_failed'') (ret None)))
       (\<lambda>opened. case opened of
           None \<Rightarrow> finish decision
         | Some h \<Rightarrow> broker_phase P max_duration req decision sid h))"

definition open_allowed ::
  "('w, 'h) ports \<Rightarrow> int \<Rightarrow> access_request \<Rightarrow> access_decision \<Rightarrow> target \<Rightarrow>
   privileged_account \<Rightarrow> broker_credential \<Rightarrow> (('w, 'h) svc, access_result) io" where
  "open_allowed P max_duration req decision tgt account credential =
     bind (call_new_id P) (\<lambda>i. bind (call_now P) (\<lambda>t.
     bind (lift (mk_session
             \<lparr>ses_id = i, ses_request_id = req_id req, ses_user_id = req_user_id req,
              ses_target_id = tgt_id tgt, ses_account_id = acc_id account,
              ses_status = OPENING, ses_started_at = t, ses_ended_at = None,
              ses_close_reason = None\<rparr>)) (\<lambda>session.
     seq (\<lambda>s. (Inr (), s\<lparr>cell := Some session\<rparr>))
     (run_session P max_duration req decision tgt account credential i))))"

text \<open>
  \<open>AccessService.handle\<close>, from the account lookup's answer on, from the target lookup's
  answer on, and as a whole. The caller may pass anything as the principal: \<open>None\<close>
  stands for an object that is not an \<open>AuthenticatedPrincipal\<close>.
\<close>

definition handle_account ::
  "('w, 'h) ports \<Rightarrow> int \<Rightarrow> access_request \<Rightarrow> access_decision \<Rightarrow> target \<Rightarrow>
   privileged_account option \<Rightarrow> (('w, 'h) svc, access_result) io" where
  "handle_account P max_duration req decision tgt configured =
     (case configured of
        None \<Rightarrow> deny_with_reason P req ''account_not_found''
      | Some account \<Rightarrow>
        if \<not> acc_enabled account then deny_with_reason P req ''privileged_account_disabled''
        else if acc_target_id account \<noteq> tgt_id tgt then
          deny_with_reason P req ''account_target_mismatch''
        else
        bind (perform (p_resolve P (acc_credential_ref account))
                (Resolve (acc_credential_ref account)))
        (\<lambda>resolved. case resolved of
            None \<Rightarrow> deny_with_reason P req ''credential_not_found''
          | Some credential \<Rightarrow>
              open_allowed P max_duration req decision tgt account credential))"

definition handle_target ::
  "('w, 'h) ports \<Rightarrow> int \<Rightarrow> access_request \<Rightarrow> access_decision \<Rightarrow> target option \<Rightarrow>
   (('w, 'h) svc, access_result) io" where
  "handle_target P max_duration req decision found =
     (case found of
        None \<Rightarrow> deny_with_reason P req ''target_not_found''
      | Some tgt \<Rightarrow>
        if \<not> tgt_enabled tgt then deny_with_reason P req ''target_disabled''
        else
        bind (perform (p_find_for_target P (tgt_id tgt)) (FindForTarget (tgt_id tgt)))
        (handle_account P max_duration req decision tgt))"

definition handle ::
  "('w, 'h) ports \<Rightarrow> int \<Rightarrow> authenticated_principal option \<Rightarrow> access_request \<Rightarrow>
   (('w, 'h) svc, access_result) io" where
  "handle P max_duration who req =
     (case who of
        None \<Rightarrow> raise (err TypeError ''principal must be authenticated'')
      | Some pr \<Rightarrow>
        if pr_user_id pr \<noteq> req_user_id req then
          deny P req
            \<lparr>dec_effect = DENY, dec_reason = lit ''authenticated_identity_mismatch''\<rparr>
            (Some (pr_user_id pr))
        else
        bind (evaluate (\<lambda>u t a. perform (p_find_matching P u t a) (FindMatching u t a)) req)
        (\<lambda>decision.
        if dec_effect decision \<noteq> ALLOW then deny P req decision None
        else
        bind (perform (p_get_target P (req_target_id req)) (GetTarget (req_target_id req)))
        (handle_target P max_duration req decision)))"

text \<open>
  \<open>AccessService.__init__\<close>: the configured maximum (in microseconds) must be positive.
\<close>

definition mk_access_service :: "int \<Rightarrow> int res" where
  "mk_access_service max_duration =
     thenR (reject (max_duration \<le> 0) ''max_session_duration must be positive'')
    (Inr max_duration)"

definition initial_state :: "'w \<Rightarrow> ('w, 'h) svc" where
  "initial_state w = \<lparr>world = w, trace = [], cell = None\<rparr>"

end
