(* ===== verification/Access_Protocol.thy ===== *)
theory Access_Protocol
  imports Access
begin

text \<open>
  What a run of \<open>handle\<close> may look like, as an abstract protocol over the calls that
  matter (all but the clock and the id generator), the final session and the result, and
  the proof that every run on every ports follows it. The safety properties of the service
  are then read off the protocol by cases.
\<close>

section \<open>The calls that matter\<close>

fun key_call :: "'h obs \<Rightarrow> bool" where
  "key_call (Now _) = False"
| "key_call (NewId _) = False"
| "key_call _ = True"

definition steps :: "'h obs list \<Rightarrow> 'h obs list" where
  "steps tr = filter key_call tr"

lemma steps_simps [simp]:
  "steps [] = []" "steps (xs @ ys) = steps xs @ steps ys"
  "steps (x # xs) = (if key_call x then x # steps xs else steps xs)"
  by (simp_all add: steps_def)

text \<open>From state \<open>s\<close> to \<open>s'\<close> exactly the calls \<open>cs\<close> were made.\<close>

definition advances :: "('w, 'h) svc \<Rightarrow> ('w, 'h) svc \<Rightarrow> 'h obs list \<Rightarrow> bool" where
  "advances s s' cs \<longleftrightarrow> (\<exists>obs. trace s' = trace s @ obs \<and> steps obs = cs)"

lemma advances_refl [simp]: "advances s s []"
  by (simp add: advances_def)

lemma advances_trans: "advances s t a \<Longrightarrow> advances t u b \<Longrightarrow> advances s u (a @ b)"
  by (auto simp: advances_def)

lemma advances_perform:
  "perform f ob s = (r, s') \<Longrightarrow> advances s s' (if key_call (ob r) then [ob r] else [])
     \<and> cell s' = cell s"
  by (auto simp: perform_eq_iff advances_def)

lemma advances_cell [simp]: "advances s (s'\<lparr>cell := x\<rparr>) cs \<longleftrightarrow> advances s s' cs"
  "advances (s\<lparr>cell := x\<rparr>) s' cs \<longleftrightarrow> advances s s' cs"
  by (simp_all add: advances_def)

section \<open>The abstract protocol\<close>

text \<open>An attempt to append one event: it is persisted exactly when the result is no error.\<close>

inductive audited :: "(audit_event \<Rightarrow> bool) \<Rightarrow> 'h obs list \<Rightarrow> unit res \<Rightarrow> bool" for F where
  unavailable: "audited F [] (Inl e)"
| attempted: "F ev \<Longrightarrow> audited F [Append ev r] r"

definition event_for ::
  "access_request \<Rightarrow> audit_event_type \<Rightarrow> pystr option \<Rightarrow> string \<Rightarrow> pystr option \<Rightarrow> pystr \<Rightarrow>
   audit_event \<Rightarrow> bool" where
  "event_for req ty sid result reason actor ev \<longleftrightarrow>
     ev_type ev = ty \<and> ev_session_id ev = sid \<and> ev_result ev = lit result
     \<and> ev_reason_code ev = reason \<and> ev_actor_user_id ev = actor
     \<and> ev_target_id ev = req_target_id req \<and> aware (ev_timestamp ev)"

definition failed_at :: "session \<Rightarrow> datetime \<Rightarrow> string \<Rightarrow> session" where
  "failed_at x d reason =
     x\<lparr>ses_status := FAILED, ses_ended_at := Some d, ses_close_reason := Some (lit reason)\<rparr>"

definition closed_at :: "session \<Rightarrow> datetime \<Rightarrow> string \<Rightarrow> session" where
  "closed_at x d reason =
     x\<lparr>ses_status := CLOSED, ses_ended_at := Some d, ses_close_reason := Some (lit reason)\<rparr>"

text \<open>
  Ending a session with an event: the clock may fail first (only where \<open>c\<close>, the clock's
  reliability, does not hold).
\<close>

inductive ending ::
  "bool \<Rightarrow> access_request \<Rightarrow> audit_event_type \<Rightarrow> string \<Rightarrow> string \<Rightarrow> (datetime \<Rightarrow> session) \<Rightarrow>
   session \<Rightarrow> 'h obs list \<Rightarrow> session \<Rightarrow> unit res \<Rightarrow> bool"
  for c req ty result reason upd x where
  no_clock: "\<not> c \<Longrightarrow> ending c req ty result reason upd x [] x (Inl e)"
| ended: "ends_well (ses_started_at x) d (lit reason) \<Longrightarrow>
    audited (\<lambda>ev. event_for req ty (Some (ses_id x)) result (Some (lit reason))
      (req_user_id req) ev \<and> ev_timestamp ev = d) cs q \<Longrightarrow>
    ending c req ty result reason upd x cs (upd d) q"

text \<open>The session after an audit failure \<open>e\<close> and the exception that leaves the service.\<close>

inductive abandoned :: "bool \<Rightarrow> session \<Rightarrow> exn \<Rightarrow> session \<Rightarrow> exn \<Rightarrow> bool" for c x e where
  not_caught: "\<not> is_exception e \<Longrightarrow> abandoned c x e x e"
| clock_lost: "\<not> c \<Longrightarrow> abandoned c x e x e'"
| marked: "is_exception e \<Longrightarrow> ends_well (ses_started_at x) d (lit ''audit_persistence_failed'') \<Longrightarrow>
    abandoned c x e (failed_at x d ''audit_persistence_failed'') e"

definition result_of :: "access_decision \<Rightarrow> session option \<Rightarrow> unit res \<Rightarrow> access_result res" where
  "result_of decision sess q =
     (case q of Inl e \<Rightarrow> Inl e | Inr _ \<Rightarrow> Inr \<lparr>ar_decision = decision, ar_session = sess\<rparr>)"

text \<open>After the relay ran and the broker was closed with result \<open>cr\<close>.\<close>

inductive concluded ::
  "bool \<Rightarrow> access_request \<Rightarrow> access_decision \<Rightarrow> session \<Rightarrow> relay_value res \<Rightarrow> unit res \<Rightarrow>
   'h obs list \<Rightarrow> session \<Rightarrow> access_result res \<Rightarrow> bool"
  for c req decision x where
  relay_failed: "v \<noteq> Inr (Outcome COMPLETED) \<Longrightarrow> v \<noteq> Inr (Outcome MAX_DURATION_EXCEEDED) \<Longrightarrow>
    (\<And>e. v = Inl e \<Longrightarrow> is_exception e) \<Longrightarrow> (\<And>e. cr = Inl e \<Longrightarrow> is_exception e) \<Longrightarrow>
    ending c req SESSION_FAILED ''failed'' ''relay_failed''
      (\<lambda>d. failed_at x d ''relay_failed'') x cs x' q \<Longrightarrow>
    concluded c req decision x v cr cs x' (result_of decision (Some x') q)"
| close_failed: "v = Inr (Outcome out) \<Longrightarrow> cr = Inl e \<Longrightarrow> is_exception e \<Longrightarrow>
    ending c req SESSION_FAILED ''failed'' ''broker_close_failed''
      (\<lambda>d. failed_at x d ''broker_close_failed'') x cs x' q \<Longrightarrow>
    concluded c req decision x v cr cs x' (result_of decision (Some x') q)"
| closed: "v = Inr (Outcome out) \<Longrightarrow> cr = Inr () \<Longrightarrow>
    reason = (if out = MAX_DURATION_EXCEEDED then ''max_duration_exceeded'' else ''relay_completed'') \<Longrightarrow>
    ending c req SESSION_CLOSED ''closed'' reason (\<lambda>d. closed_at x d reason) x cs x' q \<Longrightarrow>
    concluded c req decision x v cr cs x' (result_of decision (Some x') q)"
| relay_interrupted: "v = Inl e \<Longrightarrow> \<not> is_exception e \<Longrightarrow> (\<And>e. cr = Inl e \<Longrightarrow> is_exception e) \<Longrightarrow>
    concluded c req decision x v cr [] x (Inl e)"
| close_interrupted: "cr = Inl e \<Longrightarrow> \<not> is_exception e \<Longrightarrow>
    concluded c req decision x v cr [] x (Inl e)"

text \<open>From the creation of the session \<open>x\<close> on.\<close>

inductive session_run ::
  "bool \<Rightarrow> int \<Rightarrow> access_request \<Rightarrow> access_decision \<Rightarrow> target \<Rightarrow> privileged_account \<Rightarrow>
   broker_credential \<Rightarrow> session \<Rightarrow> 'h obs list \<Rightarrow> session \<Rightarrow> access_result res \<Rightarrow> bool"
  for c maxd req decision tgt account credential x where
  allowed_unaudited:
    "audited (event_for req ACCESS_ALLOWED (Some (ses_id x)) ''allowed''
       (Some (dec_reason decision)) (req_user_id req)) cs (Inl e) \<Longrightarrow>
     abandoned c x e x' e' \<Longrightarrow>
     session_run c maxd req decision tgt account credential x cs x' (Inl e')"
| opening_unaudited:
    "event_for req ACCESS_ALLOWED (Some (ses_id x)) ''allowed'' (Some (dec_reason decision))
       (req_user_id req) a \<Longrightarrow>
     audited (event_for req SESSION_OPENING (Some (ses_id x)) ''opening'' None
       (req_user_id req)) cs (Inl e) \<Longrightarrow>
     abandoned c x e x' e' \<Longrightarrow>
     session_run c maxd req decision tgt account credential x (Append a (Inr ()) # cs) x' (Inl e')"
| open_failed:
    "event_for req ACCESS_ALLOWED (Some (ses_id x)) ''allowed'' (Some (dec_reason decision))
       (req_user_id req) a \<Longrightarrow>
     event_for req SESSION_OPENING (Some (ses_id x)) ''opening'' None (req_user_id req) b \<Longrightarrow>
     is_exception e \<Longrightarrow>
     ending c req SESSION_FAILED ''failed'' ''broker_open_failed''
       (\<lambda>d. failed_at x d ''broker_open_failed'') x cs x' q \<Longrightarrow>
     session_run c maxd req decision tgt account credential x
       (Append a (Inr ()) # Append b (Inr ()) # OpenSession tgt account credential (Inl e) # cs)
       x' (result_of decision (Some x') q)"
| open_interrupted:
    "event_for req ACCESS_ALLOWED (Some (ses_id x)) ''allowed'' (Some (dec_reason decision))
       (req_user_id req) a \<Longrightarrow>
     event_for req SESSION_OPENING (Some (ses_id x)) ''opening'' None (req_user_id req) b \<Longrightarrow>
     \<not> is_exception e \<Longrightarrow>
     session_run c maxd req decision tgt account credential x
       [Append a (Inr ()), Append b (Inr ()), OpenSession tgt account credential (Inl e)]
       x (Inl e)"
| active_unaudited:
    "event_for req ACCESS_ALLOWED (Some (ses_id x)) ''allowed'' (Some (dec_reason decision))
       (req_user_id req) a \<Longrightarrow>
     event_for req SESSION_OPENING (Some (ses_id x)) ''opening'' None (req_user_id req) b \<Longrightarrow>
     audited (event_for req SESSION_ACTIVE (Some (ses_id x)) ''active'' None
       (req_user_id req)) cs (Inl e) \<Longrightarrow>
     abandoned c (x\<lparr>ses_status := ACTIVE\<rparr>) e x' e' \<Longrightarrow>
     r = (case cr of Inl k \<Rightarrow> if is_exception k then Inl e' else Inl k | Inr _ \<Rightarrow> Inl e') \<Longrightarrow>
     session_run c maxd req decision tgt account credential x
       (Append a (Inr ()) # Append b (Inr ()) # OpenSession tgt account credential (Inr h)
          # cs @ [Close h cr]) x' r"
| relayed:
    "event_for req ACCESS_ALLOWED (Some (ses_id x)) ''allowed'' (Some (dec_reason decision))
       (req_user_id req) a \<Longrightarrow>
     event_for req SESSION_OPENING (Some (ses_id x)) ''opening'' None (req_user_id req) b \<Longrightarrow>
     event_for req SESSION_ACTIVE (Some (ses_id x)) ''active'' None (req_user_id req) d \<Longrightarrow>
     concluded c req decision (x\<lparr>ses_status := ACTIVE\<rparr>) v cr cs x' r \<Longrightarrow>
     session_run c maxd req decision tgt account credential x
       (Append a (Inr ()) # Append b (Inr ()) # OpenSession tgt account credential (Inr h)
          # Append d (Inr ()) # Relay h maxd v # Close h cr # cs) x' r"

text \<open>Why a request that the policy allows may still be refused.\<close>

definition target_refusal :: "target option \<Rightarrow> string option" where
  "target_refusal found = (case found of
       None \<Rightarrow> Some ''target_not_found''
     | Some t \<Rightarrow> if tgt_enabled t then None else Some ''target_disabled'')"

definition account_refusal :: "target \<Rightarrow> privileged_account option \<Rightarrow> string option" where
  "account_refusal t configured = (case configured of
       None \<Rightarrow> Some ''account_not_found''
     | Some a \<Rightarrow> if \<not> acc_enabled a then Some ''privileged_account_disabled''
         else if acc_target_id a \<noteq> tgt_id t then Some ''account_target_mismatch'' else None)"

text \<open>A denial: one \<open>ACCESS_DENIED\<close> event with the decision's reason, then the result.\<close>

inductive denied ::
  "access_request \<Rightarrow> pystr \<Rightarrow> access_decision \<Rightarrow> 'h obs list \<Rightarrow> access_result res \<Rightarrow> bool"
  for req actor decision where
  denied: "audited (event_for req ACCESS_DENIED None ''denied'' (Some (dec_reason decision)) actor)
      cs q \<Longrightarrow> denied req actor decision cs (result_of decision None q)"

definition deny_decision :: "string \<Rightarrow> access_decision" where
  "deny_decision reason = \<lparr>dec_effect = DENY, dec_reason = lit reason\<rparr>"

definition new_session ::
  "access_request \<Rightarrow> target \<Rightarrow> privileged_account \<Rightarrow> pystr \<Rightarrow> datetime \<Rightarrow> session" where
  "new_session req t a i d =
     \<lparr>ses_id = i, ses_request_id = req_id req, ses_user_id = req_user_id req,
      ses_target_id = tgt_id t, ses_account_id = acc_id a, ses_status = OPENING,
      ses_started_at = d, ses_ended_at = None, ses_close_reason = None\<rparr>"

text \<open>After the Vault answered \<open>v\<close>.\<close>

inductive after_resolve ::
  "bool \<Rightarrow> int \<Rightarrow> access_request \<Rightarrow> access_decision \<Rightarrow> target \<Rightarrow> privileged_account \<Rightarrow>
   broker_credential option res \<Rightarrow> 'h obs list \<Rightarrow> session option \<Rightarrow> access_result res \<Rightarrow> bool"
  for c maxd req decision t a where
  vault_failed: "after_resolve c maxd req decision t a (Inl e) [] None (Inl e)"
| no_credential:
    "denied req (req_user_id req) (deny_decision ''credential_not_found'') cs r \<Longrightarrow>
     after_resolve c maxd req decision t a (Inr None) cs None r"
| no_session: "after_resolve c maxd req decision t a (Inr (Some k)) [] None (Inl e)"
| session_created:
    "session_ok (new_session req t a i d) \<Longrightarrow>
     session_run c maxd req decision t a k (new_session req t a i d) cs x r \<Longrightarrow>
     after_resolve c maxd req decision t a (Inr (Some k)) cs (Some x) r"

inductive protocol ::
  "bool \<Rightarrow> int \<Rightarrow> authenticated_principal option \<Rightarrow> access_request \<Rightarrow> 'h obs list \<Rightarrow>
   session option \<Rightarrow> access_result res \<Rightarrow> bool"
  for c maxd who req where
  not_authenticated:
    "who = None \<Longrightarrow> protocol c maxd who req [] None
       (Inl (err TypeError ''principal must be authenticated''))"
| identity_mismatch:
    "who = Some pr \<Longrightarrow> pr_user_id pr \<noteq> req_user_id req \<Longrightarrow>
     denied req (pr_user_id pr) (deny_decision ''authenticated_identity_mismatch'') cs r \<Longrightarrow>
     protocol c maxd who req cs None r"
| policy_unavailable:
    "who = Some pr \<Longrightarrow> pr_user_id pr = req_user_id req \<Longrightarrow>
     protocol c maxd who req
       [FindMatching (req_user_id req) (req_target_id req) (req_action req) (Inl e)] None (Inl e)"
| policy_denies:
    "who = Some pr \<Longrightarrow> pr_user_id pr = req_user_id req \<Longrightarrow> dec_effect (decide ps) \<noteq> ALLOW \<Longrightarrow>
     denied req (req_user_id req) (decide ps) cs r \<Longrightarrow>
     protocol c maxd who req
       (FindMatching (req_user_id req) (req_target_id req) (req_action req) (Inr ps) # cs) None r"
| target_unavailable:
    "who = Some pr \<Longrightarrow> pr_user_id pr = req_user_id req \<Longrightarrow> dec_effect (decide ps) = ALLOW \<Longrightarrow>
     protocol c maxd who req
       [FindMatching (req_user_id req) (req_target_id req) (req_action req) (Inr ps),
        GetTarget (req_target_id req) (Inl e)] None (Inl e)"
| target_refused:
    "who = Some pr \<Longrightarrow> pr_user_id pr = req_user_id req \<Longrightarrow> dec_effect (decide ps) = ALLOW \<Longrightarrow>
     target_refusal found = Some reason \<Longrightarrow>
     denied req (req_user_id req) (deny_decision reason) cs r \<Longrightarrow>
     protocol c maxd who req
       (FindMatching (req_user_id req) (req_target_id req) (req_action req) (Inr ps)
          # GetTarget (req_target_id req) (Inr found) # cs) None r"
| account_unavailable:
    "who = Some pr \<Longrightarrow> pr_user_id pr = req_user_id req \<Longrightarrow> dec_effect (decide ps) = ALLOW \<Longrightarrow>
     tgt_enabled t \<Longrightarrow>
     protocol c maxd who req
       [FindMatching (req_user_id req) (req_target_id req) (req_action req) (Inr ps),
        GetTarget (req_target_id req) (Inr (Some t)), FindForTarget (tgt_id t) (Inl e)]
       None (Inl e)"
| account_refused:
    "who = Some pr \<Longrightarrow> pr_user_id pr = req_user_id req \<Longrightarrow> dec_effect (decide ps) = ALLOW \<Longrightarrow>
     tgt_enabled t \<Longrightarrow> account_refusal t configured = Some reason \<Longrightarrow>
     denied req (req_user_id req) (deny_decision reason) cs r \<Longrightarrow>
     protocol c maxd who req
       (FindMatching (req_user_id req) (req_target_id req) (req_action req) (Inr ps)
          # GetTarget (req_target_id req) (Inr (Some t))
          # FindForTarget (tgt_id t) (Inr configured) # cs) None r"
| resolved:
    "who = Some pr \<Longrightarrow> pr_user_id pr = req_user_id req \<Longrightarrow> dec_effect (decide ps) = ALLOW \<Longrightarrow>
     tgt_enabled t \<Longrightarrow> account_refusal t (Some a) = None \<Longrightarrow>
     after_resolve c maxd req (decide ps) t a v cs x r \<Longrightarrow>
     protocol c maxd who req
       (FindMatching (req_user_id req) (req_target_id req) (req_action req) (Inr ps)
          # GetTarget (req_target_id req) (Inr (Some t))
          # FindForTarget (tgt_id t) (Inr (Some a))
          # Resolve (acc_credential_ref a) v # cs) x r"

section \<open>Every run follows the protocol\<close>

text \<open>A reliable clock never raises and gives aware values, as \<open>SystemClock\<close> does.\<close>

definition clock_reliable :: "('w, 'h) ports \<Rightarrow> bool" where
  "clock_reliable P \<longleftrightarrow> (\<forall>w. \<exists>d w'. p_now P w = (Inr d, w') \<and> aware d)"

lemma append_event_run:
  assumes "append_event P req ty sid result reason actor ts s = (q, s')"
  shows "\<exists>cs. advances s s' cs \<and> cell s' = cell s
    \<and> audited (\<lambda>ev. event_for req ty sid result reason
        (case actor of None \<Rightarrow> req_user_id req | Some u \<Rightarrow> u) ev
        \<and> (\<forall>t. ts = Some t \<longrightarrow> ev_timestamp ev = t)) cs q"
proof -
  let ?F = "\<lambda>ev. event_for req ty sid result reason
        (case actor of None \<Rightarrow> req_user_id req | Some u \<Rightarrow> u) ev
        \<and> (\<forall>t. ts = Some t \<longrightarrow> ev_timestamp ev = t)"
  let ?stamp = "case ts of None \<Rightarrow> call_now P | Some t \<Rightarrow> ret t"
  have stamp: "advances s1 s2 [] \<and> cell s2 = cell s1 \<and> (\<forall>d t. r = Inr d \<longrightarrow> ts = Some t \<longrightarrow> d = t)"
    if "?stamp s1 = (r, s2)" for s1 s2 :: "('a, 'b) svc" and r
    using that advances_perform [of "p_now P" Now s1 r s2]
    by (auto simp: call_now_def split: option.splits)
  have id: "advances s s1 [] \<and> cell s1 = cell s" if "call_new_id P s = (r, s1)" for r s1
    using that advances_perform [of "p_new_id P" NewId s r s1] by (simp add: call_new_id_def)
  have quiet: "\<exists>cs. advances s t cs \<and> cell t = cell s \<and> audited ?F cs q"
    if "advances s t []" "cell t = cell s" "q = Inl e" for t e
    using that audited.unavailable by blast
  from assms consider
      (no_id) e where "call_new_id P s = (Inl e, s')" "q = Inl e"
    | (no_stamp) i s1 e where "call_new_id P s = (Inr i, s1)" "?stamp s1 = (Inl e, s')" "q = Inl e"
    | (stamped) i s1 t s2 where "call_new_id P s = (Inr i, s1)" "?stamp s1 = (Inr t, s2)"
        "bind (lift (mk_audit_event i t ty
             (case actor of None \<Rightarrow> req_user_id req | Some u \<Rightarrow> u)
             (req_target_id req) sid (lit result) reason)) (\<lambda>ev.
         perform (p_append P ev) (Append ev)) s2 = (q, s')"
    unfolding append_event_def bind_eq_iff by blast
  then show ?thesis
  proof cases
    case no_id
    with id quiet show ?thesis by blast
  next
    case no_stamp
    with id [OF no_stamp(1)] stamp [OF no_stamp(2)] have "advances s s' []" "cell s' = cell s"
      using advances_trans [of s s1 "[]" s' "[]"] by auto
    with no_stamp quiet show ?thesis by blast
  next
    case stamped
    with id [OF stamped(1)] stamp [OF stamped(2)] have a: "advances s s2 []" "cell s2 = cell s"
      using advances_trans [of s s1 "[]" s2 "[]"] by auto
    from stamped(3) consider (naive) e where "q = Inl e" "s' = s2"
      | (event) ev where "mk_audit_event i t ty
             (case actor of None \<Rightarrow> req_user_id req | Some u \<Rightarrow> u)
             (req_target_id req) sid (lit result) reason = Inr ev"
          "perform (p_append P ev) (Append ev) s2 = (q, s')"
      by (auto simp: bind_eq_iff)
    then show ?thesis
    proof cases
      case naive
      with a quiet show ?thesis by blast
    next
      case event
      have F: "?F ev"
        using event(1) stamp [OF stamped(2)]
        by (auto simp: mk_audit_event_Inr_iff event_for_def)
      have adv: "advances s2 s' [Append ev q] \<and> cell s' = cell s2"
        using advances_perform [OF event(2)] by simp
      have "advances s s' [Append ev q]"
        using advances_trans [OF a(1) conjunct1 [OF adv]] by simp
      then show ?thesis
        using adv a(2) audited.attempted [where F = ?F, OF F] by (intro exI conjI) simp_all
    qed
  qed
qed

lemma terminal_timestamp_run:
  assumes "terminal_timestamp P s = (q, s')" "cell s = Some x" "aware (ses_started_at x)"
  shows "advances s s' [] \<and> cell s' = cell s
    \<and> (case q of Inl e \<Rightarrow> \<not> clock_reliable P
       | Inr d \<Rightarrow> aware d \<and> utc_us (ses_started_at x) \<le> utc_us d)"
proof -
  from assms(1) obtain r s1 where r: "perform (p_now P) Now s = (r, s1)"
    "case r of Inl e \<Rightarrow> q = Inl e \<and> s' = s1
     | Inr d \<Rightarrow> bind started_at (\<lambda>started. lift (dt_max d started)) s1 = (q, s')"
    by (auto simp: terminal_timestamp_def call_now_def bind_eq_iff)
  from advances_perform [OF r(1)] have s1: "advances s s1 []" "cell s1 = Some x"
    using assms(2) by simp_all
  have bad: "\<not> clock_reliable P" if "\<not> (\<exists>d. r = Inr d \<and> aware d)"
  proof
    assume "clock_reliable P"
    then obtain d w where "p_now P (world s) = (Inr d, w)" "aware d"
      unfolding clock_reliable_def by blast
    with r(1) that show False by (auto simp: perform_eq_iff)
  qed
  show ?thesis
  proof (cases r)
    case (Inl e)
    with r s1 bad assms(2) show ?thesis by simp
  next
    case (Inr d)
    with r(2) s1(2) have q: "q = dt_max d (ses_started_at x)" "s' = s1"
      by (auto simp: bind_eq_iff started_at_def)
    show ?thesis
    proof (cases "aware d")
      case True
      with q s1 assms(2,3) show ?thesis by simp
    next
      case False
      with assms(3) obtain e where "q = Inl e"
        using q by (simp add: dt_max_def dt_less_def aware_utcoffset)
      with q(2) s1 assms(2) bad Inr False show ?thesis by simp
    qed
  qed
qed

lemma on_session_Some [simp]:
  "cell s = Some x \<Longrightarrow> on_session f s =
     (case f x of Inl e \<Rightarrow> (Inl e, s) | Inr y \<Rightarrow> (Inr (), s\<lparr>cell := Some y\<rparr>))"
  by (simp add: on_session_def)

definition live :: "session \<Rightarrow> bool" where
  "live x \<longleftrightarrow> (ses_status x = OPENING \<or> ses_status x = ACTIVE) \<and> aware (ses_started_at x)"

lemma fail_session_run:
  assumes "fail_session P req (ses_id x) reason s = (q, s')" "cell s = Some x" "live x"
    "\<not> blank (lit reason)"
  shows "\<exists>cs x'. advances s s' cs \<and> cell s' = Some x'
    \<and> ending (clock_reliable P) req SESSION_FAILED ''failed'' reason
        (\<lambda>d. failed_at x d reason) x cs x' q"
proof -
  note st = assms(3) [unfolded live_def, THEN conjunct2]
  from assms(1) obtain r s1 where r: "terminal_timestamp P s = (r, s1)"
    "case r of Inl e \<Rightarrow> q = Inl e \<and> s' = s1
     | Inr d \<Rightarrow> seq (on_session (\<lambda>x. mark_failed x d (lit reason)))
         (append_event P req SESSION_FAILED (Some (ses_id x)) ''failed'' (Some (lit reason)) None
            (Some d)) s1 = (q, s')"
    by (auto simp: fail_session_def bind_eq_iff)
  note t = terminal_timestamp_run [OF r(1) assms(2) st]
  show ?thesis
  proof (cases r)
    case (Inl e)
    with r t assms(2) show ?thesis by (auto intro: ending.no_clock)
  next
    case (Inr d)
    with t assms have ew: "ends_well (ses_started_at x) d (lit reason)"
      by (simp add: ends_well_def)
    then have m: "mark_failed x d (lit reason) = Inr (failed_at x d reason)"
      using assms(3) by (simp add: mark_failed_iff [OF st] live_def failed_at_def)
    with Inr r(2) t assms(2) have ap:
      "append_event P req SESSION_FAILED (Some (ses_id x)) ''failed'' (Some (lit reason)) None
         (Some d) (s1\<lparr>cell := Some (failed_at x d reason)\<rparr>) = (q, s')"
      by (simp add: seq_eq_iff)
    from append_event_run [OF this] obtain cs where
      "advances s1 s' cs" "cell s' = Some (failed_at x d reason)"
      "audited (\<lambda>ev. event_for req SESSION_FAILED (Some (ses_id x)) ''failed'' (Some (lit reason))
         (req_user_id req) ev \<and> ev_timestamp ev = d) cs q"
      by auto
    moreover from t this(1) have "advances s s' cs"
      using advances_trans [of s s1 "[]" s' cs] by simp
    ultimately show ?thesis using ending.ended [OF ew] by fast
  qed
qed

lemma abandon_run:
  assumes "abandon P e s = (q, s')" "cell s = Some x" "live x" "is_exception e"
  shows "\<exists>x' e'. advances s s' [] \<and> cell s' = Some x' \<and> q = Inl e'
    \<and> abandoned (clock_reliable P) x e x' e'"
proof -
  note st = assms(3) [unfolded live_def, THEN conjunct2]
  from assms(1) obtain r s1 where r: "terminal_timestamp P s = (r, s1)"
    "case r of Inl k \<Rightarrow> q = Inl k \<and> s' = s1
     | Inr d \<Rightarrow> seq (on_session (\<lambda>x. mark_failed x d (lit ''audit_persistence_failed'')))
         (raise e) s1 = (q, s')"
    by (auto simp: abandon_def bind_eq_iff)
  note t = terminal_timestamp_run [OF r(1) assms(2) st]
  show ?thesis
  proof (cases r)
    case (Inl k)
    with r t assms(2) show ?thesis by (auto intro: abandoned.clock_lost)
  next
    case (Inr d)
    with t have ew: "ends_well (ses_started_at x) d (lit ''audit_persistence_failed'')"
      by (simp add: ends_well_def)
    then have "mark_failed x d (lit ''audit_persistence_failed'')
        = Inr (failed_at x d ''audit_persistence_failed'')"
      using assms(3) by (simp add: mark_failed_iff [OF st] live_def failed_at_def)
    with Inr r(2) t assms(2) show ?thesis
      using abandoned.marked [OF assms(4) ew] by (auto simp: seq_eq_iff)
  qed
qed

lemma on_mark_active:
  assumes "cell s = Some x" "ses_status x = OPENING"
  shows "on_session mark_active s = (Inr (), s\<lparr>cell := Some (x\<lparr>ses_status := ACTIVE\<rparr>)\<rparr>)"
  using assms by (simp add: mark_active_def)

text \<open>An audit step of the service: append, and on an \<open>Exception\<close> mark and re-raise.\<close>

lemma audit_or_abandon_run:
  assumes "try_except m is_exception (abandon P) s = (q, s')"
    and m: "\<And>r s1. m s = (r, s1) \<Longrightarrow> \<exists>cs. advances s s1 cs \<and> cell s1 = cell s \<and> A cs r"
    and "cell s = Some x" "live x"
  shows "\<exists>cs. advances s s' cs \<and>
    (cell s' = Some x \<and> A cs (Inr ()) \<and> q = Inr () \<or>
     (\<exists>e x' e'. A cs (Inl e) \<and> cell s' = Some x' \<and> q = Inl e'
        \<and> abandoned (clock_reliable P) x e x' e'))"
proof -
  obtain r s1 where r: "m s = (r, s1)" by fastforce
  with m obtain cs where cs: "advances s s1 cs" "cell s1 = Some x" "A cs r"
    using assms(3) by fastforce
  show ?thesis
  proof (cases r)
    case (Inr u)
    with r cs assms(1) show ?thesis by (auto simp: try_except_def)
  next
    case (Inl e)
    show ?thesis
    proof (cases "is_exception e")
      case False
      with Inl r cs assms(1) show ?thesis
        by (auto simp: try_except_def intro: abandoned.not_caught)
    next
      case True
      with Inl r assms(1) have "abandon P e s1 = (q, s')" by (simp add: try_except_def)
      from abandon_run [OF this cs(2) assms(4) True] obtain x' e' where
        "advances s1 s' []" "cell s' = Some x'" "q = Inl e'"
        "abandoned (clock_reliable P) x e x' e'" by blast
      moreover from cs(1) this(1) have "advances s s' cs"
        using advances_trans by fastforce
      ultimately show ?thesis using cs(3) Inl by blast
    qed
  qed
qed

lemma close_broker_run:
  assumes "close_broker P h s = (q, s')"
  shows "\<exists>cr. advances s s' [Close h cr] \<and> cell s' = cell s
    \<and> q = (case cr of Inr _ \<Rightarrow> Inr True | Inl e \<Rightarrow> if is_exception e then Inr False else Inl e)"
proof -
  obtain cr s1 where c: "perform (p_close P h) (Close h) s = (cr, s1)" by fastforce
  with assms have "s' = s1"
    "q = (case cr of Inr _ \<Rightarrow> Inr True | Inl e \<Rightarrow> if is_exception e then Inr False else Inl e)"
    by (auto simp: close_broker_def try_except_def seq_def bind_def split: sum.splits if_splits)
  with advances_perform [OF c] show ?thesis by auto
qed

definition relay_result :: "relay_value res \<Rightarrow> relay_outcome option res" where
  "relay_result v = (case v of
       Inl e \<Rightarrow> if is_exception e then Inr None else Inl e
     | Inr (Outcome out) \<Rightarrow> Inr (Some out)
     | Inr NotAnOutcome \<Rightarrow> Inr None)"

lemma relay_session_run:
  assumes "relay_session P req (ses_id x) maxd h s = (q, s')"
    "cell s = Some x" "live x" "ses_status x = OPENING"
  shows "(\<exists>cs e x' e'. advances s s' cs \<and> cell s' = Some x' \<and> q = Inl e'
      \<and> audited (event_for req SESSION_ACTIVE (Some (ses_id x)) ''active'' None (req_user_id req))
          cs (Inl e)
      \<and> abandoned (clock_reliable P) (x\<lparr>ses_status := ACTIVE\<rparr>) e x' e')
    \<or> (\<exists>d v. advances s s' [Append d (Inr ()), Relay h maxd v]
        \<and> event_for req SESSION_ACTIVE (Some (ses_id x)) ''active'' None (req_user_id req) d
        \<and> cell s' = Some (x\<lparr>ses_status := ACTIVE\<rparr>) \<and> q = relay_result v)"
proof -
  let ?x = "x\<lparr>ses_status := ACTIVE\<rparr>" and ?s = "s\<lparr>cell := Some (x\<lparr>ses_status := ACTIVE\<rparr>)\<rparr>"
  let ?E = "event_for req SESSION_ACTIVE (Some (ses_id x)) ''active'' None (req_user_id req)"
  let ?relay = "try_except
       (bind (perform (p_relay P h maxd) (Relay h maxd)) (\<lambda>v.
          case v of
            Outcome out \<Rightarrow> ret (Some out)
          | NotAnOutcome \<Rightarrow> raise (err ValueError ''unsupported relay outcome'')))
       is_exception (\<lambda>_. ret None)"
  let ?audit = "try_except
       (append_event P req SESSION_ACTIVE (Some (ses_id x)) ''active'' None None None)
       is_exception (abandon P)"
  obtain r s1 where r: "?audit ?s = (r, s1)" by fastforce
  from assms(1,2,4) have q: "seq ?audit ?relay ?s = (q, s')"
    by (simp add: relay_session_def on_mark_active seq_apply del: on_session_Some)
  have "\<exists>cs. advances ?s s1 cs \<and>
    (cell s1 = Some ?x \<and> audited ?E cs (Inr ()) \<and> r = Inr () \<or>
     (\<exists>e x' e'. audited ?E cs (Inl e) \<and> cell s1 = Some x' \<and> r = Inl e'
        \<and> abandoned (clock_reliable P) ?x e x' e'))"
    by (rule audit_or_abandon_run [OF r])
       (use assms(3) in \<open>auto simp: live_def dest!: append_event_run\<close>)
  then obtain cs where cs: "advances s s1 cs"
    "cell s1 = Some ?x \<and> audited ?E cs (Inr ()) \<and> r = Inr () \<or>
     (\<exists>e x' e'. audited ?E cs (Inl e) \<and> cell s1 = Some x' \<and> r = Inl e'
        \<and> abandoned (clock_reliable P) ?x e x' e')" by auto
  from cs(2) show ?thesis
  proof (elim disjE exE conjE)
    fix e x' e'
    assume a: "audited ?E cs (Inl e)" "cell s1 = Some x'" "r = Inl e'"
      "abandoned (clock_reliable P) ?x e x' e'"
    with q r have "q = Inl e'" "s' = s1" by (simp_all add: seq_apply)
    with a cs(1) show ?thesis by blast
  next
    assume a: "cell s1 = Some ?x" "audited ?E cs (Inr ())" "r = Inr ()"
    then obtain d where d: "cs = [Append d (Inr ())]" "?E d"
      by (auto elim: audited.cases)
    obtain v s2 where v: "perform (p_relay P h maxd) (Relay h maxd) s1 = (v, s2)" by fastforce
    with q r a have "s' = s2" "q = relay_result v"
      by (auto simp: seq_apply try_except_def bind_apply relay_result_def split: sum.splits relay_value.splits if_splits)
    with advances_perform [OF v] a(1) cs(1) d show ?thesis
      using advances_trans [OF cs(1), of s' "[Relay h maxd v]"] by auto
  qed
qed

lemma close_session_run:
  assumes "bind (terminal_timestamp P) (\<lambda>ended.
       seq (on_session (\<lambda>x. mark_closed x ended (lit reason)))
       (append_event P req SESSION_CLOSED (Some (ses_id x)) ''closed'' (Some (lit reason)) None
          (Some ended))) s = (q, s')" "cell s = Some x" "ses_status x = ACTIVE"
    "aware (ses_started_at x)" "\<not> blank (lit reason)"
  shows "\<exists>cs x'. advances s s' cs \<and> cell s' = Some x'
    \<and> ending (clock_reliable P) req SESSION_CLOSED ''closed'' reason
        (\<lambda>d. closed_at x d reason) x cs x' q"
proof -
  from assms(1) obtain r s1 where r: "terminal_timestamp P s = (r, s1)"
    "case r of Inl e \<Rightarrow> q = Inl e \<and> s' = s1
     | Inr d \<Rightarrow> seq (on_session (\<lambda>x. mark_closed x d (lit reason)))
         (append_event P req SESSION_CLOSED (Some (ses_id x)) ''closed'' (Some (lit reason)) None
            (Some d)) s1 = (q, s')"
    by (auto simp: bind_eq_iff)
  note t = terminal_timestamp_run [OF r(1) assms(2,4)]
  show ?thesis
  proof (cases r)
    case (Inl e)
    with r t assms(2) show ?thesis by (auto intro: ending.no_clock)
  next
    case (Inr d)
    with t assms have ew: "ends_well (ses_started_at x) d (lit reason)"
      by (simp add: ends_well_def)
    then have m: "mark_closed x d (lit reason) = Inr (closed_at x d reason)"
      using assms(3,4) by (simp add: mark_closed_iff closed_at_def)
    with Inr r(2) t assms(2) have ap:
      "append_event P req SESSION_CLOSED (Some (ses_id x)) ''closed'' (Some (lit reason)) None
         (Some d) (s1\<lparr>cell := Some (closed_at x d reason)\<rparr>) = (q, s')"
      by (simp add: seq_eq_iff)
    from append_event_run [OF this] obtain cs where
      "advances s1 s' cs" "cell s' = Some (closed_at x d reason)"
      "audited (\<lambda>ev. event_for req SESSION_CLOSED (Some (ses_id x)) ''closed'' (Some (lit reason))
         (req_user_id req) ev \<and> ev_timestamp ev = d) cs q"
      by auto
    moreover from t this(1) have "advances s s' cs"
      using advances_trans [of s s1 "[]" s' cs] by simp
    ultimately show ?thesis using ending.ended [OF ew] by fast
  qed
qed

lemma finish_result:
  assumes "seq m (finish decision) s = (r, s')"
  shows "\<exists>q. m s = (q, s') \<and> r = result_of decision (cell s') q"
  using assms by (cases "m s")
    (auto simp: seq_apply finish_def result_of_def split: sum.splits)

text \<open>What the service makes of a relay result and a close result.\<close>

lemma conclude_run:
  assumes "conclude P req decision (ses_id x) outcome ok s = (r, s')"
    "relay_result v = Inr outcome" "cell s = Some x" "ses_status x = ACTIVE"
    "aware (ses_started_at x)"
    "case cr of Inr _ \<Rightarrow> ok | Inl e \<Rightarrow> is_exception e \<and> \<not> ok"
  shows "\<exists>cs x'. advances s s' cs \<and> cell s' = Some x'
    \<and> concluded (clock_reliable P) req decision x v cr cs x' r"
proof -
  have live: "live x" using assms(4,5) by (simp add: live_def)
  from finish_result [OF assms(1) [unfolded conclude_def]] obtain q where
    q: "(case outcome of
            None \<Rightarrow> fail_session P req (ses_id x) ''relay_failed''
          | Some out \<Rightarrow>
              if \<not> ok then fail_session P req (ses_id x) ''broker_close_failed''
              else
                (let close_reason = (if out = MAX_DURATION_EXCEEDED
                                     then ''max_duration_exceeded'' else ''relay_completed'')
                 in bind (terminal_timestamp P) (\<lambda>ended.
                    seq (on_session (\<lambda>x. mark_closed x ended (lit close_reason)))
                    (append_event P req SESSION_CLOSED (Some (ses_id x)) ''closed''
                       (Some (lit close_reason)) None (Some ended))))) s = (q, s')"
    "r = result_of decision (cell s') q" by blast
  show ?thesis
  proof (cases outcome)
    case None
    with assms(2) have v: "v \<noteq> Inr (Outcome out)" for out by (auto simp: relay_result_def)
    have e: "is_exception e" if "v = Inl e" for e
      using that None assms(2) by (simp add: relay_result_def split: if_splits)
    from None q(1) have "fail_session P req (ses_id x) ''relay_failed'' s = (q, s')" by simp
    from fail_session_run [OF this assms(3) live] obtain cs x' where
      c: "advances s s' cs" "cell s' = Some x'"
      "ending (clock_reliable P) req SESSION_FAILED ''failed'' ''relay_failed''
        (\<lambda>d. failed_at x d ''relay_failed'') x cs x' q" by auto
    moreover have "is_exception e" if "cr = Inl e" for e
      using that assms(6) by simp
    ultimately show ?thesis
      using concluded.relay_failed [OF v v e _ c(3), of cr decision] q(2) by auto
  next
    case (Some out)
    with assms(2) have v: "v = Inr (Outcome out)"
      by (auto simp: relay_result_def split: sum.splits relay_value.splits if_splits)
    show ?thesis
    proof (cases ok)
      case False
      then obtain e where e: "cr = Inl e" "is_exception e"
        using assms(6) by (cases cr) auto
      from Some False q(1) have "fail_session P req (ses_id x) ''broker_close_failed'' s = (q, s')"
        by simp
      from fail_session_run [OF this assms(3) live] obtain cs x' where
        c: "advances s s' cs" "cell s' = Some x'"
        "ending (clock_reliable P) req SESSION_FAILED ''failed'' ''broker_close_failed''
          (\<lambda>d. failed_at x d ''broker_close_failed'') x cs x' q" by auto
      then show ?thesis
        using concluded.close_failed [OF v e c(3), of decision] q(2) c by auto
    next
      case True
      then have cr: "cr = Inr ()" using assms(6) by (cases cr) auto
      define reason where
        "reason = (if out = MAX_DURATION_EXCEEDED then ''max_duration_exceeded'' else ''relay_completed'')"
      have "bind (terminal_timestamp P) (\<lambda>ended.
         seq (on_session (\<lambda>x. mark_closed x ended (lit reason)))
         (append_event P req SESSION_CLOSED (Some (ses_id x)) ''closed'' (Some (lit reason)) None
            (Some ended))) s = (q, s')"
        using q(1) Some True by (simp only: option.case if_True not_True_eq_False if_False Let_def reason_def)
      moreover have "\<not> blank (lit reason)" by (simp add: reason_def)
      ultimately obtain cs x' where
        c: "advances s s' cs" "cell s' = Some x'"
        "ending (clock_reliable P) req SESSION_CLOSED ''closed'' reason
          (\<lambda>d. closed_at x d reason) x cs x' q"
        using close_session_run [OF _ assms(3,4,5)] by blast
      then show ?thesis
        using concluded.closed [OF v cr reason_def c(3), of decision] q(2) c by auto
    qed
  qed
qed

text \<open>The two events before the broker is asked.\<close>

lemma announce_run:
  assumes "seq (append_event P req ACCESS_ALLOWED sid ''allowed'' reason None None)
              (append_event P req SESSION_OPENING sid ''opening'' None None None) s = (q, t)"
  defines "A \<equiv> event_for req ACCESS_ALLOWED sid ''allowed'' reason (req_user_id req)"
    and "B \<equiv> event_for req SESSION_OPENING sid ''opening'' None (req_user_id req)"
  shows "\<exists>cs. advances s t cs \<and> cell t = cell s
    \<and> ((\<exists>e. audited A cs (Inl e) \<and> q = Inl e)
      \<or> (\<exists>a cs'. A a \<and> cs = Append a (Inr ()) # cs' \<and> audited B cs' q))"
proof -
  from assms(1) consider (first) e where
      "append_event P req ACCESS_ALLOWED sid ''allowed'' reason None None s = (Inl e, t)" "q = Inl e"
    | (second) s2 where
      "append_event P req ACCESS_ALLOWED sid ''allowed'' reason None None s = (Inr (), s2)"
      "append_event P req SESSION_OPENING sid ''opening'' None None None s2 = (q, t)"
    unfolding seq_eq_iff by blast
  then show ?thesis
  proof cases
    case first
    from append_event_run [OF first(1)] first(2) show ?thesis by (auto simp: A_def)
  next
    case second
    from append_event_run [OF second(1)] obtain cs where cs: "advances s s2 cs"
      "cell s2 = cell s" "audited A cs (Inr ())" by (auto simp: A_def)
    then obtain a where a: "cs = [Append a (Inr ())]" "A a" by (auto elim: audited.cases)
    from append_event_run [OF second(2)] obtain cs' where "advances s2 t cs'"
      "cell t = cell s2" "audited B cs' q" by (auto simp: B_def)
    with cs a show ?thesis using advances_trans [OF cs(1), of t cs'] by auto
  qed
qed

text \<open>From the open broker to the end: the relay, the close and the conclusion.\<close>

lemma relayed_phase:
  assumes "finally_with m (close_broker P h) s = (q, s4)"
    "m s = (relay_result v, s3)" "cell s3 = Some x" "ses_status x = ACTIVE" "aware (ses_started_at x)"
    "(case q of Inl e \<Rightarrow> r = Inl e \<and> s' = s4
      | Inr (outcome, ok) \<Rightarrow> conclude P req decision (ses_id x) outcome ok s4 = (r, s'))"
  shows "\<exists>cr cs x'. advances s3 s' (Close h cr # cs) \<and> cell s' = Some x'
    \<and> concluded (clock_reliable P) req decision x v cr cs x' r"
proof -
  obtain qc s5 where "close_broker P h s3 = (qc, s5)" by fastforce
  from finally_with_result [OF assms(1,2) this] this have qc: "close_broker P h s3 = (qc, s4)"
    and q: "q = (case qc of Inl e \<Rightarrow> Inl e | Inr ok \<Rightarrow>
      (case relay_result v of Inl e \<Rightarrow> Inl e | Inr out \<Rightarrow> Inr (out, ok)))" by blast+
  from close_broker_run [OF qc] obtain cr where cr: "advances s3 s4 [Close h cr]"
    "cell s4 = Some x"
    "qc = (case cr of Inr _ \<Rightarrow> Inr True | Inl e \<Rightarrow> if is_exception e then Inr False else Inl e)"
    unfolding assms(3) by blast
  have "\<exists>cs x'. advances s4 s' cs \<and> cell s' = Some x'
     \<and> concluded (clock_reliable P) req decision x v cr cs x' r"
  proof (cases qc)
    case (Inl e)
    then have e: "cr = Inl e" "\<not> is_exception e"
      using cr(3) by (auto split: sum.splits if_splits)
    have "q = Inl e" using q Inl by simp
    from assms(6) [unfolded this] have "r = Inl e" "s' = s4" by simp_all
    with cr(2) concluded.close_interrupted [OF e] show ?thesis
      by (intro exI [of _ "[]"] exI [of _ x]) simp
  next
    case (Inr ok)
    then have ok: "case cr of Inr _ \<Rightarrow> ok | Inl e \<Rightarrow> is_exception e \<and> \<not> ok"
      using cr(3) by (auto split: sum.splits if_splits)
    show ?thesis
    proof (cases "relay_result v")
      case (Inl e)
      then have v: "v = Inl e" "\<not> is_exception e"
        by (auto simp: relay_result_def split: sum.splits relay_value.splits if_splits)
      have "q = Inl e" using q Inl Inr by simp
      from assms(6) [unfolded this] have "r = Inl e" "s' = s4" by simp_all
      moreover have "is_exception k" if "cr = Inl k" for k using that ok by simp
      then have "concluded (clock_reliable P) req decision x v cr [] x (Inl e)"
        by (rule concluded.relay_interrupted [OF v])
      ultimately show ?thesis using cr(2) by (intro exI [of _ "[]"] exI [of _ x]) simp
    next
      case R: (Inr outcome)
      then have "q = Inr (outcome, ok)" using q Inr by simp
      from assms(6) [unfolded this]
      have "conclude P req decision (ses_id x) outcome ok s4 = (r, s')" by simp
      from conclude_run [OF this R cr(2) assms(4,5) ok] show ?thesis .
    qed
  qed
  then show ?thesis using advances_trans [OF cr(1)] by (metis append_Cons append_Nil)
qed

lemma broker_phase_run:
  assumes "broker_phase P maxd req decision (ses_id x) h s = (r, s')"
    "cell s = Some x" "ses_status x = OPENING" "aware (ses_started_at x)"
    and A: "event_for req ACCESS_ALLOWED (Some (ses_id x)) ''allowed'' (Some (dec_reason decision))
       (req_user_id req) a"
    and B: "event_for req SESSION_OPENING (Some (ses_id x)) ''opening'' None (req_user_id req) b"
  shows "\<exists>cs x'. advances s s' cs \<and> cell s' = Some x'
    \<and> session_run (clock_reliable P) maxd req decision tgt account credential x
        (Append a (Inr ()) # Append b (Inr ()) # OpenSession tgt account credential (Inr h) # cs) x' r"
proof -
  obtain qr s3 where qr: "relay_session P req (ses_id x) maxd h s = (qr, s3)" by fastforce
  obtain q s4 where q: "finally_with (relay_session P req (ses_id x) maxd h) (close_broker P h) s
     = (q, s4)" by fastforce
  have live: "live x" using assms(3,4) by (simp add: live_def)
  from relay_session_run [OF qr assms(2) live assms(3)] show ?thesis
  proof (elim disjE exE conjE)
    fix cs e x' e'
    assume u: "advances s s3 cs" "cell s3 = Some x'" "qr = Inl e'"
      "audited (event_for req SESSION_ACTIVE (Some (ses_id x)) ''active'' None (req_user_id req))
         cs (Inl e)"
      "abandoned (clock_reliable P) (x\<lparr>ses_status := ACTIVE\<rparr>) e x' e'"
    obtain qc s5 where "close_broker P h s3 = (qc, s5)" by fastforce
    from finally_with_result [OF q qr this] this have qc: "close_broker P h s3 = (qc, s4)"
      by blast
    from close_broker_run [OF qc] obtain cr where cr: "advances s3 s4 [Close h cr]"
      "cell s4 = cell s3"
      "qc = (case cr of Inr _ \<Rightarrow> Inr True | Inl e \<Rightarrow> if is_exception e then Inr False else Inl e)"
      by blast
    have "s' = s4"
      "r = (case cr of Inl k \<Rightarrow> if is_exception k then Inl e' else Inl k | Inr _ \<Rightarrow> Inl e')"
      using assms(1) qr qc u(3) cr(3)
      by (auto simp: broker_phase_def bind_apply finally_with_def split: sum.splits if_splits)
    then show ?thesis
      using session_run.active_unaudited [OF A B u(4,5) refl] cr(2) u(2)
        advances_trans [OF u(1) cr(1)] by fastforce
  next
    fix d v
    let ?x = "x\<lparr>ses_status := ACTIVE\<rparr>"
    assume u: "advances s s3 [Append d (Inr ()), Relay h maxd v]"
      "event_for req SESSION_ACTIVE (Some (ses_id x)) ''active'' None (req_user_id req) d"
      "cell s3 = Some ?x" "qr = relay_result v"
    have "case q of Inl e \<Rightarrow> r = Inl e \<and> s' = s4
      | Inr (outcome, ok) \<Rightarrow> conclude P req decision (ses_id ?x) outcome ok s4 = (r, s')"
      using assms(1) q by (auto simp: broker_phase_def bind_apply split: sum.splits)
    from relayed_phase [OF q qr [unfolded u(4)] u(3) _ _ this] assms(4)
    obtain cr cs x' where f: "advances s3 s' (Close h cr # cs)" "cell s' = Some x'"
      "concluded (clock_reliable P) req decision ?x v cr cs x' r" by auto
    show ?thesis
      using session_run.relayed [OF A B u(2) f(3)] advances_trans [OF u(1) f(1)] f(2) by fastforce
  qed
qed

text \<open>From the created session on.\<close>

lemma opening_run:
  assumes "bind (try_except
              (bind (perform (p_open_session P tgt account credential)
                       (OpenSession tgt account credential)) (\<lambda>h. ret (Some h)))
              is_exception
              (\<lambda>_. seq (fail_session P req (ses_id x) ''broker_open_failed'') (ret None)))
       (\<lambda>opened. case opened of
           None \<Rightarrow> finish decision
         | Some h \<Rightarrow> broker_phase P maxd req decision (ses_id x) h) s = (r, s')"
    "cell s = Some x" "ses_status x = OPENING" "aware (ses_started_at x)"
    and A: "event_for req ACCESS_ALLOWED (Some (ses_id x)) ''allowed'' (Some (dec_reason decision))
       (req_user_id req) a"
    and B: "event_for req SESSION_OPENING (Some (ses_id x)) ''opening'' None (req_user_id req) b"
  shows "\<exists>cs x'. advances s s' cs \<and> cell s' = Some x'
    \<and> session_run (clock_reliable P) maxd req decision tgt account credential x
        (Append a (Inr ()) # Append b (Inr ()) # cs) x' r"
proof -
  have live: "live x" using assms(3,4) by (simp add: live_def)
  obtain k s2 where k: "perform (p_open_session P tgt account credential)
     (OpenSession tgt account credential) s = (k, s2)" by fastforce
  with advances_perform [OF k] assms(2)
  have s2: "cell s2 = Some x" "advances s s2 [OpenSession tgt account credential k]" by auto
  show ?thesis
  proof (cases k)
    case (Inr h)
    with k assms(1) have "broker_phase P maxd req decision (ses_id x) h s2 = (r, s')"
      by (simp add: bind_apply try_except_def)
    from broker_phase_run [OF this s2(1) assms(3,4) A B] show ?thesis
      using advances_trans [OF s2(2)] Inr by fastforce
  next
    case (Inl e)
    show ?thesis
    proof (cases "is_exception e")
      case False
      with Inl k assms(1) have "r = Inl e" "s' = s2"
        by (simp_all add: bind_apply try_except_def)
      with s2 Inl show ?thesis
        using session_run.open_interrupted [OF A B False] by fastforce
    next
      case True
      obtain q s3 where f: "fail_session P req (ses_id x) ''broker_open_failed'' s2 = (q, s3)"
        by fastforce
      with True Inl k assms(1) have rs: "s' = s3" "r = result_of decision (cell s3) q"
        by (auto simp: bind_apply seq_apply try_except_def finish_def result_of_def split: sum.splits)
      from fail_session_run [OF f s2(1) live] obtain cs x' where fs: "advances s2 s3 cs"
        "cell s3 = Some x'" "ending (clock_reliable P) req SESSION_FAILED ''failed'' ''broker_open_failed''
           (\<lambda>d. failed_at x d ''broker_open_failed'') x cs x' q" by auto
      show ?thesis
        using session_run.open_failed [OF A B True fs(3)] advances_trans [OF s2(2) fs(1)]
          fs(2) rs Inl by fastforce
    qed
  qed
qed

lemma run_session_run:
  assumes "run_session P maxd req decision tgt account credential (ses_id x) s = (r, s')"
    "cell s = Some x" "ses_status x = OPENING" "aware (ses_started_at x)"
  shows "\<exists>cs x'. advances s s' cs \<and> cell s' = Some x'
    \<and> session_run (clock_reliable P) maxd req decision tgt account credential x cs x' r"
proof -
  let ?c = "clock_reliable P" and ?sid = "Some (ses_id x)" and ?u = "req_user_id req"
  let ?A = "event_for req ACCESS_ALLOWED ?sid ''allowed'' (Some (dec_reason decision)) ?u"
  let ?B = "event_for req SESSION_OPENING ?sid ''opening'' None ?u"
  let ?announce = "seq (append_event P req ACCESS_ALLOWED ?sid ''allowed''
                   (Some (dec_reason decision)) None None)
                (append_event P req SESSION_OPENING ?sid ''opening'' None None None)"
  define S :: "'b obs list \<Rightarrow> unit res \<Rightarrow> bool" where "S = (\<lambda>cs q. (\<exists>e. audited ?A cs (Inl e) \<and> q = Inl e) \<or>
     (\<exists>a cs'. ?A a \<and> cs = Append a (Inr ()) # cs' \<and> audited ?B cs' q))"
  obtain q1 s1 where q1: "try_except ?announce is_exception (abandon P) s = (q1, s1)" by fastforce
  have live: "live x" using assms(3,4) by (simp add: live_def)
  have an: "\<exists>cs. advances s t cs \<and> cell t = cell s \<and> S cs q" if "?announce s = (q, t)" for q t
    using announce_run [OF that] by (simp add: S_def)
  from audit_or_abandon_run [where A = S, OF q1 an assms(2) live] obtain cs1 where
    cs1: "advances s s1 cs1"
    "cell s1 = Some x \<and> S cs1 (Inr ()) \<and> q1 = Inr () \<or>
     (\<exists>e x' e'. S cs1 (Inl e) \<and> cell s1 = Some x' \<and> q1 = Inl e' \<and> abandoned ?c x e x' e')"
    by blast
  from cs1(2) show ?thesis
  proof (elim disjE exE conjE)
    fix e x' e'
    assume e: "S cs1 (Inl e)" "cell s1 = Some x'" "q1 = Inl e'" "abandoned ?c x e x' e'"
    with assms(1) q1 have "r = Inl e'" "s' = s1" by (simp_all add: run_session_def seq_apply)
    with e cs1(1) show ?thesis
      using session_run.allowed_unaudited [of req x decision cs1 e ?c x' e']
        session_run.opening_unaudited [of req x decision] unfolding S_def by blast
  next
    assume s1: "S cs1 (Inr ())" "cell s1 = Some x" "q1 = Inr ()"
    then obtain a b where ab: "cs1 = [Append a (Inr ()), Append b (Inr ())]" "?A a" "?B b"
      by (auto simp: S_def elim: audited.cases)
    have "bind (try_except
              (bind (perform (p_open_session P tgt account credential)
                       (OpenSession tgt account credential)) (\<lambda>h. ret (Some h)))
              is_exception
              (\<lambda>_. seq (fail_session P req (ses_id x) ''broker_open_failed'') (ret None)))
       (\<lambda>opened. case opened of
           None \<Rightarrow> finish decision
         | Some h \<Rightarrow> broker_phase P maxd req decision (ses_id x) h) s1 = (r, s')"
      using assms(1) q1 s1(3) by (simp add: run_session_def seq_apply)
    from opening_run [OF this s1(2) assms(3,4) ab(2,3)] show ?thesis
      using advances_trans [OF cs1(1)] ab(1) by fastforce
  qed
qed

lemma deny_run:
  assumes "deny P req decision actor s = (r, s')"
  shows "\<exists>cs. advances s s' cs \<and> cell s' = cell s
    \<and> denied req (case actor of None \<Rightarrow> req_user_id req | Some u \<Rightarrow> u) decision cs r"
proof -
  obtain q s1 where q: "append_event P req ACCESS_DENIED None ''denied''
      (Some (dec_reason decision)) actor None s = (q, s1)" by fastforce
  with assms have "s1 = s'" "r = result_of decision None q"
    by (auto simp: deny_def seq_apply result_of_def split: sum.splits)
  with append_event_run [OF q] show ?thesis by (auto intro: denied.denied)
qed

lemma deny_with_reason_run:
  "deny_with_reason P req reason s = (r, s') \<Longrightarrow>
   \<exists>cs. advances s s' cs \<and> cell s' = cell s
     \<and> denied req (req_user_id req) (deny_decision reason) cs r"
  using deny_run [of P req "deny_decision reason" None s r s']
  by (simp add: deny_with_reason_def deny_decision_def)

lemma open_allowed_run:
  assumes "open_allowed P maxd req decision t a k s = (r, s')" "cell s = None"
  shows "\<exists>cs. advances s s' cs
    \<and> after_resolve (clock_reliable P) maxd req decision t a (Inr (Some k)) cs (cell s') r"
proof -
  let ?done = "\<lambda>t'. advances s t' [] \<and> cell t' = None"
  obtain qi s1 where i: "perform (p_new_id P) NewId s = (qi, s1)" by fastforce
  obtain qt s2 where t: "perform (p_now P) Now s1 = (qt, s2)" by fastforce
  from advances_perform [OF i] assms(2) have s1: "?done s1" by simp
  with advances_perform [OF t] have s2: "?done s2" using advances_trans by fastforce
  show ?thesis
  proof (cases "\<exists>i d. qi = Inr i \<and> qt = Inr d \<and> session_ok (new_session req t a i d)")
    case False
    then have "\<exists>e. r = Inl e \<and> (s' = s1 \<or> s' = s2)"
      using assms(1) i t mk_session_iff
      by (auto simp: open_allowed_def call_new_id_def call_now_def bind_apply new_session_def
        split: sum.splits)
    with s1 s2 show ?thesis using after_resolve.no_session by (metis (full_types))
  next
    case True
    then obtain j d where j: "qi = Inr j" "qt = Inr d" "session_ok (new_session req t a j d)" by blast
    let ?x = "new_session req t a j d" and ?s = "s2\<lparr>cell := Some (new_session req t a j d)\<rparr>"
    have "mk_session ?x = Inr ?x" using j(3) by (simp add: mk_session_iff)
    with assms(1) i t j have run: "run_session P maxd req decision t a k (ses_id ?x) ?s = (r, s')"
      by (simp add: open_allowed_def call_new_id_def call_now_def bind_apply seq_apply new_session_def)
    have "aware (ses_started_at ?x)" using j(3) by (rule session_ok_started)
    then obtain cs x' where o: "advances ?s s' cs" "cell s' = Some x'"
      "session_run (clock_reliable P) maxd req decision t a k ?x cs x' r"
      using run_session_run [OF run] by (auto simp: new_session_def)
    have "advances s s' cs" using s2 o(1) advances_trans [of s s2 "[]" s' cs] by simp
    with after_resolve.session_created [OF j(3) o(3)] o(2) show ?thesis by metis
  qed
qed

text \<open>
  A port call of \<open>handle\<close> and \<open>rest\<close>, what follows it where it succeeds.
\<close>

lemma perform_then:
  assumes "bind (perform f ob) rest s = (r, s')" "\<And>q. key_call (ob q)" "cell s = None"
  obtains (failed) e where "advances s s' [ob (Inl e)]" "cell s' = None" "r = Inl e"
  | (continued) x s1 where "advances s s1 [ob (Inr x)]" "cell s1 = None" "rest x s1 = (r, s')"
proof -
  obtain q s1 where q: "perform f ob s = (q, s1)" by fastforce
  from advances_perform [OF q] assms(2,3) have "advances s s1 [ob q]" "cell s1 = None" by simp_all
  with q assms(1) failed continued show thesis by (cases q) (auto simp: bind_apply)
qed

lemma handle_account_run:
  assumes "handle_account P maxd req decision t configured s = (r, s')" "cell s = None"
  shows "(\<exists>reason cs. advances s s' cs \<and> cell s' = None
        \<and> account_refusal t configured = Some reason
        \<and> denied req (req_user_id req) (deny_decision reason) cs r)
    \<or> (\<exists>a v cs. configured = Some a \<and> account_refusal t configured = None
        \<and> advances s s' (Resolve (acc_credential_ref a) v # cs)
        \<and> after_resolve (clock_reliable P) maxd req decision t a v cs (cell s') r)"
proof (cases "account_refusal t configured")
  case (Some reason)
  then have "deny_with_reason P req reason s = (r, s')"
    using assms(1) by (auto simp: handle_account_def account_refusal_def split: option.splits if_splits)
  from deny_with_reason_run [OF this] Some assms(2) show ?thesis by auto
next
  case None
  then obtain a where a: "configured = Some a" "acc_enabled a" "acc_target_id a = tgt_id t"
    by (auto simp: account_refusal_def split: option.splits if_splits)
  let ?c = "clock_reliable P" and ?R = "Resolve (acc_credential_ref a)"
  have "bind (perform (p_resolve P (acc_credential_ref a)) ?R)
       (\<lambda>resolved. case resolved of
           None \<Rightarrow> deny_with_reason P req ''credential_not_found''
         | Some credential \<Rightarrow> open_allowed P maxd req decision t a credential) s = (r, s')"
    using assms(1) a by (simp add: handle_account_def)
  then have "\<exists>v cs. advances s s' (?R v # cs) \<and> after_resolve ?c maxd req decision t a v cs (cell s') r"
  proof (rule perform_then)
    show "cell s = None" by (rule assms(2))
  next
    fix e assume "advances s s' [?R (Inl e)]" "cell s' = None" "r = Inl e"
    then show ?thesis using after_resolve.vault_failed by metis
  next
    fix resolved s1
    assume c: "advances s s1 [?R (Inr resolved)]" "cell s1 = None"
      "(case resolved of
           None \<Rightarrow> deny_with_reason P req ''credential_not_found''
         | Some credential \<Rightarrow> open_allowed P maxd req decision t a credential) s1 = (r, s')"
    have "\<exists>cs. advances s1 s' cs
        \<and> after_resolve ?c maxd req decision t a (Inr resolved) cs (cell s') r"
    proof (cases resolved)
      case None
      with c(3) have "deny_with_reason P req ''credential_not_found'' s1 = (r, s')" by simp
      from deny_with_reason_run [OF this] obtain cs where d: "advances s1 s' cs" "cell s' = None"
        "denied req (req_user_id req) (deny_decision ''credential_not_found'') cs r"
        using c(2) by auto
      from d(1,2) None after_resolve.no_credential [OF d(3)] show ?thesis by metis
    next
      case (Some k)
      with c open_allowed_run [of P maxd req decision t a k s1 r s'] show ?thesis by auto
    qed
    then show ?thesis using advances_trans [OF c(1)] by (metis append_Cons append_Nil)
  qed simp
  with a None show ?thesis by blast
qed

lemma handle_target_run:
  assumes "handle_target P maxd req (decide ps) found s = (r, s')" "cell s = None"
    "who = Some pr" "pr_user_id pr = req_user_id req" "dec_effect (decide ps) = ALLOW"
  shows "\<exists>cs. advances s s' cs \<and> protocol (clock_reliable P) maxd who req
    (FindMatching (req_user_id req) (req_target_id req) (req_action req) (Inr ps)
      # GetTarget (req_target_id req) (Inr found) # cs) (cell s') r"
proof (cases "target_refusal found")
  case (Some reason)
  then have "deny_with_reason P req reason s = (r, s')"
    using assms(1) by (auto simp: handle_target_def target_refusal_def split: option.splits if_splits)
  from deny_with_reason_run [OF this] assms(2) show ?thesis
    using protocol.target_refused [OF assms(3-5) Some] by fastforce
next
  case None
  then obtain t where t: "found = Some t" "tgt_enabled t"
    by (auto simp: target_refusal_def split: option.splits if_splits)
  let ?FA = "FindForTarget (tgt_id t)"
  have "bind (perform (p_find_for_target P (tgt_id t)) ?FA)
      (handle_account P maxd req (decide ps) t) s = (r, s')"
    using assms(1) t by (simp add: handle_target_def)
  then show ?thesis
  proof (rule perform_then)
    show "cell s = None" by (rule assms(2))
  next
    fix e assume "advances s s' [?FA (Inl e)]" "cell s' = None" "r = Inl e"
    with t show ?thesis using protocol.account_unavailable [OF assms(3-5) t(2)] by metis
  next
    fix configured s1
    assume c: "advances s s1 [?FA (Inr configured)]" "cell s1 = None"
      "handle_account P maxd req (decide ps) t configured s1 = (r, s')"
    from handle_account_run [OF c(3,2)] show ?thesis
    proof (elim disjE exE conjE)
      fix reason cs
      assume d: "advances s1 s' cs" "cell s' = None" "account_refusal t configured = Some reason"
        "denied req (req_user_id req) (deny_decision reason) cs r"
      show ?thesis
        using protocol.account_refused [OF assms(3-5) t(2) d(3,4)] advances_trans [OF c(1) d(1)]
          d(2) t(1) by (metis append_Cons append_Nil)
    next
      fix a v cs
      assume d: "configured = Some a" "account_refusal t configured = None"
        "advances s1 s' (Resolve (acc_credential_ref a) v # cs)"
        "after_resolve (clock_reliable P) maxd req (decide ps) t a v cs (cell s') r"
      show ?thesis
        using protocol.resolved [OF assms(3-5) t(2) d(2) [unfolded d(1)] d(4)]
          advances_trans [OF c(1) d(3)] d(1) t(1) by (metis append_Cons append_Nil)
    qed
  qed simp
qed

lemma handle_policy_run:
  assumes "handle P maxd who req s = (r, s')" "cell s = None"
    "who = Some pr" "pr_user_id pr = req_user_id req"
  shows "\<exists>cs. advances s s' cs \<and> protocol (clock_reliable P) maxd who req cs (cell s') r"
proof -
  let ?FM = "FindMatching (req_user_id req) (req_target_id req) (req_action req)"
  let ?GT = "GetTarget (req_target_id req)"
  let ?lookup = "bind (perform (p_get_target P (req_target_id req)) ?GT)"
  have "bind (perform (p_find_matching P (req_user_id req) (req_target_id req) (req_action req)) ?FM)
      (\<lambda>ps. if dec_effect (decide ps) \<noteq> ALLOW then deny P req (decide ps) None
       else ?lookup (handle_target P maxd req (decide ps))) s = (r, s')"
    using assms(1,3,4) by (simp add: handle_def evaluate_def bind_ret_map)
  then show ?thesis
  proof (rule perform_then)
    show "cell s = None" by (rule assms(2))
  next
    fix e assume "advances s s' [?FM (Inl e)]" "cell s' = None" "r = Inl e"
    then show ?thesis using protocol.policy_unavailable [OF assms(3,4)] by metis
  next
    fix ps s1
    assume c: "advances s s1 [?FM (Inr ps)]" "cell s1 = None"
      "(if dec_effect (decide ps) \<noteq> ALLOW then deny P req (decide ps) None
       else ?lookup (handle_target P maxd req (decide ps))) s1 = (r, s')"
    show ?thesis
    proof (cases "dec_effect (decide ps) = ALLOW")
      case False
      with c(3) have "deny P req (decide ps) None s1 = (r, s')" by simp
      from deny_run [OF this] obtain cs where d: "advances s1 s' cs" "cell s' = None"
        "denied req (req_user_id req) (decide ps) cs r" using c(2) by auto
      show ?thesis
        using protocol.policy_denies [OF assms(3,4) False d(3)] advances_trans [OF c(1) d(1)] d(2)
        by (metis append_Cons append_Nil)
    next
      case True
      with c(3) have "?lookup (handle_target P maxd req (decide ps)) s1 = (r, s')" by simp
      then show ?thesis
      proof (rule perform_then)
        show "cell s1 = None" by (rule c(2))
      next
        fix e assume "advances s1 s' [?GT (Inl e)]" "cell s' = None" "r = Inl e"
        then show ?thesis
          using protocol.target_unavailable [OF assms(3,4) True] advances_trans [OF c(1)]
          by (metis append_Cons append_Nil)
      next
        fix found s2
        assume f: "advances s1 s2 [?GT (Inr found)]" "cell s2 = None"
          "handle_target P maxd req (decide ps) found s2 = (r, s')"
        from handle_target_run [OF f(3,2) assms(3,4) True] show ?thesis
          using advances_trans [OF advances_trans [OF c(1) f(1)]]
          by (metis append_Cons append_Nil)
      qed simp
    qed
  qed simp
qed

lemma handle_protocol:
  assumes "handle P maxd who req (initial_state w) = (r, s')"
  shows "protocol (clock_reliable P) maxd who req (steps (trace s')) (cell s') r"
proof -
  let ?s = "initial_state w"
  have adv: "steps (trace s') = cs" if "advances ?s s' cs" for cs
    using that by (auto simp: advances_def initial_state_def)
  have c0: "cell ?s = None" by (simp add: initial_state_def)
  show ?thesis
  proof (cases who)
    case None
    with assms show ?thesis
      by (auto simp: handle_def initial_state_def intro: protocol.not_authenticated)
  next
    case (Some pr)
    show ?thesis
    proof (cases "pr_user_id pr = req_user_id req")
      case True
      from handle_policy_run [OF assms c0 Some True] adv show ?thesis by blast
    next
      case False
      with assms Some have "deny P req (deny_decision ''authenticated_identity_mismatch'')
          (Some (pr_user_id pr)) ?s = (r, s')"
        by (simp add: handle_def deny_decision_def)
      from deny_run [OF this] obtain cs where d: "advances ?s s' cs" "cell s' = None"
        "denied req (pr_user_id pr) (deny_decision ''authenticated_identity_mismatch'') cs r"
        using c0 by auto
      from protocol.identity_mismatch [OF Some False d(3)] adv [OF d(1)] d(2) show ?thesis
        by metis
    qed
  qed
qed

text \<open>
  C4. Refinement: whatever the ports do, a run of \<open>handle\<close> is a run of the abstract
  protocol, with the calls it made, the session it left behind and its result.
\<close>

theorem handle_refines_protocol:
  assumes "handle P maxd who req (initial_state w) = (r, s')"
  shows "protocol (clock_reliable P) maxd who req (steps (trace s')) (cell s') r"
  by (rule handle_protocol [OF assms])

section \<open>A concrete instance\<close>

definition example_request :: access_request where
  "example_request = \<lparr>req_id = lit ''r'', req_user_id = lit ''u'', req_target_id = lit ''t'',
     req_action = OPEN_PRIVILEGED_SESSION, req_requested_at = utc 5\<rparr>"

definition example_principal :: authenticated_principal where
  "example_principal = \<lparr>pr_user_id = lit ''u'', pr_username = lit ''n''\<rparr>"

definition example_target :: target where
  "example_target = \<lparr>tgt_id = lit ''t'', tgt_name = lit ''n'', tgt_host = lit ''h'', tgt_port = 22,
     tgt_expected_host_key = \<lparr>hkf_value = lit ''SHA256:k''\<rparr>, tgt_enabled = True\<rparr>"

definition example_account :: privileged_account where
  "example_account = \<lparr>acc_id = lit ''a'', acc_target_id = lit ''t'', acc_username = lit ''root'',
     acc_credential_ref = \<lparr>cref_id = lit ''c''\<rparr>, acc_enabled = True\<rparr>"

text \<open>Ports without a state: fixed answers of the policy repository and the relay.\<close>

definition example_ports ::
  "access_policy list res \<Rightarrow> relay_value res \<Rightarrow> (unit, unit) ports" where
  "example_ports policies relayed =
     \<lparr>p_find_matching = (\<lambda>_ _ _. lift policies), p_get_target = (\<lambda>_. ret (Some example_target)),
      p_find_for_target = (\<lambda>_. ret (Some example_account)),
      p_resolve = (\<lambda>_. ret (Some \<lparr>bc_value = [1]\<rparr>)), p_open_session = (\<lambda>_ _ _. ret ()),
      p_relay = (\<lambda>_ _. lift relayed), p_close = (\<lambda>_. ret ()), p_append = (\<lambda>_. ret ()),
      p_now = ret (utc 10), p_new_id = ret (lit ''i'')\<rparr>"

definition example_run ::
  "access_policy list res \<Rightarrow> relay_value res \<Rightarrow> access_result res \<times> (unit, unit) svc" where
  "example_run policies relayed = handle (example_ports policies relayed) 60
     (Some example_principal) example_request (initial_state ())"

lemmas service_defs = handle_def evaluate_def handle_target_def handle_account_def open_allowed_def
  run_session_def broker_phase_def relay_session_def close_broker_def conclude_def finish_def
  deny_def deny_with_reason_def append_event_def call_now_def call_new_id_def
  terminal_timestamp_def started_at_def fail_session_def abandon_def bind_apply seq_apply
  try_except_def finally_with_def perform_def initial_state_def

lemmas example_defs = example_ports_def example_request_def example_principal_def
  example_target_def example_account_def

lemma example_decide [simp]:
  "decide [example_policy i ALLOW] = \<lparr>dec_effect = ALLOW, dec_reason = lit i\<rparr>"
  by (simp add: decide_def example_policy_def)

lemma not_blank_examples [simp]: "\<not> blank (lit ''i'')" "\<not> blank (lit ''r'')" "\<not> blank (lit ''u'')"
  "\<not> blank (lit ''t'')" "\<not> blank (lit ''a'')"
  by (simp_all add: blank_iff py_isspace_def lit_def)

lemma example_mk_session [simp]:
  "mk_session
     \<lparr>ses_id = lit ''i'', ses_request_id = lit ''r'', ses_user_id = lit ''u'',
      ses_target_id = lit ''t'', ses_account_id = lit ''a'', ses_status = OPENING,
      ses_started_at = utc 10, ses_ended_at = None, ses_close_reason = None\<rparr>
   = Inr \<lparr>ses_id = lit ''i'', ses_request_id = lit ''r'', ses_user_id = lit ''u'',
      ses_target_id = lit ''t'', ses_account_id = lit ''a'', ses_status = OPENING,
      ses_started_at = utc 10, ses_ended_at = None, ses_close_reason = None\<rparr>"
  by (simp add: mk_session_iff session_ok_def)

lemmas example_simps = example_run_def service_defs example_defs mk_audit_event_def mark_active_def
  mark_closed_def mark_failed_def validate_terminal_values_def require_aware_def
  require_reason_def require_not_before_start_def

text \<open>The run of a request that is allowed and relayed to its end.\<close>

definition completed_run :: "access_result res \<times> (unit, unit) svc" where
  "completed_run = example_run (Inr [example_policy ''p'' ALLOW]) (Inr (Outcome COMPLETED))"

lemma completed_result:
  "fst completed_run = Inr \<lparr>ar_decision = \<lparr>dec_effect = ALLOW, dec_reason = lit ''p''\<rparr>,
     ar_session = Some (closed_at
       (new_session example_request example_target example_account (lit ''i'') (utc 10))
       (utc 10) ''relay_completed'')\<rparr>"
  by (simp add: completed_run_def example_simps new_session_def closed_at_def Let_def)

theorem handle_refines_protocol_witness:
  "protocol True 60 (Some example_principal) example_request (steps (trace (snd completed_run)))
     (cell (snd completed_run)) (fst completed_run)"
proof -
  let ?P = "example_ports (Inr [example_policy ''p'' ALLOW]) (Inr (Outcome COMPLETED))"
  have "handle ?P 60 (Some example_principal) example_request (initial_state ())
      = (fst completed_run, snd completed_run)"
    by (simp add: completed_run_def example_run_def)
  from handle_refines_protocol [OF this] show ?thesis
    by (simp add: clock_reliable_def example_ports_def)
qed

end
