(* ===== verification/Access_Safety.thy ===== *)
theory Access_Safety
  imports Access_Protocol
begin

text \<open>
  The safety properties of \<open>AccessService.handle\<close>, read off the abstract protocol by cases:
  what is known when the Vault and the broker are called, that every opened broker session is
  closed, what a denial does, and what the final session and the audit trail say.
\<close>

section \<open>Calls of the parts of the protocol\<close>

fun is_append :: "'h obs \<Rightarrow> bool" where
  "is_append (Append _ _) = True"
| "is_append _ = False"

text \<open>The calls a session makes once it exists.\<close>

fun session_call :: "'h obs \<Rightarrow> bool" where
  "session_call (Append _ _) = True"
| "session_call (OpenSession _ _ _ _) = True"
| "session_call (Relay _ _ _) = True"
| "session_call (Close _ _) = True"
| "session_call _ = False"

lemma audited_iff:
  "audited F cs q \<longleftrightarrow> (cs = [] \<and> (\<exists>e. q = Inl e)) \<or> (\<exists>ev. F ev \<and> cs = [Append ev q])"
  by (auto elim: audited.cases intro: audited.intros)

lemma audited_appends: "audited F cs q \<Longrightarrow> list_all is_append cs"
  by (auto simp: audited_iff)

lemma ending_appends: "ending c req ty result reason upd x cs x' q \<Longrightarrow> list_all is_append cs"
  by (auto elim!: ending.cases dest: audited_appends)

lemma concluded_appends: "concluded c req decision x v cr cs x' r \<Longrightarrow> list_all is_append cs"
  by (auto elim!: concluded.cases dest: ending_appends)

lemma append_session_call: "list_all is_append cs \<Longrightarrow> list_all session_call cs"
proof (rule list.pred_mono_strong [of is_append])
  fix z :: "'a obs" assume "is_append z" then show "session_call z" by (cases z) simp_all
qed

lemmas only_appends = audited_appends ending_appends concluded_appends

lemma session_run_calls:
  "session_run c maxd req decision t a k x cs x' r \<Longrightarrow> list_all session_call cs"
  by (auto elim!: session_run.cases dest!: only_appends append_session_call)

lemma result_of_simps [simp]:
  "result_of decision x (Inl e) = Inl e"
  "result_of decision x (Inr u) = Inr \<lparr>ar_decision = decision, ar_session = x\<rparr>"
  by (simp_all add: result_of_def)

lemma denied_iff:
  "denied req actor decision cs r \<longleftrightarrow>
     (cs = [] \<and> (\<exists>e. r = Inl e))
   \<or> (\<exists>ev q. event_for req ACCESS_DENIED None ''denied'' (Some (dec_reason decision)) actor ev
        \<and> cs = [Append ev q] \<and> r = result_of decision None q)"
  unfolding denied.simps audited_iff by (metis result_of_simps(1))

lemma denied_appends: "denied req actor decision cs r \<Longrightarrow> list_all is_append cs"
  by (auto simp: denied_iff)

lemma after_resolve_calls:
  "after_resolve c maxd req decision t a v cs x r \<Longrightarrow> list_all session_call cs"
  by (auto elim!: after_resolve.cases dest: session_run_calls denied_appends append_session_call)

lemma not_in_appends [simp]:
  "list_all is_append cs \<Longrightarrow> FindMatching u t' ac ps \<notin> set cs"
  "list_all is_append cs \<Longrightarrow> Resolve ref v \<notin> set cs"
  "list_all is_append cs \<Longrightarrow> OpenSession t a k q \<notin> set cs"
  "list_all is_append cs \<Longrightarrow> Relay h m w \<notin> set cs"
  "list_all is_append cs \<Longrightarrow> Close h u' \<notin> set cs"
  by (auto simp: list_all_iff)

lemma not_in_session_calls [simp]:
  "list_all session_call cs \<Longrightarrow> FindMatching u t' ac ps \<notin> set cs"
  "list_all session_call cs \<Longrightarrow> Resolve ref v \<notin> set cs"
  by (auto simp: list_all_iff)

lemma in_steps: "key_call c \<Longrightarrow> c \<in> set tr \<longleftrightarrow> c \<in> set (steps tr)"
  by (simp add: steps_def)

section \<open>The protocol's calls to the Vault and to the broker\<close>

lemma account_refusal_None:
  "account_refusal t (Some a) = None \<longleftrightarrow> acc_enabled a \<and> acc_target_id a = tgt_id t"
  by (simp add: account_refusal_def)

text \<open>Whenever the Vault is asked, the run is in the case \<open>resolved\<close> of the protocol.\<close>

lemma protocol_Resolve:
  assumes "protocol c maxd who req cs x r" "Resolve ref v \<in> set cs"
  obtains pr ps t a cs' where "who = Some pr" "pr_user_id pr = req_user_id req"
    "dec_effect (decide ps) = ALLOW" "tgt_enabled t" "acc_enabled a" "acc_target_id a = tgt_id t"
    "ref = acc_credential_ref a"
    "cs = FindMatching (req_user_id req) (req_target_id req) (req_action req) (Inr ps)
          # GetTarget (req_target_id req) (Inr (Some t))
          # FindForTarget (tgt_id t) (Inr (Some a)) # Resolve ref v # cs'"
    "after_resolve c maxd req (decide ps) t a v cs' x r"
  using assms
proof (cases rule: protocol.cases)
  case (resolved pr ps t a v' cs')
  from after_resolve_calls [OF resolved(7)] assms(2) resolved(1)
  have "ref = acc_credential_ref a" "v = v'" by auto
  with resolved show thesis by (intro that) (auto simp: account_refusal_None)
qed (auto dest: denied_appends)

text \<open>Whenever a broker session is asked for, the session exists and runs.\<close>

lemma protocol_session_call:
  assumes "protocol c maxd who req cs x r" "z \<in> set cs" "session_call z" "\<not> is_append z"
  obtains pr ps t a k i d cs' x' where "who = Some pr" "pr_user_id pr = req_user_id req"
    "dec_effect (decide ps) = ALLOW" "tgt_enabled t" "acc_enabled a" "acc_target_id a = tgt_id t"
    "cs = [FindMatching (req_user_id req) (req_target_id req) (req_action req) (Inr ps),
           GetTarget (req_target_id req) (Inr (Some t)),
           FindForTarget (tgt_id t) (Inr (Some a)),
           Resolve (acc_credential_ref a) (Inr (Some k))] @ cs'"
    "x = Some x'" "session_ok (new_session req t a i d)"
    "session_run c maxd req (decide ps) t a k (new_session req t a i d) cs' x' r"
proof -
  have no: False if "list_all is_append cs'" "z \<in> set cs'" for cs'
    using that assms(4) by (auto simp: list_all_iff)
  show thesis
    using assms(1)
  proof (cases rule: protocol.cases)
    case (resolved pr ps t a v cs')
    from resolved(1) assms(2,3) have "z \<in> set cs'" by auto
    from resolved(7) show thesis
    proof (cases rule: after_resolve.cases)
      case (session_created i d k x')
      with resolved show thesis by (intro that) (auto simp: account_refusal_None)
    qed (use \<open>z \<in> set cs'\<close> in \<open>auto dest!: denied_appends dest: no\<close>)
  qed (use assms(2,3) in \<open>auto dest!: denied_appends dest: no\<close>)
qed

section \<open>What a session's run looks like\<close>

lemma failed_closed_identity [simp]:
  "same_identity x (failed_at x d m)" "same_identity x (closed_at x d m)"
  "same_identity x (x\<lparr>ses_status := st\<rparr>)"
  by (simp_all add: same_identity_def failed_at_def closed_at_def)

lemma failed_at_ok:
  "session_ok x \<Longrightarrow> ends_well (ses_started_at x) d (lit m) \<Longrightarrow>
     session_ok (failed_at x d m) \<and> terminal (ses_status (failed_at x d m))"
  by (auto simp: session_ok_def failed_at_def ends_well_def)

lemma closed_at_ok:
  "session_ok x \<Longrightarrow> ends_well (ses_started_at x) d (lit m) \<Longrightarrow>
     session_ok (closed_at x d m) \<and> terminal (ses_status (closed_at x d m))"
  by (auto simp: session_ok_def closed_at_def ends_well_def)

lemma ending_identity:
  "ending c req ty result reason upd x cs x' q \<Longrightarrow> (\<And>d. same_identity x (upd d)) \<Longrightarrow>
     same_identity x x'"
  by (auto elim: ending.cases)

lemma abandoned_identity: "abandoned c x e x' e' \<Longrightarrow> same_identity x x'"
  by (auto elim: abandoned.cases)

lemma concluded_identity: "concluded c req decision x v cr cs x' r \<Longrightarrow> same_identity x x'"
  by (auto elim!: concluded.cases dest!: ending_identity)

lemma session_run_identity:
  assumes "session_run c maxd req decision t a k x cs x' r"
  shows "same_identity x x'"
proof -
  have upd: "same_identity x x'" if "same_identity (x\<lparr>ses_status := ACTIVE\<rparr>) x'"
    using that by (simp add: same_identity_def)
  from assms show ?thesis
    by (auto elim!: session_run.cases dest!: ending_identity abandoned_identity concluded_identity
      intro: upd)
qed

text \<open>The part of a run before and from the broker's opening on.\<close>

abbreviation opening_calls ::
  "target \<Rightarrow> privileged_account \<Rightarrow> broker_credential \<Rightarrow> audit_event \<Rightarrow> audit_event \<Rightarrow> 'h res \<Rightarrow>
   'h obs list" where
  "opening_calls t a k al op q \<equiv>
     [Append al (Inr ()), Append op (Inr ()), OpenSession t a k q]"

lemma session_run_opening:
  assumes "session_run c maxd req decision t a k x cs x' r"
  shows "list_all is_append cs
   \<or> (\<exists>al op q rest. cs = opening_calls t a k al op q @ rest
      \<and> event_for req ACCESS_ALLOWED (Some (ses_id x)) ''allowed''
          (Some (dec_reason decision)) (req_user_id req) al
      \<and> event_for req SESSION_OPENING (Some (ses_id x)) ''opening'' None (req_user_id req) op
      \<and> (\<forall>t a k q. OpenSession t a k q \<notin> set rest))"
  using assms
proof (cases rule: session_run.cases)
  case open_failed
  then show ?thesis by (auto dest!: only_appends)
next
  case open_interrupted
  then show ?thesis by simp
next
  case active_unaudited
  then show ?thesis by (auto dest!: only_appends)
next
  case relayed
  then show ?thesis by (auto dest!: only_appends)
qed (auto dest: only_appends)

lemma session_run_opened:
  assumes "session_run c maxd req decision t a k x cs x' r" "OpenSession t' a' k' (Inr h) \<in> set cs"
  shows "\<exists>al op mid cr post. cs = opening_calls t a k al op (Inr h) @ mid @ Close h cr # post
    \<and> list_all is_append post
    \<and> (mid = [] \<or> (\<exists>ev e. mid = [Append ev (Inl e)])
       \<or> (\<exists>ev v. ev_type ev = SESSION_ACTIVE \<and> mid = [Append ev (Inr ()), Relay h maxd v]))"
  using assms
proof (cases rule: session_run.cases)
  case (active_unaudited al op cs' e e' cr h')
  then show ?thesis
    using assms(2)
    by (intro exI [of _ al] exI [of _ op] exI [of _ cs'] exI [of _ cr] exI [of _ "[]"])
       (auto simp: audited_iff)
next
  case (relayed al op d v cr cs' h')
  then show ?thesis
    using assms(2)
    by (intro exI [of _ al] exI [of _ op] exI [of _ "[Append d (Inr ()), Relay h maxd v]"]
          exI [of _ cr] exI [of _ cs'])
       (auto simp: event_for_def dest: only_appends)
qed (use assms(2) in \<open>auto dest!: only_appends\<close>)

text \<open>The calls end by persisting the event of the session's end.\<close>

definition end_recorded :: "'h obs list \<Rightarrow> session \<Rightarrow> bool" where
  "end_recorded cs x \<longleftrightarrow> (\<exists>pre ev. cs = pre @ [Append ev (Inr ())]
     \<and> ev_type ev = (if ses_status x = CLOSED then SESSION_CLOSED else SESSION_FAILED)
     \<and> ev_session_id ev = Some (ses_id x) \<and> Some (ev_timestamp ev) = ses_ended_at x
     \<and> ev_reason_code ev = ses_close_reason x)"

lemma end_recorded_append: "end_recorded cs x \<Longrightarrow> end_recorded (pre @ cs) x"
  unfolding end_recorded_def by (metis append_assoc)

lemma end_recorded_Cons [simp]: "end_recorded cs x \<Longrightarrow> end_recorded (z # cs) x"
  using end_recorded_append [of cs x "[z]"] by simp

lemma result_of_Inr_iff:
  "result_of decision x q = Inr res \<longleftrightarrow>
     q = Inr () \<and> res = \<lparr>ar_decision = decision, ar_session = x\<rparr>"
  by (cases q) auto

lemma session_ok_active:
  "session_ok x \<Longrightarrow> ses_status x = OPENING \<Longrightarrow> session_ok (x\<lparr>ses_status := ACTIVE\<rparr>)"
  by (auto simp: session_ok_def)

lemma ending_failed:
  assumes "ending c req SESSION_FAILED ''failed'' m (\<lambda>d. failed_at x d m) x cs x' (Inr u)"
    "session_ok x"
  shows "session_ok x' \<and> terminal (ses_status x') \<and> end_recorded cs x'"
  using assms(1)
proof (cases rule: ending.cases)
  case (ended d)
  then obtain ev where "cs = [] @ [Append ev (Inr ())]" "ev_timestamp ev = d"
    "event_for req SESSION_FAILED (Some (ses_id x)) ''failed'' (Some (lit m)) (req_user_id req) ev"
    by (auto simp: audited_iff)
  then have "end_recorded cs (failed_at x d m)"
    unfolding end_recorded_def by (auto simp: event_for_def failed_at_def)
  with ended failed_at_ok [OF assms(2) ended(2)] show ?thesis by simp
qed

lemma ending_closed:
  assumes "ending c req SESSION_CLOSED ''closed'' m (\<lambda>d. closed_at x d m) x cs x' (Inr u)"
    "session_ok x"
  shows "session_ok x' \<and> terminal (ses_status x') \<and> end_recorded cs x'"
  using assms(1)
proof (cases rule: ending.cases)
  case (ended d)
  then obtain ev where "cs = [] @ [Append ev (Inr ())]" "ev_timestamp ev = d"
    "event_for req SESSION_CLOSED (Some (ses_id x)) ''closed'' (Some (lit m)) (req_user_id req) ev"
    by (auto simp: audited_iff)
  then have "end_recorded cs (closed_at x d m)"
    unfolding end_recorded_def by (auto simp: event_for_def closed_at_def)
  with ended closed_at_ok [OF assms(2) ended(2)] show ?thesis by simp
qed

lemma concluded_returns:
  assumes "concluded c req decision x v cr cs x' (Inr res)" "session_ok x"
  shows "res = \<lparr>ar_decision = decision, ar_session = Some x'\<rparr> \<and> session_ok x'
    \<and> terminal (ses_status x') \<and> end_recorded cs x'"
  using assms(1)
proof (cases rule: concluded.cases)
  case (relay_failed q)
  then have "q = Inr ()" "res = \<lparr>ar_decision = decision, ar_session = Some x'\<rparr>"
    by (simp_all add: result_of_Inr_iff eq_commute [of "Inr res"])
  with ending_failed [OF _ assms(2)] relay_failed(6) show ?thesis by blast
next
  case (close_failed out e q)
  then have "q = Inr ()" "res = \<lparr>ar_decision = decision, ar_session = Some x'\<rparr>"
    by (simp_all add: result_of_Inr_iff eq_commute [of "Inr res"])
  with ending_failed [OF _ assms(2)] close_failed(5) show ?thesis by blast
next
  case (closed out reason q)
  then have "q = Inr ()" "res = \<lparr>ar_decision = decision, ar_session = Some x'\<rparr>"
    by (simp_all add: result_of_Inr_iff eq_commute [of "Inr res"])
  with ending_closed [OF _ assms(2)] closed(5) show ?thesis by blast
qed

lemma session_run_returns:
  assumes "session_run c maxd req decision t a k x cs x' (Inr res)" "session_ok x"
    "ses_status x = OPENING"
  shows "res = \<lparr>ar_decision = decision, ar_session = Some x'\<rparr> \<and> session_ok x'
    \<and> terminal (ses_status x') \<and> end_recorded cs x'"
  using assms(1)
proof (cases rule: session_run.cases)
  case (open_failed al op e cs' q)
  then have "q = Inr ()" "res = \<lparr>ar_decision = decision, ar_session = Some x'\<rparr>"
    by (simp_all add: result_of_Inr_iff eq_commute [of "Inr res"])
  with ending_failed [OF _ assms(2)] open_failed(6) have
    "session_ok x' \<and> terminal (ses_status x') \<and> end_recorded cs' x'" by blast
  with open_failed(1) \<open>res = _\<close> show ?thesis by (metis end_recorded_Cons)
next
  case (active_unaudited al op cs' e e' cr h)
  then show ?thesis by (auto split: sum.splits if_splits)
next
  case (relayed al op d v cr cs' h)
  have "res = \<lparr>ar_decision = decision, ar_session = Some x'\<rparr> \<and> session_ok x'
    \<and> terminal (ses_status x') \<and> end_recorded cs' x'"
    by (rule concluded_returns [OF relayed(5) session_ok_active [OF assms(2,3)]])
  with relayed(1) show ?thesis by (metis end_recorded_Cons)
qed

text \<open>A run of \<open>handle\<close> that called the broker.\<close>

lemma handle_session_call:
  assumes "handle P maxd who req (initial_state w) = (r, s')"
    and z: "z \<in> set (trace s')" "session_call z" "\<not> is_append z"
  obtains ps t a k i d cs x where "dec_effect (decide ps) = ALLOW"
    "steps (trace s') = [FindMatching (req_user_id req) (req_target_id req) (req_action req) (Inr ps),
        GetTarget (req_target_id req) (Inr (Some t)), FindForTarget (tgt_id t) (Inr (Some a)),
        Resolve (acc_credential_ref a) (Inr (Some k))] @ cs" "cell s' = Some x"
    "session_ok (new_session req t a i d)"
    "session_run (clock_reliable P) maxd req (decide ps) t a k (new_session req t a i d) cs x r"
    "z \<in> set cs"
proof -
  have "key_call z" using z(2) by (cases z) simp_all
  with z(1) have zs: "z \<in> set (steps (trace s'))"
    by (simp add: in_steps [symmetric])
  obtain pr ps t a k i d cs x where *: "who = Some pr" "pr_user_id pr = req_user_id req"
    "dec_effect (decide ps) = ALLOW" "tgt_enabled t" "acc_enabled a" "acc_target_id a = tgt_id t"
    "steps (trace s') = [FindMatching (req_user_id req) (req_target_id req) (req_action req) (Inr ps),
        GetTarget (req_target_id req) (Inr (Some t)), FindForTarget (tgt_id t) (Inr (Some a)),
        Resolve (acc_credential_ref a) (Inr (Some k))] @ cs" "cell s' = Some x"
    "session_ok (new_session req t a i d)"
    "session_run (clock_reliable P) maxd req (decide ps) t a k (new_session req t a i d) cs x r"
    by (rule protocol_session_call [OF handle_protocol [OF assms(1)] zs z(2,3)])
  have "z \<in> set cs" using zs [unfolded *(7)] z(2) by auto
  with *(3,7-10) show thesis by (rule that)
qed

section \<open>How a run ends\<close>

text \<open>The calls end by persisting a denial, and no session call comes before it.\<close>

definition denial_recorded :: "'h obs list \<Rightarrow> access_decision \<Rightarrow> bool" where
  "denial_recorded cs d \<longleftrightarrow> (\<exists>pre ev. cs = pre @ [Append ev (Inr ())]
     \<and> ev_type ev = ACCESS_DENIED \<and> ev_session_id ev = None
     \<and> ev_reason_code ev = Some (dec_reason d) \<and> list_all (\<lambda>z. \<not> session_call z) pre)"

lemma denial_recorded_Cons [simp]:
  "denial_recorded cs d \<Longrightarrow> \<not> session_call z \<Longrightarrow> denial_recorded (z # cs) d"
  unfolding denial_recorded_def by (metis append_Cons list.pred_inject(2))

lemma denied_returns:
  assumes "denied req actor d cs (Inr res)"
  shows "res = \<lparr>ar_decision = d, ar_session = None\<rparr> \<and> denial_recorded cs d"
proof -
  from assms obtain ev q where "cs = [] @ [Append ev q]" "Inr res = result_of d None q"
    "event_for req ACCESS_DENIED None ''denied'' (Some (dec_reason d)) actor ev"
    by (auto simp: denied_iff)
  then show ?thesis
    by (auto simp: denial_recorded_def event_for_def result_of_Inr_iff eq_commute [of "Inr res"])
qed

lemma new_session_fields [simp]:
  "ses_status (new_session req t a i d) = OPENING"
  "ses_request_id (new_session req t a i d) = req_id req"
  "ses_user_id (new_session req t a i d) = req_user_id req"
  by (simp_all add: new_session_def)

lemma deny_decision_effect [simp]: "dec_effect (deny_decision m) = DENY"
  by (simp add: deny_decision_def)

lemma protocol_returns:
  assumes "protocol c maxd who req cs x (Inr res)"
  shows "x = None \<and> ar_session res = None \<and> dec_effect (ar_decision res) = DENY
      \<and> denial_recorded cs (ar_decision res)
    \<or> (\<exists>x'. x = Some x' \<and> ar_session res = Some x' \<and> dec_effect (ar_decision res) = ALLOW
      \<and> session_ok x' \<and> terminal (ses_status x') \<and> ses_request_id x' = req_id req
      \<and> ses_user_id x' = req_user_id req \<and> end_recorded cs x')"
  using assms
proof (cases rule: protocol.cases)
  case (identity_mismatch pr)
  from denied_returns [OF identity_mismatch(4)] identity_mismatch(1) show ?thesis by simp
next
  case (policy_denies pr ps cs')
  then have "dec_effect (decide ps) = DENY" using decide_not_approval [of ps] by simp
  with denied_returns [OF policy_denies(6)] policy_denies(1,2) show ?thesis by auto
next
  case (target_refused pr ps found reason cs')
  from denied_returns [OF target_refused(7)] target_refused(1,2) show ?thesis by auto
next
  case (account_refused pr ps t configured reason cs')
  from denied_returns [OF account_refused(8)] account_refused(1,2) show ?thesis by auto
next
  case (resolved pr ps t a v cs')
  from resolved(7) show ?thesis
  proof (cases rule: after_resolve.cases)
    case no_credential
    from denied_returns [OF no_credential(3)] no_credential(2) resolved(1) show ?thesis by auto
  next
    case (session_created i d k x')
    have "same_identity (new_session req t a i d) x'"
      by (rule session_run_identity [OF session_created(4)])
    with session_run_returns [OF session_created(4,3)] session_created(2) resolved(1,4) show ?thesis
      by (auto simp: same_identity_def)
  qed
qed

lemma abandoned_over:
  "abandoned True x e x' e' \<Longrightarrow> is_exception e' \<Longrightarrow> session_ok x \<Longrightarrow>
     session_ok x' \<and> terminal (ses_status x')"
  by (auto elim!: abandoned.cases simp: failed_at_ok)

lemma ending_over:
  "ending True req ty result m upd x cs x' q \<Longrightarrow> session_ok x \<Longrightarrow>
     (\<And>d. ends_well (ses_started_at x) d (lit m) \<Longrightarrow> session_ok (upd d) \<and> terminal (ses_status (upd d))) \<Longrightarrow>
     session_ok x' \<and> terminal (ses_status x')"
  by (auto elim!: ending.cases)

lemma concluded_over:
  assumes "concluded True req d x v cr cs x' r" "case r of Inl e \<Rightarrow> is_exception e | Inr _ \<Rightarrow> True"
    "session_ok x"
  shows "session_ok x' \<and> terminal (ses_status x')"
  using assms(1)
proof (cases rule: concluded.cases)
  case relay_failed
  from ending_over [OF relay_failed(6) assms(3) failed_at_ok [OF assms(3)]] show ?thesis .
next
  case close_failed
  from ending_over [OF close_failed(5) assms(3) failed_at_ok [OF assms(3)]] show ?thesis .
next
  case closed
  from ending_over [OF closed(5) assms(3) closed_at_ok [OF assms(3)]] show ?thesis .
qed (use assms(2) in simp_all)

lemma session_run_over:
  assumes "session_run True maxd req d t a k x cs x' r" "session_ok x" "ses_status x = OPENING"
    "case r of Inl e \<Rightarrow> is_exception e | Inr _ \<Rightarrow> True"
  shows "session_ok x' \<and> terminal (ses_status x')"
  using assms(1)
proof (cases rule: session_run.cases)
  case allowed_unaudited
  with abandoned_over assms(2,4) show ?thesis by auto
next
  case opening_unaudited
  with abandoned_over assms(2,4) show ?thesis by auto
next
  case open_failed
  from ending_over [OF open_failed(6) assms(2) failed_at_ok [OF assms(2)]] show ?thesis .
next
  case open_interrupted
  with assms(4) show ?thesis by simp
next
  case (active_unaudited al op cs' e e' cr h)
  then have "is_exception e'" using assms(4) by (auto split: sum.splits if_splits)
  from abandoned_over [OF active_unaudited(5) this session_ok_active [OF assms(2,3)]]
  show ?thesis .
next
  case relayed
  from concluded_over [OF relayed(5) assms(4) session_ok_active [OF assms(2,3)]] show ?thesis .
qed

lemma protocol_session:
  fixes cs :: "'h obs list"
  assumes p: "protocol c maxd who req cs (Some x) r"
  obtains ps t a k i d and cs' :: "'h obs list" where "session_ok (new_session req t a i d)"
    "session_run c maxd req (decide ps) t a k (new_session req t a i d) cs' x r"
  using p
proof (cases rule: protocol.cases)
  case (resolved pr ps t a v cs')
  from resolved(7) show thesis
  proof (cases rule: after_resolve.cases)
    case (session_created i d k)
    show thesis by (rule that [OF session_created(2,3)])
  qed
qed

section \<open>The concrete runs\<close>

text \<open>Runs of the example ports: completed, refused, interrupted, without a policy storage.\<close>

definition denied_run :: "access_result res \<times> (unit, unit) svc" where
  "denied_run = example_run (Inr []) (Inr (Outcome COMPLETED))"

definition interrupted_run :: "access_result res \<times> (unit, unit) svc" where
  "interrupted_run =
     example_run (Inr [example_policy ''p'' ALLOW]) (Inl (err KeyboardInterrupt ''interrupt''))"

definition no_policies_run :: "access_result res \<times> (unit, unit) svc" where
  "no_policies_run =
     example_run (Inl (err PolicyStorageError ''access policy storage operation failed''))
       (Inr (Outcome COMPLETED))"

lemma example_run_is_handle:
  "handle (example_ports ps v) 60 (Some example_principal) example_request (initial_state ())
     = (fst (example_run ps v), snd (example_run ps v))"
  by (simp add: example_run_def)

lemmas runs_are_handle =
  example_run_is_handle [of "Inr [example_policy ''p'' ALLOW]" "Inr (Outcome COMPLETED)",
    folded completed_run_def]
  example_run_is_handle [of "Inr []" "Inr (Outcome COMPLETED)", folded denied_run_def]
  example_run_is_handle [of "Inr [example_policy ''p'' ALLOW]"
    "Inl (err KeyboardInterrupt ''interrupt'')", folded interrupted_run_def]
  example_run_is_handle [of "Inl (err PolicyStorageError ''access policy storage operation failed'')"
    "Inr (Outcome COMPLETED)", folded no_policies_run_def]

lemma example_clock [simp]: "clock_reliable (example_ports ps v)"
  by (simp add: clock_reliable_def example_ports_def)

lemma completed_calls:
  "Resolve (acc_credential_ref example_account) (Inr (Some \<lparr>bc_value = [1]\<rparr>))
     \<in> set (trace (snd completed_run))"
  "OpenSession example_target example_account \<lparr>bc_value = [1]\<rparr> (Inr ())
     \<in> set (trace (snd completed_run))"
  by (simp_all add: completed_run_def example_simps Let_def)

lemma denied_result:
  "fst denied_run = Inr \<lparr>ar_decision = deny_decision ''no_matching_policy'', ar_session = None\<rparr>"
  by (simp add: denied_run_def example_simps decide_def deny_decision_def)

lemma interrupted_call:
  "Relay () 60 (Inl (err KeyboardInterrupt ''interrupt'')) \<in> set (trace (snd interrupted_run))"
  by (simp add: interrupted_run_def example_simps Let_def)

lemma no_policies_call:
  "FindMatching (lit ''u'') (lit ''t'') OPEN_PRIVILEGED_SESSION
     (Inl (err PolicyStorageError ''access policy storage operation failed''))
   \<in> set (trace (snd no_policies_run))"
  by (simp add: no_policies_run_def example_simps)

section \<open>When the Vault and the broker are called\<close>

text \<open>
  C5. Zero trust before the Vault: a credential is looked up only for a principal whose
  identity is the request's, after the policy decision (over the policies that were found)
  allowed the request, for the enabled target and its enabled account of that target, exactly
  in this order of calls, with that account's reference, and at most once.
\<close>

theorem credential_guard:
  assumes "handle P maxd who req (initial_state w) = (r, s')" "Resolve ref v \<in> set (trace s')"
  shows "\<exists>pr ps t a rest. who = Some pr \<and> pr_user_id pr = req_user_id req
    \<and> ps \<noteq> [] \<and> list_all (\<lambda>p. pol_effect p = ALLOW) ps
    \<and> tgt_enabled t \<and> acc_enabled a \<and> acc_target_id a = tgt_id t \<and> ref = acc_credential_ref a
    \<and> steps (trace s')
        = FindMatching (req_user_id req) (req_target_id req) (req_action req) (Inr ps)
          # GetTarget (req_target_id req) (Inr (Some t))
          # FindForTarget (tgt_id t) (Inr (Some a)) # Resolve ref v # rest
    \<and> (\<forall>ref' v'. Resolve ref' v' \<notin> set rest)"
proof -
  have "Resolve ref v \<in> set (steps (trace s'))" using assms(2) by (simp add: in_steps [symmetric])
  with handle_protocol [OF assms(1)] obtain pr ps t a rest where *:
    "who = Some pr" "pr_user_id pr = req_user_id req" "dec_effect (decide ps) = ALLOW"
    "tgt_enabled t" "acc_enabled a" "acc_target_id a = tgt_id t" "ref = acc_credential_ref a"
    "steps (trace s') = FindMatching (req_user_id req) (req_target_id req) (req_action req) (Inr ps)
        # GetTarget (req_target_id req) (Inr (Some t))
        # FindForTarget (tgt_id t) (Inr (Some a)) # Resolve ref v # rest"
    "after_resolve (clock_reliable P) maxd req (decide ps) t a v rest (cell s') r"
    by (rule protocol_Resolve)
  with after_resolve_calls [OF *(9)] show ?thesis
    by (intro exI [of _ pr] exI [of _ ps] exI [of _ t] exI [of _ a] exI [of _ rest])
       (simp add: decide_allow_iff list_all_iff)
qed

theorem credential_guard_witness:
  "\<exists>ps t a rest. tgt_enabled t \<and> acc_enabled a \<and> acc_target_id a = tgt_id t
    \<and> list_all (\<lambda>p. pol_effect p = ALLOW) ps
    \<and> steps (trace (snd completed_run))
        = FindMatching (lit ''u'') (lit ''t'') OPEN_PRIVILEGED_SESSION (Inr ps)
          # GetTarget (lit ''t'') (Inr (Some t)) # FindForTarget (tgt_id t) (Inr (Some a))
          # Resolve (acc_credential_ref example_account) (Inr (Some \<lparr>bc_value = [1]\<rparr>)) # rest"
  using credential_guard [OF runs_are_handle(1) completed_calls(1)]
  by (simp add: example_request_def) blast

text \<open>
  C6. No session without an audit trail: the broker is asked for a session only after the
  policy allowed the request, the Vault returned the credential that is passed on, and the
  events \<open>ACCESS_ALLOWED\<close> and \<open>SESSION_OPENING\<close> of that session were persisted; it is asked
  once.
\<close>

theorem broker_guard:
  assumes "handle P maxd who req (initial_state w) = (r, s')"
    "OpenSession t a k q \<in> set (trace s')"
  shows "\<exists>ps x al op rest. cell s' = Some x \<and> dec_effect (decide ps) = ALLOW
    \<and> ses_target_id x = tgt_id t \<and> ses_account_id x = acc_id a \<and> ses_user_id x = req_user_id req
    \<and> event_for req ACCESS_ALLOWED (Some (ses_id x)) ''allowed''
        (Some (dec_reason (decide ps))) (req_user_id req) al
    \<and> event_for req SESSION_OPENING (Some (ses_id x)) ''opening'' None (req_user_id req) op
    \<and> steps (trace s')
        = [FindMatching (req_user_id req) (req_target_id req) (req_action req) (Inr ps),
           GetTarget (req_target_id req) (Inr (Some t)), FindForTarget (tgt_id t) (Inr (Some a)),
           Resolve (acc_credential_ref a) (Inr (Some k)), Append al (Inr ()), Append op (Inr ()),
           OpenSession t a k q] @ rest
    \<and> (\<forall>t a k q. OpenSession t a k q \<notin> set rest)"
proof -
  have sc: "session_call (OpenSession t a k q)" "\<not> is_append (OpenSession t a k q)" by simp_all
  obtain ps t' a' k' i d cs x where *:
    "dec_effect (decide ps) = ALLOW"
    "steps (trace s') = [FindMatching (req_user_id req) (req_target_id req) (req_action req) (Inr ps),
        GetTarget (req_target_id req) (Inr (Some t')), FindForTarget (tgt_id t') (Inr (Some a')),
        Resolve (acc_credential_ref a') (Inr (Some k'))] @ cs" "cell s' = Some x"
    "session_ok (new_session req t' a' i d)"
    "session_run (clock_reliable P) maxd req (decide ps) t' a' k' (new_session req t' a' i d) cs x r"
    "OpenSession t a k q \<in> set cs"
    by (rule handle_session_call [OF assms(1,2) sc])
  let ?x = "new_session req t' a' i d"
  from session_run_opening [OF *(5)] *(6) obtain al op rest where o:
    "cs = opening_calls t a k al op q @ rest" "t = t'" "a = a'" "k = k'"
    "event_for req ACCESS_ALLOWED (Some (ses_id ?x)) ''allowed''
       (Some (dec_reason (decide ps))) (req_user_id req) al"
    "event_for req SESSION_OPENING (Some (ses_id ?x)) ''opening'' None (req_user_id req) op"
    "\<forall>t a k q. OpenSession t a k q \<notin> set rest"
    by (elim disjE exE conjE) auto
  have "same_identity ?x x" by (rule session_run_identity [OF *(5)])
  with * o show ?thesis
    by (intro exI [of _ ps] exI [of _ x] exI [of _ al] exI [of _ op] exI [of _ rest])
       (simp add: same_identity_def new_session_def)
qed

theorem broker_guard_witness:
  "\<exists>x al op. cell (snd completed_run) = Some x
    \<and> ev_type al = ACCESS_ALLOWED \<and> ev_type op = SESSION_OPENING
    \<and> Append al (Inr ()) \<in> set (steps (trace (snd completed_run)))
    \<and> Append op (Inr ()) \<in> set (steps (trace (snd completed_run)))"
proof -
  from broker_guard [OF runs_are_handle(1) completed_calls(2)] obtain x al op where
    "cell (snd completed_run) = Some x" "ev_type al = ACCESS_ALLOWED" "ev_type op = SESSION_OPENING"
    "{Append al (Inr ()), Append op (Inr ())} \<subseteq> set (steps (trace (snd completed_run)))"
    unfolding event_for_def by fastforce
  then show ?thesis by blast
qed

text \<open>
  C7. Every opened broker session is closed, exactly once and last: before the close the
  service has either failed to persist \<open>SESSION_ACTIVE\<close>, and then nothing was relayed, or
  has persisted it and relayed once, with the configured maximum duration; after it only
  audit events are written.
\<close>

theorem broker_always_closed:
  assumes "handle P maxd who req (initial_state w) = (r, s')"
    "OpenSession t a k (Inr h) \<in> set (trace s')"
  shows "\<exists>pre mid cr post. steps (trace s')
        = pre @ OpenSession t a k (Inr h) # mid @ Close h cr # post
    \<and> list_all is_append post \<and> (\<forall>h' u. Close h' u \<notin> set pre)
    \<and> (mid = [] \<or> (\<exists>ev e. mid = [Append ev (Inl e)])
       \<or> (\<exists>ev v. ev_type ev = SESSION_ACTIVE \<and> mid = [Append ev (Inr ()), Relay h maxd v]))"
proof -
  have sc: "session_call (OpenSession t a k (Inr h))" "\<not> is_append (OpenSession t a k (Inr h))" by simp_all
  obtain ps t' a' k' i d cs x where *:
    "dec_effect (decide ps) = ALLOW"
    "steps (trace s') = [FindMatching (req_user_id req) (req_target_id req) (req_action req) (Inr ps),
        GetTarget (req_target_id req) (Inr (Some t')), FindForTarget (tgt_id t') (Inr (Some a')),
        Resolve (acc_credential_ref a') (Inr (Some k'))] @ cs" "cell s' = Some x"
    "session_ok (new_session req t' a' i d)"
    "session_run (clock_reliable P) maxd req (decide ps) t' a' k' (new_session req t' a' i d) cs x r"
    "OpenSession t a k (Inr h) \<in> set cs"
    by (rule handle_session_call [OF assms(1,2) sc])
  let ?x = "new_session req t' a' i d"
  from session_run_opened [OF *(5,6)] obtain al op mid cr post where o:
    "cs = opening_calls t' a' k' al op (Inr h) @ mid @ Close h cr # post" "list_all is_append post"
    "mid = [] \<or> (\<exists>ev e. mid = [Append ev (Inl e)])
       \<or> (\<exists>ev v. ev_type ev = SESSION_ACTIVE \<and> mid = [Append ev (Inr ()), Relay h maxd v])"
    by blast
  from o *(6) have "t = t'" "a = a'" "k = k'" by auto
  with * o show ?thesis
    by (intro exI [of _ "[FindMatching (req_user_id req) (req_target_id req) (req_action req) (Inr ps),
          GetTarget (req_target_id req) (Inr (Some t)), FindForTarget (tgt_id t) (Inr (Some a)),
          Resolve (acc_credential_ref a) (Inr (Some k)), Append al (Inr ()), Append op (Inr ())]"]
          exI [of _ mid] exI [of _ cr] exI [of _ post]) simp
qed

theorem broker_always_closed_witness:
  "\<exists>pre mid cr post. steps (trace (snd completed_run))
     = pre @ OpenSession example_target example_account \<lparr>bc_value = [1]\<rparr> (Inr ())
         # mid @ Close () cr # post \<and> list_all is_append post"
  using broker_always_closed [OF runs_are_handle(1) completed_calls(2)] by blast

text \<open>
  C9. A refused request leaves no session and never reaches the broker; the one audit event
  that is written is the last call, an \<open>ACCESS_DENIED\<close> event with the decision's reason.
\<close>

theorem denial_audited:
  assumes "handle P maxd who req (initial_state w) = (Inr res, s')"
    "dec_effect (ar_decision res) \<noteq> ALLOW"
  shows "ar_session res = None \<and> cell s' = None \<and> dec_effect (ar_decision res) = DENY
    \<and> denial_recorded (steps (trace s')) (ar_decision res)"
  using protocol_returns [OF handle_protocol [OF assms(1)]] assms(2) by auto

theorem denial_audited_witness:
  "denial_recorded (steps (trace (snd denied_run))) (deny_decision ''no_matching_policy'')"
  using denial_audited [OF runs_are_handle(2) [unfolded denied_result]] by simp

text \<open>
  C8. A returned session is over and on record: it is the session object itself, in a final
  status with all of the domain's invariant, made for this request, and the last call
  persisted the event of its end, with the same time and reason.
\<close>

theorem returned_session_final:
  assumes "handle P maxd who req (initial_state w) = (Inr res, s')" "ar_session res = Some x"
  shows "dec_effect (ar_decision res) = ALLOW \<and> cell s' = Some x
    \<and> session_ok x \<and> terminal (ses_status x)
    \<and> ses_request_id x = req_id req \<and> ses_user_id x = req_user_id req
    \<and> end_recorded (steps (trace s')) x"
  using protocol_returns [OF handle_protocol [OF assms(1)]] assms(2) by auto

theorem returned_session_final_witness:
  "\<exists>x. cell (snd completed_run) = Some x \<and> terminal (ses_status x)
     \<and> end_recorded (steps (trace (snd completed_run))) x"
  using returned_session_final [OF runs_are_handle(1) [unfolded completed_result]] by simp

text \<open>
  C10. With a clock that works, a session is never left open: whenever \<open>handle\<close> returns or
  raises anything but an interrupt, the session it created, if any, is closed or failed.
\<close>

theorem session_never_left_open:
  assumes "handle P maxd who req (initial_state w) = (r, s')" "clock_reliable P"
    "case r of Inl e \<Rightarrow> is_exception e | Inr _ \<Rightarrow> True" "cell s' = Some x"
  shows "session_ok x \<and> terminal (ses_status x)"
proof -
  from handle_protocol [OF assms(1)] assms(2,4)
  have "protocol True maxd who req (steps (trace s')) (Some x) r" by simp
  then obtain ps t a k i d and cs :: "'b obs list" where "session_ok (new_session req t a i d)"
    "session_run True maxd req (decide ps) t a k (new_session req t a i d) cs x r"
    by (rule protocol_session)
  with assms(3) show ?thesis by (metis session_run_over new_session_fields(1))
qed

theorem session_never_left_open_witness:
  "\<exists>x. cell (snd completed_run) = Some x \<and> session_ok x \<and> terminal (ses_status x)"
proof -
  obtain x where x: "cell (snd completed_run) = Some x"
    by (simp add: completed_run_def example_simps Let_def)
  from session_never_left_open [OF runs_are_handle(1) example_clock _ x] x show ?thesis
    by (simp add: completed_result)
qed

text \<open>
  C11. An interrupt of the relay is the exception: \<open>except Exception\<close> does not catch it, so the
  broker is closed but the session stays active and no event ends it.
\<close>

theorem interrupted_relay_leaves_session_active:
  assumes "handle P maxd who req (initial_state w) = (r, s')"
    "Relay h m (Inl e) \<in> set (trace s')" "\<not> is_exception e"
  shows "\<exists>x e' pre cr. r = Inl e' \<and> \<not> is_exception e' \<and> cell s' = Some x \<and> ses_status x = ACTIVE
    \<and> steps (trace s') = pre @ [Relay h m (Inl e), Close h cr]"
proof -
  have sc: "session_call (Relay h m (Inl e))" "\<not> is_append (Relay h m (Inl e))" by simp_all
  obtain ps t a k i d cs x where *: "dec_effect (decide ps) = ALLOW"
    "steps (trace s') = [FindMatching (req_user_id req) (req_target_id req) (req_action req) (Inr ps),
        GetTarget (req_target_id req) (Inr (Some t)), FindForTarget (tgt_id t) (Inr (Some a)),
        Resolve (acc_credential_ref a) (Inr (Some k))] @ cs" "cell s' = Some x"
    "session_ok (new_session req t a i d)"
    "session_run (clock_reliable P) maxd req (decide ps) t a k (new_session req t a i d) cs x r"
    "Relay h m (Inl e) \<in> set cs"
    by (rule handle_session_call [OF assms(1,2) sc])
  from *(5,6) have "\<exists>e' pre cr. r = Inl e' \<and> \<not> is_exception e' \<and> ses_status x = ACTIVE
    \<and> cs = pre @ [Relay h m (Inl e), Close h cr]"
  proof (cases rule: session_run.cases)
    case (relayed al op ev v cr cs' h')
    with *(6) have v: "v = Inl e" "h' = h" "m = maxd" by (auto dest: only_appends)
    from relayed(5) [unfolded v] assms(3) have "cs' = []" "ses_status x = ACTIVE"
      "\<exists>e'. r = Inl e' \<and> \<not> is_exception e'"
      by (auto elim: concluded.cases)
    with relayed(1) v show ?thesis
      by (auto intro!: exI [of _ "opening_calls t a k al op (Inr h) @ [Append ev (Inr ())]"])
  qed (auto dest!: only_appends)
  with *(2,3) show ?thesis by (metis append_assoc)
qed

theorem interrupted_relay_leaves_session_active_witness:
  "\<exists>x. cell (snd interrupted_run) = Some x \<and> ses_status x = ACTIVE"
  using interrupted_relay_leaves_session_active [OF runs_are_handle(3) interrupted_call]
  by auto

text \<open>
  When the policy repository fails, the request is neither denied nor audited: the error
  is raised to the caller and nothing else is called.
\<close>

theorem policy_failure_raises:
  assumes "handle P maxd who req (initial_state w) = (r, s')"
    "FindMatching u t ac (Inl e) \<in> set (trace s')"
  shows "r = Inl e \<and> cell s' = None \<and> steps (trace s') = [FindMatching u t ac (Inl e)]"
proof -
  have "FindMatching u t ac (Inl e) \<in> set (steps (trace s'))"
    using assms(2) by (simp add: in_steps [symmetric])
  with handle_protocol [OF assms(1)] show ?thesis
    by (cases rule: protocol.cases) (auto dest!: denied_appends after_resolve_calls)
qed

theorem policy_failure_raises_witness:
  "fst no_policies_run = Inl (err PolicyStorageError ''access policy storage operation failed'')
   \<and> cell (snd no_policies_run) = None"
  using policy_failure_raises [OF runs_are_handle(4) no_policies_call] by simp

end
