(* ===== verification/Host.thy ===== *)
theory Host
  imports PyText
begin

text \<open>
  The host the program runs on, as far as the sources use it: a file system with permission
  bits and symbolic links, a source of random bytes, and the faults and short reads that the
  environment may produce at any call. The contents of a database file are a type parameter
  here; \<open>Sqlite\<close> fills it in. With it the two file helpers of the infrastructure:
  \<open>ensure_owner_only_database_file\<close> (\<open>infrastructure/sqlite_security.py\<close>) and
  \<open>FileKeyProvider\<close> (\<open>infrastructure/security/file_key_provider.py\<close>).
\<close>

unbundle bit_operations_syntax

section \<open>Files\<close>

text \<open>A path is the list of its names from the root, without symbolic links in its directories.\<close>

type_synonym path = "pystr list"

type_synonym mode = "12 word"

datatype 'd content = Bytes bytes | Db 'd

datatype 'd node =
    Regular mode "'d content"
  | Directory mode
  | Symlink path
  | Special mode

record 'd host =
  h_files :: "path \<Rightarrow> 'd node option"
  h_umask :: mode
  h_entropy :: bytes
  h_faults :: "bool list"
  h_chunks :: "nat list"

fun node_mode :: "'d node \<Rightarrow> mode" where
  "node_mode (Regular m c) = m"
| "node_mode (Directory m) = m"
| "node_mode (Symlink q) = 0x1FF"
| "node_mode (Special m) = m"

fun with_mode :: "mode \<Rightarrow> 'd node \<Rightarrow> 'd node" where
  "with_mode m (Regular _ c) = Regular m c"
| "with_mode m (Directory _) = Directory m"
| "with_mode m (Symlink q) = Symlink q"
| "with_mode m (Special _) = Special m"

fun is_regular :: "'d node \<Rightarrow> bool" where
  "is_regular (Regular _ _) = True"
| "is_regular _ = False"

fun is_directory :: "'d node \<Rightarrow> bool" where
  "is_directory (Directory _) = True"
| "is_directory _ = False"

text \<open>The path that is reached when links are followed, as often as the kernel does (40 times).\<close>

fun follow :: "nat \<Rightarrow> (path \<Rightarrow> 'd node option) \<Rightarrow> path \<Rightarrow> path res" where
  "follow 0 fs p = Inl (err OSError ''ELOOP'')"
| "follow (Suc n) fs p = (case fs p of Some (Symlink q) \<Rightarrow> follow n fs q | _ \<Rightarrow> Inr p)"

definition max_links :: nat where
  "max_links = 41"

text \<open>\<open>Path.is_file()\<close>, \<open>Path.exists()\<close> and the node \<open>stat\<close> sees; a loop is no file.\<close>

definition stat_node :: "'d host \<Rightarrow> path \<Rightarrow> 'd node option" where
  "stat_node h p =
     (case follow max_links (h_files h) p of Inl e \<Rightarrow> None | Inr q \<Rightarrow> h_files h q)"

definition is_file :: "'d host \<Rightarrow> path \<Rightarrow> bool" where
  "is_file h p = (case stat_node h p of Some n \<Rightarrow> is_regular n | None \<Rightarrow> False)"

definition exists_path :: "'d host \<Rightarrow> path \<Rightarrow> bool" where
  "exists_path h p = (stat_node h p \<noteq> None)"

text \<open>
  The octets of a file. A database file starts with SQLite's magic string and is never
  shorter than a page of 512 octets; its other octets are read as zeros, which only matters
  to somebody who takes it for a key file.
\<close>

fun content_bytes :: "'d content \<Rightarrow> bytes" where
  "content_bytes (Bytes b) = b"
| "content_bytes (Db d) = map of_nat (lit ''SQLite format 3'') @ replicate 497 0"

text \<open>\<open>st_size > 0\<close>\<close>

fun node_nonempty :: "'d node \<Rightarrow> bool" where
  "node_nonempty (Regular m c) = (content_bytes c \<noteq> [])"
| "node_nonempty _ = True"

section \<open>System calls\<close>

text \<open>Any call may fail: the next fault decides, and without a fault left the call works.\<close>

definition faultable :: "exn \<Rightarrow> ('d host, 'a) io \<Rightarrow> ('d host, 'a) io" where
  "faultable e m = (\<lambda>h. case h_faults h of
       [] \<Rightarrow> m h
     | True # fs \<Rightarrow> (Inl e, h\<lparr>h_faults := fs\<rparr>)
     | False # fs \<Rightarrow> m (h\<lparr>h_faults := fs\<rparr>))"

definition os_call :: "('d host, 'a) io \<Rightarrow> ('d host, 'a) io" where
  "os_call m = faultable (err OSError ''EIO'') m"

definition put_node :: "path \<Rightarrow> 'd node \<Rightarrow> 'd host \<Rightarrow> 'd host" where
  "put_node p n h = h\<lparr>h_files := (h_files h)(p \<mapsto> n)\<rparr>"

text \<open>\<open>os.open(p, O_RDONLY | O_NOFOLLOW ...)\<close>; the descriptor is the path of the node.\<close>

definition os_open_nofollow :: "path \<Rightarrow> ('d host, path) io" where
  "os_open_nofollow p = os_call (\<lambda>h. case h_files h p of
       None \<Rightarrow> (Inl (err FileNotFoundError ''ENOENT''), h)
     | Some (Symlink q) \<Rightarrow> (Inl (err OSError ''ELOOP''), h)
     | Some n \<Rightarrow> (Inr p, h))"

text \<open>\<open>os.open(p, ... | O_CREAT | O_EXCL, mode)\<close>\<close>

definition parent_ok :: "'d host \<Rightarrow> path \<Rightarrow> bool" where
  "parent_ok h p = (case h_files h (butlast p) of Some (Directory m) \<Rightarrow> True | _ \<Rightarrow> False)"

definition os_create :: "path \<Rightarrow> mode \<Rightarrow> ('d host, path) io" where
  "os_create p m = os_call (\<lambda>h.
     if h_files h p \<noteq> None then (Inl (err FileExistsError ''EEXIST''), h)
     else if \<not> parent_ok h p then (Inl (err FileNotFoundError ''ENOENT''), h)
     else (Inr p, put_node p (Regular (m AND NOT (h_umask h)) (Bytes [])) h))"

definition os_fstat :: "path \<Rightarrow> ('d host, 'd node) io" where
  "os_fstat d = os_call (\<lambda>h. case h_files h d of
       None \<Rightarrow> (Inl (err OSError ''EBADF''), h)
     | Some n \<Rightarrow> (Inr n, h))"

definition os_fchmod :: "path \<Rightarrow> mode \<Rightarrow> ('d host, unit) io" where
  "os_fchmod d m = os_call (\<lambda>h. case h_files h d of
       None \<Rightarrow> (Inl (err OSError ''EBADF''), h)
     | Some n \<Rightarrow> (Inr (), put_node d (with_mode m n) h))"

definition os_close :: "path \<Rightarrow> ('d host, unit) io" where
  "os_close d = os_call (ret ())"

text \<open>\<open>os.read(d, n)\<close> at an offset: as many octets as the environment gives, at least one.\<close>

definition os_read :: "path \<Rightarrow> nat \<Rightarrow> nat \<Rightarrow> ('d host, bytes) io" where
  "os_read d off n = os_call (\<lambda>h. case h_files h d of
       Some (Regular m c) \<Rightarrow>
         (case h_chunks h of
            [] \<Rightarrow> (Inr (take n (drop off (content_bytes c))), h)
          | k # ks \<Rightarrow>
              (Inr (take (min n (Suc k)) (drop off (content_bytes c))), h\<lparr>h_chunks := ks\<rparr>))
     | _ \<Rightarrow> (Inl (err OSError ''EISDIR''), h))"

text \<open>\<open>finally: try: os.close(d) except OSError: pass\<close>\<close>

definition close_quietly :: "path \<Rightarrow> ('d host, unit) io" where
  "close_quietly d = try_except (os_close d) (catches OSError) (\<lambda>_. ret ())"

text \<open>\<open>secrets.token_bytes(n)\<close>\<close>

definition token_bytes :: "nat \<Rightarrow> ('d host, bytes) io" where
  "token_bytes n = (\<lambda>h.
     if length (h_entropy h) < n then (Inl (err OSError ''EIO''), h)
     else (Inr (take n (h_entropy h)), h\<lparr>h_entropy := drop n (h_entropy h)\<rparr>))"

section \<open>Owner-only database files (\<open>sqlite_security.py\<close>)\<close>

definition permission_error :: exn where
  "permission_error =
     err DatabasePermissionError ''database file permissions could not be secured''"

definition not_regular :: exn where
  "not_regular = err DatabasePermissionError ''database path must identify a regular file''"

definition secure_descriptor :: "path \<Rightarrow> ('d host, unit) io" where
  "secure_descriptor d =
     bind (os_fstat d) (\<lambda>n.
     seq (lift (raise_if (\<not> is_regular n) not_regular))
    (seq (os_fchmod d 0x180)
    (bind (os_fstat d) (\<lambda>n'.
     lift (raise_if (node_mode n' \<noteq> 0x180) permission_error)))))"

definition ensure_owner_only_database_file :: "path \<Rightarrow> ('d host, unit) io" where
  "ensure_owner_only_database_file p =
     try_except
       (bind (try_except (os_create p 0x180) (catches FileExistsError) (\<lambda>_. os_open_nofollow p))
         (\<lambda>d. try_finally (secure_descriptor d) (close_quietly d)))
       (catches_any [OSError, TypeError, ValueError]) (\<lambda>_. raise permission_error)"

section \<open>Key files (\<open>file_key_provider.py\<close>)\<close>

text \<open>\<open>_read_key\<close>: read until the end or until \<open>remaining\<close> octets are there.\<close>

function read_rest :: "path \<Rightarrow> nat \<Rightarrow> nat \<Rightarrow> ('d host, bytes) io" where
  "read_rest d off remaining h =
     (if remaining = 0 then (Inr [], h)
      else case os_read d off remaining h of
        (Inl e, h') \<Rightarrow> (Inl e, h')
      | (Inr chunk, h') \<Rightarrow>
          if chunk = [] then (Inr [], h')
          else (case read_rest d (off + length chunk) (remaining - length chunk) h' of
                  (Inl e, h'') \<Rightarrow> (Inl e, h'')
                | (Inr rest, h'') \<Rightarrow> (Inr (chunk @ rest), h'')))"
  by pat_completeness auto
termination
  by (relation "measure (\<lambda>(d, off, remaining, h). remaining)") auto

declare read_rest.simps [simp del]

definition key_size :: nat where
  "key_size = 32"

definition key_error :: "string \<Rightarrow> exn" where
  "key_error m = err KeyProviderError m"

definition read_key_file :: "path \<Rightarrow> ('d host, bytes) io" where
  "read_key_file d =
     bind (os_fstat d) (\<lambda>n.
     seq (lift (raise_if (\<not> is_regular n)
            (key_error ''master key path must identify a regular file'')))
    (seq (lift (raise_if (node_mode n AND 0x3F \<noteq> 0)
            (key_error ''master key file permissions are too broad'')))
     (read_rest d 0 (key_size + 1))))"

definition key_file_failed :: "exn \<Rightarrow> exn" where
  "key_file_failed e =
     (if catches FileNotFoundError e then key_error ''master key file does not exist''
      else if catches KeyProviderError e then e
      else if catches OSError e then
        (if exn_message e = lit ''ELOOP''
         then key_error ''master key path must identify a regular file''
         else key_error ''master key file could not be read'')
      else if catches_any [TypeError, ValueError] e
      then key_error ''master key file could not be read''
      else e)"

definition get_key :: "path \<Rightarrow> ('d host, bytes) io" where
  "get_key p =
     bind (try_except
             (bind (os_open_nofollow p)
                (\<lambda>d. try_finally (read_key_file d) (close_quietly d)))
             is_exception (\<lambda>e. raise (key_file_failed e)))
       (\<lambda>key. if length key \<noteq> key_size
              then raise (key_error ''master key must be exactly 32 bytes'')
              else ret key)"

section \<open>What the helpers do\<close>

lemma faultable_eq:
  "faultable e m h = (r, h') \<longleftrightarrow>
     (h_faults h = [] \<and> m h = (r, h'))
   \<or> (\<exists>fs. h_faults h = True # fs \<and> r = Inl e \<and> h' = h\<lparr>h_faults := fs\<rparr>)
   \<or> (\<exists>fs. h_faults h = False # fs \<and> m (h\<lparr>h_faults := fs\<rparr>) = (r, h'))"
  by (auto simp: faultable_def split: list.splits bool.splits)

lemma faultable_Nil [simp]: "h_faults h = [] \<Longrightarrow> faultable e m h = m h"
  by (simp add: faultable_def)

lemma os_call_Nil [simp]: "h_faults h = [] \<Longrightarrow> os_call m h = m h"
  by (simp add: os_call_def)

text \<open>The two states differ in the faults and chunks that were used up only.\<close>

definition same_files :: "'d host \<Rightarrow> 'd host \<Rightarrow> bool" where
  "same_files h h' \<longleftrightarrow> h_files h' = h_files h \<and> h_umask h' = h_umask h \<and> h_entropy h' = h_entropy h"

lemma same_files_refl [simp]: "same_files h h"
  by (simp add: same_files_def)

lemma same_files_trans: "same_files h i \<Longrightarrow> same_files i j \<Longrightarrow> same_files h j"
  by (simp add: same_files_def)

lemma same_files_updates [simp]:
  "same_files h (i\<lparr>h_faults := fs\<rparr>) = same_files h i"
  "same_files h (i\<lparr>h_chunks := ks\<rparr>) = same_files h i"
  "same_files (i\<lparr>h_faults := fs\<rparr>) h = same_files i h"
  by (simp_all add: same_files_def)

lemma os_fstat_run:
  "os_fstat d h = (r, h') \<Longrightarrow> same_files h h'
     \<and> (case r of Inl e \<Rightarrow> exn_class e = OSError \<and> exn_message e \<noteq> lit ''ELOOP''
        | Inr n \<Rightarrow> h_files h d = Some n)"
  by (auto simp: os_fstat_def os_call_def faultable_eq err_def split: option.splits)

lemma os_open_nofollow_run:
  "os_open_nofollow p h = (r, h') \<Longrightarrow> same_files h h'
     \<and> (case r of Inl e \<Rightarrow> exn_class e = OSError \<or> exn_class e = FileNotFoundError
        | Inr d \<Rightarrow> d = p \<and> (\<exists>n. h_files h p = Some n \<and> (\<forall>q. n \<noteq> Symlink q)))"
  by (auto simp: os_open_nofollow_def os_call_def faultable_eq err_def split: option.splits node.splits)

lemma close_quietly_run:
  "close_quietly d h = (r, h') \<Longrightarrow> r = Inr () \<and> same_files h h'"
  by (auto simp: close_quietly_def os_close_def os_call_def try_except_eq_iff faultable_eq)

lemma close_quietly_Nil [simp]: "h_faults h = [] \<Longrightarrow> close_quietly d h = (Inr (), h)"
  by (simp add: close_quietly_def os_close_def try_except_def)

lemma try_finally_close:
  assumes "try_finally m (close_quietly d) h = (r, h')"
  obtains h1 where "m h = (r, h1)" "same_files h1 h'"
proof -
  obtain q h1 where q: "m h = (q, h1)" by fastforce
  obtain u h2 where u: "close_quietly d h1 = (u, h2)" by fastforce
  from close_quietly_run [OF u] have c: "u = Inr ()" "same_files h1 h2" by simp_all
  with assms q u have "r = q" "h' = h2"
    by (cases q; auto simp: try_finally_def bind_eq_iff finally_with_eq_iff split: sum.splits)+
  with that q c show thesis by blast
qed

lemma os_read_run:
  assumes "os_read d off n h = (r, h')" "h_files h d = Some (Regular m c)" "0 < n"
  shows "same_files h h' \<and> (case r of Inl e \<Rightarrow> e = err OSError ''EIO''
    | Inr chunk \<Rightarrow> \<exists>k. 0 < k \<and> k \<le> n \<and> chunk = take k (drop off (content_bytes c)))
    \<and> (h_faults h = [] \<longrightarrow> h_faults h' = [] \<and> \<not> isl r)"
proof -
  have "\<exists>j. 0 < j \<and> j \<le> n \<and> take (min n (Suc k)) xs = take j xs" for k and xs :: bytes
    using assms(3) by (intro exI [of _ "min n (Suc k)"]) simp
  with assms show ?thesis
    by (auto simp: os_read_def os_call_def faultable_eq split: list.splits)
qed

lemma take_chunk:
  assumes "chunk = take k xs" "k \<le> n"
  shows "take n xs = chunk @ take (n - length chunk) (drop (length chunk) xs)"
proof -
  have "xs = chunk @ drop (length chunk) xs" using assms(1) by (simp add: min_def)
  moreover have "length chunk \<le> n" using assms by simp
  ultimately show ?thesis by (metis take_all take_append)
qed

text \<open>However the environment cuts the reads, \<open>_read_key\<close> returns the first octets.\<close>

lemma read_rest_run:
  assumes "read_rest d off n h = (r, h')" "h_files h d = Some (Regular m c)"
  shows "same_files h h' \<and> (case r of Inl e \<Rightarrow> e = err OSError ''EIO''
    | Inr b \<Rightarrow> b = take n (drop off (content_bytes c)))
    \<and> (h_faults h = [] \<longrightarrow> h_faults h' = [] \<and> \<not> isl r)"
  using assms
proof (induction d off n h arbitrary: r h' rule: read_rest.induct)
  case (1 d off n h)
  show ?case
  proof (cases "n = 0")
    case True
    with 1(2) show ?thesis by (auto simp: read_rest.simps)
  next
    case False
    obtain q h1 where q: "os_read d off n h = (q, h1)" by fastforce
    from os_read_run [OF this 1(3)] False have o: "same_files h h1"
      "case q of Inl e \<Rightarrow> e = err OSError ''EIO'' | Inr chunk \<Rightarrow>
         \<exists>k. 0 < k \<and> k \<le> n \<and> chunk = take k (drop off (content_bytes c))"
      "h_faults h = [] \<Longrightarrow> h_faults h1 = [] \<and> \<not> isl q" by simp_all
    show ?thesis
    proof (cases q)
      case (Inl e)
      with 1(2) False q o show ?thesis by (auto simp: read_rest.simps)
    next
      case (Inr chunk)
      with o(2) obtain k where k: "0 < k" "k \<le> n" "chunk = take k (drop off (content_bytes c))"
        by auto
      show ?thesis
      proof (cases "chunk = []")
        case True
        with k have "length (content_bytes c) \<le> off" by auto
        with 1(2) False q o(1,3) Inr True show ?thesis by (auto simp: read_rest.simps)
      next
        case ne: False
        let ?l = "length chunk"
        obtain q2 h2 where q2: "read_rest d (off + ?l) (n - ?l) h1 = (q2, h2)" by fastforce
        have files: "h_files h1 d = Some (Regular m c)" using o(1) 1(3) by (simp add: same_files_def)
        from 1(1) [OF False q [symmetric] Inr ne q2 files]
        have IH: "same_files h1 h2" "case q2 of Inl e \<Rightarrow> e = err OSError ''EIO'' | Inr b \<Rightarrow>
            b = take (n - ?l) (drop (off + ?l) (content_bytes c))"
          "h_faults h1 = [] \<Longrightarrow> h_faults h2 = [] \<and> \<not> isl q2" by simp_all
        have "take n (drop off (content_bytes c))
            = chunk @ take (n - ?l) (drop (off + ?l) (content_bytes c))"
          using take_chunk [OF k(3,2)] by (simp add: add.commute)
        with 1(2) False q Inr ne q2 IH o(1,3) show ?thesis
          by (auto simp: read_rest.simps [of d off n h] split: sum.splits intro: same_files_trans)
      qed
    qed
  qed
qed

text \<open>What \<open>get_key\<close> returns: the whole content of a private regular file of 32 octets.\<close>

definition key_of :: "'d host \<Rightarrow> path \<Rightarrow> bytes option" where
  "key_of h p = (case h_files h p of
       Some (Regular m c) \<Rightarrow>
         (if m AND 0x3F = 0 \<and> length (content_bytes c) = 32 then Some (content_bytes c) else None)
     | _ \<Rightarrow> None)"

lemma read_key_file_run:
  assumes "read_key_file d h = (r, h')"
  shows "same_files h h' \<and> (case r of Inl e \<Rightarrow> exn_class e = OSError \<or> exn_class e = KeyProviderError
    | Inr b \<Rightarrow> \<exists>m c. h_files h d = Some (Regular m c) \<and> m AND 0x3F = 0
        \<and> b = take 33 (content_bytes c))
    \<and> (h_faults h = [] \<longrightarrow> h_faults h' = [] \<and> (key_of h d \<noteq> None \<longrightarrow> \<not> isl r))"
proof -
  obtain q h1 where q: "os_fstat d h = (q, h1)" by fastforce
  note f = os_fstat_run [OF q]
  have quiet: "h_faults h1 = [] \<and> (h_files h d \<noteq> None \<longrightarrow> \<not> isl q)" if "h_faults h = []"
    using q that by (auto simp: os_fstat_def split: option.splits)
  show ?thesis
  proof (cases q)
    case (Inl e)
    with assms q f quiet show ?thesis
      by (auto simp: read_key_file_def bind_apply key_of_def split: option.splits)
  next
    case (Inr n)
    with assms q have r: "seq (lift (raise_if (\<not> is_regular n)
            (key_error ''master key path must identify a regular file'')))
      (seq (lift (raise_if (node_mode n AND 0x3F \<noteq> 0)
            (key_error ''master key file permissions are too broad'')))
      (read_rest d 0 33)) h1 = (r, h')"
      by (simp add: read_key_file_def bind_apply key_size_def)
    from f Inr have n: "h_files h d = Some n" "same_files h h1" by simp_all
    show ?thesis
    proof (cases n)
      case (Regular m c)
      show ?thesis
      proof (cases "m AND 0x3F = 0")
        case True
        with r Regular have rr: "read_rest d 0 33 h1 = (r, h')"
          by (simp add: seq_apply)
        have "h_files h1 d = Some (Regular m c)" using n Regular by (simp add: same_files_def)
        from read_rest_run [OF rr this] n quiet True Regular show ?thesis
          by (auto split: sum.splits intro: same_files_trans)
      next
        case False
        with r Regular n quiet show ?thesis
          by (auto simp: seq_apply key_error_def key_of_def)
      qed
    qed (use r n quiet in \<open>auto simp: seq_apply key_error_def key_of_def\<close>)
  qed
qed

lemma key_file_failed_class:
  "exn_class e = OSError \<or> exn_class e = FileNotFoundError \<or> exn_class e = KeyProviderError \<Longrightarrow>
     exn_class (key_file_failed e) = KeyProviderError"
  by (auto simp: key_file_failed_def key_error_def catches_def)

lemma try_finally_Nil:
  "m h = (r, h1) \<Longrightarrow> h_faults h1 = [] \<Longrightarrow> try_finally m (close_quietly d) h = (r, h1)"
  by (cases r) (simp_all add: try_finally_def bind_apply finally_with_def)

lemma get_key_run:
  assumes "get_key p h = (r, h')"
  shows "same_files h h' \<and> (case r of
      Inr k \<Rightarrow> key_of h p = Some k
    | Inl e \<Rightarrow> exn_class e = KeyProviderError \<and> (h_faults h = [] \<longrightarrow> key_of h p = None))"
proof -
  obtain q h1 where q: "os_open_nofollow p h = (q, h1)" by fastforce
  note o = os_open_nofollow_run [OF q]
  have o0: "h1 = h \<and> (key_of h p \<noteq> None \<longrightarrow> \<not> isl q)" if "h_faults h = []"
    using q that by (auto simp: os_open_nofollow_def key_of_def split: option.splits node.splits)
  show ?thesis
  proof (cases q)
    case (Inl e)
    with assms q o have "r = Inl (key_file_failed e)" "h' = h1" "exn_class (key_file_failed e) = KeyProviderError"
      by (auto simp: get_key_def bind_apply try_except_def key_file_failed_class is_exception_def)
    with o o0 Inl show ?thesis by auto
  next
    case (Inr d)
    with o have d: "d = p" "same_files h h1" by simp_all
    obtain u h2 where u: "try_finally (read_key_file p) (close_quietly p) h1 = (u, h2)" by fastforce
    then obtain h3 where h3: "read_key_file p h1 = (u, h3)" "same_files h3 h2"
      by (rule try_finally_close)
    note k = read_key_file_run [OF h3(1)]
    have same: "same_files h h2" using d(2) k h3(2) by (blast intro: same_files_trans)
    have files: "h_files h1 = h_files h" and key: "key_of h1 p = key_of h p"
      using d(2) by (simp_all add: same_files_def key_of_def)
    have bytes: "take 33 xs = ys \<Longrightarrow> length ys = 32 \<Longrightarrow> xs = ys" for xs ys :: bytes by auto
    show ?thesis
    proof (cases u)
      case (Inl e)
      with assms q \<open>q = Inr d\<close> d(1) u have "r = Inl (key_file_failed e)" "h' = h2"
        using k by (auto simp: get_key_def bind_apply try_except_def is_exception_def split: if_splits)
      moreover have "exn_class (key_file_failed e) = KeyProviderError"
        using k Inl by (auto intro: key_file_failed_class)
      ultimately show ?thesis using same o0 k Inl by auto
    next
      case (Inr b)
      with assms q \<open>q = Inr d\<close> d(1) u
      have r: "r = (if length b \<noteq> 32 then Inl (key_error ''master key must be exactly 32 bytes'')
          else Inr b)" "h' = h2"
        by (auto simp: get_key_def bind_apply try_except_def key_size_def split: if_splits)
      from k Inr files obtain m c where c: "h_files h p = Some (Regular m c)" "m AND 0x3F = 0"
        "b = take 33 (content_bytes c)" by auto
      then have "key_of h p = (if length b = 32 then Some b else None)"
        using bytes [of "content_bytes c" b] by (auto simp: key_of_def)
      with r same show ?thesis by (auto simp: key_error_def)
    qed
  qed
qed

text \<open>
  C14. A key is loaded only from a regular file, not a link, that its group and others cannot
  touch and that holds exactly 32 octets, and is that content, however the reads are cut;
  without a fault of the host every such file is loaded. The only error is
  \<open>KeyProviderError\<close>, and no file is changed.
\<close>

theorem get_key_exact:
  assumes "get_key p h = (r, h')"
  shows "same_files h h' \<and> (case r of
      Inr k \<Rightarrow> key_of h p = Some k
    | Inl e \<Rightarrow> exn_class e = KeyProviderError \<and> (h_faults h = [] \<longrightarrow> key_of h p = None))"
  by (rule get_key_run [OF assms])

text \<open>A directory with one private key file, read in chunks of at most five octets.\<close>

definition example_host :: "unit host" where
  "example_host = \<lparr>h_files = [[] \<mapsto> Directory 0x1C0, [lit ''k''] \<mapsto> Regular 0x180 (Bytes (replicate 32 7))],
     h_umask = 0, h_entropy = [], h_faults = [], h_chunks = [4, 0, 2]\<rparr>"

theorem get_key_exact_witness: "fst (get_key [lit ''k''] example_host) = Inr (replicate 32 7)"
proof -
  obtain r h' where r: "get_key [lit ''k''] example_host = (r, h')" by fastforce
  have "key_of example_host [lit ''k''] = Some (replicate 32 7)"
    by (simp add: key_of_def example_host_def)
  with get_key_exact [OF r] r show ?thesis
    by (cases r) (auto simp: example_host_def)
qed

section \<open>Securing a database file\<close>

lemma os_create_run:
  "os_create p m h = (r, h') \<Longrightarrow> h_umask h' = h_umask h \<and> h_entropy h' = h_entropy h
     \<and> (case r of Inl e \<Rightarrow> h_files h' = h_files h
            \<and> (exn_class e = OSError \<or> exn_class e = FileNotFoundError
               \<or> exn_class e = FileExistsError \<and> h_files h p \<noteq> None)
        | Inr d \<Rightarrow> d = p \<and> h_files h p = None
            \<and> (\<exists>k. h_files h' = (h_files h)(p \<mapsto> Regular k (Bytes []))))"
  by (auto simp: os_create_def os_call_def faultable_eq put_node_def err_def split: if_splits)

lemma os_fchmod_run:
  "os_fchmod d m h = (r, h') \<Longrightarrow> h_umask h' = h_umask h \<and> h_entropy h' = h_entropy h
     \<and> (case r of Inl e \<Rightarrow> h_files h' = h_files h \<and> exn_class e = OSError
        | Inr _ \<Rightarrow> \<exists>n. h_files h d = Some n \<and> h_files h' = (h_files h)(d \<mapsto> with_mode m n))
     \<and> (h_faults h = [] \<longrightarrow> h_faults h' = [] \<and> (h_files h d \<noteq> None \<longrightarrow> r = Inr ()))"
  by (auto simp: os_fchmod_def os_call_def faultable_eq put_node_def err_def split: option.splits)

lemma os_fstat_quiet:
  "os_fstat d h = (r, h') \<Longrightarrow> h_faults h = [] \<Longrightarrow>
     h' = h \<and> (\<forall>n. h_files h d = Some n \<longrightarrow> r = Inr n)"
  by (auto simp: os_fstat_def split: option.splits)

text \<open>What securing a descriptor leaves of the files.\<close>

definition secured :: "path \<Rightarrow> 'd host \<Rightarrow> 'd host \<Rightarrow> bool" where
  "secured d h h' \<longleftrightarrow> h_umask h' = h_umask h \<and> h_entropy h' = h_entropy h
    \<and> (\<forall>q. q \<noteq> d \<longrightarrow> h_files h' q = h_files h q)
    \<and> (h_files h' d = h_files h d
       \<or> (\<exists>m c. h_files h d = Some (Regular m c) \<and> h_files h' d = Some (Regular 0x180 c)))"

lemma same_files_secured: "same_files h h' \<Longrightarrow> secured d h h'"
  by (simp add: same_files_def secured_def)

lemma secured_same_files: "secured d h i \<Longrightarrow> same_files i j \<Longrightarrow> secured d h j"
  by (simp add: same_files_def secured_def)

lemma same_files_secured_trans: "same_files h i \<Longrightarrow> secured d i j \<Longrightarrow> secured d h j"
  by (simp add: same_files_def secured_def)

lemma secure_descriptor_run:
  assumes "secure_descriptor d h = (r, h')"
  shows "secured d h h'
    \<and> (case r of Inl e \<Rightarrow> exn_class e = OSError \<or> e = not_regular
       | Inr _ \<Rightarrow> \<exists>c. h_files h' d = Some (Regular 0x180 c))
    \<and> (h_faults h = [] \<longrightarrow> h_faults h' = []
       \<and> ((\<exists>m c. h_files h d = Some (Regular m c)) \<longrightarrow> r = Inr ()))"
proof -
  obtain q h1 where q: "os_fstat d h = (q, h1)" by fastforce
  note s1 = os_fstat_run [OF q] os_fstat_quiet [OF q]
  show ?thesis
  proof (cases "\<exists>m c. q = Inr (Regular m c)")
    case False
    then have "\<exists>e. r = Inl e \<and> (exn_class e = OSError \<or> e = not_regular) \<and> h' = h1"
      using assms q s1(1)
      by (cases q; cases "projr q") (auto simp: secure_descriptor_def bind_apply seq_apply)
    with s1 False show ?thesis by (auto intro: same_files_secured)
  next
    case True
    then obtain m c where mc: "q = Inr (Regular m c)" by blast
    with s1 have d: "h_files h d = Some (Regular m c)" "same_files h h1" by simp_all
    obtain u h2 where u: "os_fchmod d 0x180 h1 = (u, h2)" by fastforce
    note s2 = os_fchmod_run [OF u]
    show ?thesis
    proof (cases u)
      case (Inl e)
      with assms q mc u have "r = Inl e" "h' = h2"
        by (simp_all add: secure_descriptor_def bind_apply seq_apply)
      with s1 s2 Inl d show ?thesis by (auto simp: secured_def same_files_def)
    next
      case (Inr v)
      with s2 d have h2: "h_files h2 = (h_files h)(d \<mapsto> Regular 0x180 c)"
        by (auto simp: same_files_def)
      have sec: "secured d h h2" using h2 d s2 by (auto simp: secured_def same_files_def)
      obtain w h3 where w: "os_fstat d h2 = (w, h3)" by fastforce
      note s3 = os_fstat_run [OF w] os_fstat_quiet [OF w]
      have files: "h_files h3 d = Some (Regular 0x180 c)" using s3(1) h2 by (simp add: same_files_def)
      have "h' = h3 \<and> (case w of Inl e \<Rightarrow> r = Inl e | Inr _ \<Rightarrow> r = Inr ())"
        using assms q mc u Inr w s3(1) h2
        by (cases w) (auto simp: secure_descriptor_def bind_apply seq_apply)
      with s1 s2 s3 sec files d h2 mc Inr show ?thesis
        by (auto split: sum.splits intro: secured_same_files)
    qed
  qed
qed

lemma open_or_create_run:
  assumes "try_except (os_create p m) (catches FileExistsError) (\<lambda>_. os_open_nofollow p) h = (q, h')"
  obtains (failed) e where "q = Inl e" "h_files h' = h_files h"
      "exn_class e = OSError \<or> exn_class e = FileNotFoundError"
    | (created) k where "q = Inr p" "h_files h p = None"
      "h_files h' = (h_files h)(p \<mapsto> Regular k (Bytes []))"
    | (existing) "q = Inr p" "h_files h' = h_files h"
proof -
  obtain c h1 where c: "os_create p m h = (c, h1)" by fastforce
  note cr = os_create_run [OF c]
  show thesis
  proof (cases c)
    case (Inr d)
    with c cr assms show thesis by (auto simp: try_except_def intro: created)
  next
    case (Inl e)
    show thesis
    proof (cases "catches FileExistsError e")
      case False
      with c cr Inl assms show thesis by (auto simp: try_except_def catches_def intro: failed)
    next
      case True
      with c Inl assms have o: "os_open_nofollow p h1 = (q, h')" by (simp add: try_except_def)
      have files: "h_files h1 = h_files h" using cr Inl by simp
      show thesis
      proof (cases q)
        case (Inl e')
        with os_open_nofollow_run [OF o] files show thesis
          by (intro failed) (auto simp: same_files_def)
      next
        case (Inr d)
        with os_open_nofollow_run [OF o] files show thesis
          by (intro existing) (auto simp: same_files_def)
      qed
    qed
  qed
qed

lemma secured_descriptor_closed:
  assumes "try_finally (secure_descriptor d) (close_quietly d) h = (u, h')"
  shows "secured d h h'
    \<and> (case u of Inl e \<Rightarrow> exn_class e = OSError \<or> e = not_regular
       | Inr _ \<Rightarrow> \<exists>c. h_files h' d = Some (Regular 0x180 c))
    \<and> (h_faults h = [] \<longrightarrow> (\<exists>m c. h_files h d = Some (Regular m c)) \<longrightarrow> u = Inr ())"
proof -
  obtain h1 where h1: "secure_descriptor d h = (u, h1)" "same_files h1 h'"
    using assms by (rule try_finally_close)
  from secure_descriptor_run [OF h1(1)] h1(2) show ?thesis
    by (auto simp: same_files_def intro: secured_same_files split: sum.splits)
qed

lemma ensure_database_file_run:
  assumes "ensure_owner_only_database_file p h = (r, h')"
  shows "(\<forall>q. q \<noteq> p \<longrightarrow> h_files h' q = h_files h q)
    \<and> (\<forall>n. h_files h p = Some n \<longrightarrow> h_files h' p = Some n
         \<or> (\<exists>m c. n = Regular m c \<and> h_files h' p = Some (Regular 0x180 c)))
    \<and> (case r of
         Inl e \<Rightarrow> e = permission_error \<or> e = not_regular
       | Inr _ \<Rightarrow> \<exists>c. h_files h' p = Some (Regular 0x180 c)
           \<and> (h_files h p = None \<longrightarrow> c = Bytes []))
    \<and> (h_faults h = [] \<and> (\<exists>m c. h_files h p = Some (Regular m c)) \<longrightarrow> r = Inr ())"
proof -
  let ?open = "try_except (os_create p 0x180) (catches FileExistsError) (\<lambda>_. os_open_nofollow p)"
  let ?body = "\<lambda>d. try_finally (secure_descriptor d) (close_quietly d)"
  obtain q h1 where q: "?open h = (q, h1)" by fastforce
  have quiet: "h_faults h1 = [] \<and> q = Inr p" if "h_faults h = []" "h_files h p = Some (Regular m c)" for m c
    using q that by (simp add: os_create_def os_open_nofollow_def try_except_def)
  have all: "ensure_owner_only_database_file p h = (r, h') \<longleftrightarrow>
      (\<exists>u. bind ?open ?body h = (u, h') \<and> r = (case u of
         Inl e \<Rightarrow> if catches_any [OSError, TypeError, ValueError] e then Inl permission_error else Inl e
       | Inr v \<Rightarrow> Inr v))"
    by (auto simp: ensure_owner_only_database_file_def try_except_def split: prod.splits sum.splits)
  from q show ?thesis
  proof (cases rule: open_or_create_run)
    case failed
    with assms all q quiet show ?thesis by (auto simp: bind_apply catches_def)
  next
    case created
    from assms all q created(1) obtain u where u: "?body p h1 = (u, h')"
      "r = (case u of
         Inl e \<Rightarrow> if catches_any [OSError, TypeError, ValueError] e then Inl permission_error else Inl e
       | Inr v \<Rightarrow> Inr v)" by (auto simp: bind_apply)
    from secured_descriptor_closed [OF u(1)] u(2) created quiet show ?thesis
      by (auto simp: secured_def catches_def not_regular_def split: sum.splits)
  next
    case existing
    from assms all q existing(1) obtain u where u: "?body p h1 = (u, h')"
      "r = (case u of
         Inl e \<Rightarrow> if catches_any [OSError, TypeError, ValueError] e then Inl permission_error else Inl e
       | Inr v \<Rightarrow> Inr v)" by (auto simp: bind_apply)
    from secured_descriptor_closed [OF u(1)] u(2) existing quiet show ?thesis
      by (auto simp: secured_def catches_def not_regular_def split: sum.splits)
  qed
qed

text \<open>
  Securing a database file touches no other file and never the content of an existing one:
  after a success the path is a regular file of mode 0600 with the old content, or an empty
  new one; a link, a directory or a device is refused and left as it is. The only error is
  \<open>DatabasePermissionError\<close>, and without a fault of the host it succeeds on a regular file.
\<close>

theorem database_file_owner_only:
  assumes "ensure_owner_only_database_file p h = (r, h')"
  shows "(\<forall>q. q \<noteq> p \<longrightarrow> h_files h' q = h_files h q)
    \<and> (\<forall>n. h_files h p = Some n \<longrightarrow> h_files h' p = Some n
         \<or> (\<exists>m c. n = Regular m c \<and> h_files h' p = Some (Regular 0x180 c)))
    \<and> (case r of
         Inl e \<Rightarrow> e = permission_error \<or> e = not_regular
       | Inr _ \<Rightarrow> \<exists>c. h_files h' p = Some (Regular 0x180 c)
           \<and> (h_files h p = None \<longrightarrow> c = Bytes []))
    \<and> (h_faults h = [] \<and> (\<exists>m c. h_files h p = Some (Regular m c)) \<longrightarrow> r = Inr ())"
  by (rule ensure_database_file_run [OF assms])

theorem database_file_owner_only_witness:
  "fst (ensure_owner_only_database_file [lit ''k''] example_host) = Inr ()"
proof -
  obtain r h' where r: "ensure_owner_only_database_file [lit ''k''] example_host = (r, h')"
    by fastforce
  from database_file_owner_only [OF r] have "r = Inr ()" by (simp add: example_host_def)
  with r show ?thesis by simp
qed

end
