(* ===== verification/Sqlite.thy ===== *)
theory Sqlite
  imports Host Complex_Main "HOL-Library.List_Lexorder" "HOL-Library.Product_Lexorder"
    "HOL-Library.AList"
begin

text \<open>
  The part of SQLite and of Python's \<open>sqlite3\<close> module that the repositories under
  \<open>src/infrastructure\<close> use: values with SQL's order, tables with the constraints of their
  \<open>CREATE TABLE\<close>, the statements the repositories execute, transactions, and the errors of
  the module. A statement on an open connection works on the database and may fail, as any
  call of the host; a transaction that fails leaves the file as it was.

  Bound values have the type of their column, so that column affinities convert nothing. Texts
  of a database file are valid UTF-8 and numbers finite.
\<close>

section \<open>Values\<close>

datatype sqlval = SqlNull | SqlInt int | SqlReal rat | SqlText pystr | SqlBlob bytes

text \<open>Storage classes first, then numbers by value, texts and blobs by their octets (\<open>memcmp\<close>).\<close>

fun sql_class :: "sqlval \<Rightarrow> nat" where
  "sql_class SqlNull = 0"
| "sql_class (SqlInt _) = 1"
| "sql_class (SqlReal _) = 1"
| "sql_class (SqlText _) = 2"
| "sql_class (SqlBlob _) = 3"

fun sql_number :: "sqlval \<Rightarrow> rat" where
  "sql_number (SqlInt i) = of_int i"
| "sql_number (SqlReal r) = r"
| "sql_number _ = 0"

fun sql_octets :: "sqlval \<Rightarrow> nat list" where
  "sql_octets (SqlText s) = s"
| "sql_octets (SqlBlob b) = map unat b"
| "sql_octets _ = []"

text \<open>Equal numbers of the two numeric types are ordered to make the order total.\<close>

fun sql_kind :: "sqlval \<Rightarrow> nat" where
  "sql_kind (SqlReal _) = 1"
| "sql_kind _ = 0"

definition sql_key :: "sqlval \<Rightarrow> nat \<times> rat \<times> nat list \<times> nat" where
  "sql_key v = (sql_class v, sql_number v, sql_octets v, sql_kind v)"

lemma sql_key_inject: "sql_key v = sql_key w \<longleftrightarrow> v = w"
proof -
  have "inj (map (unat :: 8 word \<Rightarrow> nat))" by (intro inj_mapI injI) simp
  then have blob: "map unat b = map unat c \<longleftrightarrow> b = c" for b c :: bytes by (simp add: inj_eq)
  show ?thesis by (cases v; cases w) (auto simp: sql_key_def blob)
qed

instantiation sqlval :: linorder
begin

definition less_eq_sqlval :: "sqlval \<Rightarrow> sqlval \<Rightarrow> bool" where
  "less_eq_sqlval v w = (sql_key v \<le> sql_key w)"

definition less_sqlval :: "sqlval \<Rightarrow> sqlval \<Rightarrow> bool" where
  "less_sqlval v w = (sql_key v < sql_key w)"

instance
proof
  fix u v w :: sqlval
  show "(v < w) = (v \<le> w \<and> \<not> w \<le> v)"
    unfolding less_eq_sqlval_def less_sqlval_def by (rule less_le_not_le)
  show "v \<le> v" unfolding less_eq_sqlval_def by (rule order_refl)
  show "u \<le> v \<Longrightarrow> v \<le> w \<Longrightarrow> u \<le> w" unfolding less_eq_sqlval_def by (rule order_trans)
  show "v \<le> w \<or> w \<le> v" unfolding less_eq_sqlval_def by (rule linear)
  assume "v \<le> w" "w \<le> v"
  then have "sql_key v = sql_key w" unfolding less_eq_sqlval_def by (rule order_antisym)
  then show "v = w" by (rule sql_key_inject [THEN iffD1])
qed

end

text \<open>\<open>=\<close> and \<open><>\<close> in a \<open>WHERE\<close> clause: nothing is equal to, or different from, \<open>NULL\<close>.\<close>

definition sql_eq :: "sqlval \<Rightarrow> sqlval \<Rightarrow> bool" where
  "sql_eq v w \<longleftrightarrow> sql_class v \<noteq> 0 \<and> sql_class v = sql_class w
     \<and> sql_number v = sql_number w \<and> sql_octets v = sql_octets w"

definition sql_ne :: "sqlval \<Rightarrow> sqlval \<Rightarrow> bool" where
  "sql_ne v w \<longleftrightarrow> sql_class v \<noteq> 0 \<and> sql_class w \<noteq> 0 \<and> \<not> sql_eq v w"

lemma sql_eq_simps [simp]:
  "sql_eq (SqlText s) v \<longleftrightarrow> v = SqlText s"
  "sql_eq v (SqlText s) \<longleftrightarrow> v = SqlText s"
  "sql_eq (SqlInt i) (SqlInt j) \<longleftrightarrow> i = j"
  "\<not> sql_eq SqlNull v" "\<not> sql_eq v SqlNull"
  by (cases v; auto simp: sql_eq_def)+

text \<open>What the \<open>sqlite3\<close> module can bind: texts that encode and integers of 64 bits.\<close>

fun bind_value :: "sqlval \<Rightarrow> unit res" where
  "bind_value (SqlText s) = raise_if (\<not> list_all encodable s) (err UnicodeEncodeError ''surrogates not allowed'')"
| "bind_value (SqlInt i) = raise_if (\<not> (- (2 ^ 63) \<le> i \<and> i < 2 ^ 63))
     (err OverflowError ''Python int too large to convert to SQLite INTEGER'')"
| "bind_value _ = Inr ()"

fun bind_values :: "sqlval list \<Rightarrow> unit res" where
  "bind_values [] = Inr ()"
| "bind_values (v # vs) = thenR (bind_value v) (bind_values vs)"

section \<open>Tables\<close>

record column =
  col_name :: pystr
  col_type :: pystr
  col_notnull :: bool
  col_default :: "pystr option"
  col_pk :: nat

type_synonym row = "sqlval list"

text \<open>The unique indexes, the one of the primary key among them, in the order of creation.\<close>

record table =
  tb_columns :: "column list"
  tb_unique :: "pystr list list"
  tb_rows :: "row list"

record database =
  db_version :: int
  db_tables :: "(pystr \<times> table) list"

definition empty_db :: database where
  "empty_db = \<lparr>db_version = 0, db_tables = []\<rparr>"

definition column_names :: "table \<Rightarrow> pystr list" where
  "column_names t = map col_name (tb_columns t)"

definition field :: "table \<Rightarrow> row \<Rightarrow> pystr \<Rightarrow> sqlval" where
  "field t r n = (case map_of (zip (column_names t) r) n of Some v \<Rightarrow> v | None \<Rightarrow> SqlNull)"

text \<open>
  \<open>str.upper\<close>, as far as the comparison with a type's name can see it: besides ASCII the
  dotless i and the long s become ASCII letters.
\<close>

definition upper :: "pystr \<Rightarrow> pystr" where
  "upper = map (\<lambda>c. if 97 \<le> c \<and> c \<le> 122 then c - 32
     else if c = 0x131 then 73 else if c = 0x17F then 83 else c)"

text \<open>\<open>tuple((row[1], row[2].upper(), row[3], row[4], row[5]) for row in PRAGMA table_info)\<close>\<close>

type_synonym column_definition = "pystr \<times> pystr \<times> bool \<times> pystr option \<times> nat"

definition table_info :: "table \<Rightarrow> column_definition list" where
  "table_info t = map (\<lambda>c. (col_name c, upper (col_type c), col_notnull c, col_default c, col_pk c))
     (tb_columns t)"

text \<open>A table with the given definition and without rows.\<close>

definition create :: "column_definition list \<Rightarrow> pystr list list \<Rightarrow> table" where
  "create cols unique = \<lparr>tb_columns = map (\<lambda>(n, ty, nn, d, pk).
       \<lparr>col_name = n, col_type = ty, col_notnull = nn, col_default = d, col_pk = pk\<rparr>) cols,
     tb_unique = unique, tb_rows = []\<rparr>"

section \<open>Statements\<close>

record conn =
  c_db :: database
  c_faults :: "bool list"

definition sql_error :: exn where
  "sql_error = err SqliteError ''OperationalError''"

definition execute :: "(database \<Rightarrow> 'a res \<times> database) \<Rightarrow> (conn, 'a) io" where
  "execute f = (\<lambda>c. case c_faults c of
       True # fs \<Rightarrow> (Inl sql_error, c\<lparr>c_faults := fs\<rparr>)
     | fs \<Rightarrow> (case f (c_db c) of (r, db) \<Rightarrow> (r, c\<lparr>c_db := db, c_faults := tl fs\<rparr>)))"

definition with_table :: "pystr \<Rightarrow> pystr list \<Rightarrow> (table \<Rightarrow> 'a res \<times> table) \<Rightarrow> (conn, 'a) io" where
  "with_table n cols f = execute (\<lambda>db. case map_of (db_tables db) n of
       None \<Rightarrow> (Inl sql_error, db)
     | Some t \<Rightarrow>
         if \<not> set cols \<subseteq> set (column_names t) then (Inl sql_error, db)
         else (case f t of (r, t') \<Rightarrow> (r, db\<lparr>db_tables := AList.update n t' (db_tables db)\<rparr>)))"

text \<open>\<open>SELECT cols FROM n WHERE ... [ORDER BY o]\<close>, the conditions being equations.\<close>

definition matches :: "table \<Rightarrow> (pystr \<times> sqlval) list \<Rightarrow> row \<Rightarrow> bool" where
  "matches t conds r = list_all (\<lambda>(c, v). sql_eq (field t r c) v) conds"

definition select ::
  "pystr \<Rightarrow> pystr list \<Rightarrow> (pystr \<times> sqlval) list \<Rightarrow> pystr option \<Rightarrow> (conn, row list) io" where
  "select n cols conds order =
     seq (lift (bind_values (map snd conds)))
     (with_table n (cols @ map fst conds) (\<lambda>t.
        (Inr (map (\<lambda>r. map (field t r) cols)
               ((case order of None \<Rightarrow> (\<lambda>rs. rs) | Some o' \<Rightarrow> sort_key (\<lambda>r. field t r o'))
                  (filter (matches t conds) (tb_rows t)))), t)))"

text \<open>\<open>INSERT INTO n (cols) VALUES (vals)\<close>: first \<open>NOT NULL\<close>, then the indexes, last one first.\<close>

fun join :: "pystr \<Rightarrow> pystr list \<Rightarrow> pystr" where
  "join sep [] = []"
| "join sep [x] = x"
| "join sep (x # y # zs) = x @ sep @ join sep (y # zs)"

definition constraint_failed :: "string \<Rightarrow> pystr \<Rightarrow> pystr list \<Rightarrow> exn" where
  "constraint_failed what n cols = Exn SqliteIntegrityError
     (lit what @ lit '' constraint failed: '' @ join (lit '', '') (map (\<lambda>c. n @ lit ''.'' @ c) cols))"

definition null_violation :: "table \<Rightarrow> row \<Rightarrow> column option" where
  "null_violation t r =
     find (\<lambda>c. col_notnull c \<and> field t r (col_name c) = SqlNull) (tb_columns t)"

definition duplicates :: "table \<Rightarrow> pystr list \<Rightarrow> row \<Rightarrow> bool" where
  "duplicates t cols r =
     list_ex (\<lambda>r'. list_all (\<lambda>c. sql_eq (field t r c) (field t r' c)) cols) (tb_rows t)"

definition unique_violation :: "table \<Rightarrow> row \<Rightarrow> pystr list option" where
  "unique_violation t r = find (\<lambda>cols. duplicates t cols r) (rev (tb_unique t))"

definition new_row :: "table \<Rightarrow> pystr list \<Rightarrow> sqlval list \<Rightarrow> row" where
  "new_row t cols vals = map (\<lambda>c. case map_of (zip cols vals) c of Some v \<Rightarrow> v | None \<Rightarrow> SqlNull)
     (column_names t)"

definition insert_row :: "pystr \<Rightarrow> table \<Rightarrow> row \<Rightarrow> unit res \<times> table" where
  "insert_row n t r =
     (case null_violation t r of
        Some c \<Rightarrow> (Inl (constraint_failed ''NOT NULL'' n [col_name c]), t)
      | None \<Rightarrow>
        (case unique_violation t r of
           Some cols \<Rightarrow> (Inl (constraint_failed ''UNIQUE'' n cols), t)
         | None \<Rightarrow> (Inr (), t\<lparr>tb_rows := tb_rows t @ [r]\<rparr>)))"

definition insert_into :: "pystr \<Rightarrow> pystr list \<Rightarrow> sqlval list \<Rightarrow> (conn, unit) io" where
  "insert_into n cols vals =
     seq (lift (bind_values vals))
     (with_table n cols (\<lambda>t. insert_row n t (new_row t cols vals)))"

text \<open>
  \<open>UPDATE n SET c = v WHERE p\<close>: the rows are updated one after the other, each checked against
  the constraints of the column \<open>c\<close>; a violation undoes the statement. The result is the number
  of the rows that match.
\<close>

definition set_field :: "table \<Rightarrow> pystr \<Rightarrow> sqlval \<Rightarrow> row \<Rightarrow> row" where
  "set_field t c v r = map (\<lambda>(n, x). if n = c then v else x) (zip (column_names t) r)"

definition update_violation :: "pystr \<Rightarrow> table \<Rightarrow> pystr \<Rightarrow> row \<Rightarrow> exn option" where
  "update_violation n t c r =
     (if list_ex (\<lambda>k. col_name k = c \<and> col_notnull k) (tb_columns t) \<and> field t r c = SqlNull
      then Some (constraint_failed ''NOT NULL'' n [c])
      else map_option (constraint_failed ''UNIQUE'' n)
             (find (\<lambda>cols. c \<in> set cols \<and> duplicates t cols r) (rev (tb_unique t))))"

fun update_each :: "pystr \<Rightarrow> pystr \<Rightarrow> sqlval \<Rightarrow> (row \<Rightarrow> bool) \<Rightarrow> table \<Rightarrow> row list \<Rightarrow> row list \<Rightarrow> row list res" where
  "update_each n c v p t past [] = Inr past"
| "update_each n c v p t past (r # rs) =
     (if p r then
        (case update_violation n (t\<lparr>tb_rows := past @ rs\<rparr>) c (set_field t c v r) of
           Some e \<Rightarrow> Inl e
         | None \<Rightarrow> update_each n c v p t (past @ [set_field t c v r]) rs)
      else update_each n c v p t (past @ [r]) rs)"

definition update_rows ::
  "pystr \<Rightarrow> pystr \<Rightarrow> sqlval \<Rightarrow> pystr list \<Rightarrow> (table \<Rightarrow> row \<Rightarrow> bool) \<Rightarrow> (conn, nat) io" where
  "update_rows n c v cols p =
     seq (lift (bind_value v))
     (with_table n (c # cols) (\<lambda>t. case update_each n c v (p t) t [] (tb_rows t) of
        Inl e \<Rightarrow> (Inl e, t)
      | Inr rs \<Rightarrow> (Inr (length (filter (p t) (tb_rows t))), t\<lparr>tb_rows := rs\<rparr>)))"

definition create_table_if_absent :: "pystr \<Rightarrow> table \<Rightarrow> (conn, unit) io" where
  "create_table_if_absent n t = execute (\<lambda>db. case map_of (db_tables db) n of
       Some _ \<Rightarrow> (Inr (), db)
     | None \<Rightarrow> (Inr (), db\<lparr>db_tables := db_tables db @ [(n, t)]\<rparr>))"

definition create_table :: "pystr \<Rightarrow> table \<Rightarrow> (conn, unit) io" where
  "create_table n t = execute (\<lambda>db. case map_of (db_tables db) n of
       Some _ \<Rightarrow> (Inl sql_error, db)
     | None \<Rightarrow> (Inr (), db\<lparr>db_tables := db_tables db @ [(n, t)]\<rparr>))"

text \<open>\<open>PRAGMA table_info\<close> (empty for an unknown table), \<open>PRAGMA user_version\<close>, \<open>sqlite_master\<close>\<close>

definition pragma_table_info :: "pystr \<Rightarrow> (conn, column_definition list) io" where
  "pragma_table_info n = execute (\<lambda>db.
     (Inr (case map_of (db_tables db) n of None \<Rightarrow> [] | Some t \<Rightarrow> table_info t), db))"

definition pragma_unique_columns :: "pystr \<Rightarrow> (conn, pystr list list) io" where
  "pragma_unique_columns n = execute (\<lambda>db.
     (Inr (case map_of (db_tables db) n of None \<Rightarrow> [] | Some t \<Rightarrow> tb_unique t), db))"

definition pragma_user_version :: "(conn, int) io" where
  "pragma_user_version = execute (\<lambda>db. (Inr (db_version db), db))"

definition set_user_version :: "int \<Rightarrow> (conn, unit) io" where
  "set_user_version v = execute (\<lambda>db. (Inr (), db\<lparr>db_version := v\<rparr>))"

definition table_exists :: "pystr \<Rightarrow> (conn, bool) io" where
  "table_exists n = execute (\<lambda>db. (Inr (map_of (db_tables db) n \<noteq> None), db))"

section \<open>Connections\<close>

type_synonym dbhost = "database host"

text \<open>\<open>sqlite3.connect\<close> with the first access: links are followed, a missing file is created.\<close>

fun load_content :: "database content \<Rightarrow> database res" where
  "load_content (Bytes b) = (if b = [] then Inr empty_db else Inl (err SqliteError ''DatabaseError''))"
| "load_content (Db d) = Inr d"

definition open_db :: "path \<Rightarrow> (dbhost, path \<times> database) io" where
  "open_db p = faultable sql_error (\<lambda>h. case follow max_links (h_files h) p of
       Inl e \<Rightarrow> (Inl sql_error, h)
     | Inr q \<Rightarrow> (case h_files h q of
           Some (Regular m c) \<Rightarrow> (bindR (load_content c) (\<lambda>d. Inr (q, d)), h)
         | None \<Rightarrow>
             if parent_ok h q
             then (Inr (q, empty_db), put_node q (Regular (0x1A4 AND NOT (h_umask h)) (Bytes [])) h)
             else (Inl sql_error, h)
         | _ \<Rightarrow> (Inl sql_error, h)))"

definition save_db :: "path \<Rightarrow> database \<Rightarrow> dbhost \<Rightarrow> dbhost" where
  "save_db q d h = (case h_files h q of
       Some (Regular m c) \<Rightarrow> if load_content c = Inr d then h else put_node q (Regular m (Db d)) h
     | _ \<Rightarrow> h)"

text \<open>
  \<open>with closing(sqlite3.connect(p))\<close> around \<open>m\<close>; with \<open>keep\<close> what was done before a raise
  stays (autocommit), without it it is rolled back.
\<close>

definition with_db :: "bool \<Rightarrow> path \<Rightarrow> (conn, 'a) io \<Rightarrow> (dbhost, 'a) io" where
  "with_db keep p m = bind (open_db p) (\<lambda>(q, d) h.
     case m \<lparr>c_db = d, c_faults = h_faults h\<rparr> of
       (Inl e, c) \<Rightarrow> (Inl e, (if keep then save_db q (c_db c) h else h)\<lparr>h_faults := c_faults c\<rparr>)
     | (Inr x, c) \<Rightarrow> (Inr x, (save_db q (c_db c) h)\<lparr>h_faults := c_faults c\<rparr>))"

definition commit :: "(conn, unit) io" where
  "commit = execute (\<lambda>db. (Inr (), db))"

definition transaction :: "path \<Rightarrow> (conn, 'a) io \<Rightarrow> (dbhost, 'a) io" where
  "transaction p m = with_db False p (bind m (\<lambda>x. seq commit (ret x)))"

definition connection :: "path \<Rightarrow> (conn, 'a) io \<Rightarrow> (dbhost, 'a) io" where
  "connection p m = with_db True p m"

section \<open>What statements and connections do\<close>

text \<open>The database of a regular file.\<close>

definition db_at :: "dbhost \<Rightarrow> path \<Rightarrow> database option" where
  "db_at h p = (case h_files h p of
       Some (Regular m c) \<Rightarrow> (case load_content c of Inr d \<Rightarrow> Some d | Inl e \<Rightarrow> None)
     | _ \<Rightarrow> None)"

definition table_at :: "dbhost \<Rightarrow> path \<Rightarrow> pystr \<Rightarrow> table option" where
  "table_at h p n = (case db_at h p of None \<Rightarrow> None | Some d \<Rightarrow> map_of (db_tables d) n)"

text \<open>From \<open>h\<close> to \<open>h'\<close> at most the content of the file \<open>p\<close> changed, and faults were used up.\<close>

definition only_db :: "path \<Rightarrow> dbhost \<Rightarrow> dbhost \<Rightarrow> bool" where
  "only_db p h h' \<longleftrightarrow> (\<forall>q. q \<noteq> p \<longrightarrow> h_files h' q = h_files h q)
     \<and> h_umask h' = h_umask h \<and> h_entropy h' = h_entropy h
     \<and> (\<forall>m c. h_files h p = Some (Regular m c) \<longrightarrow> (\<exists>c'. h_files h' p = Some (Regular m c')))
     \<and> (h_faults h = [] \<longrightarrow> h_faults h' = [])"

lemma only_db_refl [simp]: "only_db p h h"
  by (simp add: only_db_def)

lemma only_db_trans: "only_db p h i \<Longrightarrow> only_db p i j \<Longrightarrow> only_db p h j"
  unfolding only_db_def by metis

lemma only_db_other: "only_db p h h' \<Longrightarrow> q \<noteq> p \<Longrightarrow> db_at h' q = db_at h q"
  by (simp add: only_db_def db_at_def)

lemma only_db_table_other: "only_db p h h' \<Longrightarrow> q \<noteq> p \<Longrightarrow> table_at h' q n = table_at h q n"
  by (simp add: table_at_def only_db_other)

lemma follow_regular: "fs p = Some (Regular m c) \<Longrightarrow> follow max_links fs p = Inr p"
  by (simp add: max_links_def numeral_eq_Suc)

lemma db_at_Some:
  "db_at h p = Some d \<longleftrightarrow>
     (\<exists>m c. h_files h p = Some (Regular m c) \<and> load_content c = Inr d)"
  by (auto simp: db_at_def split: option.splits node.splits sum.splits)

lemma save_db_run:
  "db_at h p = Some d \<Longrightarrow> db_at ((save_db p d' h)\<lparr>h_faults := fs\<rparr>) p = Some d'
     \<and> ((h_faults h = [] \<longrightarrow> fs = []) \<longrightarrow> only_db p h ((save_db p d' h)\<lparr>h_faults := fs\<rparr>))"
  by (auto simp: db_at_Some save_db_def put_node_def only_db_def)

lemma open_db_run:
  assumes "open_db p h = (r, h')" "db_at h p = Some d"
  shows "(r = Inr (p, d) \<or> r = Inl sql_error \<and> h_faults h \<noteq> []) \<and> (\<exists>fs. h' = h\<lparr>h_faults := fs\<rparr>
    \<and> (h_faults h = [] \<longrightarrow> fs = []))"
  using assms by (auto simp: open_db_def faultable_eq db_at_Some follow_regular)

text \<open>A connection either could not be opened or runs its statements on the database.\<close>

lemma with_db_run:
  assumes "with_db keep p m h = (r, h')" "db_at h p = Some d"
  obtains (unopened) "r = Inl sql_error" "h_faults h \<noteq> []" "db_at h' p = Some d" "only_db p h h'"
  | (ran) fs c where "m \<lparr>c_db = d, c_faults = fs\<rparr> = (r, c)" "h_faults h = [] \<longrightarrow> fs = []"
      "db_at h' p = Some (if isl r \<and> \<not> keep then d else c_db c)"
      "(fs = [] \<longrightarrow> c_faults c = []) \<longrightarrow> only_db p h h'"
proof -
  obtain q h1 where q: "open_db p h = (q, h1)" by fastforce
  from open_db_run [OF q assms(2)] obtain fs where fs: "h1 = h\<lparr>h_faults := fs\<rparr>"
    "h_faults h = [] \<longrightarrow> fs = []" "q = Inr (p, d) \<or> q = Inl sql_error \<and> h_faults h \<noteq> []" by blast
  have d1: "db_at (h\<lparr>h_faults := gs\<rparr>) p = Some d" for gs using assms(2) by (simp add: db_at_def)
  have same: "only_db p h (h\<lparr>h_faults := gs\<rparr>)" if "h_faults h = [] \<longrightarrow> gs = []" for gs
    using that by (simp add: only_db_def)
  show thesis
  proof (cases "q = Inr (p, d)")
    case False
    with fs q assms(1) have "r = Inl sql_error" "h_faults h \<noteq> []" "h' = h\<lparr>h_faults := fs\<rparr>"
      by (auto simp: with_db_def bind_apply)
    with d1 same show thesis by (intro unopened) auto
  next
    case True
    obtain x c where c: "m \<lparr>c_db = d, c_faults = fs\<rparr> = (x, c)" by fastforce
    let ?s = "(save_db p (c_db c) h1)\<lparr>h_faults := c_faults c\<rparr>"
    have r: "r = x" "h' = (if isl x \<and> \<not> keep then h1\<lparr>h_faults := c_faults c\<rparr> else ?s)"
      using assms(1) q True c fs(1) by (auto simp: with_db_def bind_apply split: sum.splits)
    have "db_at h1 p = Some d" using d1 [of fs] fs(1) by simp
    from save_db_run [OF this, where d' = "c_db c" and fs = "c_faults c"]
    have s: "db_at ?s p = Some (c_db c)"
      "(h_faults h1 = [] \<longrightarrow> c_faults c = []) \<longrightarrow> only_db p h1 ?s" by simp_all
    show thesis
    proof (rule ran [of fs c])
      show "m \<lparr>c_db = d, c_faults = fs\<rparr> = (r, c)" using c r by simp
      show "h_faults h = [] \<longrightarrow> fs = []" by (rule fs(2))
      show "db_at h' p = Some (if isl r \<and> \<not> keep then d else c_db c)" using r s d1 fs(1) by simp
      show "(fs = [] \<longrightarrow> c_faults c = []) \<longrightarrow> only_db p h h'"
        using r s same [OF fs(2)] fs same [of "c_faults c"] by (auto intro: only_db_trans)
    qed
  qed
qed

lemma execute_run:
  "execute f c = (r, c') \<Longrightarrow>
     ((r, c_db c') = f (c_db c) \<or> r = Inl sql_error \<and> c_db c' = c_db c \<and> c_faults c \<noteq> [])
     \<and> (c_faults c = [] \<longrightarrow> c_faults c' = [])"
  by (auto simp: execute_def split: list.splits bool.splits prod.splits)

lemma with_table_run:
  assumes "with_table n cols f c = (r, c')" "map_of (db_tables (c_db c)) n = Some t"
    "set cols \<subseteq> set (column_names t)"
  shows "(r = fst (f t) \<and> c_db c' = (c_db c)\<lparr>db_tables := AList.update n (snd (f t)) (db_tables (c_db c))\<rparr>
      \<or> r = Inl sql_error \<and> c_db c' = c_db c \<and> c_faults c \<noteq> [])
    \<and> (c_faults c = [] \<longrightarrow> c_faults c' = [])"
  using execute_run [OF assms(1) [unfolded with_table_def]] assms(2,3)
  by (auto split: prod.splits)

lemma update_same: "map_of ps n = Some t \<Longrightarrow> AList.update n t ps = ps"
  by (induction ps) auto

definition selection ::
  "table \<Rightarrow> pystr list \<Rightarrow> (pystr \<times> sqlval) list \<Rightarrow> pystr option \<Rightarrow> row list" where
  "selection t cols conds order = map (\<lambda>r. map (field t r) cols)
     ((case order of None \<Rightarrow> (\<lambda>rs. rs) | Some o' \<Rightarrow> sort_key (\<lambda>r. field t r o'))
        (filter (matches t conds) (tb_rows t)))"

lemma select_run:
  assumes "select n cols conds order c = (r, c')" "map_of (db_tables (c_db c)) n = Some t"
    "set (cols @ map fst conds) \<subseteq> set (column_names t)"
  shows "c_db c' = c_db c \<and> (c_faults c = [] \<longrightarrow> c_faults c' = [])
    \<and> (r = thenR (bind_values (map snd conds)) (Inr (selection t cols conds order))
       \<or> r = Inl sql_error \<and> c_faults c \<noteq> [])"
proof (cases "bind_values (map snd conds)")
  case (Inl e)
  with assms(1) show ?thesis by (auto simp: select_def seq_apply)
next
  case (Inr u)
  with assms(1) with_table_run [OF _ assms(2,3)] show ?thesis
    by (fastforce simp: select_def seq_apply selection_def update_same [OF assms(2)])
qed

lemma insert_into_run:
  assumes "insert_into n cols vals c = (r, c')" "map_of (db_tables (c_db c)) n = Some t"
    "set cols \<subseteq> set (column_names t)"
  shows "(r = Inr () \<and> bind_values vals = Inr () \<and> null_violation t (new_row t cols vals) = None
        \<and> unique_violation t (new_row t cols vals) = None
        \<and> c_db c' = (c_db c)\<lparr>db_tables := AList.update n
             (t\<lparr>tb_rows := tb_rows t @ [new_row t cols vals]\<rparr>) (db_tables (c_db c))\<rparr>
      \<or> c_db c' = c_db c \<and> (\<exists>e. r = Inl e
          \<and> (e = sql_error \<and> c_faults c \<noteq> [] \<or> bind_values vals = Inl e
             \<or> bind_values vals = Inr () \<and> fst (insert_row n t (new_row t cols vals)) = Inl e)))
    \<and> (c_faults c = [] \<longrightarrow> c_faults c' = [])"
proof (cases "bind_values vals")
  case (Inl e)
  with assms(1) have "r = Inl e" "c' = c" by (simp_all add: insert_into_def seq_apply)
  with Inl show ?thesis by simp
next
  case (Inr u)
  with assms(1) have "with_table n cols (\<lambda>t. insert_row n t (new_row t cols vals)) c = (r, c')"
    by (simp add: insert_into_def seq_apply)
  from with_table_run [OF this assms(2,3)] Inr show ?thesis
    by (auto simp: insert_row_def update_same [OF assms(2)] split: option.splits)
qed

lemma commit_run:
  "commit c = (r, c') \<Longrightarrow> c_db c' = c_db c \<and> (r = Inr () \<or> r = Inl sql_error \<and> c_faults c \<noteq> [])
     \<and> (c_faults c = [] \<longrightarrow> c_faults c' = [])"
  using execute_run [of "\<lambda>db. (Inr (), db)" c r c'] by (auto simp: commit_def)

text \<open>One \<open>INSERT\<close> in a transaction, and one \<open>SELECT\<close>, on a file whose table is known.\<close>

definition inserted :: "table \<Rightarrow> row \<Rightarrow> table" where
  "inserted t r = t\<lparr>tb_rows := tb_rows t @ [r]\<rparr>"

lemma transaction_insert:
  assumes "transaction p (insert_into n cols vals) h = (r, h')" "table_at h p n = Some t"
    "set cols \<subseteq> set (column_names t)"
  shows "only_db p h h' \<and> (\<forall>n'. n' \<noteq> n \<longrightarrow> table_at h' p n' = table_at h p n')
    \<and> (r = Inr () \<and> bind_values vals = Inr () \<and> null_violation t (new_row t cols vals) = None
        \<and> unique_violation t (new_row t cols vals) = None
        \<and> table_at h' p n = Some (inserted t (new_row t cols vals))
      \<or> (\<exists>e. r = Inl e \<and> table_at h' p n = Some t
          \<and> (e = sql_error \<and> h_faults h \<noteq> [] \<or> bind_values vals = Inl e
             \<or> bind_values vals = Inr () \<and> fst (insert_row n t (new_row t cols vals)) = Inl e)))"
proof -
  from assms(2) obtain d where d: "db_at h p = Some d" "map_of (db_tables d) n = Some t"
    by (auto simp: table_at_def split: option.splits)
  from assms(1) [unfolded transaction_def] d(1) show ?thesis
  proof (cases rule: with_db_run)
    case unopened
    with d show ?thesis by (simp add: table_at_def)
  next
    case (ran fs c)
    obtain q c1 where q: "insert_into n cols vals \<lparr>c_db = d, c_faults = fs\<rparr> = (q, c1)" by fastforce
    from insert_into_run [OF q] d(2) assms(3) have i:
      "(q = Inr () \<and> bind_values vals = Inr () \<and> null_violation t (new_row t cols vals) = None
        \<and> unique_violation t (new_row t cols vals) = None
        \<and> c_db c1 = d\<lparr>db_tables := AList.update n (inserted t (new_row t cols vals)) (db_tables d)\<rparr>)
      \<or> (c_db c1 = d \<and> (\<exists>e. q = Inl e
          \<and> (e = sql_error \<and> fs \<noteq> [] \<or> bind_values vals = Inl e
             \<or> bind_values vals = Inr () \<and> fst (insert_row n t (new_row t cols vals)) = Inl e)))"
      "fs = [] \<longrightarrow> c_faults c1 = []" by (simp_all add: inserted_def)
    show ?thesis
    proof (cases q)
      case (Inl e)
      with ran q have "r = Inl e" "c = c1" by (simp_all add: bind_apply)
      with ran i Inl d show ?thesis by (auto simp: table_at_def)
    next
      case (Inr u)
      obtain v c2 where v: "commit c1 = (v, c2)" by fastforce
      with ran q Inr have r: "r = (case v of Inl e \<Rightarrow> Inl e | Inr _ \<Rightarrow> Inr ())" "c = c2"
        by (auto simp: bind_apply seq_apply split: sum.splits)
      from commit_run [OF v] ran r i Inr d show ?thesis
        by (auto simp: table_at_def update_conv)
    qed
  qed
qed

lemma connection_select:
  assumes "connection p (select n cols conds order) h = (r, h')" "table_at h p n = Some t"
    "set (cols @ map fst conds) \<subseteq> set (column_names t)"
  shows "only_db p h h' \<and> (\<forall>n'. table_at h' p n' = table_at h p n')
    \<and> (r = thenR (bind_values (map snd conds)) (Inr (selection t cols conds order))
       \<or> r = Inl sql_error \<and> h_faults h \<noteq> [])"
proof -
  from assms(2) obtain d where d: "db_at h p = Some d" "map_of (db_tables d) n = Some t"
    by (auto simp: table_at_def split: option.splits)
  from assms(1) [unfolded connection_def] d(1) show ?thesis
  proof (cases rule: with_db_run)
    case unopened
    with d show ?thesis by (simp add: table_at_def)
  next
    case (ran fs c)
    from select_run [OF ran(1)] d(2) assms(3) ran d show ?thesis by (auto simp: table_at_def)
  qed
qed

section \<open>Tables made by the program\<close>

text \<open>A table as a \<open>CREATE TABLE\<close> of the program makes it, with some rows of its width.\<close>

definition made :: "column_definition list \<Rightarrow> pystr list list \<Rightarrow> row list \<Rightarrow> table" where
  "made cols unique rows = (create cols unique)\<lparr>tb_rows := rows\<rparr>"

lemma made_fields [simp]:
  "tb_rows (made cols unique rows) = rows" "tb_unique (made cols unique rows) = unique"
  "column_names (made cols unique rows) = map fst cols"
  "inserted (made cols unique rows) r = made cols unique (rows @ [r])"
  by (auto simp: made_def create_def inserted_def column_names_def)

lemma create_made: "create cols unique = made cols unique []"
  by (simp add: made_def create_def)

lemma table_info_made:
  assumes "\<forall>(n, ty, c) \<in> set cols. upper ty = ty"
  shows "table_info (made cols unique rows) = cols"
proof -
  have "table_info (made cols unique rows)
      = map (\<lambda>c. (fst c, upper (fst (snd c)), snd (snd c))) cols"
    by (simp add: table_info_def made_def create_def case_prod_unfold)
  also have "\<dots> = map (\<lambda>c. c) cols" using assms by (intro map_cong) auto
  finally show ?thesis by simp
qed

lemma project_row:
  assumes "distinct (column_names t)" "length r = length (column_names t)"
  shows "map (field t r) (column_names t) = r"
proof (rule nth_equalityI)
  fix i assume "i < length (map (field t r) (column_names t))"
  then show "map (field t r) (column_names t) ! i = r ! i"
    using assms by (simp add: field_def map_of_zip_nth)
qed (simp add: assms)

lemma new_row_all:
  assumes "distinct (column_names t)" "length vals = length (column_names t)"
  shows "new_row t (column_names t) vals = vals"
proof (rule nth_equalityI)
  fix i assume "i < length (new_row t (column_names t) vals)"
  then show "new_row t (column_names t) vals ! i = vals ! i"
    using assms by (simp add: new_row_def map_of_zip_nth)
qed (simp add: assms new_row_def)

lemma select_whole_rows:
  assumes "distinct (column_names t)" "list_all (\<lambda>r. length r = length (column_names t)) (tb_rows t)"
  shows "selection t (column_names t) conds None = filter (matches t conds) (tb_rows t)"
    "selection t (column_names t) conds (Some o')
       = sort_key (\<lambda>r. field t r o') (filter (matches t conds) (tb_rows t))"
proof -
  have id: "map (\<lambda>r. map (field t r) (column_names t)) rs = rs"
    if "set rs \<subseteq> set (tb_rows t)" for rs
    using assms that by (intro map_idI project_row) (auto simp: list_all_iff)
  have f: "set (filter (matches t conds) (tb_rows t)) \<subseteq> set (tb_rows t)" by auto
  show "selection t (column_names t) conds None = filter (matches t conds) (tb_rows t)"
    using id [OF f] by (simp add: selection_def)
  show "selection t (column_names t) conds (Some o')
       = sort_key (\<lambda>r. field t r o') (filter (matches t conds) (tb_rows t))"
    using id [of "sort_key (\<lambda>r. field t r o') (filter (matches t conds) (tb_rows t))"] f
    by (simp add: selection_def)
qed

lemma SqlText_le [simp]: "SqlText s \<le> SqlText t \<longleftrightarrow> s \<le> t"
  by (auto simp: less_eq_sqlval_def sql_key_def)

lemma sort_SqlText:
  "(\<And>x. x \<in> set xs \<Longrightarrow> f (g x) = SqlText (k x)) \<Longrightarrow>
     sort_key f (map g xs) = map g (sort_key k xs)"
proof (induction xs)
  case (Cons x xs)
  have ins: "insort_key f (g x) (map g ys) = map g (insort_key k x ys)"
    if "\<And>y. y \<in> set (x # ys) \<Longrightarrow> f (g y) = SqlText (k y)" for ys
    using that by (induction ys) auto
  show ?case using Cons ins [of "sort_key k xs"] by simp
qed simp

lemma insort_key_agree:
  "\<forall>y \<in> set (x # ys). f y = g y \<Longrightarrow> insort_key f x ys = insort_key g x ys"
  by (induction ys) auto

lemma sort_key_agree: "\<forall>x \<in> set xs. f x = g x \<Longrightarrow> sort_key f xs = sort_key g xs"
  by (induction xs) (simp_all add: insort_key_agree)

text \<open>
  A query of all columns, its conditions and its order given by the positions of the columns.
\<close>

definition rows_where :: "(nat \<times> sqlval) list \<Rightarrow> row list \<Rightarrow> row list" where
  "rows_where conds rows = filter (\<lambda>r. list_all (\<lambda>(i, v). sql_eq (r ! i) v) conds) rows"

definition conds_on :: "column_definition list \<Rightarrow> (nat \<times> sqlval) list \<Rightarrow> (pystr \<times> sqlval) list" where
  "conds_on cols conds = map (\<lambda>(i, v). (fst (cols ! i), v)) conds"

lemma field_made:
  assumes "distinct (map fst cols)" "length r = length cols" "i < length cols"
  shows "field (made cols uq rows) r (fst (cols ! i)) = r ! i"
  using assms map_of_zip_nth [of "map fst cols" r i] by (simp add: field_def)

lemma filter_conds_on:
  assumes "distinct (map fst cols)" "\<forall>r \<in> set rows. length r = length cols"
    "\<forall>(i, v) \<in> set conds. i < length cols"
  shows "filter (matches (made cols uq rs) (conds_on cols conds)) rows = rows_where conds rows"
proof -
  have "matches (made cols uq rs) (conds_on cols conds) r = list_all (\<lambda>(i, v). sql_eq (r ! i) v) conds"
    if "length r = length cols" for r
    unfolding matches_def conds_on_def list.pred_map comp_def
    using assms(1,3) that by (intro list.pred_cong) (auto simp: field_made)
  with assms(2) show ?thesis unfolding rows_where_def by (intro filter_cong) auto
qed

lemma selection_made:
  assumes "distinct (map fst cols)" "\<forall>r \<in> set rows. length r = length cols"
    "\<forall>(i, v) \<in> set conds. i < length cols"
  shows "selection (made cols uq rows) (map fst cols) (conds_on cols conds) None
      = rows_where conds rows"
    "k < length cols \<Longrightarrow>
     selection (made cols uq rows) (map fst cols) (conds_on cols conds) (Some (fst (cols ! k)))
      = sort_key (\<lambda>r. r ! k) (rows_where conds rows)"
proof -
  let ?t = "made cols uq rows"
  have d: "distinct (column_names ?t)"
    "list_all (\<lambda>r. length r = length (column_names ?t)) (tb_rows ?t)"
    using assms(1,2) by (simp_all add: list_all_iff)
  note f = filter_conds_on [OF assms, of uq rows]
  show "selection ?t (map fst cols) (conds_on cols conds) None = rows_where conds rows"
    using select_whole_rows(1) [OF d, of "conds_on cols conds"] f by simp
  assume k: "k < length cols"
  have "\<forall>r \<in> set (rows_where conds rows). field ?t r (fst (cols ! k)) = r ! k"
    using assms(1,2) k by (auto simp: rows_where_def field_made)
  from sort_key_agree [OF this]
  show "selection ?t (map fst cols) (conds_on cols conds) (Some (fst (cols ! k)))
      = sort_key (\<lambda>r. r ! k) (rows_where conds rows)"
    using select_whole_rows(2) [OF d, of "conds_on cols conds"] f by simp
qed

lemma new_row_made:
  "distinct (map fst cols) \<Longrightarrow> length vals = length cols \<Longrightarrow>
     new_row (made cols uq rows) (map fst cols) vals = vals"
  using new_row_all [of "made cols uq rows" vals] by simp

lemma rows_where_append [simp]:
  "rows_where conds (rows @ [r]) = rows_where conds rows
     @ (if list_all (\<lambda>(i, v). sql_eq (r ! i) v) conds then [r] else [])"
  by (simp add: rows_where_def)

lemma rows_where_subset: "set (rows_where conds rows) \<subseteq> set rows"
  by (auto simp: rows_where_def)

lemma no_null_violation:
  assumes "distinct (map fst cols)" "length r = length cols" "SqlNull \<notin> set r"
  shows "null_violation (made cols uq rows) r = None"
proof -
  have "field (made cols uq rows) r c \<noteq> SqlNull" if "c \<in> fst ` set cols" for c
  proof -
    from that obtain i where "i < length cols" "c = fst (cols ! i)"
      by (metis imageE in_set_conv_nth)
    with field_made [OF assms(1,2), of i uq rows] assms(2,3) show ?thesis
      by (metis nth_mem)
  qed
  then show ?thesis
    by (force simp: null_violation_def find_None_iff made_def create_def)
qed

lemma insert_made:
  assumes "transaction p (insert_into n (map fst cols) vals) h = (q, h')"
    "table_at h p n = Some (made cols uq rows)"
    "distinct (map fst cols)" "length vals = length cols" "SqlNull \<notin> set vals"
  shows "only_db p h h' \<and> (\<forall>n'. n' \<noteq> n \<longrightarrow> table_at h' p n' = table_at h p n')
    \<and> (q = Inr () \<and> bind_values vals = Inr () \<and> unique_violation (made cols uq rows) vals = None
        \<and> table_at h' p n = Some (made cols uq (rows @ [vals]))
      \<or> (\<exists>e. q = Inl e \<and> table_at h' p n = Some (made cols uq rows)
          \<and> (e = sql_error \<and> h_faults h \<noteq> [] \<or> bind_values vals = Inl e
             \<or> bind_values vals = Inr () \<and> (\<exists>cs. unique_violation (made cols uq rows) vals = Some cs
                  \<and> e = constraint_failed ''UNIQUE'' n cs))))"
  using transaction_insert [OF assms(1,2)] no_null_violation [OF assms(3-5), of uq rows]
    new_row_made [OF assms(3,4), of uq rows]
  by (auto simp: insert_row_def split: option.splits)

text \<open>The primary key is the first column and the only unique index.\<close>

lemma unique_violation_key:
  assumes "distinct (map fst cols)" "\<forall>r \<in> set (r # rows). length r = length cols" "cols \<noteq> []"
  shows "unique_violation (made cols [[fst (cols ! 0)]] rows) r =
    (if \<exists>r' \<in> set rows. sql_eq (r ! 0) (r' ! 0) then Some [fst (cols ! 0)] else None)"
proof -
  have "field (made cols uq rs) r' (fst (cols ! 0)) = r' ! 0" if "r' \<in> set (r # rows)" for r' uq rs
    using assms that by (intro field_made) auto
  then show ?thesis
    by (auto simp: unique_violation_def duplicates_def list_ex_iff)
qed

lemma is_duplicate_constraint [simp]:
  "startswith (exn_message (constraint_failed ''UNIQUE'' n cs)) (lit ''UNIQUE constraint failed'')"
  "exn_class (constraint_failed what n cs) = SqliteIntegrityError"
  by (simp_all add: constraint_failed_def startswith_def lit_def)

lemma select_made:
  assumes "table_at h p n = Some (made cols uq rows)" "distinct (map fst cols)"
    "\<forall>r \<in> set rows. length r = length cols" "\<forall>(i, v) \<in> set conds. i < length cols"
  shows "connection p (select n (map fst cols) (conds_on cols conds) None) h = (q, h') \<Longrightarrow>
      only_db p h h' \<and> (\<forall>n'. table_at h' p n' = table_at h p n')
      \<and> (q = thenR (bind_values (map snd conds)) (Inr (rows_where conds rows))
         \<or> q = Inl sql_error \<and> h_faults h \<noteq> [])"
    "connection p (select n (map fst cols) (conds_on cols conds) (Some (fst (cols ! k)))) h = (q, h') \<Longrightarrow>
      k < length cols \<Longrightarrow> only_db p h h' \<and> (\<forall>n'. table_at h' p n' = table_at h p n')
      \<and> (q = thenR (bind_values (map snd conds)) (Inr (sort_key (\<lambda>r. r ! k) (rows_where conds rows)))
         \<or> q = Inl sql_error \<and> h_faults h \<noteq> [])"
proof -
  have cols: "set (map fst cols @ map fst (conds_on cols conds))
      \<subseteq> set (column_names (made cols uq rows))"
    using assms(4) by (auto simp: conds_on_def)
  have vals: "map snd (conds_on cols conds) = map snd conds"
    by (simp add: conds_on_def case_prod_unfold)
  {
    assume "connection p (select n (map fst cols) (conds_on cols conds) None) h = (q, h')"
    from connection_select [OF this assms(1) cols] show "only_db p h h'
      \<and> (\<forall>n'. table_at h' p n' = table_at h p n')
      \<and> (q = thenR (bind_values (map snd conds)) (Inr (rows_where conds rows))
         \<or> q = Inl sql_error \<and> h_faults h \<noteq> [])"
      using selection_made(1) [OF assms(2-4), of uq] vals by simp
  }
  assume k: "k < length cols"
  assume "connection p (select n (map fst cols) (conds_on cols conds) (Some (fst (cols ! k)))) h = (q, h')"
  from connection_select [OF this assms(1) cols] show "only_db p h h'
      \<and> (\<forall>n'. table_at h' p n' = table_at h p n')
      \<and> (q = thenR (bind_values (map snd conds)) (Inr (sort_key (\<lambda>r. r ! k) (rows_where conds rows)))
         \<or> q = Inl sql_error \<and> h_faults h \<noteq> [])"
    using selection_made(2) [OF assms(2-4) k, of uq] vals by simp
qed

lemma bind_values_class: "bind_values vs = Inl e \<Longrightarrow> exn_class e = UnicodeEncodeError \<or> exn_class e = OverflowError"
proof (induction vs)
  case (Cons v vs)
  then show ?case by (cases v) (auto simp: thenR_eq_Inl_iff)
qed simp

lemma bind_values_not_sql: "bind_values vs = Inl e \<Longrightarrow> \<not> catches SqliteError e"
  by (drule bind_values_class) (auto simp: catches_def)

text \<open>\<open>except sqlite3.Error\<close> around a query, and around an insertion.\<close>

lemma try_query:
  assumes "try_except m (catches SqliteError) (\<lambda>_. raise e0) h = (q', h')" "m h = (q, h1)"
    "q = thenR (bind_values vs) (Inr rows) \<or> q = Inl sql_error \<and> F"
  shows "h' = h1 \<and> (q' = thenR (bind_values vs) (Inr rows) \<or> q' = Inl e0 \<and> F)"
proof (cases "q = Inl sql_error \<and> F")
  case True
  with assms show ?thesis by (simp add: try_except_def sql_error_def)
next
  case False
  with assms(3) have q: "q = thenR (bind_values vs) (Inr rows)" by simp
  show ?thesis
  proof (cases "bind_values vs")
    case (Inl e)
    with q assms(1,2) bind_values_not_sql [OF Inl] show ?thesis by (simp add: try_except_def)
  next
    case (Inr u)
    with q assms(1,2) show ?thesis by (simp add: try_except_def)
  qed
qed

section \<open>Creating and checking a plain schema\<close>

text \<open>
  \<open>_initialize_schema\<close> of the repositories without a schema version. \<open>CREATE TABLE\<close> is not
  part of a transaction in the \<open>sqlite3\<close> module, so it is not undone by a later raise.
\<close>

definition init_table ::
  "exn_class \<Rightarrow> string \<Rightarrow> string \<Rightarrow> pystr \<Rightarrow> column_definition list \<Rightarrow> pystr list list \<Rightarrow> path \<Rightarrow>
   (dbhost, unit) io" where
  "init_table cls unsupported failed n cols unique p =
     try_except
       (seq (ensure_owner_only_database_file p)
         (connection p
           (seq (create_table_if_absent n (create cols unique))
           (bind (pragma_table_info n) (\<lambda>definition'.
              lift (raise_if (definition' \<noteq> cols) (err cls unsupported)))))))
       (\<lambda>e. \<not> catches cls e \<and> catches_any [DatabasePermissionError, SqliteError] e)
       (\<lambda>_. raise (err cls failed))"

text \<open>No table of an existing file is changed, whatever the outcome.\<close>

definition tables_kept :: "path \<Rightarrow> dbhost \<Rightarrow> dbhost \<Rightarrow> bool" where
  "tables_kept p h h' \<longleftrightarrow> (\<forall>q. q \<noteq> p \<longrightarrow> h_files h' q = h_files h q)
     \<and> (\<forall>n t. table_at h p n = Some t \<longrightarrow> table_at h' p n = Some t)"

lemma only_db_files: "only_db p h h' \<Longrightarrow> q \<noteq> p \<Longrightarrow> h_files h' q = h_files h q"
  by (simp add: only_db_def)

lemma secured_table_at:
  assumes "\<forall>n. h_files h p = Some n \<longrightarrow> h_files h' p = Some n
         \<or> (\<exists>m c. n = Regular m c \<and> h_files h' p = Some (Regular 0x180 c))"
  shows "table_at h p n = Some t \<Longrightarrow> table_at h' p n = Some t"
  using assms by (auto simp: table_at_def db_at_def split: option.splits node.splits sum.splits)

text \<open>The statements of the check, on an open connection.\<close>

lemma init_statements_run:
  assumes "seq (create_table_if_absent n (create cols unique))
      (bind (pragma_table_info n) (\<lambda>definition'.
         lift (raise_if (definition' \<noteq> cols) e))) c = (r, c')"
    and up: "\<forall>(n, ty, x) \<in> set cols. upper ty = ty"
  shows "(c_faults c = [] \<longrightarrow> c_faults c' = [])
    \<and> (\<forall>n'. n' \<noteq> n \<longrightarrow> map_of (db_tables (c_db c')) n' = map_of (db_tables (c_db c)) n')
    \<and> (\<forall>t. map_of (db_tables (c_db c)) n = Some t \<longrightarrow> map_of (db_tables (c_db c')) n = Some t)
    \<and> (case r of Inl e' \<Rightarrow> e' = e \<or> e' = sql_error
       | Inr _ \<Rightarrow> \<exists>t. map_of (db_tables (c_db c')) n = Some t \<and> table_info t = cols
           \<and> (map_of (db_tables (c_db c)) n = None \<longrightarrow> t = create cols unique))"
proof -
  obtain q c1 where q: "create_table_if_absent n (create cols unique) c = (q, c1)" by fastforce
  from execute_run [OF q [unfolded create_table_if_absent_def]]
  have 1: "(q = Inl sql_error \<and> c_db c1 = c_db c \<or> q = Inr () \<and>
      (\<forall>n'. n' \<noteq> n \<longrightarrow> map_of (db_tables (c_db c1)) n' = map_of (db_tables (c_db c)) n')
      \<and> map_of (db_tables (c_db c1)) n = Some (case map_of (db_tables (c_db c)) n of
           Some t \<Rightarrow> t | None \<Rightarrow> create cols unique))"
    "c_faults c = [] \<longrightarrow> c_faults c1 = []"
    by (auto split: option.splits simp: map_add_def)
  show ?thesis
  proof (cases q)
    case (Inl e')
    with assms(1) q have "r = Inl e'" "c' = c1" by (simp_all add: seq_apply)
    with 1 Inl show ?thesis by auto
  next
    case (Inr u)
    obtain d c2 where d: "pragma_table_info n c1 = (d, c2)" by fastforce
    from execute_run [OF d [unfolded pragma_table_info_def]]
    have 2: "c_db c2 = c_db c1" "c_faults c1 = [] \<longrightarrow> c_faults c2 = []"
      "d = Inl sql_error \<or> d = Inr (case map_of (db_tables (c_db c1)) n of
          None \<Rightarrow> [] | Some t \<Rightarrow> table_info t)" by auto
    from assms(1) q Inr d have r: "c' = c2" "r = (case d of Inl x \<Rightarrow> Inl x
        | Inr i \<Rightarrow> if i \<noteq> cols then Inl e else Inr ())"
      by (auto simp: seq_apply bind_apply raise_if_def split: sum.splits)
    show ?thesis
      using 1 2 r Inr table_info_made [OF up] by (auto simp: create_made split: option.splits)
  qed
qed

lemma ensured_tables:
  assumes "ensure_owner_only_database_file p h = (Inr (), h')"
  shows "table_at h' p n = table_at h p n"
proof -
  note ens = ensure_database_file_run [OF assms]
  from ens obtain c where c: "h_files h' p = Some (Regular 0x180 c)"
    "h_files h p = None \<longrightarrow> c = Bytes []" by auto
  with ens have "\<forall>k. h_files h p = Some k \<longrightarrow> (\<exists>m. k = Regular m c)" by auto
  note c = c this
  show ?thesis
  proof (cases "h_files h p")
    case None
    with c show ?thesis by (simp add: table_at_def db_at_def empty_db_def)
  next
    case (Some k)
    with c show ?thesis by (auto simp: table_at_def db_at_def)
  qed
qed

lemma connection_unloadable:
  assumes "connection p m h = (r, h')" "h_files h p = Some (Regular k c)" "load_content c = Inl e"
  shows "h_files h' = h_files h \<and> (\<exists>e'. r = Inl e' \<and> exn_class e' = SqliteError)"
proof -
  have e: "exn_class e = SqliteError" using assms(3) by (cases c) (auto split: if_splits)
  obtain q h1 where q: "open_db p h = (q, h1)" by fastforce
  then have "h_files h1 = h_files h \<and> (\<exists>e'. q = Inl e' \<and> exn_class e' = SqliteError)"
    using assms(2,3) e
    by (auto simp: open_db_def faultable_eq follow_regular sql_error_def)
  with q assms(1) show ?thesis by (auto simp: connection_def with_db_def bind_apply)
qed

lemma init_table_run:
  assumes "init_table cls unsupported failed n cols unique p h = (r, h')"
    and up: "\<forall>(n, ty, x) \<in> set cols. upper ty = ty"
    and cls: "base_class SqliteError \<noteq> Some cls" "cls \<noteq> SqliteError"
      "cls \<noteq> DatabasePermissionError" "base_class DatabasePermissionError \<noteq> Some cls"
  shows "tables_kept p h h' \<and> (case r of
      Inl e \<Rightarrow> e = err cls unsupported \<or> e = err cls failed
    | Inr _ \<Rightarrow> (\<exists>c. h_files h' p = Some (Regular 0x180 c))
        \<and> (\<forall>n'. n' \<noteq> n \<longrightarrow> table_at h' p n' = table_at h p n')
        \<and> (\<exists>t. table_at h' p n = Some t \<and> table_info t = cols
            \<and> (table_at h p n = Some t \<or> table_at h p n = None \<and> t = create cols unique)))"
proof -
  let ?stmts = "seq (create_table_if_absent n (create cols unique))
      (bind (pragma_table_info n) (\<lambda>definition'.
         lift (raise_if (definition' \<noteq> cols) (err cls unsupported))))"
  let ?final = "\<lambda>e. if \<not> catches cls e \<and> catches_any [DatabasePermissionError, SqliteError] e
      then err cls failed else e"
  obtain q h1 where q: "ensure_owner_only_database_file p h = (q, h1)" by fastforce
  note ens = ensure_database_file_run [OF q]
  have kept1: "tables_kept p h h1"
    using ens secured_table_at [of h p h1] by (auto simp: tables_kept_def)
  show ?thesis
  proof (cases q)
    case (Inl e)
    with q assms(1) have "r = Inl (?final e)" "h' = h1"
      by (auto simp: init_table_def try_except_def seq_apply split: if_splits)
    moreover have "?final e = err cls failed"
      using ens Inl cls by (auto simp: permission_error_def not_regular_def)
    ultimately show ?thesis using kept1 by simp
  next
    case (Inr u)
    with q have ok: "ensure_owner_only_database_file p h = (Inr (), h1)" by simp
    from ens Inr obtain c where c: "h_files h1 p = Some (Regular 0x180 c)" by auto
    note same = ensured_tables [OF ok]
    obtain v h2 where v: "connection p ?stmts h1 = (v, h2)" by fastforce
    with assms(1) q Inr have r: "h' = h2" "r = (case v of Inl e \<Rightarrow> Inl (?final e) | Inr x \<Rightarrow> Inr ())"
      by (auto simp: init_table_def try_except_def seq_apply split: sum.splits if_splits)
    show ?thesis
    proof (cases "load_content c")
      case (Inl e)
      from connection_unloadable [OF v c Inl] obtain e' where e':
        "h_files h2 = h_files h1" "v = Inl e'" "exn_class e' = SqliteError" by auto
      with r kept1 cls show ?thesis
        by (auto simp: tables_kept_def table_at_def db_at_def catches_def)
    next
      case (Inr d)
      with c have d: "db_at h1 p = Some d" by (simp add: db_at_Some)
      from v [unfolded connection_def] d show ?thesis
      proof (cases rule: with_db_run)
        case unopened
        with r d kept1 cls show ?thesis
          by (auto simp: tables_kept_def table_at_def sql_error_def only_db_def)
      next
        case (ran fs c1)
        note st = init_statements_run [OF ran(1) up]
        have od: "only_db p h1 h2" using ran(4) st by simp
        have t2: "table_at h2 p n' = map_of (db_tables (c_db c1)) n'" for n'
          using ran(3) by (simp add: table_at_def)
        have t1: "table_at h1 p n' = map_of (db_tables d) n'" for n'
          using d by (simp add: table_at_def)
        have "h_files h2 q' = h_files h q'" if "q' \<noteq> p" for q'
          using kept1 od that by (simp add: tables_kept_def only_db_def)
        moreover have "table_at h2 p n' = Some t" if "table_at h p n' = Some t" for n' t
          using st that t1 [of n'] t2 [of n'] same [of n'] by (cases "n' = n") simp_all
        ultimately have kept: "tables_kept p h h2" unfolding tables_kept_def by blast
        have mode: "\<exists>c. h_files h2 p = Some (Regular 0x180 c)"
          using od c by (simp add: only_db_def)
        show ?thesis
        proof (cases v)
          case (Inl e)
          with st have "e = err cls unsupported \<or> e = sql_error" by simp
          then have "?final e = err cls unsupported \<or> ?final e = err cls failed"
            using cls by (auto simp: sql_error_def)
          with Inl r kept show ?thesis by simp
        next
          case (Inr x)
          with st obtain t where t: "map_of (db_tables (c_db c1)) n = Some t" "table_info t = cols"
            "map_of (db_tables d) n = None \<longrightarrow> t = create cols unique"
            "\<forall>t'. map_of (db_tables d) n = Some t' \<longrightarrow> t' = t" by auto
          have "\<forall>n'. n' \<noteq> n \<longrightarrow> table_at h' p n' = table_at h p n'"
            using st t1 t2 same r by simp
          moreover have "\<exists>t. table_at h' p n = Some t \<and> table_info t = cols
            \<and> (table_at h p n = Some t \<or> table_at h p n = None \<and> t = create cols unique)"
            using t t1 [of n] t2 [of n] same [of n] r(1)
            by (cases "map_of (db_tables d) n") auto
          ultimately show ?thesis using Inr r kept mode by simp
        qed
      qed
    qed
  qed
qed

end
