(* ===== verification/Store.thy ===== *)
theory Store
  imports Sqlite Domain
begin

text \<open>
  The interface the tools and the service rely on: a store of records that are put once and
  found by a key. The laws say what a lookup returns after a put, that a failed put changes
  nothing, and that lookups change nothing; each repository interprets the locale on its own
  operations.
\<close>

locale keyed_store =
  fixes put :: "'x \<Rightarrow> (dbhost, unit) io"
    and get :: "'k \<Rightarrow> (dbhost, 'v) io"
    and key :: "'x \<Rightarrow> 'k"
    and view :: "dbhost \<Rightarrow> 'k \<Rightarrow> 'v res"
    and none :: "'v res"
    and found :: "'x \<Rightarrow> 'v res"
    and ready :: "dbhost \<Rightarrow> bool"
    and db_file :: path
  assumes get_view: "ready h \<Longrightarrow> get k h = (r, h') \<Longrightarrow>
      ready h' \<and> view h' = view h \<and> only_db db_file h h' \<and> (r = view h k \<or> isl r \<and> h_faults h \<noteq> [])"
    and put_ok: "ready h \<Longrightarrow> put x h = (Inr (), h') \<Longrightarrow> view h (key x) = none \<Longrightarrow>
      ready h' \<and> view h' = (view h)(key x := found x)"
    and put_fail: "ready h \<Longrightarrow> put x h = (Inl e, h') \<Longrightarrow> ready h' \<and> view h' = view h"
    and put_frame: "ready h \<Longrightarrow> put x h = (s, h') \<Longrightarrow> \<forall>q. q \<noteq> db_file \<longrightarrow> h_files h' q = h_files h q"
begin

text \<open>A successful put is found by every later lookup that no fault of the host prevents.\<close>

lemma put_get:
  assumes "ready h" "view h (key x) = none" "put x h = (Inr (), h1)" "get (key x) h1 = (r, h2)"
    "h_faults h1 = []"
  shows "r = found x"
  using put_ok [OF assms(1,3,2)] get_view [of h1 "key x" r h2] assms(4,5) by auto

text \<open>Lookups of other keys do not see it.\<close>

lemma put_get_other:
  assumes "ready h" "view h (key x) = none" "put x h = (Inr (), h1)" "k \<noteq> key x"
  shows "view h1 k = view h k"
  using put_ok [OF assms(1,3,2)] assms(4) by simp

primrec put_all :: "'x list \<Rightarrow> (dbhost, unit) io" where
  "put_all [] = ret ()"
| "put_all (x # xs) = seq (put x) (put_all xs)"

lemma put_all_view:
  assumes "put_all xs h = (Inr (), h')" "ready h" "distinct (map key xs)"
    "\<forall>x \<in> set xs. view h (key x) = none"
  shows "ready h' \<and> (\<forall>x \<in> set xs. view h' (key x) = found x)
    \<and> (\<forall>k. k \<notin> key ` set xs \<longrightarrow> view h' k = view h k)"
  using assms
proof (induction xs arbitrary: h)
  case (Cons x xs)
  then obtain h1 where h1: "put x h = (Inr (), h1)" "put_all xs h1 = (Inr (), h')"
    by (auto simp: seq_eq_iff)
  have p: "ready h1" "view h1 = (view h)(key x := found x)"
    using put_ok [OF Cons.prems(2) h1(1)] Cons.prems(4) by simp_all
  have "\<forall>y \<in> set xs. key y \<noteq> key x" using Cons.prems(3) by (auto simp: image_iff)
  then have "\<forall>y \<in> set xs. view h1 (key y) = none" using p(2) Cons.prems(4) by simp
  with Cons.IH [OF h1(2) p(1)] Cons.prems(3) p(2) show ?case by auto
qed simp

end

lemma sort_key_Nil_iff [simp]: "sort_key f xs = [] \<longleftrightarrow> xs = []"
  by (metis length_0_conv length_sort)

text \<open>The two extended result codes of a duplicate key.\<close>

definition is_duplicate :: "exn \<Rightarrow> bool" where
  "is_duplicate e \<longleftrightarrow> catches SqliteIntegrityError e
     \<and> startswith (exn_message e) (lit ''UNIQUE constraint failed'')"

text \<open>
  The parts the plain repositories have in common: one insertion that turns a duplicate key
  into the repository's error, and one query.
\<close>

definition store_row ::
  "exn \<Rightarrow> exn \<Rightarrow> path \<Rightarrow> pystr \<Rightarrow> pystr list \<Rightarrow> sqlval list \<Rightarrow> (dbhost, unit) io" where
  "store_row duplicate failed p n cols vals =
     try_except (transaction p (insert_into n cols vals)) (catches SqliteError)
       (\<lambda>e. if is_duplicate e then raise duplicate else raise failed)"

definition query_rows ::
  "exn \<Rightarrow> path \<Rightarrow> pystr \<Rightarrow> pystr list \<Rightarrow> (pystr \<times> sqlval) list \<Rightarrow> pystr option \<Rightarrow>
   (dbhost, row list) io" where
  "query_rows failed p n cols conds order =
     try_except (connection p (select n cols conds order)) (catches SqliteError)
       (\<lambda>_. raise failed)"

text \<open>The table \<open>n\<close> of the file \<open>p\<close> as the program creates it, with the given rows.\<close>

definition table_rows ::
  "pystr \<Rightarrow> column_definition list \<Rightarrow> pystr list list \<Rightarrow> path \<Rightarrow> dbhost \<Rightarrow> row list \<Rightarrow> bool" where
  "table_rows n cols uq p h rows \<longleftrightarrow> table_at h p n = Some (made cols uq rows)
     \<and> (\<forall>r \<in> set rows. length r = length cols)"

definition stored_rows :: "path \<Rightarrow> pystr \<Rightarrow> dbhost \<Rightarrow> row list" where
  "stored_rows p n h = (case table_at h p n of None \<Rightarrow> [] | Some t \<Rightarrow> tb_rows t)"

lemma stored_rows [simp]: "table_rows n cols uq p h rows \<Longrightarrow> stored_rows p n h = rows"
  by (simp add: stored_rows_def table_rows_def)

lemma query_rows_run:
  assumes "table_rows n cols uq p h rows" "distinct (map fst cols)"
    "\<forall>(i, v) \<in> set conds. i < length cols"
  shows "query_rows e0 p n (map fst cols) (conds_on cols conds) None h = (q, h') \<Longrightarrow>
      only_db p h h' \<and> (\<forall>n'. table_at h' p n' = table_at h p n')
      \<and> (q = thenR (bind_values (map snd conds)) (Inr (rows_where conds rows))
         \<or> q = Inl e0 \<and> h_faults h \<noteq> [])"
    "query_rows e0 p n (map fst cols) (conds_on cols conds) (Some (fst (cols ! k))) h = (q, h') \<Longrightarrow>
      k < length cols \<Longrightarrow> only_db p h h' \<and> (\<forall>n'. table_at h' p n' = table_at h p n')
      \<and> (q = thenR (bind_values (map snd conds)) (Inr (sort_key (\<lambda>r. r ! k) (rows_where conds rows)))
         \<or> q = Inl e0 \<and> h_faults h \<noteq> [])"
proof -
  from assms(1) have t: "table_at h p n = Some (made cols uq rows)"
    "\<forall>r \<in> set rows. length r = length cols" by (simp_all add: table_rows_def)
  {
    let ?m = "connection p (select n (map fst cols) (conds_on cols conds) None)"
    assume a: "query_rows e0 p n (map fst cols) (conds_on cols conds) None h = (q, h')"
    obtain q1 h1 where q1: "?m h = (q1, h1)" by fastforce
    note m = select_made(1) [OF t(1) assms(2) t(2) assms(3) q1]
    from try_query [OF a [unfolded query_rows_def] q1] m
    show "only_db p h h' \<and> (\<forall>n'. table_at h' p n' = table_at h p n')
      \<and> (q = thenR (bind_values (map snd conds)) (Inr (rows_where conds rows))
         \<or> q = Inl e0 \<and> h_faults h \<noteq> [])" by blast
  }
  let ?m = "connection p (select n (map fst cols) (conds_on cols conds) (Some (fst (cols ! k))))"
  assume k: "k < length cols"
    and a: "query_rows e0 p n (map fst cols) (conds_on cols conds) (Some (fst (cols ! k))) h = (q, h')"
  obtain q1 h1 where q1: "?m h = (q1, h1)" by fastforce
  note m = select_made(2) [OF t(1) assms(2) t(2) assms(3) q1 k]
  from try_query [OF a [unfolded query_rows_def] q1] m
  show "only_db p h h' \<and> (\<forall>n'. table_at h' p n' = table_at h p n')
      \<and> (q = thenR (bind_values (map snd conds)) (Inr (sort_key (\<lambda>r. r ! k) (rows_where conds rows)))
         \<or> q = Inl e0 \<and> h_faults h \<noteq> [])" by blast
qed

lemma store_row_run:
  assumes "table_rows n cols [[fst (cols ! 0)]] p h rows" "distinct (map fst cols)"
    "length vals = length cols" "SqlNull \<notin> set vals" "cols \<noteq> []"
    "store_row duplicate failed p n (map fst cols) vals h = (q, h')"
  shows "only_db p h h' \<and> (\<forall>n'. n' \<noteq> n \<longrightarrow> table_at h' p n' = table_at h p n')
    \<and> (q = Inr () \<and> bind_values vals = Inr () \<and> (\<forall>r \<in> set rows. \<not> sql_eq (vals ! 0) (r ! 0))
        \<and> table_rows n cols [[fst (cols ! 0)]] p h' (rows @ [vals])
      \<or> (\<exists>e. q = Inl e \<and> table_rows n cols [[fst (cols ! 0)]] p h' rows
          \<and> (e = failed \<and> h_faults h \<noteq> [] \<or> bind_values vals = Inl e
             \<or> e = duplicate \<and> (\<exists>r \<in> set rows. sql_eq (vals ! 0) (r ! 0)))))"
proof -
  from assms(1) have t: "table_at h p n = Some (made cols [[fst (cols ! 0)]] rows)"
    "\<forall>r \<in> set rows. length r = length cols" by (simp_all add: table_rows_def)
  obtain q1 h1 where q1: "transaction p (insert_into n (map fst cols) vals) h = (q1, h1)" by fastforce
  have u: "unique_violation (made cols [[fst (cols ! 0)]] rows) vals =
    (if \<exists>r' \<in> set rows. sql_eq (vals ! 0) (r' ! 0) then Some [fst (cols ! 0)] else None)"
    using t(2) assms(3,5) by (intro unique_violation_key [OF assms(2)]) auto
  from insert_made [OF q1 t(1) assms(2-4)] have i: "only_db p h h1"
    "\<forall>n'. n' \<noteq> n \<longrightarrow> table_at h1 p n' = table_at h p n'"
    "q1 = Inr () \<and> bind_values vals = Inr () \<and> (\<forall>r \<in> set rows. \<not> sql_eq (vals ! 0) (r ! 0))
        \<and> table_at h1 p n = Some (made cols [[fst (cols ! 0)]] (rows @ [vals]))
      \<or> (\<exists>e. q1 = Inl e \<and> table_at h1 p n = Some (made cols [[fst (cols ! 0)]] rows)
          \<and> (e = sql_error \<and> h_faults h \<noteq> [] \<or> bind_values vals = Inl e
             \<or> (\<exists>r \<in> set rows. sql_eq (vals ! 0) (r ! 0))
               \<and> e = constraint_failed ''UNIQUE'' n [fst (cols ! 0)]))"
    unfolding u by (auto split: if_splits)
  from i(3) show ?thesis
  proof (elim disjE exE conjE)
    assume "q1 = Inr ()" "bind_values vals = Inr ()" "\<forall>r \<in> set rows. \<not> sql_eq (vals ! 0) (r ! 0)"
      "table_at h1 p n = Some (made cols [[fst (cols ! 0)]] (rows @ [vals]))"
    with assms(3,6) q1 t(2) i(1,2) show ?thesis
      by (auto simp: store_row_def try_except_def table_rows_def)
  next
    fix e assume "q1 = Inl e" "table_at h1 p n = Some (made cols [[fst (cols ! 0)]] rows)"
      "e = sql_error" "h_faults h \<noteq> []"
    with assms(6) q1 t(2) i(1,2) show ?thesis
      by (auto simp: store_row_def try_except_def table_rows_def sql_error_def is_duplicate_def)
  next
    fix e assume *: "q1 = Inl e" "table_at h1 p n = Some (made cols [[fst (cols ! 0)]] rows)"
      "bind_values vals = Inl e"
    with assms(6) q1 bind_values_not_sql [OF *(3)] have "q = Inl e" "h' = h1"
      by (auto simp: store_row_def try_except_def)
    with * t(2) i(1,2) show ?thesis by (auto simp: table_rows_def)
  next
    fix e assume "q1 = Inl e" "table_at h1 p n = Some (made cols [[fst (cols ! 0)]] rows)"
      "\<exists>r \<in> set rows. sql_eq (vals ! 0) (r ! 0)" "e = constraint_failed ''UNIQUE'' n [fst (cols ! 0)]"
    with assms(6) q1 t(2) i(1,2) show ?thesis
      by (auto simp: store_row_def try_except_def table_rows_def is_duplicate_def catches_def)
  qed
qed

text \<open>Stored flags: \<open>int(flag)\<close>, and \<open>row[i] in (0, 1)\<close> with \<open>bool(row[i])\<close>.\<close>

definition flag_value :: "bool \<Rightarrow> sqlval" where
  "flag_value b = SqlInt (if b then 1 else 0)"

fun flag_of :: "sqlval \<Rightarrow> bool option" where
  "flag_of (SqlInt i) = (if i = 0 then Some False else if i = 1 then Some True else None)"
| "flag_of _ = None"

lemma flag_of_value [simp]: "flag_of (flag_value b) = Some b"
  by (simp add: flag_value_def)

lemma bind_flag [simp]: "bind_value (flag_value b) = Inr ()"
  by (simp add: flag_value_def)

lemma flag_not_null [simp]: "flag_value b \<noteq> SqlNull"
  by (simp add: flag_value_def)

text \<open>A query of some of the columns, given by their positions.\<close>

lemma query_columns_run:
  assumes "table_rows n cols uq p h rows" "distinct (map fst cols)"
    "\<forall>(i, v) \<in> set conds. i < length cols" "\<forall>i \<in> set is. i < length cols"
    "query_rows e0 p n (map (\<lambda>i. fst (cols ! i)) is) (conds_on cols conds) None h = (q, h')"
  shows "only_db p h h' \<and> (\<forall>n'. table_at h' p n' = table_at h p n')
      \<and> (q = thenR (bind_values (map snd conds))
               (Inr (map (\<lambda>r. map ((!) r) is) (rows_where conds rows)))
         \<or> q = Inl e0 \<and> h_faults h \<noteq> [])"
proof -
  from assms(1) have t: "table_at h p n = Some (made cols uq rows)"
    "\<forall>r \<in> set rows. length r = length cols" by (simp_all add: table_rows_def)
  let ?names = "map (\<lambda>i. fst (cols ! i)) is" and ?conds = "conds_on cols conds"
  have sel: "selection (made cols uq rows) ?names ?conds None
      = map (\<lambda>r. map ((!) r) is) (rows_where conds rows)"
    using filter_conds_on [OF assms(2) t(2) assms(3), of uq rows] assms(2,4) t(2)
    by (auto simp: selection_def field_made rows_where_def)
  have cols: "set (?names @ map fst ?conds) \<subseteq> set (column_names (made cols uq rows))"
    using assms(3,4) by (auto simp: conds_on_def)
  have vals: "map snd ?conds = map snd conds" by (simp add: conds_on_def case_prod_unfold)
  obtain q1 h1 where q1: "connection p (select n ?names ?conds None) h = (q1, h1)" by fastforce
  note m = connection_select [OF q1 t(1) cols, unfolded sel vals]
  from try_query [OF assms(5) [unfolded query_rows_def] q1] m show ?thesis by blast
qed

text \<open>A query on an existing database leaves every file as it was.\<close>

lemma query_keeps_files:
  assumes "query_rows failed p n cols conds order h = (r, h')" "db_at h p = Some d"
  shows "same_files h h'"
proof -
  obtain q h1 where q: "open_db p h = (q, h1)" by fastforce
  from open_db_run [OF q assms(2)] obtain fs where fs: "h1 = h\<lparr>h_faults := fs\<rparr>"
    "q = Inr (p, d) \<or> q = Inl sql_error" by blast
  from assms(1) obtain x where x: "connection p (select n cols conds order) h = (x, h')"
    by (cases "connection p (select n cols conds order) h")
      (auto simp: query_rows_def try_except_def split: sum.splits if_splits)
  show ?thesis
  proof (cases "q = Inr (p, d)")
    case False
    with fs q x show ?thesis by (auto simp: connection_def with_db_def bind_apply)
  next
    case True
    obtain y c where c: "select n cols conds order \<lparr>c_db = d, c_faults = fs\<rparr> = (y, c)" by fastforce
    have "c_db c = d"
    proof (cases "bind_values (map snd conds)")
      case (Inl e)
      with c show ?thesis by (auto simp: select_def seq_apply)
    next
      case (Inr u)
      with c have "with_table n (cols @ map fst conds) (\<lambda>t. (Inr (selection t cols conds order), t))
          \<lparr>c_db = d, c_faults = fs\<rparr> = (y, c)"
        by (auto simp: select_def seq_apply selection_def)
      from execute_run [OF this [unfolded with_table_def]] show ?thesis
        by (auto simp: update_same split: option.splits if_splits)
    qed
    with x q True c fs(1) assms(2) show ?thesis
      by (auto simp: connection_def with_db_def bind_apply save_db_def db_at_Some split: sum.splits)
  qed
qed

section \<open>Schemas with a version\<close>

text \<open>
  \<open>_initialize_schema\<close> of the repositories that keep a version in \<open>PRAGMA user_version\<close>:
  everything after the file is secured is one transaction. \<open>validate\<close> and \<open>create'\<close> are the
  repository's \<open>_validate_existing_schema\<close> and \<open>_create_schema\<close>.
\<close>

definition init_versioned ::
  "exn_class \<Rightarrow> exn \<Rightarrow> string \<Rightarrow> pystr \<Rightarrow> (int \<Rightarrow> (conn, unit) io) \<Rightarrow> (conn, unit) io \<Rightarrow> path \<Rightarrow>
   (dbhost, unit) io" where
  "init_versioned cls unsupported failed n validate create' p =
     try_except
       (seq (ensure_owner_only_database_file p)
         (transaction p
           (seq (execute (\<lambda>db. (Inr (), db)))
           (bind pragma_user_version (\<lambda>version.
            bind (table_exists n) (\<lambda>exists.
              if exists then validate version
              else if version = 0 then create'
              else raise unsupported))))))
       (\<lambda>e. \<not> catches cls e \<and> catches_any [DatabasePermissionError, SqliteError] e)
       (\<lambda>_. raise (err cls failed))"

end
