(* ===== verification/Policy_Store.thy ===== *)
theory Policy_Store
  imports Store Policy
begin

text \<open>
  \<open>SQLitePolicyRepository\<close> (\<open>infrastructure/policy/sqlite_policy_repository.py\<close>).
\<close>

definition policies_table :: pystr where
  "policies_table = lit ''access_policies''"

definition policy_schema :: "column_definition list" where
  "policy_schema =
     [(lit ''id'', lit ''TEXT'', False, None, 1),
      (lit ''user_id'', lit ''TEXT'', True, None, 0),
      (lit ''target_id'', lit ''TEXT'', True, None, 0),
      (lit ''action'', lit ''TEXT'', True, None, 0),
      (lit ''effect'', lit ''TEXT'', True, None, 0)]"

definition policy_columns :: "pystr list" where
  "policy_columns = map fst policy_schema"

definition policy_init :: "path \<Rightarrow> (dbhost, unit) io" where
  "policy_init = init_table PolicyStorageError ''policy database schema is unsupported''
     ''policy database could not be initialized'' policies_table policy_schema [[lit ''id'']]"

definition policy_serialize :: "access_policy \<Rightarrow> row res" where
  "policy_serialize x =
     thenR (raise_if (blank (pol_id x) \<or> blank (pol_user_id x) \<or> blank (pol_target_id x))
              (err PolicyStorageError ''policy contains unsupported field values''))
     (Inr [SqlText (pol_id x), SqlText (pol_user_id x), SqlText (pol_target_id x),
           SqlText (action_value (pol_action x)), SqlText (effect_value (pol_effect x))])"

definition malformed_policy :: exn where
  "malformed_policy = err MalformedPolicyError ''matching policy contains invalid stored values''"

fun policy_deserialize :: "row \<Rightarrow> access_policy res" where
  "policy_deserialize [SqlText i, SqlText u, SqlText t, SqlText a, SqlText e] =
     catchR (bindR (action_of_value a) (\<lambda>action. bindR (effect_of_value e) (\<lambda>effect.
        mk_access_policy i u t action effect)))
       (catches_any [TypeError, ValueError]) (\<lambda>_. Inl malformed_policy)"
| "policy_deserialize _ = Inl malformed_policy"

definition policy_store :: "path \<Rightarrow> access_policy \<Rightarrow> (dbhost, unit) io" where
  "policy_store p x =
     bind (lift (policy_serialize x)) (\<lambda>vals.
     store_row (err DuplicatePolicyError ''policy id already exists'')
       (err PolicyStorageError ''policy could not be stored'')
       p policies_table policy_columns vals)"

text \<open>The columns of a query by their positions.\<close>

abbreviation policy_query :: "pystr \<Rightarrow> pystr \<Rightarrow> access_action \<Rightarrow> (nat \<times> sqlval) list" where
  "policy_query u t a \<equiv> [(Suc 0, SqlText u), (2, SqlText t), (3, SqlText (action_value a))]"

definition policy_find_matching ::
  "path \<Rightarrow> pystr \<Rightarrow> pystr \<Rightarrow> access_action \<Rightarrow> (dbhost, access_policy list) io" where
  "policy_find_matching p u t a =
     bind (query_rows (err PolicyStorageError ''policies could not be loaded'')
             p policies_table policy_columns
             [(lit ''user_id'', SqlText u), (lit ''target_id'', SqlText t),
              (lit ''action'', SqlText (action_value a))] (Some (lit ''id'')))
       (\<lambda>rows. lift (mapR policy_deserialize rows))"

section \<open>What is stored is found\<close>

abbreviation policy_rows :: "path \<Rightarrow> dbhost \<Rightarrow> row list \<Rightarrow> bool" where
  "policy_rows \<equiv> table_rows policies_table policy_schema [[lit ''id'']]"

definition policy_ready :: "path \<Rightarrow> dbhost \<Rightarrow> bool" where
  "policy_ready p h \<longleftrightarrow> (\<exists>rows. policy_rows p h rows)"

text \<open>What a query returns for the rows of the table.\<close>

definition policies_of :: "row list \<Rightarrow> pystr \<times> pystr \<times> access_action \<Rightarrow> access_policy list res" where
  "policies_of rows k = (case k of (u, t, a) \<Rightarrow>
     thenR (bind_values (map snd (policy_query u t a)))
       (mapR policy_deserialize (sort_key (\<lambda>r. r ! 0) (rows_where (policy_query u t a) rows))))"

definition policy_view ::
  "path \<Rightarrow> dbhost \<Rightarrow> pystr \<times> pystr \<times> access_action \<Rightarrow> access_policy list res" where
  "policy_view p h = policies_of (stored_rows p policies_table h)"

lemma policy_schema_facts [simp]:
  "distinct (map fst policy_schema)" "length policy_schema = 5" "policy_schema \<noteq> []"
  "fst (policy_schema ! 0) = lit ''id''"
  "conds_on policy_schema (policy_query u t a) =
     [(lit ''user_id'', SqlText u), (lit ''target_id'', SqlText t),
      (lit ''action'', SqlText (action_value a))]"
  "\<forall>(n, ty, x) \<in> set policy_schema. upper ty = ty"
  by (simp_all add: policy_schema_def conds_on_def upper_def lit_def)

lemma policy_find_matching_run:
  assumes "policy_rows p h rows" "policy_find_matching p u t a h = (r, h')"
  shows "only_db p h h' \<and> policy_rows p h' rows
    \<and> (r = policies_of rows (u, t, a) \<or> isl r \<and> h_faults h \<noteq> [])"
proof -
  obtain q h1 where q: "query_rows (err PolicyStorageError ''policies could not be loaded'')
      p policies_table policy_columns (conds_on policy_schema (policy_query u t a))
      (Some (lit ''id'')) h = (q, h1)" by fastforce
  from query_rows_run(2) [where k = 0 and conds = "policy_query u t a", OF assms(1) _ _ _] q
  have "only_db p h h1" "\<forall>n. table_at h1 p n = table_at h p n"
    "q = thenR (bind_values (map snd (policy_query u t a)))
       (Inr (sort_key (\<lambda>r. r ! 0) (rows_where (policy_query u t a) rows)))
     \<or> isl q \<and> h_faults h \<noteq> []"
    by (fastforce simp: policy_columns_def)+
  with assms q show ?thesis
    by (auto simp: policy_find_matching_def bind_apply policies_of_def thenR_def bindR_def
        table_rows_def split: sum.splits)
qed

lemma policy_serialize_Inr:
  "policy_serialize x = Inr vals \<longleftrightarrow> policy_ok x \<and>
     vals = [SqlText (pol_id x), SqlText (pol_user_id x), SqlText (pol_target_id x),
       SqlText (action_value (pol_action x)), SqlText (effect_value (pol_effect x))]"
  by (auto simp: policy_serialize_def policy_ok_def)

lemma policy_roundtrip:
  "policy_serialize x = Inr vals \<Longrightarrow> policy_deserialize vals = Inr x"
  by (auto simp: policy_serialize_Inr mk_access_policy_fields [of x, THEN iffD2])

lemma policy_store_run:
  assumes "policy_rows p h rows" "policy_store p x h = (q, h')"
  shows "only_db p h h' \<and> (\<forall>n. n \<noteq> policies_table \<longrightarrow> table_at h' p n = table_at h p n)
    \<and> (case q of
         Inr _ \<Rightarrow> \<exists>vals. policy_serialize x = Inr vals \<and> bind_values vals = Inr ()
           \<and> (\<forall>r \<in> set rows. r ! 0 \<noteq> SqlText (pol_id x)) \<and> policy_rows p h' (rows @ [vals])
       | Inl e \<Rightarrow> policy_rows p h' rows \<and>
           (h_faults h = [] \<longrightarrow> policy_serialize x = Inl e \<or>
             (\<exists>vals. policy_serialize x = Inr vals \<and> (bind_values vals = Inl e
              \<or> e = err DuplicatePolicyError ''policy id already exists''
                \<and> (\<exists>r \<in> set rows. r ! 0 = SqlText (pol_id x))))))"
proof (cases "policy_serialize x")
  case (Inl e)
  with assms show ?thesis by (auto simp: policy_store_def)
next
  case (Inr vals)
  then have v: "length vals = length policy_schema" "SqlNull \<notin> set vals" "vals ! 0 = SqlText (pol_id x)"
    by (auto simp: policy_serialize_Inr)
  from assms(2) Inr have "store_row (err DuplicatePolicyError ''policy id already exists'')
       (err PolicyStorageError ''policy could not be stored'')
       p policies_table (map fst policy_schema) vals h = (q, h')"
    by (simp add: policy_store_def policy_columns_def)
  moreover have "table_rows policies_table policy_schema [[fst (policy_schema ! 0)]] p h rows"
    using assms(1) by simp
  ultimately show ?thesis using store_row_run [OF _ _ v(1,2)] Inr v(3)
    by (fastforce split: sum.splits)
qed

definition policy_key :: "access_policy \<Rightarrow> pystr \<times> pystr \<times> access_action" where
  "policy_key x = (pol_user_id x, pol_target_id x, pol_action x)"

lemma policy_row_matches:
  "policy_serialize x = Inr vals \<Longrightarrow>
     list_all (\<lambda>(i, v). sql_eq (vals ! i) v) (policy_query u t a) \<longleftrightarrow> policy_key x = (u, t, a)"
  by (cases "pol_action x"; cases a) (auto simp: policy_serialize_Inr policy_key_def)

lemma mapR_Nil [simp]: "mapR f xs = Inr [] \<longleftrightarrow> xs = []"
  by (auto simp: mapR_Inr_iff)

lemma thenR_bind_query:
  "policy_serialize x = Inr vals \<Longrightarrow> bind_values vals = Inr () \<Longrightarrow> policy_key x = (u, t, a) \<Longrightarrow>
     bind_values (map snd (policy_query u t a)) = Inr ()"
  by (auto simp: policy_serialize_Inr policy_key_def)

lemma policies_of_append:
  assumes "policy_serialize x = Inr vals" "bind_values vals = Inr ()"
    "policies_of rows (policy_key x) = Inr []"
  shows "policies_of (rows @ [vals]) = (policies_of rows)(policy_key x := Inr [x])"
proof
  fix k :: "pystr \<times> pystr \<times> access_action"
  obtain u t a where k: "k = (u, t, a)" by (cases k)
  note m = policy_row_matches [OF assms(1), of u t a]
  show "policies_of (rows @ [vals]) k = ((policies_of rows)(policy_key x := Inr [x])) k"
  proof (cases "policy_key x = k")
    case False
    with m k have "rows_where (policy_query u t a) (rows @ [vals])
        = rows_where (policy_query u t a) rows" by auto
    moreover have "(u, t, a) \<noteq> policy_key x" using False k by simp
    ultimately show ?thesis using k
      by (simp only: policies_of_def fun_upd_apply prod.case if_False)
  next
    case True
    from thenR_bind_query [OF assms(1,2)] True k
    have b: "bind_values (map snd (policy_query u t a)) = Inr ()" by simp
    with assms(3) True k have "rows_where (policy_query u t a) rows = []"
      by (simp add: policies_of_def)
    with m True k b policy_roundtrip [OF assms(1)] show ?thesis
      unfolding policies_of_def by (simp add: rows_where_append)
  qed
qed

text \<open>The repository is a keyed store of policies.\<close>

interpretation policies: keyed_store "policy_store p" "\<lambda>(u, t, a). policy_find_matching p u t a"
  policy_key "policy_view p" "Inr []" "\<lambda>x. Inr [x]" "policy_ready p" p
  for p
proof
  fix h h' :: dbhost and k r
  assume "policy_ready p h" "(case k of (u, t, a) \<Rightarrow> policy_find_matching p u t a) h = (r, h')"
  then obtain rows u t a where "policy_rows p h rows" "policy_find_matching p u t a h = (r, h')"
    "k = (u, t, a)" by (cases k) (auto simp: policy_ready_def)
  with policy_find_matching_run show "policy_ready p h' \<and> policy_view p h' = policy_view p h
      \<and> only_db p h h' \<and> (r = policy_view p h k \<or> isl r \<and> h_faults h \<noteq> [])"
    by (fastforce simp: policy_ready_def policy_view_def)
next
  fix h h' :: dbhost and x
  assume "policy_ready p h" "policy_store p x h = (Inr (), h')" "policy_view p h (policy_key x) = Inr []"
  then obtain rows where "policy_rows p h rows" "policy_store p x h = (Inr (), h')"
    "policies_of rows (policy_key x) = Inr []" by (auto simp: policy_ready_def policy_view_def)
  with policy_store_run [of p h rows x "Inr ()" h'] policies_of_append
  show "policy_ready p h' \<and> policy_view p h' = (policy_view p h)(policy_key x := Inr [x])"
    by (auto simp: policy_ready_def policy_view_def)
next
  fix h h' :: dbhost and x e
  assume "policy_ready p h" "policy_store p x h = (Inl e, h')"
  with policy_store_run show "policy_ready p h' \<and> policy_view p h' = policy_view p h"
    by (fastforce simp: policy_ready_def policy_view_def)
next
  fix h h' :: dbhost and x s
  assume "policy_ready p h" "policy_store p x h = (s, h')"
  with policy_store_run show "\<forall>q. q \<noteq> p \<longrightarrow> h_files h' q = h_files h q"
    by (fastforce simp: policy_ready_def only_db_def)
qed

definition policy_row :: "access_policy \<Rightarrow> row" where
  "policy_row x = [SqlText (pol_id x), SqlText (pol_user_id x), SqlText (pol_target_id x),
     SqlText (action_value (pol_action x)), SqlText (effect_value (pol_effect x))]"

lemma policy_row_roundtrip: "policy_ok x \<Longrightarrow> policy_deserialize (policy_row x) = Inr x"
  by (rule policy_roundtrip) (simp add: policy_serialize_Inr policy_row_def)

lemma rows_where_policies:
  "list_all policy_ok ps \<Longrightarrow> rows_where (policy_query u t a) (map policy_row ps)
     = map policy_row (filter (\<lambda>x. policy_key x = (u, t, a)) ps)"
proof (induction ps)
  case (Cons x ps)
  then have "policy_serialize x = Inr (policy_row x)" by (simp add: policy_serialize_Inr policy_row_def)
  from policy_row_matches [OF this, of u t a] Cons show ?case by (simp add: rows_where_def)
qed (simp add: rows_where_def)

text \<open>
  The repository returns exactly the stored policies of the user, target and action of the
  query, in the order of their ids, as they were stored.
\<close>

theorem policies_found:
  assumes "table_at h p policies_table = Some (made policy_schema [[lit ''id'']] (map policy_row ps))"
    "list_all policy_ok ps" "list_all encodable u" "list_all encodable t" "h_faults h = []"
  shows "fst (policy_find_matching p u t a h)
    = Inr (sort_key pol_id (filter (\<lambda>x. policy_key x = (u, t, a)) ps))"
proof -
  let ?found = "filter (\<lambda>x. policy_key x = (u, t, a)) ps"
  have rows: "policy_rows p h (map policy_row ps)"
    using assms(1) by (simp add: table_rows_def policy_row_def)
  obtain r h' where r: "policy_find_matching p u t a h = (r, h')" by fastforce
  with policy_find_matching_run [OF rows r] assms(5)
  have "r = policies_of (map policy_row ps) (u, t, a)" by simp
  also have "\<dots> = mapR policy_deserialize (map policy_row (sort_key pol_id ?found))"
    using assms(3,4) rows_where_policies [OF assms(2)] sort_SqlText [of ?found "\<lambda>r. r ! 0" policy_row pol_id]
    by (simp add: policies_of_def action_value_def encodable_lit policy_row_def)
  also have "\<dots> = Inr (sort_key pol_id ?found)"
    using assms(2) mapR_map [of "sort_key pol_id ?found" policy_deserialize policy_row "\<lambda>x. x"]
    by (simp add: policy_row_roundtrip list_all_iff)
  finally show ?thesis using r by simp
qed

text \<open>A configuration database with an allowing and a denying policy of the same user.\<close>

definition policy_host :: dbhost where
  "policy_host = \<lparr>h_files = [[] \<mapsto> Directory 0x1C0,
       [lit ''c''] \<mapsto> Regular 0x180 (Db \<lparr>db_version = 0, db_tables =
         [(policies_table, made policy_schema [[lit ''id'']]
            (map policy_row [example_policy ''b'' ALLOW, example_policy ''a'' DENY]))]\<rparr>)],
     h_umask = 0x3F, h_entropy = [], h_faults = [], h_chunks = []\<rparr>"

theorem policies_found_witness:
  "fst (policy_find_matching [lit ''c''] (lit ''u'') (lit ''t'') OPEN_PRIVILEGED_SESSION policy_host)
     = Inr [example_policy ''a'' DENY, example_policy ''b'' ALLOW]"
proof -
  let ?ps = "[example_policy ''b'' ALLOW, example_policy ''a'' DENY]"
  have t: "table_at policy_host [lit ''c''] policies_table
      = Some (made policy_schema [[lit ''id'']] (map policy_row ?ps))"
    by (simp add: table_at_def db_at_def policy_host_def)
  have ok: "list_all policy_ok ?ps"
    by (simp add: policy_ok_def example_policy_def blank_iff py_isspace_def lit_def)
  from policies_found [OF t ok encodable_lit encodable_lit, of "''u''" "''t''" OPEN_PRIVILEGED_SESSION]
  show ?thesis by (simp add: policy_host_def example_policy_def policy_key_def lit_def)
qed

end
