(* ===== verification/Target_Store.thy ===== *)
theory Target_Store
  imports Store
begin

text \<open>
  \<open>SQLiteTargetRepository\<close> (\<open>infrastructure/config/sqlite_target_repository.py\<close>).
\<close>

definition targets_table :: pystr where
  "targets_table = lit ''targets''"

definition target_schema :: "column_definition list" where
  "target_schema =
     [(lit ''id'', lit ''TEXT'', False, None, 1),
      (lit ''name'', lit ''TEXT'', True, None, 0),
      (lit ''host'', lit ''TEXT'', True, None, 0),
      (lit ''port'', lit ''INTEGER'', True, None, 0),
      (lit ''expected_host_key'', lit ''TEXT'', True, None, 0),
      (lit ''enabled'', lit ''INTEGER'', True, None, 0)]"

definition target_columns :: "pystr list" where
  "target_columns = map fst target_schema"

definition target_init :: "path \<Rightarrow> (dbhost, unit) io" where
  "target_init = init_table ConfigStorageError ''target database schema is unsupported''
     ''target database could not be initialized'' targets_table target_schema [[lit ''id'']]"

definition target_row :: "target \<Rightarrow> row" where
  "target_row x = [SqlText (tgt_id x), SqlText (tgt_name x), SqlText (tgt_host x),
     SqlInt (tgt_port x), SqlText (hkf_value (tgt_expected_host_key x)), flag_value (tgt_enabled x)]"

definition target_serialize :: "target \<Rightarrow> row res" where
  "target_serialize x =
     thenR (raise_if (blank (tgt_id x) \<or> blank (tgt_name x) \<or> blank (tgt_host x)
              \<or> \<not> (1 \<le> tgt_port x \<and> tgt_port x \<le> 65535)
              \<or> \<not> startswith (hkf_value (tgt_expected_host_key x)) (lit ''SHA256:''))
              (err ConfigStorageError ''target contains unsupported field values''))
     (Inr (target_row x))"

definition malformed_target :: exn where
  "malformed_target = err MalformedTargetError ''target contains invalid stored values''"

fun target_deserialize :: "row \<Rightarrow> target res" where
  "target_deserialize [SqlText i, SqlText n, SqlText ho, SqlInt p, SqlText k, e] =
     (case flag_of e of
        None \<Rightarrow> Inl malformed_target
      | Some enabled \<Rightarrow>
          catchR (bindR (mk_host_key_fingerprint k) (\<lambda>key. mk_target i n ho p key enabled))
            (catches_any [TypeError, ValueError]) (\<lambda>_. Inl malformed_target))"
| "target_deserialize _ = Inl malformed_target"

definition target_store :: "path \<Rightarrow> target \<Rightarrow> (dbhost, unit) io" where
  "target_store p x =
     bind (lift (target_serialize x)) (\<lambda>vals.
     store_row (err DuplicateTargetError ''target id already exists'')
       (err ConfigStorageError ''target could not be stored'')
       p targets_table target_columns vals)"

definition target_get :: "path \<Rightarrow> pystr \<Rightarrow> (dbhost, target option) io" where
  "target_get p i =
     bind (query_rows (err ConfigStorageError ''target could not be loaded'')
             p targets_table target_columns [(lit ''id'', SqlText i)] None)
       (\<lambda>rows. case rows of
          [] \<Rightarrow> ret None
        | r # _ \<Rightarrow> lift (bindR (target_deserialize r) (\<lambda>x. Inr (Some x))))"

section \<open>What is stored is found\<close>

abbreviation target_rows :: "path \<Rightarrow> dbhost \<Rightarrow> row list \<Rightarrow> bool" where
  "target_rows \<equiv> table_rows targets_table target_schema [[lit ''id'']]"

definition target_ready :: "path \<Rightarrow> dbhost \<Rightarrow> bool" where
  "target_ready p h \<longleftrightarrow> (\<exists>rows. target_rows p h rows)"

definition target_of :: "row list \<Rightarrow> pystr \<Rightarrow> target option res" where
  "target_of rows i = thenR (bind_value (SqlText i))
     (case rows_where [(0, SqlText i)] rows of
        [] \<Rightarrow> Inr None
      | r # _ \<Rightarrow> bindR (target_deserialize r) (\<lambda>x. Inr (Some x)))"

definition target_view :: "path \<Rightarrow> dbhost \<Rightarrow> pystr \<Rightarrow> target option res" where
  "target_view p h = target_of (stored_rows p targets_table h)"

lemma target_schema_facts [simp]:
  "distinct (map fst target_schema)" "length target_schema = 6" "target_schema \<noteq> []"
  "fst (target_schema ! 0) = lit ''id''"
  "conds_on target_schema [(0, v)] = [(lit ''id'', v)]"
  "\<forall>(n, ty, x) \<in> set target_schema. upper ty = ty"
  by (simp_all add: target_schema_def conds_on_def upper_def lit_def)

lemma target_get_run:
  assumes "target_rows p h rows" "target_get p i h = (r, h')"
  shows "only_db p h h' \<and> target_rows p h' rows
    \<and> (r = target_of rows i \<or> isl r \<and> h_faults h \<noteq> [])"
proof -
  obtain q h1 where q: "query_rows (err ConfigStorageError ''target could not be loaded'')
      p targets_table target_columns (conds_on target_schema [(0, SqlText i)]) None h = (q, h1)"
    by fastforce
  from query_rows_run(1) [where conds = "[(0, SqlText i)]", OF assms(1) _ _] q
  have "only_db p h h1" "\<forall>n. table_at h1 p n = table_at h p n"
    "q = thenR (bind_value (SqlText i)) (Inr (rows_where [(0, SqlText i)] rows))
     \<or> isl q \<and> h_faults h \<noteq> []"
    by (fastforce simp: target_columns_def thenR_def bindR_def split: sum.splits)+
  with assms q show ?thesis
    by (auto simp: target_get_def bind_apply target_of_def thenR_def bindR_def
        table_rows_def split: sum.splits list.splits)
qed

lemma target_serialize_Inr: "target_serialize x = Inr vals \<longleftrightarrow> target_ok x \<and> vals = target_row x"
  by (auto simp: target_serialize_def target_ok_def)

lemma target_roundtrip: "target_ok x \<Longrightarrow> target_deserialize (target_row x) = Inr x"
  by (simp add: target_row_def target_ok_def mk_target_fields [of x, THEN iffD2]
      mk_host_key_fingerprint_fields [of "tgt_expected_host_key x", THEN iffD2])

lemma target_store_run:
  assumes "target_rows p h rows" "target_store p x h = (q, h')"
  shows "only_db p h h' \<and> (\<forall>n. n \<noteq> targets_table \<longrightarrow> table_at h' p n = table_at h p n)
    \<and> (case q of
         Inr _ \<Rightarrow> target_ok x \<and> bind_values (target_row x) = Inr ()
           \<and> (\<forall>r \<in> set rows. r ! 0 \<noteq> SqlText (tgt_id x)) \<and> target_rows p h' (rows @ [target_row x])
       | Inl e \<Rightarrow> target_rows p h' rows \<and>
           (h_faults h = [] \<longrightarrow> \<not> target_ok x \<or> bind_values (target_row x) = Inl e
              \<or> e = err DuplicateTargetError ''target id already exists''
                \<and> (\<exists>r \<in> set rows. r ! 0 = SqlText (tgt_id x))))"
proof (cases "target_ok x")
  case False
  then obtain e where "target_serialize x = Inl e"
    using target_serialize_Inr [of x] by (cases "target_serialize x") auto
  with False assms show ?thesis by (auto simp: target_store_def)
next
  case True
  have v: "length (target_row x) = length target_schema" "SqlNull \<notin> set (target_row x)"
    "target_row x ! 0 = SqlText (tgt_id x)"
    by (auto simp: target_row_def flag_value_def)
  from assms(2) True have "store_row (err DuplicateTargetError ''target id already exists'')
       (err ConfigStorageError ''target could not be stored'')
       p targets_table (map fst target_schema) (target_row x) h = (q, h')"
    by (simp add: target_store_def target_columns_def target_serialize_Inr [THEN iffD2])
  moreover have "table_rows targets_table target_schema [[fst (target_schema ! 0)]] p h rows"
    using assms(1) by simp
  ultimately show ?thesis using store_row_run [OF _ _ v(1,2)] True v(3)
    by (fastforce split: sum.splits)
qed

lemma target_of_append:
  assumes "target_ok x" "bind_values (target_row x) = Inr ()" "\<forall>r \<in> set rows. r ! 0 \<noteq> SqlText (tgt_id x)"
  shows "target_of (rows @ [target_row x]) = (target_of rows)(tgt_id x := Inr (Some x))"
proof
  fix i
  have r0: "target_row x ! 0 = SqlText (tgt_id x)" by (simp add: target_row_def)
  show "target_of (rows @ [target_row x]) i = ((target_of rows)(tgt_id x := Inr (Some x))) i"
  proof (cases "i = tgt_id x")
    case True
    have "rows_where [(0, SqlText i)] rows = []"
      using assms(3) True by (simp add: rows_where_def)
    with True r0 assms(2) target_roundtrip [OF assms(1)] show ?thesis
      by (simp add: target_of_def) (simp add: target_row_def)
  next
    case False
    with r0 show ?thesis by (simp add: target_of_def)
  qed
qed

text \<open>The repository is a keyed store of targets.\<close>

interpretation targets: keyed_store "target_store p" "target_get p" tgt_id "target_view p"
  "Inr None" "\<lambda>x. Inr (Some x)" "target_ready p" p
  for p
proof
  fix h h' :: dbhost and k r
  assume "target_ready p h" "target_get p k h = (r, h')"
  with target_get_run show "target_ready p h' \<and> target_view p h' = target_view p h
      \<and> only_db p h h' \<and> (r = target_view p h k \<or> isl r \<and> h_faults h \<noteq> [])"
    by (fastforce simp: target_ready_def target_view_def)
next
  fix h h' :: dbhost and x
  assume "target_ready p h" "target_store p x h = (Inr (), h')" "target_view p h (tgt_id x) = Inr None"
  with target_store_run [of p h _ x "Inr ()" h'] target_of_append
  show "target_ready p h' \<and> target_view p h' = (target_view p h)(tgt_id x := Inr (Some x))"
    by (fastforce simp: target_ready_def target_view_def)
next
  fix h h' :: dbhost and x e
  assume "target_ready p h" "target_store p x h = (Inl e, h')"
  with target_store_run show "target_ready p h' \<and> target_view p h' = target_view p h"
    by (fastforce simp: target_ready_def target_view_def)
next
  fix h h' :: dbhost and x s
  assume "target_ready p h" "target_store p x h = (s, h')"
  with target_store_run show "\<forall>q. q \<noteq> p \<longrightarrow> h_files h' q = h_files h q"
    by (fastforce simp: target_ready_def only_db_def)
qed

text \<open>
  A target that was stored is found again, as it was and by its id only; a target that
  cannot be stored, because its id is taken or a value is not supported, changes nothing.
\<close>

theorem target_store_get:
  assumes "target_ready p h" "target_store p x h = (q, h1)" "target_get p i h1 = (r, h2)"
    "h_faults h = []"
  shows "(case q of
      Inr _ \<Rightarrow> r = (if i = tgt_id x then Inr (Some x) else target_view p h i)
    | Inl e \<Rightarrow> r = target_view p h i \<and> (target_ok x \<and> bind_values (target_row x) = Inr ()
         \<longrightarrow> e = err DuplicateTargetError ''target id already exists''
           \<and> target_view p h (tgt_id x) \<noteq> Inr None))"
proof -
  from assms(1) obtain rows where rows: "target_rows p h rows" by (auto simp: target_ready_def)
  note st = target_store_run [OF rows assms(2)]
  have f1: "h_faults h1 = []" using st assms(4) by (simp add: only_db_def)
  have get: "r = target_of rows1 i" if "target_rows p h1 rows1" for rows1
    using target_get_run [OF that assms(3)] f1 by simp
  have view: "target_view p h = target_of rows" using rows by (simp add: target_view_def)
  show ?thesis
  proof (cases q)
    case (Inl e)
    with st have "target_rows p h1 rows" by simp
    moreover have "target_of rows (tgt_id x) \<noteq> Inr None"
      if "\<exists>y \<in> set rows. y ! 0 = SqlText (tgt_id x)"
      using that by (auto simp: target_of_def rows_where_def thenR_def bindR_def filter_empty_conv
          split: sum.splits list.splits)
    ultimately show ?thesis using Inl st get view assms(4) by auto
  next
    case (Inr u)
    with st get have "r = target_of (rows @ [target_row x]) i" by simp
    with Inr st view target_of_append [of x rows] show ?thesis by simp
  qed
qed

text \<open>An empty configuration database.\<close>

definition config_host :: dbhost where
  "config_host = \<lparr>h_files = [[] \<mapsto> Directory 0x1C0,
       [lit ''c''] \<mapsto> Regular 0x180 (Db \<lparr>db_version = 0, db_tables =
         [(targets_table, made target_schema [[lit ''id'']] [])]\<rparr>)],
     h_umask = 0x3F, h_entropy = [], h_faults = [], h_chunks = []\<rparr>"

definition lab_target :: target where
  "lab_target = \<lparr>tgt_id = lit ''t'', tgt_name = lit ''n'', tgt_host = lit ''h'', tgt_port = 22,
     tgt_expected_host_key = \<lparr>hkf_value = lit ''SHA256:k''\<rparr>, tgt_enabled = True\<rparr>"

theorem target_store_get_witness:
  "\<exists>h1 h2. target_store [lit ''c''] lab_target config_host = (Inr (), h1)
     \<and> target_get [lit ''c''] (lit ''t'') h1 = (Inr (Some lab_target), h2)"
proof -
  have ready: "target_ready [lit ''c''] config_host"
    unfolding target_ready_def
    by (intro exI [of _ "[]"]) (simp add: table_rows_def table_at_def db_at_def config_host_def)
  obtain q h1 where q: "target_store [lit ''c''] lab_target config_host = (q, h1)" by fastforce
  obtain r h2 where r: "target_get [lit ''c''] (lit ''t'') h1 = (r, h2)" by fastforce
  have view: "target_view [lit ''c''] config_host (lit ''t'') = Inr None"
    by (simp add: target_view_def target_of_def stored_rows_def table_at_def db_at_def config_host_def
        rows_where_def encodable_lit)
  have ok: "target_ok lab_target \<and> bind_values (target_row lab_target) = Inr ()"
    by (simp add: target_ok_def lab_target_def target_row_def encodable_lit blank_iff
        py_isspace_def startswith_def lit_def)
       (simp add: encodable_def surrogate_def)
  from target_store_get [OF ready q r] ok view have "q = Inr () \<and> r = Inr (Some lab_target)"
    by (cases q) (auto simp: config_host_def lab_target_def)
  with q r show ?thesis by simp
qed

end
