(* ===== verification/Account_Store.thy ===== *)
theory Account_Store
  imports Store
begin

text \<open>
  \<open>SQLitePrivilegedAccountRepository\<close>
  (\<open>infrastructure/config/sqlite_privileged_account_repository.py\<close>).
\<close>

definition accounts_table :: pystr where
  "accounts_table = lit ''privileged_accounts''"

definition account_schema :: "column_definition list" where
  "account_schema =
     [(lit ''id'', lit ''TEXT'', False, None, 1),
      (lit ''target_id'', lit ''TEXT'', True, None, 0),
      (lit ''username'', lit ''TEXT'', True, None, 0),
      (lit ''credential_ref'', lit ''TEXT'', True, None, 0),
      (lit ''enabled'', lit ''INTEGER'', True, None, 0)]"

definition account_columns :: "pystr list" where
  "account_columns = map fst account_schema"

definition account_init :: "path \<Rightarrow> (dbhost, unit) io" where
  "account_init = init_table ConfigStorageError
     ''privileged account database schema is unsupported''
     ''privileged account database could not be initialized''
     accounts_table account_schema [[lit ''id'']]"

definition account_row :: "privileged_account \<Rightarrow> row" where
  "account_row x = [SqlText (acc_id x), SqlText (acc_target_id x), SqlText (acc_username x),
     SqlText (cref_id (acc_credential_ref x)), flag_value (acc_enabled x)]"

definition account_serialize :: "privileged_account \<Rightarrow> row res" where
  "account_serialize x =
     thenR (raise_if (blank (acc_id x) \<or> blank (acc_target_id x) \<or> blank (acc_username x)
              \<or> blank (cref_id (acc_credential_ref x)))
              (err ConfigStorageError ''privileged account contains unsupported field values''))
     (Inr (account_row x))"

definition malformed_account :: exn where
  "malformed_account =
     err MalformedPrivilegedAccountError ''privileged account contains invalid stored values''"

fun account_deserialize :: "row \<Rightarrow> privileged_account res" where
  "account_deserialize [SqlText i, SqlText t, SqlText n, SqlText c, e] =
     (case flag_of e of
        None \<Rightarrow> Inl malformed_account
      | Some enabled \<Rightarrow>
          catchR (bindR (mk_credential_ref c) (\<lambda>ref. mk_privileged_account i t n ref enabled))
            (catches_any [TypeError, ValueError]) (\<lambda>_. Inl malformed_account))"
| "account_deserialize _ = Inl malformed_account"

definition account_store :: "path \<Rightarrow> privileged_account \<Rightarrow> (dbhost, unit) io" where
  "account_store p x =
     bind (lift (account_serialize x)) (\<lambda>vals.
     store_row
       (err DuplicatePrivilegedAccountError ''privileged account id already exists'')
       (err ConfigStorageError ''privileged account could not be stored'')
       p accounts_table account_columns vals)"

definition ambiguous_account :: exn where
  "ambiguous_account =
     err AmbiguousPrivilegedAccountError ''target has ambiguous privileged account configuration''"

text \<open>The single row of a query: none, one, or an ambiguity that is refused.\<close>

definition single_account :: "row list \<Rightarrow> privileged_account option res" where
  "single_account rows =
     (case rows of
        [] \<Rightarrow> Inr None
      | r # rs \<Rightarrow> if length rows \<noteq> 1 then Inl ambiguous_account
                  else bindR (account_deserialize r) (\<lambda>x. Inr (Some x)))"

definition account_find_for_target :: "path \<Rightarrow> pystr \<Rightarrow> (dbhost, privileged_account option) io" where
  "account_find_for_target p t =
     bind (query_rows (err ConfigStorageError ''privileged account could not be loaded'')
             p accounts_table account_columns [(lit ''target_id'', SqlText t)] (Some (lit ''id'')))
       (\<lambda>rows. lift (single_account rows))"

section \<open>What is stored is found\<close>

abbreviation account_rows :: "path \<Rightarrow> dbhost \<Rightarrow> row list \<Rightarrow> bool" where
  "account_rows \<equiv> table_rows accounts_table account_schema [[lit ''id'']]"

definition account_ready :: "path \<Rightarrow> dbhost \<Rightarrow> bool" where
  "account_ready p h \<longleftrightarrow> (\<exists>rows. account_rows p h rows)"

definition account_of :: "row list \<Rightarrow> pystr \<Rightarrow> privileged_account option res" where
  "account_of rows t = thenR (bind_value (SqlText t))
     (single_account (sort_key (\<lambda>r. r ! 0) (rows_where [(Suc 0, SqlText t)] rows)))"

definition account_view :: "path \<Rightarrow> dbhost \<Rightarrow> pystr \<Rightarrow> privileged_account option res" where
  "account_view p h = account_of (stored_rows p accounts_table h)"

lemma account_schema_facts [simp]:
  "distinct (map fst account_schema)" "length account_schema = 5" "account_schema \<noteq> []"
  "fst (account_schema ! 0) = lit ''id''"
  "conds_on account_schema [(Suc 0, v)] = [(lit ''target_id'', v)]"
  "\<forall>(n, ty, x) \<in> set account_schema. upper ty = ty"
  by (simp_all add: account_schema_def conds_on_def upper_def lit_def)

lemma account_find_for_target_run:
  assumes "account_rows p h rows" "account_find_for_target p t h = (r, h')"
  shows "only_db p h h' \<and> account_rows p h' rows
    \<and> (r = account_of rows t \<or> isl r \<and> h_faults h \<noteq> [])"
proof -
  obtain q h1 where q: "query_rows (err ConfigStorageError ''privileged account could not be loaded'')
      p accounts_table account_columns (conds_on account_schema [(Suc 0, SqlText t)])
      (Some (lit ''id'')) h = (q, h1)"
    by fastforce
  from query_rows_run(2) [where k = 0 and conds = "[(Suc 0, SqlText t)]", OF assms(1) _ _ _] q
  have "only_db p h h1" "\<forall>n. table_at h1 p n = table_at h p n"
    "q = thenR (bind_value (SqlText t))
       (Inr (sort_key (\<lambda>r. r ! 0) (rows_where [(Suc 0, SqlText t)] rows)))
     \<or> isl q \<and> h_faults h \<noteq> []"
    by (fastforce simp: account_columns_def thenR_def bindR_def split: sum.splits)+
  with assms q show ?thesis
    by (auto simp: account_find_for_target_def bind_apply account_of_def thenR_def bindR_def
        table_rows_def split: sum.splits)
qed

lemma account_serialize_Inr: "account_serialize x = Inr vals \<longleftrightarrow> account_ok x \<and> vals = account_row x"
  by (auto simp: account_serialize_def account_ok_def)

lemma account_roundtrip: "account_ok x \<Longrightarrow> account_deserialize (account_row x) = Inr x"
  by (simp add: account_row_def account_ok_def mk_privileged_account_fields [of x, THEN iffD2]
      mk_credential_ref_fields [of "acc_credential_ref x", THEN iffD2])

lemma account_store_run:
  assumes "account_rows p h rows" "account_store p x h = (q, h')"
  shows "only_db p h h' \<and> (\<forall>n. n \<noteq> accounts_table \<longrightarrow> table_at h' p n = table_at h p n)
    \<and> (case q of
         Inr _ \<Rightarrow> account_ok x \<and> bind_values (account_row x) = Inr ()
           \<and> (\<forall>r \<in> set rows. r ! 0 \<noteq> SqlText (acc_id x)) \<and> account_rows p h' (rows @ [account_row x])
       | Inl e \<Rightarrow> account_rows p h' rows \<and>
           (h_faults h = [] \<longrightarrow> \<not> account_ok x \<or> bind_values (account_row x) = Inl e
              \<or> e = err DuplicatePrivilegedAccountError ''privileged account id already exists''
                \<and> (\<exists>r \<in> set rows. r ! 0 = SqlText (acc_id x))))"
proof (cases "account_ok x")
  case False
  then obtain e where "account_serialize x = Inl e"
    using account_serialize_Inr [of x] by (cases "account_serialize x") auto
  with False assms show ?thesis by (auto simp: account_store_def)
next
  case True
  have v: "length (account_row x) = length account_schema" "SqlNull \<notin> set (account_row x)"
    "account_row x ! 0 = SqlText (acc_id x)"
    by (auto simp: account_row_def flag_value_def)
  from assms(2) True have "store_row (err DuplicatePrivilegedAccountError ''privileged account id already exists'')
       (err ConfigStorageError ''privileged account could not be stored'')
       p accounts_table (map fst account_schema) (account_row x) h = (q, h')"
    by (simp add: account_store_def account_columns_def account_serialize_Inr [THEN iffD2])
  moreover have "table_rows accounts_table account_schema [[fst (account_schema ! 0)]] p h rows"
    using assms(1) by simp
  ultimately show ?thesis using store_row_run [OF _ _ v(1,2)] True v(3)
    by (fastforce split: sum.splits)
qed

lemma account_of_append:
  assumes "account_ok x" "bind_values (account_row x) = Inr ()" "account_of rows (acc_target_id x) = Inr None"
  shows "account_of (rows @ [account_row x]) = (account_of rows)(acc_target_id x := Inr (Some x))"
proof
  fix t
  have r1: "account_row x ! Suc 0 = SqlText (acc_target_id x)" by (simp add: account_row_def)
  show "account_of (rows @ [account_row x]) t
      = ((account_of rows)(acc_target_id x := Inr (Some x))) t"
  proof (cases "t = acc_target_id x")
    case True
    have b: "bind_value (SqlText t) = Inr ()"
      using assms(2) True by (simp add: account_row_def)
    with assms(3) True have "rows_where [(Suc 0, SqlText t)] rows = []"
      by (auto simp: account_of_def single_account_def split: list.splits if_splits)
    with True r1 b account_roundtrip [OF assms(1)] show ?thesis
      by (simp add: account_of_def single_account_def)
  next
    case False
    with r1 show ?thesis by (simp add: account_of_def)
  qed
qed

text \<open>The repository is a keyed store of accounts.\<close>

interpretation accounts: keyed_store "account_store p" "account_find_for_target p" acc_target_id "account_view p"
  "Inr None" "\<lambda>x. Inr (Some x)" "account_ready p" p
  for p
proof
  fix h h' :: dbhost and k r
  assume "account_ready p h" "account_find_for_target p k h = (r, h')"
  with account_find_for_target_run show "account_ready p h' \<and> account_view p h' = account_view p h
      \<and> only_db p h h' \<and> (r = account_view p h k \<or> isl r \<and> h_faults h \<noteq> [])"
    by (fastforce simp: account_ready_def account_view_def)
next
  fix h h' :: dbhost and x
  assume "account_ready p h" "account_store p x h = (Inr (), h')" "account_view p h (acc_target_id x) = Inr None"
  with account_store_run [of p h _ x "Inr ()" h'] account_of_append
  show "account_ready p h' \<and> account_view p h' = (account_view p h)(acc_target_id x := Inr (Some x))"
    by (fastforce simp: account_ready_def account_view_def)
next
  fix h h' :: dbhost and x e
  assume "account_ready p h" "account_store p x h = (Inl e, h')"
  with account_store_run show "account_ready p h' \<and> account_view p h' = account_view p h"
    by (fastforce simp: account_ready_def account_view_def)
next
  fix h h' :: dbhost and x s
  assume "account_ready p h" "account_store p x h = (s, h')"
  with account_store_run show "\<forall>q. q \<noteq> p \<longrightarrow> h_files h' q = h_files h q"
    by (fastforce simp: account_ready_def only_db_def)
qed

lemma rows_where_accounts:
  "rows_where [(Suc 0, SqlText t)] (map account_row xs)
     = map account_row (filter (\<lambda>x. acc_target_id x = t) xs)"
  by (induction xs) (auto simp: rows_where_def account_row_def)

text \<open>
  The account of a target is found only when it is the only one: no account gives
  \<open>None\<close>, several, enabled or not, are refused as ambiguous instead of one being chosen.
\<close>

theorem account_unambiguous:
  assumes "table_at h p accounts_table = Some (made account_schema [[lit ''id'']] (map account_row xs))"
    "list_all account_ok xs" "list_all encodable t" "h_faults h = []"
  shows "fst (account_find_for_target p t h) =
    (case filter (\<lambda>x. acc_target_id x = t) xs of
       [] \<Rightarrow> Inr None
     | [x] \<Rightarrow> Inr (Some x)
     | _ \<Rightarrow> Inl ambiguous_account)"
proof -
  let ?found = "filter (\<lambda>x. acc_target_id x = t) xs"
  have rows: "account_rows p h (map account_row xs)"
    using assms(1) by (simp add: table_rows_def account_row_def)
  obtain r h' where r: "account_find_for_target p t h = (r, h')" by fastforce
  with account_find_for_target_run [OF rows r] assms(4)
  have "r = account_of (map account_row xs) t" by simp
  also have "\<dots> = single_account (map account_row (sort_key acc_id ?found))"
    using assms(3) rows_where_accounts sort_SqlText [of ?found "\<lambda>r. r ! 0" account_row acc_id]
    by (simp add: account_of_def account_row_def)
  also have "\<dots> = (case ?found of [] \<Rightarrow> Inr None | [x] \<Rightarrow> Inr (Some x)
      | _ \<Rightarrow> Inl ambiguous_account)"
  proof (cases "length ?found < 2")
    case True
    then have "?found = [] \<or> (\<exists>x. ?found = [x])"
      by (cases ?found; cases "tl ?found") auto
    moreover have "account_ok x" if "?found = [x]" for x
    proof -
      have "x \<in> set ?found" using that by simp
      then show ?thesis using assms(2) by (simp add: list_all_iff)
    qed
    ultimately show ?thesis by (auto simp: single_account_def account_roundtrip)
  next
    case False
    then obtain a b zs where "?found = a # b # zs" by (cases ?found; cases "tl ?found") auto
    moreover obtain r rs where "map account_row (sort_key acc_id ?found) = r # rs"
      using \<open>?found = a # b # zs\<close>
      by (cases "map account_row (sort_key acc_id ?found)") auto
    moreover have "length (map account_row (sort_key acc_id ?found)) \<noteq> 1" using False by simp
    ultimately show ?thesis by (simp add: single_account_def)
  qed
  finally show ?thesis using r by simp
qed

definition lab_account :: "string \<Rightarrow> privileged_account" where
  "lab_account i = \<lparr>acc_id = lit i, acc_target_id = lit ''t'', acc_username = lit ''root'',
     acc_credential_ref = \<lparr>cref_id = lit ''c''\<rparr>, acc_enabled = True\<rparr>"

definition accounts_host :: dbhost where
  "accounts_host = \<lparr>h_files = [[] \<mapsto> Directory 0x1C0,
       [lit ''c''] \<mapsto> Regular 0x180 (Db \<lparr>db_version = 0, db_tables =
         [(accounts_table, made account_schema [[lit ''id'']]
            (map account_row [lab_account ''a'', lab_account ''b'']))]\<rparr>)],
     h_umask = 0x3F, h_entropy = [], h_faults = [], h_chunks = []\<rparr>"

theorem account_unambiguous_witness:
  "fst (account_find_for_target [lit ''c''] (lit ''t'') accounts_host) = Inl ambiguous_account"
proof -
  let ?xs = "[lab_account ''a'', lab_account ''b'']"
  have t: "table_at accounts_host [lit ''c''] accounts_table
      = Some (made account_schema [[lit ''id'']] (map account_row ?xs))"
    by (simp add: table_at_def db_at_def accounts_host_def)
  have ok: "list_all account_ok ?xs"
    by (simp add: account_ok_def lab_account_def blank_iff py_isspace_def lit_def)
  from account_unambiguous [OF t ok encodable_lit, of "''t''"]
  show ?thesis by (simp add: accounts_host_def lab_account_def)
qed

end
