(* ===== verification/User_Store.thy ===== *)
theory User_Store
  imports Store
begin

text \<open>
  \<open>SQLiteUserAuthRepository\<close> (\<open>infrastructure/auth/sqlite_user_auth_repository.py\<close>) and
  \<open>Argon2PasswordHasher\<close> (\<open>infrastructure/auth/argon2_password_hasher.py\<close>). The Argon2
  library is a parameter.
\<close>

section \<open>Password hashing\<close>

record 'w argon2 =
  a_hash :: "pystr \<Rightarrow> ('w, pystr) io"
  a_verify :: "pystr \<Rightarrow> pystr \<Rightarrow> ('w, bool) io"

definition hash_password :: "'w argon2 \<Rightarrow> pystr \<Rightarrow> ('w, pystr) io" where
  "hash_password lib password =
     try_except (a_hash lib password) is_exception
       (\<lambda>_. raise (err PasswordHashingError ''password could not be hashed''))"

text \<open>The library takes the hash first, the repository's method the password.\<close>

definition verify_password :: "'w argon2 \<Rightarrow> pystr \<Rightarrow> pystr \<Rightarrow> ('w, bool) io" where
  "verify_password lib password encoded_hash =
     try_except (a_verify lib encoded_hash password)
       (catches_any [Argon2VerificationError, ValueError, TypeError]) (\<lambda>_. ret False)"

section \<open>The repository\<close>

definition users_table :: pystr where
  "users_table = lit ''pam_users''"

definition user_schema :: "column_definition list" where
  "user_schema =
     [(lit ''id'', lit ''TEXT'', False, None, 1),
      (lit ''username'', lit ''TEXT'', True, None, 0),
      (lit ''password_hash'', lit ''TEXT'', True, None, 0),
      (lit ''enabled'', lit ''INTEGER'', True, None, 0)]"

definition user_columns :: "pystr list" where
  "user_columns = map fst user_schema"

definition user_unique :: "pystr list list" where
  "user_unique = [[lit ''id''], [lit ''username'']]"

definition unsupported_users :: exn where
  "unsupported_users =
     err UnsupportedUserAuthSchemaError ''authentication database schema is unsupported''"

definition user_validate_schema :: "int \<Rightarrow> (conn, unit) io" where
  "user_validate_schema version =
     bind (pragma_table_info users_table) (\<lambda>definition'.
     bind (pragma_unique_columns users_table) (\<lambda>unique.
     lift (raise_if (version \<noteq> 1 \<or> definition' \<noteq> user_schema
        \<or> [lit ''id''] \<notin> set unique \<or> [lit ''username''] \<notin> set unique) unsupported_users)))"

definition user_create_schema :: "(conn, unit) io" where
  "user_create_schema =
     seq (create_table users_table (create user_schema user_unique)) (set_user_version 1)"

definition user_init :: "path \<Rightarrow> (dbhost, unit) io" where
  "user_init = init_versioned UserAuthStorageError unsupported_users
     ''authentication database could not be initialized'' users_table
     user_validate_schema user_create_schema"

definition user_serialize :: "user \<Rightarrow> (pystr \<times> pystr) res" where
  "user_serialize x =
     thenR (raise_if (blank (usr_id x) \<or> blank (usr_username x))
              (err UserAuthStorageError ''PAM user contains unsupported field values''))
     (Inr (usr_id x, usr_username x))"

text \<open>\<open>sub in s\<close>\<close>

definition contains :: "pystr \<Rightarrow> pystr \<Rightarrow> bool" where
  "contains s sub = list_ex (\<lambda>k. startswith (drop k s) sub) [0..<Suc (length s)]"

definition user_not_created :: exn where
  "user_not_created = err UserAuthStorageError ''PAM user could not be created''"

definition user_insert_failed :: "exn \<Rightarrow> exn" where
  "user_insert_failed e =
     (if catches SqliteIntegrityError e then
        (if contains (exn_message e) (lit ''pam_users.username'')
         then err DuplicateUsernameError ''PAM username already exists''
         else if contains (exn_message e) (lit ''pam_users.id'')
         then err DuplicateUserIdError ''PAM user id already exists''
         else user_not_created)
      else user_not_created)"

definition user_row :: "user \<Rightarrow> pystr \<Rightarrow> row" where
  "user_row x encoded_hash = [SqlText (usr_id x), SqlText (usr_username x), SqlText encoded_hash,
     flag_value (usr_is_active x)]"

definition user_insert :: "path \<Rightarrow> user \<Rightarrow> pystr \<Rightarrow> (dbhost, unit) io" where
  "user_insert p x encoded_hash =
     try_except (transaction p (insert_into users_table user_columns (user_row x encoded_hash)))
       (catches SqliteError) (\<lambda>e. raise (user_insert_failed e))"

definition argon2_prefix :: pystr where
  "argon2_prefix = lit ''$argon2id$''"

text \<open>What \<open>create_user\<close> does with the encoded hash.\<close>

definition user_store_hash :: "path \<Rightarrow> user \<Rightarrow> pystr \<Rightarrow> (dbhost, unit) io" where
  "user_store_hash p x encoded_hash =
     (if \<not> startswith encoded_hash argon2_prefix then raise user_not_created
      else user_insert p x encoded_hash)"

definition create_user :: "path \<Rightarrow> dbhost argon2 \<Rightarrow> user \<Rightarrow> pystr \<Rightarrow> (dbhost, unit) io" where
  "create_user p lib x password =
     bind (lift (user_serialize x)) (\<lambda>_.
     bind (try_except (hash_password lib password) is_exception (\<lambda>_. raise user_not_created))
       (user_store_hash p x))"

text \<open>The same operation on a user with a hash that is made already.\<close>

definition user_put :: "path \<Rightarrow> user \<times> pystr \<Rightarrow> (dbhost, unit) io" where
  "user_put p xh = bind (lift (user_serialize (fst xh))) (\<lambda>_. user_store_hash p (fst xh) (snd xh))"

definition malformed_user :: exn where
  "malformed_user = err MalformedUserAuthError ''PAM user contains invalid stored values''"

fun user_deserialize :: "row \<Rightarrow> stored_user_authentication res" where
  "user_deserialize [SqlText i, SqlText n, SqlText h, e] =
     (if blank i \<or> blank n \<or> blank h \<or> \<not> startswith h argon2_prefix then Inl malformed_user
      else case flag_of e of
        None \<Rightarrow> Inl malformed_user
      | Some enabled \<Rightarrow>
          bindR (catchR (mk_user i n enabled) (catches_any [TypeError, ValueError])
                   (\<lambda>_. Inl malformed_user))
            (\<lambda>x. mk_stored_user_authentication x h))"
| "user_deserialize _ = Inl malformed_user"

definition find_by_username ::
  "path \<Rightarrow> pystr \<Rightarrow> (dbhost, stored_user_authentication option) io" where
  "find_by_username p n =
     bind (query_rows (err UserAuthStorageError ''PAM user could not be loaded'')
             p users_table user_columns [(lit ''username'', SqlText n)] None)
       (\<lambda>rows. case rows of
          [] \<Rightarrow> ret None
        | r # _ \<Rightarrow> lift (bindR (user_deserialize r) (\<lambda>x. Inr (Some x))))"

section \<open>What is stored is found\<close>

abbreviation user_rows :: "path \<Rightarrow> dbhost \<Rightarrow> row list \<Rightarrow> bool" where
  "user_rows \<equiv> table_rows users_table user_schema user_unique"

definition user_ready :: "path \<Rightarrow> dbhost \<Rightarrow> bool" where
  "user_ready p h \<longleftrightarrow> (\<exists>rows. user_rows p h rows)"

definition user_of :: "row list \<Rightarrow> pystr \<Rightarrow> stored_user_authentication option res" where
  "user_of rows n = thenR (bind_value (SqlText n))
     (case rows_where [(Suc 0, SqlText n)] rows of
        [] \<Rightarrow> Inr None
      | r # _ \<Rightarrow> bindR (user_deserialize r) (\<lambda>x. Inr (Some x)))"

definition user_view :: "path \<Rightarrow> dbhost \<Rightarrow> pystr \<Rightarrow> stored_user_authentication option res" where
  "user_view p h = user_of (stored_rows p users_table h)"

lemma user_schema_facts [simp]:
  "distinct (map fst user_schema)" "length user_schema = 4" "user_schema \<noteq> []"
  "conds_on user_schema [(Suc 0, v)] = [(lit ''username'', v)]"
  "fst (user_schema ! 0) = lit ''id''" "fst (user_schema ! Suc 0) = lit ''username''"
  by (simp_all add: user_schema_def conds_on_def)

lemma find_by_username_run:
  assumes "user_rows p h rows" "find_by_username p n h = (r, h')"
  shows "only_db p h h' \<and> user_rows p h' rows \<and> (r = user_of rows n \<or> isl r \<and> h_faults h \<noteq> [])"
proof -
  obtain q h1 where q: "query_rows (err UserAuthStorageError ''PAM user could not be loaded'')
      p users_table user_columns (conds_on user_schema [(Suc 0, SqlText n)]) None h = (q, h1)"
    by fastforce
  from query_rows_run(1) [where conds = "[(Suc 0, SqlText n)]", OF assms(1) _ _] q
  have "only_db p h h1" "\<forall>n. table_at h1 p n = table_at h p n"
    "q = thenR (bind_value (SqlText n)) (Inr (rows_where [(Suc 0, SqlText n)] rows))
     \<or> isl q \<and> h_faults h \<noteq> []"
    by (fastforce simp: user_columns_def thenR_def bindR_def split: sum.splits)+
  with assms q show ?thesis
    by (auto simp: find_by_username_def bind_apply user_of_def thenR_def bindR_def
        table_rows_def split: sum.splits list.splits)
qed

text \<open>Which of the two unique indexes reports a duplicate: the one of the name first.\<close>

lemma user_unique_violation:
  assumes "\<forall>r \<in> set (r # rows). length r = 4"
  shows "unique_violation (made user_schema user_unique rows) r =
    (if \<exists>r' \<in> set rows. sql_eq (r ! 1) (r' ! 1) then Some [lit ''username'']
     else if \<exists>r' \<in> set rows. sql_eq (r ! 0) (r' ! 0) then Some [lit ''id''] else None)"
proof -
  have "field (made user_schema uq rs) r' (lit ''id'') = r' ! 0
      \<and> field (made user_schema uq rs) r' (lit ''username'') = r' ! 1"
    if "r' \<in> set (r # rows)" for r' uq rs
    using assms that field_made [of user_schema r' 0 uq rs] field_made [of user_schema r' "Suc 0" uq rs]
    by auto
  then show ?thesis
    by (auto simp: unique_violation_def duplicates_def list_ex_iff user_unique_def)
qed

lemma contains_messages [simp]:
  "contains (exn_message (constraint_failed ''UNIQUE'' users_table [lit ''username'']))
     (lit ''pam_users.username'')"
  "\<not> contains (exn_message (constraint_failed ''UNIQUE'' users_table [lit ''id'']))
     (lit ''pam_users.username'')"
  "contains (exn_message (constraint_failed ''UNIQUE'' users_table [lit ''id'']))
     (lit ''pam_users.id'')"
  unfolding contains_def constraint_failed_def users_table_def startswith_def
  by (simp_all add: lit_def upt_rec numeral_eq_Suc)


definition duplicate_username :: exn where
  "duplicate_username = err DuplicateUsernameError ''PAM username already exists''"

definition duplicate_user_id :: exn where
  "duplicate_user_id = err DuplicateUserIdError ''PAM user id already exists''"

lemma user_insert_failed_simps:
  "user_insert_failed (constraint_failed ''UNIQUE'' users_table [lit ''username'']) = duplicate_username"
  "user_insert_failed (constraint_failed ''UNIQUE'' users_table [lit ''id'']) = duplicate_user_id"
  "user_insert_failed sql_error = user_not_created"
  by (simp_all add: user_insert_failed_def duplicate_username_def duplicate_user_id_def catches_def
      sql_error_def)

lemma user_serialize_Inr: "user_serialize x = Inr v \<longleftrightarrow> user_ok x \<and> v = (usr_id x, usr_username x)"
  by (auto simp: user_serialize_def user_ok_def)

lemma user_insert_run:
  assumes "user_rows p h rows" "user_insert p x eh h = (q, h')"
  shows "only_db p h h' \<and> (\<forall>n. n \<noteq> users_table \<longrightarrow> table_at h' p n = table_at h p n)
    \<and> (case q of
         Inr _ \<Rightarrow> bind_values (user_row x eh) = Inr ()
           \<and> (\<forall>r \<in> set rows. r ! 0 \<noteq> SqlText (usr_id x) \<and> r ! 1 \<noteq> SqlText (usr_username x))
           \<and> user_rows p h' (rows @ [user_row x eh])
       | Inl e \<Rightarrow> user_rows p h' rows \<and>
           (h_faults h = [] \<longrightarrow> bind_values (user_row x eh) = Inl e
              \<or> e = duplicate_username \<and> (\<exists>r \<in> set rows. r ! 1 = SqlText (usr_username x))
              \<or> e = duplicate_user_id \<and> (\<exists>r \<in> set rows. r ! 0 = SqlText (usr_id x))
                  \<and> (\<forall>r \<in> set rows. r ! 1 \<noteq> SqlText (usr_username x))))"
proof -
  let ?v = "user_row x eh"
  have v: "length ?v = length user_schema" "SqlNull \<notin> set ?v" "?v ! 0 = SqlText (usr_id x)"
    "?v ! 1 = SqlText (usr_username x)"
    by (auto simp: user_row_def flag_value_def)
  from assms(1) have t: "table_at h p users_table = Some (made user_schema user_unique rows)"
    "\<forall>r \<in> set rows. length r = 4" by (simp_all add: table_rows_def)
  obtain q1 h1 where q1: "transaction p (insert_into users_table user_columns ?v) h = (q1, h1)"
    by fastforce
  have u: "unique_violation (made user_schema user_unique rows) ?v =
    (if \<exists>r' \<in> set rows. r' ! 1 = SqlText (usr_username x) then Some [lit ''username'']
     else if \<exists>r' \<in> set rows. r' ! 0 = SqlText (usr_id x) then Some [lit ''id''] else None)"
    using user_unique_violation [of ?v rows] t(2) v by simp
  from insert_made [OF q1 [unfolded user_columns_def] t(1) user_schema_facts(1) v(1,2), unfolded u]
  have i: "only_db p h h1" "\<forall>n'. n' \<noteq> users_table \<longrightarrow> table_at h1 p n' = table_at h p n'"
    "q1 = Inr () \<and> bind_values ?v = Inr ()
        \<and> (\<forall>r \<in> set rows. r ! 0 \<noteq> SqlText (usr_id x) \<and> r ! 1 \<noteq> SqlText (usr_username x))
        \<and> table_at h1 p users_table = Some (made user_schema user_unique (rows @ [?v]))
      \<or> (\<exists>e. q1 = Inl e \<and> table_at h1 p users_table = Some (made user_schema user_unique rows)
          \<and> (e = sql_error \<and> h_faults h \<noteq> [] \<or> bind_values ?v = Inl e
             \<or> (\<exists>r \<in> set rows. r ! 1 = SqlText (usr_username x))
               \<and> e = constraint_failed ''UNIQUE'' users_table [lit ''username'']
             \<or> (\<forall>r \<in> set rows. r ! 1 \<noteq> SqlText (usr_username x))
               \<and> (\<exists>r \<in> set rows. r ! 0 = SqlText (usr_id x))
               \<and> e = constraint_failed ''UNIQUE'' users_table [lit ''id'']))"
    by (auto split: if_splits)
  have r: "h' = h1" "q = (case q1 of Inl e \<Rightarrow> Inl (if catches SqliteError e then user_insert_failed e else e)
      | Inr _ \<Rightarrow> Inr ())"
    using assms(2) q1 by (auto simp: user_insert_def try_except_def split: sum.splits if_splits)
  show ?thesis
  proof (cases q1)
    case (Inr u)
    with i r t(2) v(1) show ?thesis by (auto simp: table_rows_def)
  next
    case (Inl e)
    with i(3) consider "e = sql_error" "h_faults h \<noteq> []" | "bind_values ?v = Inl e"
      | "\<exists>r \<in> set rows. r ! 1 = SqlText (usr_username x)"
        "e = constraint_failed ''UNIQUE'' users_table [lit ''username'']"
      | "\<forall>r \<in> set rows. r ! 1 \<noteq> SqlText (usr_username x)"
        "\<exists>r \<in> set rows. r ! 0 = SqlText (usr_id x)"
        "e = constraint_failed ''UNIQUE'' users_table [lit ''id'']" by auto
    then have "h_faults h = [] \<longrightarrow> (\<exists>e'. q = Inl e' \<and> (bind_values ?v = Inl e'
              \<or> e' = duplicate_username \<and> (\<exists>r \<in> set rows. r ! 1 = SqlText (usr_username x))
              \<or> e' = duplicate_user_id \<and> (\<exists>r \<in> set rows. r ! 0 = SqlText (usr_id x))
                  \<and> (\<forall>r \<in> set rows. r ! 1 \<noteq> SqlText (usr_username x))))"
      by cases (use Inl r bind_values_not_sql in
          \<open>auto simp: user_insert_failed_simps catches_def\<close>)
    with Inl i r t(2) show ?thesis by (auto simp: table_rows_def)
  qed
qed

lemma user_roundtrip:
  assumes "user_ok x" "startswith eh argon2_prefix"
  shows "user_deserialize (user_row x eh) = Inr \<lparr>sua_user = x, sua_password_hash = eh\<rparr>"
proof -
  have "\<not> blank argon2_prefix" by (simp add: argon2_prefix_def blank_iff lit_def py_isspace_def)
  with assms(2) have "\<not> blank eh" by (rule startswith_not_blank)
  with assms show ?thesis
    using not_blank_Nil [of eh]
    by (simp add: user_row_def user_ok_def mk_user_fields [of x, THEN iffD2]
        mk_stored_user_authentication_def)
qed

lemma user_put_run:
  assumes "user_rows p h rows" "user_put p (x, eh) h = (q, h')"
  shows "only_db p h h' \<and> (\<forall>n. n \<noteq> users_table \<longrightarrow> table_at h' p n = table_at h p n)
    \<and> (case q of
         Inr _ \<Rightarrow> user_ok x \<and> startswith eh argon2_prefix \<and> bind_values (user_row x eh) = Inr ()
           \<and> user_rows p h' (rows @ [user_row x eh])
       | Inl e \<Rightarrow> user_rows p h' rows)"
proof (cases "user_ok x \<and> startswith eh argon2_prefix")
  case True
  with assms(2) have "user_insert p x eh h = (q, h')"
    by (simp add: user_put_def user_store_hash_def user_serialize_Inr [THEN iffD2])
  with True user_insert_run [OF assms(1)] show ?thesis by (fastforce split: sum.splits)
next
  case False
  then have "\<exists>e. q = Inl e \<and> h' = h"
    using assms(2) user_serialize_Inr [of x]
    by (cases "user_serialize x") (auto simp: user_put_def user_store_hash_def)
  with assms(1) show ?thesis by auto
qed

lemma user_of_append:
  assumes "user_ok x" "startswith eh argon2_prefix" "bind_values (user_row x eh) = Inr ()"
    "user_of rows (usr_username x) = Inr None"
  shows "user_of (rows @ [user_row x eh]) = (user_of rows)
     (usr_username x := Inr (Some \<lparr>sua_user = x, sua_password_hash = eh\<rparr>))"
proof
  fix n
  have r1: "user_row x eh ! Suc 0 = SqlText (usr_username x)" by (simp add: user_row_def)
  show "user_of (rows @ [user_row x eh]) n = ((user_of rows)
     (usr_username x := Inr (Some \<lparr>sua_user = x, sua_password_hash = eh\<rparr>))) n"
  proof (cases "n = usr_username x")
    case True
    have b: "bind_value (SqlText n) = Inr ()" using assms(3) True by (simp add: user_row_def)
    with assms(4) True have "rows_where [(Suc 0, SqlText n)] rows = []"
      by (auto simp: user_of_def split: list.splits)
    with True r1 b user_roundtrip [OF assms(1,2)] show ?thesis by (simp add: user_of_def)
  next
    case False
    with r1 show ?thesis by (simp add: user_of_def)
  qed
qed

interpretation users: keyed_store "user_put p" "find_by_username p" "\<lambda>xh. usr_username (fst xh)"
  "user_view p" "Inr None" "\<lambda>xh. Inr (Some \<lparr>sua_user = fst xh, sua_password_hash = snd xh\<rparr>)"
  "user_ready p" p
  for p
proof
  fix h h' :: dbhost and k r
  assume "user_ready p h" "find_by_username p k h = (r, h')"
  with find_by_username_run show "user_ready p h' \<and> user_view p h' = user_view p h
      \<and> only_db p h h' \<and> (r = user_view p h k \<or> isl r \<and> h_faults h \<noteq> [])"
    by (fastforce simp: user_ready_def user_view_def)
next
  fix h h' :: dbhost and xh
  assume "user_ready p h" "user_put p xh h = (Inr (), h')"
    "user_view p h (usr_username (fst xh)) = Inr None"
  with user_put_run [of p h _ "fst xh" "snd xh" "Inr ()" h'] user_of_append [of "fst xh" "snd xh"]
  show "user_ready p h' \<and> user_view p h' = (user_view p h)(usr_username (fst xh) :=
      Inr (Some \<lparr>sua_user = fst xh, sua_password_hash = snd xh\<rparr>))"
    by (fastforce simp: user_ready_def user_view_def)
next
  fix h h' :: dbhost and xh e
  assume "user_ready p h" "user_put p xh h = (Inl e, h')"
  with user_put_run [of p h _ "fst xh" "snd xh" "Inl e" h']
  show "user_ready p h' \<and> user_view p h' = user_view p h"
    by (fastforce simp: user_ready_def user_view_def)
next
  fix h h' :: dbhost and xh s
  assume "user_ready p h" "user_put p xh h = (s, h')"
  with user_put_run [of p h _ "fst xh" "snd xh" s h'] show "\<forall>q. q \<noteq> p \<longrightarrow> h_files h' q = h_files h q"
    by (fastforce simp: user_ready_def only_db_def)
qed

text \<open>
  Creating a user either stores the user with the hash the hasher made, and then looking
  the name up gives exactly that, or raises the error of the first check that fails: the
  field values, the hasher, the kind of the hash, a name that is taken, an id that is taken.
\<close>

theorem created_user_found:
  assumes "table_at h p users_table = Some (made user_schema user_unique rows)"
    "\<forall>r \<in> set rows. length r = length user_schema" "h_faults h = []"
    "a_hash lib password h = (hashed, h)"
    "list_all encodable (usr_id x)" "list_all encodable (usr_username x)"
    "\<forall>eh. hashed = Inr eh \<longrightarrow> list_all encodable eh"
  shows "case create_user p lib x password h of (q, h') \<Rightarrow>
    q = (if \<not> user_ok x then Inl (err UserAuthStorageError ''PAM user contains unsupported field values'')
         else case hashed of
           Inl e \<Rightarrow> if is_exception e then Inl user_not_created else Inl e
         | Inr eh \<Rightarrow>
             if \<not> startswith eh argon2_prefix then Inl user_not_created
             else if \<exists>r \<in> set rows. r ! 1 = SqlText (usr_username x) then Inl duplicate_username
             else if \<exists>r \<in> set rows. r ! 0 = SqlText (usr_id x) then Inl duplicate_user_id
             else Inr ())
    \<and> (q = Inr () \<longrightarrow> (\<exists>eh. hashed = Inr eh \<and> fst (find_by_username p (usr_username x) h')
          = Inr (Some \<lparr>sua_user = x, sua_password_hash = eh\<rparr>)))"
proof -
  have rows: "user_rows p h rows" using assms(1,2) by (simp add: table_rows_def)
  obtain q h' where q: "create_user p lib x password h = (q, h')" by fastforce
  show ?thesis
  proof (cases "user_ok x \<and> (\<exists>eh. hashed = Inr eh \<and> startswith eh argon2_prefix)")
    case False
    with q assms(4) user_serialize_Inr [of x] show ?thesis
      by (cases hashed) (auto simp: create_user_def user_serialize_def hash_password_def
          user_store_hash_def try_except_def bind_apply user_ok_def raise_if_def)
  next
    case True
    then obtain eh where eh: "user_ok x" "hashed = Inr eh" "startswith eh argon2_prefix" by blast
    with q assms(4) have ins: "user_insert p x eh h = (q, h')"
      by (simp add: create_user_def hash_password_def user_store_hash_def try_except_def bind_apply
          user_serialize_Inr [of x, THEN iffD2])
    have b: "bind_values (user_row x eh) = Inr ()"
      using assms(5-7) eh(2) by (simp add: user_row_def)
    note run = user_insert_run [OF rows ins]
    show ?thesis
    proof (cases q)
      case (Inl e)
      with run b eh assms(3) q show ?thesis by auto
    next
      case (Inr u)
      obtain r h2 where r: "find_by_username p (usr_username x) h' = (r, h2)" by fastforce
      have h': "user_rows p h' (rows @ [user_row x eh])" "h_faults h' = []"
        using run Inr assms(3) by (simp_all add: only_db_def)
      have "user_of rows (usr_username x) = Inr None"
      proof -
        have "rows_where [(Suc 0, SqlText (usr_username x))] rows = []"
          using run Inr by (auto simp: rows_where_def filter_empty_conv)
        then show ?thesis using assms(6) by (simp add: user_of_def)
      qed
      from user_of_append [OF eh(1,3) b this] find_by_username_run [OF h'(1) r] h'(2)
      have "r = Inr (Some \<lparr>sua_user = x, sua_password_hash = eh\<rparr>)" by auto
      with Inr run eh q r show ?thesis by auto
    qed
  qed
qed

definition lab_hash :: pystr where
  "lab_hash = lit ''$argon2id$v=19$x''"

definition lab_argon2 :: "dbhost argon2" where
  "lab_argon2 = \<lparr>a_hash = (\<lambda>_. ret lab_hash), a_verify = (\<lambda>h p. ret (h = lab_hash \<and> p = lit ''pw''))\<rparr>"

definition lab_user :: user where
  "lab_user = \<lparr>usr_id = lit ''u1'', usr_username = lit ''alice'', usr_is_active = True\<rparr>"

definition users_host :: dbhost where
  "users_host = \<lparr>h_files = [[] \<mapsto> Directory 0x1C0,
       [lit ''u''] \<mapsto> Regular 0x180 (Db \<lparr>db_version = 1, db_tables =
         [(users_table, made user_schema user_unique [])]\<rparr>)],
     h_umask = 0x3F, h_entropy = [], h_faults = [], h_chunks = []\<rparr>"

theorem created_user_found_witness:
  "case create_user [lit ''u''] lab_argon2 lab_user (lit ''pw'') users_host of (q, h') \<Rightarrow>
     q = Inr () \<and> fst (find_by_username [lit ''u''] (lit ''alice'') h')
       = Inr (Some \<lparr>sua_user = lab_user, sua_password_hash = lab_hash\<rparr>)"
proof -
  have t: "table_at users_host [lit ''u''] users_table = Some (made user_schema user_unique [])"
    by (simp add: table_at_def db_at_def users_host_def)
  have h: "a_hash lab_argon2 (lit ''pw'') users_host = (Inr lab_hash, users_host)"
    by (simp add: lab_argon2_def)
  have ok: "user_ok lab_user" "startswith lab_hash argon2_prefix"
    by (simp_all add: user_ok_def lab_user_def lab_hash_def argon2_prefix_def startswith_def
        blank_iff py_isspace_def lit_def)
  have e: "list_all encodable (usr_id lab_user)" "list_all encodable (usr_username lab_user)"
    "\<forall>eh. Inr lab_hash = (Inr eh :: pystr res) \<longrightarrow> list_all encodable eh"
    by (simp_all add: lab_user_def lab_hash_def encodable_lit)
  have "h_faults users_host = []" by (simp add: users_host_def)
  from created_user_found [OF t _ this h e] ok show ?thesis
    by (simp add: case_prod_beta lab_user_def)
qed

end
