(* ===== verification/Schema.thy ===== *)
theory Schema
  imports Store
begin

text \<open>
  What \<open>_initialize_schema\<close> of the versioned repositories (users, Vault, audit) does to the
  host: a database that is not the program's is refused as it was, an absent table is created
  with its version in one transaction, and an existing one is only checked.
\<close>

lemma ensured_db:
  assumes "ensure_owner_only_database_file p h = (Inr (), h')"
  shows "db_at h' p = (if h_files h p = None then Some empty_db else db_at h p)"
proof -
  note ens = ensure_database_file_run [OF assms]
  then obtain c where c: "h_files h' p = Some (Regular 0x180 c)"
    "h_files h p = None \<longrightarrow> c = Bytes []" by auto
  show ?thesis
  proof (cases "h_files h p")
    case None
    with c show ?thesis by (simp add: db_at_def)
  next
    case (Some k)
    with ens c obtain m where "k = Regular m c" by auto
    with Some c show ?thesis by (simp add: db_at_def)
  qed
qed

text \<open>
  The database a schema check starts from, and what the parts of the check must satisfy: the
  validation changes no table, the creation adds one table to a database without it.
\<close>

definition start_db :: "path \<Rightarrow> dbhost \<Rightarrow> database \<Rightarrow> bool" where
  "start_db p h d \<longleftrightarrow> (if h_files h p = None then Some empty_db else db_at h p) = Some d"

definition validates ::
  "(int \<Rightarrow> (conn, unit) io) \<Rightarrow> exn \<Rightarrow> (database \<Rightarrow> database \<Rightarrow> bool) \<Rightarrow> bool" where
  "validates validate unsupported P \<longleftrightarrow>
     (\<forall>c r c'. validate (db_version (c_db c)) c = (r, c') \<longrightarrow>
        (c_faults c = [] \<longrightarrow> c_faults c' = [])
        \<and> (case r of Inl e \<Rightarrow> e = unsupported \<or> e = sql_error | Inr _ \<Rightarrow> P (c_db c) (c_db c')))"

definition creates :: "pystr \<Rightarrow> table \<Rightarrow> int \<Rightarrow> (conn, unit) io \<Rightarrow> bool" where
  "creates n t v create' \<longleftrightarrow>
     (\<forall>c r c'. create' c = (r, c') \<longrightarrow> map_of (db_tables (c_db c)) n = None \<longrightarrow>
        (c_faults c = [] \<longrightarrow> c_faults c' = [])
        \<and> (case r of Inl e \<Rightarrow> e = sql_error
           | Inr _ \<Rightarrow> c_db c' = \<lparr>db_version = v, db_tables = db_tables (c_db c) @ [(n, t)]\<rparr>))"

lemma validatesD:
  assumes "validates validate unsupported P" "validate (db_version (c_db c)) c = (r, c')"
  shows "(c_faults c = [] \<longrightarrow> c_faults c' = [])
    \<and> (case r of Inl e \<Rightarrow> e = unsupported \<or> e = sql_error | Inr _ \<Rightarrow> P (c_db c) (c_db c'))"
  using assms unfolding validates_def by blast

lemma createsD:
  assumes "creates n t v create'" "create' c = (r, c')" "map_of (db_tables (c_db c)) n = None"
  shows "(c_faults c = [] \<longrightarrow> c_faults c' = [])
    \<and> (case r of Inl e \<Rightarrow> e = sql_error
       | Inr _ \<Rightarrow> c_db c' = \<lparr>db_version = v, db_tables = db_tables (c_db c) @ [(n, t)]\<rparr>)"
  using assms unfolding creates_def by blast

lemma creates_table: "creates n t v (seq (create_table n t) (set_user_version v))"
proof -
  {
    fix c r c'
    assume a: "seq (create_table n t) (set_user_version v) c = (r, c')"
      "map_of (db_tables (c_db c)) n = None"
    obtain q c1 where q: "create_table n t c = (q, c1)" by fastforce
    note q1 = execute_run [OF q [unfolded create_table_def]]
    have "(c_faults c = [] \<longrightarrow> c_faults c' = [])
        \<and> (case r of Inl e \<Rightarrow> e = sql_error
           | Inr _ \<Rightarrow> c_db c' = \<lparr>db_version = v, db_tables = db_tables (c_db c) @ [(n, t)]\<rparr>)"
    proof (cases q)
      case (Inl e)
      with a q q1 show ?thesis by (auto simp: seq_apply)
    next
      case (Inr u)
      with a(1) q have s: "set_user_version v c1 = (r, c')" by (simp add: seq_apply)
      from execute_run [OF s [unfolded set_user_version_def]] q1 a(2) Inr show ?thesis
        by (auto split: sum.splits)
    qed
  }
  then show ?thesis unfolding creates_def by blast
qed

text \<open>What the statements of the transaction do on an open connection.\<close>

lemma versioned_statements_run:
  assumes "seq (execute (\<lambda>db. (Inr (), db)))
           (bind pragma_user_version (\<lambda>version.
            bind (table_exists n) (\<lambda>exists.
              if exists then validate version
              else if version = 0 then create' else raise unsupported))) c = (r, c')"
    and "validates validate unsupported P" "creates n t v create'"
  shows "(c_faults c = [] \<longrightarrow> c_faults c' = [])
    \<and> (case r of Inl e \<Rightarrow> e = unsupported \<or> e = sql_error
       | Inr _ \<Rightarrow> if map_of (db_tables (c_db c)) n = None
           then db_version (c_db c) = 0
             \<and> c_db c' = \<lparr>db_version = v, db_tables = db_tables (c_db c) @ [(n, t)]\<rparr>
           else P (c_db c) (c_db c'))"
proof -
  obtain q0 c0 where q0: "execute (\<lambda>db. (Inr (), db)) c = (q0, c0)" by fastforce
  note r0 = execute_run [OF q0]
  obtain q1 c1 where q1: "pragma_user_version c0 = (q1, c1)" by fastforce
  note r1 = execute_run [OF q1 [unfolded pragma_user_version_def]]
  obtain q2 c2 where q2: "table_exists n c1 = (q2, c2)" by fastforce
  note r2 = execute_run [OF q2 [unfolded table_exists_def]]
  show ?thesis
  proof (cases "isl q0 \<or> isl q1 \<or> isl q2")
    case True
    with assms(1) q0 q1 q2 r0 r1 r2 show ?thesis
      by (auto simp: seq_apply bind_apply isl_def split: sum.splits)
  next
    case False
    with r0 r1 r2 have d: "c_db c2 = c_db c" "q1 = Inr (db_version (c_db c))"
      "q2 = Inr (map_of (db_tables (c_db c)) n \<noteq> None)" "c_faults c = [] \<longrightarrow> c_faults c2 = []"
      by auto
    with False assms(1) q0 q1 q2 have
      "(if map_of (db_tables (c_db c)) n \<noteq> None then validate (db_version (c_db c2))
        else if db_version (c_db c) = 0 then create' else raise unsupported) c2 = (r, c')"
      by (auto simp: seq_apply bind_apply split: sum.splits)
    with validatesD [OF assms(2), of c2] createsD [OF assms(3), of c2] d show ?thesis
      by (cases "map_of (db_tables (c_db c)) n = None"; cases "db_version (c_db c) = 0")
        (auto split: sum.splits)
  qed
qed

lemma init_versioned_run:
  assumes "init_versioned cls unsupported failed n validate create' p h = (r, h')"
    and parts: "validates validate unsupported P" "creates n t v create'"
    and cls: "base_class SqliteError \<noteq> Some cls" "cls \<noteq> SqliteError"
      "cls \<noteq> DatabasePermissionError" "base_class DatabasePermissionError \<noteq> Some cls"
      "catches cls unsupported"
  shows "(\<forall>q. q \<noteq> p \<longrightarrow> h_files h' q = h_files h q) \<and> (case r of
      Inl e \<Rightarrow> (e = unsupported \<or> e = err cls failed) \<and> (\<forall>d. start_db p h d \<longrightarrow>
           (h_files h p \<noteq> None \<longrightarrow> db_at h' p = Some d))
    | Inr _ \<Rightarrow> (\<exists>c. h_files h' p = Some (Regular 0x180 c)) \<and> (\<exists>d d'. start_db p h d
        \<and> db_at h' p = Some d' \<and> (if map_of (db_tables d) n = None
             then db_version d = 0 \<and> d' = \<lparr>db_version = v, db_tables = db_tables d @ [(n, t)]\<rparr>
             else P d d')))"
proof -
  let ?stmts = "seq (execute (\<lambda>db. (Inr (), db)))
           (bind pragma_user_version (\<lambda>version.
            bind (table_exists n) (\<lambda>exists.
              if exists then validate version
              else if version = 0 then create' else raise unsupported)))"
  let ?final = "\<lambda>e. if \<not> catches cls e \<and> catches_any [DatabasePermissionError, SqliteError] e
      then err cls failed else e"
  have fin: "?final unsupported = unsupported" "?final sql_error = err cls failed"
    "?final permission_error = err cls failed" "?final not_regular = err cls failed"
    using cls by (simp_all add: sql_error_def permission_error_def not_regular_def)
  obtain q h1 where q: "ensure_owner_only_database_file p h = (q, h1)" by fastforce
  note ens = ensure_database_file_run [OF q]
  show ?thesis
  proof (cases q)
    case (Inl e)
    with q assms(1) have r: "r = Inl (?final e)" "h' = h1"
      by (auto simp: init_versioned_def try_except_def seq_apply split: if_splits)
    have "e = permission_error \<or> e = not_regular" using ens Inl by simp
    then have "?final e = err cls failed" using fin by auto
    moreover have "db_at h1 p = Some d" if "start_db p h d" "h_files h p \<noteq> None" for d
    proof -
      from that obtain m c where c: "h_files h p = Some (Regular m c)" "load_content c = Inr d"
        by (auto simp: start_db_def db_at_Some)
      with ens have "h_files h1 p = Some (Regular m c) \<or> h_files h1 p = Some (Regular 0x180 c)"
        by auto
      with c show ?thesis by (auto simp: db_at_def)
    qed
    ultimately show ?thesis using r ens by simp
  next
    case (Inr u)
    with q have ok: "ensure_owner_only_database_file p h = (Inr (), h1)" by simp
    from ens Inr obtain c where c: "h_files h1 p = Some (Regular 0x180 c)" by auto
    note db1 = ensured_db [OF ok]
    obtain w h2 where w: "transaction p ?stmts h1 = (w, h2)" by fastforce
    with assms(1) q Inr have r: "h' = h2" "r = (case w of Inl e \<Rightarrow> Inl (?final e) | Inr x \<Rightarrow> Inr ())"
      by (auto simp: init_versioned_def try_except_def seq_apply split: sum.splits if_splits)
    show ?thesis
    proof (cases "db_at h1 p")
      case None
      with c obtain e where e: "load_content c = Inl e"
        by (cases "load_content c") (auto simp: db_at_def)
      then have "exn_class e = SqliteError" by (cases c) (auto split: if_splits)
      obtain k h3 where k: "open_db p h1 = (k, h3)" by fastforce
      with c e \<open>exn_class e = SqliteError\<close>
      have "h_files h3 = h_files h1 \<and> (\<exists>e'. k = Inl e' \<and> exn_class e' = SqliteError)"
        by (auto simp: open_db_def faultable_eq follow_regular sql_error_def)
      with k w have "h_files h2 = h_files h1" "\<exists>e'. w = Inl e' \<and> exn_class e' = SqliteError"
        by (auto simp: transaction_def with_db_def bind_apply)
      with r ens cls db1 None show ?thesis
        by (auto simp: catches_def start_db_def split: if_splits)
    next
      case (Some d)
      then have d: "start_db p h d" using db1 by (simp add: start_db_def)
      from w [unfolded transaction_def] Some show ?thesis
      proof (cases rule: with_db_run)
        case unopened
        with r ens d fin show ?thesis by (auto simp: only_db_def start_db_def)
      next
        case (ran fs c2)
        obtain x c1 where x: "?stmts \<lparr>c_db = d, c_faults = fs\<rparr> = (x, c1)" by fastforce
        note st = versioned_statements_run [OF x parts]
        obtain y c3 where y: "commit c1 = (y, c3)" by fastforce
        note co = commit_run [OF y]
        have cw: "c2 = (if isl x then c1 else c3)" "w = (case x of Inl e \<Rightarrow> Inl e
            | Inr u \<Rightarrow> (case y of Inl e \<Rightarrow> Inl e | Inr _ \<Rightarrow> Inr ()))"
          using ran(1) x y by (auto simp: bind_apply seq_apply split: sum.splits)
        have od: "only_db p h1 h2" using ran(4) st co cw(1) by (auto split: if_splits)
        then have files: "\<forall>q. q \<noteq> p \<longrightarrow> h_files h' q = h_files h q"
          "\<exists>c. h_files h' p = Some (Regular 0x180 c)"
          using ens c r(1) by (auto simp: only_db_def)
        show ?thesis
        proof (cases w)
          case (Inl e)
          with cw st co have "e = unsupported \<or> e = sql_error" by (auto split: sum.splits)
          with Inl r files fin ran(3) d show ?thesis by (auto simp: start_db_def)
        next
          case (Inr u)
          with cw obtain v where "x = Inr v" "c2 = c3" by (auto split: sum.splits)
          with st co Inr ran(3) r files d show ?thesis by auto
        qed
      qed
    qed
  qed
qed

section \<open>When it succeeds\<close>

text \<open>Nothing fails without a fault: the file is regular, or new in an existing directory.\<close>

definition usable_path :: "'d host \<Rightarrow> path \<Rightarrow> bool" where
  "usable_path h p \<longleftrightarrow> h_faults h = []
     \<and> (case h_files h p of Some n \<Rightarrow> is_regular n | None \<Rightarrow> parent_ok h p)"

lemma ensure_works:
  assumes "usable_path h p"
  shows "\<exists>h'. ensure_owner_only_database_file p h = (Inr (), h') \<and> h_faults h' = []"
proof (cases "h_files h p")
  case None
  with assms show ?thesis
    by (simp add: usable_path_def ensure_owner_only_database_file_def try_except_def bind_apply
        seq_apply os_create_def secure_descriptor_def try_finally_def finally_with_def os_fstat_def
        os_fchmod_def put_node_def close_quietly_def os_close_def)
next
  case (Some n)
  with assms obtain m c where "n = Regular m c" "h_faults h = []"
    by (cases n) (auto simp: usable_path_def)
  with Some show ?thesis
    by (simp add: ensure_owner_only_database_file_def try_except_def bind_apply os_open_nofollow_def
        seq_apply os_create_def secure_descriptor_def try_finally_def finally_with_def os_fstat_def
        os_fchmod_def put_node_def close_quietly_def os_close_def)
qed

lemma with_db_works:
  assumes "h_faults h = []" "db_at h p = Some d" "m \<lparr>c_db = d, c_faults = []\<rparr> = (x, c)"
  shows "fst (with_db keep p m h) = x"
  using assms
  by (auto simp: with_db_def bind_apply open_db_def db_at_Some follow_regular split: sum.splits)

lemma execute_works [simp]: "execute f \<lparr>c_db = d, c_faults = []\<rparr> = (fst (f d), \<lparr>c_db = snd (f d), c_faults = []\<rparr>)"
  by (simp add: execute_def split: prod.splits)

lemma init_versioned_works:
  assumes "usable_path h p" "start_db p h d"
    "if map_of (db_tables d) n = None
     then db_version d = 0 \<and> (\<exists>d'. create' \<lparr>c_db = d, c_faults = []\<rparr> = (Inr (), \<lparr>c_db = d', c_faults = []\<rparr>))
     else \<exists>d'. validate (db_version d) \<lparr>c_db = d, c_faults = []\<rparr> = (Inr (), \<lparr>c_db = d', c_faults = []\<rparr>)"
  shows "fst (init_versioned cls unsupported failed n validate create' p h) = Inr ()"
proof -
  from ensure_works [OF assms(1)] obtain h1 where h1:
    "ensure_owner_only_database_file p h = (Inr (), h1)" "h_faults h1 = []" by blast
  from ensured_db [OF h1(1)] assms(2) have d: "db_at h1 p = Some d" by (simp add: start_db_def)
  let ?stmts = "seq (execute (\<lambda>db. (Inr (), db)))
           (bind pragma_user_version (\<lambda>version.
            bind (table_exists n) (\<lambda>exists.
              if exists then validate version
              else if version = 0 then create' else raise unsupported)))"
  from assms(3) obtain d' where "?stmts \<lparr>c_db = d, c_faults = []\<rparr> = (Inr (), \<lparr>c_db = d', c_faults = []\<rparr>)"
    by (auto simp: seq_apply bind_apply pragma_user_version_def table_exists_def split: if_splits)
  then have run: "bind ?stmts (\<lambda>x. seq commit (ret x)) \<lparr>c_db = d, c_faults = []\<rparr>
      = (Inr (), \<lparr>c_db = d', c_faults = []\<rparr>)"
    by (simp add: bind_apply seq_apply commit_def)
  have "fst (transaction p ?stmts h1) = Inr ()"
    unfolding transaction_def by (rule with_db_works) (rule h1(2) d run)+
  then obtain h2 where "transaction p ?stmts h1 = (Inr (), h2)"
    by (cases "transaction p ?stmts h1") auto
  with h1(1) show ?thesis
    by (simp add: init_versioned_def try_except_def seq_apply)
qed

end
