(* ===== verification/Vault.thy ===== *)
theory Vault
  imports Schema Access
begin

text \<open>
  \<open>AesGcmSecretCipher\<close> (\<open>infrastructure/security/aes_gcm_cipher.py\<close>) and \<open>SQLiteVault\<close>
  (\<open>infrastructure/vault/sqlite_vault.py\<close>). The AES-GCM of the \<open>cryptography\<close> package is a
  parameter; the round trips rely on its documented behaviour that decryption undoes
  encryption and that a ciphertext carries a tag, so that it is not empty.
\<close>

section \<open>Secrets (\<open>ports/security.py\<close>) and the cipher\<close>

record encrypted_secret =
  es_version :: int
  es_nonce :: bytes
  es_ciphertext :: bytes

definition mk_encrypted_secret :: "int \<Rightarrow> bytes \<Rightarrow> bytes \<Rightarrow> encrypted_secret res" where
  "mk_encrypted_secret v nonce ciphertext =
     thenR (reject (length nonce \<noteq> 12) ''nonce must be exactly 12 bytes'')
    (thenR (reject (ciphertext = []) ''ciphertext cannot be empty'')
    (Inr \<lparr>es_version = v, es_nonce = nonce, es_ciphertext = ciphertext\<rparr>))"

definition secret_ok :: "encrypted_secret \<Rightarrow> bool" where
  "secret_ok s \<longleftrightarrow> length (es_nonce s) = 12 \<and> es_ciphertext s \<noteq> []"

text \<open>\<open>AESGCM(key).encrypt(nonce, data, None)\<close> and \<open>decrypt\<close>: key, nonce, data.\<close>

record aead =
  ae_encrypt :: "bytes \<Rightarrow> bytes \<Rightarrow> bytes \<Rightarrow> bytes res"
  ae_decrypt :: "bytes \<Rightarrow> bytes \<Rightarrow> bytes \<Rightarrow> bytes res"

definition aead_correct :: "aead \<Rightarrow> bool" where
  "aead_correct lib \<longleftrightarrow> (\<forall>k n x c. length k = 32 \<longrightarrow> length n = 12 \<longrightarrow> ae_encrypt lib k n x = Inr c \<longrightarrow>
     c \<noteq> [] \<and> ae_decrypt lib k n c = Inr x)"

definition cipher_version :: int where
  "cipher_version = 1"

text \<open>The cipher object is its key.\<close>

definition mk_cipher :: "bytes \<Rightarrow> bytes res" where
  "mk_cipher key = thenR (raise_if (length key \<noteq> 32)
     (err SecretCipherError ''AES-GCM key must be exactly 32 bytes'')) (Inr key)"

definition cipher_encrypt :: "aead \<Rightarrow> bytes \<Rightarrow> bytes \<Rightarrow> ('d host, encrypted_secret) io" where
  "cipher_encrypt lib key plaintext =
     bind (token_bytes 12) (\<lambda>nonce.
     bind (lift (ae_encrypt lib key nonce plaintext)) (\<lambda>ciphertext.
     lift (mk_encrypted_secret cipher_version nonce ciphertext)))"

definition cipher_decrypt :: "aead \<Rightarrow> bytes \<Rightarrow> encrypted_secret \<Rightarrow> bytes res" where
  "cipher_decrypt lib key s =
     thenR (raise_if (es_version s \<noteq> cipher_version)
              (err SecretCipherError ''unsupported encrypted secret version''))
     (catchR (ae_decrypt lib key (es_nonce s) (es_ciphertext s)) (catches InvalidTag)
        (\<lambda>_. Inl (err SecretCipherError ''secret authentication failed'')))"

lemma cipher_encrypt_run:
  assumes "aead_correct lib" "length key = 32" "cipher_encrypt lib key x h = (Inr s, h')"
  shows "secret_ok s \<and> es_version s = 1 \<and> cipher_decrypt lib key s = Inr x
    \<and> h' = h\<lparr>h_entropy := h_entropy h'\<rparr>"
proof -
  from assms(3) have l: "12 \<le> length (h_entropy h)"
    by (auto simp: cipher_encrypt_def bind_apply token_bytes_def split: if_splits)
  with assms(3) obtain c where c: "ae_encrypt lib key (take 12 (h_entropy h)) x = Inr c"
    "mk_encrypted_secret cipher_version (take 12 (h_entropy h)) c = Inr s"
    "h' = h\<lparr>h_entropy := drop 12 (h_entropy h)\<rparr>"
    by (auto simp: cipher_encrypt_def bind_apply token_bytes_def split: sum.splits)
  with l assms(1,2) show ?thesis
    by (auto simp: mk_encrypted_secret_def cipher_decrypt_def secret_ok_def cipher_version_def
        aead_correct_def)
qed

section \<open>The Vault\<close>

definition vault_table :: pystr where
  "vault_table = lit ''vault_credentials''"

definition vault_schema :: "column_definition list" where
  "vault_schema =
     [(lit ''id'', lit ''TEXT'', False, None, 1),
      (lit ''encryption_version'', lit ''INTEGER'', True, None, 0),
      (lit ''nonce'', lit ''BLOB'', True, None, 0),
      (lit ''ciphertext'', lit ''BLOB'', True, None, 0)]"

definition vault_columns :: "pystr list" where
  "vault_columns = map fst vault_schema"

definition unsupported_vault :: exn where
  "unsupported_vault = err UnsupportedVaultSchemaError ''vault database schema is unsupported''"

definition vault_validate_schema :: "int \<Rightarrow> (conn, unit) io" where
  "vault_validate_schema version =
     bind (pragma_table_info vault_table) (\<lambda>definition'.
     seq (lift (raise_if (version \<notin> {0, 1} \<or> definition' \<noteq> vault_schema) unsupported_vault))
     (if version = 0 then set_user_version 1 else ret ()))"

definition vault_create_schema :: "(conn, unit) io" where
  "vault_create_schema =
     seq (create_table vault_table (create vault_schema [[lit ''id'']])) (set_user_version 1)"

definition vault_init :: "path \<Rightarrow> (dbhost, unit) io" where
  "vault_init = init_versioned VaultError unsupported_vault
     ''vault could not be initialized'' vault_table vault_validate_schema vault_create_schema"

definition vault_row :: "credential_ref \<Rightarrow> encrypted_secret \<Rightarrow> row" where
  "vault_row ref s = [SqlText (cref_id ref), SqlInt (es_version s), SqlBlob (es_nonce s),
     SqlBlob (es_ciphertext s)]"

definition duplicate_credential :: exn where
  "duplicate_credential = err DuplicateCredentialError ''credential id already exists''"

definition credential_not_stored :: exn where
  "credential_not_stored = err VaultError ''credential could not be stored''"

definition vault_insert :: "path \<Rightarrow> credential_ref \<Rightarrow> encrypted_secret \<Rightarrow> (dbhost, unit) io" where
  "vault_insert p ref s =
     try_except (transaction p (insert_into vault_table vault_columns (vault_row ref s)))
       (catches SqliteError)
       (\<lambda>e. if catches SqliteIntegrityError e then raise duplicate_credential
             else raise credential_not_stored)"

definition vault_store ::
  "path \<Rightarrow> aead \<Rightarrow> bytes \<Rightarrow> credential_ref \<Rightarrow> bytes \<Rightarrow> (dbhost, unit) io" where
  "vault_store p lib key ref plaintext =
     bind (try_except (cipher_encrypt lib key plaintext) is_exception
             (\<lambda>_. raise (err VaultError ''credential could not be encrypted'')))
       (vault_insert p ref)"

definition not_decrypted :: exn where
  "not_decrypted = err VaultError ''credential could not be decrypted''"

fun vault_deserialize :: "row \<Rightarrow> encrypted_secret res" where
  "vault_deserialize [SqlInt v, SqlBlob nonce, SqlBlob ciphertext] =
     (if length nonce \<noteq> 12 \<or> ciphertext = [] then Inl not_decrypted
      else catchR (mk_encrypted_secret v nonce ciphertext) (catches_any [TypeError, ValueError])
             (\<lambda>_. Inl not_decrypted))"
| "vault_deserialize _ = Inl not_decrypted"

definition missing_credential :: exn where
  "missing_credential = err VaultError ''credential does not exist''"

definition credential_not_loaded :: exn where
  "credential_not_loaded = err VaultError ''credential could not be loaded''"

definition vault_load :: "path \<Rightarrow> credential_ref \<Rightarrow> (dbhost, encrypted_secret) io" where
  "vault_load p ref =
     bind (query_rows credential_not_loaded p vault_table
             [lit ''encryption_version'', lit ''nonce'', lit ''ciphertext'']
             [(lit ''id'', SqlText (cref_id ref))] None)
       (\<lambda>rows. case rows of
          [] \<Rightarrow> raise missing_credential
        | r # _ \<Rightarrow> lift (vault_deserialize r))"

definition vault_resolve ::
  "path \<Rightarrow> aead \<Rightarrow> bytes \<Rightarrow> credential_ref \<Rightarrow> (dbhost, broker_credential) io" where
  "vault_resolve p lib key ref =
     bind (vault_load p ref) (\<lambda>s.
     bind (try_except (lift (cipher_decrypt lib key s)) is_exception (\<lambda>_. raise not_decrypted))
       (\<lambda>plaintext. ret \<lparr>bc_value = plaintext\<rparr>))"

text \<open>An encrypted secret put under a reference, with the checks of its constructor.\<close>

definition vault_put :: "path \<Rightarrow> credential_ref \<times> int \<times> bytes \<times> bytes \<Rightarrow> (dbhost, unit) io" where
  "vault_put p = (\<lambda>(ref, v, nonce, ciphertext).
     bind (lift (mk_encrypted_secret v nonce ciphertext)) (vault_insert p ref))"

section \<open>What is stored is found\<close>

abbreviation vault_rows :: "path \<Rightarrow> dbhost \<Rightarrow> row list \<Rightarrow> bool" where
  "vault_rows \<equiv> table_rows vault_table vault_schema [[lit ''id'']]"

definition vault_ready :: "path \<Rightarrow> dbhost \<Rightarrow> bool" where
  "vault_ready p h \<longleftrightarrow> (\<exists>rows. vault_rows p h rows)"

definition secret_of :: "row list \<Rightarrow> credential_ref \<Rightarrow> encrypted_secret res" where
  "secret_of rows ref = thenR (bind_value (SqlText (cref_id ref)))
     (case rows_where [(0, SqlText (cref_id ref))] rows of
        [] \<Rightarrow> Inl missing_credential
      | r # _ \<Rightarrow> vault_deserialize (map ((!) r) [1, 2, 3]))"

definition vault_view :: "path \<Rightarrow> dbhost \<Rightarrow> credential_ref \<Rightarrow> encrypted_secret res" where
  "vault_view p h = secret_of (stored_rows p vault_table h)"

lemma vault_schema_facts [simp]:
  "distinct (map fst vault_schema)" "length vault_schema = 4" "vault_schema \<noteq> []"
  "conds_on vault_schema [(0, v)] = [(lit ''id'', v)]"
  "fst (vault_schema ! 0) = lit ''id''"
  "fst (vault_schema ! Suc 0) = lit ''encryption_version''"
  "fst (vault_schema ! 2) = lit ''nonce''" "fst (vault_schema ! 3) = lit ''ciphertext''"
  by (simp_all add: vault_schema_def conds_on_def)

lemma vault_load_run:
  assumes "vault_rows p h rows" "vault_load p ref h = (r, h')"
  shows "only_db p h h' \<and> vault_rows p h' rows
    \<and> (r = secret_of rows ref \<or> r = Inl credential_not_loaded \<and> h_faults h \<noteq> [])"
proof -
  obtain q h1 where q: "query_rows credential_not_loaded p vault_table
      (map (\<lambda>i. fst (vault_schema ! i)) [1, 2, 3])
      (conds_on vault_schema [(0, SqlText (cref_id ref))]) None h = (q, h1)"
    by fastforce
  from query_columns_run [OF assms(1) vault_schema_facts(1) _ _ q]
  have run: "only_db p h h1" "\<forall>n. table_at h1 p n = table_at h p n"
    "q = thenR (bind_value (SqlText (cref_id ref)))
        (Inr (map (\<lambda>r. map ((!) r) [1, 2, 3]) (rows_where [(0, SqlText (cref_id ref))] rows)))
     \<or> q = Inl credential_not_loaded \<and> h_faults h \<noteq> []"
    by (auto simp: thenR_def bindR_def split: sum.splits)
  from assms(2) q have r: "h' = h1" "r = (case q of Inl e \<Rightarrow> Inl e
      | Inr [] \<Rightarrow> Inl missing_credential | Inr (r # _) \<Rightarrow> vault_deserialize r)"
    by (auto simp: vault_load_def bind_apply split: sum.splits list.splits)
  have "thenR b (Inr (map f rs)) = q \<Longrightarrow>
      r = thenR b (case rs of [] \<Rightarrow> Inl missing_credential | r # _ \<Rightarrow> vault_deserialize (f r))" for b f rs
    using r(2) by (cases b; cases rs) auto
  with run r(1) assms(1) have "r = secret_of rows ref \<or> q = Inl credential_not_loaded \<and> h_faults h \<noteq> []"
    unfolding secret_of_def by metis
  with run r assms(1) show ?thesis by (auto simp: table_rows_def)
qed

lemma vault_insert_run:
  assumes "vault_rows p h rows" "vault_insert p ref s h = (q, h')"
  shows "only_db p h h' \<and> (\<forall>n. n \<noteq> vault_table \<longrightarrow> table_at h' p n = table_at h p n)
    \<and> (case q of
         Inr _ \<Rightarrow> bind_values (vault_row ref s) = Inr ()
           \<and> (\<forall>r \<in> set rows. r ! 0 \<noteq> SqlText (cref_id ref)) \<and> vault_rows p h' (rows @ [vault_row ref s])
       | Inl e \<Rightarrow> vault_rows p h' rows
           \<and> (e = credential_not_stored \<and> h_faults h \<noteq> [] \<or> bind_values (vault_row ref s) = Inl e
              \<or> e = duplicate_credential \<and> (\<exists>r \<in> set rows. r ! 0 = SqlText (cref_id ref))))"
proof -
  let ?v = "vault_row ref s"
  have v: "length ?v = length vault_schema" "SqlNull \<notin> set ?v" "?v ! 0 = SqlText (cref_id ref)"
    by (auto simp: vault_row_def)
  from assms(1) have t: "table_at h p vault_table = Some (made vault_schema [[fst (vault_schema ! 0)]] rows)"
    "\<forall>r \<in> set rows. length r = 4" by (simp_all add: table_rows_def)
  obtain q1 h1 where q1: "transaction p (insert_into vault_table vault_columns ?v) h = (q1, h1)"
    by fastforce
  have u: "unique_violation (made vault_schema [[fst (vault_schema ! 0)]] rows) ?v =
    (if \<exists>r' \<in> set rows. r' ! 0 = SqlText (cref_id ref) then Some [lit ''id''] else None)"
    using unique_violation_key [OF vault_schema_facts(1), of ?v rows] t(2) v by simp
  from insert_made [OF q1 [unfolded vault_columns_def] t(1) vault_schema_facts(1) v(1,2), unfolded u]
  have i: "only_db p h h1" "\<forall>n'. n' \<noteq> vault_table \<longrightarrow> table_at h1 p n' = table_at h p n'"
    "q1 = Inr () \<and> bind_values ?v = Inr () \<and> (\<forall>r \<in> set rows. r ! 0 \<noteq> SqlText (cref_id ref))
        \<and> table_at h1 p vault_table = Some (made vault_schema [[lit ''id'']] (rows @ [?v]))
      \<or> (\<exists>e. q1 = Inl e \<and> table_at h1 p vault_table = Some (made vault_schema [[lit ''id'']] rows)
          \<and> (e = sql_error \<and> h_faults h \<noteq> [] \<or> bind_values ?v = Inl e
             \<or> (\<exists>r \<in> set rows. r ! 0 = SqlText (cref_id ref))
               \<and> e = constraint_failed ''UNIQUE'' vault_table [lit ''id'']))"
    by (auto split: if_splits)
  have r: "h' = h1" "q = (case q1 of Inl e \<Rightarrow> Inl (if catches SqliteError e
        then if catches SqliteIntegrityError e then duplicate_credential else credential_not_stored
        else e) | Inr _ \<Rightarrow> Inr ())"
    using assms(2) q1 by (auto simp: vault_insert_def try_except_def split: sum.splits if_splits)
  from i(3) show ?thesis
  proof (elim disjE exE conjE)
    fix e assume *: "q1 = Inl e" "bind_values ?v = Inl e"
      "table_at h1 p vault_table = Some (made vault_schema [[lit ''id'']] rows)"
    with bind_values_not_sql [OF *(2)] r i t(2) show ?thesis by (auto simp: table_rows_def)
  qed (use r i t(2) v(1) in \<open>auto simp: table_rows_def catches_def sql_error_def\<close>)
qed

lemma mk_encrypted_secret_Inr:
  "mk_encrypted_secret v n c = Inr s \<longleftrightarrow>
     length n = 12 \<and> c \<noteq> [] \<and> s = \<lparr>es_version = v, es_nonce = n, es_ciphertext = c\<rparr>"
  by (auto simp: mk_encrypted_secret_def)

lemma secret_eta [simp]:
  "\<lparr>es_version = es_version s, es_nonce = es_nonce s, es_ciphertext = es_ciphertext s\<rparr> = s"
  by (cases s) simp

lemma secret_roundtrip:
  "secret_ok s \<Longrightarrow> vault_deserialize (map ((!) (vault_row ref s)) [1, 2, 3]) = Inr s"
  by (simp add: vault_row_def secret_ok_def mk_encrypted_secret_def)

lemma secret_of_append:
  assumes "secret_ok s" "bind_values (vault_row ref s) = Inr ()"
    "\<forall>r \<in> set rows. r ! 0 \<noteq> SqlText (cref_id ref)"
  shows "secret_of (rows @ [vault_row ref s]) = (secret_of rows)(ref := Inr s)"
proof
  fix ref'
  have r1: "vault_row ref s ! 0 = SqlText (cref_id ref)" by (simp add: vault_row_def)
  show "secret_of (rows @ [vault_row ref s]) ref' = ((secret_of rows)(ref := Inr s)) ref'"
  proof (cases "ref' = ref")
    case True
    have b: "bind_value (SqlText (cref_id ref)) = Inr ()" using assms(2) by (simp add: vault_row_def)
    have "rows_where [(0, SqlText (cref_id ref))] rows = []"
      using assms(3) by (auto simp: rows_where_def filter_empty_conv)
    with True r1 b secret_roundtrip [OF assms(1)] show ?thesis by (simp add: secret_of_def)
  next
    case False
    then have "cref_id ref' \<noteq> cref_id ref" by (cases ref; cases ref') simp
    with r1 False show ?thesis by (simp add: secret_of_def)
  qed
qed

lemma vault_put_run:
  assumes "vault_rows p h rows" "vault_put p (ref, v, n, c) h = (q, h')"
  shows "only_db p h h' \<and> (case q of
       Inr _ \<Rightarrow> \<exists>s. mk_encrypted_secret v n c = Inr s \<and> secret_ok s
           \<and> bind_values (vault_row ref s) = Inr ()
           \<and> (\<forall>r \<in> set rows. r ! 0 \<noteq> SqlText (cref_id ref)) \<and> vault_rows p h' (rows @ [vault_row ref s])
     | Inl e \<Rightarrow> vault_rows p h' rows)"
proof (cases "mk_encrypted_secret v n c")
  case (Inl e)
  with assms show ?thesis by (auto simp: vault_put_def)
next
  case (Inr s)
  then have "secret_ok s" by (auto simp: mk_encrypted_secret_Inr secret_ok_def)
  moreover from Inr assms(2) have "vault_insert p ref s h = (q, h')" by (simp add: vault_put_def)
  ultimately show ?thesis using vault_insert_run [OF assms(1)] Inr by (fastforce split: sum.splits)
qed

interpretation vault: keyed_store "vault_put p" "vault_load p" fst "vault_view p"
  "Inl missing_credential" "\<lambda>(ref, v, n, c). Inr \<lparr>es_version = v, es_nonce = n, es_ciphertext = c\<rparr>"
  "vault_ready p" p
  for p
proof
  fix h h' :: dbhost and k r
  assume "vault_ready p h" "vault_load p k h = (r, h')"
  with vault_load_run show "vault_ready p h' \<and> vault_view p h' = vault_view p h
      \<and> only_db p h h' \<and> (r = vault_view p h k \<or> isl r \<and> h_faults h \<noteq> [])"
    by (fastforce simp: vault_ready_def vault_view_def)
next
  fix h h' :: dbhost and x
  assume a: "vault_ready p h" "vault_put p x h = (Inr (), h')"
  obtain ref v n c where x: "x = (ref, v, n, c)" by (cases x)
  from a(1) obtain rows where rows: "vault_rows p h rows" by (auto simp: vault_ready_def)
  from vault_put_run [OF rows a(2) [unfolded x]] obtain s where s: "mk_encrypted_secret v n c = Inr s"
    "secret_ok s" "bind_values (vault_row ref s) = Inr ()"
    "\<forall>r \<in> set rows. r ! 0 \<noteq> SqlText (cref_id ref)" "vault_rows p h' (rows @ [vault_row ref s])" by auto
  from secret_of_append [OF s(2-4)] s(1,5) rows
  show "vault_ready p h' \<and> vault_view p h' = (vault_view p h)(fst x :=
      (case x of (ref, v, n, c) \<Rightarrow> Inr \<lparr>es_version = v, es_nonce = n, es_ciphertext = c\<rparr>))"
    by (auto simp: vault_ready_def vault_view_def x mk_encrypted_secret_Inr)
next
  fix h h' :: dbhost and x e
  assume a: "vault_ready p h" "vault_put p x h = (Inl e, h')"
  obtain ref v n c where x: "x = (ref, v, n, c)" by (cases x)
  from a(1) obtain rows where rows: "vault_rows p h rows" by (auto simp: vault_ready_def)
  from vault_put_run [OF rows a(2) [unfolded x]] rows
  show "vault_ready p h' \<and> vault_view p h' = vault_view p h"
    by (auto simp: vault_ready_def vault_view_def)
next
  fix h h' :: dbhost and x s
  assume a: "vault_ready p h" "vault_put p x h = (s, h')"
  obtain ref v n c where x: "x = (ref, v, n, c)" by (cases x)
  from a(1) obtain rows where rows: "vault_rows p h rows" by (auto simp: vault_ready_def)
  from vault_put_run [OF rows a(2) [unfolded x]]
  show "\<forall>q. q \<noteq> p \<longrightarrow> h_files h' q = h_files h q" by (simp add: only_db_def)
qed

text \<open>A successful \<open>store\<close> is a put of what the cipher made.\<close>

lemma vault_store_put:
  assumes "aead_correct lib" "length key = 32" "vault_store p lib key ref x h = (Inr (), h')"
  shows "\<exists>s h1. vault_put p (ref, es_version s, es_nonce s, es_ciphertext s) h1 = (Inr (), h')
    \<and> cipher_decrypt lib key s = Inr x \<and> secret_ok s \<and> h1 = h\<lparr>h_entropy := h_entropy h1\<rparr>"
proof -
  from assms(3) obtain s h1 where s: "cipher_encrypt lib key x h = (Inr s, h1)"
    "vault_insert p ref s h1 = (Inr (), h')"
    by (auto simp: vault_store_def bind_apply try_except_def split: sum.splits prod.splits if_splits)
  have "mk_encrypted_secret (es_version s) (es_nonce s) (es_ciphertext s) = Inr s"
    using cipher_encrypt_run [OF assms(1,2) s(1)] by (simp add: mk_encrypted_secret_Inr secret_ok_def)
  with s(2) have "vault_put p (ref, es_version s, es_nonce s, es_ciphertext s) h1 = (Inr (), h')"
    by (simp add: vault_put_def)
  with cipher_encrypt_run [OF assms(1,2) s(1)] show ?thesis by blast
qed

lemma table_rows_entropy [simp]: "table_rows n cols uq p (h\<lparr>h_entropy := e\<rparr>) rows = table_rows n cols uq p h rows"
  by (simp add: table_rows_def table_at_def db_at_def)

lemma vault_resolve_run:
  assumes "vault_rows p h rows" "vault_resolve p lib key ref h = (r, h')"
  shows "vault_rows p h' rows \<and> only_db p h h'
    \<and> (r = bindR (secret_of rows ref) (\<lambda>s. bindR (catchR (cipher_decrypt lib key s) is_exception
              (\<lambda>_. Inl not_decrypted)) (\<lambda>x. Inr \<lparr>bc_value = x\<rparr>))
       \<or> r = Inl credential_not_loaded \<and> h_faults h \<noteq> [])"
proof -
  obtain q h1 where q: "vault_load p ref h = (q, h1)" by fastforce
  from assms(2) q have "h' = h1" "r = bindR q (\<lambda>s. bindR (catchR (cipher_decrypt lib key s) is_exception
              (\<lambda>_. Inl not_decrypted)) (\<lambda>x. Inr \<lparr>bc_value = x\<rparr>))"
    by (auto simp: vault_resolve_def bind_apply try_except_def bindR_def catchR_def split: sum.splits if_splits)
  with vault_load_run [OF assms(1) q] show ?thesis by auto
qed

text \<open>
  C15. Vault round trip: after a secret was stored, resolving its reference with the same key
  gives the secret back, whatever its octets and the nonce that was drawn, and every other
  reference resolves as before.
\<close>

theorem vault_roundtrip:
  assumes "aead_correct lib" "length key = 32" "h_faults h = []"
    "table_at h p vault_table = Some (made vault_schema [[lit ''id'']] rows)"
    "\<forall>r \<in> set rows. length r = length vault_schema"
    "vault_store p lib key ref x h = (Inr (), h')"
  shows "fst (vault_resolve p lib key ref h') = Inr \<lparr>bc_value = x\<rparr>
    \<and> (\<forall>ref'. ref' \<noteq> ref \<longrightarrow>
        fst (vault_resolve p lib key ref' h') = fst (vault_resolve p lib key ref' h))"
proof -
  have rows: "vault_rows p h rows" using assms(4,5) by (simp add: table_rows_def)
  from vault_store_put [OF assms(1,2,6)] obtain s h1 where s:
    "vault_put p (ref, es_version s, es_nonce s, es_ciphertext s) h1 = (Inr (), h')"
    "cipher_decrypt lib key s = Inr x" "secret_ok s" "h1 = h\<lparr>h_entropy := h_entropy h1\<rparr>" by blast
  have rows1: "vault_rows p h1 rows" using rows s(4) table_rows_entropy by metis
  from vault_put_run [OF rows1 s(1)] have v: "bind_values (vault_row ref s) = Inr ()"
    "\<forall>r \<in> set rows. r ! 0 \<noteq> SqlText (cref_id ref)" "vault_rows p h' (rows @ [vault_row ref s])"
    "only_db p h1 h'"
    by (auto simp: mk_encrypted_secret_Inr)
  have f: "h_faults h' = []"
  proof -
    have "h_faults h1 = h_faults (h\<lparr>h_entropy := h_entropy h1\<rparr>)" using s(4) by simp
    then show ?thesis using v(4) assms(3) by (simp add: only_db_def)
  qed
  have res: "fst (vault_resolve p lib key k g) = bindR (secret_of rs k) (\<lambda>s. bindR (catchR
      (cipher_decrypt lib key s) is_exception (\<lambda>_. Inl not_decrypted)) (\<lambda>x. Inr \<lparr>bc_value = x\<rparr>))"
    if "vault_rows p g rs" "h_faults g = []" for k g rs
    using vault_resolve_run [OF that(1), of lib key k "fst (vault_resolve p lib key k g)"
        "snd (vault_resolve p lib key k g)"] that(2) by simp
  have sec: "secret_of (rows @ [vault_row ref s]) = (secret_of rows)(ref := Inr s)"
    using secret_of_append [OF s(3) v(1,2)] .
  show ?thesis
    by (simp add: res [OF v(3) f] res [OF rows assms(3)] sec s(2))
qed

definition toy_aead :: aead where
  "toy_aead = \<lparr>ae_encrypt = (\<lambda>k n x. Inr (k @ n @ x)),
     ae_decrypt = (\<lambda>k n c. if take 44 c = k @ n then Inr (drop 44 c) else Inl (err InvalidTag []))\<rparr>"

lemma toy_aead_correct: "aead_correct toy_aead"
  by (auto simp: aead_correct_def toy_aead_def)

definition vault_host :: dbhost where
  "vault_host = \<lparr>h_files = [[] \<mapsto> Directory 0x1C0,
       [lit ''v''] \<mapsto> Regular 0x180 (Db \<lparr>db_version = 1, db_tables =
         [(vault_table, made vault_schema [[lit ''id'']] [])]\<rparr>)],
     h_umask = 0x3F, h_entropy = replicate 12 7, h_faults = [], h_chunks = []\<rparr>"

theorem vault_roundtrip_witness:
  "case vault_store [lit ''v''] toy_aead (replicate 32 1) \<lparr>cref_id = lit ''c''\<rparr> [1, 2, 3] vault_host of
     (q, h') \<Rightarrow> q = Inr () \<and>
       fst (vault_resolve [lit ''v''] toy_aead (replicate 32 1) \<lparr>cref_id = lit ''c''\<rparr> h')
         = Inr \<lparr>bc_value = [1, 2, 3]\<rparr>"
proof -
  let ?p = "[lit ''v'']" and ?k = "replicate 32 1 :: bytes" and ?ref = "\<lparr>cref_id = lit ''c''\<rparr>"
  let ?x = "[1, 2, 3] :: bytes"
  obtain q h' where q: "vault_store ?p toy_aead ?k ?ref ?x vault_host = (q, h')" by fastforce
  have t: "table_at vault_host ?p vault_table = Some (made vault_schema [[lit ''id'']] [])"
    by (simp add: table_at_def db_at_def vault_host_def)
  have f: "h_faults vault_host = []" by (simp add: vault_host_def)
  obtain s h1 where s: "cipher_encrypt toy_aead ?k ?x vault_host = (Inr s, h1)"
    "h1 = vault_host\<lparr>h_entropy := []\<rparr>"
    by (simp add: cipher_encrypt_def bind_apply token_bytes_def vault_host_def toy_aead_def
        mk_encrypted_secret_def)
  have "es_version s = 1" using cipher_encrypt_run [OF toy_aead_correct _ s(1)] by simp
  then have b: "bind_values (vault_row ?ref s) = Inr ()"
    using encodable_lit by (simp add: vault_row_def)
  from q s(1) have ins: "vault_insert ?p ?ref s h1 = (q, h')"
    by (simp add: vault_store_def bind_apply try_except_def)
  have "vault_rows ?p h1 []" using t s(2) by (simp add: table_rows_def table_at_def db_at_def)
  from vault_insert_run [OF this ins] b s(2) f have "q = Inr ()" by (auto split: sum.splits)
  with vault_roundtrip [OF toy_aead_correct _ f t _ q [unfolded \<open>q = Inr ()\<close>]] q
  show ?thesis by simp
qed

lemma vault_resolve_keeps_files:
  assumes "vault_rows p h rows" "vault_resolve p lib key ref h = (r, h')"
  shows "same_files h h'"
proof -
  from assms(1) obtain d where d: "db_at h p = Some d"
    by (auto simp: table_rows_def table_at_def split: option.splits)
  obtain q h1 where q: "query_rows credential_not_loaded p vault_table
      [lit ''encryption_version'', lit ''nonce'', lit ''ciphertext''] [(lit ''id'', SqlText (cref_id ref))]
      None h = (q, h1)" by fastforce
  with assms(2) have "h' = h1"
    by (auto simp: vault_resolve_def vault_load_def bind_apply try_except_def split: sum.splits list.splits if_splits)
  with query_keeps_files [OF q d] show ?thesis by simp
qed

text \<open>
  C16. The Vault fails closed, for every identifier and under every fault of the host: a credential
  comes out only if a row of that id, of the cipher's version, authenticates under the key; a missing
  row, malformed values, another version, a wrong key or a manipulated ciphertext end in a
  \<open>VaultError\<close> (never in \<open>None\<close>). The only other error is the \<open>UnicodeEncodeError\<close> of an identifier
  with a surrogate, which SQLite cannot bind and the code does not catch. No outcome changes any file,
  the mask or the source of random octets.
\<close>

theorem vault_fails_closed:
  assumes "table_at h p vault_table = Some (made vault_schema [[lit ''id'']] rows)"
    "\<forall>r \<in> set rows. length r = length vault_schema"
    "\<forall>k n c e. ae_decrypt lib k n c = Inl e \<longrightarrow> is_exception e"
    "vault_resolve p lib key ref h = (r, h')"
  shows "h_files h' = h_files h \<and> h_umask h' = h_umask h \<and> h_entropy h' = h_entropy h \<and>
    (case r of
       Inr c \<Rightarrow> \<exists>n ct. [SqlText (cref_id ref), SqlInt 1, SqlBlob n, SqlBlob ct] \<in> set rows
         \<and> ae_decrypt lib key n ct = Inr (bc_value c)
     | Inl e \<Rightarrow> exn_class e = VaultError
         \<or> exn_class e = UnicodeEncodeError \<and> \<not> list_all encodable (cref_id ref))"
proof -
  have rows: "vault_rows p h rows" using assms(1,2) by (simp add: table_rows_def)
  note run = vault_resolve_run [OF rows assms(4)]
  have dec: "vault_deserialize w = Inl e \<Longrightarrow> exn_class e = VaultError" for w e
    by (induction w rule: vault_deserialize.induct)
      (auto simp: not_decrypted_def mk_encrypted_secret_def split: if_splits)
  have des: "vault_deserialize w = Inr s \<Longrightarrow> w = [SqlInt (es_version s), SqlBlob (es_nonce s),
      SqlBlob (es_ciphertext s)]" for w s
    by (induction w rule: vault_deserialize.induct)
      (auto simp: not_decrypted_def mk_encrypted_secret_def split: if_splits)
  have found: "vault_row ref s \<in> set rows" if s: "secret_of rows ref = Inr s" for s
  proof -
    from s obtain w ws where w: "rows_where [(0, SqlText (cref_id ref))] rows = w # ws"
      "vault_deserialize (map ((!) w) [1, 2, 3]) = Inr s"
      by (auto simp: secret_of_def split: list.splits)
    have "w \<in> set (rows_where [(0, SqlText (cref_id ref))] rows)" by (simp add: w(1))
    then have "w \<in> set rows" "w ! 0 = SqlText (cref_id ref)" by (auto simp: rows_where_def)
    moreover have "length w = 4" using calculation(1) assms(2) by simp
    ultimately have "w = vault_row ref s"
      using des [OF w(2)] by (auto simp: vault_row_def length_Suc_conv numeral_eq_Suc)
    with \<open>w \<in> set rows\<close> show ?thesis by simp
  qed
  have miss: "secret_of rows ref = Inl e \<Longrightarrow> exn_class e = VaultError
      \<or> exn_class e = UnicodeEncodeError \<and> \<not> list_all encodable (cref_id ref)" for e
    using dec by (auto simp: secret_of_def missing_credential_def thenR_eq_Inl_iff raise_if_def
        split: list.splits if_splits)
  have cipher: "cipher_decrypt lib key s = Inl e \<Longrightarrow> is_exception e" for s e
    using assms(3) by (cases "ae_decrypt lib key (es_nonce s) (es_ciphertext s)")
      (auto simp: cipher_decrypt_def thenR_eq_Inl_iff split: if_splits)
  have "case r of Inr c \<Rightarrow> \<exists>n ct. [SqlText (cref_id ref), SqlInt 1, SqlBlob n, SqlBlob ct] \<in> set rows
         \<and> ae_decrypt lib key n ct = Inr (bc_value c)
     | Inl e \<Rightarrow> exn_class e = VaultError
         \<or> exn_class e = UnicodeEncodeError \<and> \<not> list_all encodable (cref_id ref)"
  proof (cases "secret_of rows ref")
    case (Inl e)
    with run miss show ?thesis by (auto simp: credential_not_loaded_def)
  next
    case (Inr s)
    from found [OF Inr] have row: "[SqlText (cref_id ref), SqlInt (es_version s), SqlBlob (es_nonce s),
      SqlBlob (es_ciphertext s)] \<in> set rows" by (simp add: vault_row_def)
    show ?thesis
    proof (cases "cipher_decrypt lib key s")
      case (Inl e)
      with run \<open>secret_of rows ref = Inr s\<close> cipher show ?thesis
        by (auto simp: credential_not_loaded_def not_decrypted_def)
    next
      case (Inr x)
      then have "es_version s = 1" "ae_decrypt lib key (es_nonce s) (es_ciphertext s) = Inr x"
        by (auto simp: cipher_decrypt_def cipher_version_def catchR_eq_Inr_iff)
      from row this have "\<exists>n ct. [SqlText (cref_id ref), SqlInt 1, SqlBlob n, SqlBlob ct] \<in> set rows
         \<and> ae_decrypt lib key n ct = Inr x" by metis
      moreover have "r = Inr \<lparr>bc_value = x\<rparr> \<or> r = Inl credential_not_loaded"
        using run \<open>secret_of rows ref = Inr s\<close> Inr by auto
      ultimately show ?thesis by (elim disjE) (simp_all add: credential_not_loaded_def)
    qed
  qed
  with vault_resolve_keeps_files [OF rows assms(4)] show ?thesis by (simp add: same_files_def)
qed

theorem vault_fails_closed_witness:
  "\<exists>e h'. vault_resolve [lit ''v''] toy_aead (replicate 32 1) \<lparr>cref_id = lit ''c''\<rparr> vault_host = (Inl e, h')
     \<and> exn_class e = VaultError"
proof -
  let ?ref = "\<lparr>cref_id = lit ''c''\<rparr>"
  have t: "table_at vault_host [lit ''v''] vault_table = Some (made vault_schema [[lit ''id'']] [])"
    by (simp add: table_at_def db_at_def vault_host_def)
  have lib: "\<forall>k n c e. ae_decrypt toy_aead k n c = Inl e \<longrightarrow> is_exception e"
    by (auto simp: toy_aead_def split: if_splits)
  obtain r h' where r: "vault_resolve [lit ''v''] toy_aead (replicate 32 1) ?ref vault_host = (r, h')"
    by fastforce
  from vault_fails_closed [OF t _ lib r] encodable_lit have "isl r \<longrightarrow> exn_class (projl r) = VaultError" "isl r"
    by (cases r; simp)+
  with r show ?thesis by (cases r) auto
qed

section \<open>Opening the Vault\<close>

lemma vault_table_info [simp]: "table_info (made vault_schema uq rows) = vault_schema"
  by (intro table_info_made) (simp add: vault_schema_def upper_def lit_def)

lemma vault_validates:
  "validates vault_validate_schema unsupported_vault (\<lambda>d d'. db_version d \<in> {0, 1} \<and> db_version d' = 1
     \<and> db_tables d' = db_tables d
     \<and> (\<forall>t. map_of (db_tables d) vault_table = Some t \<longrightarrow> table_info t = vault_schema))"
proof -
  {
    fix c r c'
    assume a: "vault_validate_schema (db_version (c_db c)) c = (r, c')"
    obtain q c1 where q: "pragma_table_info vault_table c = (q, c1)" by fastforce
    note q1 = execute_run [OF q [unfolded pragma_table_info_def]]
    have "(c_faults c = [] \<longrightarrow> c_faults c' = []) \<and> (case r of
        Inl e \<Rightarrow> e = unsupported_vault \<or> e = sql_error
      | Inr _ \<Rightarrow> db_version (c_db c) \<in> {0, 1} \<and> db_version (c_db c') = 1
          \<and> db_tables (c_db c') = db_tables (c_db c)
          \<and> (\<forall>t. map_of (db_tables (c_db c)) vault_table = Some t \<longrightarrow> table_info t = vault_schema))"
    proof (cases q)
      case (Inl e)
      with a q q1 show ?thesis by (auto simp: vault_validate_schema_def bind_apply)
    next
      case (Inr i)
      with q1 have i: "c_db c1 = c_db c" "c_faults c = [] \<longrightarrow> c_faults c1 = []"
        "\<forall>t. map_of (db_tables (c_db c)) vault_table = Some t \<longrightarrow> i = table_info t" by auto
      show ?thesis
      proof (cases "db_version (c_db c) \<notin> {0, 1} \<or> i \<noteq> vault_schema")
        case True
        with a q Inr i show ?thesis
          by (auto simp: vault_validate_schema_def bind_apply seq_apply raise_if_def)
      next
        case False
        with a q Inr have s: "(if db_version (c_db c) = 0 then set_user_version 1 else ret ()) c1 = (r, c')"
          by (auto simp: vault_validate_schema_def bind_apply seq_apply raise_if_def split: if_splits)
        show ?thesis
        proof (cases "db_version (c_db c) = 0")
          case True
          with s have "set_user_version 1 c1 = (r, c')" by simp
          from execute_run [OF this [unfolded set_user_version_def]] False i show ?thesis
            by (auto split: sum.splits)
        next
          case nz: False
          with s False i show ?thesis by auto
        qed
      qed
    qed
  }
  then show ?thesis unfolding validates_def by blast
qed

text \<open>
  Opening the Vault never loses data: it succeeds only on a file of mode 0600 with the
  schema and version 1 (an unversioned table is adopted, its rows kept; a new table is made
  only in an unversioned database), and when it refuses, the database is what it was. The
  errors are \<open>VaultError\<close> and \<open>UnsupportedVaultSchemaError\<close>.
\<close>

theorem vault_init_safe:
  assumes "vault_init p h = (r, h')"
  shows "case r of
      Inl e \<Rightarrow> (e = unsupported_vault \<or> e = err VaultError ''vault could not be initialized'')
        \<and> (\<forall>d. db_at h p = Some d \<longrightarrow> db_at h' p = Some d)
    | Inr _ \<Rightarrow> \<exists>c d t. h_files h' p = Some (Regular 0x180 c) \<and> db_at h' p = Some d
        \<and> db_version d = 1 \<and> map_of (db_tables d) vault_table = Some t
        \<and> (case db_at h p of
             None \<Rightarrow> h_files h p = None \<and> db_tables d = [(vault_table, create vault_schema [[lit ''id'']])]
           | Some d0 \<Rightarrow> if map_of (db_tables d0) vault_table = None
               then db_version d0 = 0
                 \<and> db_tables d = db_tables d0 @ [(vault_table, create vault_schema [[lit ''id'']])]
               else db_version d0 \<in> {0, 1} \<and> db_tables d = db_tables d0
                 \<and> table_info t = vault_schema)"
proof -
  have cls: "base_class SqliteError \<noteq> Some VaultError" "VaultError \<noteq> SqliteError"
    "VaultError \<noteq> DatabasePermissionError" "base_class DatabasePermissionError \<noteq> Some VaultError"
    "catches VaultError unsupported_vault" by (simp_all add: unsupported_vault_def)
  note run = init_versioned_run [OF assms [unfolded vault_init_def] vault_validates
      creates_table [of vault_table "create vault_schema [[lit ''id'']]" 1, folded vault_create_schema_def] cls]
  show ?thesis
  proof (cases r)
    case (Inl e)
    with run have e: "e = unsupported_vault \<or> e = err VaultError ''vault could not be initialized''"
      "\<forall>d. start_db p h d \<longrightarrow> h_files h p \<noteq> None \<longrightarrow> db_at h' p = Some d" by simp_all
    have "start_db p h d \<and> h_files h p \<noteq> None" if "db_at h p = Some d" for d
      using that by (auto simp: start_db_def db_at_Some)
    with e Inl show ?thesis by simp
  next
    case (Inr u)
    with run obtain c d d' where d: "h_files h' p = Some (Regular 0x180 c)" "start_db p h d"
      "db_at h' p = Some d'" "if map_of (db_tables d) vault_table = None
         then db_version d = 0 \<and> d' = \<lparr>db_version = 1,
           db_tables = db_tables d @ [(vault_table, create vault_schema [[lit ''id'']])]\<rparr>
         else db_version d \<in> {0, 1} \<and> db_version d' = 1 \<and> db_tables d' = db_tables d
           \<and> (\<forall>t. map_of (db_tables d) vault_table = Some t \<longrightarrow> table_info t = vault_schema)"
      by auto
    have s: "case db_at h p of None \<Rightarrow> h_files h p = None \<and> d = empty_db | Some d0 \<Rightarrow> d0 = d"
      using d(2) by (auto simp: start_db_def db_at_def split: if_splits option.splits)
    show ?thesis
      using d(1,3,4) s Inr by (auto simp: empty_db_def map_add_def split: option.splits if_splits)
  qed
qed

theorem vault_init_safe_witness:
  "case vault_init [lit ''v''] vault_host of (r, h') \<Rightarrow> r = Inr () \<and>
     db_at h' [lit ''v''] = Some \<lparr>db_version = 1,
       db_tables = [(vault_table, made vault_schema [[lit ''id'']] [])]\<rparr>"
proof -
  obtain r h' where r: "vault_init [lit ''v''] vault_host = (r, h')" by fastforce
  have "fst (vault_init [lit ''v''] vault_host) = Inr ()"
    unfolding vault_init_def
  proof (rule init_versioned_works)
    show "usable_path vault_host [lit ''v'']" by (simp add: usable_path_def vault_host_def)
    show "start_db [lit ''v''] vault_host
        \<lparr>db_version = 1, db_tables = [(vault_table, made vault_schema [[lit ''id'']] [])]\<rparr>"
      by (simp add: start_db_def db_at_def vault_host_def)
  qed (simp add: vault_validate_schema_def pragma_table_info_def bind_apply seq_apply vault_table_info)
  with r have "r = Inr ()" by simp
  with vault_init_safe [OF r] r show ?thesis
    by (auto simp: vault_host_def db_at_def split: option.splits)
qed

end
