(* ===== verification/Audit_Chain.thy ===== *)
theory Audit_Chain
  imports Sqlite Domain
begin

text \<open>
  The HMAC chain of the audit trail: \<open>infrastructure/audit/integrity.py\<close> and the static methods
  of \<open>SQLiteAuditRepository\<close> that serialize an event, compute the next link and verify stored
  rows. HMAC-SHA256 is a parameter. What verification establishes is stated against an abstract
  chain: a stored trail passes exactly if it is a chain, and two trails that pass under one key
  are related as \<open>same_messages_prefix\<close> says, whatever the MAC function is.
\<close>

section \<open>\<open>integrity.py\<close>\<close>

definition genesis_mac :: bytes where
  "genesis_mac = replicate 32 0"

text \<open>The serialized event, as \<open>_serialize\<close> returns it.\<close>

record audit_fields =
  af_id :: pystr
  af_timestamp :: pystr
  af_event_type :: pystr
  af_actor_user_id :: pystr
  af_target_id :: pystr
  af_session_id :: "pystr option"
  af_result :: pystr
  af_reason_code :: "pystr option"

definition json_pair :: "string \<Rightarrow> json \<Rightarrow> json" where
  "json_pair k v = JList [JStr (lit k), v]"

fun json_option :: "pystr option \<Rightarrow> json" where
  "json_option None = JNull"
| "json_option (Some s) = JStr s"

definition canonical_event :: "int \<Rightarrow> audit_fields \<Rightarrow> json" where
  "canonical_event n f = JList
     [json_pair ''sequence_no'' (JInt n),
      json_pair ''id'' (JStr (af_id f)),
      json_pair ''timestamp'' (JStr (af_timestamp f)),
      json_pair ''event_type'' (JStr (af_event_type f)),
      json_pair ''actor_user_id'' (JStr (af_actor_user_id f)),
      json_pair ''target_id'' (JStr (af_target_id f)),
      json_pair ''session_id'' (json_option (af_session_id f)),
      json_pair ''result'' (JStr (af_result f)),
      json_pair ''reason_code'' (json_option (af_reason_code f))]"

definition canonical_event_bytes :: "int \<Rightarrow> audit_fields \<Rightarrow> bytes res" where
  "canonical_event_bytes n f = utf8_encode (dumps (canonical_event n f))"

text \<open>\<open>hmac.new(key, message, hashlib.sha256).digest()\<close> is the parameter: key, message.\<close>

type_synonym hmac = "bytes \<Rightarrow> bytes \<Rightarrow> bytes"

definition calculate_event_mac :: "hmac \<Rightarrow> bytes \<Rightarrow> bytes \<Rightarrow> bytes \<Rightarrow> bytes" where
  "calculate_event_mac hmac key canonical previous_mac = hmac key (canonical @ previous_mac)"

definition macs_match :: "bytes \<Rightarrow> bytes \<Rightarrow> bool" where
  "macs_match actual expected \<longleftrightarrow> actual = expected"

section \<open>Serialization and links\<close>

definition storage_error :: "string \<Rightarrow> exn" where
  "storage_error m = err AuditStorageError m"

definition integrity_failed :: exn where
  "integrity_failed = err AuditIntegrityError ''audit chain integrity verification failed''"

definition audit_serialize :: "audit_event \<Rightarrow> audit_fields res" where
  "audit_serialize ev =
     thenR (raise_if (\<not> aware (ev_timestamp ev))
              (storage_error ''audit event contains an invalid timestamp''))
    (bindR (catchR (bindR (astimezone_utc (ev_timestamp ev)) (\<lambda>d. Inr (isoformat_z d)))
              (catches_any [TypeError, ValueError])
              (\<lambda>_. Inl (storage_error ''audit event contains an invalid timestamp'')))
       (\<lambda>timestamp. Inr
          \<lparr>af_id = ev_id ev, af_timestamp = timestamp, af_event_type = event_type_value (ev_type ev),
           af_actor_user_id = ev_actor_user_id ev, af_target_id = ev_target_id ev,
           af_session_id = ev_session_id ev, af_result = ev_result ev,
           af_reason_code = ev_reason_code ev\<rparr>))"

fun next_chain_link :: "row option \<Rightarrow> (int \<times> bytes) res" where
  "next_chain_link None = Inr (1, genesis_mac)"
| "next_chain_link (Some [SqlInt n, SqlBlob mac]) =
     (if n < 1 \<or> length mac \<noteq> 32 then Inl (storage_error ''audit chain head is invalid'')
      else Inr (n + 1, mac))"
| "next_chain_link (Some _) = Inl (storage_error ''audit chain head is invalid'')"

fun opt_text :: "pystr option \<Rightarrow> sqlval" where
  "opt_text None = SqlNull"
| "opt_text (Some s) = SqlText s"

fun text_or_null :: "sqlval \<Rightarrow> pystr option option" where
  "text_or_null SqlNull = Some None"
| "text_or_null (SqlText s) = Some (Some s)"
| "text_or_null _ = None"

definition event_row :: "int \<Rightarrow> audit_fields \<Rightarrow> bytes \<Rightarrow> bytes \<Rightarrow> row" where
  "event_row n f previous_mac event_mac =
     [SqlInt n, SqlText (af_id f), SqlText (af_timestamp f), SqlText (af_event_type f),
      SqlText (af_actor_user_id f), SqlText (af_target_id f), opt_text (af_session_id f),
      SqlText (af_result f), opt_text (af_reason_code f), SqlBlob previous_mac, SqlBlob event_mac]"

text \<open>\<open>_validate_stored_row\<close>, with the values of a row that passes.\<close>

fun int_value :: "sqlval \<Rightarrow> int option" where
  "int_value (SqlInt n) = Some n"
| "int_value _ = None"

fun text_value :: "sqlval \<Rightarrow> pystr option" where
  "text_value (SqlText s) = Some s"
| "text_value _ = None"

fun mac_value :: "sqlval \<Rightarrow> bytes option" where
  "mac_value (SqlBlob b) = (if length b = 32 then Some b else None)"
| "mac_value _ = None"

definition need :: "'a option \<Rightarrow> ('a \<Rightarrow> 'b res) \<Rightarrow> 'b res" where
  "need v k = (case v of None \<Rightarrow> Inl integrity_failed | Some x \<Rightarrow> k x)"

definition stored_fields :: "row \<Rightarrow> (int \<times> audit_fields \<times> bytes \<times> bytes) res" where
  "stored_fields r =
     (if length r \<noteq> 11 then Inl integrity_failed
      else need (int_value (r ! 0)) (\<lambda>n.
           need (text_value (r ! 1)) (\<lambda>i.
           need (text_value (r ! 2)) (\<lambda>timestamp.
           need (text_value (r ! 3)) (\<lambda>event_type.
           need (text_value (r ! 4)) (\<lambda>actor.
           need (text_value (r ! 5)) (\<lambda>target.
           need (text_or_null (r ! 6)) (\<lambda>sess.
           need (text_value (r ! 7)) (\<lambda>result.
           need (text_or_null (r ! 8)) (\<lambda>reason.
           need (mac_value (r ! 9)) (\<lambda>previous_mac.
           need (mac_value (r ! 10)) (\<lambda>event_mac.
             Inr (n, \<lparr>af_id = i, af_timestamp = timestamp, af_event_type = event_type,
               af_actor_user_id = actor, af_target_id = target, af_session_id = sess,
               af_result = result, af_reason_code = reason\<rparr>, previous_mac, event_mac)))))))))))))"

text \<open>\<open>_verify_rows\<close>, from the state of its loop.\<close>

fun verify_rows :: "hmac \<Rightarrow> bytes \<Rightarrow> int \<Rightarrow> bytes \<Rightarrow> row list \<Rightarrow> unit res" where
  "verify_rows hmac key expected_sequence expected_previous_mac [] = Inr ()"
| "verify_rows hmac key expected_sequence expected_previous_mac (r # rows) =
     bindR (stored_fields r) (\<lambda>(n, f, previous_mac, event_mac).
       if n \<noteq> expected_sequence \<or> \<not> macs_match previous_mac expected_previous_mac
       then Inl integrity_failed
       else bindR (canonical_event_bytes n f) (\<lambda>canonical.
         if \<not> macs_match event_mac (calculate_event_mac hmac key canonical previous_mac)
         then Inl integrity_failed
         else verify_rows hmac key (expected_sequence + 1) event_mac rows))"

section \<open>The encoding is injective\<close>

lemma json_option_inject [simp]: "json_option a = json_option b \<longleftrightarrow> a = b"
  by (cases a; cases b) simp_all

lemma canonical_event_inject: "canonical_event n f = canonical_event m g \<Longrightarrow> n = m \<and> f = g"
  by (cases f; cases g) (simp add: canonical_event_def json_pair_def)

lemma canonical_event_bytes_inject:
  "canonical_event_bytes n f = Inr c \<Longrightarrow> canonical_event_bytes m g = Inr c \<Longrightarrow> n = m \<and> f = g"
  unfolding canonical_event_bytes_def
  by (drule (1) utf8_encode_inject) (auto dest: dumps_inject canonical_event_inject)

lemma value_Some [simp]:
  "int_value v = Some n \<longleftrightarrow> v = SqlInt n" "text_value v = Some s \<longleftrightarrow> v = SqlText s"
  "text_or_null v = Some t \<longleftrightarrow> v = opt_text t"
  "mac_value v = Some b \<longleftrightarrow> v = SqlBlob b \<and> length b = 32"
  by (cases v; auto; cases t; auto)+

lemma need_Inr [simp]: "need v k = Inr y \<longleftrightarrow> (\<exists>x. v = Some x \<and> k x = Inr y)"
  by (cases v) (simp_all add: need_def)

lemma need_Inl: "need v k = Inl e \<Longrightarrow> (\<And>x. k x = Inl e \<Longrightarrow> e = integrity_failed) \<Longrightarrow> e = integrity_failed"
  by (cases v) (simp_all add: need_def)

lemma stored_fields_error: "stored_fields r = Inl e \<Longrightarrow> e = integrity_failed"
  unfolding stored_fields_def by (auto elim!: need_Inl split: if_splits)

lemma nth_event_row:
  "event_row n f p m ! 2 = SqlText (af_timestamp f)" "event_row n f p m ! 3 = SqlText (af_event_type f)"
  "event_row n f p m ! 4 = SqlText (af_actor_user_id f)" "event_row n f p m ! 5 = SqlText (af_target_id f)"
  "event_row n f p m ! 6 = opt_text (af_session_id f)" "event_row n f p m ! 7 = SqlText (af_result f)"
  "event_row n f p m ! 8 = opt_text (af_reason_code f)" "event_row n f p m ! 9 = SqlBlob p"
  "event_row n f p m ! 10 = SqlBlob m" "event_row n f p m ! 0 = SqlInt n"
  "event_row n f p m ! Suc 0 = SqlText (af_id f)" "length (event_row n f p m) = 11"
  by (simp_all add: event_row_def)

lemma event_row_nths:
  assumes "length r = 11" "r ! 0 = SqlInt n" "r ! Suc 0 = SqlText (af_id f)"
    "r ! 2 = SqlText (af_timestamp f)" "r ! 3 = SqlText (af_event_type f)"
    "r ! 4 = SqlText (af_actor_user_id f)" "r ! 5 = SqlText (af_target_id f)"
    "r ! 6 = opt_text (af_session_id f)" "r ! 7 = SqlText (af_result f)"
    "r ! 8 = opt_text (af_reason_code f)" "r ! 9 = SqlBlob p" "r ! 10 = SqlBlob m"
  shows "r = event_row n f p m"
proof (rule nth_equalityI)
  fix i assume "i < length r"
  then have "i \<in> set (upt 0 11)" using assms(1) by simp
  moreover have "upt 0 11 = [0, Suc 0, 2, 3, 4, 5, 6, 7, 8, 9, 10]" by (simp add: upt_rec)
  ultimately have "i \<in> {0, Suc 0, 2, 3, 4, 5, 6, 7, 8, 9, 10}" by simp
  then show "r ! i = event_row n f p m ! i" using assms by (auto simp: nth_event_row)
qed (simp add: assms nth_event_row)

lemma event_row_fields:
  "stored_fields r = Inr (n, f, p, m) \<longleftrightarrow> r = event_row n f p m \<and> length p = 32 \<and> length m = 32"
proof
  assume "stored_fields r = Inr (n, f, p, m)"
  then show "r = event_row n f p m \<and> length p = 32 \<and> length m = 32"
    by (auto simp: stored_fields_def split: if_splits intro!: event_row_nths)
next
  assume "r = event_row n f p m \<and> length p = 32 \<and> length m = 32"
  then show "stored_fields r = Inr (n, f, p, m)"
    by (cases f) (simp add: stored_fields_def nth_event_row)
qed

lemma opt_text_inject [simp]: "opt_text a = opt_text b \<longleftrightarrow> a = b"
  by (cases a; cases b) simp_all

lemmas event_row_nth [simp] = nth_event_row(9-12)

section \<open>Chains\<close>

text \<open>
  The abstract trail: events numbered from \<open>n\<close> on, each with the MAC of its canonical octets
  and of the MAC before it.
\<close>

definition link_message :: "int \<Rightarrow> audit_fields \<Rightarrow> bytes \<Rightarrow> bytes option" where
  "link_message n f previous_mac =
     (case canonical_event_bytes n f of Inl e \<Rightarrow> None | Inr c \<Rightarrow> Some (c @ previous_mac))"

fun chain :: "hmac \<Rightarrow> bytes \<Rightarrow> int \<Rightarrow> bytes \<Rightarrow> audit_fields list \<Rightarrow> row list option" where
  "chain hmac key n prev [] = Some []"
| "chain hmac key n prev (f # fs) =
     (case link_message n f prev of
        None \<Rightarrow> None
      | Some msg \<Rightarrow> map_option (Cons (event_row n f prev (hmac key msg)))
                      (chain hmac key (n + 1) (hmac key msg) fs))"

definition hmac_sized :: "hmac \<Rightarrow> bool" where
  "hmac_sized hmac \<longleftrightarrow> (\<forall>k m. length (hmac k m) = 32)"

lemma verify_rows_chain:
  assumes "hmac_sized hmac" "length prev = 32"
  shows "verify_rows hmac key n prev rows = Inr () \<longleftrightarrow> (\<exists>fs. chain hmac key n prev fs = Some rows)"
  using assms(2)
proof (induction rows arbitrary: n prev)
  case Nil
  show ?case by (auto intro: exI [of _ "[]"])
next
  case (Cons r rows)
  have step: "verify_rows hmac key n prev (r # rows) = Inr () \<longleftrightarrow> (\<exists>f c.
      canonical_event_bytes n f = Inr c \<and> r = event_row n f prev (hmac key (c @ prev))
      \<and> verify_rows hmac key (n + 1) (hmac key (c @ prev)) rows = Inr ())" (is "?l \<longleftrightarrow> ?r")
  proof
    assume ?l
    then obtain n' f p m where s: "stored_fields r = Inr (n', f, p, m)"
      by (cases "stored_fields r") auto
    with \<open>?l\<close> show ?r
      by (auto simp: macs_match_def calculate_event_mac_def event_row_fields bindR_def
          split: if_splits sum.splits)
  next
    assume ?r
    then obtain f c where f: "canonical_event_bytes n f = Inr c"
      "r = event_row n f prev (hmac key (c @ prev))"
      "verify_rows hmac key (n + 1) (hmac key (c @ prev)) rows = Inr ()" by blast
    have "stored_fields r = Inr (n, f, prev, hmac key (c @ prev))"
      using f(2) Cons.prems assms(1) by (simp add: event_row_fields hmac_sized_def)
    with f(1,3) show ?l by (simp add: macs_match_def calculate_event_mac_def)
  qed
  have len: "length (hmac key m) = 32" for m using assms(1) by (simp add: hmac_sized_def)
  show ?case
  proof
    assume "verify_rows hmac key n prev (r # rows) = Inr ()"
    then obtain f c fs where "canonical_event_bytes n f = Inr c"
      "r = event_row n f prev (hmac key (c @ prev))"
      "chain hmac key (n + 1) (hmac key (c @ prev)) fs = Some rows"
      using step Cons.IH [OF len] by blast
    then have "chain hmac key n prev (f # fs) = Some (r # rows)" by (simp add: link_message_def)
    then show "\<exists>fs. chain hmac key n prev fs = Some (r # rows)" by blast
  next
    assume "\<exists>fs. chain hmac key n prev fs = Some (r # rows)"
    then obtain f fs where "chain hmac key n prev (f # fs) = Some (r # rows)"
      by (metis chain.simps(1) list.distinct(1) neq_Nil_conv option.inject)
    then show "verify_rows hmac key n prev (r # rows) = Inr ()"
      using step Cons.IH [OF len] by (auto simp: link_message_def split: sum.splits)
  qed
qed

lemma chain_length: "chain hmac key n prev fs = Some rows \<Longrightarrow> length rows = length fs"
  by (induction fs arbitrary: n prev rows) (auto split: option.splits)

lemma chain_numbers:
  "chain hmac key n prev fs = Some rows \<Longrightarrow> i < length rows \<Longrightarrow>
     rows ! i ! 0 = SqlInt (n + int i) \<and> rows ! i ! Suc 0 = SqlText (af_id (fs ! i))
     \<and> length (rows ! i) = 11"
proof (induction fs arbitrary: n prev rows i)
  case (Cons f fs)
  then show ?case
    by (cases i) (auto split: option.splits simp: algebra_simps)
qed simp

text \<open>The MAC that the next link starts from.\<close>

fun last_mac :: "bytes \<Rightarrow> row list \<Rightarrow> bytes" where
  "last_mac prev [] = prev"
| "last_mac prev (r # rows) = last_mac (case r ! 10 of SqlBlob m \<Rightarrow> m | _ \<Rightarrow> []) rows"

lemma chain_snoc:
  "chain hmac key n prev fs = Some rows \<Longrightarrow> canonical_event_bytes (n + int (length fs)) f = Inr c \<Longrightarrow>
     chain hmac key n prev (fs @ [f]) = Some (rows @ [event_row (n + int (length fs)) f
       (last_mac prev rows) (hmac key (c @ last_mac prev rows))])"
proof (induction fs arbitrary: n prev rows)
  case (Cons g fs)
  then obtain msg rs where g: "link_message n g prev = Some msg" "rows = event_row n g prev (hmac key msg) # rs"
    "chain hmac key (n + 1) (hmac key msg) fs = Some rs" by (auto split: option.splits)
  have "canonical_event_bytes (n + 1 + int (length fs)) f = Inr c"
    using Cons.prems(2) by (simp add: algebra_simps)
  from Cons.IH [OF g(3) this] g show ?case by (simp add: algebra_simps)
qed (simp add: link_message_def)

lemma chain_last_mac:
  assumes "hmac_sized hmac" "chain hmac key n prev fs = Some rows" "length prev = 32"
  shows "length (last_mac prev rows) = 32
    \<and> (rows \<noteq> [] \<longrightarrow> last rows ! 10 = SqlBlob (last_mac prev rows))"
  using assms(2,3)
proof (induction fs arbitrary: n prev rows)
  case (Cons g fs)
  then obtain msg rs where g: "rows = event_row n g prev (hmac key msg) # rs"
    "chain hmac key (n + 1) (hmac key msg) fs = Some rs" by (auto split: option.splits)
  from Cons.IH [OF g(2)] assms(1) g(1) show ?case
    by (cases rs) (auto simp: hmac_sized_def)
qed simp

lemma chain_take: "chain hmac key n prev fs = Some rows \<Longrightarrow> chain hmac key n prev (take k fs) = Some (take k rows)"
proof (induction fs arbitrary: n prev rows k)
  case (Cons f fs)
  then show ?case by (cases k) (auto split: option.splits)
qed simp

text \<open>What was authenticated: the messages of the rows, and the row a message belongs to.\<close>

definition row_message :: "row \<Rightarrow> bytes option" where
  "row_message r = (case stored_fields r of
       Inl e \<Rightarrow> None | Inr (n, f, previous_mac, event_mac) \<Rightarrow> link_message n f previous_mac)"

definition messages :: "row list \<Rightarrow> bytes option set" where
  "messages rows = row_message ` set rows"

lemma chain_row:
  assumes "hmac_sized hmac" "chain hmac key n prev fs = Some rows" "length prev = 32" "i < length rows"
  shows "\<exists>f p msg. rows ! i = event_row (n + int i) f p (hmac key msg) \<and> length p = 32
    \<and> link_message (n + int i) f p = Some msg \<and> row_message (rows ! i) = Some msg"
  using assms(2-4)
proof (induction fs arbitrary: n prev rows i)
  case (Cons g fs)
  then obtain msg rs where g: "link_message n g prev = Some msg" "rows = event_row n g prev (hmac key msg) # rs"
    "chain hmac key (n + 1) (hmac key msg) fs = Some rs" by (auto split: option.splits)
  have len: "length (hmac key m) = 32" for m using assms(1) by (simp add: hmac_sized_def)
  show ?case
  proof (cases i)
    case 0
    have "stored_fields (event_row n g prev (hmac key msg)) = Inr (n, g, prev, hmac key msg)"
      using Cons.prems(2) len by (simp add: event_row_fields)
    with 0 g Cons.prems(2) show ?thesis by (auto simp: row_message_def)
  next
    case (Suc j)
    with g(2) Cons.prems(3) have "j < length rs" by simp
    from Cons.IH [OF g(3) len this] g(2) Suc show ?thesis by (simp add: algebra_simps)
  qed
qed simp

lemma link_message_inject:
  assumes "link_message n f p = Some msg" "link_message m g q = Some msg" "length p = 32" "length q = 32"
  shows "n = m \<and> f = g \<and> p = q"
proof -
  from assms obtain c d where c: "canonical_event_bytes n f = Inr c" "msg = c @ p"
    "canonical_event_bytes m g = Inr d" "msg = d @ q"
    by (auto simp: link_message_def split: sum.splits)
  with assms(3,4) have "c = d \<and> p = q" by simp
  with c canonical_event_bytes_inject show ?thesis by metis
qed

lemma same_messages_prefix:
  assumes "hmac_sized hmac" "chain hmac key n prev fs = Some rows" "chain hmac key n prev gs = Some rows'"
    "length prev = 32" "messages rows' \<subseteq> messages rows"
  shows "\<exists>k. rows' = take k rows"
proof -
  have "i < length rows \<and> rows' ! i = rows ! i" if i: "i < length rows'" for i
  proof -
    from chain_row [OF assms(1,3,4) i] obtain f p msg where f:
      "rows' ! i = event_row (n + int i) f p (hmac key msg)" "length p = 32"
      "link_message (n + int i) f p = Some msg" "row_message (rows' ! i) = Some msg" by blast
    have "Some msg \<in> messages rows'" using f(4) i unfolding messages_def by (metis image_eqI nth_mem)
    with assms(5) have "Some msg \<in> row_message ` set rows" unfolding messages_def by blast
    then obtain j where j: "j < length rows" "row_message (rows ! j) = Some msg"
      unfolding image_iff by (metis in_set_conv_nth)
    from chain_row [OF assms(1,2,4) j(1)] j(2) obtain g q where g:
      "rows ! j = event_row (n + int j) g q (hmac key msg)" "length q = 32"
      "link_message (n + int j) g q = Some msg" by auto
    from link_message_inject [OF f(3) g(3) f(2) g(2)] have "i = j" "f = g" "p = q" by auto
    with f g j show ?thesis by simp
  qed
  then have "length rows' \<le> length rows" "\<forall>i < length rows'. rows' ! i = rows ! i"
    by (metis not_le order.irrefl, blast)
  then have "rows' = take (length rows') rows" by (intro nth_equalityI) auto
  then show ?thesis by blast
qed

text \<open>
  C19. Tamper evidence, whatever the MAC function computes: among trails that verify under one
  key, those without a message that the genuine trail did not authenticate are exactly its
  prefixes. So every change, insertion, deletion or reordering that passes needs the MAC of a
  message that was never authenticated, and cutting off a suffix is never detected.
\<close>

theorem tamper_evidence:
  assumes "hmac_sized hmac" "verify_rows hmac key 1 genesis_mac rows = Inr ()"
  shows "verify_rows hmac key 1 genesis_mac rows' = Inr () \<and> messages rows' \<subseteq> messages rows
    \<longleftrightarrow> (\<exists>k. rows' = take k rows)"
proof -
  have g: "length genesis_mac = 32" by (simp add: genesis_mac_def)
  note iff = verify_rows_chain [OF assms(1) g]
  from assms(2) obtain fs where fs: "chain hmac key 1 genesis_mac fs = Some rows" using iff by blast
  show ?thesis
  proof
    assume l: "verify_rows hmac key 1 genesis_mac rows' = Inr () \<and> messages rows' \<subseteq> messages rows"
    then obtain gs where "chain hmac key 1 genesis_mac gs = Some rows'" using iff by blast
    from same_messages_prefix [OF assms(1) fs this g] l show "\<exists>k. rows' = take k rows" by blast
  next
    assume "\<exists>k. rows' = take k rows"
    then obtain k where k: "rows' = take k rows" by blast
    have "verify_rows hmac key 1 genesis_mac rows' = Inr ()"
      unfolding iff k using chain_take [OF fs] by blast
    moreover have "messages rows' \<subseteq> messages rows"
      using k by (auto simp: messages_def dest: in_set_takeD)
    ultimately show "verify_rows hmac key 1 genesis_mac rows' = Inr () \<and> messages rows' \<subseteq> messages rows" ..
  qed
qed

section \<open>What can be encoded\<close>

fun json_encodable :: "json \<Rightarrow> bool" where
  "json_encodable JNull = True"
| "json_encodable (JInt i) = True"
| "json_encodable (JStr s) = list_all encodable s"
| "json_encodable (JList xs) = list_all json_encodable xs"

lemma ascii_encodable: "c < 128 \<Longrightarrow> encodable c"
  by (simp add: encodable_def surrogate_def)

lemma dec_int_encodable: "list_all encodable (dec_int i)"
  using dec_int_chars [of i] by (auto simp: list_all_iff intro!: ascii_encodable)

lemma json_escape_encodable: "encodable c \<Longrightarrow> list_all encodable (json_escape c)"
proof (cases c rule: json_escape_cases)
  case (short k)
  then have "k < 128" by (auto simp: short_escape_def split: if_splits)
  with short show ?thesis by (simp add: ascii_encodable)
next
  case control
  then have "hex_digit (c div 16) < 128" "hex_digit (c mod 16) < 128"
    by (auto simp: hex_digit_def)
  with control show ?thesis by (simp add: ascii_encodable)
qed simp

lemma list_all_concat: "list_all P (concat xss) \<longleftrightarrow> list_all (list_all P) xss"
  by (induction xss) auto

lemma dumps_encodable: "json_encodable x \<Longrightarrow> list_all encodable (dumps x)"
proof (induction x)
  case JNull
  show ?case by (simp add: encodable_lit)
next
  case (JInt i)
  show ?case by (simp add: dec_int_encodable)
next
  case (JStr s)
  then have "list_all (list_all encodable) (map json_escape s)"
    by (auto simp: list_all_iff intro: json_escape_encodable [unfolded list_all_iff, rule_format])
  then show ?case by (simp add: dumps_str_def list_all_concat ascii_encodable)
next
  case (JList xs)
  then have "\<forall>x \<in> set xs. list_all encodable (dumps x)" by (simp add: list_all_iff)
  then show ?case
    by (cases xs) (auto simp: list_all_concat list_all_iff ascii_encodable)
qed

definition fields_encodable :: "audit_fields \<Rightarrow> bool" where
  "fields_encodable f \<longleftrightarrow> list_all (list_all encodable)
     [af_id f, af_timestamp f, af_event_type f, af_actor_user_id f, af_target_id f, af_result f]
     \<and> (\<forall>s. af_session_id f = Some s \<longrightarrow> list_all encodable s)
     \<and> (\<forall>s. af_reason_code f = Some s \<longrightarrow> list_all encodable s)"

lemma canonical_encodable:
  assumes "fields_encodable f"
  shows "\<exists>c. canonical_event_bytes n f = Inr c"
proof -
  have "json_encodable (json_option o')" if "\<forall>s. o' = Some s \<longrightarrow> list_all encodable s" for o'
    using that by (cases o') auto
  with assms have "json_encodable (canonical_event n f)"
    by (simp add: canonical_event_def json_pair_def fields_encodable_def encodable_lit)
  then show ?thesis
    unfolding canonical_event_bytes_def utf8_encode_Inr by (rule dumps_encodable)
qed

lemma chain_exists: "list_all fields_encodable fs \<Longrightarrow> \<exists>rows. chain hmac key n prev fs = Some rows"
proof (induction fs arbitrary: n prev)
  case (Cons f fs)
  from Cons.prems have "fields_encodable f" by simp
  from canonical_encodable [OF this, of n] obtain c where c: "canonical_event_bytes n f = Inr c"
    by blast
  obtain rows where "chain hmac key (n + 1) (hmac key (c @ prev)) fs = Some rows"
    using Cons by auto
  with c show ?case by (simp add: link_message_def)
qed simp

definition toy_hmac :: hmac where
  "toy_hmac k m = take 32 (k @ m @ replicate 32 0)"

lemma toy_hmac_sized: "hmac_sized toy_hmac"
  by (auto simp: hmac_sized_def toy_hmac_def min_def)

definition example_fields :: "string \<Rightarrow> audit_fields" where
  "example_fields i = \<lparr>af_id = lit i, af_timestamp = lit ''2026-01-01T00:00:00.000000Z'',
     af_event_type = lit ''access_denied'', af_actor_user_id = lit ''alice'',
     af_target_id = lit ''web'', af_session_id = None, af_result = lit ''denied'',
     af_reason_code = Some (lit ''no_matching_policy'')\<rparr>"

lemma example_fields_encodable: "fields_encodable (example_fields i)"
  by (simp add: fields_encodable_def example_fields_def encodable_lit)

definition example_rows :: "row list" where
  "example_rows = the (chain toy_hmac [1] 1 genesis_mac [example_fields ''e1'', example_fields ''e2''])"

lemma example_chain:
  "chain toy_hmac [1] 1 genesis_mac [example_fields ''e1'', example_fields ''e2''] = Some example_rows"
  using chain_exists [of "[example_fields ''e1'', example_fields ''e2'']" toy_hmac "[1]" 1 genesis_mac]
  by (auto simp: example_rows_def example_fields_encodable)

theorem tamper_evidence_witness:
  "verify_rows toy_hmac [1] 1 genesis_mac (take 1 example_rows) = Inr ()
     \<and> messages (take 1 example_rows) \<subseteq> messages example_rows"
proof -
  have g: "length genesis_mac = 32" by (simp add: genesis_mac_def)
  have "verify_rows toy_hmac [1] 1 genesis_mac example_rows = Inr ()"
    using verify_rows_chain [OF toy_hmac_sized g] example_chain by blast
  from tamper_evidence [OF toy_hmac_sized this, of "take 1 example_rows"] show ?thesis by blast
qed

end
