(* ===== verification/Audit_Store.thy ===== *)
theory Audit_Store
  imports Audit_Chain Schema
begin

text \<open>
  \<open>SQLiteAuditRepository\<close> (\<open>infrastructure/audit/sqlite_audit_repository.py\<close>): the key check,
  the schema, \<open>append\<close> and \<open>verify_integrity\<close>. The key provider is the interface
  \<open>key_source\<close>; \<open>FileKeyProvider\<close> interprets it.
\<close>

section \<open>The repository\<close>

definition audit_table :: pystr where
  "audit_table = lit ''audit_events''"

text \<open>The columns of \<open>CREATE TABLE audit_events\<close>; their names are \<open>SCHEMA_COLUMNS\<close>.\<close>

definition audit_schema :: "column_definition list" where
  "audit_schema =
     [(lit ''sequence_no'', lit ''INTEGER'', True, None, 0),
      (lit ''id'', lit ''TEXT'', False, None, 1),
      (lit ''timestamp'', lit ''TEXT'', True, None, 0),
      (lit ''event_type'', lit ''TEXT'', True, None, 0),
      (lit ''actor_user_id'', lit ''TEXT'', True, None, 0),
      (lit ''target_id'', lit ''TEXT'', True, None, 0),
      (lit ''session_id'', lit ''TEXT'', False, None, 0),
      (lit ''result'', lit ''TEXT'', True, None, 0),
      (lit ''reason_code'', lit ''TEXT'', False, None, 0),
      (lit ''previous_mac'', lit ''BLOB'', True, None, 0),
      (lit ''event_mac'', lit ''BLOB'', True, None, 0)]"

definition audit_columns :: "pystr list" where
  "audit_columns = map fst audit_schema"

definition audit_unique :: "pystr list list" where
  "audit_unique = [[lit ''sequence_no''], [lit ''id'']]"

definition unsupported_audit :: exn where
  "unsupported_audit = err UnsupportedAuditSchemaError
     ''audit database schema is unsupported; recreate the audit database''"

definition audit_validate_schema :: "int \<Rightarrow> (conn, unit) io" where
  "audit_validate_schema version =
     bind (pragma_table_info audit_table) (\<lambda>info.
     lift (raise_if (version \<noteq> 2 \<or> map fst info \<noteq> audit_columns) unsupported_audit))"

definition audit_create_schema :: "(conn, unit) io" where
  "audit_create_schema =
     seq (create_table audit_table (create audit_schema audit_unique)) (set_user_version 2)"

definition audit_init :: "path \<Rightarrow> (dbhost, unit) io" where
  "audit_init = init_versioned AuditStorageError unsupported_audit
     ''audit database could not be initialized'' audit_table
     audit_validate_schema audit_create_schema"

definition audit_load_key :: "(dbhost, bytes) io \<Rightarrow> (dbhost, bytes) io" where
  "audit_load_key get =
     bind (try_except get is_exception
             (\<lambda>_. raise (storage_error ''audit integrity key could not be loaded'')))
       (\<lambda>key. if length key \<noteq> 32
              then raise (storage_error ''audit integrity key must be exactly 32 bytes'')
              else ret key)"

text \<open>\<open>__init__\<close>\<close>

definition mk_audit_repository :: "(dbhost, bytes) io \<Rightarrow> path \<Rightarrow> (dbhost, unit) io" where
  "mk_audit_repository get p = bind (audit_load_key get) (\<lambda>_. audit_init p)"

text \<open>
  The transaction of \<open>append\<close>. \<open>ORDER BY sequence_no DESC LIMIT 1\<close> is the last row of the
  ascending order: \<open>sequence_no\<close> is unique and never null.
\<close>

definition append_statements :: "hmac \<Rightarrow> bytes \<Rightarrow> audit_fields \<Rightarrow> (conn, unit) io" where
  "append_statements hmac key f =
     seq (execute (\<lambda>db. (Inr (), db)))
    (bind (select audit_table [lit ''sequence_no'', lit ''event_mac''] [] (Some (lit ''sequence_no'')))
       (\<lambda>rows.
     bind (lift (next_chain_link (if rows = [] then None else Some (last rows)))) (\<lambda>(n, previous_mac).
     bind (lift (canonical_event_bytes n f)) (\<lambda>canonical.
     insert_into audit_table audit_columns
       (event_row n f previous_mac (calculate_event_mac hmac key canonical previous_mac))))))"

definition append_failed :: "exn \<Rightarrow> exn" where
  "append_failed e =
     (if catches SqliteIntegrityError e
      then err DuplicateAuditEventError ''audit event id already exists''
      else if catches AuditStorageError e then e
      else if catches SqliteError e then storage_error ''audit event could not be persisted''
      else storage_error ''audit event could not be chained'')"

definition audit_append ::
  "hmac \<Rightarrow> (dbhost, bytes) io \<Rightarrow> path \<Rightarrow> audit_event \<Rightarrow> (dbhost, unit) io" where
  "audit_append hmac get p ev =
     bind (lift (audit_serialize ev)) (\<lambda>f.
     bind (audit_load_key get) (\<lambda>key.
     try_except (transaction p (append_statements hmac key f)) is_exception
       (\<lambda>e. raise (append_failed e))))"

definition verify_failed :: "exn \<Rightarrow> exn" where
  "verify_failed e =
     (if catches AuditIntegrityError e then e
      else if catches SqliteError e then storage_error ''audit events could not be verified''
      else integrity_failed)"

definition verify_integrity :: "hmac \<Rightarrow> (dbhost, bytes) io \<Rightarrow> path \<Rightarrow> (dbhost, unit) io" where
  "verify_integrity hmac get p =
     bind (audit_load_key get) (\<lambda>key.
     try_except
       (connection p
         (bind (select audit_table audit_columns [] (Some (lit ''sequence_no'')))
           (\<lambda>rows. lift (verify_rows hmac key 1 genesis_mac rows))))
       is_exception (\<lambda>e. raise (verify_failed e)))"

section \<open>Key providers\<close>

text \<open>What the repository relies on: no file changes, and a key is that of the key file.\<close>

lemma os_call_quiet:
  assumes "\<And>g. h_faults g = [] \<Longrightarrow> h_faults (snd (m g)) = []"
  shows "h_faults h = [] \<Longrightarrow> h_faults (snd (os_call m h)) = []"
  using assms by simp

lemma read_rest_quiet: "h_faults h = [] \<Longrightarrow> h_faults (snd (read_rest d off n h)) = []"
proof (induction d off n h rule: read_rest.induct)
  case (1 d off n h)
  have q: "h_faults (snd (os_read d off n h)) = []"
    using 1(2) unfolding os_read_def
    by (intro os_call_quiet) (auto split: option.splits node.splits list.splits)
  show ?case
  proof (cases "n = 0 \<or> isl (fst (os_read d off n h)) \<or> projr (fst (os_read d off n h)) = []")
    case True
    with 1(2) q show ?thesis
      by (cases "os_read d off n h") (auto simp: read_rest.simps isl_def split: sum.splits)
  next
    case False
    then obtain chunk h1 where c: "os_read d off n h = (Inr chunk, h1)" "chunk \<noteq> []" "n \<noteq> 0"
      by (cases "os_read d off n h"; cases "fst (os_read d off n h)") auto
    with q have "h_faults h1 = []" by simp
    from 1(1) [OF c(3) c(1) [symmetric] refl c(2) this] c show ?thesis
      by (auto simp: read_rest.simps [of d off n h] split: prod.splits sum.splits)
  qed
qed

lemma bind_quiet:
  "h_faults (snd (m h)) = [] \<Longrightarrow> (\<And>x h'. m h = (Inr x, h') \<Longrightarrow> h_faults (snd (f x h')) = []) \<Longrightarrow>
     h_faults (snd (bind m f h)) = []"
  by (auto simp: bind_apply split: prod.splits sum.splits)

lemma get_key_quiet: "h_faults h = [] \<Longrightarrow> h_faults (snd (get_key p h)) = []"
proof -
  assume h: "h_faults h = []"
  have read: "h_faults (snd (read_key_file d h)) = []" if "h_faults h = []" for d and h :: "'d host"
    using that read_rest_quiet
    by (auto simp: read_key_file_def bind_apply seq_apply os_fstat_def split: option.splits sum.splits)
  have body: "h_faults (snd (try_finally (read_key_file d) (close_quietly d) h)) = []"
    if "h_faults h = []" for d and h :: "'d host"
    using that read [OF that, of d]
    by (cases "read_key_file d h") (simp add: try_finally_Nil)
  have "h_faults (snd (bind (os_open_nofollow p)
      (\<lambda>d. try_finally (read_key_file d) (close_quietly d)) h)) = []"
  proof (rule bind_quiet)
    show "h_faults (snd (os_open_nofollow p h)) = []"
      using h by (auto simp: os_open_nofollow_def split: option.splits node.splits)
    then show "os_open_nofollow p h = (Inr d, h') \<Longrightarrow>
        h_faults (snd (try_finally (read_key_file d) (close_quietly d) h')) = []" for d h'
      by (intro body) simp
  qed
  then show ?thesis
    by (auto simp: get_key_def bind_apply try_except_def split: prod.splits sum.splits if_splits)
qed

locale key_source =
  fixes get :: "(dbhost, bytes) io"
    and key_at :: "dbhost \<Rightarrow> bytes option"
    and key_file :: path
  assumes get_run: "get h = (r, h') \<Longrightarrow> same_files h h'
      \<and> (case r of Inr k \<Rightarrow> key_at h = Some k
         | Inl e \<Rightarrow> is_exception e \<and> (h_faults h = [] \<longrightarrow> key_at h = None))"
    and get_quiet: "h_faults h = [] \<Longrightarrow> h_faults (snd (get h)) = []"
    and key_local: "h_files h key_file = h_files h' key_file \<Longrightarrow> key_at h = key_at h'"
begin

lemma load_key_run:
  assumes "audit_load_key get h = (r, h')"
  shows "same_files h h' \<and> (case r of Inr k \<Rightarrow> key_at h = Some k \<and> length k = 32
    | Inl e \<Rightarrow> exn_class e = AuditStorageError
        \<and> (h_faults h = [] \<longrightarrow> (\<forall>k. key_at h = Some k \<longrightarrow> length k \<noteq> 32)))"
proof -
  obtain q h1 where q: "get h = (q, h1)" by fastforce
  from get_run [OF q] show ?thesis
  proof (cases q)
    case (Inl e)
    with get_run [OF q] q assms show ?thesis
      by (auto simp: audit_load_key_def bind_apply try_except_def storage_error_def)
  next
    case (Inr k)
    with get_run [OF q] q assms show ?thesis
      by (auto simp: audit_load_key_def bind_apply try_except_def storage_error_def split: if_splits)
  qed
qed

lemma load_key_quiet: "h_faults h = [] \<Longrightarrow> h_faults (snd (audit_load_key get h)) = []"
  using get_quiet [of h]
  by (auto simp: audit_load_key_def bind_apply try_except_def split: prod.splits sum.splits if_splits)

end

interpretation key_file: key_source "get_key q" "\<lambda>h. key_of h q" q for q
proof
  fix h h' :: dbhost and r
  assume "get_key q h = (r, h')"
  from get_key_run [OF this] show "same_files h h'
      \<and> (case r of Inr k \<Rightarrow> key_of h q = Some k
         | Inl e \<Rightarrow> is_exception e \<and> (h_faults h = [] \<longrightarrow> key_of h q = None))"
    by (auto simp: is_exception_def split: sum.splits)
next
  fix h :: dbhost
  show "h_faults h = [] \<Longrightarrow> h_faults (snd (get_key q h)) = []" by (rule get_key_quiet)
next
  fix h h' :: dbhost
  show "h_files h q = h_files h' q \<Longrightarrow> key_of h q = key_of h' q" by (simp add: key_of_def)
qed

section \<open>What \<open>append\<close> does\<close>

abbreviation audit_rows :: "path \<Rightarrow> dbhost \<Rightarrow> row list \<Rightarrow> bool" where
  "audit_rows \<equiv> table_rows audit_table audit_schema audit_unique"

lemma audit_schema_facts [simp]:
  "distinct (map fst audit_schema)" "length audit_schema = 11" "audit_schema \<noteq> []"
  "conds_on audit_schema [] = []"
  "fst (audit_schema ! 0) = lit ''sequence_no''" "fst (audit_schema ! Suc 0) = lit ''id''"
  "fst (audit_schema ! 10) = lit ''event_mac''"
  by (simp_all add: audit_schema_def conds_on_def)

lemma field_audit:
  assumes "length r = 11"
  shows "field (made audit_schema uq rows) r (lit ''sequence_no'') = r ! 0"
    "field (made audit_schema uq rows) r (lit ''id'') = r ! Suc 0"
    "field (made audit_schema uq rows) r (lit ''event_mac'') = r ! 10"
  using assms field_made [OF audit_schema_facts(1), of r 0 uq rows]
    field_made [OF audit_schema_facts(1), of r "Suc 0" uq rows]
    field_made [OF audit_schema_facts(1), of r 10 uq rows] by simp_all

lemma audit_selections:
  assumes "\<forall>r \<in> set rows. length r = 11"
  shows "selection (made audit_schema uq rows) [lit ''sequence_no'', lit ''event_mac''] []
       (Some (lit ''sequence_no'')) = map (\<lambda>r. [r ! 0, r ! 10]) (sort_key (\<lambda>r. r ! 0) rows)"
    "selection (made audit_schema uq rows) audit_columns [] (Some (lit ''sequence_no''))
       = sort_key (\<lambda>r. r ! 0) rows"
proof -
  have s: "sort_key (\<lambda>r. field (made audit_schema uq rows) r (lit ''sequence_no'')) rows
      = sort_key (\<lambda>r. r ! 0) rows"
    using assms by (intro sort_key_agree) (simp add: field_audit)
  have m: "filter (matches (made audit_schema uq rows) []) rows = rows"
    by (simp add: matches_def)
  show "selection (made audit_schema uq rows) [lit ''sequence_no'', lit ''event_mac''] []
       (Some (lit ''sequence_no'')) = map (\<lambda>r. [r ! 0, r ! 10]) (sort_key (\<lambda>r. r ! 0) rows)"
    using assms by (simp add: selection_def s m field_audit)
  have "selection (made audit_schema uq rows) (map fst audit_schema) (conds_on audit_schema [])
      (Some (fst (audit_schema ! 0))) = sort_key (\<lambda>r. r ! 0) (rows_where [] rows)"
    using assms by (intro selection_made) auto
  then show "selection (made audit_schema uq rows) audit_columns [] (Some (lit ''sequence_no''))
       = sort_key (\<lambda>r. r ! 0) rows"
    by (simp add: audit_columns_def rows_where_def)
qed

lemma audit_no_null: "null_violation (made audit_schema uq rows) (event_row n f p m) = None"
proof -
  have "field (made audit_schema uq rows) (event_row n f p m) (fst (audit_schema ! i)) \<noteq> SqlNull"
    if "i < 11" "fst (snd (snd (audit_schema ! i)))" for i
  proof -
    have "i \<in> set (upt 0 11)" using that(1) by simp
    moreover have "upt 0 11 = [0, Suc 0, 2, 3, 4, 5, 6, 7, 8, 9, 10]" by (simp add: upt_rec)
    ultimately have "i \<in> {0, Suc 0, 2, 3, 4, 5, 7, 9, 10} \<or> i = 6 \<or> i = 8" by auto
    then have "event_row n f p m ! i \<noteq> SqlNull"
      using that(2) by (auto simp: nth_event_row audit_schema_def)
    then show ?thesis using field_made [OF audit_schema_facts(1), of "event_row n f p m" i uq rows] that(1)
      by simp
  qed
  then have "\<not> (col_notnull c \<and> field (made audit_schema uq rows) (event_row n f p m) (col_name c) = SqlNull)"
    if "c \<in> set (tb_columns (made audit_schema uq rows))" for c
    using that by (force simp: made_def create_def in_set_conv_nth)
  then show ?thesis by (auto simp: null_violation_def find_None_iff)
qed

lemma audit_unique_violation:
  assumes "\<forall>r \<in> set (r # rows). length r = 11"
  shows "unique_violation (made audit_schema audit_unique rows) r = None \<longleftrightarrow>
    (\<forall>r' \<in> set rows. \<not> sql_eq (r ! 0) (r' ! 0) \<and> \<not> sql_eq (r ! Suc 0) (r' ! Suc 0))"
  using assms by (auto simp: unique_violation_def duplicates_def list_ex_iff audit_unique_def
      field_audit find_None_iff)

text \<open>The head of the chain as the query sees it.\<close>

definition chain_head :: "row list \<Rightarrow> row option" where
  "chain_head rows = (if rows = [] then None
     else Some ((\<lambda>r. [r ! 0, r ! 10]) (last (sort_key (\<lambda>r. r ! 0) rows))))"

definition next_row :: "hmac \<Rightarrow> bytes \<Rightarrow> audit_fields \<Rightarrow> row list \<Rightarrow> row res" where
  "next_row hmac key f rows =
     bindR (next_chain_link (chain_head rows)) (\<lambda>(n, previous_mac).
     bindR (canonical_event_bytes n f) (\<lambda>canonical.
     Inr (event_row n f previous_mac (hmac key (canonical @ previous_mac)))))"

lemma next_row_event: "next_row hmac key f rows = Inr r \<Longrightarrow> \<exists>n p m. r = event_row n f p m"
  by (auto simp: next_row_def)

lemma append_statements_run:
  assumes "append_statements hmac key f c = (q, c')"
    "map_of (db_tables (c_db c)) audit_table = Some (made audit_schema audit_unique rows)"
    "\<forall>r \<in> set rows. length r = 11"
  shows "(c_faults c = [] \<longrightarrow> c_faults c' = []) \<and> (case q of
      Inr _ \<Rightarrow> \<exists>r. next_row hmac key f rows = Inr r \<and> bind_values r = Inr ()
        \<and> (\<forall>r' \<in> set rows. \<not> sql_eq (r ! 0) (r' ! 0) \<and> \<not> sql_eq (r ! Suc 0) (r' ! Suc 0))
        \<and> c_db c' = (c_db c)\<lparr>db_tables := AList.update audit_table
             (made audit_schema audit_unique (rows @ [r])) (db_tables (c_db c))\<rparr>
    | Inl e \<Rightarrow> c_db c' = c_db c \<and> (e = sql_error \<and> c_faults c \<noteq> [] \<or> next_row hmac key f rows = Inl e
        \<or> (\<exists>r. next_row hmac key f rows = Inr r \<and> (bind_values r = Inl e
             \<or> exn_class e = SqliteIntegrityError
               \<and> (\<exists>r' \<in> set rows. sql_eq (r ! 0) (r' ! 0) \<or> sql_eq (r ! Suc 0) (r' ! Suc 0))))))"
proof -
  let ?t = "made audit_schema audit_unique rows"
  obtain q0 c0 where q0: "execute (\<lambda>db. (Inr (), db)) c = (q0, c0)" by fastforce
  note r0 = execute_run [OF q0]
  obtain q1 c1 where q1: "select audit_table [lit ''sequence_no'', lit ''event_mac''] []
      (Some (lit ''sequence_no'')) c0 = (q1, c1)" by fastforce
  have cols: "set ([lit ''sequence_no'', lit ''event_mac''] @ map fst ([] :: (pystr \<times> sqlval) list))
      \<subseteq> set (column_names ?t)" by (simp add: audit_schema_def)
  have "map_of (db_tables (c_db c0)) audit_table = Some ?t" using r0 assms(2) by auto
  note r1 = select_run [OF q1 this cols, unfolded audit_selections(1) [OF assms(3)]]
  show ?thesis
  proof (cases "isl q0 \<or> isl q1")
    case True
    with assms(1) q0 q1 r0 r1 show ?thesis
      by (auto simp: append_statements_def seq_apply bind_apply isl_def split: sum.splits)
  next
    case False
    with r0 r1 have d: "c_db c1 = c_db c" "c_faults c = [] \<longrightarrow> c_faults c1 = []"
      "q1 = Inr (map (\<lambda>r. [r ! 0, r ! 10]) (sort_key (\<lambda>r. r ! 0) rows))" by auto
    have head: "chain_head rows = (let rs = map (\<lambda>r. [r ! 0, r ! 10]) (sort_key (\<lambda>r. r ! 0) rows)
        in if rs = [] then None else Some (last rs))"
      by (simp add: chain_head_def Let_def last_map)
    have rest: "bind (lift (next_row hmac key f rows)) (insert_into audit_table audit_columns) c1 = (q, c')"
      using assms(1) False q0 q1 d(3)
      by (auto simp: append_statements_def seq_apply bind_apply next_row_def head Let_def bindR_def
          calculate_event_mac_def split: sum.splits prod.splits)
    show ?thesis
    proof (cases "next_row hmac key f rows")
      case (Inl e)
      with rest d show ?thesis by auto
    next
      case (Inr r)
      with next_row_event obtain n p m where r: "r = event_row n f p m" by blast
      have nr: "new_row ?t audit_columns r = r"
        using new_row_made [OF audit_schema_facts(1), of r] r by (simp add: audit_columns_def)
      have cols: "set audit_columns \<subseteq> set (column_names ?t)" by (simp add: audit_columns_def)
      have t: "map_of (db_tables (c_db c1)) audit_table = Some ?t" using d(1) assms(2) by simp
      have "insert_into audit_table audit_columns r c1 = (q, c')" using rest Inr by simp
      note i = insert_into_run [OF this t cols, unfolded nr inserted_def [symmetric] made_fields(4)]
      have u: "unique_violation ?t r = None \<longleftrightarrow>
          (\<forall>r' \<in> set rows. \<not> sql_eq (r ! 0) (r' ! 0) \<and> \<not> sql_eq (r ! Suc 0) (r' ! Suc 0))"
        using assms(3) r by (intro audit_unique_violation) simp
      have ins: "fst (insert_row audit_table ?t r) = Inl e \<Longrightarrow>
          exn_class e = SqliteIntegrityError \<and> unique_violation ?t r \<noteq> None" for e
        using audit_no_null [of audit_unique rows n f p m] r
        by (auto simp: insert_row_def split: option.splits)
      show ?thesis
      proof (cases q)
        case (Inl e)
        with i ins [of e] u d Inr show ?thesis
          by simp (elim conjE disjE; simp; blast)
      next
        case (Inr v)
        with i u d \<open>next_row hmac key f rows = Inr r\<close> show ?thesis by simp
      qed
    qed
  qed
qed

lemma append_transaction_run:
  assumes "audit_rows p h rows" "transaction p (append_statements hmac key f) h = (q, h')"
  shows "only_db p h h' \<and> (case q of
      Inr _ \<Rightarrow> \<exists>r. next_row hmac key f rows = Inr r \<and> bind_values r = Inr ()
        \<and> (\<forall>r' \<in> set rows. \<not> sql_eq (r ! 0) (r' ! 0) \<and> \<not> sql_eq (r ! Suc 0) (r' ! Suc 0))
        \<and> audit_rows p h' (rows @ [r])
    | Inl e \<Rightarrow> audit_rows p h' rows \<and> (e = sql_error \<and> h_faults h \<noteq> [] \<or> next_row hmac key f rows = Inl e
        \<or> (\<exists>r. next_row hmac key f rows = Inr r \<and> (bind_values r = Inl e
             \<or> exn_class e = SqliteIntegrityError
               \<and> (\<exists>r' \<in> set rows. sql_eq (r ! 0) (r' ! 0) \<or> sql_eq (r ! Suc 0) (r' ! Suc 0))))))"
proof -
  let ?t = "made audit_schema audit_unique rows"
  from assms(1) have t: "table_at h p audit_table = Some ?t" "\<forall>r \<in> set rows. length r = 11"
    by (simp_all add: table_rows_def)
  then obtain d where d: "db_at h p = Some d" "map_of (db_tables d) audit_table = Some ?t"
    by (auto simp: table_at_def split: option.splits)
  from assms(2) [unfolded transaction_def] d(1) show ?thesis
  proof (cases rule: with_db_run)
    case unopened
    with d t show ?thesis by (simp add: table_rows_def table_at_def)
  next
    case (ran fs c)
    obtain x c1 where x: "append_statements hmac key f \<lparr>c_db = d, c_faults = fs\<rparr> = (x, c1)" by fastforce
    have "map_of (db_tables (c_db \<lparr>c_db = d, c_faults = fs\<rparr>)) audit_table = Some ?t"
      using d(2) by simp
    note st = append_statements_run [OF x this t(2)]
    have a: "fs = [] \<longrightarrow> c_faults c1 = []" "case x of
      Inr _ \<Rightarrow> \<exists>r. next_row hmac key f rows = Inr r \<and> bind_values r = Inr ()
        \<and> (\<forall>r' \<in> set rows. \<not> sql_eq (r ! 0) (r' ! 0) \<and> \<not> sql_eq (r ! Suc 0) (r' ! Suc 0))
        \<and> c_db c1 = d\<lparr>db_tables := AList.update audit_table
             (made audit_schema audit_unique (rows @ [r])) (db_tables d)\<rparr>
    | Inl e \<Rightarrow> c_db c1 = d \<and> (e = sql_error \<and> fs \<noteq> [] \<or> next_row hmac key f rows = Inl e
        \<or> (\<exists>r. next_row hmac key f rows = Inr r \<and> (bind_values r = Inl e
             \<or> exn_class e = SqliteIntegrityError
               \<and> (\<exists>r' \<in> set rows. sql_eq (r ! 0) (r' ! 0) \<or> sql_eq (r ! Suc 0) (r' ! Suc 0)))))"
      using st by (cases x; simp)+
    show ?thesis
    proof (cases x)
      case (Inl e)
      with ran x have "q = Inl e" "c = c1" by (simp_all add: bind_apply)
      with ran a Inl d t show ?thesis by (auto simp: table_rows_def table_at_def)
    next
      case (Inr u)
      obtain v c2 where v: "commit c1 = (v, c2)" by fastforce
      note co = commit_run [OF v]
      from ran x Inr v have r: "q = (case v of Inl e \<Rightarrow> Inl e | Inr _ \<Rightarrow> Inr ())" "c = c2"
        by (auto simp: bind_apply seq_apply split: sum.splits)
      have od: "only_db p h h'" using ran(4) a(1) co r(2) by simp
      show ?thesis
      proof (cases v)
        case (Inl e)
        with co r ran a d t od show ?thesis by (auto simp: table_rows_def table_at_def)
      next
        case inr: (Inr w)
        from a(2) Inr obtain r where row: "next_row hmac key f rows = Inr r" "bind_values r = Inr ()"
          "\<forall>r' \<in> set rows. \<not> sql_eq (r ! 0) (r' ! 0) \<and> \<not> sql_eq (r ! Suc 0) (r' ! Suc 0)"
          "c_db c1 = d\<lparr>db_tables := AList.update audit_table
             (made audit_schema audit_unique (rows @ [r])) (db_tables d)\<rparr>" by auto
        have "length r = 11" using next_row_event [OF row(1)] by auto
        with inr co r ran row t(2) od show ?thesis
          by (auto simp: table_rows_def table_at_def update_conv)
      qed
    qed
  qed
qed

text \<open>The errors of the chain computation, and how they are reported.\<close>

lemma next_chain_link_error: "next_chain_link head = Inl e \<Longrightarrow> e = storage_error ''audit chain head is invalid''"
  by (induction head rule: next_chain_link.induct) (auto split: if_splits)

lemma next_row_error:
  "next_row hmac key f rows = Inl e \<Longrightarrow> e = storage_error ''audit chain head is invalid''
     \<or> e = err UnicodeEncodeError ''surrogates not allowed''"
  by (auto simp: next_row_def bindR_eq_Inl_iff canonical_event_bytes_def
      dest: next_chain_link_error utf8_encode_error)

definition duplicate_event :: exn where
  "duplicate_event = err DuplicateAuditEventError ''audit event id already exists''"

definition not_chained :: exn where
  "not_chained = storage_error ''audit event could not be chained''"

definition not_persisted :: exn where
  "not_persisted = storage_error ''audit event could not be persisted''"

lemma append_failed_simps [simp]:
  "exn_class e = SqliteIntegrityError \<Longrightarrow> append_failed e = duplicate_event"
  "append_failed sql_error = not_persisted"
  "append_failed (err AuditStorageError m) = err AuditStorageError m"
  "append_failed (err UnicodeEncodeError m) = not_chained"
  "bind_values vs = Inl e \<Longrightarrow> append_failed e = not_chained"
  by (auto simp: append_failed_def duplicate_event_def not_persisted_def not_chained_def catches_def
      sql_error_def storage_error_def dest!: bind_values_class)

context key_source
begin

text \<open>One append: what is stored and what is raised, for any rows in the table.\<close>

lemma append_run:
  assumes "audit_rows p h rows" "audit_append hmac get p ev h = (q, h')" "p \<noteq> key_file"
  shows "(\<forall>x. x \<noteq> p \<longrightarrow> h_files h' x = h_files h x) \<and> key_at h' = key_at h \<and> (case q of
      Inr _ \<Rightarrow> \<exists>f key r. audit_serialize ev = Inr f \<and> key_at h = Some key \<and> length key = 32
        \<and> next_row hmac key f rows = Inr r \<and> bind_values r = Inr ()
        \<and> (\<forall>r' \<in> set rows. \<not> sql_eq (r ! 0) (r' ! 0) \<and> \<not> sql_eq (r ! Suc 0) (r' ! Suc 0))
        \<and> audit_rows p h' (rows @ [r])
    | Inl e \<Rightarrow> audit_rows p h' rows \<and> (audit_serialize ev = Inl e \<or> exn_class e = AuditStorageError
        \<or> e = duplicate_event \<and> (\<exists>f key r. audit_serialize ev = Inr f \<and> key_at h = Some key
            \<and> next_row hmac key f rows = Inr r
            \<and> (\<exists>r' \<in> set rows. sql_eq (r ! 0) (r' ! 0) \<or> sql_eq (r ! Suc 0) (r' ! Suc 0))))
        \<and> (\<forall>f key r. h_faults h = [] \<and> audit_serialize ev = Inr f \<and> key_at h = Some key \<and> length key = 32
            \<and> next_row hmac key f rows = Inr r \<and> bind_values r = Inr () \<longrightarrow> e = duplicate_event))"
proof (cases "audit_serialize ev")
  case (Inl e)
  with assms show ?thesis by (auto simp: audit_append_def)
next
  case (Inr f)
  obtain k h1 where k: "audit_load_key get h = (k, h1)" by fastforce
  note run = load_key_run [OF k]
  have quiet: "h_faults h = [] \<longrightarrow> h_faults h1 = []" using load_key_quiet [of h] k by simp
  from run have same: "same_files h h1" by simp
  have rows1: "audit_rows p h1 rows"
    using assms(1) same by (simp add: table_rows_def table_at_def db_at_def same_files_def)
  show ?thesis
  proof (cases k)
    case (Inl e)
    with assms(2) Inr k have "q = Inl e" "h' = h1" using \<open>audit_serialize ev = Inr f\<close>
      by (simp_all add: audit_append_def bind_apply)
    moreover have "key_at h1 = key_at h" using same by (intro key_local) (simp add: same_files_def)
    ultimately show ?thesis using run Inl rows1 same by (auto simp: same_files_def)
  next
    case key: (Inr key)
    with run have key_at: "key_at h = Some key" "length key = 32" by simp_all
    obtain w h2 where w: "transaction p (append_statements hmac key f) h1 = (w, h2)" by fastforce
    note t = append_transaction_run [OF rows1 w]
    have exc: "is_exception e" if "w = Inl e" for e
      using t that by (auto simp: is_exception_def sql_error_def storage_error_def
          dest!: next_row_error bind_values_class)
    from assms(2) Inr k key w have r: "h' = h2"
      "q = (case w of Inl e \<Rightarrow> Inl (append_failed e) | Inr _ \<Rightarrow> Inr ())"
      using exc by (auto simp: audit_append_def bind_apply try_except_def split: sum.splits if_splits)
    have files: "\<forall>x. x \<noteq> p \<longrightarrow> h_files h' x = h_files h x"
      using t r(1) same by (auto simp: only_db_def same_files_def)
    then have same_key: "key_at h' = key_at h" using assms(3) by (intro key_local) auto
    show ?thesis
    proof (cases w)
      case inl: (Inl e)
      with t have e: "audit_rows p h2 rows" "e = sql_error \<and> h_faults h1 \<noteq> [] \<or> next_row hmac key f rows = Inl e
        \<or> (\<exists>r. next_row hmac key f rows = Inr r \<and> (bind_values r = Inl e
             \<or> exn_class e = SqliteIntegrityError
               \<and> (\<exists>r' \<in> set rows. sql_eq (r ! 0) (r' ! 0) \<or> sql_eq (r ! Suc 0) (r' ! Suc 0))))" by auto
      from e(2) have "exn_class (append_failed e) = AuditStorageError \<or> append_failed e = duplicate_event
          \<and> (\<exists>r. next_row hmac key f rows = Inr r
               \<and> (\<exists>r' \<in> set rows. sql_eq (r ! 0) (r' ! 0) \<or> sql_eq (r ! Suc 0) (r' ! Suc 0)))"
        by (elim disjE exE conjE) (auto simp: not_chained_def not_persisted_def storage_error_def
            append_failed_simps dest!: next_row_error)
      moreover have "append_failed e = duplicate_event" if "h_faults h = []"
        "next_row hmac key f rows = Inr row" "bind_values row = Inr ()" for row
        using e(2) that quiet by auto
      ultimately show ?thesis using inl r e(1) files same_key Inr key_at by auto
    next
      case (Inr u)
      with t r files same_key \<open>audit_serialize ev = Inr f\<close> key_at show ?thesis by auto
    qed
  qed
qed

end

section \<open>The trail\<close>

lemma insort_key_least: "\<forall>y \<in> set xs. f x \<le> f y \<Longrightarrow> insort_key f x xs = x # xs"
  by (cases xs) auto

lemma sort_key_sorted: "sorted (map f xs) \<Longrightarrow> sort_key f xs = xs"
  by (induction xs) (auto simp: insort_key_least)

lemma SqlInt_le [simp]: "SqlInt i \<le> SqlInt j \<longleftrightarrow> i \<le> j"
  by (auto simp: less_eq_sqlval_def sql_key_def)

lemma chain_sorted: "chain hmac key n prev fs = Some rows \<Longrightarrow> sort_key (\<lambda>r. r ! 0) rows = rows"
  by (rule sort_key_sorted) (auto simp: sorted_iff_nth_mono chain_numbers)

lemma chain_head_chain:
  assumes "hmac_sized hmac" "chain hmac key 1 genesis_mac fs = Some rows"
  shows "next_chain_link (chain_head rows) = Inr (1 + int (length fs), last_mac genesis_mac rows)"
proof (cases "rows = []")
  case True
  with chain_length [OF assms(2)] show ?thesis by (simp add: chain_head_def)
next
  case False
  have g: "length genesis_mac = 32" by (simp add: genesis_mac_def)
  note m = chain_last_mac [OF assms g]
  have "last rows ! 0 = SqlInt (1 + int (length rows - 1))"
    using chain_numbers [OF assms(2), of "length rows - 1"] False by (simp add: last_conv_nth)
  then have "last rows ! 0 = SqlInt (int (length fs))"
    using chain_length [OF assms(2)] False by (cases fs) auto
  moreover have "1 \<le> int (length fs)"
    using chain_length [OF assms(2)] False by (cases fs) auto
  moreover have "fs \<noteq> []" using chain_length [OF assms(2)] False by auto
  ultimately show ?thesis using False m by (simp add: chain_head_def chain_sorted [OF assms(2)])
qed

lemma next_row_chain:
  assumes "hmac_sized hmac" "chain hmac key 1 genesis_mac fs = Some rows"
    "next_row hmac key f rows = Inr r"
  shows "chain hmac key 1 genesis_mac (fs @ [f]) = Some (rows @ [r])"
  using assms(3) chain_snoc [OF assms(2)] chain_head_chain [OF assms(1,2)]
  by (auto simp: next_row_def)

text \<open>On a chain, the only row that can be in the way is one with the same id.\<close>

lemma chain_conflict:
  assumes "hmac_sized hmac" "chain hmac key 1 genesis_mac fs = Some rows"
    "next_row hmac key f rows = Inr r" "r' \<in> set rows"
  shows "\<not> sql_eq (r ! 0) (r' ! 0)"
    "sql_eq (r ! Suc 0) (r' ! Suc 0) \<longleftrightarrow> r' ! Suc 0 = SqlText (af_id f)"
proof -
  from assms(4) obtain i where i: "i < length rows" "r' = rows ! i" by (auto simp: in_set_conv_nth)
  have r: "r ! 0 = SqlInt (1 + int (length fs))" "r ! Suc 0 = SqlText (af_id f)"
    using assms(3) chain_head_chain [OF assms(1,2)] by (auto simp: next_row_def)
  show "\<not> sql_eq (r ! 0) (r' ! 0)"
    using chain_numbers [OF assms(2) i(1)] i chain_length [OF assms(2)] r by simp
  show "sql_eq (r ! Suc 0) (r' ! Suc 0) \<longleftrightarrow> r' ! Suc 0 = SqlText (af_id f)" using r by auto
qed

lemma chain_ids: "chain hmac key n prev fs = Some rows \<Longrightarrow>
    (\<exists>r \<in> set rows. r ! Suc 0 = SqlText i) \<longleftrightarrow> i \<in> af_id ` set fs"
proof (induction fs arbitrary: n prev rows)
  case (Cons f fs)
  then obtain msg rs where g: "rows = event_row n f prev (hmac key msg) # rs"
    "chain hmac key (n + 1) (hmac key msg) fs = Some rs" by (auto split: option.splits)
  from Cons.IH [OF g(2)] g(1) show ?case by auto
qed simp

text \<open>Several appends, each of which may fail.\<close>

fun audit_all ::
  "hmac \<Rightarrow> (dbhost, bytes) io \<Rightarrow> path \<Rightarrow> audit_event list \<Rightarrow> dbhost \<Rightarrow> unit res list \<times> dbhost" where
  "audit_all hmac get p [] h = ([], h)"
| "audit_all hmac get p (ev # evs) h =
     (case audit_append hmac get p ev h of (q, h1) \<Rightarrow>
       (case audit_all hmac get p evs h1 of (qs, h2) \<Rightarrow> (q # qs, h2)))"

definition accepted :: "audit_event list \<Rightarrow> unit res list \<Rightarrow> audit_event list" where
  "accepted evs qs = map fst (filter (\<lambda>(ev, q). \<not> isl q) (zip evs qs))"

context key_source
begin

lemma trail_run:
  assumes "hmac_sized hmac" "p \<noteq> key_file"
  shows "audit_all hmac get p evs h = (qs, h') \<Longrightarrow> audit_rows p h rows \<Longrightarrow> key_at h = Some key \<Longrightarrow>
    chain hmac key 1 genesis_mac fs = Some rows \<Longrightarrow> distinct (map af_id fs) \<Longrightarrow>
    (\<exists>gs rows'. map audit_serialize (accepted evs qs) = map Inr gs
      \<and> chain hmac key 1 genesis_mac (fs @ gs) = Some rows' \<and> audit_rows p h' rows'
      \<and> distinct (map af_id (fs @ gs)) \<and> key_at h' = Some key)"
proof (induction evs arbitrary: h qs h' rows fs)
  case Nil
  then show ?case by (auto simp: accepted_def)
next
  case (Cons ev evs)
  obtain q h1 where q: "audit_append hmac get p ev h = (q, h1)" by fastforce
  obtain qs1 h2 where qs: "audit_all hmac get p evs h1 = (qs1, h2)" by fastforce
  from Cons.prems(1) q qs have r: "qs = q # qs1" "h' = h2" by auto
  note run = append_run [OF Cons.prems(2) q assms(2)]
  show ?case
  proof (cases q)
    case (Inl e)
    with run Cons.prems have "audit_rows p h1 rows" "key_at h1 = Some key" by auto
    from Cons.IH [OF qs this Cons.prems(4,5)] r Inl show ?thesis by (simp add: accepted_def)
  next
    case (Inr u)
    with run Cons.prems(3) obtain f row where f: "audit_serialize ev = Inr f"
      "next_row hmac key f rows = Inr row" "audit_rows p h1 (rows @ [row])" "key_at h1 = Some key"
      "\<forall>r' \<in> set rows. \<not> sql_eq (row ! Suc 0) (r' ! Suc 0)" by auto
    have "chain hmac key 1 genesis_mac (fs @ [f]) = Some (rows @ [row])"
      by (rule next_row_chain [OF assms(1) Cons.prems(4) f(2)])
    moreover have "af_id f \<notin> af_id ` set fs"
      using chain_ids [OF Cons.prems(4)] chain_conflict(2) [OF assms(1) Cons.prems(4) f(2)] f(5) by blast
    ultimately obtain gs rows' where gs: "map audit_serialize (accepted evs qs1) = map Inr gs"
      "chain hmac key 1 genesis_mac ((fs @ [f]) @ gs) = Some rows'" "audit_rows p h2 rows'"
      "distinct (map af_id ((fs @ [f]) @ gs))" "key_at h2 = Some key"
      using Cons.IH [OF qs f(3,4), of "fs @ [f]"] Cons.prems(5) by auto
    then show ?thesis using r Inr f(1) by (intro exI [of _ "f # gs"]) (auto simp: accepted_def)
  qed
qed

lemma verify_run:
  assumes "audit_rows p h rows" "verify_integrity hmac get p h = (q, h')"
  shows "audit_rows p h' rows \<and> (case q of
      Inr _ \<Rightarrow> \<exists>key. key_at h = Some key
        \<and> verify_rows hmac key 1 genesis_mac (sort_key (\<lambda>r. r ! 0) rows) = Inr ()
    | Inl e \<Rightarrow> (exn_class e = AuditStorageError \<or> e = integrity_failed)
        \<and> (h_faults h = [] \<longrightarrow> (\<forall>key. key_at h = Some key \<and> length key = 32 \<longrightarrow> e = integrity_failed
             \<and> verify_rows hmac key 1 genesis_mac (sort_key (\<lambda>r. r ! 0) rows) \<noteq> Inr ())))"
proof -
  obtain k h1 where k: "audit_load_key get h = (k, h1)" by fastforce
  note run = load_key_run [OF k]
  have quiet: "h_faults h = [] \<longrightarrow> h_faults h1 = []" using load_key_quiet [of h] k by simp
  have rows1: "audit_rows p h1 rows"
    using assms(1) run by (simp add: table_rows_def table_at_def db_at_def same_files_def)
  show ?thesis
  proof (cases k)
    case (Inl e)
    with assms(2) k run rows1 show ?thesis by (auto simp: verify_integrity_def bind_apply)
  next
    case (Inr key)
    let ?rows = "sort_key (\<lambda>r. r ! 0) rows"
    let ?m = "bind (select audit_table audit_columns [] (Some (lit ''sequence_no'')))
        (\<lambda>rows. lift (verify_rows hmac key 1 genesis_mac rows))"
    from rows1 have t: "table_at h1 p audit_table = Some (made audit_schema audit_unique rows)"
      "\<forall>r \<in> set rows. length r = 11" by (simp_all add: table_rows_def)
    then obtain d where d: "db_at h1 p = Some d"
      "map_of (db_tables d) audit_table = Some (made audit_schema audit_unique rows)"
      by (auto simp: table_at_def split: option.splits)
    obtain w h2 where w: "connection p ?m h1 = (w, h2)" by fastforce
    have vr: "verify_rows hmac key n prev rs = Inl e \<Longrightarrow> e = integrity_failed
        \<or> e = err UnicodeEncodeError ''surrogates not allowed''" for n prev rs e
      by (induction rs arbitrary: n prev)
        (auto simp: bindR_eq_Inl_iff canonical_event_bytes_def dest!: stored_fields_error utf8_encode_error
          split: if_splits prod.splits)
    have cols: "set (audit_columns @ map fst ([] :: (pystr \<times> sqlval) list))
        \<subseteq> set (column_names (made audit_schema audit_unique rows))" by (simp add: audit_columns_def)
    from w [unfolded connection_def] d(1)
    have run2: "audit_rows p h2 rows \<and> (w = Inl sql_error \<and> h_faults h1 \<noteq> []
        \<or> w = verify_rows hmac key 1 genesis_mac ?rows)"
    proof (cases rule: with_db_run)
      case unopened
      with d t show ?thesis by (simp add: table_rows_def table_at_def)
    next
      case (ran fs c)
      obtain x c1 where x: "select audit_table audit_columns [] (Some (lit ''sequence_no''))
          \<lparr>c_db = d, c_faults = fs\<rparr> = (x, c1)" by fastforce
      note s = select_run [OF x _ cols, unfolded audit_selections(2) [OF t(2)]]
      from s d(2) have sx: "c_db c1 = d" "x = Inr ?rows \<or> x = Inl sql_error \<and> fs \<noteq> []" by auto
      from ran(1) x have "c = c1" "w = bindR x (verify_rows hmac key 1 genesis_mac)"
        by (auto simp: bind_apply bindR_def split: sum.splits)
      with sx ran(2,3) d t show ?thesis by (auto simp: table_rows_def table_at_def)
    qed
    from assms(2) k Inr w have r: "h' = h2" "q = (case w of Inr u \<Rightarrow> Inr ()
        | Inl e \<Rightarrow> if is_exception e then Inl (verify_failed e) else Inl e)"
      by (auto simp: verify_integrity_def bind_apply try_except_def split: sum.splits if_splits)
    show ?thesis
    proof (cases w)
      case inl: (Inl e)
      then have "e = sql_error \<and> h_faults h1 \<noteq> [] \<or> e = integrity_failed
          \<or> e = err UnicodeEncodeError ''surrogates not allowed''"
        using run2 vr [of 1 genesis_mac ?rows e] by auto
      then have "q = Inl (verify_failed e)" "verify_failed e = storage_error ''audit events could not be verified''
          \<and> h_faults h1 \<noteq> [] \<or> verify_failed e = integrity_failed"
        using r(2) inl by (auto simp: verify_failed_def sql_error_def integrity_failed_def is_exception_def)
      with run run2 inl Inr r(1) quiet show ?thesis by (auto simp: storage_error_def)
    next
      case (Inr u)
      with run2 have v: "verify_rows hmac key 1 genesis_mac ?rows = Inr ()" by simp
      have "q = Inr ()" using r(2) Inr by simp
      with v run run2 \<open>k = Inr key\<close> r(1) show ?thesis by simp
    qed
  qed
qed

end

section \<open>Properties of the repository\<close>

lemma rows_of_table:
  "table_at h p audit_table = Some (made audit_schema audit_unique rows) \<Longrightarrow>
     chain hmac key n prev fs = Some rows \<Longrightarrow> audit_rows p h rows"
  by (auto simp: table_rows_def in_set_conv_nth chain_numbers)

text \<open>
  C18. The trail records exactly what was accepted: start from a chain with distinct ids and
  append any events, some of which may fail, under any faults of the host; afterwards the table
  is the chain of the old events followed by the accepted ones in their order, with distinct
  ids, and (without a fault) its verification passes.
\<close>

theorem audit_trail_sound:
  assumes "hmac_sized hmac" "p \<noteq> q" "key_of h q = Some key"
    "table_at h p audit_table = Some (made audit_schema audit_unique rows)"
    "chain hmac key 1 genesis_mac fs = Some rows" "distinct (map af_id fs)"
    "audit_all hmac (get_key q) p evs h = (qs, h')"
  shows "\<exists>gs rows'. map audit_serialize (accepted evs qs) = map Inr gs
    \<and> chain hmac key 1 genesis_mac (fs @ gs) = Some rows' \<and> distinct (map af_id (fs @ gs))
    \<and> table_at h' p audit_table = Some (made audit_schema audit_unique rows')
    \<and> (h_faults h' = [] \<longrightarrow> fst (verify_integrity hmac (get_key q) p h') = Inr ())"
proof -
  from key_file.trail_run [OF assms(1,2,7) rows_of_table [OF assms(4,5)] assms(3,5,6)]
  obtain gs rows' where gs: "map audit_serialize (accepted evs qs) = map Inr gs"
    "chain hmac key 1 genesis_mac (fs @ gs) = Some rows'" "audit_rows p h' rows'"
    "distinct (map af_id (fs @ gs))" "key_of h' q = Some key" by blast
  obtain r h2 where r: "verify_integrity hmac (get_key q) p h' = (r, h2)" by fastforce
  have "length genesis_mac = 32" by (simp add: genesis_mac_def)
  then have "verify_rows hmac key 1 genesis_mac rows' = Inr ()"
    using verify_rows_chain [OF assms(1)] gs(2) by blast
  moreover have "length key = 32" using gs(5) by (auto simp: key_of_def split: option.splits node.splits if_splits)
  ultimately have "r = Inr ()" if "h_faults h' = []"
    using key_file.verify_run [OF gs(3) r] that gs(5) chain_sorted [OF gs(2)]
    by (auto split: sum.splits)
  with gs r show ?thesis by (auto simp: table_rows_def)
qed

text \<open>An empty trail with its key file.\<close>

definition audit_host :: dbhost where
  "audit_host = \<lparr>h_files = [[] \<mapsto> Directory 0x1C0,
       [lit ''k''] \<mapsto> Regular 0x180 (Bytes (replicate 32 1)),
       [lit ''a''] \<mapsto> Regular 0x180 (Db \<lparr>db_version = 2, db_tables =
         [(audit_table, made audit_schema audit_unique [])]\<rparr>)],
     h_umask = 0x3F, h_entropy = [], h_faults = [], h_chunks = []\<rparr>"

lemma audit_host_facts:
  "key_of audit_host [lit ''k''] = Some (replicate 32 1)"
  "table_at audit_host [lit ''a''] audit_table = Some (made audit_schema audit_unique [])"
  "h_faults audit_host = []"
  by (simp_all add: key_of_def table_at_def db_at_def audit_host_def)

definition example_event :: "string \<Rightarrow> audit_event" where
  "example_event i = \<lparr>ev_id = lit i, ev_timestamp = utc 63902908800000000, ev_type = ACCESS_DENIED,
     ev_actor_user_id = lit ''alice'', ev_target_id = lit ''web'', ev_session_id = None,
     ev_result = lit ''denied'', ev_reason_code = Some (lit ''no_matching_policy'')\<rparr>"

theorem audit_trail_sound_witness:
  "\<exists>qs h' gs rows'. audit_all toy_hmac (get_key [lit ''k'']) [lit ''a'']
       [example_event ''e1'', example_event ''e1'', example_event ''e2''] audit_host = (qs, h')
     \<and> chain toy_hmac (replicate 32 1) 1 genesis_mac gs = Some rows' \<and> distinct (map af_id gs)
     \<and> table_at h' [lit ''a''] audit_table = Some (made audit_schema audit_unique rows')"
proof -
  obtain qs h' where r: "audit_all toy_hmac (get_key [lit ''k'']) [lit ''a'']
      [example_event ''e1'', example_event ''e1'', example_event ''e2''] audit_host = (qs, h')" by fastforce
  from audit_trail_sound [where fs = "[]", OF toy_hmac_sized _ audit_host_facts(1,2) _ _ r] r
  show ?thesis by auto
qed

text \<open>Texts without lone surrogates, in the event and so in its serialization.\<close>

definition event_encodable :: "audit_event \<Rightarrow> bool" where
  "event_encodable ev \<longleftrightarrow> list_all (list_all encodable)
     [ev_id ev, ev_actor_user_id ev, ev_target_id ev, ev_result ev]
     \<and> (\<forall>s. ev_session_id ev = Some s \<longrightarrow> list_all encodable s)
     \<and> (\<forall>s. ev_reason_code ev = Some s \<longrightarrow> list_all encodable s)"

lemma pad_encodable: "list_all encodable (pad w n)"
  using dec_int_encodable [of n] by (auto simp: pad_def list_all_iff ascii_encodable)

lemma serialize_encodable:
  assumes "event_encodable ev" "audit_serialize ev = Inr f"
  shows "fields_encodable f \<and> af_id f = ev_id ev"
proof -
  have "list_all encodable (isoformat_z d)" for d
    by (simp add: isoformat_z_def Let_def pad_encodable ascii_encodable split: prod.splits)
  moreover have "list_all encodable (event_type_value ty)" for ty
    by (cases ty) (simp_all add: encodable_lit)
  ultimately show ?thesis
    using assms by (auto simp: audit_serialize_def catchR_eq_Inr_iff event_encodable_def fields_encodable_def)
qed

lemma bind_event_row:
  assumes "fields_encodable f" "- (2 ^ 63) \<le> n" "n < 2 ^ 63"
  shows "bind_values (event_row n f p m) = Inr ()"
proof -
  have "bind_value (opt_text o') = Inr ()" if "\<forall>s. o' = Some s \<longrightarrow> list_all encodable s" for o'
    using that by (cases o') auto
  with assms show ?thesis by (simp add: event_row_def fields_encodable_def)
qed

lemma audit_append_chain:
  assumes "hmac_sized hmac" "p \<noteq> q" "key_of h q = Some key" "h_faults h = []"
    "table_at h p audit_table = Some (made audit_schema audit_unique rows)"
    "chain hmac key 1 genesis_mac fs = Some rows" "length fs < 2 ^ 62" "event_encodable ev"
    "audit_append hmac (get_key q) p ev h = (r, h')"
  shows "case audit_serialize ev of
      Inl e \<Rightarrow> r = Inl e \<and> table_at h' p audit_table = table_at h p audit_table
    | Inr f \<Rightarrow> if ev_id ev \<in> af_id ` set fs
        then r = Inl duplicate_event \<and> table_at h' p audit_table = table_at h p audit_table
        else r = Inr () \<and> (\<exists>row. chain hmac key 1 genesis_mac (fs @ [f]) = Some (rows @ [row])
          \<and> table_at h' p audit_table = Some (made audit_schema audit_unique (rows @ [row])))"
proof -
  have ar: "audit_rows p h rows" by (rule rows_of_table [OF assms(5,6)])
  note run = key_file.append_run [OF ar assms(9,2)]
  show ?thesis
  proof (cases "audit_serialize ev")
    case (Inl e)
    with assms(9) show ?thesis by (simp add: audit_append_def)
  next
    case (Inr f)
    note enc = serialize_encodable [OF assms(8) Inr]
    from canonical_encodable enc obtain c where c: "canonical_event_bytes (1 + int (length fs)) f = Inr c"
      by blast
    let ?prev = "last_mac genesis_mac rows"
    define row where "row = event_row (1 + int (length fs)) f ?prev (hmac key (c @ ?prev))"
    have nr: "next_row hmac key f rows = Inr row"
      using chain_head_chain [OF assms(1,6)] c by (simp add: next_row_def row_def)
    have "int (length fs) < 2 ^ 62" using assms(7) by (metis of_nat_less_numeral_power_cancel_iff)
    then have b: "bind_values row = Inr ()"
      unfolding row_def using enc by (intro bind_event_row) simp_all
    have len: "length key = 32"
      using assms(3) by (auto simp: key_of_def split: option.splits node.splits if_splits)
    have conflict: "(\<exists>r' \<in> set rows. sql_eq (row ! 0) (r' ! 0) \<or> sql_eq (row ! Suc 0) (r' ! Suc 0))
        \<longleftrightarrow> ev_id ev \<in> af_id ` set fs"
      using chain_conflict [OF assms(1,6) nr] chain_ids [OF assms(6), of "af_id f"] enc by auto
    show ?thesis
    proof (cases r)
      case (Inl e)
      with run Inr assms(3,4) len nr b have "e = duplicate_event" by auto
      moreover from this run Inl Inr assms(3) nr conflict have "ev_id ev \<in> af_id ` set fs"
        by (auto simp: duplicate_event_def)
      ultimately show ?thesis using Inl Inr run assms(5) by (simp add: table_rows_def)
    next
      case r: (Inr u)
      with run Inr assms(3) nr have "audit_rows p h' (rows @ [row])"
        "\<not> (\<exists>r' \<in> set rows. sql_eq (row ! 0) (r' ! 0) \<or> sql_eq (row ! Suc 0) (r' ! Suc 0))" by auto
      with conflict r Inr next_row_chain [OF assms(1,6) nr] show ?thesis
        by (simp add: table_rows_def)
    qed
  qed
qed

text \<open>
  Without a fault of the host an append to a chain does the right thing in every case: an
  event that cannot be serialized or whose id is taken is refused and the table stays as it
  was; any other event is stored as the next link.
\<close>

theorem audit_append_exact:
  assumes "hmac_sized hmac" "p \<noteq> q" "key_of h q = Some key" "h_faults h = []"
    "table_at h p audit_table = Some (made audit_schema audit_unique rows)"
    "chain hmac key 1 genesis_mac fs = Some rows" "length fs < 2 ^ 62" "event_encodable ev"
    "audit_append hmac (get_key q) p ev h = (r, h')"
  shows "case audit_serialize ev of
      Inl e \<Rightarrow> r = Inl e \<and> table_at h' p audit_table = table_at h p audit_table
    | Inr f \<Rightarrow> if ev_id ev \<in> af_id ` set fs
        then r = Inl duplicate_event \<and> table_at h' p audit_table = table_at h p audit_table
        else r = Inr () \<and> (\<exists>row. chain hmac key 1 genesis_mac (fs @ [f]) = Some (rows @ [row])
          \<and> table_at h' p audit_table = Some (made audit_schema audit_unique (rows @ [row])))"
  using assms by (rule audit_append_chain)

theorem audit_append_exact_witness:
  "fst (audit_append toy_hmac (get_key [lit ''k'']) [lit ''a''] (example_event ''e1'') audit_host) = Inr ()"
proof -
  obtain r h' where r: "audit_append toy_hmac (get_key [lit ''k'']) [lit ''a''] (example_event ''e1'')
      audit_host = (r, h')" by fastforce
  have "event_encodable (example_event ''e1'')"
    by (simp add: event_encodable_def example_event_def encodable_lit)
  moreover have "\<not> isl (audit_serialize (example_event ''e1''))"
    by (simp add: audit_serialize_def example_event_def astimezone_utc_def max_us_def us_per_day_def)
  ultimately have "r = Inr ()"
    using audit_append_exact [where fs = "[]" and rows = "[]", OF toy_hmac_sized _ audit_host_facts(1,3,2) _ _ _ r]
    by (auto split: sum.splits)
  with r show ?thesis by simp
qed

text \<open>
  \<open>verify_integrity\<close> never changes the table, passes only on a chain under the key of the
  key file, ordered by sequence number, and, without a fault, on every such chain; whatever is
  wrong ends in \<open>AuditIntegrityError\<close> or \<open>AuditStorageError\<close>.
\<close>

theorem verify_integrity_exact:
  assumes "hmac_sized hmac" "table_at h p audit_table = Some (made audit_schema audit_unique rows)"
    "\<forall>r \<in> set rows. length r = length audit_schema"
    "verify_integrity hmac (get_key q) p h = (r, h')"
  shows "table_at h' p audit_table = table_at h p audit_table \<and> (case r of
      Inr _ \<Rightarrow> \<exists>key fs. key_of h q = Some key
        \<and> chain hmac key 1 genesis_mac fs = Some (sort_key (\<lambda>r. r ! 0) rows)
    | Inl e \<Rightarrow> exn_class e \<in> {AuditStorageError, AuditIntegrityError}
        \<and> (h_faults h = [] \<longrightarrow> (\<forall>key fs. key_of h q = Some key \<longrightarrow>
             chain hmac key 1 genesis_mac fs \<noteq> Some (sort_key (\<lambda>r. r ! 0) rows))))"
proof -
  have ar: "audit_rows p h rows" using assms(2,3) by (simp add: table_rows_def)
  note run = key_file.verify_run [OF ar assms(4)]
  have g: "length genesis_mac = 32" by (simp add: genesis_mac_def)
  note iff = verify_rows_chain [OF assms(1) g]
  have len: "key_of h q = Some key \<Longrightarrow> length key = 32" for key
    by (auto simp: key_of_def split: option.splits node.splits if_splits)
  have "case r of
      Inr _ \<Rightarrow> \<exists>key fs. key_of h q = Some key
        \<and> chain hmac key 1 genesis_mac fs = Some (sort_key (\<lambda>r. r ! 0) rows)
    | Inl e \<Rightarrow> exn_class e \<in> {AuditStorageError, AuditIntegrityError}
        \<and> (h_faults h = [] \<longrightarrow> (\<forall>key fs. key_of h q = Some key \<longrightarrow>
             chain hmac key 1 genesis_mac fs \<noteq> Some (sort_key (\<lambda>r. r ! 0) rows)))"
  proof (cases r)
    case (Inl e)
    with run have "exn_class e = AuditStorageError \<or> e = integrity_failed"
      "h_faults h = [] \<Longrightarrow> key_of h q = Some key \<Longrightarrow>
         verify_rows hmac key 1 genesis_mac (sort_key (\<lambda>r. r ! 0) rows) \<noteq> Inr ()" for key
      using len by auto
    with Inl iff show ?thesis by (auto simp: integrity_failed_def)
  next
    case (Inr u)
    with run iff show ?thesis by auto
  qed
  with run assms(2) show ?thesis by (simp add: table_rows_def)
qed

theorem verify_integrity_exact_witness:
  "fst (verify_integrity toy_hmac (get_key [lit ''k'']) [lit ''a''] audit_host) = Inr ()"
proof -
  obtain r h' where r: "verify_integrity toy_hmac (get_key [lit ''k'']) [lit ''a''] audit_host = (r, h')"
    by fastforce
  from verify_integrity_exact [OF toy_hmac_sized audit_host_facts(2) _ r] audit_host_facts(1,3)
  have "\<not> isl r" by (cases r) (auto dest: spec [of _ "[]"])
  with r show ?thesis by (cases r) simp_all
qed

end
