(* ===== verification/Relay.thy ===== *)
theory Relay
  imports Complex_Main Access
begin

text \<open>
  The terminal relay (\<open>infrastructure/ssh/terminal_relay.py\<close>). The clock, \<open>select\<close>, the
  channel and the terminal are operations of the world and every call is recorded. The loop need
  not end, so its value is \<open>None\<close> when it does not; \<open>relay_terminates\<close> says when it does.
\<close>

section \<open>Double precision\<close>

text \<open>
  The values of a float and the rounding of sums, differences and quotients to the nearest
  double, ties to even; the largest durations are far below the overflow threshold.
\<close>

definition power_of_two :: "int \<Rightarrow> rat" where
  "power_of_two e = (if 0 \<le> e then 2 ^ nat e else 1 / 2 ^ nat (- e))"

fun bit_size :: "nat \<Rightarrow> nat" where
  "bit_size n = (if n = 0 then 0 else Suc (bit_size (n div 2)))"

definition binary_exponent :: "rat \<Rightarrow> int" where
  "binary_exponent x = (let (p, q) = quotient_of \<bar>x\<bar>; e = int (bit_size (nat p)) - int (bit_size (nat q))
     in if power_of_two e \<le> \<bar>x\<bar> then e else e - 1)"

definition round_even :: "rat \<Rightarrow> int" where
  "round_even x = (let n = \<lfloor>x\<rfloor>; d = x - of_int n in
     if d < 1 / 2 then n else if 1 / 2 < d then n + 1 else if even n then n else n + 1)"

definition round_double :: "rat \<Rightarrow> rat" where
  "round_double x = (if x = 0 then 0 else
     let u = power_of_two (max (binary_exponent x - 52) (- 1074)) in of_int (round_even (x / u)) * u)"

lemma power_of_two_pos: "0 < power_of_two e"
  by (simp add: power_of_two_def)

lemma round_even_nonpos:
  assumes "x \<le> 0"
  shows "round_even x \<le> 0"
proof (cases "\<lfloor>x\<rfloor> = 0")
  case True
  with assms have "x = 0" by linarith
  then show ?thesis by (simp add: round_even_def Let_def)
next
  case False
  with assms have "\<lfloor>x\<rfloor> + 1 \<le> 0" by linarith
  then show ?thesis by (auto simp: round_even_def Let_def)
qed

lemma round_double_nonpos: "x \<le> 0 \<Longrightarrow> round_double x \<le> 0"
  using round_even_nonpos [of "x / u" for u]
  by (auto simp: round_double_def Let_def power_of_two_pos divide_nonpos_pos mult_nonpos_nonneg less_imp_le)

text \<open>\<open>timedelta.total_seconds()\<close> of a duration in microseconds\<close>

definition total_seconds :: "int \<Rightarrow> rat" where
  "total_seconds d = round_double (of_int d / 1000000)"

section \<open>The relay\<close>

record 'w relay_lib =
  rl_is_closed :: "('w, bool) io"
  rl_monotonic :: "('w, rat) io"
  rl_select :: "rat \<Rightarrow> ('w, bool \<times> bool) io"
  rl_receive :: "int \<Rightarrow> ('w, bytes) io"
  rl_send :: "bytes \<Rightarrow> ('w, unit) io"
  rl_close :: "('w, unit) io"
  rl_read_input :: "int \<Rightarrow> ('w, bytes) io"
  rl_write_output :: "bytes \<Rightarrow> ('w, unit) io"

datatype relay_obs =
    IsClosed "bool res"
  | Monotonic "rat res"
  | Select rat "(bool \<times> bool) res"
  | Receive int "bytes res"
  | WriteOutput bytes "unit res"
  | ReadInput int "bytes res"
  | Send bytes "unit res"
  | CloseRelay "unit res"

type_synonym ('w, 'z, 'a) relay_io = "(('w, relay_obs, 'z) tstate_scheme, 'a) io"

text \<open>
  The branches \<open>if channel in readable\<close> and \<open>if terminal in readable\<close>; \<open>Some\<close> is a
  \<open>return\<close>, \<open>None\<close> goes on.
\<close>

definition relay_remote :: "'w relay_lib \<Rightarrow> int \<Rightarrow> ('w, 'z, relay_outcome option) relay_io" where
  "relay_remote R max_bytes =
     bind (perform (rl_receive R max_bytes) (Receive max_bytes)) (\<lambda>remote_data.
     if remote_data = [] then ret (Some COMPLETED)
     else seq (perform (rl_write_output R remote_data) (WriteOutput remote_data)) (ret None))"

definition relay_local :: "'w relay_lib \<Rightarrow> int \<Rightarrow> ('w, 'z, relay_outcome option) relay_io" where
  "relay_local R max_bytes =
     bind (perform (rl_read_input R max_bytes) (ReadInput max_bytes)) (\<lambda>local_data.
     if local_data = [] then ret (Some COMPLETED)
     else seq (perform (rl_send R local_data) (Send local_data)) (ret None))"

text \<open>One turn of the loop\<close>

definition relay_turn :: "'w relay_lib \<Rightarrow> int \<Rightarrow> rat \<Rightarrow> ('w, 'z, relay_outcome option) relay_io" where
  "relay_turn R max_bytes deadline =
     bind (perform (rl_is_closed R) IsClosed) (\<lambda>closed.
     if closed then ret (Some COMPLETED) else
     bind (perform (rl_monotonic R) Monotonic) (\<lambda>now.
     let remaining = round_double (deadline - now) in
     if remaining \<le> 0 then ret (Some MAX_DURATION_EXCEEDED) else
     bind (perform (rl_select R remaining) (Select remaining)) (\<lambda>(terminal_ready, channel_ready).
     bind (perform (rl_monotonic R) Monotonic) (\<lambda>now.
     if deadline \<le> now then ret (Some MAX_DURATION_EXCEEDED) else
     if \<not> terminal_ready \<and> \<not> channel_ready then ret None else
     bind (if channel_ready then relay_remote R max_bytes else ret None) (\<lambda>returned.
     case returned of
       Some v \<Rightarrow> ret (Some v)
     | None \<Rightarrow> if terminal_ready then relay_local R max_bytes else ret None)))))"

partial_function (option) relay_loop ::
  "'w relay_lib \<Rightarrow> int \<Rightarrow> rat \<Rightarrow> ('w, relay_obs, 'z) tstate_scheme \<Rightarrow>
   (relay_outcome res \<times> ('w, relay_obs, 'z) tstate_scheme) option" where
  "relay_loop R max_bytes deadline s =
     (case relay_turn R max_bytes deadline s of (r, s') \<Rightarrow>
        (case r of
           Inl e \<Rightarrow> Some (Inl e, s')
         | Inr returned \<Rightarrow>
             (case returned of
                Some v \<Rightarrow> Some (Inr v, s')
              | None \<Rightarrow> relay_loop R max_bytes deadline s')))"

definition relay_failed :: exn where
  "relay_failed = err SshChannelError ''interactive terminal relay failed''"

text \<open>
  The \<open>except\<close> and \<open>finally\<close> clauses around the loop, applied to its outcome
\<close>

definition relay_end :: "'w relay_lib \<Rightarrow>
   relay_outcome res \<times> ('w, relay_obs, 'z) tstate_scheme \<Rightarrow>
   relay_outcome res \<times> ('w, relay_obs, 'z) tstate_scheme" where
  "relay_end R = (\<lambda>(r, s).
     try_finally (try_except (lift r) is_exception (\<lambda>_. raise relay_failed))
       (perform (rl_close R) CloseRelay) s)"

definition relay_terminal ::
  "'w relay_lib \<Rightarrow> int \<Rightarrow> int \<Rightarrow> ('w, relay_obs, 'z) tstate_scheme \<Rightarrow>
   (relay_outcome res \<times> ('w, relay_obs, 'z) tstate_scheme) option" where
  "relay_terminal R max_duration max_bytes s =
     (if max_duration \<le> 0 then Some (Inl (err ValueError ''max_duration must be positive''), s)
      else case perform (rl_monotonic R) Monotonic s of
        (Inl e, s1) \<Rightarrow> Some (Inl e, s1)
      | (Inr now, s1) \<Rightarrow>
          map_option (relay_end R)
            (relay_loop R max_bytes (round_double (now + total_seconds max_duration)) s1))"

text \<open>\<open>max_bytes: int = 32 * 1024\<close>\<close>

definition relay_chunk :: int where
  "relay_chunk = 32 * 1024"

section \<open>What a relay does\<close>

text \<open>The octets of a transcript: from the server, to the screen, from the keyboard, to the server\<close>

fun received :: "relay_obs list \<Rightarrow> bytes" where
  "received [] = []"
| "received (Receive n (Inr d) # obs) = d @ received obs"
| "received (_ # obs) = received obs"

fun written :: "relay_obs list \<Rightarrow> bytes" where
  "written [] = []"
| "written (WriteOutput d v # obs) = d @ written obs"
| "written (_ # obs) = written obs"

fun typed :: "relay_obs list \<Rightarrow> bytes" where
  "typed [] = []"
| "typed (ReadInput n (Inr d) # obs) = d @ typed obs"
| "typed (_ # obs) = typed obs"

fun sent :: "relay_obs list \<Rightarrow> bytes" where
  "sent [] = []"
| "sent (Send d v # obs) = d @ sent obs"
| "sent (_ # obs) = sent obs"

lemma received_append: "received (xs @ ys) = received xs @ received ys"
  by (induction xs rule: received.induct) simp_all

lemma written_append: "written (xs @ ys) = written xs @ written ys"
  by (induction xs rule: written.induct) simp_all

lemma typed_append: "typed (xs @ ys) = typed xs @ typed ys"
  by (induction xs rule: typed.induct) simp_all

lemma sent_append: "sent (xs @ ys) = sent xs @ sent ys"
  by (induction xs rule: sent.induct) simp_all

lemmas octets_append = received_append written_append typed_append sent_append

text \<open>Data moves only when the last reading of the clock was before the deadline.\<close>

fun in_time :: "rat \<Rightarrow> bool \<Rightarrow> relay_obs list \<Rightarrow> bool" where
  "in_time d ok [] = True"
| "in_time d ok (Monotonic (Inr t) # obs) = in_time d (t < d) obs"
| "in_time d ok (Receive n v # obs) = (ok \<and> in_time d ok obs)"
| "in_time d ok (WriteOutput b v # obs) = (ok \<and> in_time d ok obs)"
| "in_time d ok (ReadInput n v # obs) = (ok \<and> in_time d ok obs)"
| "in_time d ok (Send b v # obs) = (ok \<and> in_time d ok obs)"
| "in_time d ok (Select w v # obs) = (0 < w \<and> in_time d ok obs)"
| "in_time d ok (_ # obs) = in_time d ok obs"

lemma in_time_append: "in_time d ok xs \<Longrightarrow> (\<And>k. in_time d k ys) \<Longrightarrow> in_time d ok (xs @ ys)"
  by (induction d ok xs rule: in_time.induct) auto

text \<open>Why a relay ends: nothing more to read, or no time left.\<close>

definition end_of_stream :: "relay_obs list \<Rightarrow> bool" where
  "end_of_stream obs \<longleftrightarrow> obs \<noteq> [] \<and>
     (last obs = IsClosed (Inr True) \<or> (\<exists>n. last obs = Receive n (Inr []) \<or> last obs = ReadInput n (Inr [])))"

definition out_of_time :: "rat \<Rightarrow> relay_obs list \<Rightarrow> bool" where
  "out_of_time d obs \<longleftrightarrow> obs \<noteq> [] \<and>
     (\<exists>t. last obs = Monotonic (Inr t) \<and> (d \<le> t \<or> round_double (d - t) \<le> 0))"

definition relay_obs_ok :: "rat \<Rightarrow> relay_obs list \<Rightarrow> bool" where
  "relay_obs_ok d obs \<longleftrightarrow> (\<forall>ok. in_time d ok obs) \<and> received obs = written obs \<and> typed obs = sent obs
     \<and> (\<forall>v. CloseRelay v \<notin> set obs)"

lemma relay_obs_ok_append: "relay_obs_ok d xs \<Longrightarrow> relay_obs_ok d ys \<Longrightarrow> relay_obs_ok d (xs @ ys)"
  by (auto simp: relay_obs_ok_def octets_append intro: in_time_append)

lemma relay_copy_run:
  assumes "bind (perform get G) (\<lambda>x. if x = [] then ret (Some COMPLETED)
      else seq (perform (put x) (P x)) (ret None)) s = (r, s')"
  shows "\<exists>v. (case v of
      Inl e \<Rightarrow> r = Inl e \<and> trace s' = trace s @ [G v]
    | Inr x \<Rightarrow> if x = [] then r = Inr (Some COMPLETED) \<and> trace s' = trace s @ [G v]
        else \<exists>u. trace s' = trace s @ [G v, P x u] \<and> (case u of Inl e \<Rightarrow> r = Inl e | Inr _ \<Rightarrow> r = Inr None))"
proof -
  obtain v s1 where v: "perform get G s = (v, s1)" by fastforce
  then have t: "trace s1 = trace s @ [G v]" by (auto simp: perform_eq_iff)
  show ?thesis
  proof (cases v)
    case (Inl e)
    with assms v t show ?thesis by (auto simp: bind_apply intro!: exI [of _ v])
  next
    case (Inr x)
    obtain u s2 where u: "perform (put x) (P x) s1 = (u, s2)" by fastforce
    then have "trace s2 = trace s @ [G v, P x u]" using t by (auto simp: perform_eq_iff)
    with assms v Inr u t show ?thesis
      by (intro exI [of _ v]) (auto simp: bind_apply seq_apply split: sum.splits if_splits)
  qed
qed

definition turn_result :: "rat \<Rightarrow> relay_outcome option res \<Rightarrow> relay_obs list \<Rightarrow> bool" where
  "turn_result d r obs \<longleftrightarrow> (case r of
      Inl e \<Rightarrow> True
    | Inr None \<Rightarrow> True
    | Inr (Some COMPLETED) \<Rightarrow> end_of_stream obs
    | Inr (Some MAX_DURATION_EXCEEDED) \<Rightarrow> out_of_time d obs)"

lemma turn_result_simps [simp]:
  "turn_result d (Inl e) obs" "turn_result d (Inr None) obs"
  "turn_result d (Inr (Some COMPLETED)) obs = end_of_stream obs"
  "turn_result d (Inr (Some MAX_DURATION_EXCEEDED)) obs = out_of_time d obs"
  by (simp_all add: turn_result_def)

lemma turn_result_prefix: "turn_result d r ys \<Longrightarrow> turn_result d r (xs @ ys)"
  by (auto simp: turn_result_def end_of_stream_def out_of_time_def
      split: sum.splits option.splits relay_outcome.splits)

definition copied :: "rat \<Rightarrow> relay_obs list \<Rightarrow> bool" where
  "copied d obs \<longleftrightarrow> in_time d True obs \<and> received obs = written obs \<and> typed obs = sent obs
     \<and> (\<forall>v. CloseRelay v \<notin> set obs)"

lemma relay_remote_run:
  assumes "relay_remote R n s = (r, s')"
  shows "\<exists>obs. trace s' = trace s @ obs \<and> copied d obs \<and> turn_result d r obs
    \<and> (\<forall>ys. in_time d True (obs @ ys) = in_time d True ys)"
  using relay_copy_run [OF assms [unfolded relay_remote_def]]
  by (elim exE, split sum.splits, auto simp: copied_def end_of_stream_def split: if_splits sum.splits)

lemma relay_local_run:
  assumes "relay_local R n s = (r, s')"
  shows "\<exists>obs. trace s' = trace s @ obs \<and> copied d obs \<and> turn_result d r obs
    \<and> (\<forall>ys. in_time d True (obs @ ys) = in_time d True ys)"
  using relay_copy_run [OF assms [unfolded relay_local_def]]
  by (elim exE, split sum.splits, auto simp: copied_def end_of_stream_def split: if_splits sum.splits)

text \<open>The part of a turn after the readings of the clock\<close>

lemma relay_copies_run:
  assumes "bind (if c then relay_remote R n else ret None) (\<lambda>returned.
      case returned of Some v \<Rightarrow> ret (Some v) | None \<Rightarrow> if t then relay_local R n else ret None) s = (r, s')"
  shows "\<exists>obs. trace s' = trace s @ obs \<and> copied d obs \<and> turn_result d r obs"
proof -
  have nil: "copied d []" by (simp add: copied_def)
  obtain a s1 where a: "(if c then relay_remote R n else ret None) s = (a, s1)" by fastforce
  have "\<exists>obs. trace s1 = trace s @ obs \<and> copied d obs \<and> turn_result d a obs
      \<and> (\<forall>ys. in_time d True (obs @ ys) = in_time d True ys)"
    using a relay_remote_run [of R n s a s1 d] nil by (cases c) auto
  then obtain xs where x: "trace s1 = trace s @ xs" "copied d xs" "turn_result d a xs"
    "\<forall>ys. in_time d True (xs @ ys) = in_time d True ys" by blast
  show ?thesis
  proof (cases a)
    case (Inl e)
    with a assms have "r = Inl e" "s' = s1" by (simp_all add: bind_apply)
    with x Inl show ?thesis by auto
  next
    case (Inr v)
    show ?thesis
    proof (cases v)
      case None
      obtain b s2 where b: "(if t then relay_local R n else ret None) s1 = (b, s2)" by fastforce
      with a assms Inr None have r: "r = b" "s' = s2" by (simp_all add: bind_apply)
      have "\<exists>obs. trace s2 = trace s1 @ obs \<and> copied d obs \<and> turn_result d b obs"
        using b relay_local_run [of R n s1 b s2 d] nil by (cases t) auto
      then obtain ys where y: "trace s2 = trace s1 @ ys" "copied d ys" "turn_result d b ys" by blast
      with x have "copied d (xs @ ys)" by (simp add: octets_append copied_def)
      with x(1) y r show ?thesis by (intro exI [of _ "xs @ ys"]) (simp add: turn_result_prefix)
    next
      case (Some w)
      with a assms Inr have "r = Inr (Some w)" "s' = s1" by (simp_all add: bind_apply)
      with x Inr Some show ?thesis by auto
    qed
  qed
qed

lemma relay_turn_run:
  assumes "relay_turn R n d s = (r, s')"
  shows "\<exists>obs. trace s' = trace s @ obs \<and> relay_obs_ok d obs \<and> turn_result d r obs"
proof -
  obtain a s1 where a: "perform (rl_is_closed R) IsClosed s = (a, s1)" by fastforce
  obtain b s2 where b: "perform (rl_monotonic R) Monotonic s1 = (b, s2)" by fastforce
  note tr = perform_run(1) [OF a] perform_run(1) [OF b]
  show ?thesis
  proof (cases "\<exists>t. a = Inr False \<and> b = Inr t \<and> 0 < round_double (d - t)")
    case False
    then consider e where "a = Inl e" | "a = Inr True" | e where "a = Inr False" "b = Inl e"
      | t where "a = Inr False" "b = Inr t" "round_double (d - t) \<le> 0"
      by (cases a; cases b; force)
    then show ?thesis
      using assms a b tr
      by cases (auto simp: relay_turn_def bind_apply Let_def relay_obs_ok_def end_of_stream_def out_of_time_def)
  next
    case True
    then obtain t where t: "a = Inr False" "b = Inr t" "0 < round_double (d - t)" by blast
    let ?w = "round_double (d - t)"
    obtain c s3 where c: "perform (rl_select R ?w) (Select ?w) s2 = (c, s3)" by fastforce
    obtain m s4 where m: "perform (rl_monotonic R) Monotonic s3 = (m, s4)" by fastforce
    note tr = tr perform_run(1) [OF c] perform_run(1) [OF m]
    show ?thesis
    proof (cases "\<exists>x y u. c = Inr (x, y) \<and> m = Inr u \<and> u < d \<and> (x \<or> y)")
      case False
      then consider e where "c = Inl e" | x where "c = Inr x" "\<exists>e. m = Inl e"
        | x u where "c = Inr x" "m = Inr u" "d \<le> u"
        | u where "c = Inr (False, False)" "m = Inr u" "u < d"
        by (cases c; cases m; force)
      then show ?thesis
        using assms a b c m tr t
        by cases (auto simp: relay_turn_def bind_apply Let_def relay_obs_ok_def out_of_time_def
            split: prod.splits)
    next
      case True
      then obtain x y u where u: "c = Inr (x, y)" "m = Inr u" "u < d" "x \<or> y" by blast
      with assms a b c m t have "bind (if y then relay_remote R n else ret None) (\<lambda>returned.
          case returned of Some v \<Rightarrow> ret (Some v) | None \<Rightarrow> if x then relay_local R n else ret None) s4
          = (r, s')"
        by (auto simp: relay_turn_def bind_apply Let_def)
      from relay_copies_run [OF this, of d] obtain obs where o: "trace s' = trace s4 @ obs" "copied d obs"
        "turn_result d r obs" by blast
      let ?pre = "[IsClosed a, Monotonic b, Select ?w c, Monotonic m]"
      have "relay_obs_ok d (?pre @ obs)" using o(2) u t by (simp add: relay_obs_ok_def copied_def)
      moreover have "trace s' = trace s @ ?pre @ obs" using o(1) tr by simp
      ultimately show ?thesis using turn_result_prefix [OF o(3)] by blast
    qed
  qed
qed

definition loop_result :: "rat \<Rightarrow> relay_outcome res \<Rightarrow> relay_obs list \<Rightarrow> bool" where
  "loop_result d r obs \<longleftrightarrow> (case r of
      Inl e \<Rightarrow> True
    | Inr COMPLETED \<Rightarrow> end_of_stream obs
    | Inr MAX_DURATION_EXCEEDED \<Rightarrow> out_of_time d obs)"

lemma relay_loop_outcome:
  "relay_loop R n d s = Some y \<Longrightarrow>
     \<exists>obs. trace (snd y) = trace s @ obs \<and> relay_obs_ok d obs \<and> loop_result d (fst y) obs"
proof (induction arbitrary: rule: relay_loop.raw_induct [rotated, consumes 1])
  case (1 loop R n d s y)
  obtain a s1 where a: "relay_turn R n d s = (a, s1)" by fastforce
  from relay_turn_run [OF a] obtain obs where o: "trace s1 = trace s @ obs" "relay_obs_ok d obs"
    "turn_result d a obs" by blast
  show ?case
  proof (cases "a = Inr None")
    case True
    with 1(2) a have "loop R n d s1 = Some y" by simp
    from 1(1) [OF this] obtain obs' where "trace (snd y) = trace s1 @ obs'" "relay_obs_ok d obs'"
      "loop_result d (fst y) obs'" by blast
    with o show ?thesis
      by (intro exI [of _ "obs @ obs'"])
        (auto simp: relay_obs_ok_append loop_result_def end_of_stream_def out_of_time_def
          split: sum.splits relay_outcome.splits)
  next
    case False
    with 1(2) a o show ?thesis
      by (intro exI [of _ obs]) (auto simp: loop_result_def turn_result_def
          split: sum.splits option.splits relay_outcome.splits)
  qed
qed

lemma relay_end_run:
  assumes "relay_end R (r, s) = (r', s')"
  shows "\<exists>v. trace s' = trace s @ [CloseRelay v] \<and> (case v of Inl e \<Rightarrow> r' = Inl e
    | Inr u \<Rightarrow> r' = (case r of Inl e \<Rightarrow> Inl (if is_exception e then relay_failed else e) | Inr x \<Rightarrow> Inr x))"
proof -
  obtain v s1 where v: "perform (rl_close R) CloseRelay s = (v, s1)" by fastforce
  have "(try_except (lift r) is_exception (\<lambda>_. raise relay_failed)) s
      = ((case r of Inl e \<Rightarrow> Inl (if is_exception e then relay_failed else e) | Inr x \<Rightarrow> Inr x), s)"
    by (cases r) (simp_all add: try_except_def)
  with v assms have "s' = s1" "r' = (case v of Inl e \<Rightarrow> Inl e
      | Inr u \<Rightarrow> (case r of Inl e \<Rightarrow> Inl (if is_exception e then relay_failed else e) | Inr x \<Rightarrow> Inr x))"
    by (auto simp: relay_end_def try_finally_def finally_with_def bind_apply split: sum.splits)
  with perform_run(1) [OF v] show ?thesis by (intro exI [of _ v]) (auto split: sum.splits)
qed

lemma relay_terminal_outcome:
  assumes "relay_terminal R max_duration n s = Some (r, s')" "0 < max_duration"
  shows "(\<exists>e. r = Inl e \<and> trace s' = trace s @ [Monotonic (Inl e)])
    \<or> (\<exists>now obs v. trace s' = trace s @ Monotonic (Inr now) # obs @ [CloseRelay v]
        \<and> (\<forall>u. CloseRelay u \<notin> set obs) \<and> received obs = written obs \<and> typed obs = sent obs
        \<and> in_time (round_double (now + total_seconds max_duration)) True obs
        \<and> (case r of
             Inr COMPLETED \<Rightarrow> v = Inr () \<and> end_of_stream obs
           | Inr MAX_DURATION_EXCEEDED \<Rightarrow>
               v = Inr () \<and> out_of_time (round_double (now + total_seconds max_duration)) obs
           | Inl e \<Rightarrow> v = Inl e \<or> v = Inr () \<and> (e = relay_failed \<or> \<not> is_exception e)))"
proof -
  obtain q s1 where q: "perform (rl_monotonic R) Monotonic s = (q, s1)" by fastforce
  show ?thesis
  proof (cases q)
    case (Inl e)
    with assms q perform_run(1) [OF q] show ?thesis by (auto simp: relay_terminal_def)
  next
    case (Inr now)
    let ?d = "round_double (now + total_seconds max_duration)"
    from assms q Inr obtain y where y: "relay_loop R n ?d s1 = Some y" "relay_end R y = (r, s')"
      by (auto simp: relay_terminal_def)
    from relay_loop_outcome [OF y(1)] obtain obs where o: "trace (snd y) = trace s1 @ obs"
      "relay_obs_ok ?d obs" "loop_result ?d (fst y) obs" by blast
    from relay_end_run [of R "fst y" "snd y" r s'] y(2) obtain v where v:
      "trace s' = trace (snd y) @ [CloseRelay v]" "case v of Inl e \<Rightarrow> r = Inl e
        | Inr u \<Rightarrow> r = (case fst y of Inl e \<Rightarrow> Inl (if is_exception e then relay_failed else e)
            | Inr x \<Rightarrow> Inr x)" by auto
    have "trace s' = trace s @ Monotonic (Inr now) # obs @ [CloseRelay v]"
      using v(1) o(1) perform_run(1) [OF q] Inr by simp
    moreover have "case r of
             Inr COMPLETED \<Rightarrow> v = Inr () \<and> end_of_stream obs
           | Inr MAX_DURATION_EXCEEDED \<Rightarrow> v = Inr () \<and> out_of_time ?d obs
           | Inl e \<Rightarrow> v = Inl e \<or> v = Inr () \<and> (e = relay_failed \<or> \<not> is_exception e)"
      using v(2) o(3) by (auto simp: loop_result_def split: sum.splits relay_outcome.splits if_splits)
    ultimately show ?thesis using o(2) unfolding relay_obs_ok_def by blast
  qed
qed

text \<open>
  C25. The relay copies faithfully and in time: what the server sent is written to the screen and
  what was typed is sent, each octet once and in order; data moves only when the last reading of
  the clock was before the deadline, and no wait is without end; \<open>COMPLETED\<close> means that the
  channel or one of the streams is at its end, \<open>MAX_DURATION_EXCEEDED\<close> that the deadline has
  come. Once the first reading of the clock has succeeded, the channel is closed exactly once,
  as the last call, however the relay ends, and every exception becomes \<open>SshChannelError\<close>, apart
  from one of the closing itself and from those outside \<open>Exception\<close>. That first reading stands
  before the \<open>try\<close> of the code: when it fails, its error is the result and no other call is made.
\<close>

theorem relay_faithful:
  assumes "relay_terminal R max_duration n s = Some (r, s')" "0 < max_duration"
  shows "(\<exists>e. r = Inl e \<and> trace s' = trace s @ [Monotonic (Inl e)])
    \<or> (\<exists>now obs v. trace s' = trace s @ Monotonic (Inr now) # obs @ [CloseRelay v]
        \<and> (\<forall>u. CloseRelay u \<notin> set obs) \<and> received obs = written obs \<and> typed obs = sent obs
        \<and> in_time (round_double (now + total_seconds max_duration)) True obs
        \<and> (case r of
             Inr COMPLETED \<Rightarrow> v = Inr () \<and> end_of_stream obs
           | Inr MAX_DURATION_EXCEEDED \<Rightarrow>
               v = Inr () \<and> out_of_time (round_double (now + total_seconds max_duration)) obs
           | Inl e \<Rightarrow> v = Inl e \<or> v = Inr () \<and> (e = relay_failed \<or> \<not> is_exception e)))"
  using assms by (rule relay_terminal_outcome)

section \<open>What all calls but the closing keep\<close>

text \<open>
  \<open>Q\<close> relates the world before each call to the world after it; if it is reflexive and
  transitive, it relates the worlds before and after the whole loop.
\<close>

definition related :: "('w \<Rightarrow> 'w \<Rightarrow> bool) \<Rightarrow> ('w, 'z, 'a) relay_io \<Rightarrow> bool" where
  "related Q m \<longleftrightarrow> (\<forall>s. Q (world s) (world (snd (m s))))"

definition calls_related :: "('w \<Rightarrow> 'w \<Rightarrow> bool) \<Rightarrow> 'w relay_lib \<Rightarrow> bool" where
  "calls_related Q R \<longleftrightarrow> reflp Q \<and> transp Q
     \<and> (\<forall>w. Q w (snd (rl_is_closed R w)) \<and> Q w (snd (rl_monotonic R w))
         \<and> (\<forall>t. Q w (snd (rl_select R t w))) \<and> (\<forall>k. Q w (snd (rl_receive R k w)))
         \<and> (\<forall>k. Q w (snd (rl_read_input R k w))) \<and> (\<forall>d. Q w (snd (rl_send R d w)))
         \<and> (\<forall>d. Q w (snd (rl_write_output R d w))))"

lemma related_perform: "(\<And>w. Q w (snd (f w))) \<Longrightarrow> related Q (perform f ob)"
  by (auto simp: related_def perform_def split: prod.splits) (metis snd_conv)

lemma related_bind:
  assumes "transp Q" "related Q m" "\<And>x. related Q (f x)"
  shows "related Q (bind m f)"
  unfolding related_def
proof
  fix s
  obtain r s1 where r: "m s = (r, s1)" by fastforce
  have "Q (world s) (world s1)" using assms(2) r unfolding related_def by (metis snd_conv)
  moreover have "Q (world s1) (world (snd (f x s1)))" for x
    using assms(3) [of x] unfolding related_def by blast
  ultimately show "Q (world s) (world (snd (bind m f s)))"
    using r assms(1) by (cases r) (auto simp: bind_apply dest: transpD)
qed

lemma related_ret: "reflp Q \<Longrightarrow> related Q (ret x)"
  by (simp add: related_def reflpD)

lemma relay_related:
  assumes "calls_related Q R"
  shows "related Q (relay_remote R n)" "related Q (relay_local R n)" "related Q (relay_turn R n d)"
proof -
  note q = assms [unfolded calls_related_def]
  show r: "related Q (relay_remote R n)" and l: "related Q (relay_local R n)"
    using q by (auto simp: relay_remote_def relay_local_def seq_def
        intro!: related_bind related_perform related_ret)
  show "related Q (relay_turn R n d)"
    using q r l by (auto simp: relay_turn_def Let_def
        intro!: related_bind related_perform related_ret split: option.splits)
qed

lemma relay_loop_related:
  assumes "calls_related Q R" "relay_loop R n d s = Some y"
  shows "Q (world s) (world (snd y))"
  using assms(2,1)
proof (induction arbitrary: rule: relay_loop.raw_induct [rotated, consumes 1])
  case (1 loop R n d s y)
  obtain a s1 where a: "relay_turn R n d s = (a, s1)" by fastforce
  have t: "Q (world s) (world s1)"
    using relay_related(3) [OF 1(3), of n d] a unfolding related_def by (metis snd_conv)
  show ?case
  proof (cases "a = Inr None")
    case True
    with 1(2) a have "loop R n d s1 = Some y" by simp
    from 1(1) [OF this 1(3)] t 1(3) show ?thesis unfolding calls_related_def by (blast dest: transpD)
  next
    case False
    with 1(2) a t show ?thesis by (auto split: sum.splits option.splits)
  qed
qed

text \<open>The whole relay: nothing but that, and then perhaps the closing\<close>

lemma relay_terminal_related:
  assumes "calls_related Q R" "relay_terminal R max_duration n s = Some (r, s')"
  shows "Q (world s) (world s') \<or> (\<exists>w v. Q (world s) w \<and> rl_close R w = (v, world s'))"
proof -
  have refl: "Q w w" for w using assms(1) by (simp add: calls_related_def reflpD)
  obtain q s1 where q: "perform (rl_monotonic R) Monotonic s = (q, s1)" by fastforce
  then have s1: "Q (world s) (world s1)"
    using assms(1) by (auto simp: calls_related_def perform_eq_iff) (metis snd_conv)
  show ?thesis
  proof (cases "max_duration \<le> 0 \<or> isl q")
    case True
    with assms(2) q refl s1 show ?thesis by (cases q) (auto simp: relay_terminal_def split: if_splits)
  next
    case False
    then obtain now where "q = Inr now" by (cases q) auto
    with False assms(2) q obtain y where y: "relay_loop R n (round_double (now + total_seconds max_duration)) s1 = Some y"
      "relay_end R y = (r, s')" by (auto simp: relay_terminal_def)
    have "Q (world s) (world (snd y))"
      using relay_loop_related [OF assms(1) y(1)] s1 assms(1) unfolding calls_related_def by (blast dest: transpD)
    moreover have "\<exists>v. rl_close R (world (snd y)) = (v, world s')"
    proof -
      obtain v s2 where v: "perform (rl_close R) CloseRelay (snd y) = (v, s2)" by fastforce
      have "(try_except (lift (fst y)) is_exception (\<lambda>_. raise relay_failed)) (snd y)
          = ((case fst y of Inl e \<Rightarrow> Inl (if is_exception e then relay_failed else e) | Inr x \<Rightarrow> Inr x), snd y)"
        by (cases "fst y") (simp_all add: try_except_def)
      with v y(2) have "s' = s2"
        by (auto simp: relay_end_def try_finally_def finally_with_def bind_apply
            split: sum.splits prod.splits)
      with v show ?thesis by (auto simp: perform_eq_iff)
    qed
    ultimately show ?thesis by blast
  qed
qed

section \<open>Termination\<close>

text \<open>
  Time passes with every reading of the clock, as little as one likes, and no other call turns
  the clock back.
\<close>

definition clock_advances :: "'w relay_lib \<Rightarrow> ('w \<Rightarrow> rat) \<Rightarrow> rat \<Rightarrow> bool" where
  "clock_advances R time step \<longleftrightarrow> 0 < step
     \<and> (\<forall>w. time w + step \<le> time (snd (rl_monotonic R w)))
     \<and> (\<forall>w t. fst (rl_monotonic R w) = Inr t \<longrightarrow> time w \<le> t)
     \<and> calls_related (\<lambda>w w'. time w \<le> time w') R"

lemma relay_turn_later:
  assumes "clock_advances R time step" "relay_turn R n d s = (Inr None, s')"
  shows "time (world s) + step \<le> time (world s')" "time (world s) < d"
proof -
  let ?Q = "\<lambda>w w'. time w \<le> time w'"
  let ?tail = "\<lambda>now. bind (perform (rl_select R (round_double (d - now))) (Select (round_double (d - now))))
     (\<lambda>(terminal_ready, channel_ready).
     bind (perform (rl_monotonic R) Monotonic) (\<lambda>now.
     if d \<le> now then ret (Some MAX_DURATION_EXCEEDED) else
     if \<not> terminal_ready \<and> \<not> channel_ready then ret None else
     bind (if channel_ready then relay_remote R n else ret None) (\<lambda>returned.
     case returned of
       Some v \<Rightarrow> ret (Some v)
     | None \<Rightarrow> if terminal_ready then relay_local R n else ret None)))"
  note c = assms(1) [unfolded clock_advances_def]
  then have q: "calls_related ?Q R" by blast
  have tail: "related ?Q (?tail now)" for now
    using q [unfolded calls_related_def] relay_related(1,2) [OF q]
    by (auto intro!: related_bind related_perform related_ret split: option.splits)
  obtain a s1 where a: "perform (rl_is_closed R) IsClosed s = (a, s1)" by fastforce
  obtain b s2 where b: "perform (rl_monotonic R) Monotonic s1 = (b, s2)" by fastforce
  from assms(2) a b obtain t where t: "a = Inr False" "b = Inr t" "\<not> round_double (d - t) \<le> 0"
    "?tail t s2 = (Inr None, s')"
    by (cases a; cases b) (auto simp: relay_turn_def bind_apply Let_def split: if_splits)
  have w1: "time (world s) \<le> time (world s1)" using a q by (auto simp: perform_eq_iff calls_related_def) (metis snd_conv)
  have w2: "time (world s1) + step \<le> time (world s2)" using b c by (auto simp: perform_eq_iff) (metis snd_conv)
  have "time (world s2) \<le> time (world (snd (?tail t s2)))"
    using tail [of t] unfolding related_def by (rule spec)
  with t(4) have w3: "time (world s2) \<le> time (world s')" by simp
  show "time (world s) + step \<le> time (world s')" using w1 w2 w3 by linarith
  have "time (world s1) \<le> t" using b c t(2) by (auto simp: perform_eq_iff)
  moreover have "t < d" using t(3) round_double_nonpos [of "d - t"] by linarith
  ultimately show "time (world s) < d" using w1 by linarith
qed

lemma relay_loop_ends:
  assumes "clock_advances R time step" "d \<le> time (world s) + of_nat k * step"
  shows "relay_loop R n d s \<noteq> None"
  using assms(2)
proof (induction k arbitrary: s)
  case 0
  obtain a s1 where a: "relay_turn R n d s = (a, s1)" by fastforce
  have "a \<noteq> Inr None" using relay_turn_later(2) [OF assms(1)] a 0 by force
  with a show ?case by (subst relay_loop.simps) (auto split: sum.splits option.splits)
next
  case (Suc k)
  obtain a s1 where a: "relay_turn R n d s = (a, s1)" by fastforce
  show ?case
  proof (cases "a = Inr None")
    case True
    with relay_turn_later(1) [OF assms(1)] a Suc.prems have "d \<le> time (world s1) + of_nat k * step"
      by (force simp: algebra_simps)
    with Suc.IH have "relay_loop R n d s1 \<noteq> None" .
    with a True show ?thesis by (subst relay_loop.simps) simp
  next
    case False
    with a show ?thesis by (subst relay_loop.simps) (auto split: sum.splits option.splits)
  qed
qed

text \<open>
  C26. A relay always ends, whatever the streams do, if only time passes.
\<close>

theorem relay_terminates:
  assumes "clock_advances R time step"
  shows "\<exists>r s'. relay_terminal R max_duration n s = Some (r, s')"
proof -
  have ends: "\<exists>y. relay_loop R n d s1 = Some y" for d s1
  proof -
    have p: "0 < step" using assms by (simp add: clock_advances_def)
    obtain k :: nat where "(d - time (world s1)) / step \<le> of_nat k" using real_arch_simple by blast
    with p have "d \<le> time (world s1) + of_nat k * step" by (simp add: field_simps)
    from relay_loop_ends [OF assms this] show ?thesis by blast
  qed
  obtain q s1 where q: "perform (rl_monotonic R) Monotonic s = (q, s1)" by fastforce
  have "relay_terminal R max_duration n s \<noteq> None"
  proof (cases q)
    case (Inl e)
    with q show ?thesis by (simp add: relay_terminal_def)
  next
    case (Inr now)
    with q ends [of "round_double (now + total_seconds max_duration)" s1] show ?thesis
      by (auto simp: relay_terminal_def)
  qed
  then show ?thesis by auto
qed

definition lab_relay :: "rat relay_lib" where
  "lab_relay = \<lparr>rl_is_closed = ret False, rl_monotonic = (\<lambda>w. (Inr w, w + 1)),
     rl_select = (\<lambda>t. ret (True, True)), rl_receive = (\<lambda>n w. (Inr (if w < 4 then [65] else []), w)),
     rl_send = (\<lambda>d. ret ()), rl_close = ret (), rl_read_input = (\<lambda>n. ret [66]),
     rl_write_output = (\<lambda>d. ret ())\<rparr>"

definition lab_relay_start :: "(rat, relay_obs) tstate" where
  "lab_relay_start = \<lparr>world = 0, trace = []\<rparr>"

lemma lab_rounding: "round_double 10 = 10" "round_double 9 = 9" "round_double 7 = 7"
  by code_simp+

lemma lab_relay_run:
  "\<exists>s'. relay_terminal lab_relay 10000000 relay_chunk lab_relay_start = Some (Inr COMPLETED, s')
     \<and> sent (trace s') = [66] \<and> received (trace s') = [65]"
  apply (simp add: relay_terminal_def lab_relay_start_def lab_relay_def perform_def total_seconds_def lab_rounding)
  apply (subst relay_loop.simps)
  apply (simp add: relay_turn_def relay_remote_def relay_local_def bind_def perform_def lab_rounding seq_def)
  apply (subst relay_loop.simps)
  apply (simp add: relay_turn_def relay_remote_def relay_local_def bind_def perform_def lab_rounding seq_def)
  apply (simp add: relay_end_def try_finally_def try_except_def finally_with_def bind_def perform_def)
  done

theorem relay_faithful_witness:
  "\<exists>obs now s'. relay_terminal lab_relay 10000000 relay_chunk lab_relay_start = Some (Inr COMPLETED, s')
     \<and> trace s' = Monotonic (Inr now) # obs @ [CloseRelay (Inr ())]
     \<and> written obs = [65] \<and> sent obs = [66] \<and> end_of_stream obs"
proof -
  obtain s' where r: "relay_terminal lab_relay 10000000 relay_chunk lab_relay_start = Some (Inr COMPLETED, s')"
    "sent (trace s') = [66]" "received (trace s') = [65]" using lab_relay_run by blast
  from relay_faithful [OF r(1)] obtain now obs where o: "received obs = written obs" "end_of_stream obs"
    "trace s' = trace lab_relay_start @ Monotonic (Inr now) # obs @ [CloseRelay (Inr ())]" by auto
  with r have "trace s' = Monotonic (Inr now) # obs @ [CloseRelay (Inr ())]" "written obs = [65]" "sent obs = [66]"
    by (simp_all add: lab_relay_start_def octets_append)
  with r(1) o(2) show ?thesis by blast
qed

theorem relay_terminates_witness:
  "\<exists>r s'. relay_terminal lab_relay 10000000 relay_chunk lab_relay_start = Some (r, s')"
proof (rule relay_terminates)
  show "clock_advances lab_relay id 1"
    by (auto simp: clock_advances_def calls_related_def lab_relay_def reflp_def transp_def)
qed

end
