(* ===== verification/Host_Key.thy ===== *)
theory Host_Key
  imports Domain
begin

text \<open>
  Base64 as the \<open>base64\<close> module has it, the pinned host keys of
  \<open>infrastructure/ssh/host_key.py\<close> and the parser of OpenSSH fingerprints of
  \<open>tools/provision_lab.py\<close>. SHA-256 is a parameter.
\<close>

section \<open>Base64\<close>

definition b64_char :: "nat \<Rightarrow> nat" where
  "b64_char n = (if n < 26 then 65 + n else if n < 52 then 71 + n else if n < 62 then n - 4
     else if n = 62 then 43 else 47)"

definition b64_index :: "nat \<Rightarrow> nat option" where
  "b64_index c = (if 65 \<le> c \<and> c \<le> 90 then Some (c - 65) else if 97 \<le> c \<and> c \<le> 122 then Some (c - 71)
     else if 48 \<le> c \<and> c \<le> 57 then Some (c + 4) else if c = 43 then Some 62
     else if c = 47 then Some 63 else None)"

text \<open>\<open>b64encode(bs).decode("ascii")\<close>\<close>

fun b64encode :: "bytes \<Rightarrow> pystr" where
  "b64encode (a # b # c # r) =
     (let n = unat a * 65536 + unat b * 256 + unat c
      in b64_char (n div 262144) # b64_char (n div 4096 mod 64) # b64_char (n div 64 mod 64)
         # b64_char (n mod 64) # b64encode r)"
| "b64encode [a, b] =
     (let n = unat a * 1024 + unat b * 4
      in [b64_char (n div 4096), b64_char (n div 64 mod 64), b64_char (n mod 64), 61])"
| "b64encode [a] = (let n = unat a * 16 in [b64_char (n div 64), b64_char (n mod 64), 61, 61])"
| "b64encode [] = []"

text \<open>
  \<open>b64decode(s, validate=True)\<close>: only the alphabet, whole groups, padding at the end only; the
  bits the padding leaves over are ignored.
\<close>

fun b64_groups :: "pystr \<Rightarrow> bytes option" where
  "b64_groups [] = Some []"
| "b64_groups (c1 # c2 # c3 # c4 # r) =
     (case (b64_index c1, b64_index c2) of
        (Some i1, Some i2) \<Rightarrow>
          if r = [] \<and> c4 = 61 then
            (if c3 = 61 then Some [byte ((i1 * 64 + i2) div 16)]
             else (case b64_index c3 of
                 None \<Rightarrow> None
               | Some i3 \<Rightarrow> (let n = i1 * 4096 + i2 * 64 + i3
                   in Some [byte (n div 1024), byte (n div 4 mod 256)])))
          else (case (b64_index c3, b64_index c4) of
              (Some i3, Some i4) \<Rightarrow>
                (let n = i1 * 262144 + i2 * 4096 + i3 * 64 + i4
                 in map_option (\<lambda>bs. byte (n div 65536) # byte (n div 256 mod 256) # byte (n mod 256) # bs)
                      (b64_groups r))
            | _ \<Rightarrow> None)
      | _ \<Rightarrow> None)"
| "b64_groups _ = None"

definition b64decode :: "pystr \<Rightarrow> bytes res" where
  "b64decode s =
     (if \<not> list_all (\<lambda>c. c < 128) s
      then Inl (err ValueError ''string argument should contain only ASCII characters'')
      else case b64_groups s of
        None \<Rightarrow> Inl (err BinasciiError ''Incorrect padding'')
      | Some bs \<Rightarrow> Inr bs)"

text \<open>\<open>rstrip("=")\<close>\<close>

definition rstrip_pad :: "pystr \<Rightarrow> pystr" where
  "rstrip_pad s = rev (dropWhile (\<lambda>c. c = 61) (rev s))"

lemma b64_index_char [simp]: "n < 64 \<Longrightarrow> b64_index (b64_char n) = Some n"
  by (auto simp: b64_index_def b64_char_def)

lemma b64_char_ascii: "n < 64 \<Longrightarrow> b64_char n < 128 \<and> b64_char n \<noteq> 61"
  by (auto simp: b64_char_def)

lemma b64_triple:
  assumes "a < 256" "b < 256" "c < (256 :: nat)" "n = a * 65536 + b * 256 + c"
  shows "n div 262144 < 64"
    "n div 262144 * 262144 + n div 4096 mod 64 * 4096 + n div 64 mod 64 * 64 + n mod 64 = n"
    "n div 65536 = a" "n div 256 mod 256 = b" "n mod 256 = c"
proof -
  show "n div 262144 < 64" using assms by (simp add: less_mult_imp_div_less)
  show "n div 262144 * 262144 + n div 4096 mod 64 * 4096 + n div 64 mod 64 * 64 + n mod 64 = n"
    by (rule split18)
  show "n div 65536 = a"
  proof (rule div_nat_eqI)
    show "65536 * a \<le> n" using assms by simp
    show "n < 65536 * Suc a" using assms by simp
  qed
  have "n div 256 = a * 256 + b"
  proof (rule div_nat_eqI)
    show "256 * (a * 256 + b) \<le> n" using assms by simp
    show "n < 256 * Suc (a * 256 + b)" using assms by simp
  qed
  then show "n div 256 mod 256 = b" using assms by simp
  have "n = c + 256 * (a * 256 + b)" using assms(4) by simp
  then show "n mod 256 = c" using assms(3) by (simp only: mod_mult_self2 mod_less)
qed

declare byte_unat [simp]

lemma unat_byte_less: "unat (b :: 8 word) < 256"
  using unsigned_less [of b] by simp

lemma b64_decode_encode: "b64_groups (b64encode bs) = Some bs"
proof (induction bs rule: b64encode.induct)
  case (1 a b c r)
  let ?n = "unat a * 65536 + unat b * 256 + unat c"
  note t = b64_triple [OF unat_byte_less unat_byte_less unat_byte_less refl, of a b c]
  have "b64_char (?n mod 64) \<noteq> 61" using b64_char_ascii [of "?n mod 64"] by simp
  with 1 t show ?case by (simp add: Let_def)
next
  case (2 a b)
  let ?n = "unat a * 1024 + unat b * 4"
  have a: "unat a < 256" "unat b < 256" by (rule unat_byte_less)+
  have n: "?n div 4096 < 64" using a by (simp add: less_mult_imp_div_less)
  have d: "?n div 1024 = unat a"
  proof (rule div_nat_eqI)
    show "1024 * unat a \<le> ?n" by simp
    show "?n < 1024 * Suc (unat a)" using a by simp
  qed
  have "?n div 4 = unat a * 256 + unat b" by simp
  then have e: "?n div 4 mod 256 = unat b" using a by simp
  have "?n div 4096 * 4096 + ?n div 64 mod 64 * 64 + ?n mod 64 = ?n" by (rule split12)
  moreover have "b64_char (?n mod 64) \<noteq> 61" using b64_char_ascii [of "?n mod 64"] by simp
  ultimately show ?case using n d e by (simp add: Let_def)
next
  case (3 a)
  let ?n = "unat a * 16"
  have "?n div 64 < 64" using unat_byte_less [of a] by (simp add: less_mult_imp_div_less)
  moreover have "?n div 64 * 64 + ?n mod 64 = ?n" by (rule split6)
  ultimately show ?case by (simp add: Let_def)
qed simp

lemma b64encode_inject: "b64encode bs = b64encode cs \<longleftrightarrow> bs = cs"
  by (metis b64_decode_encode option.inject)

lemma b64encode_append:
  "length xs = 3 * k \<Longrightarrow> b64encode (xs @ ys) = b64encode xs @ b64encode ys \<and> length (b64encode xs) = 4 * k"
proof (induction xs arbitrary: k rule: b64encode.induct)
  case (1 a b c r)
  then show ?case by (cases k) (auto simp: Let_def)
next
  case (2 a b)
  then show ?case by (cases k) auto
next
  case (3 a)
  then show ?case by (cases k) auto
qed simp

lemma b64encode_ascii: "list_all (\<lambda>c. c < 128) (b64encode bs)"
proof (induction bs rule: b64encode.induct)
  case (1 a b c r)
  note t = b64_triple(1) [OF unat_byte_less unat_byte_less unat_byte_less refl, of a b c]
  with 1 show ?case by (simp add: Let_def b64_char_ascii)
next
  case (2 a b)
  have "(unat a * 1024 + unat b * 4) div 4096 < 64"
    using unat_byte_less [of a] unat_byte_less [of b] by (simp add: less_mult_imp_div_less)
  then show ?case by (simp add: Let_def b64_char_ascii)
next
  case (3 a)
  have "unat a * 16 div 64 < 64" using unat_byte_less [of a] by (simp add: less_mult_imp_div_less)
  then show ?case by (simp add: Let_def b64_char_ascii)
qed simp

text \<open>The text of a digest of 32 octets: 43 characters and one padding character.\<close>

lemma b64_digest:
  assumes "length d = 32"
  shows "b64encode d = rstrip_pad (b64encode d) @ [61]" "length (rstrip_pad (b64encode d)) = 43"
    "61 \<notin> set (rstrip_pad (b64encode d))"
proof -
  obtain xs a b where d: "d = xs @ [a, b]" "length xs = 3 * 10"
  proof
    show "d = take 30 d @ [d ! 30, d ! 31]"
      using assms by (intro nth_equalityI) (auto simp: nth_append nth_Cons' less_Suc_eq numeral_eq_Suc)
  qed (simp add: assms)
  let ?n = "unat a * 1024 + unat b * 4"
  have "?n div 4096 < 64"
    using unat_byte_less [of a] unat_byte_less [of b] by (simp add: less_mult_imp_div_less)
  then have ne: "b64_char (?n div 4096) \<noteq> 61" "b64_char (?n div 64 mod 64) \<noteq> 61"
    "b64_char (?n mod 64) \<noteq> 61"
    using b64_char_ascii by simp_all
  have groups: "61 \<notin> set (b64encode ys)" if "length ys = 3 * k" for ys k
    using that
  proof (induction ys arbitrary: k rule: b64encode.induct)
    case (1 a b c r)
    note t = b64_triple(1) [OF unat_byte_less unat_byte_less unat_byte_less refl, of a b c]
    from 1 obtain j where "length r = 3 * j" by (cases k) auto
    with 1 t b64_char_ascii show ?case by (auto simp: Let_def)
  next
    case (2 a b)
    then show ?case by (cases k) auto
  next
    case (3 a)
    then show ?case by (cases k) auto
  qed simp
  let ?t = "b64encode xs @ [b64_char (?n div 4096), b64_char (?n div 64 mod 64), b64_char (?n mod 64)]"
  have e: "b64encode d = ?t @ [61]"
    using b64encode_append [OF d(2), of "[a, b]"] d(1) by (simp add: Let_def)
  have "rstrip_pad (?t @ [61]) = ?t" using ne(3) by (simp add: rstrip_pad_def)
  with e have r: "rstrip_pad (b64encode d) = ?t" by simp
  show "b64encode d = rstrip_pad (b64encode d) @ [61]" using e r by simp
  show "length (rstrip_pad (b64encode d)) = 43" using b64encode_append [OF d(2)] r by simp
  show "61 \<notin> set (rstrip_pad (b64encode d))" using groups [OF d(2)] ne r by auto
qed

section \<open>Host keys (\<open>host_key.py\<close>)\<close>

text \<open>\<open>hmac.compare_digest\<close> of two texts raises on characters that are not ASCII.\<close>

definition compare_digest_text :: "pystr \<Rightarrow> pystr \<Rightarrow> bool res" where
  "compare_digest_text a b =
     (if list_all (\<lambda>c. c < 128) a \<and> list_all (\<lambda>c. c < 128) b then Inr (a = b)
      else Inl (err TypeError ''comparing strings with non-ASCII characters is not supported''))"

definition digest_text :: "bytes \<Rightarrow> pystr" where
  "digest_text d = lit ''SHA256:'' @ rstrip_pad (b64encode d)"

text \<open>A server key is \<open>server_key.asbytes()\<close>; \<open>sha\<close> is \<open>hashlib.sha256(...).digest()\<close>.\<close>

definition calculate_sha256_fingerprint :: "(bytes \<Rightarrow> bytes) \<Rightarrow> bytes \<Rightarrow> host_key_fingerprint res" where
  "calculate_sha256_fingerprint sha server_key = mk_host_key_fingerprint (digest_text (sha server_key))"

definition host_key_mismatch :: "target \<Rightarrow> exn" where
  "host_key_mismatch t = Exn HostKeyMismatchError (lit ''SSH host key mismatch for target '' @ tgt_id t)"

definition verify_pinned_host_key :: "(bytes \<Rightarrow> bytes) \<Rightarrow> target \<Rightarrow> bytes \<Rightarrow> unit res" where
  "verify_pinned_host_key sha t server_key =
     bindR (calculate_sha256_fingerprint sha server_key) (\<lambda>actual.
     bindR (compare_digest_text (hkf_value actual) (hkf_value (tgt_expected_host_key t))) (\<lambda>same.
     raise_if (\<not> same) (host_key_mismatch t)))"

lemma calculate_fingerprint [simp]:
  "calculate_sha256_fingerprint sha k = Inr \<lparr>hkf_value = digest_text (sha k)\<rparr>"
  by (simp add: calculate_sha256_fingerprint_def mk_host_key_fingerprint_def digest_text_def)

lemma rstrip_pad_subset: "set (rstrip_pad s) \<subseteq> set s"
  by (auto simp: rstrip_pad_def dest: set_dropWhileD)

lemma digest_text_ascii: "list_all (\<lambda>c. c < 128) (digest_text d)"
  using b64encode_ascii [of d] rstrip_pad_subset [of "b64encode d"]
  by (auto simp: digest_text_def list_all_iff lit_def)

lemma verify_pinned_Inr:
  "verify_pinned_host_key sha t k = Inr () \<longleftrightarrow> hkf_value (tgt_expected_host_key t) = digest_text (sha k)"
  using digest_text_ascii [of "sha k"]
  by (auto simp: verify_pinned_host_key_def compare_digest_text_def)

lemma digest_text_inject:
  "length d = 32 \<Longrightarrow> length e = 32 \<Longrightarrow> digest_text d = digest_text e \<longleftrightarrow> d = e"
  unfolding digest_text_def same_append_eq by (metis b64_digest(1) b64encode_inject)

section \<open>Parsing a pin (\<open>provision_lab.py\<close>)\<close>

definition malformed_fingerprint :: exn where
  "malformed_fingerprint = err LabProvisioningError ''target host-key fingerprint is malformed''"

definition parse_openssh_sha256_fingerprint :: "pystr \<Rightarrow> host_key_fingerprint res" where
  "parse_openssh_sha256_fingerprint v =
     catchR
       (bindR (mk_host_key_fingerprint v) (\<lambda>fingerprint.
        let encoded = removeprefix v (lit ''SHA256:'') in
        thenR (raise_if (length encoded \<noteq> 43 \<or> 61 \<in> set encoded) (err ValueError []))
       (bindR (b64decode (encoded @ [61])) (\<lambda>digest.
        let canonical = rstrip_pad (b64encode digest) in
        bindR (if length digest \<noteq> 32 then Inr False else compare_digest_text encoded canonical)
          (\<lambda>same. thenR (raise_if (\<not> same) (err ValueError [])) (Inr fingerprint))))))
       (catches_any [AttributeError, BinasciiError, TypeError, ValueError])
       (\<lambda>_. Inl malformed_fingerprint)"

lemma parse_digest_text:
  assumes d: "length d = 32"
  shows "parse_openssh_sha256_fingerprint (digest_text d) = Inr \<lparr>hkf_value = digest_text d\<rparr>"
proof -
  let ?e = "rstrip_pad (b64encode d)"
  have ascii: "list_all (\<lambda>c. c < 128) (?e @ [61])"
    using b64encode_ascii [of d] b64_digest(1) [OF d] by simp
  moreover have "b64_groups (?e @ [61]) = Some d"
    using b64_decode_encode [of d] b64_digest(1) [OF d] by simp
  ultimately have "b64decode (?e @ [61]) = Inr d" by (simp add: b64decode_def)
  moreover have "compare_digest_text ?e ?e = Inr True"
    using ascii by (simp add: compare_digest_text_def)
  ultimately show ?thesis using b64_digest(2,3) [OF d] d
    by (simp add: parse_openssh_sha256_fingerprint_def mk_host_key_fingerprint_def digest_text_def Let_def)
qed

text \<open>
  C22. The parser of pins accepts exactly the texts that are the fingerprint of some digest of 32
  octets, and with such a pin the check of a server key passes exactly for the keys with that
  digest: a pin is never ambiguous, and nothing else can be stored as one.
\<close>

theorem fingerprint_pins_digest:
  assumes "\<forall>k. length (sha k) = 32"
  shows "case parse_openssh_sha256_fingerprint v of
      Inl e \<Rightarrow> e = malformed_fingerprint \<and> (\<forall>d. length d = 32 \<longrightarrow> v \<noteq> digest_text d)
    | Inr pin \<Rightarrow> \<exists>d. length d = 32 \<and> v = digest_text d \<and> hkf_value pin = v
        \<and> (\<forall>t k. tgt_expected_host_key t = pin \<longrightarrow>
             (verify_pinned_host_key sha t k = Inr () \<longleftrightarrow> sha k = d))"
proof (cases "parse_openssh_sha256_fingerprint v")
  case (Inl e)
  have mk: "mk_host_key_fingerprint v = Inl e' \<Longrightarrow> exn_class e' = ValueError" for e'
    by (rule constructors_raise_ValueError(6))
  have "e = malformed_fingerprint"
  proof -
    have dec: "b64decode s = Inl e' \<Longrightarrow> catches_any [AttributeError, BinasciiError, TypeError, ValueError] e'"
      for s e' by (auto simp: b64decode_def split: if_splits option.splits)
    have cmp: "compare_digest_text a b = Inl e' \<Longrightarrow> catches_any [AttributeError, BinasciiError, TypeError, ValueError] e'"
      for a b e' by (auto simp: compare_digest_text_def split: if_splits)
    have "catches_any [AttributeError, BinasciiError, TypeError, ValueError] e'"
      if "mk_host_key_fingerprint v = Inl e'" for e'
      using mk [OF that] by (auto simp: catches_def)
    with Inl show ?thesis
      unfolding parse_openssh_sha256_fingerprint_def
      by (auto simp: catchR_def bindR_eq_Inl_iff thenR_eq_Inl_iff Let_def dest!: dec cmp
          split: sum.splits if_splits)
  qed
  with Inl show ?thesis by (auto simp: parse_digest_text)
next
  case (Inr pin)
  then obtain d where d: "hkf_value pin = v" "startswith v (lit ''SHA256:'')" "length d = 32"
    "removeprefix v (lit ''SHA256:'') = rstrip_pad (b64encode d)"
    by (auto simp: parse_openssh_sha256_fingerprint_def catchR_eq_Inr_iff Let_def malformed_fingerprint_def
        mk_host_key_fingerprint_def compare_digest_text_def split: if_splits)
  have v: "v = digest_text d"
    using startswith_removeprefix [OF d(2)] d(4) by (simp add: digest_text_def)
  have "verify_pinned_host_key sha t k = Inr () \<longleftrightarrow> sha k = d" if "tgt_expected_host_key t = pin" for t k
    using that d(1,3) v assms digest_text_inject [of d "sha k"] by (auto simp: verify_pinned_Inr)
  with Inr d(1,3) v show ?thesis by auto
qed

theorem fingerprint_pins_digest_witness:
  "\<exists>pin d. parse_openssh_sha256_fingerprint (digest_text (replicate 32 0)) = Inr pin
     \<and> hkf_value pin = digest_text (replicate 32 0)"
proof -
  have "\<forall>k. length ((\<lambda>k. replicate 32 (0 :: 8 word)) k) = 32" by simp
  from fingerprint_pins_digest [where sha = "\<lambda>k. replicate 32 0", OF this, of "digest_text (replicate 32 0)"]
  show ?thesis
    by (auto split: sum.splits) (metis length_replicate)
qed

end
