(* ===== verification/Ssh.thy ===== *)
theory Ssh
  imports Complex_Main Host_Key Access
begin

text \<open>
  The SSH connector: \<open>ParamikoSshConnector.connect\<close> and the release of its handles
  (\<open>infrastructure/ssh/paramiko_connection.py\<close>). The socket module and Paramiko are a record of
  operations on handles; every call is recorded with its outcome. The objects on top of it are in
  \<open>Broker\<close>.
\<close>

section \<open>The libraries\<close>

record ('w, 'h) ssh_lib =
  l_create_connection :: "pystr \<Rightarrow> int \<Rightarrow> rat \<Rightarrow> ('w, 'h) io"
  l_transport :: "'h \<Rightarrow> (string \<times> string list) list \<Rightarrow> ('w, 'h) io"
  l_start_client :: "'h \<Rightarrow> rat \<Rightarrow> ('w, unit) io"
  l_server_key :: "'h \<Rightarrow> ('w, bytes) io"
  l_auth_password :: "'h \<Rightarrow> pystr \<Rightarrow> pystr \<Rightarrow> ('w, unit) io"
  l_is_authenticated :: "'h \<Rightarrow> ('w, bool) io"
  l_open_session :: "'h \<Rightarrow> ('w, 'h) io"
  l_get_pty :: "'h \<Rightarrow> string \<Rightarrow> int \<Rightarrow> int \<Rightarrow> ('w, unit) io"
  l_invoke_shell :: "'h \<Rightarrow> ('w, unit) io"
  l_close_channel :: "'h \<Rightarrow> ('w, unit) io"
  l_close_transport :: "'h \<Rightarrow> ('w, unit) io"
  l_close_socket :: "'h \<Rightarrow> ('w, unit) io"

datatype 'h ssh_obs =
    CreateConnection pystr int rat "'h res"
  | NewTransport 'h "(string \<times> string list) list" "'h res"
  | StartClient 'h rat "unit res"
  | ServerKey 'h "bytes res"
  | AuthPassword 'h pystr pystr "unit res"
  | IsAuthenticated 'h "bool res"
  | OpenChannel 'h "'h res"
  | GetPty 'h string int int "unit res"
  | InvokeShell 'h "unit res"
  | CloseChannel 'h "unit res"
  | CloseTransport 'h "unit res"
  | CloseSocket 'h "unit res"

type_synonym ('w, 'h, 'z) ssh = "('w, 'h ssh_obs, 'z) tstate_scheme"

section \<open>Connecting\<close>

definition about_target :: "exn_class \<Rightarrow> string \<Rightarrow> target \<Rightarrow> exn" where
  "about_target c m t = Exn c (lit m @ tgt_id t)"

definition ssh_auth_failed :: exn where
  "ssh_auth_failed = err SshAuthenticationError ''SSH authentication failed''"

definition quietly :: "('s, unit) io \<Rightarrow> ('s, unit) io" where
  "quietly m = try_except m is_exception (\<lambda>_. ret ())"

definition close_transport :: "('w, 'h) ssh_lib \<Rightarrow> 'h \<Rightarrow> (('w, 'h, 'z) ssh, unit) io" where
  "close_transport L t = perform (l_close_transport L t) (CloseTransport t)"

definition close_socket :: "('w, 'h) ssh_lib \<Rightarrow> 'h \<Rightarrow> (('w, 'h, 'z) ssh, unit) io" where
  "close_socket L s = perform (l_close_socket L s) (CloseSocket s)"

definition close_resources ::
  "('w, 'h) ssh_lib \<Rightarrow> 'h option \<Rightarrow> 'h \<Rightarrow> (('w, 'h, 'z) ssh, unit) io" where
  "close_resources L transport sock =
     seq (case transport of None \<Rightarrow> ret () | Some t \<Rightarrow> quietly (close_transport L t))
         (quietly (close_socket L sock))"

text \<open>\<open>SSH_DISABLED_ALGORITHMS\<close>\<close>

definition ssh_disabled_algorithms :: "(string \<times> string list) list" where
  "ssh_disabled_algorithms =
     [(''ciphers'', [''aes128-cbc'', ''aes192-cbc'', ''aes256-cbc'', ''3des-cbc'']),
      (''macs'', [''hmac-sha1'', ''hmac-sha1-96'', ''hmac-md5'', ''hmac-md5-96'']),
      (''keys'', [''ssh-rsa'']),
      (''pubkeys'', [''ssh-rsa''])]"

text \<open>\<open>_authenticate\<close>\<close>

definition authenticate_transport ::
  "('w, 'h) ssh_lib \<Rightarrow> 'h \<Rightarrow> privileged_account \<Rightarrow> broker_credential \<Rightarrow> (('w, 'h, 'z) ssh, unit) io" where
  "authenticate_transport L t account credential =
     bind (lift (catchR (utf8_decode (bc_value credential)) (catches UnicodeDecodeError)
            (\<lambda>_. Inl (err SshAuthenticationError ''SSH credential encoding is invalid''))))
       (\<lambda>password.
     seq (try_except
            (perform (l_auth_password L t (acc_username account) password)
               (AuthPassword t (acc_username account) password))
            (catches_any [OSError, SSHException]) (\<lambda>_. raise ssh_auth_failed))
    (bind (perform (l_is_authenticated L t) (IsAuthenticated t)) (\<lambda>ok.
     if ok then ret () else raise ssh_auth_failed)))"

text \<open>
  The three \<open>try\<close> statements after the TCP connection: negotiation (the transport is created
  first, so that a failure before that only has the socket to close), host key, password.
\<close>

definition negotiate ::
  "('w, 'h) ssh_lib \<Rightarrow> rat \<Rightarrow> target \<Rightarrow> 'h \<Rightarrow> (('w, 'h, 'z) ssh, 'h \<times> bytes) io" where
  "negotiate L timeout tgt sock =
     (let failed = about_target SshConnectionError ''SSH negotiation failed for target '' tgt in
      bind (try_except (perform (l_transport L sock ssh_disabled_algorithms) (NewTransport sock ssh_disabled_algorithms)) is_exception
              (\<lambda>_. seq (close_resources L None sock) (raise failed))) (\<lambda>t.
      bind (try_except
              (seq (perform (l_start_client L t timeout) (StartClient t timeout))
                   (perform (l_server_key L t) (ServerKey t)))
              is_exception (\<lambda>_. seq (close_resources L (Some t) sock) (raise failed)))
        (\<lambda>server_key. ret (t, server_key))))"

definition check_host_key ::
  "('w, 'h) ssh_lib \<Rightarrow> (bytes \<Rightarrow> bytes) \<Rightarrow> target \<Rightarrow> 'h \<Rightarrow> 'h \<Rightarrow> bytes \<Rightarrow> (('w, 'h, 'z) ssh, unit) io" where
  "check_host_key L sha tgt sock t server_key =
     try_except (lift (verify_pinned_host_key sha tgt server_key)) is_exception
       (\<lambda>e. seq (close_resources L (Some t) sock)
         (raise (if catches HostKeyMismatchError e then e
                 else about_target SshConnectionError
                        ''SSH host key verification failed for target '' tgt)))"

definition check_login ::
  "('w, 'h) ssh_lib \<Rightarrow> privileged_account \<Rightarrow> broker_credential \<Rightarrow> 'h \<Rightarrow> 'h \<Rightarrow>
   (('w, 'h, 'z) ssh, unit) io" where
  "check_login L account credential sock t =
     try_except (authenticate_transport L t account credential) is_exception
       (\<lambda>e. seq (close_resources L (Some t) sock)
         (raise (if catches SshAuthenticationError e then e else ssh_auth_failed)))"

definition ssh_connect ::
  "('w, 'h) ssh_lib \<Rightarrow> (bytes \<Rightarrow> bytes) \<Rightarrow> rat \<Rightarrow> target \<Rightarrow> privileged_account \<Rightarrow> broker_credential \<Rightarrow>
   (('w, 'h, 'z) ssh, 'h \<times> 'h) io" where
  "ssh_connect L sha timeout tgt account credential =
     bind (try_except
             (perform (l_create_connection L (tgt_host tgt) (tgt_port tgt) timeout)
                (CreateConnection (tgt_host tgt) (tgt_port tgt) timeout))
             (catches OSError)
             (\<lambda>_. raise (about_target SshConnectionError ''SSH TCP connection failed for target '' tgt)))
       (\<lambda>sock.
     bind (negotiate L timeout tgt sock) (\<lambda>(t, server_key).
     seq (check_host_key L sha tgt sock t server_key)
    (seq (check_login L account credential sock t)
     (ret (t, sock)))))"

section \<open>Runs of the connector\<close>

text \<open>
  No call of the libraries is interrupted.
\<close>

definition ssh_exceptions :: "('w, 'h) ssh_lib \<Rightarrow> bool" where
  "ssh_exceptions L \<longleftrightarrow> (\<forall>h. (\<forall>a. raises is_exception (l_transport L h a))
         \<and> (\<forall>d. raises is_exception (l_start_client L h d))
         \<and> raises is_exception (l_server_key L h) \<and> raises is_exception (l_is_authenticated L h)
         \<and> raises is_exception (l_open_session L h) \<and> (\<forall>n a b. raises is_exception (l_get_pty L h n a b))
         \<and> raises is_exception (l_invoke_shell L h) \<and> raises is_exception (l_close_channel L h)
         \<and> raises is_exception (l_close_transport L h) \<and> raises is_exception (l_close_socket L h)
         \<and> (\<forall>u p. raises is_exception (l_auth_password L h u p)))"

lemma quietly_close:
  assumes "quietly (perform m ob) s = (r, s')" "raises is_exception m"
  shows "r = Inr () \<and> (\<exists>v w. s' = s\<lparr>world := w, trace := trace s @ [ob v]\<rparr>)"
proof -
  obtain v s1 where v: "perform m ob s = (v, s1)" by fastforce
  from perform_run(3) [OF v] perform_run(2) [OF v assms(2)] v assms(1) show ?thesis
    by (cases v) (auto simp: quietly_def try_except_def)
qed

lemma close_resources_run:
  assumes "close_resources L transport sock s = (r, s')" "ssh_exceptions L"
  shows "r = Inr () \<and> (\<exists>v u w. s' = s\<lparr>world := w, trace := trace s
      @ (case transport of None \<Rightarrow> [] | Some t \<Rightarrow> [CloseTransport t u]) @ [CloseSocket sock v]\<rparr>)"
proof -
  have ex: "raises is_exception (l_close_transport L t)" "raises is_exception (l_close_socket L t)" for t
    using assms(2) by (simp_all add: ssh_exceptions_def)
  show ?thesis
  proof (cases transport)
    case None
    with assms(1) have "quietly (close_socket L sock) s = (r, s')"
      by (simp add: close_resources_def seq_apply)
    from quietly_close [OF this [unfolded close_socket_def] ex(2)] None show ?thesis by auto
  next
    case (Some t)
    obtain q s1 where q: "quietly (close_transport L t) s = (q, s1)" by fastforce
    from quietly_close [OF q [unfolded close_transport_def] ex(1)] obtain u w where u:
      "q = Inr ()" "s1 = s\<lparr>world := w, trace := trace s @ [CloseTransport t u]\<rparr>" by blast
    with assms(1) Some q have "quietly (close_socket L sock) s1 = (r, s')"
      by (simp add: close_resources_def seq_apply)
    from quietly_close [OF this [unfolded close_socket_def] ex(2)] u Some show ?thesis by auto
  qed
qed

text \<open>
  What a failing phase does: it closes what is open, the transport first, and raises an error
  of the adapter.
\<close>

definition released :: "'h option \<Rightarrow> 'h \<Rightarrow> 'h ssh_obs list \<Rightarrow> bool" where
  "released transport sock obs \<longleftrightarrow> (\<exists>u v. obs = (case transport of None \<Rightarrow> []
     | Some t \<Rightarrow> [CloseTransport t u]) @ [CloseSocket sock v])"

lemma handled_run:
  assumes "try_except m is_exception (\<lambda>e. seq (close_resources L transport sock) (raise (f e))) s = (r, s')"
    "m s = (q, s1)" "\<And>e. q = Inl e \<Longrightarrow> is_exception e" "ssh_exceptions L"
  shows "(\<exists>x. q = Inr x \<and> r = Inr x \<and> s' = s1)
    \<or> (\<exists>e obs w. q = Inl e \<and> r = Inl (f e) \<and> released transport sock obs
        \<and> s' = s1\<lparr>world := w, trace := trace s1 @ obs\<rparr>)"
proof (cases q)
  case (Inl e)
  obtain c s2 where c: "close_resources L transport sock s1 = (c, s2)" by fastforce
  from close_resources_run [OF c assms(4)] c assms(1-3) Inl show ?thesis
    by (auto simp: try_except_def seq_apply released_def)
next
  case (Inr x)
  with assms(1,2) have "r = Inr x" "s' = s1" by (simp_all add: try_except_def)
  with Inr show ?thesis by simp
qed

definition ssh_error :: "exn \<Rightarrow> bool" where
  "ssh_error e \<longleftrightarrow> catches SshConnectionError e"

lemma ssh_leaf_classes [simp]:
  "base_class c \<noteq> Some HostKeyMismatchError" "base_class c \<noteq> Some SshAuthenticationError"
  "base_class c \<noteq> Some SshChannelError"
  by (cases c; simp)+

lemma negotiate_run:
  assumes "negotiate L timeout tgt sock s = (r, s')" "ssh_exceptions L"
  shows "case r of
      Inr (t, k) \<Rightarrow> trace s' = trace s @ [NewTransport sock ssh_disabled_algorithms (Inr t), StartClient t timeout (Inr ()), ServerKey t (Inr k)]
    | Inl e \<Rightarrow> ssh_error e \<and>
        ((\<exists>e' obs. trace s' = trace s @ NewTransport sock ssh_disabled_algorithms (Inl e') # obs \<and> released None sock obs)
         \<or> (\<exists>t e' obs. trace s' = trace s @ [NewTransport sock ssh_disabled_algorithms (Inr t), StartClient t timeout (Inl e')] @ obs
              \<and> released (Some t) sock obs)
         \<or> (\<exists>t e' obs. trace s' = trace s @ [NewTransport sock ssh_disabled_algorithms (Inr t), StartClient t timeout (Inr ()),
                ServerKey t (Inl e')] @ obs \<and> released (Some t) sock obs))"
proof -
  let ?f = "about_target SshConnectionError ''SSH negotiation failed for target '' tgt"
  have f: "ssh_error ?f" by (simp add: ssh_error_def about_target_def catches_def)
  have ex: "raises is_exception (l_transport L t ssh_disabled_algorithms)" "raises is_exception (l_start_client L t timeout)"
    "raises is_exception (l_server_key L t)" for t
    using assms(2) by (simp_all add: ssh_exceptions_def)
  let ?new = "perform (l_transport L sock ssh_disabled_algorithms) (NewTransport sock ssh_disabled_algorithms)"
  obtain q s1 where q: "?new s = (q, s1)" by fastforce
  obtain q' s2 where q': "try_except ?new is_exception
      (\<lambda>_. seq (close_resources L None sock) (raise ?f)) s = (q', s2)" by fastforce
  note h1 = handled_run [OF q' q perform_run(2) [OF q ex(1)] assms(2)]
  show ?thesis
  proof (cases q')
    case (Inl e)
    with assms(1) q' have "r = Inl e" "s' = s2" by (simp_all add: negotiate_def Let_def bind_apply)
    with h1 Inl perform_run(1) [OF q] f show ?thesis by auto
  next
    case (Inr t)
    with h1 have t: "q = Inr t" "s2 = s1" by auto
    let ?m = "seq (perform (l_start_client L t timeout) (StartClient t timeout)) (perform (l_server_key L t) (ServerKey t))"
    obtain a s3 where a: "perform (l_start_client L t timeout) (StartClient t timeout) s1 = (a, s3)" by fastforce
    obtain m s4 where m: "?m s1 = (m, s4)" by fastforce
    have mm: "is_exception e" if "m = Inl e" for e
    proof (cases a)
      case (Inl e')
      with a m that perform_run(2) [OF a ex(2)] show ?thesis by (simp add: seq_apply)
    next
      case (Inr u)
      with a m have "perform (l_server_key L t) (ServerKey t) s3 = (m, s4)" by (simp add: seq_apply)
      from perform_run(2) [OF this ex(3) that] show ?thesis .
    qed
    obtain m' s5 where m': "try_except ?m is_exception
        (\<lambda>_. seq (close_resources L (Some t) sock) (raise ?f)) s1 = (m', s5)" by fastforce
    note h2 = handled_run [OF m' m mm assms(2)]
    from assms(1) q' Inr t m' have r: "s' = s5" "r = (case m' of Inl e \<Rightarrow> Inl e | Inr k \<Rightarrow> Inr (t, k))"
      by (auto simp: negotiate_def Let_def bind_apply split: sum.splits)
    have tr: "trace s4 = trace s @ [NewTransport sock ssh_disabled_algorithms (Inr t)] @ (case a of
        Inl e \<Rightarrow> [StartClient t timeout (Inl e)] | Inr _ \<Rightarrow> [StartClient t timeout (Inr ()), ServerKey t m])"
    proof (cases a)
      case (Inl e)
      with a m perform_run(1) [OF a] perform_run(1) [OF q] t show ?thesis by (simp add: seq_apply)
    next
      case (Inr u)
      with a m have "perform (l_server_key L t) (ServerKey t) s3 = (m, s4)" by (simp add: seq_apply)
      from perform_run(1) [OF this] perform_run(1) [OF a] perform_run(1) [OF q] t Inr show ?thesis by simp
    qed
    have am: "\<exists>k. m = Inr k \<Longrightarrow> \<exists>u. a = Inr u" using a m by (auto simp: seq_apply split: sum.splits)
    show ?thesis
    proof (cases m')
      case (Inl e)
      with h2 obtain e' obs w where o: "m = Inl e'" "m' = Inl ?f" "released (Some t) sock obs"
        "s5 = s4\<lparr>world := w, trace := trace s4 @ obs\<rparr>" by auto
      show ?thesis using o r tr f by (cases a) auto
    next
      case (Inr k)
      with h2 have "m = Inr k" "s5 = s4" by auto
      with am r tr Inr show ?thesis by auto
    qed
  qed
qed

lemma check_host_key_run:
  assumes "check_host_key L sha tgt sock t k s = (r, s')" "ssh_exceptions L"
  shows "r = Inr () \<and> s' = s \<and> verify_pinned_host_key sha tgt k = Inr ()
    \<or> (\<exists>e obs w. r = Inl e \<and> ssh_error e \<and> released (Some t) sock obs
        \<and> s' = s\<lparr>world := w, trace := trace s @ obs\<rparr>)"
proof -
  have ex: "is_exception e" if "verify_pinned_host_key sha tgt k = Inl e" for e
    using that by (auto simp: verify_pinned_host_key_def compare_digest_text_def host_key_mismatch_def
        bindR_eq_Inl_iff is_exception_def split: if_splits)
  obtain q s1 where q: "lift (verify_pinned_host_key sha tgt k) s = (q, s1)" by fastforce
  then have q': "q = verify_pinned_host_key sha tgt k" "s1 = s" by simp_all
  have f: "ssh_error (if catches HostKeyMismatchError e then e
      else about_target SshConnectionError ''SSH host key verification failed for target '' tgt)" for e
    by (cases e) (auto simp: ssh_error_def about_target_def catches_def)
  show ?thesis
  proof (rule handled_run [OF assms(1) [unfolded check_host_key_def] q _ assms(2), THEN disjE])
    fix e
    assume "q = Inl e"
    with q' show "is_exception e" by (simp add: ex)
  next
    assume "\<exists>x. q = Inr x \<and> r = Inr x \<and> s' = s1"
    with q' show ?thesis by (intro disjI1) auto
  next
    assume "\<exists>e obs w. q = Inl e \<and> r = Inl (if catches HostKeyMismatchError e then e
          else about_target SshConnectionError ''SSH host key verification failed for target '' tgt)
        \<and> released (Some t) sock obs \<and> s' = s1\<lparr>world := w, trace := trace s1 @ obs\<rparr>"
    then show ?thesis unfolding q'(2) using f by (intro disjI2) blast
  qed
qed

text \<open>What is sent to the server by \<open>_authenticate\<close> when it fails\<close>

definition password_attempt ::
  "privileged_account \<Rightarrow> broker_credential \<Rightarrow> 'h \<Rightarrow> 'h ssh_obs list \<Rightarrow> bool" where
  "password_attempt account credential t pre \<longleftrightarrow> pre = []
     \<or> (\<exists>p v post. utf8_decode (bc_value credential) = Inr p
         \<and> pre = AuthPassword t (acc_username account) p v # post
         \<and> (post = [] \<or> (\<exists>v'. post = [IsAuthenticated t v'])))"

lemma check_login_run:
  assumes "check_login L account credential sock t s = (r, s')" "ssh_exceptions L"
  shows "\<exists>obs. trace s' = trace s @ obs \<and> (case r of
      Inr _ \<Rightarrow> \<exists>p. utf8_decode (bc_value credential) = Inr p
        \<and> obs = [AuthPassword t (acc_username account) p (Inr ()), IsAuthenticated t (Inr True)]
    | Inl e \<Rightarrow> ssh_error e \<and> (\<exists>pre post. obs = pre @ post \<and> released (Some t) sock post
        \<and> password_attempt account credential t pre))"
proof -
  have ex: "raises is_exception (l_auth_password L t u p)" "raises is_exception (l_is_authenticated L t)"
    for u p using assms(2) by (simp_all add: ssh_exceptions_def)
  obtain q s1 where q: "authenticate_transport L t account credential s = (q, s1)" by fastforce
  have auth: "\<exists>pre. trace s1 = trace s @ pre \<and> (\<forall>e. q = Inl e \<longrightarrow> is_exception e)
      \<and> (q = Inr () \<longrightarrow> (\<exists>p. utf8_decode (bc_value credential) = Inr p
        \<and> pre = [AuthPassword t (acc_username account) p (Inr ()), IsAuthenticated t (Inr True)]))
      \<and> password_attempt account credential t pre"
  proof (cases "utf8_decode (bc_value credential)")
    case (Inl e)
    from utf8_decode_error [OF Inl] Inl q show ?thesis
      by (auto simp: authenticate_transport_def bind_apply password_attempt_def)
  next
    case (Inr p)
    let ?auth = "perform (l_auth_password L t (acc_username account) p) (AuthPassword t (acc_username account) p)"
    obtain a s2 where a: "?auth s = (a, s2)" by fastforce
    show ?thesis
    proof (cases a)
      case (Inl e)
      with q a Inr have "s1 = s2" "q = Inl ssh_auth_failed \<or> q = Inl e"
        by (auto simp: authenticate_transport_def bind_apply seq_apply try_except_def split: if_splits)
      with perform_run(1) [OF a] perform_run(2) [OF a ex(1) Inl] Inr show ?thesis
        by (auto simp: ssh_auth_failed_def password_attempt_def)
    next
      case (Inr u)
      obtain b s3 where b: "perform (l_is_authenticated L t) (IsAuthenticated t) s2 = (b, s3)" by fastforce
      from q a b Inr \<open>utf8_decode (bc_value credential) = Inr p\<close> have "s1 = s3"
        "q = (case b of Inl e \<Rightarrow> Inl e | Inr ok \<Rightarrow> if ok then Inr () else Inl ssh_auth_failed)"
        by (auto simp: authenticate_transport_def bind_apply seq_apply try_except_def split: sum.splits if_splits)
      with perform_run(1) [OF a] perform_run(1) [OF b] perform_run(2) [OF b ex(2)] Inr
        \<open>utf8_decode (bc_value credential) = Inr p\<close> show ?thesis
        by (auto simp: ssh_auth_failed_def password_attempt_def split: sum.splits if_splits)
    qed
  qed
  then obtain pre where pre: "trace s1 = trace s @ pre" "\<And>e. q = Inl e \<Longrightarrow> is_exception e"
      "q = Inr () \<Longrightarrow> \<exists>p. utf8_decode (bc_value credential) = Inr p
        \<and> pre = [AuthPassword t (acc_username account) p (Inr ()), IsAuthenticated t (Inr True)]"
      "password_attempt account credential t pre" by blast
  have f: "ssh_error (if catches SshAuthenticationError e then e else ssh_auth_failed)" for e
    by (cases e) (auto simp: ssh_error_def ssh_auth_failed_def catches_def)
  show ?thesis
  proof (rule handled_run [OF assms(1) [unfolded check_login_def] q _ assms(2), THEN disjE])
    fix e
    assume "q = Inl e"
    then show "is_exception e" by (rule pre(2))
  next
    assume "\<exists>x. q = Inr x \<and> r = Inr x \<and> s' = s1"
    with pre show ?thesis by auto
  next
    assume "\<exists>e obs w. q = Inl e
        \<and> r = Inl (if catches SshAuthenticationError e then e else ssh_auth_failed)
        \<and> released (Some t) sock obs \<and> s' = s1\<lparr>world := w, trace := trace s1 @ obs\<rparr>"
    then obtain e obs w where "r = Inl (if catches SshAuthenticationError e then e else ssh_auth_failed)"
      "released (Some t) sock obs" "s' = s1\<lparr>world := w, trace := trace s1 @ obs\<rparr>" by blast
    with pre f show ?thesis by (intro exI [of _ "pre @ obs"]) auto
  qed
qed

section \<open>No leak, and no password before the pinned key\<close>

text \<open>Each socket and each transport that was created is closed afterwards.\<close>

fun no_leak :: "'h ssh_obs list \<Rightarrow> bool" where
  "no_leak [] = True"
| "no_leak (CreateConnection h p d (Inr x) # obs) = ((\<exists>v. CloseSocket x v \<in> set obs) \<and> no_leak obs)"
| "no_leak (NewTransport x a (Inr t) # obs) = ((\<exists>v. CloseTransport t v \<in> set obs) \<and> no_leak obs)"
| "no_leak (OpenChannel t (Inr c) # obs) = ((\<exists>v. CloseChannel c v \<in> set obs) \<and> no_leak obs)"
| "no_leak (_ # obs) = no_leak obs"

text \<open>
  A password is sent at most once, to the transport whose key is the pinned one, for the
  account, and it is the credential.
\<close>

definition password_guarded ::
  "(bytes \<Rightarrow> bytes) \<Rightarrow> target \<Rightarrow> privileged_account \<Rightarrow> broker_credential \<Rightarrow> 'h ssh_obs list \<Rightarrow> bool" where
  "password_guarded sha tgt account credential obs \<longleftrightarrow>
     (\<forall>pre t u p v post. obs = pre @ AuthPassword t u p v # post \<longrightarrow>
        (\<exists>k. ServerKey t (Inr k) \<in> set pre \<and> verify_pinned_host_key sha tgt k = Inr ())
        \<and> u = acc_username account \<and> utf8_decode (bc_value credential) = Inr p
        \<and> (\<forall>t u p v. AuthPassword t u p v \<notin> set pre))"

definition no_password :: "'h ssh_obs list \<Rightarrow> bool" where
  "no_password obs \<longleftrightarrow> (\<forall>t u p v. AuthPassword t u p v \<notin> set obs)"

lemma no_password_simps [simp]:
  "no_password []" "no_password (x # obs) \<longleftrightarrow> (\<forall>t u p v. x \<noteq> AuthPassword t u p v) \<and> no_password obs"
  "no_password (obs @ obs') \<longleftrightarrow> no_password obs \<and> no_password obs'"
  by (auto simp: no_password_def)

lemma no_password_guarded: "no_password obs \<Longrightarrow> password_guarded sha tgt account credential obs"
  by (auto simp: password_guarded_def)

lemma guarded_attempt:
  assumes "no_password pre" "no_password post" "ServerKey t (Inr k) \<in> set pre"
    "verify_pinned_host_key sha tgt k = Inr ()" "utf8_decode (bc_value credential) = Inr p"
  shows "password_guarded sha tgt account credential
    (pre @ AuthPassword t (acc_username account) p v # post)"
proof -
  have "pre' = pre \<and> x = AuthPassword t (acc_username account) p v"
    if "pre @ AuthPassword t (acc_username account) p v # post = pre' @ x # post'"
      and "x = AuthPassword t' u' p' v'" for pre' x post' t' u' p' v'
  proof -
    have *: "x \<notin> set pre" "x \<notin> set post" using that(2) assms(1,2) by (auto simp: no_password_def)
    show ?thesis
      using that(1) * by (auto simp: append_eq_append_conv2 Cons_eq_append_conv append_eq_Cons_conv)
  qed
  with assms show ?thesis unfolding password_guarded_def no_password_def by blast
qed

lemma released_simps [simp]:
  "released (Some t) x obs \<Longrightarrow> no_password obs" "released None x obs \<Longrightarrow> no_password obs"
  "released (Some t) x obs \<Longrightarrow> no_leak obs" "released None x obs \<Longrightarrow> no_leak obs"
  by (auto simp: released_def)

lemma released_closes:
  "released tr x obs \<Longrightarrow> \<exists>v. CloseSocket x v \<in> set obs"
  "released (Some t) x obs \<Longrightarrow> \<exists>v. CloseTransport t v \<in> set obs"
  by (auto simp: released_def)

lemma attempt_no_leak:
  "password_attempt account credential t pre \<Longrightarrow> no_leak obs \<Longrightarrow> no_leak (pre @ obs)"
  by (auto simp: password_attempt_def)

text \<open>A connection, or an error of the adapter with everything closed.\<close>

definition connect_spec ::
  "(bytes \<Rightarrow> bytes) \<Rightarrow> rat \<Rightarrow> target \<Rightarrow> privileged_account \<Rightarrow> broker_credential \<Rightarrow>
   ('h \<times> 'h) res \<Rightarrow> 'h ssh_obs list \<Rightarrow> bool" where
  "connect_spec sha timeout tgt account credential r obs \<longleftrightarrow>
     password_guarded sha tgt account credential obs \<and>
     (case r of
        Inr (t, sock) \<Rightarrow> \<exists>k p. verify_pinned_host_key sha tgt k = Inr ()
          \<and> utf8_decode (bc_value credential) = Inr p
          \<and> obs = [CreateConnection (tgt_host tgt) (tgt_port tgt) timeout (Inr sock),
                   NewTransport sock ssh_disabled_algorithms (Inr t), StartClient t timeout (Inr ()),
                   ServerKey t (Inr k), AuthPassword t (acc_username account) p (Inr ()),
                   IsAuthenticated t (Inr True)]
      | Inl e \<Rightarrow> no_leak obs \<and> (ssh_error e \<or> \<not> catches OSError e
          \<and> obs = [CreateConnection (tgt_host tgt) (tgt_port tgt) timeout (Inl e)]))"

lemma ssh_connect_run:
  assumes "ssh_connect L sha timeout tgt account credential s = (r, s')" "ssh_exceptions L"
  shows "\<exists>obs. trace s' = trace s @ obs \<and> connect_spec sha timeout tgt account credential r obs"
proof -
  let ?cc = "CreateConnection (tgt_host tgt) (tgt_port tgt) timeout"
  let ?create = "perform (l_create_connection L (tgt_host tgt) (tgt_port tgt) timeout) ?cc"
  obtain q s1 where q: "?create s = (q, s1)" by fastforce
  show ?thesis
  proof (cases q)
    case (Inl e)
    with assms(1) q have "s' = s1" "r = Inl (if catches OSError e
        then about_target SshConnectionError ''SSH TCP connection failed for target '' tgt else e)"
      by (auto simp: ssh_connect_def bind_apply try_except_def split: if_splits)
    with perform_run(1) [OF q] Inl show ?thesis
      by (auto simp: connect_spec_def no_password_guarded ssh_error_def about_target_def catches_def)
  next
    case (Inr sock)
    obtain n s2 where n: "negotiate L timeout tgt sock s1 = (n, s2)" by fastforce
    note nr = negotiate_run [OF n assms(2)]
    show ?thesis
    proof (cases n)
      case (Inl e)
      with assms(1) q Inr n have r: "r = Inl e" "s' = s2"
        by (simp_all add: ssh_connect_def bind_apply try_except_def)
      show ?thesis
      proof (rule exI, rule conjI)
        show "trace s' = trace s @ drop (length (trace s)) (trace s')"
          using nr Inl r perform_run(1) [OF q] by auto
        show "connect_spec sha timeout tgt account credential r (drop (length (trace s)) (trace s'))"
          using nr Inl r perform_run(1) [OF q] Inr
          by (auto simp: connect_spec_def intro!: no_password_guarded dest: released_closes)
      qed
    next
      case (Inr tk)
      obtain t k where tk: "tk = (t, k)" by fastforce
      let ?pre = "[?cc (Inr sock), NewTransport sock ssh_disabled_algorithms (Inr t),
        StartClient t timeout (Inr ()), ServerKey t (Inr k)]"
      obtain c s3 where c: "check_host_key L sha tgt sock t k s2 = (c, s3)" by fastforce
      from nr Inr tk perform_run(1) [OF q] \<open>q = Inr sock\<close> have tr: "trace s2 = trace s @ ?pre" by simp
      from check_host_key_run [OF c assms(2)] show ?thesis
      proof (elim disjE conjE exE)
        fix e obs w
        assume f: "c = Inl e" "ssh_error e" "released (Some t) sock obs"
          "s3 = s2\<lparr>world := w, trace := trace s2 @ obs\<rparr>"
        with assms(1) q n c Inr tk \<open>q = Inr sock\<close> have "r = Inl e" "s' = s3"
          by (simp_all add: ssh_connect_def bind_apply seq_apply try_except_def)
        with f tr released_closes [OF f(3)] show ?thesis
          by (intro exI [of _ "?pre @ obs"]) (auto simp: connect_spec_def intro!: no_password_guarded)
      next
        assume v: "c = Inr ()" "s3 = s2" "verify_pinned_host_key sha tgt k = Inr ()"
        obtain a s4 where a: "check_login L account credential sock t s2 = (a, s4)" by fastforce
        from assms(1) q n c v a Inr tk \<open>q = Inr sock\<close> have r: "s' = s4"
          "r = (case a of Inl e \<Rightarrow> Inl e | Inr u \<Rightarrow> Inr (t, sock))"
          by (auto simp: ssh_connect_def bind_apply seq_apply try_except_def split: sum.splits)
        from check_login_run [OF a assms(2)] obtain obs where o: "trace s4 = trace s2 @ obs"
          "case a of Inr _ \<Rightarrow> \<exists>p. utf8_decode (bc_value credential) = Inr p
              \<and> obs = [AuthPassword t (acc_username account) p (Inr ()), IsAuthenticated t (Inr True)]
            | Inl e \<Rightarrow> ssh_error e \<and> (\<exists>pre post. obs = pre @ post \<and> released (Some t) sock post
                \<and> password_attempt account credential t pre)" by blast
        have g: "password_guarded sha tgt account credential
            (?pre @ AuthPassword t (acc_username account) p u # post)"
          if "utf8_decode (bc_value credential) = Inr p" "no_password post" for p u post
          using guarded_attempt [of ?pre post t k sha tgt credential p account u] v that by simp
        show ?thesis
        proof (cases a)
          case (Inr u)
          with o r tr v(3) g [of _ "[IsAuthenticated t (Inr True)]" "Inr ()"] show ?thesis
            by (intro exI [of _ "?pre @ obs"]) (auto simp: connect_spec_def)
        next
          case (Inl e)
          with o obtain pre post where p: "ssh_error e" "obs = pre @ post"
            "released (Some t) sock post" "password_attempt account credential t pre" by auto
          have "password_guarded sha tgt account credential (?pre @ pre @ post)"
          proof (cases "pre = []")
            case True
            with p(3) show ?thesis by (simp add: no_password_guarded)
          next
            case False
            with p(4) obtain pw u post' where "utf8_decode (bc_value credential) = Inr pw"
              "pre = AuthPassword t (acc_username account) pw u # post'"
              "post' = [] \<or> (\<exists>v'. post' = [IsAuthenticated t v'])" by (auto simp: password_attempt_def)
            with g [of pw "post' @ post" u] p(3) show ?thesis by auto
          qed
          moreover have "no_leak (?pre @ pre @ post)"
            using released_closes [OF p(3)] attempt_no_leak [OF p(4), of post] p(3) by auto
          ultimately show ?thesis using p o r tr Inl
            by (intro exI [of _ "?pre @ pre @ post"]) (simp add: connect_spec_def)
        qed
      qed
    qed
  qed
qed

text \<open>
  Connecting, over whatever the network and Paramiko do: a password is sent at most once,
  only to the transport whose server key has the pinned fingerprint, with the account's name and
  the vault's credential; a connection is returned only when the server accepted it, with the
  weak algorithms disabled, and every failure leaves neither a socket nor a transport open and is
  one of the adapter's errors, unless making the TCP connection raised something that is not an
  \<open>OSError\<close> (for a host name that IDNA cannot encode).
\<close>

theorem ssh_connect_safe:
  assumes "ssh_exceptions L"
    "ssh_connect L sha timeout tgt account credential s = (r, s')"
  shows "\<exists>obs. trace s' = trace s @ obs \<and> password_guarded sha tgt account credential obs \<and>
     (case r of
        Inr (t, sock) \<Rightarrow> \<exists>k p. verify_pinned_host_key sha tgt k = Inr ()
          \<and> utf8_decode (bc_value credential) = Inr p
          \<and> obs = [CreateConnection (tgt_host tgt) (tgt_port tgt) timeout (Inr sock),
                   NewTransport sock ssh_disabled_algorithms (Inr t), StartClient t timeout (Inr ()),
                   ServerKey t (Inr k), AuthPassword t (acc_username account) p (Inr ()),
                   IsAuthenticated t (Inr True)]
      | Inl e \<Rightarrow> no_leak obs \<and> (ssh_error e \<or> \<not> catches OSError e
          \<and> obs = [CreateConnection (tgt_host tgt) (tgt_port tgt) timeout (Inl e)]))"
  using ssh_connect_run [OF assms(2,1)] unfolding connect_spec_def .

text \<open>A server that answers every call\<close>

definition lab_ssh :: "(unit, nat) ssh_lib" where
  "lab_ssh = \<lparr>l_create_connection = (\<lambda>h p d. ret 1), l_transport = (\<lambda>h a. ret 2),
     l_start_client = (\<lambda>h d. ret ()), l_server_key = (\<lambda>h. ret [7]),
     l_auth_password = (\<lambda>h u p. ret ()), l_is_authenticated = (\<lambda>h. ret True),
     l_open_session = (\<lambda>h. ret 3), l_get_pty = (\<lambda>h n a b. ret ()), l_invoke_shell = (\<lambda>h. ret ()),
     l_close_channel = (\<lambda>h. ret ()), l_close_transport = (\<lambda>h. ret ()),
     l_close_socket = (\<lambda>h. ret ())\<rparr>"

definition lab_sha :: "bytes \<Rightarrow> bytes" where
  "lab_sha k = replicate 32 0"

definition ssh_target :: target where
  "ssh_target = \<lparr>tgt_id = lit ''t'', tgt_name = lit ''n'', tgt_host = lit ''h'', tgt_port = 22,
     tgt_expected_host_key = \<lparr>hkf_value = digest_text (replicate 32 0)\<rparr>, tgt_enabled = True\<rparr>"

definition ssh_account :: privileged_account where
  "ssh_account = \<lparr>acc_id = lit ''a'', acc_target_id = lit ''t'', acc_username = lit ''root'',
     acc_credential_ref = \<lparr>cref_id = lit ''c''\<rparr>, acc_enabled = True\<rparr>"

definition ssh_start :: "(unit, nat ssh_obs) tstate" where
  "ssh_start = \<lparr>world = (), trace = []\<rparr>"

lemma lab_ssh_exceptions: "ssh_exceptions lab_ssh"
  by (simp add: ssh_exceptions_def raises_def lab_ssh_def)

lemma lab_verify: "verify_pinned_host_key lab_sha ssh_target k = Inr ()"
  by (simp add: verify_pinned_Inr ssh_target_def lab_sha_def)

theorem ssh_connect_safe_witness:
  "fst (ssh_connect lab_ssh lab_sha 10 ssh_target ssh_account \<lparr>bc_value = [0x70]\<rparr> ssh_start) = Inr (2, 1)
   \<and> password_guarded lab_sha ssh_target ssh_account \<lparr>bc_value = [0x70]\<rparr>
      (trace (snd (ssh_connect lab_ssh lab_sha 10 ssh_target ssh_account \<lparr>bc_value = [0x70]\<rparr> ssh_start)))"
proof -
  let ?run = "ssh_connect lab_ssh lab_sha 10 ssh_target ssh_account \<lparr>bc_value = [0x70]\<rparr> ssh_start"
  have u: "utf8_decode [0x70] = Inr [0x70]" by (simp add: utf8_decode_def)
  have r: "fst ?run = Inr (2, 1)"
    by (simp add: ssh_connect_def negotiate_def check_host_key_def check_login_def lab_verify u
        authenticate_transport_def bind_def seq_def try_except_def perform_def lab_ssh_def ssh_start_def Let_def)
  obtain q s' where q: "?run = (q, s')" by fastforce
  from ssh_connect_safe [OF lab_ssh_exceptions q] q r show ?thesis
    by (auto simp: ssh_start_def)
qed

end
