(* ===== verification/Broker.thy ===== *)
theory Broker
  imports Relay Ssh
begin

text \<open>
  The objects that own an SSH session: \<open>VerifiedSshConnection\<close>
  (\<open>infrastructure/ssh/paramiko_connection.py\<close>), \<open>InteractiveSshChannel\<close>
  (\<open>interactive_channel.py\<close>), \<open>ParamikoBrokeredSession\<close> and
  \<open>ParamikoSessionBroker\<close> (\<open>paramiko_session_broker.py\<close>). Each has a flag that
  makes its \<open>close\<close> idempotent; the flags are cells of the state.
\<close>

section \<open>The objects\<close>

record 'h connection =
  vc_transport :: 'h
  vc_socket :: 'h
  vc_closed :: bool

record 'h shell_channel =
  sc_channel :: 'h
  sc_closed :: bool

record ('w, 'h) brokered = "('w, 'h ssh_obs) tstate" +
  bs_connection :: "'h connection option"
  bs_channel :: "'h shell_channel option"
  bs_closed :: bool

type_synonym ('w, 'h, 'a) broker_io = "(('w, 'h) brokered, 'a) io"

text \<open>\<open>VerifiedSshConnection.close\<close> and \<open>_open_session_channel\<close>\<close>

definition connection_close :: "('w, 'h) ssh_lib \<Rightarrow> ('w, 'h, unit) broker_io" where
  "connection_close L = (\<lambda>s. case bs_connection s of
       None \<Rightarrow> (Inl (err AttributeError ''_connection''), s)
     | Some c \<Rightarrow>
         if vc_closed c then (Inr (), s)
         else try_finally (close_transport L (vc_transport c)) (close_socket L (vc_socket c))
                (s\<lparr>bs_connection := Some (c\<lparr>vc_closed := True\<rparr>)\<rparr>))"

definition open_session_channel :: "('w, 'h) ssh_lib \<Rightarrow> ('w, 'h, 'h) broker_io" where
  "open_session_channel L = (\<lambda>s. case bs_connection s of
       None \<Rightarrow> (Inl (err AttributeError ''_connection''), s)
     | Some c \<Rightarrow>
         if vc_closed c then (Inl (err SshConnectionError ''verified SSH connection is closed''), s)
         else perform (l_open_session L (vc_transport c)) (OpenChannel (vc_transport c)) s)"

text \<open>\<open>InteractiveSshChannel.open\<close> and \<open>close\<close>\<close>

definition close_partial_channel :: "('w, 'h) ssh_lib \<Rightarrow> 'h \<Rightarrow> ('w, 'h, unit) broker_io" where
  "close_partial_channel L c = quietly (perform (l_close_channel L c) (CloseChannel c))"

definition channel_open ::
  "('w, 'h) ssh_lib \<Rightarrow> string \<Rightarrow> int \<Rightarrow> int \<Rightarrow> ('w, 'h, 'h) broker_io" where
  "channel_open L term width height =
     bind (try_except (open_session_channel L) is_exception
             (\<lambda>_. raise (err SshChannelError ''SSH session channel could not be opened''))) (\<lambda>c.
     seq (try_except (perform (l_get_pty L c term width height) (GetPty c term width height))
            is_exception
            (\<lambda>_. seq (close_partial_channel L c) (raise (err SshChannelError ''SSH PTY request failed''))))
    (seq (try_except (perform (l_invoke_shell L c) (InvokeShell c)) is_exception
            (\<lambda>_. seq (close_partial_channel L c) (raise (err SshChannelError ''SSH shell request failed''))))
     (ret c)))"

definition channel_close :: "('w, 'h) ssh_lib \<Rightarrow> ('w, 'h, unit) broker_io" where
  "channel_close L = (\<lambda>s. case bs_channel s of
       None \<Rightarrow> (Inl (err AttributeError ''_channel''), s)
     | Some c \<Rightarrow>
         if sc_closed c then (Inr (), s)
         else perform (l_close_channel L (sc_channel c)) (CloseChannel (sc_channel c))
                (s\<lparr>bs_channel := Some (c\<lparr>sc_closed := True\<rparr>)\<rparr>))"

text \<open>\<open>ParamikoSessionBroker.open_session\<close>\<close>

definition open_session ::
  "('w, 'h) ssh_lib \<Rightarrow> (bytes \<Rightarrow> bytes) \<Rightarrow> rat \<Rightarrow> target \<Rightarrow> privileged_account \<Rightarrow> broker_credential \<Rightarrow>
   ('w, 'h, unit) broker_io" where
  "open_session L sha timeout tgt account credential =
     bind (ssh_connect L sha timeout tgt account credential) (\<lambda>(t, sock).
     seq (\<lambda>s. (Inr (), s\<lparr>bs_connection := Some \<lparr>vc_transport = t, vc_socket = sock, vc_closed = False\<rparr>\<rparr>))
    (bind (try_except (channel_open L ''xterm'' 80 24) is_exception
             (\<lambda>e. seq (quietly (connection_close L)) (raise e))) (\<lambda>c s.
     (Inr (), s\<lparr>bs_channel := Some \<lparr>sc_channel = c, sc_closed = False\<rparr>, bs_closed := False\<rparr>))))"

text \<open>\<open>ParamikoBrokeredSession.close\<close>\<close>

definition session_close :: "('w, 'h) ssh_lib \<Rightarrow> ('w, 'h, unit) broker_io" where
  "session_close L = (\<lambda>s.
     if bs_closed s then (Inr (), s)
     else try_finally (channel_close L) (connection_close L) (s\<lparr>bs_closed := True\<rparr>))"

section \<open>Opening\<close>

lemma quietly_close_run:
  assumes "quietly (perform m ob) s = (r, s')" "raises is_exception m"
  obtains v w where "r = Inr ()" "s' = s\<lparr>world := w, trace := trace s @ [ob v]\<rparr>"
  using quietly_close [OF assms] by blast

lemma try_finally_run:
  assumes "try_finally m k s = (r, s')" "m s = (q, s1)" "k s1 = (v, s2)"
  shows "s' = s2" "r = (case v of Inl e \<Rightarrow> Inl e | Inr _ \<Rightarrow> q)"
  using assms by (auto simp: try_finally_def finally_with_def bind_apply split: sum.splits)

lemma connection_close_run:
  assumes "connection_close L s = (r, s')" "bs_connection s = Some c" "\<not> vc_closed c"
  shows "\<exists>u v w. s' = s\<lparr>bs_connection := Some (c\<lparr>vc_closed := True\<rparr>), world := w,
      trace := trace s @ [CloseTransport (vc_transport c) u, CloseSocket (vc_socket c) v]\<rparr>
    \<and> r = (case v of Inl e \<Rightarrow> Inl e | Inr _ \<Rightarrow> u)
    \<and> (ssh_exceptions L \<longrightarrow> (\<forall>e. r = Inl e \<longrightarrow> is_exception e))"
proof -
  let ?s = "s\<lparr>bs_connection := Some (c\<lparr>vc_closed := True\<rparr>)\<rparr>"
  obtain u s1 where u: "close_transport L (vc_transport c) ?s = (u, s1)" by fastforce
  obtain v s2 where v: "close_socket L (vc_socket c) s1 = (v, s2)" by fastforce
  from assms have "try_finally (close_transport L (vc_transport c)) (close_socket L (vc_socket c)) ?s = (r, s')"
    by (simp add: connection_close_def)
  note f = try_finally_run [OF this u v]
  have "is_exception e" if "ssh_exceptions L" "r = Inl e" for e
    using perform_run(2) [OF u [unfolded close_transport_def], of is_exception e]
      perform_run(2) [OF v [unfolded close_socket_def], of is_exception e] that f(2)
    by (auto simp: ssh_exceptions_def split: sum.splits)
  with f u v show ?thesis
    by (intro exI [of _ u] exI [of _ v]) (auto simp: close_transport_def close_socket_def perform_eq_iff)
qed

lemma channel_open_run:
  assumes "channel_open L n x y s = (r, s')" "bs_connection s = Some c" "\<not> vc_closed c" "ssh_exceptions L"
  shows "\<exists>obs w. s' = s\<lparr>world := w, trace := trace s @ obs\<rparr> \<and> (case r of
      Inr h \<Rightarrow> obs = [OpenChannel (vc_transport c) (Inr h), GetPty h n x y (Inr ()), InvokeShell h (Inr ())]
    | Inl e \<Rightarrow> ssh_error e \<and> is_exception e \<and> no_password obs \<and> no_leak obs)"
proof -
  let ?t = "vc_transport c"
  have ex: "raises is_exception (l_open_session L h)" "raises is_exception (l_get_pty L h n x y)"
    "raises is_exception (l_invoke_shell L h)" "raises is_exception (l_close_channel L h)" for h
    using assms(4) by (simp_all add: ssh_exceptions_def)
  have sshe: "ssh_error (err SshChannelError m)" for m by (simp add: ssh_error_def)
  obtain a s1 where a: "perform (l_open_session L ?t) (OpenChannel ?t) s = (a, s1)" by fastforce
  from perform_run(3) [OF a] obtain w1 where w1: "s1 = s\<lparr>world := w1, trace := trace s @ [OpenChannel ?t a]\<rparr>" ..
  have oc: "open_session_channel L s = (a, s1)" using assms(2,3) a by (simp add: open_session_channel_def)
  show ?thesis
  proof (cases a)
    case (Inl e)
    with assms(1) oc perform_run(2) [OF a ex(1)] have "s' = s1"
      "r = Inl (err SshChannelError ''SSH session channel could not be opened'')"
      by (simp_all add: channel_open_def bind_apply try_except_def)
    with w1 sshe Inl show ?thesis by auto
  next
    case (Inr h)
    obtain b s2 where b: "perform (l_get_pty L h n x y) (GetPty h n x y) s1 = (b, s2)" by fastforce
    from perform_run(3) [OF b] obtain w2 where w2: "s2 = s1\<lparr>world := w2, trace := trace s1 @ [GetPty h n x y b]\<rparr>" ..
    obtain d s3 where d: "perform (l_invoke_shell L h) (InvokeShell h) s2 = (d, s3)" by fastforce
    from perform_run(3) [OF d] obtain w3 where w3: "s3 = s2\<lparr>world := w3, trace := trace s2 @ [InvokeShell h d]\<rparr>" ..
    consider e where "b = Inl e" | e where "b = Inr ()" "d = Inl e" | "b = Inr ()" "d = Inr ()"
      by (cases b; cases d) auto
    then show ?thesis
    proof cases
      case 1
      obtain q s4 where q: "close_partial_channel L h s2 = (q, s4)" by fastforce
      from quietly_close_run [OF q [unfolded close_partial_channel_def] ex(4)] obtain v w where v:
        "q = Inr ()" "s4 = s2\<lparr>world := w, trace := trace s2 @ [CloseChannel h v]\<rparr>" .
      from 1 assms(1) oc Inr b q v perform_run(2) [OF b ex(2) 1] have "s' = s4"
        "r = Inl (err SshChannelError ''SSH PTY request failed'')"
        by (simp_all add: channel_open_def bind_apply seq_apply try_except_def)
      with v w1 w2 Inr sshe show ?thesis
        by (intro exI [of _ "[OpenChannel ?t a, GetPty h n x y b, CloseChannel h v]"] exI [of _ w]) auto
    next
      case 2
      obtain q s4 where q: "close_partial_channel L h s3 = (q, s4)" by fastforce
      from quietly_close_run [OF q [unfolded close_partial_channel_def] ex(4)] obtain v w where v:
        "q = Inr ()" "s4 = s3\<lparr>world := w, trace := trace s3 @ [CloseChannel h v]\<rparr>" .
      from 2 assms(1) oc Inr b d q v perform_run(2) [OF d ex(3) 2(2)] have "s' = s4"
        "r = Inl (err SshChannelError ''SSH shell request failed'')"
        by (simp_all add: channel_open_def bind_apply seq_apply try_except_def)
      with v w1 w2 w3 Inr sshe show ?thesis
        by (intro exI [of _ "[OpenChannel ?t a, GetPty h n x y b, InvokeShell h d, CloseChannel h v]"]
            exI [of _ w]) auto
    next
      case 3
      with assms(1) oc Inr b d have "s' = s3" "r = Inr h"
        by (simp_all add: channel_open_def bind_apply seq_apply try_except_def)
      with w1 w2 w3 Inr 3 show ?thesis by auto
    qed
  qed
qed

lemma no_leak_append: "no_leak xs \<Longrightarrow> no_leak ys \<Longrightarrow> no_leak (xs @ ys)"
  by (induction xs rule: no_leak.induct) auto

lemma password_guarded_append:
  assumes "password_guarded sha tgt account credential xs" "no_password ys"
  shows "password_guarded sha tgt account credential (xs @ ys)"
  unfolding password_guarded_def
proof (intro allI impI)
  fix pre t u p v post
  assume e: "xs @ ys = pre @ AuthPassword t u p v # post"
  have "AuthPassword t u p v \<notin> set ys" using assms(2) by (simp add: no_password_def)
  with e obtain us where "xs = pre @ AuthPassword t u p v # us"
    by (auto simp: append_eq_append_conv2 append_eq_Cons_conv Cons_eq_append_conv)
  with assms(1) show "(\<exists>k. ServerKey t (Inr k) \<in> set pre \<and> verify_pinned_host_key sha tgt k = Inr ())
      \<and> u = acc_username account \<and> utf8_decode (bc_value credential) = Inr p
      \<and> (\<forall>t u p v. AuthPassword t u p v \<notin> set pre)"
    unfolding password_guarded_def by blast
qed

definition session_open :: "('w, 'h) brokered \<Rightarrow> 'h \<Rightarrow> 'h \<Rightarrow> 'h \<Rightarrow> bool" where
  "session_open s t sock c \<longleftrightarrow> \<not> bs_closed s
     \<and> bs_connection s = Some \<lparr>vc_transport = t, vc_socket = sock, vc_closed = False\<rparr>
     \<and> bs_channel s = Some \<lparr>sc_channel = c, sc_closed = False\<rparr>"

text \<open>
  C23. Opening a brokered session either gives a session that is open, on a connection the server
  authenticated over the pinned key, with a shell on a terminal of 80 by 24, or raises one of the
  adapter's errors (or what the TCP connection raised, when that is no \<open>OSError\<close>) with every
  channel, transport and socket closed again; whatever happens, the
  credential is sent at most once and only to the pinned server.
\<close>

theorem open_session_safe:
  assumes "open_session L sha timeout tgt account credential s = (r, s')" "ssh_exceptions L"
  shows "\<exists>obs. trace s' = trace s @ obs \<and> password_guarded sha tgt account credential obs
    \<and> (case r of
        Inr _ \<Rightarrow> \<exists>t sock c k. session_open s' t sock c \<and> verify_pinned_host_key sha tgt k = Inr ()
          \<and> {ServerKey t (Inr k), IsAuthenticated t (Inr True), OpenChannel t (Inr c),
             GetPty c ''xterm'' 80 24 (Inr ()), InvokeShell c (Inr ())} \<subseteq> set obs
      | Inl e \<Rightarrow> no_leak obs \<and> (ssh_error e \<or> \<not> catches OSError e
          \<and> obs = [CreateConnection (tgt_host tgt) (tgt_port tgt) timeout (Inl e)]))"
proof -
  obtain q s1 where q: "ssh_connect L sha timeout tgt account credential s = (q, s1)" by fastforce
  from ssh_connect_run [OF q assms(2)] obtain xs where x: "trace s1 = trace s @ xs"
    "connect_spec sha timeout tgt account credential q xs" by blast
  show ?thesis
  proof (cases q)
    case (Inl e)
    with assms(1) q x show ?thesis by (auto simp: open_session_def bind_apply connect_spec_def)
  next
    case (Inr ts)
    obtain t sock where ts: "ts = (t, sock)" by fastforce
    let ?c = "\<lparr>vc_transport = t, vc_socket = sock, vc_closed = False\<rparr>"
    let ?s = "s1\<lparr>bs_connection := Some ?c\<rparr>"
    obtain a s2 where a: "channel_open L ''xterm'' 80 24 ?s = (a, s2)" by fastforce
    have bc: "bs_connection ?s = Some ?c" "\<not> vc_closed ?c" by simp_all
    from channel_open_run [OF a bc assms(2)] obtain ys w where y:
      "s2 = ?s\<lparr>world := w, trace := trace ?s @ ys\<rparr>" "case a of
        Inr h \<Rightarrow> ys = [OpenChannel t (Inr h), GetPty h ''xterm'' 80 24 (Inr ()), InvokeShell h (Inr ())]
      | Inl e \<Rightarrow> ssh_error e \<and> is_exception e \<and> no_password ys \<and> no_leak ys"
      unfolding connection.select_convs by blast
    from x(2) Inr ts obtain k p where k: "verify_pinned_host_key sha tgt k = Inr ()"
      "xs = [CreateConnection (tgt_host tgt) (tgt_port tgt) timeout (Inr sock),
         NewTransport sock ssh_disabled_algorithms (Inr t), StartClient t timeout (Inr ()),
         ServerKey t (Inr k), AuthPassword t (acc_username account) p (Inr ()),
         IsAuthenticated t (Inr True)]" "password_guarded sha tgt account credential xs"
      by (auto simp: connect_spec_def)
    show ?thesis
    proof (cases a)
      case (Inl e)
      with y have bs: "bs_connection s2 = Some ?c" "is_exception e" by simp_all
      obtain b s3 where b: "connection_close L s2 = (b, s3)" by fastforce
      have nc: "\<not> vc_closed ?c" by simp
      from connection_close_run [OF b bs(1) nc] obtain u v w' where
        s3: "s3 = s2\<lparr>bs_connection := Some (?c\<lparr>vc_closed := True\<rparr>), world := w',
          trace := trace s2 @ [CloseTransport t u, CloseSocket sock v]\<rparr>"
        "\<forall>e. b = Inl e \<longrightarrow> is_exception e"
        using assms(2) unfolding connection.select_convs by blast
      from s3(2) b have "quietly (connection_close L) s2 = (Inr (), s3)"
        by (cases b) (auto simp: quietly_def try_except_def)
      with assms(1) q \<open>q = Inr ts\<close> ts a Inl bs(2) have "r = Inl e" "s' = s3"
        by (simp_all add: open_session_def bind_apply seq_apply try_except_def)
      moreover let ?zs = "ys @ [CloseTransport t u, CloseSocket sock v]"
      have "password_guarded sha tgt account credential (xs @ ?zs)"
        using k(3) y(2) Inl by (intro password_guarded_append) auto
      moreover have "trace s3 = trace s @ xs @ ?zs" using s3(1) y(1) x(1) by simp
      moreover have "no_leak (xs @ ?zs)" using k(2) y(2) Inl no_leak_append [of ys "[CloseTransport t u, CloseSocket sock v]"]
        by auto
      ultimately show ?thesis using y(2) Inl by (intro exI [of _ "xs @ ?zs"]) simp
    next
      case (Inr c)
      with assms(1) q \<open>q = Inr ts\<close> ts a have "s' = s2\<lparr>bs_channel := Some \<lparr>sc_channel = c, sc_closed = False\<rparr>, bs_closed := False\<rparr>"
        "r = Inr ()" by (simp_all add: open_session_def bind_apply seq_apply try_except_def)
      moreover have "password_guarded sha tgt account credential (xs @ ys)"
        using k(3) y(2) Inr by (intro password_guarded_append) auto
      ultimately show ?thesis using y Inr x(1) k(1,2)
        by (intro exI [of _ "xs @ ys"]) (auto simp: session_open_def)
    qed
  qed
qed

section \<open>Relaying and closing\<close>

text \<open>
  What a relay uses beside the session's own objects: Paramiko's channel, \<open>select\<close> on the
  two descriptors (the terminal's and the channel's), the clock and the terminal.
\<close>

record ('w, 'h) relay_env =
  re_channel_closed :: "'h \<Rightarrow> ('w, bool) io"
  re_sendall :: "'h \<Rightarrow> bytes \<Rightarrow> ('w, unit) io"
  re_recv :: "'h \<Rightarrow> int \<Rightarrow> ('w, bytes) io"
  re_select :: "rat \<Rightarrow> ('w, bool \<times> bool) io"
  re_monotonic :: "('w, rat) io"
  re_read_input :: "int \<Rightarrow> ('w, bytes) io"
  re_write_output :: "bytes \<Rightarrow> ('w, unit) io"

definition in_world :: "('w, 'a) io \<Rightarrow> ('w, 'h, 'a) broker_io" where
  "in_world m = (\<lambda>s. case m (world s) of (r, w) \<Rightarrow> (r, s\<lparr>world := w\<rparr>))"

definition with_channel :: "('h shell_channel \<Rightarrow> ('w, 'h, 'a) broker_io) \<Rightarrow> ('w, 'h, 'a) broker_io" where
  "with_channel f = (\<lambda>s. case bs_channel s of
       None \<Rightarrow> (Inl (err AttributeError ''_channel''), s)
     | Some c \<Rightarrow> f c s)"

definition channel_is_closed :: "('w, 'h) relay_env \<Rightarrow> ('w, 'h, bool) broker_io" where
  "channel_is_closed E = with_channel (\<lambda>c.
     if sc_closed c then ret True else in_world (re_channel_closed E (sc_channel c)))"

definition channel_send :: "('w, 'h) relay_env \<Rightarrow> bytes \<Rightarrow> ('w, 'h, unit) broker_io" where
  "channel_send E data = with_channel (\<lambda>c. in_world (re_sendall E (sc_channel c) data))"

definition channel_receive :: "('w, 'h) relay_env \<Rightarrow> int \<Rightarrow> ('w, 'h, bytes) broker_io" where
  "channel_receive E n = with_channel (\<lambda>c. in_world (re_recv E (sc_channel c) n))"

definition session_relay_lib :: "('w, 'h) ssh_lib \<Rightarrow> ('w, 'h) relay_env \<Rightarrow> ('w, 'h) brokered relay_lib" where
  "session_relay_lib L E =
     \<lparr>rl_is_closed = channel_is_closed E, rl_monotonic = in_world (re_monotonic E),
      rl_select = (\<lambda>d. in_world (re_select E d)), rl_receive = channel_receive E,
      rl_send = channel_send E, rl_close = channel_close L,
      rl_read_input = (\<lambda>n. in_world (re_read_input E n)),
      rl_write_output = (\<lambda>d. in_world (re_write_output E d))\<rparr>"

text \<open>\<open>ParamikoBrokeredSession.relay\<close>\<close>

definition session_relay ::
  "('w, 'h) ssh_lib \<Rightarrow> ('w, 'h) relay_env \<Rightarrow> int \<Rightarrow> ('w, 'h) brokered \<Rightarrow>
   (relay_outcome res \<times> (('w, 'h) brokered, relay_obs) tstate) option" where
  "session_relay L E max_duration s =
     (if bs_closed s
      then Some (Inl (err SshChannelError ''brokered SSH session is closed''), \<lparr>world = s, trace = []\<rparr>)
      else relay_terminal (session_relay_lib L E) max_duration relay_chunk \<lparr>world = s, trace = []\<rparr>)"

text \<open>A relay leaves the objects alone until it closes the channel.\<close>

definition same_objects :: "('w, 'h) brokered \<Rightarrow> ('w, 'h) brokered \<Rightarrow> bool" where
  "same_objects s s' \<longleftrightarrow> s' = s\<lparr>world := world s'\<rparr>"

lemma session_calls_related: "calls_related same_objects (session_relay_lib L E)"
proof -
  have w: "same_objects s (snd (in_world m s))" for m :: "('a, 'c) io" and s :: "('a, 'b) brokered"
    by (auto simp: same_objects_def in_world_def split: prod.splits)
  have r: "reflp (same_objects :: ('a, 'b) brokered \<Rightarrow> _)"
    by (rule reflpI) (simp add: same_objects_def)
  have t: "transp (same_objects :: ('a, 'b) brokered \<Rightarrow> _)"
    unfolding same_objects_def by (rule transpI) (metis tstate.update_convs(1) brokered.surjective tstate.surjective)
  show ?thesis
    unfolding calls_related_def session_relay_lib_def
    using r t by (auto simp: channel_is_closed_def channel_send_def channel_receive_def with_channel_def
        w reflpD split: option.splits)
qed

lemma channel_close_run:
  assumes "channel_close L s = (r, s')" "bs_channel s = Some \<lparr>sc_channel = c, sc_closed = False\<rparr>"
  shows "\<exists>w. s' = s\<lparr>bs_channel := Some \<lparr>sc_channel = c, sc_closed = True\<rparr>,
    world := w, trace := trace s @ [CloseChannel c r]\<rparr>"
  using assms by (auto simp: channel_close_def perform_eq_iff)

lemma session_close_run:
  assumes "session_close L s = (r, s')" "\<not> bs_closed s"
    "bs_connection s = Some \<lparr>vc_transport = t, vc_socket = sock, vc_closed = False\<rparr>"
    "bs_channel s = Some \<lparr>sc_channel = c, sc_closed = k\<rparr>"
  shows "\<exists>a u v. trace s' = trace s @ (if k then [] else [CloseChannel c a])
      @ [CloseTransport t u, CloseSocket sock v]
    \<and> bs_closed s' \<and> r = (case v of Inl e \<Rightarrow> Inl e
        | Inr _ \<Rightarrow> (case u of Inl e \<Rightarrow> Inl e | Inr _ \<Rightarrow> if k then Inr () else a))"
proof -
  let ?s = "s\<lparr>bs_closed := True\<rparr>"
  obtain a s1 where a: "channel_close L ?s = (a, s1)" by fastforce
  obtain b s2 where b: "connection_close L s1 = (b, s2)" by fastforce
  from assms(1,2) have "try_finally (channel_close L) (connection_close L) ?s = (r, s')"
    by (simp add: session_close_def)
  note f = try_finally_run [OF this a b]
  have s1: "trace s1 = trace s @ (if k then [] else [CloseChannel c a]) \<and> (k \<longrightarrow> a = Inr ())
      \<and> bs_closed s1 \<and> bs_connection s1 = bs_connection s"
  proof (cases k)
    case True
    with a assms(4) show ?thesis by (auto simp: channel_close_def)
  next
    case False
    with channel_close_run [OF a] assms(4) show ?thesis by auto
  qed
  with assms(3) have c: "bs_connection s1 = Some \<lparr>vc_transport = t, vc_socket = sock, vc_closed = False\<rparr>"
    by simp
  have nc: "\<not> vc_closed \<lparr>vc_transport = t, vc_socket = sock, vc_closed = False\<rparr>" by simp
  from connection_close_run [OF b c nc] obtain u v w where s2:
    "s2 = s1\<lparr>bs_connection := Some (\<lparr>vc_transport = t, vc_socket = sock, vc_closed = True\<rparr>), world := w,
      trace := trace s1 @ [CloseTransport t u, CloseSocket sock v]\<rparr>"
    "b = (case v of Inl e \<Rightarrow> Inl e | Inr _ \<Rightarrow> u)" by auto
  have "r = (case v of Inl e \<Rightarrow> Inl e | Inr _ \<Rightarrow> (case u of Inl e \<Rightarrow> Inl e | Inr _ \<Rightarrow> if k then Inr () else a))"
    using f(2) s2(2) s1 by (auto split: sum.splits)
  with f(1) s1 s2(1) show ?thesis
    by (intro exI [of _ a] exI [of _ u] exI [of _ v]) auto
qed

text \<open>
  C24. However a relay ends, closing the session afterwards has closed the channel, the transport
  and the socket exactly once each, in this order and whatever each call does; to close it a second
  time does nothing, and a closed session refuses to relay.
\<close>

theorem session_closed_once:
  assumes "session_open s t sock c" "session_relay L E max_duration s = Some (r, st)"
    "session_close L (world st) = (r', s')"
  shows "(\<exists>a u v. trace s' = trace s @ [CloseChannel c a, CloseTransport t u, CloseSocket sock v])
    \<and> session_close L s' = (Inr (), s')
    \<and> session_relay L E d s' = Some (Inl (err SshChannelError ''brokered SSH session is closed''),
        \<lparr>world = s', trace = []\<rparr>)"
proof -
  let ?con = "\<lparr>vc_transport = t, vc_socket = sock, vc_closed = False\<rparr>"
  from assms(1) have o: "\<not> bs_closed s" "bs_connection s = Some ?con"
    "bs_channel s = Some \<lparr>sc_channel = c, sc_closed = False\<rparr>" by (simp_all add: session_open_def)
  from assms(2) o(1) have "relay_terminal (session_relay_lib L E) max_duration relay_chunk
      \<lparr>world = s, trace = []\<rparr> = Some (r, st)" by (simp add: session_relay_def)
  from relay_terminal_related [OF session_calls_related this]
  have "\<exists>k a. trace (world st) = trace s @ (if k then [CloseChannel c a] else [])
    \<and> \<not> bs_closed (world st) \<and> bs_connection (world st) = Some ?con
    \<and> bs_channel (world st) = Some \<lparr>sc_channel = c, sc_closed = k\<rparr>"
  proof (elim disjE exE conjE)
    assume "same_objects (world \<lparr>world = s, trace = []\<rparr>) (world st)"
    then have st: "world st = s\<lparr>world := world (world st)\<rparr>" by (simp add: same_objects_def)
    show ?thesis by (subst st, subst (2) st, subst (3) st, subst (4) st) (use o in auto)
  next
    fix w v
    assume "same_objects (world \<lparr>world = s, trace = []\<rparr>) w" "rl_close (session_relay_lib L E) w = (v, world st)"
    then have w: "w = s\<lparr>world := world w\<rparr>" and c: "channel_close L w = (v, world st)"
      by (simp_all add: same_objects_def session_relay_lib_def)
    from w have wf: "trace w = trace s" "bs_channel w = bs_channel s" "bs_closed w = bs_closed s"
      "bs_connection w = bs_connection s" by (metis tstate.select_convs tstate.update_convs brokered.select_convs tstate.surjective brokered.surjective)+
    from channel_close_run [OF c] o wf show ?thesis
      by (intro exI [of _ True] exI [of _ v]) auto
  qed
  then obtain k a where st: "trace (world st) = trace s @ (if k then [CloseChannel c a] else [])"
    "\<not> bs_closed (world st)" "bs_connection (world st) = Some ?con"
    "bs_channel (world st) = Some \<lparr>sc_channel = c, sc_closed = k\<rparr>" by blast
  from session_close_run [OF assms(3) st(2-4)] st(1) show ?thesis
    by (cases k) (auto simp: session_close_def session_relay_def)
qed

definition lab_broker_start :: "(unit, nat) brokered" where
  "lab_broker_start = \<lparr>world = (), trace = [], bs_connection = None, bs_channel = None, bs_closed = False\<rparr>"

definition lab_open :: "(unit, nat) brokered" where
  "lab_open = snd (open_session lab_ssh lab_sha 10 ssh_target ssh_account \<lparr>bc_value = [0x70]\<rparr> lab_broker_start)"

lemma lab_open_run:
  "open_session lab_ssh lab_sha 10 ssh_target ssh_account \<lparr>bc_value = [0x70]\<rparr> lab_broker_start = (Inr (), lab_open)"
  "session_open lab_open 2 1 3"
proof -
  have u: "utf8_decode [0x70] = Inr [0x70]" by (simp add: utf8_decode_def)
  have r: "fst (open_session lab_ssh lab_sha 10 ssh_target ssh_account \<lparr>bc_value = [0x70]\<rparr> lab_broker_start) = Inr ()
    \<and> session_open lab_open 2 1 3"
    by (simp add: lab_open_def open_session_def ssh_connect_def negotiate_def check_host_key_def
        check_login_def lab_verify u authenticate_transport_def bind_def seq_def try_except_def
        perform_def lab_ssh_def lab_broker_start_def Let_def channel_open_def open_session_channel_def
        session_open_def)
  then show "open_session lab_ssh lab_sha 10 ssh_target ssh_account \<lparr>bc_value = [0x70]\<rparr> lab_broker_start
      = (Inr (), lab_open)" "session_open lab_open 2 1 3"
    unfolding lab_open_def by (simp_all add: prod_eq_iff)
qed

theorem open_session_safe_witness:
  "\<exists>obs t k c. trace lab_open = obs \<and> ServerKey t (Inr k) \<in> set obs \<and> InvokeShell c (Inr ()) \<in> set obs
     \<and> password_guarded lab_sha ssh_target ssh_account \<lparr>bc_value = [0x70]\<rparr> obs"
  using open_session_safe [OF lab_open_run(1) lab_ssh_exceptions]
  by (auto simp: lab_broker_start_def)

definition lab_relay_env :: "(unit, nat) relay_env" where
  "lab_relay_env = \<lparr>re_channel_closed = (\<lambda>c. ret True), re_sendall = (\<lambda>c d. ret ()),
     re_recv = (\<lambda>c n. ret []), re_select = (\<lambda>d. ret (False, False)), re_monotonic = ret 0,
     re_read_input = (\<lambda>n. ret []), re_write_output = (\<lambda>d. ret ())\<rparr>"

theorem session_closed_once_witness:
  "\<exists>r st r' s' a u v. session_relay lab_ssh lab_relay_env 5 lab_open = Some (r, st)
     \<and> session_close lab_ssh (world st) = (r', s')
     \<and> trace s' = trace lab_open @ [CloseChannel 3 a, CloseTransport 2 u, CloseSocket 1 v]"
proof -
  have "session_relay lab_ssh lab_relay_env 5 lab_open \<noteq> None"
    using lab_open_run(2)
    by (simp add: session_open_def session_relay_def relay_terminal_def session_relay_lib_def perform_def
        in_world_def lab_relay_env_def relay_loop.simps relay_turn_def bind_def channel_is_closed_def
        with_channel_def)
  then obtain r st where r: "session_relay lab_ssh lab_relay_env 5 lab_open = Some (r, st)" by auto
  obtain r' s' where s: "session_close lab_ssh (world st) = (r', s')" by fastforce
  from session_closed_once [OF lab_open_run(2) r s] r s show ?thesis by blast
qed

end
