(* ===== verification/Fresh.thy ===== *)
theory Fresh
  imports Policy_Store Target_Store Account_Store User_Store Vault Audit_Store
begin

text \<open>
  Runs without a fault of the host: what the initializers of the repositories and their stores
  of a record compute on given databases. With them whole programs over several stores are
  evaluated step by step.
\<close>

section \<open>Files and connections\<close>

definition set_db :: "path \<Rightarrow> database \<Rightarrow> dbhost \<Rightarrow> dbhost" where
  "set_db p d h = h\<lparr>h_files := (h_files h)(p \<mapsto> Regular 0x180 (Db d))\<rparr>"

definition quiet_db :: "dbhost \<Rightarrow> path \<Rightarrow> database \<Rightarrow> bool" where
  "quiet_db h p d \<longleftrightarrow> h_faults h = [] \<and> h_files h p = Some (Regular 0x180 (Db d))"

lemma set_db_quiet [simp]: "h_faults h = [] \<Longrightarrow> quiet_db (set_db p d h) p d"
  "h_faults (set_db p d h) = h_faults h" "h_entropy (set_db p d h) = h_entropy h"
  "p \<noteq> q \<Longrightarrow> quiet_db (set_db p d h) q d' = quiet_db h q d'"
  "p \<noteq> q \<Longrightarrow> h_files (set_db p d h) q = h_files h q"
  "h_umask (set_db p d h) = h_umask h" "h_chunks (set_db p d h) = h_chunks h"
  by (simp_all add: set_db_def quiet_db_def)

lemma ensure_fresh:
  assumes "h_faults h = []" "h_files h p = None" "parent_ok h p"
  shows "ensure_owner_only_database_file p h
    = (Inr (), h\<lparr>h_files := (h_files h)(p \<mapsto> Regular 0x180 (Bytes []))\<rparr>)"
  using assms
  by (simp add: ensure_owner_only_database_file_def try_except_def bind_apply seq_apply os_create_def
      secure_descriptor_def try_finally_def finally_with_def os_fstat_def os_fchmod_def put_node_def
      close_quietly_def os_close_def)

lemma ensure_regular:
  assumes "h_faults h = []" "h_files h p = Some (Regular m c)"
  shows "ensure_owner_only_database_file p h
    = (Inr (), h\<lparr>h_files := (h_files h)(p \<mapsto> Regular 0x180 c)\<rparr>)"
  using assms
  by (simp add: ensure_owner_only_database_file_def try_except_def bind_apply os_open_nofollow_def
      seq_apply os_create_def secure_descriptor_def try_finally_def finally_with_def os_fstat_def
      os_fchmod_def put_node_def close_quietly_def os_close_def)

lemma with_db_quiet:
  assumes "h_faults h = []" "h_files h p = Some (Regular 0x180 c)" "load_content c = Inr d" "d' \<noteq> empty_db"
    "f \<lparr>c_db = d, c_faults = []\<rparr> = (Inr x, \<lparr>c_db = d', c_faults = []\<rparr>)"
  shows "with_db keep p f h = (Inr x, set_db p d' h)"
proof -
  have "load_content c = Inr d' \<Longrightarrow> c = Db d'" using assms(4) by (cases c) (auto split: if_splits)
  then have "save_db p d' h = set_db p d' h"
    using assms(2) by (auto simp: save_db_def set_db_def put_node_def fun_upd_idem)
  with assms show ?thesis
    by (simp add: with_db_def bind_apply open_db_def follow_regular set_db_def)
qed

text \<open>The database an initializer starts from\<close>

definition base_db :: "dbhost \<Rightarrow> path \<Rightarrow> database \<Rightarrow> bool" where
  "base_db h p d \<longleftrightarrow> h_faults h = []
     \<and> (h_files h p = None \<and> parent_ok h p \<and> d = empty_db \<or> quiet_db h p d)"

lemma ensure_base:
  assumes "base_db h p d"
  obtains c where "ensure_owner_only_database_file p h
      = (Inr (), h\<lparr>h_files := (h_files h)(p \<mapsto> Regular 0x180 c)\<rparr>)" "load_content c = Inr d"
  using assms ensure_fresh [of h p] ensure_regular [of h p]
  by (auto simp: base_db_def quiet_db_def)

lemma set_db_files [simp]: "set_db p d (h\<lparr>h_files := (h_files h)(p \<mapsto> n)\<rparr>) = set_db p d h"
  by (simp add: set_db_def)

lemma base_db_set_db [simp]:
  "h_faults h = [] \<Longrightarrow> base_db (set_db p d h) p d"
  "p \<noteq> q \<Longrightarrow> p \<noteq> butlast q \<Longrightarrow> base_db (set_db p d h) q d' = base_db h q d'"
  by (auto simp: base_db_def set_db_def quiet_db_def parent_ok_def)

lemma base_db_other: "base_db h q d' \<Longrightarrow> p \<noteq> q \<Longrightarrow> p \<noteq> butlast q \<Longrightarrow> base_db (set_db p d h) q d'"
  by simp

lemma base_db_same_files: "same_files h h' \<Longrightarrow> h_faults h = [] \<Longrightarrow> h_faults h' = [] \<Longrightarrow>
    base_db h' p d = base_db h p d"
  by (simp add: base_db_def quiet_db_def same_files_def parent_ok_def)

lemma key_of_set_db [simp]: "p \<noteq> q \<Longrightarrow> key_of (set_db p d h) q = key_of h q"
  by (simp add: key_of_def)

lemma follow_no_link:
  assumes "\<forall>q. fs p \<noteq> Some (Symlink q)"
  shows "follow max_links fs p = Inr p"
  using assms by (simp add: max_links_def numeral_eq_Suc split: option.splits node.splits)

lemma init_table_fresh:
  assumes "base_db h p d" "map_of (db_tables d) n = None" "\<forall>(n, ty, x) \<in> set cols. upper ty = ty"
  shows "init_table cls unsupported failed n cols unique p h
    = (Inr (), set_db p (d\<lparr>db_tables := db_tables d @ [(n, create cols unique)]\<rparr>) h)"
proof -
  from ensure_base [OF assms(1)] obtain c where c: "ensure_owner_only_database_file p h
      = (Inr (), h\<lparr>h_files := (h_files h)(p \<mapsto> Regular 0x180 c)\<rparr>)" "load_content c = Inr d" .
  let ?h = "h\<lparr>h_files := (h_files h)(p \<mapsto> Regular 0x180 c)\<rparr>"
  let ?f = "seq (create_table_if_absent n (create cols unique))
           (bind (pragma_table_info n) (\<lambda>definition'.
              lift (raise_if (definition' \<noteq> cols) (err cls unsupported))))"
  let ?d = "d\<lparr>db_tables := db_tables d @ [(n, create cols unique)]\<rparr>"
  have "?f \<lparr>c_db = d, c_faults = []\<rparr> = (Inr (), \<lparr>c_db = ?d, c_faults = []\<rparr>)"
    using assms(2) table_info_made [OF assms(3)]
    by (simp add: seq_apply bind_apply create_table_if_absent_def pragma_table_info_def create_made map_add_def raise_if_def)
  moreover have "?d \<noteq> empty_db" by (cases d) (simp add: empty_db_def)
  moreover have "h_faults ?h = []" using assms(1) by (simp add: base_db_def)
  ultimately have "with_db True p ?f ?h = (Inr (), set_db p ?d ?h)"
    using c(2) by (intro with_db_quiet [where c = c and d = d]) simp_all
  with c show ?thesis by (simp add: init_table_def try_except_def seq_apply connection_def)
qed

lemma init_versioned_fresh:
  assumes "base_db h p d" "map_of (db_tables d) n = None" "db_version d = 0"
    "create' = seq (create_table n t) (set_user_version v)"
  shows "init_versioned cls unsupported failed n validate create' p h
    = (Inr (), set_db p \<lparr>db_version = v, db_tables = db_tables d @ [(n, t)]\<rparr> h)"
proof -
  from ensure_base [OF assms(1)] obtain c where c: "ensure_owner_only_database_file p h
      = (Inr (), h\<lparr>h_files := (h_files h)(p \<mapsto> Regular 0x180 c)\<rparr>)" "load_content c = Inr d" .
  let ?h = "h\<lparr>h_files := (h_files h)(p \<mapsto> Regular 0x180 c)\<rparr>"
  let ?f = "bind (seq (execute (\<lambda>db. (Inr (), db)))
           (bind pragma_user_version (\<lambda>version.
            bind (table_exists n) (\<lambda>exists.
              if exists then validate version
              else if version = 0 then create' else raise unsupported)))) (\<lambda>x. seq commit (ret x))"
  let ?d = "\<lparr>db_version = v, db_tables = db_tables d @ [(n, t)]\<rparr>"
  have "?f \<lparr>c_db = d, c_faults = []\<rparr> = (Inr (), \<lparr>c_db = ?d, c_faults = []\<rparr>)"
    using assms(2-4)
    by (simp add: seq_apply bind_apply pragma_user_version_def table_exists_def create_table_def
        set_user_version_def commit_def)
  moreover have "?d \<noteq> empty_db" by (simp add: empty_db_def)
  moreover have "h_faults ?h = []" using assms(1) by (simp add: base_db_def)
  ultimately have "with_db False p ?f ?h = (Inr (), set_db p ?d ?h)"
    using c(2) by (intro with_db_quiet [where c = c and d = d]) simp_all
  with c show ?thesis by (simp add: init_versioned_def try_except_def seq_apply transaction_def)
qed

section \<open>The stores\<close>

lemma policy_init_fresh: "base_db h p d \<Longrightarrow> map_of (db_tables d) policies_table = None \<Longrightarrow>
    policy_init p h = (Inr (), set_db p (d\<lparr>db_tables := db_tables d
      @ [(policies_table, made policy_schema [[lit ''id'']] [])]\<rparr>) h)"
  unfolding policy_init_def create_made [symmetric]
  by (rule init_table_fresh) (simp_all add: policy_schema_def upper_def lit_def)

lemma target_init_fresh: "base_db h p d \<Longrightarrow> map_of (db_tables d) targets_table = None \<Longrightarrow>
    target_init p h = (Inr (), set_db p (d\<lparr>db_tables := db_tables d
      @ [(targets_table, made target_schema [[lit ''id'']] [])]\<rparr>) h)"
  unfolding target_init_def create_made [symmetric]
  by (rule init_table_fresh) (simp_all add: target_schema_def upper_def lit_def)

lemma account_init_fresh: "base_db h p d \<Longrightarrow> map_of (db_tables d) accounts_table = None \<Longrightarrow>
    account_init p h = (Inr (), set_db p (d\<lparr>db_tables := db_tables d
      @ [(accounts_table, made account_schema [[lit ''id'']] [])]\<rparr>) h)"
  unfolding account_init_def create_made [symmetric]
  by (rule init_table_fresh) (simp_all add: account_schema_def upper_def lit_def)

lemma user_init_fresh: "base_db h p empty_db \<Longrightarrow>
    user_init p h = (Inr (), set_db p \<lparr>db_version = 1,
      db_tables = [(users_table, made user_schema user_unique [])]\<rparr> h)"
  unfolding user_init_def create_made [symmetric]
  by (subst init_versioned_fresh [where d = empty_db, OF _ _ _ user_create_schema_def])
    (simp_all add: empty_db_def)

lemma vault_init_fresh: "base_db h p empty_db \<Longrightarrow>
    vault_init p h = (Inr (), set_db p \<lparr>db_version = 1,
      db_tables = [(vault_table, made vault_schema [[lit ''id'']] [])]\<rparr> h)"
  unfolding vault_init_def create_made [symmetric]
  by (subst init_versioned_fresh [where d = empty_db, OF _ _ _ vault_create_schema_def])
    (simp_all add: empty_db_def)

lemma audit_init_fresh: "base_db h p empty_db \<Longrightarrow>
    audit_init p h = (Inr (), set_db p \<lparr>db_version = 2,
      db_tables = [(audit_table, made audit_schema audit_unique [])]\<rparr> h)"
  unfolding audit_init_def create_made [symmetric]
  by (subst init_versioned_fresh [where d = empty_db, OF _ _ _ audit_create_schema_def])
    (simp_all add: empty_db_def)

lemma set_db_same: "quiet_db h p d \<Longrightarrow> set_db p d h = h"
  by (simp add: set_db_def quiet_db_def fun_upd_idem)

lemma audit_init_existing:
  assumes "quiet_db h p d" "db_version d = 2"
    "map_of (db_tables d) audit_table = Some (made audit_schema audit_unique rows)"
  shows "audit_init p h = (Inr (), h)"
proof -
  have f: "h_faults h = []" "h_files h p = Some (Regular 0x180 (Db d))"
    using assms(1) by (simp_all add: quiet_db_def)
  have e: "ensure_owner_only_database_file p h = (Inr (), h)"
    using ensure_regular [OF f] f by (simp add: fun_upd_idem)
  let ?f = "bind (seq (execute (\<lambda>db. (Inr (), db)))
           (bind pragma_user_version (\<lambda>version.
            bind (table_exists audit_table) (\<lambda>exists.
              if exists then audit_validate_schema version
              else if version = 0 then audit_create_schema else raise unsupported_audit)))) (\<lambda>x. seq commit (ret x))"
  have "map fst (table_info (made audit_schema audit_unique rows)) = audit_columns"
    by (subst table_info_made) (simp_all add: audit_schema_def audit_columns_def upper_def lit_def)
  then have "?f \<lparr>c_db = d, c_faults = []\<rparr> = (Inr (), \<lparr>c_db = d, c_faults = []\<rparr>)"
    using assms(2,3)
    by (simp add: seq_apply bind_apply pragma_user_version_def table_exists_def audit_validate_schema_def
        pragma_table_info_def raise_if_def commit_def)
  moreover have "d \<noteq> empty_db" using assms(2) by (auto simp: empty_db_def)
  ultimately have "with_db False p ?f h = (Inr (), set_db p d h)"
    using f by (intro with_db_quiet [where c = "Db d" and d = d]) simp_all
  with e set_db_same [OF assms(1)] show ?thesis
    by (simp add: audit_init_def init_versioned_def try_except_def seq_apply transaction_def)
qed

section \<open>Keys\<close>

lemma get_key_works:
  assumes "key_of h p = Some k" "h_faults h = []"
  obtains h' where "get_key p h = (Inr k, h')" "same_files h h'" "h_faults h' = []"
proof -
  obtain r h' where r: "get_key p h = (r, h')" by fastforce
  from get_key_run [OF r] assms get_key_quiet [OF assms(2), of p] r that show thesis
    by (cases r) auto
qed

lemma same_files_key_of: "same_files h h' \<Longrightarrow> key_of h' p = key_of h p"
  by (simp add: same_files_def key_of_def)

lemma load_key_works:
  assumes "key_of h q = Some k" "length k = 32" "h_faults h = []"
  obtains h' where "audit_load_key (get_key q) h = (Inr k, h')" "same_files h h'" "h_faults h' = []"
proof -
  from get_key_works [OF assms(1,3)] obtain h' where "get_key q h = (Inr k, h')" "same_files h h'" "h_faults h' = []" .
  with assms(2) that show thesis by (simp add: audit_load_key_def bind_apply try_except_def)
qed

end
