(* ===== verification/Authentication.thy ===== *)
theory Authentication
  imports User_Store
begin

text \<open>
  \<open>AuthenticationService\<close> (\<open>application/authentication_service.py\<close>) over its two ports, the user
  repository and the password hasher. Every call of a port is recorded with its outcome, so
  that what an observer of the calls can tell is a property of the trace.
\<close>

section \<open>The service\<close>

record 'w auth_ports =
  ap_find :: "pystr \<Rightarrow> ('w, stored_user_authentication option) io"
  ap_hash :: "pystr \<Rightarrow> ('w, pystr) io"
  ap_verify :: "pystr \<Rightarrow> pystr \<Rightarrow> ('w, bool) io"

datatype auth_obs =
    FindUser pystr "stored_user_authentication option res"
  | Verify pystr pystr "bool res"

type_synonym 'w auth_state = "('w, auth_obs) tstate"

definition authentication_failed :: exn where
  "authentication_failed = err AuthenticationFailedError ''authentication failed''"

definition find_user :: "'w auth_ports \<Rightarrow> pystr \<Rightarrow> ('w auth_state, stored_user_authentication option) io" where
  "find_user A n = perform (ap_find A n) (FindUser n)"

definition check_password :: "'w auth_ports \<Rightarrow> pystr \<Rightarrow> pystr \<Rightarrow> ('w auth_state, bool) io" where
  "check_password A password h = perform (ap_verify A password h) (Verify password h)"

text \<open>\<open>__init__\<close>: the dummy hash is the hash of a random text that is not kept.\<close>

definition mk_authentication :: "'w auth_ports \<Rightarrow> ('w, pystr) io \<Rightarrow> ('w, pystr) io" where
  "mk_authentication A token_urlsafe = bind token_urlsafe (ap_hash A)"

definition verify_dummy :: "'w auth_ports \<Rightarrow> pystr \<Rightarrow> pystr \<Rightarrow> ('w auth_state, unit) io" where
  "verify_dummy A dummy password =
     try_except (bind (check_password A password dummy) (\<lambda>_. ret ())) is_exception (\<lambda>_. ret ())"

text \<open>The part after the lookup.\<close>

definition decide_authentication ::
  "'w auth_ports \<Rightarrow> pystr \<Rightarrow> pystr \<Rightarrow> stored_user_authentication option \<Rightarrow>
   ('w auth_state, authenticated_principal) io" where
  "decide_authentication A dummy password stored =
     bind (try_except
             (check_password A password (case stored of None \<Rightarrow> dummy | Some s \<Rightarrow> sua_password_hash s))
             is_exception (\<lambda>_. raise authentication_failed))
       (\<lambda>password_matches. case stored of
          None \<Rightarrow> raise authentication_failed
        | Some s \<Rightarrow>
            if \<not> usr_is_active (sua_user s) \<or> \<not> password_matches then raise authentication_failed
            else lift (catchR (mk_principal (usr_id (sua_user s)) (usr_username (sua_user s)))
                         (catches_any [TypeError, ValueError]) (\<lambda>_. Inl authentication_failed)))"

definition authenticate ::
  "'w auth_ports \<Rightarrow> pystr \<Rightarrow> pystr \<Rightarrow> pystr \<Rightarrow> ('w auth_state, authenticated_principal) io" where
  "authenticate A dummy username password =
     bind (try_except (find_user A username) is_exception
             (\<lambda>_. seq (verify_dummy A dummy password) (raise authentication_failed)))
       (decide_authentication A dummy password)"

section \<open>What an attempt does\<close>

lemmas authentication_defs = authenticate_def decide_authentication_def verify_dummy_def find_user_def
  check_password_def

text \<open>The password checks of a trace.\<close>

fun is_verify :: "auth_obs \<Rightarrow> bool" where
  "is_verify (Verify p h r) = True"
| "is_verify _ = False"

definition verifications :: "auth_obs list \<Rightarrow> auth_obs list" where
  "verifications = filter is_verify"

lemma mk_principal_cases:
  "catchR (mk_principal i n) (catches_any [TypeError, ValueError]) (\<lambda>_. Inl authentication_failed)
     = (if blank i \<or> blank n then Inl authentication_failed
        else Inr \<lparr>pr_user_id = i, pr_username = n\<rparr>)"
  by (simp add: mk_principal_def reject_def raise_if_def)

text \<open>The calls of an attempt, in order, and what they make of it.\<close>

definition found :: "'w auth_ports \<Rightarrow> pystr \<Rightarrow> stored_user_authentication option res \<Rightarrow> bool" where
  "found A n q \<longleftrightarrow> (\<exists>w. fst (ap_find A n w) = q)"

definition checked :: "'w auth_ports \<Rightarrow> pystr \<Rightarrow> pystr \<Rightarrow> bool res \<Rightarrow> bool" where
  "checked A p h v \<longleftrightarrow> (\<exists>w. fst (ap_verify A p h w) = v)"

lemma authenticate_run:
  assumes "authenticate A dummy username password s = (r, s')"
  shows "(\<exists>e v. is_exception e \<and> found A username (Inl e) \<and> checked A password dummy v
        \<and> trace s' = trace s @ [FindUser username (Inl e), Verify password dummy v]
        \<and> (case v of Inl e' \<Rightarrow> if is_exception e' then r = Inl authentication_failed else r = Inl e'
           | Inr _ \<Rightarrow> r = Inl authentication_failed))
    \<or> (\<exists>e. \<not> is_exception e \<and> found A username (Inl e)
        \<and> trace s' = trace s @ [FindUser username (Inl e)] \<and> r = Inl e)
    \<or> (\<exists>stored v h. h = (case stored of None \<Rightarrow> dummy | Some x \<Rightarrow> sua_password_hash x)
        \<and> found A username (Inr stored) \<and> checked A password h v
        \<and> trace s' = trace s @ [FindUser username (Inr stored), Verify password h v]
        \<and> (case v of Inl e \<Rightarrow> r = (if is_exception e then Inl authentication_failed else Inl e)
           | Inr ok \<Rightarrow> (case stored of None \<Rightarrow> r = Inl authentication_failed
               | Some x \<Rightarrow> let u = sua_user x in r =
                   (if usr_is_active u \<and> ok \<and> \<not> blank (usr_id u) \<and> \<not> blank (usr_username u)
                    then Inr \<lparr>pr_user_id = usr_id u, pr_username = usr_username u\<rparr>
                    else Inl authentication_failed))))"
proof -
  obtain q w1 where q: "ap_find A username (world s) = (q, w1)" by fastforce
  then have fq: "found A username q" by (auto simp: found_def intro: exI [of _ "world s"])
  have cv: "checked A password h (fst (ap_verify A password h w1))" for h by (auto simp: checked_def)
  let ?s1 = "s\<lparr>world := w1, trace := trace s @ [FindUser username q]\<rparr>"
  have f: "find_user A username s = (q, ?s1)" using q by (simp add: find_user_def perform_def)
  have check: "check_password A password h ?s1 = (fst (ap_verify A password h w1),
      ?s1\<lparr>world := snd (ap_verify A password h w1),
        trace := trace ?s1 @ [Verify password h (fst (ap_verify A password h w1))]\<rparr>)" for h
    by (simp add: check_password_def perform_def split: prod.splits)
  show ?thesis
  proof (cases q)
    case (Inl e)
    show ?thesis
    proof (cases "is_exception e")
      case True
      with assms f Inl check [of dummy] fq cv [of dummy] show ?thesis
        by (cases "fst (ap_verify A password dummy w1)")
          (auto simp: authenticate_def verify_dummy_def bind_apply seq_apply try_except_def
            split: if_splits)
    next
      case False
      with assms f Inl fq show ?thesis by (auto simp: authenticate_def bind_apply try_except_def)
    qed
  next
    case (Inr stored)
    let ?h = "case stored of None \<Rightarrow> dummy | Some x \<Rightarrow> sua_password_hash x"
    from assms f Inr have d: "decide_authentication A dummy password stored ?s1 = (r, s')"
      by (simp add: authenticate_def bind_apply try_except_def)
    show ?thesis
    proof (cases "fst (ap_verify A password ?h w1)")
      case inl: (Inl e)
      with d check [of ?h] have "trace s' = trace s @ [FindUser username (Inr stored), Verify password ?h (Inl e)]"
        "r = (if is_exception e then Inl authentication_failed else Inl e)"
        using Inr by (auto simp: decide_authentication_def bind_apply try_except_def split: if_splits)
      with fq cv [of ?h] Inr inl show ?thesis
        by (intro disjI2 exI [of _ stored] exI [of _ "Inl e"]) simp
    next
      case inr: (Inr ok)
      with d check [of ?h] have "trace s' = trace s @ [FindUser username (Inr stored), Verify password ?h (Inr ok)]"
        "case stored of None \<Rightarrow> r = Inl authentication_failed
         | Some x \<Rightarrow> let u = sua_user x in r =
                   (if usr_is_active u \<and> ok \<and> \<not> blank (usr_id u) \<and> \<not> blank (usr_username u)
                    then Inr \<lparr>pr_user_id = usr_id u, pr_username = usr_username u\<rparr>
                    else Inl authentication_failed)"
        using Inr by (cases stored; auto simp: decide_authentication_def bind_apply try_except_def
            mk_principal_cases Let_def split: if_splits)+
      with fq cv [of ?h] Inr inr show ?thesis
        by (intro disjI2 exI [of _ stored] exI [of _ "Inr ok"]) simp
    qed
  qed
qed

text \<open>The ports raise no \<open>KeyboardInterrupt\<close>.\<close>

definition raises_exceptions :: "'w auth_ports \<Rightarrow> bool" where
  "raises_exceptions A \<longleftrightarrow> (\<forall>n w e. fst (ap_find A n w) = Inl e \<longrightarrow> is_exception e)
     \<and> (\<forall>p h w e. fst (ap_verify A p h w) = Inl e \<longrightarrow> is_exception e)"

lemma raises_exceptionsD:
  "raises_exceptions A \<Longrightarrow> found A n (Inl e) \<Longrightarrow> is_exception e"
  "raises_exceptions A \<Longrightarrow> checked A p h (Inl e) \<Longrightarrow> is_exception e"
  by (auto simp: raises_exceptions_def found_def checked_def)

text \<open>
  C20. Authentication is sound and neutral. Whatever the ports answer, an attempt makes one
  lookup of the name and then exactly one password check, against the stored hash or, for an
  unknown name or a failing repository, against the dummy hash; it gives a principal only for an
  active user whose stored hash the password matched, with that user's id and name; and every
  refusal is the same error with the same text.
\<close>

theorem authenticate_sound_neutral:
  assumes "raises_exceptions A" "authenticate A dummy username password s = (r, s')"
  shows "\<exists>q h v. trace s' = trace s @ [FindUser username q, Verify password h v]
    \<and> h = (case q of Inr (Some x) \<Rightarrow> sua_password_hash x | _ \<Rightarrow> dummy)
    \<and> (case r of
         Inr p \<Rightarrow> \<exists>x. q = Inr (Some x) \<and> v = Inr True \<and> usr_is_active (sua_user x)
          \<and> p = \<lparr>pr_user_id = usr_id (sua_user x), pr_username = usr_username (sua_user x)\<rparr>
       | Inl e \<Rightarrow> e = authentication_failed)"
  using authenticate_run [OF assms(2)]
proof (elim disjE exE conjE, goal_cases)
  case (1 e v)
  then have "r = Inl authentication_failed"
    using raises_exceptionsD [OF assms(1)] by (cases v) (auto split: if_splits)
  with 1 show ?case by auto
next
  case (2 e)
  with raises_exceptionsD(1) [OF assms(1)] show ?case by blast
next
  case (3 stored v h)
  then have "case r of
         Inr p \<Rightarrow> \<exists>x. stored = Some x \<and> v = Inr True \<and> usr_is_active (sua_user x)
          \<and> p = \<lparr>pr_user_id = usr_id (sua_user x), pr_username = usr_username (sua_user x)\<rparr>
       | Inl e \<Rightarrow> e = authentication_failed"
    using raises_exceptionsD(2) [OF assms(1)]
    by (cases v; cases stored) (auto simp: Let_def split: if_splits)
  with 3 show ?case
    by (intro exI [of _ "Inr stored"] exI [of _ h] exI [of _ v]) (auto split: sum.splits option.splits)
qed

section \<open>On the repository\<close>

text \<open>The ports as \<open>bootstrap/application.py\<close> wires them.\<close>

definition repository_auth :: "path \<Rightarrow> dbhost argon2 \<Rightarrow> dbhost auth_ports" where
  "repository_auth p lib = \<lparr>ap_find = find_by_username p, ap_hash = hash_password lib,
     ap_verify = verify_password lib\<rparr>"

definition attempt :: "path \<Rightarrow> dbhost argon2 \<Rightarrow> pystr \<Rightarrow> pystr \<Rightarrow> pystr \<Rightarrow> dbhost \<Rightarrow>
    authenticated_principal res" where
  "attempt p lib dummy username password h =
     fst (authenticate (repository_auth p lib) dummy username password \<lparr>world = h, trace = []\<rparr>)"

text \<open>
  C21. End to end: after \<open>create_user\<close> succeeded, the created name with the same password
  authenticates exactly if the user is active, and with a password that the hasher refuses it
  fails with the neutral error. The hasher is assumed to accept the password it hashed and to
  refuse others with one of its verification errors.
\<close>

theorem created_user_authenticates:
  assumes "table_at h p users_table = Some (made user_schema user_unique rows)"
    "\<forall>r \<in> set rows. length r = length user_schema" "h_faults h = []"
    "a_hash lib password h = (Inr eh, h)" "\<forall>g. a_verify lib eh password g = (Inr True, g)"
    "list_all encodable (usr_id x)" "list_all encodable (usr_username x)" "list_all encodable eh"
    "create_user p lib x password h = (Inr (), h')"
  shows "attempt p lib dummy (usr_username x) password h' =
      (if usr_is_active x then Inr \<lparr>pr_user_id = usr_id x, pr_username = usr_username x\<rparr>
       else Inl authentication_failed)
    \<and> (\<forall>wrong. (\<forall>g. \<exists>m. a_verify lib eh wrong g = (Inl (err Argon2VerificationError m), g)) \<longrightarrow>
        attempt p lib dummy (usr_username x) wrong h' = Inl authentication_failed)"
proof -
  have rows: "user_rows p h rows" using assms(1,2) by (simp add: table_rows_def)
  have ok: "user_ok x" "user_insert p x eh h = (Inr (), h')" "startswith eh argon2_prefix"
    using assms(4,9) user_serialize_Inr [of x]
    by (cases "user_serialize x"; auto simp: create_user_def hash_password_def user_store_hash_def
        try_except_def bind_apply split: if_splits)+
  have b: "bind_values (user_row x eh) = Inr ()" using assms(6-8) by (simp add: user_row_def)
  note run = user_insert_run [OF rows ok(2)]
  then have h': "user_rows p h' (rows @ [user_row x eh])" "h_faults h' = []"
    using assms(3) by (simp_all add: only_db_def)
  have "rows_where [(Suc 0, SqlText (usr_username x))] rows = []"
    using run by (auto simp: rows_where_def filter_empty_conv)
  then have "user_of rows (usr_username x) = Inr None" using assms(7) by (simp add: user_of_def)
  from user_of_append [OF ok(1,3) b this]
  have of: "user_of (rows @ [user_row x eh]) (usr_username x)
      = Inr (Some \<lparr>sua_user = x, sua_password_hash = eh\<rparr>)" by simp
  obtain r h2 where r: "find_by_username p (usr_username x) h' = (r, h2)" by fastforce
  from find_by_username_run [OF h'(1) r] h'(2) of
  have "r = Inr (Some \<lparr>sua_user = x, sua_password_hash = eh\<rparr>)" by simp
  with r have f: "find_by_username p (usr_username x) h'
      = (Inr (Some \<lparr>sua_user = x, sua_password_hash = eh\<rparr>), h2)" by simp
  have step: "attempt p lib dummy (usr_username x) pw h' =
      (case fst (verify_password lib pw eh h2) of
         Inl e \<Rightarrow> if is_exception e then Inl authentication_failed else Inl e
       | Inr m \<Rightarrow> if usr_is_active x \<and> m then Inr \<lparr>pr_user_id = usr_id x, pr_username = usr_username x\<rparr>
           else Inl authentication_failed)" for pw
    using f ok(1)
    by (auto simp: attempt_def repository_auth_def authenticate_def find_user_def perform_def
        bind_apply try_except_def decide_authentication_def check_password_def mk_principal_cases
        user_ok_def split: prod.splits sum.splits)
  have "fst (verify_password lib password eh h2) = Inr True"
    using assms(5) by (simp add: verify_password_def try_except_def)
  moreover have "fst (verify_password lib wrong eh h2) = Inr False"
    if "\<forall>g. \<exists>m. a_verify lib eh wrong g = (Inl (err Argon2VerificationError m), g)" for wrong
  proof -
    from that obtain m where "a_verify lib eh wrong h2 = (Inl (err Argon2VerificationError m), h2)" by blast
    then show ?thesis by (simp add: verify_password_def try_except_def)
  qed
  ultimately show ?thesis by (simp add: step)
qed

text \<open>Witnesses: the user of \<open>User_Store\<close>, a hasher that knows one password.\<close>

definition strict_argon2 :: "dbhost argon2" where
  "strict_argon2 = \<lparr>a_hash = (\<lambda>_. ret lab_hash), a_verify = (\<lambda>h p.
     if h = lab_hash \<and> p = lit ''pw'' then ret True else raise (err Argon2VerificationError ''mismatch''))\<rparr>"

theorem created_user_authenticates_witness:
  "\<exists>h'. create_user [lit ''u''] strict_argon2 lab_user (lit ''pw'') users_host = (Inr (), h')
     \<and> attempt [lit ''u''] strict_argon2 (lit ''d'') (lit ''alice'') (lit ''pw'') h'
         = Inr \<lparr>pr_user_id = lit ''u1'', pr_username = lit ''alice''\<rparr>
     \<and> attempt [lit ''u''] strict_argon2 (lit ''d'') (lit ''alice'') (lit ''no'') h'
         = Inl authentication_failed"
proof -
  let ?p = "[lit ''u'']"
  have t: "table_at users_host ?p users_table = Some (made user_schema user_unique [])"
    by (simp add: table_at_def db_at_def users_host_def)
  have f: "h_faults users_host = []" by (simp add: users_host_def)
  have hash: "a_hash strict_argon2 (lit ''pw'') users_host = (Inr lab_hash, users_host)"
    "\<forall>g. a_verify strict_argon2 lab_hash (lit ''pw'') g = (Inr True, g)"
    "\<forall>g. \<exists>m. a_verify strict_argon2 lab_hash (lit ''no'') g = (Inl (err Argon2VerificationError m), g)"
    by (simp_all add: strict_argon2_def)
  have ok: "user_ok lab_user" "startswith lab_hash argon2_prefix"
    by (simp_all add: user_ok_def lab_user_def lab_hash_def argon2_prefix_def startswith_def
        blank_iff py_isspace_def lit_def)
  have e: "list_all encodable (usr_id lab_user)" "list_all encodable (usr_username lab_user)"
    "list_all encodable lab_hash"
    by (simp_all add: lab_user_def lab_hash_def encodable_lit)
  obtain q h' where q: "create_user ?p strict_argon2 lab_user (lit ''pw'') users_host = (q, h')" by fastforce
  from q ok hash(1) have ins: "user_insert ?p lab_user lab_hash users_host = (q, h')"
    by (simp add: create_user_def hash_password_def user_store_hash_def try_except_def bind_apply
        user_serialize_Inr [of lab_user, THEN iffD2])
  have "user_rows ?p users_host []" using t by (simp add: table_rows_def)
  from user_insert_run [OF this ins] f e have "q = Inr ()"
    by (auto simp: user_row_def split: sum.splits)
  with q have c: "create_user ?p strict_argon2 lab_user (lit ''pw'') users_host = (Inr (), h')" by simp
  from created_user_authenticates [OF t _ f hash(1,2) e c, of "lit ''d''"] hash(3) c show ?thesis
    by (auto simp: lab_user_def)
qed

theorem authenticate_sound_neutral_witness:
  "\<exists>s' q h v. authenticate \<lparr>ap_find = (\<lambda>n. ret None), ap_hash = (\<lambda>p. ret []), ap_verify = (\<lambda>p h. ret True)\<rparr>
       (lit ''d'') (lit ''bob'') (lit ''pw'') \<lparr>world = (), trace = []\<rparr> = (Inl authentication_failed, s')
     \<and> trace s' = [FindUser (lit ''bob'') q, Verify (lit ''pw'') h v]"
proof -
  let ?A = "\<lparr>ap_find = (\<lambda>n. ret None), ap_hash = (\<lambda>p. ret []), ap_verify = (\<lambda>p h. ret True)\<rparr> :: unit auth_ports"
  have A: "raises_exceptions ?A" by (simp add: raises_exceptions_def)
  obtain r s' where r: "authenticate ?A (lit ''d'') (lit ''bob'') (lit ''pw'') \<lparr>world = (), trace = []\<rparr> = (r, s')"
    by fastforce
  from authenticate_sound_neutral [OF A r] have "\<exists>q h v. trace s' = [FindUser (lit ''bob'') q, Verify (lit ''pw'') h v]"
    by auto
  moreover from r have "r = Inl authentication_failed"
    by (auto simp: authenticate_def find_user_def perform_def bind_apply try_except_def
        decide_authentication_def check_password_def)
  ultimately show ?thesis using r by auto
qed

end
