(* ===== verification/Terminal.thy ===== *)
theory Terminal
  imports Relay "HOL-Library.Sublist"
begin

text \<open>
  The local terminal: \<open>LocalTerminalIO\<close> (\<open>infrastructure/terminal/local_terminal_io.py\<close>) and
  \<open>raw_terminal_mode\<close> (\<open>terminal_mode.py\<close>), and what a relay shows on a screen.
\<close>

section \<open>File descriptors\<close>

text \<open>
  What was written to each descriptor and what can be read from it, how many octets the next
  calls move at most, the attributes of the descriptors that are terminals, and the faults of the
  next calls.
\<close>

record 'a tty =
  tty_shown :: "int \<Rightarrow> bytes"
  tty_input :: "int \<Rightarrow> bytes"
  tty_chunks :: "nat list"
  tty_attrs :: "int \<Rightarrow> 'a option"
  tty_faults :: "bool list"

type_synonym ('a, 'z, 'b) tty_io = "(('a, 'z) tty_scheme, 'b) io"

definition tty_call :: "exn \<Rightarrow> ('a, 'z, 'b) tty_io \<Rightarrow> ('a, 'z, 'b) tty_io" where
  "tty_call e m = (\<lambda>s. case tty_faults s of
       [] \<Rightarrow> m s
     | True # fs \<Rightarrow> (Inl e, s\<lparr>tty_faults := fs\<rparr>)
     | False # fs \<Rightarrow> m (s\<lparr>tty_faults := fs\<rparr>))"

text \<open>\<open>os.write(fd, data)\<close> and \<open>os.read(fd, n)\<close>\<close>

definition chunk_size :: "nat \<Rightarrow> nat list \<Rightarrow> nat" where
  "chunk_size n ks = (case ks of [] \<Rightarrow> n | k # _ \<Rightarrow> min n k)"

definition os_write :: "int \<Rightarrow> bytes \<Rightarrow> ('a, 'z, nat) tty_io" where
  "os_write fd data = tty_call (err OSError ''EIO'') (\<lambda>s.
     let k = chunk_size (length data) (tty_chunks s) in
     (Inr k, s\<lparr>tty_shown := (tty_shown s)(fd := tty_shown s fd @ take k data),
               tty_chunks := tl (tty_chunks s)\<rparr>))"

definition os_read_fd :: "int \<Rightarrow> nat \<Rightarrow> ('a, 'z, bytes) tty_io" where
  "os_read_fd fd n = tty_call (err OSError ''EIO'') (\<lambda>s.
     let k = max 1 (chunk_size n (tty_chunks s)) in
     (Inr (take k (tty_input s fd)), s\<lparr>tty_input := (tty_input s)(fd := drop k (tty_input s fd)),
               tty_chunks := tl (tty_chunks s)\<rparr>))"

section \<open>\<open>LocalTerminalIO\<close>\<close>

record local_terminal =
  lt_input_fd :: int
  lt_output_fd :: int

definition mk_local_terminal :: "int \<Rightarrow> int \<Rightarrow> local_terminal res" where
  "mk_local_terminal input_fd output_fd =
     thenR (reject (input_fd < 0) ''input file descriptor must be nonnegative'')
    (thenR (reject (output_fd < 0) ''output file descriptor must be nonnegative'')
    (Inr \<lparr>lt_input_fd = input_fd, lt_output_fd = output_fd\<rparr>))"

definition read_input :: "local_terminal \<Rightarrow> int \<Rightarrow> ('a, 'z, bytes) tty_io" where
  "read_input t max_bytes =
     seq (lift (reject (max_bytes \<le> 0) ''max_bytes must be positive''))
         (os_read_fd (lt_input_fd t) (nat max_bytes))"

text \<open>The loop of \<open>write_output\<close>; each turn writes something, so it ends.\<close>

definition no_progress :: exn where
  "no_progress = err OSError ''terminal output write made no progress''"

function write_rest :: "int \<Rightarrow> bytes \<Rightarrow> ('a, 'z) tty_scheme \<Rightarrow> unit res \<times> ('a, 'z) tty_scheme" where
  "write_rest fd remaining s =
     (if remaining = [] then (Inr (), s)
      else case os_write fd remaining s of
        (Inl e, s') \<Rightarrow> (Inl e, s')
      | (Inr n, s') \<Rightarrow>
          if n = 0 then (Inl no_progress, s') else write_rest fd (drop n remaining) s')"
  by pat_completeness auto
termination
  by (relation "measure (\<lambda>(fd, remaining, s). length remaining)") auto

declare write_rest.simps [simp del]

definition write_output :: "local_terminal \<Rightarrow> bytes \<Rightarrow> ('a, 'z, unit) tty_io" where
  "write_output t data = write_rest (lt_output_fd t) data"

lemma os_write_run:
  assumes "os_write fd d s = (r, s')"
  shows "\<exists>k. k \<le> length d \<and> tty_shown s' = (tty_shown s)(fd := tty_shown s fd @ take k d)
    \<and> tty_input s' = tty_input s \<and> tty_attrs s' = tty_attrs s
    \<and> (case r of Inl e \<Rightarrow> k = 0 \<and> e = err OSError ''EIO'' | Inr n \<Rightarrow> n = k)"
  using assms
  by (intro exI [of _ "case r of Inl e \<Rightarrow> 0 | Inr n \<Rightarrow> n"])
    (auto simp: os_write_def tty_call_def Let_def chunk_size_def fun_upd_idem split: list.splits bool.splits)

lemma write_rest_run:
  assumes "write_rest fd d s = (r, s')"
  shows "\<exists>k. k \<le> length d \<and> tty_shown s' = (tty_shown s)(fd := tty_shown s fd @ take k d)
    \<and> tty_input s' = tty_input s \<and> tty_attrs s' = tty_attrs s
    \<and> (case r of Inl e \<Rightarrow> exn_class e = OSError | Inr _ \<Rightarrow> k = length d)"
  using assms
proof (induction fd d s arbitrary: r s' rule: write_rest.induct)
  case (1 fd d s)
  show ?case
  proof (cases "d = []")
    case True
    with 1(2) have "r = Inr ()" "s' = s" by (simp_all add: write_rest.simps)
    with True show ?thesis by simp
  next
    case False
    obtain q s1 where q: "os_write fd d s = (q, s1)" by fastforce
    from os_write_run [OF q] obtain k where k: "k \<le> length d"
      "tty_shown s1 = (tty_shown s)(fd := tty_shown s fd @ take k d)" "tty_input s1 = tty_input s"
      "tty_attrs s1 = tty_attrs s" "case q of Inl e \<Rightarrow> k = 0 \<and> e = err OSError ''EIO'' | Inr n \<Rightarrow> n = k"
      by blast
    show ?thesis
    proof (cases "\<exists>n. q = Inr n \<and> n \<noteq> 0")
      case False
      with 1(2) q k \<open>d \<noteq> []\<close> show ?thesis
        by (intro exI [of _ k]) (auto simp: write_rest.simps no_progress_def split: sum.splits)
    next
      case True
      with k have n: "q = Inr k" "k \<noteq> 0" by auto
      with 1(2) q \<open>d \<noteq> []\<close> have w: "write_rest fd (drop k d) s1 = (r, s')"
        by (subst (asm) write_rest.simps) simp
      from 1(1) [OF \<open>d \<noteq> []\<close> q [symmetric] n(1) n(2) w] obtain j where j: "j \<le> length (drop k d)"
        "tty_shown s' = (tty_shown s1)(fd := tty_shown s1 fd @ take j (drop k d))"
        "tty_input s' = tty_input s1" "tty_attrs s' = tty_attrs s1"
        "case r of Inl e \<Rightarrow> exn_class e = OSError | Inr _ \<Rightarrow> j = length (drop k d)" by blast
      have "take (k + j) d = take k d @ take j (drop k d)" by (simp add: take_add)
      with j k show ?thesis by (intro exI [of _ "k + j"]) (auto split: sum.splits)
    qed
  qed
qed

text \<open>
  \<open>write_output\<close> loses and repeats nothing, however the system cuts the writes: when it
  returns, exactly the data has been added to the output descriptor, and when it raises, an
  \<open>OSError\<close>, a prefix of it; no other descriptor is written.
\<close>

theorem write_output_exact:
  assumes "write_output t data s = (r, s')"
  shows "\<exists>p. prefix p data
    \<and> tty_shown s' = (tty_shown s)(lt_output_fd t := tty_shown s (lt_output_fd t) @ p)
    \<and> (case r of Inl e \<Rightarrow> exn_class e = OSError | Inr _ \<Rightarrow> p = data)"
proof -
  from write_rest_run [OF assms [unfolded write_output_def]] obtain k where k: "k \<le> length data"
    "tty_shown s' = (tty_shown s)(lt_output_fd t := tty_shown s (lt_output_fd t) @ take k data)"
    "case r of Inl e \<Rightarrow> exn_class e = OSError | Inr _ \<Rightarrow> k = length data" by blast
  then show ?thesis
    by (intro exI [of _ "take k data"]) (auto simp: take_is_prefix split: sum.splits)
qed

definition lab_tty :: "nat tty" where
  "lab_tty = \<lparr>tty_shown = (\<lambda>fd. []), tty_input = (\<lambda>fd. [7, 8]), tty_chunks = [2, 1, 0],
     tty_attrs = (\<lambda>fd. if fd = 0 then Some 5 else None), tty_faults = []\<rparr>"

theorem write_output_exact_witness:
  "\<exists>s'. write_output \<lparr>lt_input_fd = 0, lt_output_fd = 1\<rparr> [1, 2, 3, 4] lab_tty = (Inl no_progress, s')
     \<and> (\<exists>p. prefix p [1, 2, 3, 4] \<and> tty_shown s' = (\<lambda>fd. [])(1 := p))"
proof -
  obtain r s' where w: "write_output \<lparr>lt_input_fd = 0, lt_output_fd = 1\<rparr> [1, 2, 3, 4] lab_tty = (r, s')"
    by fastforce
  then have "r = Inl no_progress"
    by (simp add: write_output_def lab_tty_def write_rest.simps os_write_def tty_call_def chunk_size_def Let_def)
  with w write_output_exact [OF w] show ?thesis by (auto simp: lab_tty_def)
qed

section \<open>\<open>raw_terminal_mode\<close>\<close>

text \<open>\<open>termios\<close> and \<open>tty.setraw\<close>; \<open>raw\<close> is \<open>cfmakeraw\<close>.\<close>

datatype when_to_set = TCSANOW | TCSADRAIN

definition termios_error :: exn where
  "termios_error = err OtherException ''termios.error''"

definition tcgetattr :: "int \<Rightarrow> ('a, 'z, 'a) tty_io" where
  "tcgetattr fd = tty_call termios_error (\<lambda>s. case tty_attrs s fd of
       None \<Rightarrow> (Inl termios_error, s) | Some a \<Rightarrow> (Inr a, s))"

definition tcsetattr :: "int \<Rightarrow> when_to_set \<Rightarrow> 'a \<Rightarrow> ('a, 'z, unit) tty_io" where
  "tcsetattr fd when a = tty_call termios_error (\<lambda>s. case tty_attrs s fd of
       None \<Rightarrow> (Inl termios_error, s)
     | Some _ \<Rightarrow> (Inr (), s\<lparr>tty_attrs := (tty_attrs s)(fd \<mapsto> a)\<rparr>))"

definition tty_setraw :: "('a \<Rightarrow> 'a) \<Rightarrow> int \<Rightarrow> when_to_set \<Rightarrow> ('a, 'z, unit) tty_io" where
  "tty_setraw raw fd when = bind (tcgetattr fd) (\<lambda>a. tcsetattr fd when (raw a))"

text \<open>\<open>with raw_terminal_mode(fd): body\<close>; \<open>except BaseException\<close> catches everything.\<close>

definition with_raw_terminal :: "('a \<Rightarrow> 'a) \<Rightarrow> int \<Rightarrow> ('a, 'z, 'b) tty_io \<Rightarrow> ('a, 'z, 'b) tty_io" where
  "with_raw_terminal raw fd body =
     seq (lift (reject (fd < 0) ''terminal file descriptor must be nonnegative''))
    (bind (tcgetattr fd) (\<lambda>original.
     seq (try_except (tty_setraw raw fd TCSANOW) (\<lambda>_. True)
            (\<lambda>e. seq (tcsetattr fd TCSANOW original) (raise e)))
    (try_finally body (tcsetattr fd TCSADRAIN original))))"

lemma tcgetattr_run:
  "tcgetattr fd s = (r, s') \<Longrightarrow> tty_attrs s' = tty_attrs s
     \<and> (case r of Inl e \<Rightarrow> e = termios_error | Inr a \<Rightarrow> tty_attrs s fd = Some a)"
  by (auto simp: tcgetattr_def tty_call_def split: list.splits bool.splits option.splits)

lemma tcsetattr_run:
  "tcsetattr fd w a s = (r, s') \<Longrightarrow>
     (case r of Inl e \<Rightarrow> e = termios_error \<and> tty_attrs s' = tty_attrs s
      | Inr _ \<Rightarrow> tty_attrs s' = (tty_attrs s)(fd \<mapsto> a))"
  by (auto simp: tcsetattr_def tty_call_def split: list.splits bool.splits option.splits)

text \<open>
  C27. Whatever runs in raw mode and however it ends, the terminal is as it was before, unless
  setting its attributes back is what failed; and the body runs at most once, with the terminal
  raw, its outcome being the outcome of the whole statement.
\<close>

theorem raw_mode_restored:
  assumes "with_raw_terminal raw fd body s = (r, s')" "tty_attrs s fd = Some a"
  shows "(r = Inl termios_error \<or> tty_attrs s' fd = Some a)
    \<and> ((\<exists>s1 s2 q. tty_attrs s1 = (tty_attrs s)(fd \<mapsto> raw a) \<and> body s1 = (q, s2)
          \<and> (r = q \<and> tty_attrs s' = (tty_attrs s2)(fd \<mapsto> a)
             \<or> r = Inl termios_error \<and> tty_attrs s' = tty_attrs s2))
       \<or> isl r \<and> (\<exists>x \<in> {a, raw a}. tty_attrs s' = (tty_attrs s)(fd \<mapsto> x)))"
proof -
  have same: "(tty_attrs s)(fd \<mapsto> a) = tty_attrs s" using assms(2) by (simp add: fun_upd_idem)
  obtain g s1 where g: "tcgetattr fd s = (g, s1)" by fastforce
  show ?thesis
  proof (cases "fd < 0 \<or> isl g")
    case True
    with assms g tcgetattr_run [OF g] same show ?thesis
      by (cases g) (auto simp: with_raw_terminal_def seq_apply bind_apply reject_def raise_if_def split: if_splits)
  next
    case False
    with tcgetattr_run [OF g] assms(2) have ga: "g = Inr a" "tty_attrs s1 = tty_attrs s" by (cases g; simp)+
    obtain t s2 where t: "tty_setraw raw fd TCSANOW s1 = (t, s2)" by fastforce
    show ?thesis
    proof (cases t)
      case (Inl e)
      have s2: "tty_attrs s2 = tty_attrs s \<and> e = termios_error"
      proof -
        obtain g' s3 where g': "tcgetattr fd s1 = (g', s3)" by fastforce
        show ?thesis
          using t Inl g' tcgetattr_run [OF g'] ga tcsetattr_run [of fd TCSANOW "raw a" s3 t s2] assms(2)
          by (cases g') (auto simp: tty_setraw_def bind_apply)
      qed
      obtain b s4 where b: "tcsetattr fd TCSANOW a s2 = (b, s4)" by fastforce
      from assms(1) False g ga t Inl b have "s' = s4" "r = (case b of Inl e' \<Rightarrow> Inl e' | Inr _ \<Rightarrow> Inl e)"
        by (auto simp: with_raw_terminal_def seq_apply bind_apply try_except_def reject_def split: sum.splits)
      with tcsetattr_run [OF b] s2 same assms(2) show ?thesis by (auto split: sum.splits)
    next
      case (Inr u)
      have s2: "tty_attrs s2 = (tty_attrs s)(fd \<mapsto> raw a)"
      proof -
        obtain g' s3 where g': "tcgetattr fd s1 = (g', s3)" by fastforce
        show ?thesis
          using t Inr g' tcgetattr_run [OF g'] ga tcsetattr_run [of fd TCSANOW "raw a" s3 t s2] assms(2)
          by (cases g') (auto simp: tty_setraw_def bind_apply)
      qed
      obtain q s3 where q: "body s2 = (q, s3)" by fastforce
      obtain b s4 where b: "tcsetattr fd TCSADRAIN a s3 = (b, s4)" by fastforce
      from assms(1) False g ga t Inr q b have "s' = s4" "r = (case b of Inl e \<Rightarrow> Inl e | Inr _ \<Rightarrow> q)"
        by (auto simp: with_raw_terminal_def seq_apply bind_apply try_except_def reject_def
            try_finally_def finally_with_def split: sum.splits)
      with tcsetattr_run [OF b] s2 q show ?thesis by (auto split: sum.splits)
    qed
  qed
qed

definition lab_interrupt :: "nat tty \<Rightarrow> unit res \<times> nat tty" where
  "lab_interrupt = raise (err KeyboardInterrupt [])"

theorem raw_mode_restored_witness:
  "\<exists>s'. with_raw_terminal (\<lambda>a. a + 1) 0 lab_interrupt lab_tty = (Inl (err KeyboardInterrupt []), s')
     \<and> tty_attrs s' 0 = Some 5"
proof -
  have a: "tty_attrs lab_tty 0 = Some 5" by (simp add: lab_tty_def)
  obtain r s' where r: "with_raw_terminal (\<lambda>a. a + 1) 0 lab_interrupt lab_tty = (r, s')" by fastforce
  then have "r = Inl (err KeyboardInterrupt [])"
    by (auto simp: with_raw_terminal_def seq_def bind_def try_except_def reject_def lab_tty_def tcgetattr_def
        tty_call_def tcsetattr_def tty_setraw_def try_finally_def finally_with_def lab_interrupt_def)
  with raw_mode_restored [OF r a] r show ?thesis by (auto simp: termios_error_def)
qed

section \<open>What a relay shows\<close>

text \<open>
  A screen, as the relay uses one through the port \<open>TerminalIO\<close>: a write adds the data to what
  is shown, or a prefix of it when it raises.
\<close>

locale screen =
  fixes put_out :: "bytes \<Rightarrow> ('w, unit) io"
    and shown :: "'w \<Rightarrow> bytes"
  assumes put_out_shows: "put_out d w = (r, w') \<Longrightarrow>
    \<exists>p. prefix p d \<and> shown w' = shown w @ p \<and> (r = Inr () \<longrightarrow> p = d)"
begin

definition faithful_io :: "('w, 'z, 'a) relay_io \<Rightarrow> bool" where
  "faithful_io m \<longleftrightarrow> (\<forall>s r s'. m s = (r, s') \<longrightarrow> (\<exists>obs p. trace s' = trace s @ obs \<and> prefix p (written obs)
     \<and> shown (world s') = shown (world s) @ p \<and> ((\<exists>x. r = Inr x) \<longrightarrow> p = written obs)))"

lemma shows_ret: "faithful_io (ret x)"
  by (simp add: faithful_io_def)

lemma shows_bind:
  assumes "faithful_io m" "\<And>x. faithful_io (f x)"
  shows "faithful_io (bind m f)"
  unfolding faithful_io_def
proof (intro allI impI)
  fix s r s'
  assume b: "bind m f s = (r, s')"
  obtain q s1 where q: "m s = (q, s1)" by fastforce
  with assms(1) obtain xs p where x: "trace s1 = trace s @ xs" "prefix p (written xs)"
    "shown (world s1) = shown (world s) @ p" "(\<exists>x. q = Inr x) \<longrightarrow> p = written xs"
    unfolding faithful_io_def by blast
  show "\<exists>obs p. trace s' = trace s @ obs \<and> prefix p (written obs)
     \<and> shown (world s') = shown (world s) @ p \<and> ((\<exists>x. r = Inr x) \<longrightarrow> p = written obs)"
  proof (cases q)
    case (Inl e)
    with b q x show ?thesis by (intro exI [of _ xs] exI [of _ p]) (auto simp: bind_apply)
  next
    case (Inr v)
    with b q have "f v s1 = (r, s')" by (simp add: bind_apply)
    with assms(2) [of v] obtain ys p' where "trace s' = trace s1 @ ys" "prefix p' (written ys)"
      "shown (world s') = shown (world s1) @ p'" "(\<exists>x. r = Inr x) \<longrightarrow> p' = written ys"
      unfolding faithful_io_def by blast
    with x Inr show ?thesis
      by (intro exI [of _ "xs @ ys"] exI [of _ "p @ p'"]) (auto simp: written_append)
  qed
qed

lemma shows_call:
  assumes "\<And>w. shown (snd (f w)) = shown w" "\<And>v. written [ob v] = []"
  shows "faithful_io (perform f ob)"
  unfolding faithful_io_def
proof (intro allI impI)
  fix s r s'
  assume "perform f ob s = (r, s')"
  then obtain w where "f (world s) = (r, w)" "s' = s\<lparr>world := w, trace := trace s @ [ob r]\<rparr>"
    by (auto simp: perform_eq_iff)
  with assms(1) [of "world s"] assms(2) [of r] show "\<exists>obs p. trace s' = trace s @ obs \<and> prefix p (written obs)
     \<and> shown (world s') = shown (world s) @ p \<and> ((\<exists>x. r = Inr x) \<longrightarrow> p = written obs)"
    by (intro exI [of _ "[ob r]"] exI [of _ "[]"]) simp
qed

lemma shows_write: "faithful_io (perform (put_out d) (WriteOutput d))"
  unfolding faithful_io_def
proof (intro allI impI)
  fix s r s'
  assume "perform (put_out d) (WriteOutput d) s = (r, s')"
  then obtain w where w: "put_out d (world s) = (r, w)"
    "s' = s\<lparr>world := w, trace := trace s @ [WriteOutput d r]\<rparr>" by (auto simp: perform_eq_iff)
  from put_out_shows [OF w(1)] obtain p where "prefix p d" "shown w = shown (world s) @ p"
    "r = Inr () \<longrightarrow> p = d" by blast
  with w(2) show "\<exists>obs p. trace s' = trace s @ obs \<and> prefix p (written obs)
     \<and> shown (world s') = shown (world s) @ p \<and> ((\<exists>x. r = Inr x) \<longrightarrow> p = written obs)"
    by (intro exI [of _ "[WriteOutput d r]"] exI [of _ p]) auto
qed

text \<open>The relay library writes with \<open>put_out\<close> and shows nothing otherwise.\<close>

definition draws :: "'w relay_lib \<Rightarrow> bool" where
  "draws R \<longleftrightarrow> rl_write_output R = put_out
     \<and> (\<forall>w. shown (snd (rl_is_closed R w)) = shown w \<and> shown (snd (rl_monotonic R w)) = shown w
         \<and> (\<forall>t. shown (snd (rl_select R t w)) = shown w) \<and> (\<forall>k. shown (snd (rl_receive R k w)) = shown w)
         \<and> (\<forall>k. shown (snd (rl_read_input R k w)) = shown w) \<and> (\<forall>d. shown (snd (rl_send R d w)) = shown w)
         \<and> shown (snd (rl_close R w)) = shown w)"

lemma relay_turn_shows:
  assumes "draws R"
  shows "faithful_io (relay_turn R n d)"
proof -
  have w: "faithful_io (perform (rl_write_output R b) (WriteOutput b))" for b
    using assms shows_write unfolding draws_def by simp
  have calls: "faithful_io (perform (rl_is_closed R) IsClosed)" "faithful_io (perform (rl_monotonic R) Monotonic)"
    "\<And>t. faithful_io (perform (rl_select R t) (Select t))" "\<And>k. faithful_io (perform (rl_receive R k) (Receive k))"
    "\<And>k. faithful_io (perform (rl_read_input R k) (ReadInput k))" "\<And>b. faithful_io (perform (rl_send R b) (Send b))"
    using assms unfolding draws_def by (auto intro: shows_call)
  show ?thesis
    by (auto simp: relay_turn_def relay_remote_def relay_local_def seq_def Let_def
        intro!: shows_bind shows_ret w calls split: option.splits)
qed

lemma relay_loop_shows:
  assumes "draws R" "relay_loop R n d s = Some y"
  shows "\<exists>obs p. trace (snd y) = trace s @ obs \<and> prefix p (written obs)
     \<and> shown (world (snd y)) = shown (world s) @ p \<and> ((\<exists>x. fst y = Inr x) \<longrightarrow> p = written obs)"
  using assms(2,1)
proof (induction rule: relay_loop.raw_induct [rotated, consumes 1])
  case (1 loop R n d s y)
  obtain a s1 where a: "relay_turn R n d s = (a, s1)" by fastforce
  with relay_turn_shows [OF 1(3)] obtain xs p where x: "trace s1 = trace s @ xs" "prefix p (written xs)"
    "shown (world s1) = shown (world s) @ p" "(\<exists>x. a = Inr x) \<longrightarrow> p = written xs"
    unfolding faithful_io_def by blast
  show ?case
  proof (cases "a = Inr None")
    case True
    with 1(2) a have "loop R n d s1 = Some y" by simp
    from 1(1) [OF this 1(3)] obtain ys p' where "trace (snd y) = trace s1 @ ys" "prefix p' (written ys)"
      "shown (world (snd y)) = shown (world s1) @ p'" "(\<exists>x. fst y = Inr x) \<longrightarrow> p' = written ys" by blast
    with x True show ?thesis
      by (intro exI [of _ "xs @ ys"] exI [of _ "p @ p'"]) (auto simp: written_append)
  next
    case False
    with 1(2) a x show ?thesis
      by (intro exI [of _ xs] exI [of _ p]) (auto split: sum.splits option.splits)
  qed
qed

lemma relay_terminal_shows:
  assumes "draws R" "relay_terminal R max_duration n s = Some (Inr out, s')"
  shows "\<exists>obs. trace s' = trace s @ obs \<and> shown (world s') = shown (world s) @ written obs"
proof -
  obtain q s1 where q: "perform (rl_monotonic R) Monotonic s = (q, s1)" by fastforce
  with assms obtain now where now: "q = Inr now" by (cases q) (auto simp: relay_terminal_def split: if_splits)
  with assms(2) q obtain y where y: "relay_loop R n (round_double (now + total_seconds max_duration)) s1 = Some y"
    "relay_end R y = (Inr out, s')" by (auto simp: relay_terminal_def split: if_splits)
  obtain v s2 where v: "perform (rl_close R) CloseRelay (snd y) = (v, s2)" by fastforce
  have e: "(try_except (lift (fst y)) is_exception (\<lambda>_. raise relay_failed)) (snd y)
      = ((case fst y of Inl e \<Rightarrow> Inl (if is_exception e then relay_failed else e) | Inr x \<Rightarrow> Inr x), snd y)"
    by (cases "fst y") (simp_all add: try_except_def)
  from y(2) v e have s': "s' = s2" "fst y = Inr out"
    by (auto simp: relay_end_def try_finally_def finally_with_def bind_apply split: sum.splits prod.splits)
  have c: "trace s2 = trace (snd y) @ [CloseRelay v]" "shown (world s2) = shown (world (snd y))"
    using v assms(1) by (auto simp: perform_eq_iff draws_def) (metis snd_conv)
  have m: "trace s1 = trace s @ [Monotonic q]" "shown (world s1) = shown (world s)"
    using q assms(1) by (auto simp: perform_eq_iff draws_def) (metis snd_conv)
  from relay_loop_shows [OF assms(1) y(1)] s' obtain obs where "trace (snd y) = trace s1 @ obs"
    "shown (world (snd y)) = shown (world s1) @ written obs" by auto
  with c m s' now show ?thesis
    by (intro exI [of _ "Monotonic q # obs @ [CloseRelay v]"]) (simp add: written_append)
qed

end

text \<open>\<open>LocalTerminalIO\<close> is a screen.\<close>

lemma local_terminal_screen: "screen (write_output t) (\<lambda>s. tty_shown s (lt_output_fd t))"
proof
  fix d r and w w' :: "('a, 'b) tty_scheme"
  assume "write_output t d w = (r, w')"
  from write_rest_run [OF this [unfolded write_output_def]] obtain k where "k \<le> length d"
    "tty_shown w' = (tty_shown w)(lt_output_fd t := tty_shown w (lt_output_fd t) @ take k d)"
    "case r of Inl e \<Rightarrow> exn_class e = OSError | Inr _ \<Rightarrow> k = length d" by blast
  then show "\<exists>p. prefix p d \<and> tty_shown w' (lt_output_fd t) = tty_shown w (lt_output_fd t) @ p
      \<and> (r = Inr () \<longrightarrow> p = d)"
    by (intro exI [of _ "take k d"]) (auto simp: take_is_prefix)
qed

interpretation local_terminal: screen "write_output t" "\<lambda>s. tty_shown s (lt_output_fd t)" for t
  by (rule local_terminal_screen)

text \<open>
  A relay on the terminal: output goes through \<open>write_output\<close>, and no other call writes to the
  output descriptor.
\<close>

definition plays_on :: "local_terminal \<Rightarrow> ('a, 'z) tty_scheme relay_lib \<Rightarrow> bool" where
  "plays_on t R \<longleftrightarrow> rl_write_output R = write_output t
     \<and> (\<forall>w. let same = (\<lambda>w'. tty_shown w' (lt_output_fd t) = tty_shown w (lt_output_fd t)) in
         same (snd (rl_is_closed R w)) \<and> same (snd (rl_monotonic R w))
         \<and> (\<forall>d. same (snd (rl_select R d w))) \<and> (\<forall>k. same (snd (rl_receive R k w)))
         \<and> (\<forall>k. same (snd (rl_read_input R k w))) \<and> (\<forall>d. same (snd (rl_send R d w)))
         \<and> same (snd (rl_close R w)))"

text \<open>
  C28. On the local terminal a relay that ends without an exception has shown exactly the octets
  the server sent, in order, however the writes are cut.
\<close>

theorem relay_shows_received:
  assumes "plays_on t R" "relay_terminal R max_duration n s = Some (Inr out, s')"
    "0 < max_duration"
  shows "\<exists>obs. trace s' = trace s @ obs
    \<and> tty_shown (world s') (lt_output_fd t) = tty_shown (world s) (lt_output_fd t) @ received obs"
proof -
  from assms(1) have "local_terminal.draws t R"
    unfolding local_terminal.draws_def plays_on_def by (simp add: Let_def)
  from local_terminal.relay_terminal_shows [OF this assms(2)] obtain obs where o: "trace s' = trace s @ obs"
    "tty_shown (world s') (lt_output_fd t) = tty_shown (world s) (lt_output_fd t) @ written obs" by blast
  from relay_terminal_outcome [OF assms(2,3)] o(1) have "received obs = written obs"
    by (auto simp: octets_append)
  with o show ?thesis by auto
qed

definition lab_screen :: local_terminal where
  "lab_screen = \<lparr>lt_input_fd = 0, lt_output_fd = 1\<rparr>"

text \<open>A server whose two octets arrive one by one on descriptor 9\<close>

definition lab_shell :: "nat tty relay_lib" where
  "lab_shell = \<lparr>rl_is_closed = ret False, rl_monotonic = ret 0, rl_select = (\<lambda>d. ret (False, True)),
     rl_receive = (\<lambda>n. os_read_fd 9 1), rl_send = (\<lambda>d. ret ()), rl_close = ret (),
     rl_read_input = (\<lambda>n. ret []), rl_write_output = write_output lab_screen\<rparr>"

definition lab_shell_start :: "(nat tty, relay_obs) tstate" where
  "lab_shell_start = \<lparr>world = lab_tty\<lparr>tty_chunks := []\<rparr>, trace = []\<rparr>"

lemma lab_shell_draws: "plays_on lab_screen lab_shell"
  by (auto simp: plays_on_def lab_shell_def os_read_fd_def tty_call_def Let_def lab_screen_def
      split: list.splits bool.splits)

lemma lab_shell_run:
  "\<exists>s'. relay_terminal lab_shell 10000000 relay_chunk lab_shell_start = Some (Inr COMPLETED, s')
     \<and> received (trace s') = [7, 8]"
  apply (simp add: relay_terminal_def lab_shell_start_def lab_shell_def perform_def total_seconds_def
      lab_rounding lab_tty_def)
  apply (subst relay_loop.simps)
  apply (simp add: relay_turn_def relay_remote_def bind_def perform_def lab_rounding seq_def os_read_fd_def
      tty_call_def Let_def chunk_size_def write_output_def write_rest.simps os_write_def lab_screen_def)
  apply (subst relay_loop.simps)
  apply (simp add: relay_turn_def relay_remote_def bind_def perform_def lab_rounding seq_def os_read_fd_def
      tty_call_def Let_def chunk_size_def write_output_def write_rest.simps os_write_def lab_screen_def)
  apply (subst relay_loop.simps)
  apply (simp add: relay_turn_def relay_remote_def bind_def perform_def lab_rounding seq_def os_read_fd_def
      tty_call_def Let_def chunk_size_def)
  apply (simp add: relay_end_def try_finally_def try_except_def finally_with_def bind_def perform_def)
  done

theorem relay_shows_received_witness:
  "\<exists>s'. relay_terminal lab_shell 10000000 relay_chunk lab_shell_start = Some (Inr COMPLETED, s')
     \<and> tty_shown (world s') 1 = [7, 8]"
proof -
  obtain s' where r: "relay_terminal lab_shell 10000000 relay_chunk lab_shell_start = Some (Inr COMPLETED, s')"
    "received (trace s') = [7, 8]" using lab_shell_run by blast
  from relay_shows_received [OF lab_shell_draws r(1)] r show ?thesis
    by (auto simp: lab_shell_start_def lab_screen_def lab_tty_def)
qed

end
