(* ===== verification/Bootstrap.thy ===== *)
theory Bootstrap
  imports Fresh Authentication Terminal Host_Key
begin

text \<open>
  The composition of the application (\<open>bootstrap/application.py\<close>): the settings, the checks on
  their paths and keys, and the order in which the adapters are made. Everything runs on the
  host: key files, database files with their schemas and the entropy of the dummy password.
\<close>

section \<open>Settings\<close>

record runtime_settings =
  rs_auth_db :: path
  rs_config_db :: path
  rs_vault_db :: path
  rs_audit_db :: path
  rs_vault_key :: path
  rs_audit_key :: path
  rs_max_session :: int

definition mk_runtime_settings :: "path \<Rightarrow> path \<Rightarrow> path \<Rightarrow> path \<Rightarrow> path \<Rightarrow> path \<Rightarrow> int \<Rightarrow> runtime_settings res" where
  "mk_runtime_settings auth config vault audit vault_key audit_key max_session =
     thenR (reject (max_session \<le> 0) ''max_session_duration must be positive'')
    (Inr \<lparr>rs_auth_db = auth, rs_config_db = config, rs_vault_db = vault, rs_audit_db = audit,
          rs_vault_key = vault_key, rs_audit_key = audit_key, rs_max_session = max_session\<rparr>)"

section \<open>The application\<close>

text \<open>
  \<open>path.resolve(strict=False)\<close>; up to Python 3.12 a loop of links is a \<open>RuntimeError\<close>.
\<close>

definition resolve_path :: "'d host \<Rightarrow> path \<Rightarrow> path res" where
  "resolve_path h p = (case follow max_links (h_files h) p of
       Inl e \<Rightarrow> Inl (err RuntimeError ''Symlink loop'') | Inr q \<Rightarrow> Inr q)"

definition configuration_error :: "string \<Rightarrow> exn" where
  "configuration_error m = err ApplicationConfigurationError m"

definition validate_distinct_paths :: "path list \<Rightarrow> string \<Rightarrow> ('d host, unit) io" where
  "validate_distinct_paths paths message = (\<lambda>h.
     (bindR (mapR (resolve_path h) paths)
        (\<lambda>canonical. raise_if (\<not> distinct canonical) (configuration_error message)), h))"

text \<open>\<open>secrets.token_urlsafe(32)\<close>\<close>

definition token_urlsafe :: "('d host, pystr) io" where
  "token_urlsafe = bind (token_bytes 32) (\<lambda>b.
     ret (map (\<lambda>c. if c = 43 then 45 else if c = 47 then 95 else c) (rstrip_pad (b64encode b))))"

text \<open>What \<open>build_application\<close> returns, as far as it holds values of its own.\<close>

record application =
  app_settings :: runtime_settings
  app_vault_key :: bytes
  app_dummy_hash :: pystr
  app_max_session :: int
  app_terminal :: local_terminal

definition read_keys :: "runtime_settings \<Rightarrow> (dbhost, bytes) io" where
  "read_keys s =
     bind (get_key (rs_vault_key s)) (\<lambda>vault_key.
     bind (get_key (rs_audit_key s)) (\<lambda>audit_key.
     if vault_key = audit_key
     then raise (configuration_error ''vault and audit integrity keys must be distinct'')
     else ret vault_key))"

definition open_stores :: "runtime_settings \<Rightarrow> (dbhost, unit) io" where
  "open_stores s =
     seq (vault_init (rs_vault_db s))
    (seq (mk_audit_repository (get_key (rs_audit_key s)) (rs_audit_db s))
    (seq (policy_init (rs_config_db s))
    (seq (target_init (rs_config_db s))
    (seq (account_init (rs_config_db s))
    (user_init (rs_auth_db s))))))"

definition build_application :: "dbhost argon2 \<Rightarrow> runtime_settings \<Rightarrow> (dbhost, application) io" where
  "build_application lib s =
     seq (validate_distinct_paths [rs_vault_key s, rs_audit_key s]
            ''vault and audit integrity key paths must be distinct'')
    (seq (validate_distinct_paths [rs_auth_db s, rs_config_db s, rs_vault_db s, rs_audit_db s]
            ''authentication, config, vault, and audit database paths must be distinct'')
    (bind (read_keys s) (\<lambda>vault_key.
     bind (lift (mk_cipher vault_key)) (\<lambda>cipher_key.
     seq (open_stores s)
    (bind (mk_authentication (repository_auth (rs_auth_db s) lib) token_urlsafe) (\<lambda>dummy_hash.
     bind (lift (mk_access_service (rs_max_session s))) (\<lambda>max_session.
     bind (lift (mk_local_terminal 0 1)) (\<lambda>terminal.
     ret \<lparr>app_settings = s, app_vault_key = cipher_key, app_dummy_hash = dummy_hash,
          app_max_session = max_session, app_terminal = terminal\<rparr>))))))))"

section \<open>Opening the stores\<close>

text \<open>No table of any database is lost or changed.\<close>

definition keeps_tables :: "dbhost \<Rightarrow> dbhost \<Rightarrow> bool" where
  "keeps_tables h h' \<longleftrightarrow> (\<forall>p n t. table_at h p n = Some t \<longrightarrow> table_at h' p n = Some t)"

lemma keeps_tables_refl [simp]: "keeps_tables h h"
  by (simp add: keeps_tables_def)

lemma keeps_tables_trans: "keeps_tables h i \<Longrightarrow> keeps_tables i j \<Longrightarrow> keeps_tables h j"
  by (simp add: keeps_tables_def)

lemma same_files_tables: "h_files h' = h_files h \<Longrightarrow> keeps_tables h h'"
  by (simp add: keeps_tables_def table_at_def db_at_def)

lemma tables_kept_keeps:
  assumes "tables_kept p h h'"
  shows "keeps_tables h h'"
  unfolding keeps_tables_def
proof (intro allI impI)
  fix q n t
  assume t: "table_at h q n = Some t"
  show "table_at h' q n = Some t"
  proof (cases "q = p")
    case True
    with assms t show ?thesis by (simp add: tables_kept_def)
  next
    case False
    with assms t show ?thesis by (simp add: tables_kept_def table_at_def db_at_def)
  qed
qed

text \<open>
  The outcome of an opened store: its file is secured, every other file untouched, no table
  lost, and on success its table has the columns of the code.
\<close>

definition opened :: "path \<Rightarrow> pystr \<Rightarrow> pystr list \<Rightarrow> dbhost \<Rightarrow> unit res \<Rightarrow> dbhost \<Rightarrow> bool" where
  "opened p n cols h r h' \<longleftrightarrow> (\<forall>q. q \<noteq> p \<longrightarrow> h_files h' q = h_files h q) \<and> keeps_tables h h'
     \<and> (\<not> isl r \<longrightarrow> (\<exists>c. h_files h' p = Some (Regular 0x180 c))
         \<and> (\<exists>t. table_at h' p n = Some t \<and> column_names t = cols))"

lemma table_info_names: "map fst (table_info t) = column_names t"
  by (simp add: table_info_def column_names_def)

lemma init_table_opened:
  assumes "init_table cls unsupported failed n cols unique p h = (r, h')"
    "\<forall>(n, ty, x) \<in> set cols. upper ty = ty"
    "base_class SqliteError \<noteq> Some cls" "cls \<noteq> SqliteError"
    "cls \<noteq> DatabasePermissionError" "base_class DatabasePermissionError \<noteq> Some cls"
  shows "opened p n (map fst cols) h r h'"
proof -
  note run = init_table_run [OF assms]
  then have "tables_kept p h h'" by blast
  with tables_kept_keeps [OF this] run show ?thesis
    by (auto simp: opened_def tables_kept_def table_info_names [symmetric] split: sum.splits)
qed

lemma init_versioned_opened:
  assumes "init_versioned cls unsupported failed n validate create' p h = (r, h')"
    and parts: "validates validate unsupported P" "creates n t v create'"
    and cls: "base_class SqliteError \<noteq> Some cls" "cls \<noteq> SqliteError"
      "cls \<noteq> DatabasePermissionError" "base_class DatabasePermissionError \<noteq> Some cls"
      "catches cls unsupported"
    and P: "\<And>d d'. P d d' \<Longrightarrow> db_tables d' = db_tables d \<and>
      (\<forall>t. map_of (db_tables d) n = Some t \<longrightarrow> column_names t = cols)"
    and t: "column_names t = cols"
  shows "opened p n cols h r h'"
proof -
  note run = init_versioned_run [OF assms(1) parts cls]
  have other: "\<forall>q. q \<noteq> p \<longrightarrow> h_files h' q = h_files h q" using run by blast
  have start: "start_db p h d \<longleftrightarrow> d = d0" if "db_at h p = Some d0" for d d0
    using that by (auto simp: start_db_def db_at_Some)
  have kept: "table_at h' p n' = Some t'" if "table_at h p n' = Some t'" for n' t'
  proof -
    from that obtain d where d: "db_at h p = Some d" "map_of (db_tables d) n' = Some t'"
      by (auto simp: table_at_def split: option.splits)
    then have ne: "h_files h p \<noteq> None" by (auto simp: db_at_Some)
    show ?thesis
    proof (cases r)
      case (Inl e)
      with run d(1) start ne have "db_at h' p = Some d" by simp
      with d show ?thesis by (simp add: table_at_def)
    next
      case (Inr u)
      with run start [OF d(1)] obtain d' where "db_at h' p = Some d'" "if map_of (db_tables d) n = None
          then db_version d = 0 \<and> d' = \<lparr>db_version = v, db_tables = db_tables d @ [(n, t)]\<rparr> else P d d'"
        by auto
      with d(2) P [of d d'] show ?thesis
        by (auto simp: table_at_def map_add_def split: if_splits option.splits)
    qed
  qed
  have "keeps_tables h h'"
    using other kept unfolding keeps_tables_def
    by (metis (no_types, lifting) table_at_def db_at_def)
  moreover have "\<exists>t. table_at h' p n = Some t \<and> column_names t = cols" if nl: "r = Inr u" for u
  proof -
    from run nl obtain d d' where d: "db_at h' p = Some d'" "if map_of (db_tables d) n = None
        then db_version d = 0 \<and> d' = \<lparr>db_version = v, db_tables = db_tables d @ [(n, t)]\<rparr> else P d d'"
      by auto
    show ?thesis
    proof (cases "map_of (db_tables d) n")
      case None
      with d t show ?thesis by (simp add: table_at_def map_add_def)
    next
      case (Some t')
      with d P [of d d'] show ?thesis by (simp add: table_at_def)
    qed
  qed
  ultimately show ?thesis using other run unfolding opened_def by (cases r) auto
qed

lemma column_names_create [simp]: "column_names (create cols uq) = map fst cols"
  by (simp add: create_def column_names_def comp_def split_beta)

lemma vault_opened: "vault_init p h = (r, h') \<Longrightarrow> opened p vault_table vault_columns h r h'"
  unfolding vault_init_def
  by (erule init_versioned_opened [OF _ vault_validates
        creates_table [of vault_table "create vault_schema [[lit ''id'']]" 1, folded vault_create_schema_def]])
    (auto simp: unsupported_vault_def vault_columns_def create_made table_info_names [symmetric])

text \<open>What the other two versioned schemas accept, by the version and the table, and their validations\<close>

fun audit_schema_ok :: "int \<Rightarrow> table option \<Rightarrow> bool" where
  "audit_schema_ok v None \<longleftrightarrow> v = 0"
| "audit_schema_ok v (Some t) \<longleftrightarrow> v = 2 \<and> column_names t = audit_columns"

fun user_schema_ok :: "int \<Rightarrow> table option \<Rightarrow> bool" where
  "user_schema_ok v None \<longleftrightarrow> v = 0"
| "user_schema_ok v (Some t) \<longleftrightarrow> v = 1 \<and> table_info t = user_schema
     \<and> [lit ''id''] \<in> set (tb_unique t) \<and> [lit ''username''] \<in> set (tb_unique t)"

lemma user_validates:
  "validates user_validate_schema unsupported_users (\<lambda>d d'. db_version d' = 1 \<and> db_tables d' = db_tables d
     \<and> (\<forall>t. map_of (db_tables d) users_table = Some t \<longrightarrow> user_schema_ok (db_version d) (Some t)))"
  unfolding validates_def
proof (intro allI impI)
  fix c :: conn and r c'
  assume a: "user_validate_schema (db_version (c_db c)) c = (r, c')"
  obtain q c1 where q: "pragma_table_info users_table c = (q, c1)" by fastforce
  note q1 = execute_run [OF q [unfolded pragma_table_info_def]]
  show "(c_faults c = [] \<longrightarrow> c_faults c' = []) \<and> (case r of
      Inl e \<Rightarrow> e = unsupported_users \<or> e = sql_error
    | Inr _ \<Rightarrow> db_version (c_db c') = 1 \<and> db_tables (c_db c') = db_tables (c_db c)
        \<and> (\<forall>t. map_of (db_tables (c_db c)) users_table = Some t
        \<longrightarrow> user_schema_ok (db_version (c_db c)) (Some t)))"
  proof (cases q)
    case (Inl e)
    with a q q1 show ?thesis by (auto simp: user_validate_schema_def bind_apply)
  next
    case (Inr i)
    obtain u c2 where u: "pragma_unique_columns users_table c1 = (u, c2)" by fastforce
    note u1 = execute_run [OF u [unfolded pragma_unique_columns_def]]
    from a q Inr u have r: "c' = c2" "r = (case u of Inl e \<Rightarrow> Inl e | Inr unique \<Rightarrow>
        raise_if (db_version (c_db c) \<noteq> 1 \<or> i \<noteq> user_schema
        \<or> [lit ''id''] \<notin> set unique \<or> [lit ''username''] \<notin> set unique) unsupported_users)"
      by (auto simp: user_validate_schema_def bind_apply split: sum.splits)
    from q1 Inr have i: "c_db c1 = c_db c" "c_faults c = [] \<longrightarrow> c_faults c1 = []"
      "\<forall>t. map_of (db_tables (c_db c)) users_table = Some t \<longrightarrow> i = table_info t" by auto
    from u1 have u2: "c_db c2 = c_db c1" "c_faults c1 = [] \<longrightarrow> c_faults c2 = []"
      "\<forall>e. u = Inl e \<longrightarrow> e = sql_error" by (auto split: option.splits)
    from u1 have u3: "u = Inr x \<Longrightarrow> map_of (db_tables (c_db c1)) users_table = Some t \<Longrightarrow> x = tb_unique t" for x t
      by auto
    show ?thesis
      using r i u2 u3 by (auto simp: raise_if_def split: sum.splits if_splits)
  qed
qed

lemma user_columns_info: "table_info t = user_schema \<Longrightarrow> column_names t = map fst user_schema"
  by (simp flip: table_info_names)

lemma user_opened: "user_init p h = (r, h') \<Longrightarrow> opened p users_table user_columns h r h'"
  unfolding user_init_def
  by (erule init_versioned_opened [OF _ user_validates
        creates_table [of users_table "create user_schema user_unique" 1, folded user_create_schema_def]])
    (auto simp: unsupported_users_def user_columns_def dest: user_columns_info)

lemma audit_validates:
  "validates audit_validate_schema unsupported_audit (\<lambda>d d'. db_tables d' = db_tables d
     \<and> (\<forall>t. map_of (db_tables d) audit_table = Some t \<longrightarrow> audit_schema_ok (db_version d) (Some t)))"
  unfolding validates_def
proof (intro allI impI)
  fix c :: conn and r c'
  assume a: "audit_validate_schema (db_version (c_db c)) c = (r, c')"
  obtain q c1 where q: "pragma_table_info audit_table c = (q, c1)" by fastforce
  note q1 = execute_run [OF q [unfolded pragma_table_info_def]]
  from a q have r: "c' = c1" "r = (case q of Inl e \<Rightarrow> Inl e | Inr info \<Rightarrow>
      raise_if (db_version (c_db c) \<noteq> 2 \<or> map fst info \<noteq> audit_columns) unsupported_audit)"
    by (auto simp: audit_validate_schema_def bind_apply split: sum.splits)
  with q1 show "(c_faults c = [] \<longrightarrow> c_faults c' = []) \<and> (case r of
      Inl e \<Rightarrow> e = unsupported_audit \<or> e = sql_error
    | Inr _ \<Rightarrow> db_tables (c_db c') = db_tables (c_db c) \<and> (\<forall>t. map_of (db_tables (c_db c)) audit_table = Some t
        \<longrightarrow> audit_schema_ok (db_version (c_db c)) (Some t)))"
    by (auto simp: raise_if_def table_info_names [symmetric] split: sum.splits if_splits)
qed

lemma audit_opened: "audit_init p h = (r, h') \<Longrightarrow> opened p audit_table audit_columns h r h'"
  unfolding audit_init_def
  by (erule init_versioned_opened [OF _ audit_validates
        creates_table [of audit_table "create audit_schema audit_unique" 2, folded audit_create_schema_def]])
    (auto simp: unsupported_audit_def audit_columns_def)

lemma policy_opened: "policy_init p h = (r, h') \<Longrightarrow> opened p policies_table policy_columns h r h'"
  unfolding policy_init_def policy_columns_def
  by (erule init_table_opened) (simp_all add: policy_schema_def upper_def lit_def)

lemma target_opened: "target_init p h = (r, h') \<Longrightarrow> opened p targets_table target_columns h r h'"
  unfolding target_init_def target_columns_def
  by (erule init_table_opened) (simp_all add: target_schema_def upper_def lit_def)

lemma account_opened: "account_init p h = (r, h') \<Longrightarrow> opened p accounts_table account_columns h r h'"
  unfolding account_init_def account_columns_def
  by (erule init_table_opened) (simp_all add: account_schema_def upper_def lit_def)

text \<open>Several stores in a row\<close>

definition opened_all :: "(path \<times> pystr \<times> pystr list) list \<Rightarrow> dbhost \<Rightarrow> unit res \<Rightarrow> dbhost \<Rightarrow> bool" where
  "opened_all xs h r h' \<longleftrightarrow> (\<forall>q. q \<notin> fst ` set xs \<longrightarrow> h_files h' q = h_files h q) \<and> keeps_tables h h'
     \<and> (\<not> isl r \<longrightarrow> (\<forall>(p, n, cols) \<in> set xs. (\<exists>c. h_files h' p = Some (Regular 0x180 c))
         \<and> (\<exists>t. table_at h' p n = Some t \<and> column_names t = cols)))"

definition opens :: "(path \<times> pystr \<times> pystr list) list \<Rightarrow> (dbhost, unit) io \<Rightarrow> bool" where
  "opens xs m \<longleftrightarrow> (\<forall>h r h'. m h = (r, h') \<longrightarrow> opened_all xs h r h')"

lemma opens_one: "(\<And>h r h'. m h = (r, h') \<Longrightarrow> opened p n cols h r h') \<Longrightarrow> opens [(p, n, cols)] m"
  by (simp add: opens_def opened_def opened_all_def)

lemma opens_Cons:
  assumes "opens [x] m" "opens ys k"
  shows "opens (x # ys) (seq m k)"
  unfolding opens_def
proof (intro allI impI)
  fix h r h'
  assume s: "seq m k h = (r, h')"
  obtain q h1 where q: "m h = (q, h1)" by fastforce
  with assms(1) have x: "opened_all [x] h q h1" unfolding opens_def by blast
  show "opened_all (x # ys) h r h'"
  proof (cases q)
    case (Inl e)
    with s q x show ?thesis by (auto simp: seq_apply opened_all_def)
  next
    case (Inr u)
    obtain p n cols where xe: "x = (p, n, cols)" by (cases x)
    from s q Inr have "k h1 = (r, h')" by (simp add: seq_apply)
    with assms(2) have y: "opened_all ys h1 r h'" unfolding opens_def by blast
    from x xe Inr have p: "\<exists>c. h_files h1 p = Some (Regular 0x180 c)"
      "\<exists>t. table_at h1 p n = Some t \<and> column_names t = cols" by (auto simp: opened_all_def)
    have kept: "keeps_tables h h'" using x y keeps_tables_trans unfolding opened_all_def by blast
    have frame: "h_files h' q = h_files h q" if "q \<noteq> p" "q \<notin> fst ` set ys" for q
      using x y xe that by (simp add: opened_all_def)
    have "\<exists>c. h_files h' p = Some (Regular 0x180 c)" if "\<not> isl r"
    proof (cases "p \<in> fst ` set ys")
      case True
      with y that show ?thesis by (auto simp: opened_all_def)
    next
      case False
      with y p(1) show ?thesis by (simp add: opened_all_def)
    qed
    moreover have "\<exists>t. table_at h' p n = Some t \<and> column_names t = cols"
      using p(2) y by (auto simp: opened_all_def keeps_tables_def)
    moreover have "\<forall>(p, n, cols) \<in> set ys. (\<exists>c. h_files h' p = Some (Regular 0x180 c))
         \<and> (\<exists>t. table_at h' p n = Some t \<and> column_names t = cols)" if "\<not> isl r"
      using y that by (simp add: opened_all_def)
    ultimately show ?thesis using kept frame xe by (simp add: opened_all_def)
  qed
qed

lemma audit_repository_opened:
  "mk_audit_repository (get_key q) p h = (r, h') \<Longrightarrow> opened p audit_table audit_columns h r h'"
proof -
  assume m: "mk_audit_repository (get_key q) p h = (r, h')"
  obtain k h1 where k: "audit_load_key (get_key q) h = (k, h1)" by fastforce
  from key_file.load_key_run [OF k] have f: "h_files h1 = h_files h" by (simp add: same_files_def)
  show ?thesis
  proof (cases k)
    case (Inl e)
    with m k f show ?thesis
      by (auto simp: mk_audit_repository_def bind_apply opened_def same_files_tables)
  next
    case (Inr u)
    with m k have "audit_init p h1 = (r, h')" by (simp add: mk_audit_repository_def bind_apply)
    note o = audit_opened [OF this]
    then have "keeps_tables h1 h'" by (simp add: opened_def)
    from keeps_tables_trans [OF same_files_tables [OF f] this] o f show ?thesis
      by (simp add: opened_def)
  qed
qed

definition store_schemas :: "runtime_settings \<Rightarrow> (path \<times> pystr \<times> pystr list) list" where
  "store_schemas s = [(rs_vault_db s, vault_table, vault_columns), (rs_audit_db s, audit_table, audit_columns),
     (rs_config_db s, policies_table, policy_columns), (rs_config_db s, targets_table, target_columns),
     (rs_config_db s, accounts_table, account_columns), (rs_auth_db s, users_table, user_columns)]"

lemma stores_open:
  "opens [(p, vault_table, vault_columns)] (vault_init p)"
  "opens [(p, audit_table, audit_columns)] (mk_audit_repository (get_key q) p)"
  "opens [(p, policies_table, policy_columns)] (policy_init p)"
  "opens [(p, targets_table, target_columns)] (target_init p)"
  "opens [(p, accounts_table, account_columns)] (account_init p)"
  "opens [(p, users_table, user_columns)] (user_init p)"
proof -
  show "opens [(p, vault_table, vault_columns)] (vault_init p)"
    by (rule opens_one) (rule vault_opened)
  show "opens [(p, audit_table, audit_columns)] (mk_audit_repository (get_key q) p)"
    by (rule opens_one) (rule audit_repository_opened)
  show "opens [(p, policies_table, policy_columns)] (policy_init p)"
    by (rule opens_one) (rule policy_opened)
  show "opens [(p, targets_table, target_columns)] (target_init p)"
    by (rule opens_one) (rule target_opened)
  show "opens [(p, accounts_table, account_columns)] (account_init p)"
    by (rule opens_one) (rule account_opened)
  show "opens [(p, users_table, user_columns)] (user_init p)"
    by (rule opens_one) (rule user_opened)
qed

lemma open_stores_opens: "opens (store_schemas s) (open_stores s)"
  unfolding store_schemas_def open_stores_def
  by (rule opens_Cons stores_open)+

lemma open_stores_run: "open_stores s h = (r, h') \<Longrightarrow> opened_all (store_schemas s) h r h'"
  using open_stores_opens unfolding opens_def by blast

section \<open>Starting the application\<close>

definition paths_ok :: "'d host \<Rightarrow> path list \<Rightarrow> bool" where
  "paths_ok h ps \<longleftrightarrow> (case mapR (resolve_path h) ps of Inl e \<Rightarrow> False | Inr qs \<Rightarrow> distinct qs)"

definition keys_ok :: "'d host \<Rightarrow> runtime_settings \<Rightarrow> bool" where
  "keys_ok h s \<longleftrightarrow> key_of h (rs_vault_key s) \<noteq> None \<and> key_of h (rs_audit_key s) \<noteq> None
     \<and> key_of h (rs_vault_key s) \<noteq> key_of h (rs_audit_key s)"

definition startable :: "'d host \<Rightarrow> runtime_settings \<Rightarrow> bool" where
  "startable h s \<longleftrightarrow> paths_ok h [rs_vault_key s, rs_audit_key s]
     \<and> paths_ok h [rs_auth_db s, rs_config_db s, rs_vault_db s, rs_audit_db s] \<and> keys_ok h s"

lemma validate_distinct_run:
  "validate_distinct_paths ps m h = (r, h') \<Longrightarrow> h' = h \<and> (isl r \<longleftrightarrow> \<not> paths_ok h ps)"
  by (cases "mapR (resolve_path h) ps")
    (auto simp: validate_distinct_paths_def paths_ok_def raise_if_def)

lemma read_keys_run:
  assumes "read_keys s h = (r, h')"
  shows "same_files h h' \<and> (case r of
      Inr k \<Rightarrow> keys_ok h s \<and> key_of h (rs_vault_key s) = Some k \<and> length k = 32 | Inl e \<Rightarrow> True)"
proof -
  obtain q h1 where q: "get_key (rs_vault_key s) h = (q, h1)" by fastforce
  note 1 = get_key_run [OF q]
  have len: "key_of h p = Some k \<Longrightarrow> length k = 32" for p k
    by (auto simp: key_of_def split: option.splits node.splits if_splits)
  show ?thesis
  proof (cases q)
    case (Inl e)
    with assms q have "r = Inl e" "h' = h1" by (simp_all add: read_keys_def bind_apply)
    with 1 show ?thesis by simp
  next
    case (Inr k)
    obtain q' h2 where q': "get_key (rs_audit_key s) h1 = (q', h2)" by fastforce
    note 2 = get_key_run [OF q']
    from 1 have k1: "key_of h1 p = key_of h p" for p by (simp add: key_of_def same_files_def)
    from assms q q' Inr have r: "h' = h2" "r = (case q' of Inl e \<Rightarrow> Inl e | Inr a \<Rightarrow> if k = a
        then Inl (configuration_error ''vault and audit integrity keys must be distinct'') else Inr k)"
      by (auto simp: read_keys_def bind_apply split: sum.splits if_splits)
    have "same_files h h'" using 1 2 r(1) by (blast intro: same_files_trans)
    with 1 2 r Inr k1 len show ?thesis by (auto simp: keys_ok_def split: sum.splits)
  qed
qed

lemma mk_authentication_files:
  assumes "mk_authentication (repository_auth p lib) token_urlsafe h = (r, h')"
    "\<forall>pw g. h_files (snd (a_hash lib pw g)) = h_files g"
  shows "h_files h' = h_files h"
proof -
  obtain t h1 where t: "token_urlsafe h = (t, h1)" by fastforce
  then have f: "h_files h1 = h_files h" by (auto simp: token_urlsafe_def bind_apply token_bytes_def split: if_splits)
  have "h_files (snd (hash_password lib pw g)) = h_files g" for pw g
    using assms(2) [rule_format, of pw g]
    by (auto simp: hash_password_def try_except_def split: prod.splits sum.splits)
  with assms(1) t f show ?thesis
    by (cases t) (auto simp: mk_authentication_def bind_apply repository_auth_def, metis snd_conv)
qed

definition lab_settings :: runtime_settings where
  "lab_settings = \<lparr>rs_auth_db = [lit ''auth.db''], rs_config_db = [lit ''config.db''],
     rs_vault_db = [lit ''vault.db''], rs_audit_db = [lit ''audit.db''],
     rs_vault_key = [lit ''vault.key''], rs_audit_key = [lit ''audit.key''], rs_max_session = 60000000\<rparr>"

definition boot_host :: dbhost where
  "boot_host = \<lparr>h_files = [[] \<mapsto> Directory 0x1C0, [lit ''vault.key''] \<mapsto> Regular 0x180 (Bytes (replicate 32 7)),
       [lit ''audit.key''] \<mapsto> Regular 0x180 (Bytes (replicate 32 8))],
     h_umask = 0, h_entropy = replicate 32 9, h_faults = [], h_chunks = []\<rparr>"

end
