(* ===== verification/Main_Program.thy ===== *)
theory Main_Program
  imports Bootstrap Access
begin

text \<open>
  The command line: \<open>main.py\<close> with its exit codes and messages, and
  \<open>tools/verify_audit.py\<close>. The parsed arguments are given (\<open>argparse\<close> is not modelled); the
  interactive command runs over ports whose calls are recorded with the lines it prints.
\<close>

section \<open>Durations\<close>

text \<open>
  \<open>timedelta(seconds=x)\<close> in microseconds: the whole seconds exactly, the fraction as a double,
  their sum rounded to even. \<open>None\<close> is a float that is not a number or infinite (CPython raises
  an \<open>OverflowError\<close> for the latter; both callers catch every \<open>Exception\<close> alike).
\<close>

definition toward_zero :: "rat \<Rightarrow> int" where
  "toward_zero x = (if x < 0 then - \<lfloor>- x\<rfloor> else \<lfloor>x\<rfloor>)"

definition timedelta_seconds :: "rat option \<Rightarrow> int res" where
  "timedelta_seconds v = (case v of
       None \<Rightarrow> Inl (err ValueError ''cannot convert float NaN to integer'')
     | Some x \<Rightarrow>
         (let i = toward_zero x;
              us = round_even (of_int (i * 1000000) + round_double (1000000 * (x - of_int i)))
          in if us < - 999999999 * 86400000000 \<or> 1000000000 * 86400000000 \<le> us
             then Inl (err OverflowError ''date value out of range'') else Inr us))"

section \<open>Is the runtime provisioned?\<close>

definition runtime_file :: "path \<Rightarrow> string \<Rightarrow> path" where
  "runtime_file dir n = dir @ [lit n]"

definition required_runtime_files :: "string list" where
  "required_runtime_files = [''vault.key'', ''audit.key'', ''auth.db'', ''config.db'', ''vault.db'']"

definition nonempty_file :: "'d host \<Rightarrow> path \<Rightarrow> bool" where
  "nonempty_file h p \<longleftrightarrow> (case stat_node h p of Some n \<Rightarrow> is_regular n \<and> node_nonempty n | None \<Rightarrow> False)"

definition runtime_is_provisioned :: "path \<Rightarrow> ('d host, bool) io" where
  "runtime_is_provisioned dir =
     try_except (os_call (\<lambda>h.
       (Inr (h_files h dir = Some (Directory 0x1C0)
          \<and> list_all (\<lambda>n. nonempty_file h (runtime_file dir n)) required_runtime_files), h)))
       (catches OSError) (\<lambda>_. ret False)"

definition runtime_settings_of :: "path \<Rightarrow> rat option \<Rightarrow> runtime_settings res" where
  "runtime_settings_of dir max_session_seconds =
     bindR (timedelta_seconds max_session_seconds) (\<lambda>d.
     mk_runtime_settings (runtime_file dir ''auth.db'') (runtime_file dir ''config.db'')
       (runtime_file dir ''vault.db'') (runtime_file dir ''audit.db'')
       (runtime_file dir ''vault.key'') (runtime_file dir ''audit.key'') d)"

section \<open>The validate command\<close>

definition exit_success :: int where "exit_success = 0"
definition exit_internal_failure :: int where "exit_internal_failure = 1"
definition exit_authentication_failed :: int where "exit_authentication_failed = 2"
definition exit_access_denied :: int where "exit_access_denied = 3"
definition exit_session_failed :: int where "exit_session_failed = 4"

lemmas exit_codes = exit_success_def exit_internal_failure_def exit_authentication_failed_def
  exit_access_denied_def exit_session_failed_def

definition run_validation ::
  "dbhost argon2 \<Rightarrow> path \<Rightarrow> path \<Rightarrow> path \<Rightarrow> path \<Rightarrow> path \<Rightarrow> path \<Rightarrow> rat option \<Rightarrow> (dbhost, int) io" where
  "run_validation lib auth config vault audit vault_key audit_key max_session_seconds =
     try_except
       (bind (lift (bindR (timedelta_seconds max_session_seconds)
                      (mk_runtime_settings auth config vault audit vault_key audit_key))) (\<lambda>settings.
        bind (build_application lib settings) (\<lambda>_. ret exit_success)))
       (\<lambda>_. True) (\<lambda>_. ret exit_internal_failure)"

section \<open>The access command\<close>

record ('w, 's) cli_ports =
  cp_provisioned :: "path \<Rightarrow> ('w, bool) io"
  cp_build :: "runtime_settings \<Rightarrow> ('w, 's) io"
  cp_getpass :: "('w, pystr) io"
  cp_authenticate :: "'s \<Rightarrow> pystr \<Rightarrow> pystr \<Rightarrow> ('w, authenticated_principal) io"
  cp_new_id :: "('w, pystr) io"
  cp_now :: "('w, datetime) io"
  cp_access :: "'s \<Rightarrow> authenticated_principal \<Rightarrow> access_request \<Rightarrow> ('w, access_result) io"

datatype 's cli_obs =
    Provisioned "bool res"
  | Build "'s res"
  | Getpass "pystr res"
  | Authenticate pystr pystr "authenticated_principal res"
  | RequestId "pystr res"
  | RequestTime "datetime res"
  | Access authenticated_principal access_request "access_result res"
  | Print pystr

type_synonym ('w, 's, 'a) cli_io = "(('w, 's cli_obs) tstate, 'a) io"

definition print_line :: "pystr \<Rightarrow> ('w, 's, unit) cli_io" where
  "print_line l = (\<lambda>s. (Inr (), s\<lparr>trace := trace s @ [Print l]\<rparr>))"

text \<open>
  \<open>try: x = m except (p): print(message); return code\<close>, then \<open>k(x)\<close>; message and code may
  depend on the exception.
\<close>

definition or_exit ::
  "('w, 's, 'a) cli_io \<Rightarrow> (exn \<Rightarrow> bool) \<Rightarrow> (exn \<Rightarrow> string \<times> int) \<Rightarrow> ('a \<Rightarrow> ('w, 's, int) cli_io) \<Rightarrow>
   ('w, 's, int) cli_io" where
  "or_exit m p h k =
     bind (try_except (bind m (\<lambda>x. ret (Inr x))) p
             (\<lambda>e. seq (print_line (lit (fst (h e)))) (ret (Inl (snd (h e))))))
       (\<lambda>v. case v of Inl code \<Rightarrow> ret code | Inr x \<Rightarrow> k x)"

text \<open>\<open>_report_access_result\<close>: the line it prints and the code\<close>

definition report_access_result :: "access_result \<Rightarrow> string \<times> int" where
  "report_access_result r =
     (if dec_effect (ar_decision r) \<noteq> ALLOW then (''Access denied.'', exit_access_denied)
      else case ar_session r of
        None \<Rightarrow> (''Privileged session failed.'', exit_session_failed)
      | Some x \<Rightarrow>
          if ses_status x = FAILED then (''Privileged session failed.'', exit_session_failed)
          else if ses_status x \<noteq> CLOSED then (''Privileged session failed.'', exit_session_failed)
          else if ses_close_reason x = Some (lit ''max_duration_exceeded'')
          then (''Session closed: maximum duration reached.'', exit_success)
          else (''Session closed.'', exit_success))"

definition new_request :: "('w, 's) cli_ports \<Rightarrow> authenticated_principal \<Rightarrow> pystr \<Rightarrow> ('w, 's, access_request) cli_io" where
  "new_request P who target_id =
     bind (perform (cp_new_id P) RequestId) (\<lambda>i.
     bind (perform (cp_now P) RequestTime) (\<lambda>t.
     lift (mk_access_request i (pr_user_id who) target_id OPEN_PRIVILEGED_SESSION t)))"

definition run_request ::
  "('w, 's) cli_ports \<Rightarrow> 's \<Rightarrow> authenticated_principal \<Rightarrow> pystr \<Rightarrow> access_request \<Rightarrow> ('w, 's, int) cli_io" where
  "run_request P services who target_id request =
     seq (print_line (lit ''Authenticated. Requesting access to '' @ target_id @ lit ''...''))
    (or_exit (perform (cp_access P services who request) (Access who request)) (\<lambda>_. True)
       (\<lambda>_. (''Privileged session failed.'', exit_session_failed)) (\<lambda>result.
     seq (print_line (lit (fst (report_access_result result))))
         (ret (snd (report_access_result result)))))"

definition run_authenticated ::
  "('w, 's) cli_ports \<Rightarrow> pystr \<Rightarrow> 's \<Rightarrow> authenticated_principal \<Rightarrow> ('w, 's, int) cli_io" where
  "run_authenticated P target_id services who =
     or_exit (new_request P who target_id) (\<lambda>_. True)
       (\<lambda>_. (''Application failure.'', exit_internal_failure))
       (run_request P services who target_id)"

definition run_login ::
  "('w, 's) cli_ports \<Rightarrow> pystr \<Rightarrow> pystr \<Rightarrow> 's \<Rightarrow> pystr \<Rightarrow> ('w, 's, int) cli_io" where
  "run_login P username target_id services pam_password =
     or_exit (perform (cp_authenticate P services username pam_password) (Authenticate username pam_password))
       (\<lambda>_. True)
       (\<lambda>e. if catches AuthenticationFailedError e then (''Authentication failed.'', exit_authentication_failed)
             else (''Application failure.'', exit_internal_failure))
       (run_authenticated P target_id services)"

definition run_started :: "('w, 's) cli_ports \<Rightarrow> pystr \<Rightarrow> pystr \<Rightarrow> 's \<Rightarrow> ('w, 's, int) cli_io" where
  "run_started P username target_id services =
     or_exit (perform (cp_getpass P) Getpass) (catches_any [EOFError, KeyboardInterrupt])
       (\<lambda>_. (''Authentication failed.'', exit_authentication_failed))
       (run_login P username target_id services)"

definition run_access ::
  "('w, 's) cli_ports \<Rightarrow> path \<Rightarrow> pystr \<Rightarrow> pystr \<Rightarrow> rat option \<Rightarrow> ('w, 's, int) cli_io" where
  "run_access P runtime_dir username target_id max_session_seconds =
     bind (perform (cp_provisioned P runtime_dir) Provisioned) (\<lambda>provisioned.
     if \<not> provisioned then
       seq (print_line (lit ''Runtime is not provisioned. Run the lab provisioning tool first.''))
           (ret exit_internal_failure)
     else
     or_exit (bind (lift (runtime_settings_of runtime_dir max_session_seconds))
                (\<lambda>settings. perform (cp_build P settings) Build)) is_exception
       (\<lambda>_. (''Application startup failed. Check the provisioned runtime.'', exit_internal_failure))
       (run_started P username target_id))"

text \<open>
  \<open>_execute_interactive_access\<close>: the service handles the request while the terminal is raw.
\<close>

record ('a, 'w) console = "'a tty" +
  console_world :: 'w

definition execute_interactive_access ::
  "('a \<Rightarrow> 'a) \<Rightarrow> local_terminal \<Rightarrow> ('w, 'h) ports \<Rightarrow> int \<Rightarrow> authenticated_principal \<Rightarrow> access_request \<Rightarrow>
   (('a, 'w) console, access_result) io" where
  "execute_interactive_access raw t P max_session who request =
     with_raw_terminal raw (lt_input_fd t) (\<lambda>s.
       case handle P max_session (Some who) request (initial_state (console_world s)) of
         (r, s') \<Rightarrow> (r, s\<lparr>console_world := world s'\<rparr>))"

section \<open>The audit tool (\<open>tools/verify_audit.py\<close>)\<close>

definition verify_audit_main :: "hmac \<Rightarrow> path \<Rightarrow> (dbhost, int) io" where
  "verify_audit_main hmac dir =
     (let db = runtime_file dir ''audit.db''; key = runtime_file dir ''audit.key'' in
      try_except
        (bind (os_call (\<lambda>h. (Inr (nonempty_file h db \<and> nonempty_file h key), h))) (\<lambda>there.
         if \<not> there then raise (err ValueError [])
         else seq (mk_audit_repository (get_key key) db)
             (seq (verify_integrity hmac (get_key key) db) (ret 0))))
        is_exception (\<lambda>_. ret 1))"

section \<open>What the access command does\<close>

lemma or_exit_run:
  assumes "or_exit m p h k s = (r, s')" "m s = (q, s1)"
  shows "(\<exists>x. q = Inr x \<and> k x s1 = (r, s'))
    \<or> (\<exists>e. q = Inl e \<and> p e \<and> r = Inr (snd (h e)) \<and> trace s' = trace s1 @ [Print (lit (fst (h e)))])
    \<or> (\<exists>e. q = Inl e \<and> \<not> p e \<and> r = Inl e \<and> s' = s1)"
  using assms
  by (cases q) (auto simp: or_exit_def bind_apply seq_apply try_except_def print_line_def split: if_splits)

text \<open>The lines the program may print\<close>

definition fixed_lines :: "string list" where
  "fixed_lines = [''Runtime is not provisioned. Run the lab provisioning tool first.'',
     ''Application startup failed. Check the provisioned runtime.'', ''Authentication failed.'',
     ''Application failure.'', ''Privileged session failed.'', ''Access denied.'',
     ''Session closed: maximum duration reached.'', ''Session closed.'']"

fun line_ok :: "pystr \<Rightarrow> 's cli_obs \<Rightarrow> bool" where
  "line_ok target_id (Print l) = (l \<in> lit ` set fixed_lines
     \<or> l = lit ''Authenticated. Requesting access to '' @ target_id @ lit ''...'')"
| "line_ok target_id _ = True"

definition printable :: "pystr \<Rightarrow> 's cli_obs list \<Rightarrow> bool" where
  "printable target_id obs \<longleftrightarrow> list_all (line_ok target_id) obs"

lemma printable_simps [simp]:
  "printable t []" "printable t (xs @ ys) \<longleftrightarrow> printable t xs \<and> printable t ys"
  "printable t (x # xs) \<longleftrightarrow> line_ok t x \<and> printable t xs"
  by (simp_all add: printable_def)

lemma fixed_line_ok [intro]: "l \<in> set fixed_lines \<Longrightarrow> line_ok t (Print (lit l))"
  by simp

lemma fixed_lines_mem [simp]: "l \<in> set fixed_lines" if "l \<in> {''Runtime is not provisioned. Run the lab provisioning tool first.'',
     ''Application startup failed. Check the provisioned runtime.'', ''Authentication failed.'',
     ''Application failure.'', ''Privileged session failed.'', ''Access denied.'',
     ''Session closed: maximum duration reached.'', ''Session closed.''}"
  using that by (simp add: fixed_lines_def)

declare line_ok.simps(1) [simp del]

definition closed_session :: "access_result \<Rightarrow> bool" where
  "closed_session r \<longleftrightarrow> dec_effect (ar_decision r) = ALLOW
     \<and> (\<exists>x. ar_session r = Some x \<and> ses_status x = CLOSED)"

lemma report_cases:
  "snd (report_access_result r) = (if dec_effect (ar_decision r) \<noteq> ALLOW then 3
     else if closed_session r then 0 else 4)"
  "fst (report_access_result r) \<in> set fixed_lines"
  by (auto simp: report_access_result_def closed_session_def exit_codes fixed_lines_def split: option.splits)

text \<open>Why the command ends with which code, after the calls it has made\<close>

inductive login_run :: "pystr \<Rightarrow> authenticated_principal \<Rightarrow> 's cli_obs list \<Rightarrow> int res \<Rightarrow> bool"
  for target_id w where
  unrequested: "n = [RequestId i] \<or> n = [RequestId i, RequestTime d] \<Longrightarrow>
    login_run target_id w (n @ [Print l]) (Inr 1)"
| failed: "req_user_id q = pr_user_id w \<Longrightarrow> req_target_id q = target_id \<Longrightarrow>
    login_run target_id w [RequestId (Inr i), RequestTime (Inr d), Print l, Access w q (Inl e), Print l'] (Inr 4)"
| finished: "req_user_id q = pr_user_id w \<Longrightarrow> req_target_id q = target_id \<Longrightarrow>
    login_run target_id w [RequestId (Inr i), RequestTime (Inr d), Print l, Access w q (Inr x), Print l']
      (Inr (snd (report_access_result x)))"

inductive cli_run :: "pystr \<Rightarrow> pystr \<Rightarrow> 's cli_obs list \<Rightarrow> int res \<Rightarrow> bool" for username target_id where
  unknown: "cli_run username target_id [Provisioned (Inl e)] (Inl e)"
| unprovisioned: "cli_run username target_id [Provisioned (Inr False), Print l] (Inr 1)"
| unstarted: "b = [] \<or> (\<exists>e. b = [Build (Inl e)]) \<Longrightarrow>
    cli_run username target_id (Provisioned (Inr True) # b @ [Print l]) (Inr 1)"
| interrupted: "b = [] \<or> (\<exists>e. b = [Build (Inl e)]) \<Longrightarrow> \<not> is_exception e \<Longrightarrow>
    cli_run username target_id (Provisioned (Inr True) # b) (Inl e)"
| cancelled: "catches_any [EOFError, KeyboardInterrupt] e \<Longrightarrow>
    cli_run username target_id [Provisioned (Inr True), Build (Inr v), Getpass (Inl e), Print l] (Inr 2)"
| unread: "\<not> catches_any [EOFError, KeyboardInterrupt] e \<Longrightarrow>
    cli_run username target_id [Provisioned (Inr True), Build (Inr v), Getpass (Inl e)] (Inl e)"
| refused: "cli_run username target_id [Provisioned (Inr True), Build (Inr v), Getpass (Inr p),
      Authenticate username p (Inl e), Print l] (Inr (if catches AuthenticationFailedError e then 2 else 1))"
| logged_in: "login_run target_id w obs r \<Longrightarrow>
    cli_run username target_id (Provisioned (Inr True) # Build (Inr v) # Getpass (Inr p)
      # Authenticate username p (Inr w) # obs) r"

lemma mk_access_request_fields:
  "mk_access_request i u t a d = Inr q \<Longrightarrow> req_user_id q = u \<and> req_target_id q = t"
  by (auto simp: mk_access_request_def)

lemma run_request_run:
  assumes "run_request P v w target_id q s = (r, s')"
  shows "\<exists>l x l'. line_ok target_id (Print l :: 's cli_obs) \<and> line_ok target_id (Print l' :: 's cli_obs)
    \<and> trace s' = trace s @ [Print l, Access w q x, Print l' :: 's cli_obs]
    \<and> r = Inr (case x of Inl e \<Rightarrow> 4 | Inr y \<Rightarrow> snd (report_access_result y))"
proof -
  let ?l = "lit ''Authenticated. Requesting access to '' @ target_id @ lit ''...''"
  let ?s = "s\<lparr>trace := trace s @ [Print ?l]\<rparr>"
  obtain x s1 where x: "perform (cp_access P v w q) (Access w q) ?s = (x, s1)" by fastforce
  have l: "line_ok target_id (Print ?l :: 's cli_obs)" by (simp add: line_ok.simps(1))
  from assms have o: "or_exit (perform (cp_access P v w q) (Access w q)) (\<lambda>_. True)
       (\<lambda>_. (''Privileged session failed.'', exit_session_failed)) (\<lambda>result.
     seq (print_line (lit (fst (report_access_result result))))
         (ret (snd (report_access_result result)))) ?s = (r, s')"
    by (simp add: run_request_def seq_apply print_line_def)
  have tr: "trace s1 = trace s @ [Print ?l, Access w q x]" using perform_run(1) [OF x] by simp
  from or_exit_run [OF o x] show ?thesis
  proof (elim disjE exE conjE)
    fix y
    assume "x = Inr y" "seq (print_line (lit (fst (report_access_result y))))
         (ret (snd (report_access_result y))) s1 = (r, s')"
    with tr l fixed_line_ok [OF report_cases(2) [of y]] show ?thesis
      by (intro exI [of _ ?l] exI [of _ x] exI [of _ "lit (fst (report_access_result y))"])
        (auto simp: seq_apply print_line_def)
  next
    fix e
    assume "x = Inl e" "r = Inr (snd (''Privileged session failed.'', exit_session_failed))"
      "trace s' = trace s1 @ [Print (lit (fst (''Privileged session failed.'', exit_session_failed)))]"
    with tr l show ?thesis
      by (intro exI [of _ ?l] exI [of _ x] exI [of _ "lit ''Privileged session failed.''"])
        (auto simp: exit_codes)
  qed simp
qed

lemma new_request_run:
  assumes "new_request P w target_id s = (r, s')"
  shows "(\<exists>i d q. r = Inr q \<and> trace s' = trace s @ [RequestId (Inr i), RequestTime (Inr d)]
      \<and> req_user_id q = pr_user_id w \<and> req_target_id q = target_id)
    \<or> (\<exists>e n i d. r = Inl e \<and> trace s' = trace s @ n \<and> (n = [RequestId i] \<or> n = [RequestId i, RequestTime d]))"
proof -
  obtain i s1 where i: "perform (cp_new_id P) RequestId s = (i, s1)" by fastforce
  obtain d s2 where d: "perform (cp_now P) RequestTime s1 = (d, s2)" by fastforce
  note tr = perform_run(1) [OF i] perform_run(1) [OF d]
  show ?thesis
  proof (cases "isl i \<or> isl d")
    case True
    with assms i d tr show ?thesis by (cases i; cases d) (auto simp: new_request_def bind_apply)
  next
    case False
    then obtain x y where xy: "i = Inr x" "d = Inr y" by (cases i; cases d) auto
    let ?q = "mk_access_request x (pr_user_id w) target_id OPEN_PRIVILEGED_SESSION y"
    from assms i d xy have r: "r = ?q" "s' = s2" by (simp_all add: new_request_def bind_apply)
    show ?thesis
    proof (cases ?q)
      case (Inl e)
      with r tr show ?thesis by auto
    next
      case (Inr q)
      with r tr xy mk_access_request_fields [OF Inr] show ?thesis by auto
    qed
  qed
qed

lemma run_authenticated_run:
  assumes "run_authenticated P target_id v w s = (r, s')"
  shows "\<exists>obs. trace s' = trace s @ obs \<and> login_run target_id w obs r \<and> printable target_id obs"
proof -
  obtain q s1 where q: "new_request P w target_id s = (q, s1)" by fastforce
  from or_exit_run [OF assms [unfolded run_authenticated_def] q] show ?thesis
  proof (elim disjE exE conjE)
    fix y
    assume y: "q = Inr y" "run_request P v w target_id y s1 = (r, s')"
    with new_request_run [OF q] obtain i d where n: "trace s1 = trace s @ [RequestId (Inr i), RequestTime (Inr d)]"
      "req_user_id y = pr_user_id w" "req_target_id y = target_id" by auto
    from run_request_run [OF y(2)] obtain l x l' where x: "line_ok target_id (Print l :: 'b cli_obs)"
      "line_ok target_id (Print l' :: 'b cli_obs)" "trace s' = trace s1 @ [Print l, Access w y x, Print l']"
      "r = Inr (case x of Inl e \<Rightarrow> 4 | Inr y \<Rightarrow> snd (report_access_result y))" by blast
    let ?obs = "[RequestId (Inr i), RequestTime (Inr d), Print l, Access w y x, Print l']"
    have "login_run target_id w ?obs r"
      using n(2,3) x(4) by (cases x) (auto intro: login_run.intros)
    with n(1) x show ?thesis by (intro exI [of _ ?obs]) simp
  next
    fix e
    assume e: "q = Inl e" "r = Inr (snd (''Application failure.'', exit_internal_failure))"
      "trace s' = trace s1 @ [Print (lit (fst (''Application failure.'', exit_internal_failure)))]"
    with new_request_run [OF q] obtain n i d where n: "trace s1 = trace s @ n"
      "n = [RequestId i] \<or> n = [RequestId i, RequestTime d]" by auto
    with e show ?thesis
      by (intro exI [of _ "n @ [Print (lit ''Application failure.'')]"])
        (auto simp: exit_codes intro: login_run.unrequested)
  qed simp
qed

lemma run_login_run:
  assumes "run_login P username target_id v p s = (r, s')"
  shows "(\<exists>e l. catches AuthenticationFailedError e \<and> r = Inr 2 \<and> line_ok target_id (Print l :: 's cli_obs)
        \<and> trace s' = trace s @ [Authenticate username p (Inl e), Print l :: 's cli_obs])
    \<or> (\<exists>e l. \<not> catches AuthenticationFailedError e \<and> r = Inr 1 \<and> line_ok target_id (Print l :: 's cli_obs)
        \<and> trace s' = trace s @ [Authenticate username p (Inl e), Print l :: 's cli_obs])
    \<or> (\<exists>w obs. login_run target_id w obs r \<and> printable target_id obs
        \<and> trace s' = trace s @ Authenticate username p (Inr w) # obs)"
proof -
  obtain q s1 where q: "perform (cp_authenticate P v username p) (Authenticate username p) s = (q, s1)" by fastforce
  note tr = perform_run(1) [OF q]
  let ?h = "\<lambda>e. if catches AuthenticationFailedError e
      then (''Authentication failed.'', exit_authentication_failed)
      else (''Application failure.'', exit_internal_failure)"
  from or_exit_run [OF assms [unfolded run_login_def] q] show ?thesis
  proof (elim disjE exE conjE)
    fix w
    assume w: "q = Inr w" "run_authenticated P target_id v w s1 = (r, s')"
    from run_authenticated_run [OF w(2)] tr w(1) show ?thesis by auto
  next
    fix e
    assume e: "q = Inl e" "r = Inr (snd (?h e))" "trace s' = trace s1 @ [Print (lit (fst (?h e)))]"
    show ?thesis
    proof (cases "catches AuthenticationFailedError e")
      case True
      with e tr have "catches AuthenticationFailedError e \<and> r = Inr 2
          \<and> line_ok target_id (Print (lit ''Authentication failed.'') :: 's cli_obs)
          \<and> trace s' = trace s @ [Authenticate username p (Inl e), Print (lit ''Authentication failed.'')]"
        by (simp add: exit_codes fixed_line_ok)
      then show ?thesis by blast
    next
      case False
      with e tr have "\<not> catches AuthenticationFailedError e \<and> r = Inr 1
          \<and> line_ok target_id (Print (lit ''Application failure.'') :: 's cli_obs)
          \<and> trace s' = trace s @ [Authenticate username p (Inl e), Print (lit ''Application failure.'')]"
        by (simp add: exit_codes fixed_line_ok)
      then show ?thesis by blast
    qed
  qed simp
qed

lemma refused_code: "c = (if catches AuthenticationFailedError e then 2 else 1) \<Longrightarrow>
    cli_run username target_id [Provisioned (Inr True), Build (Inr v), Getpass (Inr p),
      Authenticate username p (Inl e), Print l] (Inr c)"
  by (simp only: cli_run.refused)

lemma run_started_run:
  assumes "run_started P username target_id v s = (r, s')"
  shows "\<exists>obs. trace s' = trace s @ obs \<and> printable target_id obs
    \<and> (\<forall>v. cli_run username target_id (Provisioned (Inr True) # Build (Inr v) # obs) r)"
proof -
  obtain q s1 where q: "perform (cp_getpass P) Getpass s = (q, s1)" by fastforce
  note tr = perform_run(1) [OF q]
  from or_exit_run [OF assms [unfolded run_started_def] q] show ?thesis
  proof (elim disjE exE conjE)
    fix p
    assume p: "q = Inr p" "run_login P username target_id v p s1 = (r, s')"
    from run_login_run [OF p(2)] show ?thesis
    proof (elim disjE exE conjE)
      fix e l
      assume "catches AuthenticationFailedError e" "r = Inr 2" "line_ok target_id (Print l :: 'b cli_obs)"
        "trace s' = trace s1 @ [Authenticate username p (Inl e), Print l]"
      with tr p(1) show ?thesis
        by (intro exI [of _ "[Getpass (Inr p), Authenticate username p (Inl e), Print l]"])
          (simp add: refused_code)
    next
      fix e l
      assume "\<not> catches AuthenticationFailedError e" "r = Inr 1" "line_ok target_id (Print l :: 'b cli_obs)"
        "trace s' = trace s1 @ [Authenticate username p (Inl e), Print l]"
      with tr p(1) show ?thesis
        by (intro exI [of _ "[Getpass (Inr p), Authenticate username p (Inl e), Print l]"])
          (simp add: refused_code)
    next
      fix w obs
      assume "login_run target_id w obs r" "printable target_id obs"
        "trace s' = trace s1 @ Authenticate username p (Inr w) # obs"
      with tr p(1) show ?thesis
        by (intro exI [of _ "Getpass (Inr p) # Authenticate username p (Inr w) # obs"])
          (simp add: cli_run.logged_in)
    qed
  next
    fix e
    assume "q = Inl e" "catches_any [EOFError, KeyboardInterrupt] e"
      "r = Inr (snd (''Authentication failed.'', exit_authentication_failed))"
      "trace s' = trace s1 @ [Print (lit (fst (''Authentication failed.'', exit_authentication_failed)))]"
    with tr show ?thesis
      by (intro exI [of _ "[Getpass (Inl e), Print (lit ''Authentication failed.'')]"])
        (auto simp: exit_codes intro: cli_run.cancelled)
  next
    fix e
    assume "q = Inl e" "\<not> catches_any [EOFError, KeyboardInterrupt] e" "r = Inl e" "s' = s1"
    with tr show ?thesis
      by (intro exI [of _ "[Getpass (Inl e)]"]) (auto intro: cli_run.unread)
  qed
qed

lemma run_access_run:
  assumes "run_access P dir username target_id secs s = (r, s')"
  shows "\<exists>obs. trace s' = trace s @ obs \<and> cli_run username target_id obs r \<and> printable target_id obs"
proof -
  obtain a s1 where a: "perform (cp_provisioned P dir) Provisioned s = (a, s1)" by fastforce
  note ta = perform_run(1) [OF a]
  consider e where "a = Inl e" | "a = Inr False" | "a = Inr True" by (cases a) auto
  then show ?thesis
  proof cases
    case 1
    with assms a ta show ?thesis by (auto simp: run_access_def bind_apply intro: cli_run.unknown)
  next
    case 2
    with assms a have "r = Inr 1" "trace s' = trace s1 @ [Print (lit
        ''Runtime is not provisioned. Run the lab provisioning tool first.'')]"
      by (auto simp: run_access_def bind_apply seq_apply print_line_def exit_codes)
    with 2 ta show ?thesis
      by (intro exI [of _ "[Provisioned (Inr False),
          Print (lit ''Runtime is not provisioned. Run the lab provisioning tool first.'')]"])
        (auto intro: cli_run.unprovisioned)
  next
    case 3
    let ?m = "bind (lift (runtime_settings_of dir secs)) (\<lambda>settings. perform (cp_build P settings) Build)"
    let ?f = "(''Application startup failed. Check the provisioned runtime.'', exit_internal_failure)"
    obtain b s2 where b: "?m s1 = (b, s2)" by fastforce
    have tb: "\<exists>bs. trace s2 = trace s1 @ bs \<and> (case b of Inl e \<Rightarrow> bs = [] \<or> (\<exists>e. bs = [Build (Inl e)])
        | Inr v \<Rightarrow> bs = [Build (Inr v)])"
    proof (cases "runtime_settings_of dir secs")
      case (Inl e)
      with b show ?thesis by auto
    next
      case (Inr st)
      with b have "perform (cp_build P st) Build s1 = (b, s2)" by simp
      from perform_run(1) [OF this] show ?thesis by (cases b) auto
    qed
    from assms a 3 have "or_exit ?m is_exception (\<lambda>_. ?f) (run_started P username target_id) s1 = (r, s')"
      by (simp add: run_access_def bind_apply)
    from or_exit_run [OF this b] show ?thesis
    proof (elim disjE exE conjE)
      fix v
      assume v: "b = Inr v" "run_started P username target_id v s2 = (r, s')"
      from run_started_run [OF v(2)] obtain obs where "trace s' = trace s2 @ obs" "printable target_id obs"
        "cli_run username target_id (Provisioned (Inr True) # Build (Inr v) # obs) r" by blast
      with tb v(1) ta 3 show ?thesis
        by (intro exI [of _ "Provisioned (Inr True) # Build (Inr v) # obs"]) auto
    next
      fix e
      assume e: "b = Inl e" "r = Inr (snd ?f)" "trace s' = trace s2 @ [Print (lit (fst ?f))]"
      with tb obtain bs where bs: "trace s2 = trace s1 @ bs" "bs = [] \<or> (\<exists>e. bs = [Build (Inl e)])" by auto
      with e ta 3 show ?thesis
        by (intro exI [of _ "Provisioned (Inr True) # bs @ [Print (lit (fst ?f))]"])
          (auto simp: exit_codes intro: cli_run.unstarted [of "[]", simplified] cli_run.unstarted [of "[Build (Inl e)]" for e, simplified])
    next
      fix e
      assume e: "b = Inl e" "\<not> is_exception e" "r = Inl e" "s' = s2"
      with tb obtain bs where bs: "trace s2 = trace s1 @ bs" "bs = [] \<or> (\<exists>e. bs = [Build (Inl e)])" by auto
      with cli_run.interrupted [OF bs(2) e(2)] e ta 3 show ?thesis
        by (intro exI [of _ "Provisioned (Inr True) # bs"]) auto
    qed
  qed
qed

text \<open>
  C31. What an exit code of the access command says: 0 exactly for a session that was allowed and
  closed, 3 for a denial, 4 for any other end of an access that was tried, 2 exactly when the
  password entry was cancelled or the authentication failed, and 1 for the rest. Access is tried
  only for the principal that the typed password authenticated, for the given target; and the
  only lines printed are fixed texts and the target id, never a password or an error.
\<close>

theorem access_exit_codes:
  assumes "run_access P dir username target_id secs s = (Inr code, s')"
  shows "\<exists>obs. trace s' = trace s @ obs \<and> printable target_id obs \<and> 0 \<le> code \<and> code \<le> 4
    \<and> (code = 0 \<longleftrightarrow> (\<exists>w q x. Access w q (Inr x) \<in> set obs \<and> closed_session x))
    \<and> (code = 3 \<longleftrightarrow> (\<exists>w q x. Access w q (Inr x) \<in> set obs \<and> dec_effect (ar_decision x) \<noteq> ALLOW))
    \<and> (code = 4 \<longleftrightarrow> (\<exists>w q. (\<exists>e. Access w q (Inl e) \<in> set obs)
         \<or> (\<exists>x. Access w q (Inr x) \<in> set obs \<and> dec_effect (ar_decision x) = ALLOW \<and> \<not> closed_session x)))
    \<and> (code = 2 \<longleftrightarrow> (\<exists>e. Getpass (Inl e) \<in> set obs)
         \<or> (\<exists>p e. Authenticate username p (Inl e) \<in> set obs \<and> catches AuthenticationFailedError e))
    \<and> (\<forall>w q v. Access w q v \<in> set obs \<longrightarrow> req_user_id q = pr_user_id w \<and> req_target_id q = target_id
         \<and> (\<exists>p. {Getpass (Inr p), Authenticate username p (Inr w)} \<subseteq> set obs))"
proof -
  from run_access_run [OF assms] obtain obs where o: "trace s' = trace s @ obs"
    "cli_run username target_id obs (Inr code)" "printable target_id obs" by blast
  have c: "closed_session x \<Longrightarrow> dec_effect (ar_decision x) = ALLOW" for x by (simp add: closed_session_def)
  from o(2) have main: "0 \<le> code \<and> code \<le> 4
    \<and> (code = 0 \<longleftrightarrow> (\<exists>w q x. Access w q (Inr x) \<in> set obs \<and> closed_session x))
    \<and> (code = 3 \<longleftrightarrow> (\<exists>w q x. Access w q (Inr x) \<in> set obs \<and> dec_effect (ar_decision x) \<noteq> ALLOW))
    \<and> (code = 4 \<longleftrightarrow> (\<exists>w q. (\<exists>e. Access w q (Inl e) \<in> set obs)
         \<or> (\<exists>x. Access w q (Inr x) \<in> set obs \<and> dec_effect (ar_decision x) = ALLOW \<and> \<not> closed_session x)))
    \<and> (code = 2 \<longleftrightarrow> (\<exists>e. Getpass (Inl e) \<in> set obs)
         \<or> (\<exists>p e. Authenticate username p (Inl e) \<in> set obs \<and> catches AuthenticationFailedError e))
    \<and> (\<forall>w q v. Access w q v \<in> set obs \<longrightarrow> req_user_id q = pr_user_id w \<and> req_target_id q = target_id
         \<and> (\<exists>p. {Getpass (Inr p), Authenticate username p (Inr w)} \<subseteq> set obs))"
  proof (cases rule: cli_run.cases)
    case (logged_in w obs' v p)
    have G: "Getpass v' \<in> set obs \<longleftrightarrow> v' = Inr p" "Authenticate username p' u \<in> set obs \<longleftrightarrow> p' = p \<and> u = Inr w"
      for v' p' u using logged_in(2) by (auto simp: logged_in(1) elim: login_run.cases)
    have A: "Access w' q' u \<in> set obs \<longleftrightarrow> Access w' q' u \<in> set obs'" for w' q' u
      by (simp add: logged_in(1))
    from logged_in(2) show ?thesis
    proof (cases rule: login_run.cases)
      case (unrequested n i d l)
      then have "Access w' q' u \<notin> set obs" for w' q' u unfolding A by auto
      with G unrequested(2) show ?thesis by simp
    next
      case (failed q i d l e l')
      then have "Access w' q' u \<in> set obs \<longleftrightarrow> w' = w \<and> q' = q \<and> u = Inl e" for w' q' u unfolding A by auto
      with G failed show ?thesis by simp
    next
      case (finished q i d l x l')
      then have X: "Access w' q' u \<in> set obs \<longleftrightarrow> w' = w \<and> q' = q \<and> u = Inr x" for w' q' u unfolding A by auto
      consider "dec_effect (ar_decision x) \<noteq> ALLOW" "\<not> closed_session x" "code = 3"
        | "dec_effect (ar_decision x) = ALLOW" "closed_session x" "code = 0"
        | "dec_effect (ar_decision x) = ALLOW" "\<not> closed_session x" "code = 4"
        using finished(2) c [of x] report_cases(1) [of x] by (auto split: if_splits)
      then show ?thesis using finished(3,4) by cases (simp_all add: X G)
    qed
  next
    case (refused v p e l)
    then show ?thesis by (cases "catches AuthenticationFailedError e") simp_all
  next
    case (cancelled e v l)
    then show ?thesis by simp
  next
    case (unstarted b l)
    then have "Access w q u \<notin> set obs" "Getpass v \<notin> set obs" "Authenticate username p z \<notin> set obs" for w q u v p z
      by auto
    with unstarted(2) show ?thesis by simp
  next
    case (unprovisioned l)
    then show ?thesis by simp
  qed
  show ?thesis by (rule exI [of _ obs]) (rule conjI [OF o(1) conjI [OF o(3) main]])
qed

definition lab_cli :: "(unit, unit) cli_ports" where
  "lab_cli = \<lparr>cp_provisioned = (\<lambda>d. ret True), cp_build = (\<lambda>s. ret ()), cp_getpass = ret (lit ''pw''),
     cp_authenticate = (\<lambda>v u p. raise (err AuthenticationFailedError ''authentication failed'')),
     cp_new_id = ret (lit ''i''), cp_now = raise (err OtherException []),
     cp_access = (\<lambda>v w q. raise (err OtherException []))\<rparr>"

theorem access_exit_codes_witness:
  "\<exists>s' p e. run_access lab_cli [lit ''r''] (lit ''u'') (lit ''t'') (Some 60) \<lparr>world = (), trace = []\<rparr> = (Inr 2, s')
     \<and> Authenticate (lit ''u'') p (Inl e) \<in> set (trace s') \<and> printable (lit ''t'') (trace s')"
proof -
  have "timedelta_seconds (Some 60) = Inr 60000000" by code_simp
  then have "\<exists>s'. run_access lab_cli [lit ''r''] (lit ''u'') (lit ''t'') (Some 60) \<lparr>world = (), trace = []\<rparr> = (Inr 2, s')
      \<and> Getpass (Inr (lit ''pw'')) \<in> set (trace s') \<and> (\<forall>e. Getpass (Inl e) \<notin> set (trace s'))"
    by (simp add: run_access_def lab_cli_def perform_def bind_def runtime_settings_of_def mk_runtime_settings_def
        or_exit_def try_except_def run_started_def run_login_def exit_codes seq_def print_line_def reject_def raise_if_def)
  then obtain s' where r: "run_access lab_cli [lit ''r''] (lit ''u'') (lit ''t'') (Some 60) \<lparr>world = (), trace = []\<rparr>
      = (Inr 2, s')" "\<forall>e. Getpass (Inl e) \<notin> set (trace s')" by blast
  from access_exit_codes [OF r(1)] r show ?thesis by auto
qed

section \<open>What the audit tool reports\<close>

text \<open>
  On a runtime whose audit database has the current schema and whose key file is readable,
  the tool reports success exactly when the stored rows are the chain of some events under that
  key, so that any other content of the trail is reported; the trail stays as it is.
\<close>

theorem verify_audit_exact:
  assumes "hmac_sized hmac" "quiet_db h (runtime_file dir ''audit.db'') d" "db_version d = 2"
    "map_of (db_tables d) audit_table = Some (made audit_schema audit_unique rows)"
    "\<forall>r \<in> set rows. length r = length audit_schema"
    "key_of h (runtime_file dir ''audit.key'') = Some key"
    "verify_audit_main hmac dir h = (r, h')"
  shows "r = Inr (if \<exists>fs. chain hmac key 1 genesis_mac fs = Some (sort_key (\<lambda>r. r ! 0) rows) then 0 else 1)
    \<and> table_at h' (runtime_file dir ''audit.db'') audit_table = Some (made audit_schema audit_unique rows)"
proof -
  let ?db = "runtime_file dir ''audit.db''" and ?key = "runtime_file dir ''audit.key''"
  have f: "h_faults h = []" "h_files h ?db = Some (Regular 0x180 (Db d))"
    using assms(2) by (simp_all add: quiet_db_def)
  from assms(6) obtain m c where kf: "h_files h ?key = Some (Regular m c)" "content_bytes c = key" "length key = 32"
    by (auto simp: key_of_def split: option.splits node.splits if_splits)
  have "nonempty_file h ?db" "nonempty_file h ?key"
    using f(2) kf by (auto simp: nonempty_file_def stat_node_def follow_regular)
  then have there: "os_call (\<lambda>h. (Inr (nonempty_file h ?db \<and> nonempty_file h ?key), h)) h = (Inr True, h)"
    using f(1) by simp
  obtain h1 where h1: "audit_load_key (get_key ?key) h = (Inr key, h1)" "same_files h h1" "h_faults h1 = []"
    by (rule load_key_works [OF assms(6) kf(3) f(1)])
  have q1: "quiet_db h1 ?db d" using assms(2) h1(2,3) by (simp add: quiet_db_def same_files_def)
  from audit_init_existing [OF q1 assms(3,4)] h1(1) have mk: "mk_audit_repository (get_key ?key) ?db h = (Inr (), h1)"
    by (simp add: mk_audit_repository_def bind_apply)
  have "audit_rows ?db h1 rows"
    using q1 assms(4,5) by (simp add: table_rows_def table_at_def db_at_def quiet_db_def)
  obtain q h2 where q: "verify_integrity hmac (get_key ?key) ?db h1 = (q, h2)" by fastforce
  note run = key_file.verify_run [OF \<open>audit_rows ?db h1 rows\<close> q]
  have k1: "key_of h1 ?key = Some key" using assms(6) h1(2) by (simp add: same_files_key_of)
  have g: "length genesis_mac = 32" by (simp add: genesis_mac_def)
  note iff = verify_rows_chain [OF assms(1) g, of key 1 "sort_key (\<lambda>r. r ! 0) rows"]
  have r: "h' = h2 \<and> r = (case q of Inl e \<Rightarrow> (if is_exception e then Inr 1 else Inl e) | Inr _ \<Rightarrow> Inr 0)"
    using assms(7) there mk q
    by (cases q) (auto simp: verify_audit_main_def Let_def try_except_def bind_apply seq_apply split: if_splits)
  have "table_at h2 ?db audit_table = Some (made audit_schema audit_unique rows)"
    using run by (simp add: table_rows_def)
  moreover have "r = Inr (if \<exists>fs. chain hmac key 1 genesis_mac fs = Some (sort_key (\<lambda>r. r ! 0) rows) then 0 else 1)"
  proof (cases q)
    case (Inl e)
    with run k1 kf(3) h1(3) have "e = integrity_failed" "verify_rows hmac key 1 genesis_mac (sort_key (\<lambda>r. r ! 0) rows) \<noteq> Inr ()"
      by auto
    with r Inl iff show ?thesis by (simp add: integrity_failed_def)
  next
    case (Inr u)
    with run k1 iff r show ?thesis by auto
  qed
  ultimately show ?thesis using r by simp
qed

definition audited_host :: dbhost where
  "audited_host = \<lparr>h_files = [[] \<mapsto> Directory 0x1C0, [lit ''audit.key''] \<mapsto> Regular 0x180 (Bytes (replicate 32 8)),
       [lit ''audit.db''] \<mapsto> Regular 0x180 (Db \<lparr>db_version = 2,
         db_tables = [(audit_table, made audit_schema audit_unique [])]\<rparr>)],
     h_umask = 0, h_entropy = [], h_faults = [], h_chunks = []\<rparr>"

theorem verify_audit_exact_witness:
  "fst (verify_audit_main toy_hmac [] audited_host) = Inr 0"
proof -
  obtain r h' where r: "verify_audit_main toy_hmac [] audited_host = (r, h')" by fastforce
  let ?d = "\<lparr>db_version = 2, db_tables = [(audit_table, made audit_schema audit_unique [])]\<rparr>"
  have q: "quiet_db audited_host (runtime_file [] ''audit.db'') ?d"
    by (simp add: quiet_db_def audited_host_def runtime_file_def)
  have k: "key_of audited_host (runtime_file [] ''audit.key'') = Some (replicate 32 8)"
    by (simp add: key_of_def audited_host_def runtime_file_def)
  have "\<exists>fs. chain toy_hmac (replicate 32 8) 1 genesis_mac fs = Some (sort_key (\<lambda>r. r ! 0) [])"
    by (intro exI [of _ "[]"]) simp
  with verify_audit_exact [OF toy_hmac_sized q _ _ _ k r] r show ?thesis by simp
qed

end
