(* ===== verification/Files.thy ===== *)
theory Files
  imports Host
begin

text \<open>
  What the two lab tools (\<open>tools/provision_lab.py\<close>, \<open>tools/prepare_negative_lab.py\<close>)
  use of the host beyond \<open>Host\<close>: the questions of \<open>pathlib\<close>, directories, and buffered
  binary streams with partial writes. The relation most proofs use is \<open>grows\<close>: nothing that
  existed is changed.
\<close>

unbundle bit_operations_syntax

section \<open>Questions\<close>

fun is_symlink :: "'d node \<Rightarrow> bool" where
  "is_symlink (Symlink q) = True"
| "is_symlink _ = False"

definition path_is_symlink :: "path \<Rightarrow> ('d host, bool) io" where
  "path_is_symlink p = os_call (\<lambda>h. (Inr (case h_files h p of Some n \<Rightarrow> is_symlink n | None \<Rightarrow> False), h))"

definition path_exists :: "path \<Rightarrow> ('d host, bool) io" where
  "path_exists p = os_call (\<lambda>h. (Inr (exists_path h p), h))"

definition path_is_file :: "path \<Rightarrow> ('d host, bool) io" where
  "path_is_file p = os_call (\<lambda>h. (Inr (is_file h p), h))"

definition path_is_dir :: "path \<Rightarrow> ('d host, bool) io" where
  "path_is_dir p = os_call (\<lambda>h.
     (Inr (case stat_node h p of Some n \<Rightarrow> is_directory n | None \<Rightarrow> False), h))"

section \<open>Directories\<close>

text \<open>
  \<open>os.mkdir(p, mode)\<close>; the umask takes its bits away. A missing parent is a
  \<open>FileNotFoundError\<close>, a parent that is no directory another \<open>OSError\<close>.
\<close>

definition os_mkdir :: "path \<Rightarrow> mode \<Rightarrow> ('d host, unit) io" where
  "os_mkdir p m = os_call (\<lambda>h.
     if h_files h p \<noteq> None then (Inl (err FileExistsError ''EEXIST''), h)
     else if h_files h (butlast p) = None then (Inl (err FileNotFoundError ''ENOENT''), h)
     else if \<not> parent_ok h p then (Inl (err OSError ''ENOTDIR''), h)
     else (Inr (), put_node p (Directory (m AND NOT (h_umask h))) h))"

text \<open>\<open>Path.mkdir(mode, parents=False, exist_ok=True)\<close> and \<open>Path.mkdir(mode, parents=True, exist_ok=True)\<close>\<close>

definition accept_directory :: "path \<Rightarrow> exn \<Rightarrow> ('d host, unit) io" where
  "accept_directory p e = bind (path_is_dir p) (\<lambda>there. if there then ret () else raise e)"

definition mkdir_here :: "mode \<Rightarrow> path \<Rightarrow> ('d host, unit) io" where
  "mkdir_here m p = try_except (os_mkdir p m) (catches OSError)
     (\<lambda>e. if catches FileNotFoundError e then raise e else accept_directory p e)"

function mkdir_parents :: "mode \<Rightarrow> path \<Rightarrow> ('d host, unit) io" where
  "mkdir_parents m p = try_except (os_mkdir p m) (catches OSError)
     (\<lambda>e. if catches FileNotFoundError e then
             (if p = [] then raise e
              else seq (mkdir_parents 0x1FF (butlast p)) (mkdir_here m p))
           else accept_directory p e)"
  by pat_completeness auto
termination
  by (relation "measure (\<lambda>(m, p). length p)") auto

declare mkdir_parents.simps [simp del]

text \<open>\<open>os.open(p, O_RDONLY | O_CLOEXEC | O_NOFOLLOW | O_DIRECTORY)\<close>\<close>

definition os_open_directory :: "path \<Rightarrow> ('d host, path) io" where
  "os_open_directory p = os_call (\<lambda>h. case h_files h p of
       None \<Rightarrow> (Inl (err FileNotFoundError ''ENOENT''), h)
     | Some (Directory m) \<Rightarrow> (Inr p, h)
     | Some n \<Rightarrow> (Inl (err OSError ''ENOTDIR''), h))"

section \<open>Buffered streams\<close>

text \<open>
  A stream writes the content \<open>c\<close> to a new file; after \<open>k\<close> octets the file holds the first
  \<open>k\<close> of them, and after all of them \<open>c\<close> itself.
\<close>

definition content_prefix :: "nat \<Rightarrow> 'd content \<Rightarrow> 'd content" where
  "content_prefix k c = (if length (content_bytes c) \<le> k then c else Bytes (take k (content_bytes c)))"

text \<open>
  \<open>write\<close> on the descriptor at offset \<open>off\<close>, of the octets before \<open>stop\<close>: as many as the
  environment takes, at least one.
\<close>

definition os_write_part :: "path \<Rightarrow> 'd content \<Rightarrow> nat \<Rightarrow> nat \<Rightarrow> ('d host, nat) io" where
  "os_write_part d c off stop = os_call (\<lambda>h. case h_files h d of
       Some (Regular m _) \<Rightarrow>
         (case h_chunks h of
            [] \<Rightarrow> (Inr (stop - off), put_node d (Regular m (content_prefix stop c)) h)
          | k # ks \<Rightarrow>
              (let n = min (stop - off) (Suc k) in
               (Inr n, put_node d (Regular m (content_prefix (off + n) c)) (h\<lparr>h_chunks := ks\<rparr>))))
     | _ \<Rightarrow> (Inl (err OSError ''EBADF''), h))"

text \<open>
  Write until at most \<open>keep\<close> of the octets before \<open>stop\<close> are left. The offset that was reached is
  part of the stream, also when a write fails. \<open>flush\<close> keeps nothing.
\<close>

function drain :: "nat \<Rightarrow> path \<Rightarrow> 'd content \<Rightarrow> nat \<Rightarrow> nat \<Rightarrow> 'd host \<Rightarrow> (unit res \<times> nat) \<times> 'd host" where
  "drain keep d c stop off h =
     (if stop \<le> off + keep then ((Inr (), off), h)
      else case os_write_part d c off stop h of
        (Inl e, h') \<Rightarrow> ((Inl e, off), h')
      | (Inr n, h') \<Rightarrow> drain keep d c stop (off + n) h')"
  by pat_completeness auto
termination
  by (relation "measure (\<lambda>(keep, d, c, stop, off, h). stop - off)")
    (auto simp: os_write_part_def os_call_def faultable_eq Let_def
      split: option.splits node.splits list.splits dest!: sym [of "(Inr _, _)"])

declare drain.simps [simp del]

abbreviation flush_to :: "path \<Rightarrow> 'd content \<Rightarrow> nat \<Rightarrow> nat \<Rightarrow> 'd host \<Rightarrow> (unit res \<times> nat) \<times> 'd host" where
  "flush_to \<equiv> drain 0"

definition os_fsync :: "path \<Rightarrow> ('d host, unit) io" where
  "os_fsync d = os_call (ret ())"

text \<open>
  \<open>close\<close> of a buffered writer: what is pending is flushed, and the descriptor is closed even
  if that fails.
\<close>

definition close_stream :: "path \<Rightarrow> 'd content \<Rightarrow> nat \<Rightarrow> nat \<Rightarrow> ('d host, unit) io" where
  "close_stream d c stop off = (\<lambda>h. case flush_to d c stop off h of
     ((r, _), h1) \<Rightarrow> try_finally (lift r) (os_close d) h1)"

section \<open>What existed is kept\<close>

definition grows :: "'d host \<Rightarrow> 'd host \<Rightarrow> bool" where
  "grows h h' \<longleftrightarrow> h_files h \<subseteq>\<^sub>m h_files h' \<and> h_umask h' = h_umask h"

lemma grows_refl [simp]: "grows h h"
  by (simp add: grows_def)

lemma grows_trans: "grows h i \<Longrightarrow> grows i j \<Longrightarrow> grows h j"
  by (auto simp: grows_def intro: map_le_trans)

lemma same_files_grows: "same_files h h' \<Longrightarrow> grows h h'"
  by (simp add: same_files_def grows_def)

lemma growsD: "grows h h' \<Longrightarrow> h_files h p = Some n \<Longrightarrow> h_files h' p = Some n"
  by (metis domI grows_def map_le_def)

lemma grows_new: "grows h i \<Longrightarrow> h_files h p = None \<Longrightarrow> h_files j = (h_files i)(p \<mapsto> n) \<Longrightarrow>
    h_umask j = h_umask i \<Longrightarrow> grows h j"
  by (auto simp: grows_def map_le_def)

lemma follow_grows:
  assumes "fs \<subseteq>\<^sub>m fs'"
  shows "follow n fs p = Inr q \<Longrightarrow> fs q \<noteq> None \<Longrightarrow> follow n fs' p = Inr q \<and> fs' q \<noteq> None"
proof (induction n arbitrary: p)
  case (Suc n)
  have sub: "fs x = Some y \<Longrightarrow> fs' x = Some y" for x y using assms by (metis domI map_le_def)
  show ?case
  proof (cases "fs p")
    case None
    with Suc.prems show ?thesis by (auto split: option.splits)
  next
    case (Some x)
    with Suc sub [OF Some] show ?thesis by (cases x) auto
  qed
qed simp

lemma grows_exists: "grows h h' \<Longrightarrow> exists_path h p \<Longrightarrow> exists_path h' p"
  using follow_grows [of "h_files h" "h_files h'" max_links p]
  by (auto simp: exists_path_def stat_node_def grows_def split: sum.splits)

text \<open>Only the paths of \<open>P\<close> may be changed.\<close>

definition confined :: "path set \<Rightarrow> 'd host \<Rightarrow> 'd host \<Rightarrow> bool" where
  "confined P h h' \<longleftrightarrow> (\<forall>q. q \<notin> P \<longrightarrow> h_files h' q = h_files h q) \<and> h_umask h' = h_umask h"

lemma confined_refl [simp]: "confined P h h"
  by (simp add: confined_def)

lemma confined_trans: "confined P h i \<Longrightarrow> confined P i j \<Longrightarrow> confined P h j"
  by (simp add: confined_def)

lemma confined_mono: "confined P h i \<Longrightarrow> P \<subseteq> Q \<Longrightarrow> confined Q h i"
  by (auto simp: confined_def)

lemma same_files_confined: "same_files h h' \<Longrightarrow> confined P h h'"
  by (simp add: same_files_def confined_def)

lemma confinedD: "confined P h h' \<Longrightarrow> q \<notin> P \<Longrightarrow> h_files h' q = h_files h q"
  by (simp add: confined_def)

lemma confined_grows: "confined P h h' \<Longrightarrow> \<forall>p \<in> P. h_files h p = None \<Longrightarrow> grows h h'"
  unfolding confined_def grows_def map_le_def by (metis domIff)

lemma os_mkdir_run:
  "os_mkdir p m h = (r, h') \<Longrightarrow> grows h h' \<and> h_entropy h' = h_entropy h
     \<and> (\<forall>q. q \<noteq> p \<longrightarrow> h_files h' q = h_files h q)
     \<and> (case r of Inl e \<Rightarrow> catches OSError e
        | Inr _ \<Rightarrow> h_files h p = None \<and> (\<exists>m. h_files h' p = Some (Directory m)))"
  by (auto simp: os_mkdir_def os_call_def faultable_eq put_node_def grows_def map_le_def split: if_splits)

text \<open>A question changes no file; only a fault keeps it from being answered.\<close>

definition asks :: "('d host, 'a) io \<Rightarrow> ('d host \<Rightarrow> 'a) \<Rightarrow> bool" where
  "asks m f \<longleftrightarrow> (\<forall>h r h'. m h = (r, h') \<longrightarrow> same_files h h'
     \<and> (r = Inr (f h) \<or> r = Inl (err OSError ''EIO'') \<and> h_faults h \<noteq> []))"

lemma asksD: "asks m f \<Longrightarrow> m h = (r, h') \<Longrightarrow> same_files h h'
     \<and> (r = Inr (f h) \<or> r = Inl (err OSError ''EIO'') \<and> h_faults h \<noteq> [])"
  unfolding asks_def by blast

lemma asks_os_call:
  assumes "\<And>h fs. f (h\<lparr>h_faults := fs\<rparr>) = f h"
  shows "asks (os_call (\<lambda>h. (Inr (f h), h))) f"
  using assms by (auto simp: asks_def os_call_def faultable_eq)

lemma node_cases_option:
  "(case x of Some n \<Rightarrow> is_symlink n | None \<Rightarrow> False) = (\<exists>q. x = Some (Symlink q))"
  "(case x of Some n \<Rightarrow> is_directory n | None \<Rightarrow> False) = (\<exists>m. x = Some (Directory m))"
  "(case x of Some n \<Rightarrow> is_regular n | None \<Rightarrow> False) = (\<exists>m c. x = Some (Regular m c))"
  by (auto elim: is_symlink.elims is_directory.elims is_regular.elims split: option.splits)

lemma stat_node_faults [simp]: "stat_node (h\<lparr>h_faults := fs\<rparr>) p = stat_node h p"
  by (simp add: stat_node_def split: sum.split)

lemma stat_same_files:
  "same_files h h' \<Longrightarrow> stat_node h' p = stat_node h p"
  "same_files h h' \<Longrightarrow> exists_path h' p = exists_path h p"
  by (simp_all add: same_files_def stat_node_def exists_path_def split: sum.split)

lemma path_questions:
  "asks (path_is_symlink p) (\<lambda>h. \<exists>q. h_files h p = Some (Symlink q))"
  "asks (path_exists p) (\<lambda>h. exists_path h p)"
  "asks (path_is_file p) (\<lambda>h. \<exists>m c. stat_node h p = Some (Regular m c))"
  "asks (path_is_dir p) (\<lambda>h. \<exists>m. stat_node h p = Some (Directory m))"
  unfolding path_is_symlink_def path_exists_def path_is_file_def path_is_dir_def is_file_def node_cases_option
  by (rule asks_os_call; simp add: exists_path_def)+

lemma accept_directory_run:
  assumes "accept_directory p e h = (r, h')" "catches OSError e"
  shows "same_files h h' \<and> (case r of Inl e' \<Rightarrow> catches OSError e' | Inr _ \<Rightarrow> True)"
proof -
  obtain q h1 where q: "path_is_dir p h = (q, h1)" by fastforce
  from asksD [OF path_questions(4) q] assms q show ?thesis
    by (cases q) (auto simp: accept_directory_def bind_apply split: if_splits)
qed

text \<open>Making directories adds directories on the way to \<open>p\<close>, and nothing else.\<close>

definition leads_to :: "path \<Rightarrow> path \<Rightarrow> bool" where
  "leads_to q p \<longleftrightarrow> take (length q) p = q"

lemma leads_to_refl [simp]: "leads_to p p"
  by (simp add: leads_to_def)

lemma leads_to_length: "leads_to q p \<Longrightarrow> length q \<le> length p"
  unfolding leads_to_def by (metis length_take min.cobounded1)

lemma leads_to_butlast: "leads_to q (butlast p) \<Longrightarrow> leads_to q p"
  using leads_to_length [of q "butlast p"] by (simp add: leads_to_def butlast_conv_take min_def split: if_splits)

definition adds_above :: "path \<Rightarrow> 'd host \<Rightarrow> 'd host \<Rightarrow> bool" where
  "adds_above p h h' \<longleftrightarrow> grows h h' \<and> h_entropy h' = h_entropy h
     \<and> (\<forall>q. h_files h' q \<noteq> h_files h q \<longrightarrow> leads_to q p)"

lemma adds_above_trans: "adds_above p h i \<Longrightarrow> adds_above p i j \<Longrightarrow> adds_above p h j"
  unfolding adds_above_def by (metis grows_trans)

lemma adds_above_update:
  "adds_above p h i \<Longrightarrow> h_files h p = None \<Longrightarrow> h_files j = (h_files i)(p \<mapsto> n) \<Longrightarrow>
    h_umask j = h_umask i \<Longrightarrow> h_entropy j = h_entropy i \<Longrightarrow> adds_above p h j"
  by (simp add: adds_above_def grows_def map_le_def) (metis domIff)

lemma adds_above_here:
  assumes "os_mkdir p m h = (r, h')"
  shows "adds_above p h h'"
  using os_mkdir_run [OF assms] leads_to_refl [of p] unfolding adds_above_def by metis

lemma mkdir_here_run:
  assumes "mkdir_here m p h = (r, h')"
  shows "adds_above p h h' \<and> (case r of Inl e \<Rightarrow> catches OSError e | Inr _ \<Rightarrow> True)"
proof -
  obtain q h1 where q: "os_mkdir p m h = (q, h1)" by fastforce
  note run = os_mkdir_run [OF q]
  note a = adds_above_here [OF q]
  show ?thesis
  proof (cases "isl q \<and> \<not> catches FileNotFoundError (projl q)")
    case True
    then obtain e where e: "q = Inl e" "\<not> catches FileNotFoundError e" by (cases q) auto
    with assms q run have "accept_directory p e h1 = (r, h')" by (simp add: mkdir_here_def try_except_def)
    from accept_directory_run [OF this] run e a show ?thesis
      by (auto simp: adds_above_def same_files_def grows_def)
  next
    case False
    have "h' = h1 \<and> r = q"
    proof (cases q)
      case (Inl e)
      with False assms q run show ?thesis by (simp add: mkdir_here_def try_except_def)
    next
      case (Inr u)
      with assms q show ?thesis by (simp add: mkdir_here_def try_except_def)
    qed
    with a run False show ?thesis by (cases r) auto
  qed
qed

lemma mkdir_parents_run:
  assumes "mkdir_parents m p h = (r, h')"
  shows "adds_above p h h' \<and> (case r of Inl e \<Rightarrow> catches OSError e | Inr _ \<Rightarrow> True)"
  using assms
proof (induction m p arbitrary: h r h' rule: mkdir_parents.induct)
  case (1 m p)
  obtain q h1 where q: "os_mkdir p m h = (q, h1)" by fastforce
  note run = os_mkdir_run [OF q]
  note a = adds_above_here [OF q]
  show ?case
  proof (cases q)
    case (Inr u)
    with "1.prems" q a show ?thesis by (auto simp: mkdir_parents.simps [of m p] try_except_def)
  next
    case (Inl e)
    with run have o: "catches OSError e" by simp
    consider "\<not> catches FileNotFoundError e" | "catches FileNotFoundError e" "p = []"
      | "catches FileNotFoundError e" "p \<noteq> []" by blast
    then show ?thesis
    proof cases
      assume "\<not> catches FileNotFoundError e"
      with "1.prems" q Inl o have "accept_directory p e h1 = (r, h')"
        by (simp add: mkdir_parents.simps [of m p] try_except_def)
      from accept_directory_run [OF this o] a show ?thesis
        by (auto simp: adds_above_def same_files_def grows_def)
    next
      assume "catches FileNotFoundError e" "p = []"
      with "1.prems" q Inl o a show ?thesis by (auto simp: mkdir_parents.simps [of m "[]"] try_except_def)
    next
      assume c: "catches FileNotFoundError e" "p \<noteq> []"
      obtain q2 h2 where q2: "mkdir_parents 0x1FF (butlast p) h1 = (q2, h2)" by fastforce
      from "1.IH" [OF c q2] have ih: "adds_above (butlast p) h1 h2"
        "case q2 of Inl e \<Rightarrow> catches OSError e | Inr _ \<Rightarrow> True" by blast+
      have up: "adds_above p h h2"
      proof -
        have "adds_above p h1 h2" using ih(1) by (simp add: adds_above_def leads_to_butlast)
        with a show ?thesis by (rule adds_above_trans)
      qed
      have eq: "seq (mkdir_parents 0x1FF (butlast p)) (mkdir_here m p) h1 = (r, h')"
        using "1.prems" q Inl o c by (subst (asm) mkdir_parents.simps) (simp add: try_except_def)
      show ?thesis
      proof (cases q2)
        case (Inl e2)
        with eq q2 ih up show ?thesis by (simp add: seq_apply)
      next
        case (Inr u)
        with eq q2 have "mkdir_here m p h2 = (r, h')" by (simp add: seq_apply)
        from mkdir_here_run [OF this] up show ?thesis by (auto intro: adds_above_trans)
      qed
    qed
  qed
qed

lemma os_open_directory_run:
  "os_open_directory p h = (r, h') \<Longrightarrow> same_files h h'
     \<and> (case r of Inl e \<Rightarrow> catches OSError e
        | Inr d \<Rightarrow> d = p \<and> (\<exists>m. h_files h p = Some (Directory m)))"
  by (auto simp: os_open_directory_def os_call_def faultable_eq split: option.splits node.splits)

section \<open>What a stream writes\<close>

text \<open>The file of a descriptor holds the first \<open>off\<close> octets of \<open>c\<close>; all else is as in \<open>h\<close>.\<close>

definition holds :: "path \<Rightarrow> mode \<Rightarrow> 'd content \<Rightarrow> nat \<Rightarrow> 'd host \<Rightarrow> 'd host \<Rightarrow> bool" where
  "holds d m c off h h' \<longleftrightarrow> h_files h' = (h_files h)(d \<mapsto> Regular m (content_prefix off c))
     \<and> h_umask h' = h_umask h \<and> h_entropy h' = h_entropy h"

lemma holds_same_files: "holds d m c off h i \<Longrightarrow> same_files i j \<Longrightarrow> holds d m c off h j"
  by (simp add: holds_def same_files_def)

lemma holds_confined: "holds d m c off h h' \<Longrightarrow> confined {d} h h'"
  by (simp add: holds_def confined_def)

lemma content_prefix_all [simp]: "content_prefix (length (content_bytes c)) c = c"
  by (simp add: content_prefix_def)

lemma content_prefix_0: "content_prefix 0 c = (if content_bytes c = [] then c else Bytes [])"
  by (simp add: content_prefix_def)

lemma os_write_part_run:
  assumes "os_write_part d c off stop h = (r, h')" "holds d m c off h0 h" "off < stop"
  shows "case r of Inl e \<Rightarrow> catches OSError e \<and> holds d m c off h0 h'
    | Inr n \<Rightarrow> off + n \<le> stop \<and> holds d m c (off + n) h0 h'"
  using assms
  by (auto simp: os_write_part_def os_call_def faultable_eq holds_def put_node_def Let_def split: list.splits)

lemma drain_run:
  assumes "drain keep d c stop off h = ((r, off'), h')" "holds d m c off h0 h" "off \<le> stop"
  shows "off \<le> off' \<and> off' \<le> stop \<and> holds d m c off' h0 h'
    \<and> (case r of Inl e \<Rightarrow> catches OSError e | Inr _ \<Rightarrow> stop \<le> off' + keep)"
  using assms
proof (induction keep d c stop off h rule: drain.induct)
  case (1 keep d c stop off h)
  show ?case
  proof (cases "stop \<le> off + keep")
    case True
    with "1.prems" show ?thesis by (auto simp: drain.simps [of keep d c stop off h])
  next
    case False
    obtain w h1 where w: "os_write_part d c off stop h = (w, h1)" by fastforce
    note run = os_write_part_run [OF w "1.prems"(2)]
    show ?thesis
    proof (cases w)
      case (Inl e)
      with "1.prems" False w run show ?thesis by (auto simp: drain.simps [of keep d c stop off h])
    next
      case (Inr n)
      with False run have h1: "holds d m c (off + n) h0 h1" "off + n \<le> stop" by simp_all
      from "1.prems"(1) False w Inr have "drain keep d c stop (off + n) h1 = ((r, off'), h')"
        by (simp add: drain.simps [of keep d c stop off h])
      from "1.IH" [OF False w [symmetric] Inr this h1] show ?thesis by auto
    qed
  qed
qed

lemma flush_to_run:
  assumes "flush_to d c stop off h = ((r, off'), h')" "holds d m c off h0 h" "off \<le> stop"
  shows "off \<le> off' \<and> off' \<le> stop \<and> holds d m c off' h0 h'
    \<and> (case r of Inl e \<Rightarrow> catches OSError e | Inr _ \<Rightarrow> off' = stop)"
  using drain_run [OF assms] by (auto split: sum.splits)

lemma os_close_run:
  "os_close d h = (r, h') \<Longrightarrow> same_files h h' \<and> (case r of Inl e \<Rightarrow> catches OSError e | Inr _ \<Rightarrow> True)"
  "os_fsync d h = (r, h') \<Longrightarrow> same_files h h' \<and> (case r of Inl e \<Rightarrow> catches OSError e | Inr _ \<Rightarrow> True)"
  by (auto simp: os_close_def os_fsync_def os_call_def faultable_eq)

lemma close_stream_run:
  assumes "close_stream d c stop off h = (r, h')" "holds d m c off h0 h" "off \<le> stop"
  shows "(\<exists>off'. off \<le> off' \<and> off' \<le> stop \<and> holds d m c off' h0 h' \<and> (r = Inr () \<longrightarrow> off' = stop))
    \<and> (case r of Inl e \<Rightarrow> catches OSError e | Inr _ \<Rightarrow> True)"
proof -
  obtain q off' h1 where q: "flush_to d c stop off h = ((q, off'), h1)" by (metis prod.exhaust)
  note run = flush_to_run [OF q assms(2,3)]
  obtain u h2 where u: "os_close d h1 = (u, h2)" by fastforce
  note c = os_close_run(1) [OF u]
  have fin: "try_finally (lift q) (os_close d) h1 = (case u of Inl e \<Rightarrow> Inl e | Inr _ \<Rightarrow> q, h2)"
    using u by (cases q; cases u) (simp_all add: try_finally_def finally_with_def bind_apply)
  with assms(1) q have r: "h' = h2" "r = (case u of Inl e \<Rightarrow> Inl e | Inr _ \<Rightarrow> q)"
    by (simp_all add: close_stream_def)
  have h: "holds d m c off' h0 h'" using run c r(1) holds_same_files by blast
  show ?thesis
  proof (cases u)
    case (Inl e)
    with r run c h show ?thesis by (intro conjI exI [of _ off']) simp_all
  next
    case (Inr v)
    with r run h show ?thesis by (cases q) (auto intro!: exI [of _ off'])
  qed
qed

section \<open>Without faults\<close>

lemma drain_quiet:
  assumes "h_faults h = []" "h_files h d = Some (Regular m b)"
  obtains off' h1 where "drain keep d c stop off h = ((Inr (), off'), h1)" "h_faults h1 = []"
proof -
  have "\<exists>off' h1. drain keep d c stop off h = ((Inr (), off'), h1) \<and> h_faults h1 = []"
    using assms
  proof (induction keep d c stop off h arbitrary: b rule: drain.induct)
    case (1 keep d c stop off h)
    show ?case
    proof (cases "stop \<le> off + keep")
      case True
      with "1.prems" show ?thesis by (auto simp: drain.simps [of keep d c stop off h])
    next
      case False
      with "1.prems" obtain n h1 c' where w: "os_write_part d c off stop h = (Inr n, h1)"
        "h_faults h1 = []" "h_files h1 d = Some (Regular m c')"
        by (cases "h_chunks h") (auto simp: os_write_part_def put_node_def Let_def)
      from "1.IH" [OF False w(1) [symmetric] refl w(2,3)] w False show ?thesis
        by (simp add: drain.simps [of keep d c stop off h])
    qed
  qed
  with that show thesis by blast
qed

lemma close_stream_quiet:
  assumes "h_faults h = []" "h_files h d = Some (Regular m b)"
  obtains h1 where "close_stream d c stop off h = (Inr (), h1)" "h_faults h1 = []"
proof -
  from drain_quiet [OF assms] obtain off' h1 where "flush_to d c stop off h = ((Inr (), off'), h1)" "h_faults h1 = []" .
  with that show thesis
    by (simp add: close_stream_def try_finally_def finally_with_def bind_apply os_close_def)
qed

end
