(* ===== verification/Created.thy ===== *)
theory Created
  imports Bootstrap Files
begin

text \<open>
  Databases that are made on fresh files: where \<open>Bootstrap\<close> shows what opening a store keeps,
  this theory shows what it makes when there was nothing: the empty tables of the code, with a
  link in the place of a file refused. The provisioning tool opens its five stores this way.
\<close>

section \<open>Fresh tables\<close>

text \<open>
  Fresh databases: where no table of the list exists, all of them are made, empty, and nothing
  else; a link in the place of a database makes the whole fail and stays.
\<close>

definition created :: "(path \<times> pystr \<times> table) list \<Rightarrow> dbhost \<Rightarrow> unit res \<Rightarrow> dbhost \<Rightarrow> bool" where
  "created xs h r h' \<longleftrightarrow> (\<forall>q. q \<notin> fst ` set xs \<longrightarrow> h_files h' q = h_files h q)
     \<and> (\<forall>p q. h_files h p = Some (Symlink q) \<longrightarrow> h_files h' p = Some (Symlink q) \<and> (p \<in> fst ` set xs \<longrightarrow> isl r))
     \<and> (\<not> isl r \<longrightarrow> (\<forall>(p, n, t) \<in> set xs. table_at h p n = None) \<longrightarrow>
          distinct (map (\<lambda>(p, n, t). (p, n)) xs) \<longrightarrow>
          (\<forall>(p, n, t) \<in> set xs. table_at h' p n = Some t)
          \<and> (\<forall>p n. (\<forall>t. (p, n, t) \<notin> set xs) \<longrightarrow> table_at h' p n = table_at h p n))"

definition creator :: "(path \<times> pystr \<times> table) list \<Rightarrow> (dbhost, unit) io \<Rightarrow> bool" where
  "creator xs m \<longleftrightarrow> (\<forall>h r h'. m h = (r, h') \<longrightarrow> created xs h r h')"

lemma createdD:
  "created xs h r h' \<Longrightarrow> q \<notin> fst ` set xs \<Longrightarrow> h_files h' q = h_files h q"
  "created xs h r h' \<Longrightarrow> h_files h p = Some (Symlink q) \<Longrightarrow> h_files h' p = Some (Symlink q)"
  "created xs h r h' \<Longrightarrow> h_files h p = Some (Symlink q) \<Longrightarrow> p \<in> fst ` set xs \<Longrightarrow> isl r"
  unfolding created_def by blast+

lemma creator_Cons:
  assumes "creator [x] m" "creator ys k"
  shows "creator (x # ys) (seq m k)"
  unfolding creator_def
proof (intro allI impI)
  fix h r h'
  assume s: "seq m k h = (r, h')"
  obtain p n t where x: "x = (p, n, t)" by (cases x)
  obtain q h1 where q: "m h = (q, h1)" by fastforce
  with assms(1) have a: "created [(p, n, t)] h q h1" unfolding creator_def x by blast
  show "created (x # ys) h r h'"
  proof (cases q)
    case (Inl e)
    with s q have "r = Inl e" "h' = h1" by (simp_all add: seq_apply)
    with a x show ?thesis by (auto simp: created_def)
  next
    case (Inr u)
    with s q have "k h1 = (r, h')" by (simp add: seq_apply)
    with assms(2) have b: "created ys h1 r h'" unfolding creator_def by blast
    have new: "(\<forall>(p, n, t) \<in> set (x # ys). table_at h' p n = Some t)
        \<and> (\<forall>p n. (\<forall>t. (p, n, t) \<notin> set (x # ys)) \<longrightarrow> table_at h' p n = table_at h p n)"
      if r: "\<not> isl r" and none: "\<forall>(p, n, t) \<in> set (x # ys). table_at h p n = None"
        and d: "distinct (map (\<lambda>(p, n, t). (p, n)) (x # ys))"
    proof -
      have 1: "table_at h1 p n = Some t"
        "\<And>p' n'. (p', n') \<noteq> (p, n) \<Longrightarrow> table_at h1 p' n' = table_at h p' n'"
        using a Inr none x by (auto simp: created_def)
      have 2: "(p', n', t') \<in> set ys \<Longrightarrow> (p', n') \<noteq> (p, n)" for p' n' t'
        using d x by force
      have "table_at h1 p' n' = None" if "(p', n', t') \<in> set ys" for p' n' t'
      proof -
        have "table_at h p' n' = None" using none that by auto
        with 1(2) [OF 2 [OF that]] show ?thesis by simp
      qed
      then have "\<forall>(p', n', t') \<in> set ys. table_at h1 p' n' = None" by auto
      with b r d x have 3: "\<forall>(p', n', t') \<in> set ys. table_at h' p' n' = Some t'"
        "\<And>p' n'. (\<forall>t. (p', n', t) \<notin> set ys) \<Longrightarrow> table_at h' p' n' = table_at h1 p' n'"
        by (auto simp: created_def)
      have "table_at h' p n = Some t" using 3(2) [of p n] 2 1(1) by metis
      with 3 1(2) x show ?thesis by auto
    qed
    have "h_files h' f = h_files h f" if "f \<notin> fst ` set (x # ys)" for f
      using createdD(1) [OF a, of f] createdD(1) [OF b, of f] that x by simp
    moreover have "h_files h' f = Some (Symlink g) \<and> (f \<in> fst ` set (x # ys) \<longrightarrow> isl r)"
      if l: "h_files h f = Some (Symlink g)" for f g
    proof -
      have l1: "h_files h1 f = Some (Symlink g)" by (rule createdD(2) [OF a l])
      have "f \<noteq> fst x" using createdD(3) [OF a l] Inr x by auto
      with createdD(2,3) [OF b l1] show ?thesis by simp
    qed
    ultimately have "(\<forall>q. q \<notin> fst ` set (x # ys) \<longrightarrow> h_files h' q = h_files h q)
      \<and> (\<forall>p q. h_files h p = Some (Symlink q) \<longrightarrow>
         h_files h' p = Some (Symlink q) \<and> (p \<in> fst ` set (x # ys) \<longrightarrow> isl r))" by blast
    with new show ?thesis unfolding created_def by blast
  qed
qed

lemma ensure_link:
  assumes "ensure_owner_only_database_file p h = (r, h')" "h_files h p = Some (Symlink q)"
  shows "isl r \<and> h_files h' p = Some (Symlink q)"
  using ensure_database_file_run [OF assms(1)] assms(2) by (cases r) auto

lemma init_table_creator:
  assumes up: "\<forall>(n, ty, x) \<in> set cols. upper ty = ty"
    and cls: "base_class SqliteError \<noteq> Some cls" "cls \<noteq> SqliteError"
      "cls \<noteq> DatabasePermissionError" "base_class DatabasePermissionError \<noteq> Some cls"
  shows "creator [(p, n, made cols uq [])] (init_table cls unsupported failed n cols uq p)"
  unfolding creator_def
proof (intro allI impI)
  fix h :: dbhost and r h'
  assume i: "init_table cls unsupported failed n cols uq p h = (r, h')"
  note run = init_table_run [OF i up cls]
  have link: "isl r \<and> h_files h' p = Some (Symlink q)" if l: "h_files h p = Some (Symlink q)" for q
  proof -
    obtain e h1 where e: "ensure_owner_only_database_file p h = (e, h1)" by fastforce
    from ensure_link [OF e l] obtain x where "e = Inl x" "h_files h1 p = Some (Symlink q)" by (cases e) auto
    with i e show ?thesis by (auto simp: init_table_def try_except_def seq_apply split: if_splits)
  qed
  have other: "q \<noteq> p \<Longrightarrow> table_at h' q n' = table_at h q n'" for q n'
    using run by (simp add: tables_kept_def table_at_def db_at_def)
  show "created [(p, n, made cols uq [])] h r h'"
    unfolding created_def
  proof (intro conjI allI impI)
    show "h_files h' q = h_files h q" if "q \<notin> fst ` set [(p, n, made cols uq [])]" for q
      using run that by (simp add: tables_kept_def)
    fix p' q
    assume l: "h_files h p' = Some (Symlink q)"
    show "h_files h' p' = Some (Symlink q)"
      using link [of q] l run by (cases "p' = p") (auto simp: tables_kept_def)
    assume "p' \<in> fst ` set [(p, n, made cols uq [])]"
    with link l show "isl r" by simp
  next
    assume a: "\<not> isl r" "\<forall>(p, n, t) \<in> set [(p, n, made cols uq [])]. table_at h p n = None"
    with run show "\<forall>(p, n, t) \<in> set [(p, n, made cols uq [])]. table_at h' p n = Some t"
      by (auto simp: create_made split: sum.splits)
    fix p' n'
    assume "\<forall>t. (p', n', t) \<notin> set [(p, n, made cols uq [])]"
    with a run other show "table_at h' p' n' = table_at h p' n'"
      by (cases "p' = p") (auto split: sum.splits)
  qed
qed

lemma init_versioned_creator:
  assumes parts: "validates validate unsupported P" "creates n t v create'"
    and cls: "base_class SqliteError \<noteq> Some cls" "cls \<noteq> SqliteError"
      "cls \<noteq> DatabasePermissionError" "base_class DatabasePermissionError \<noteq> Some cls"
      "catches cls unsupported"
    and P: "\<And>d d'. P d d' \<Longrightarrow> db_tables d' = db_tables d"
  shows "creator [(p, n, t)] (init_versioned cls unsupported failed n validate create' p)"
  unfolding creator_def
proof (intro allI impI)
  fix h :: dbhost and r h'
  assume i: "init_versioned cls unsupported failed n validate create' p h = (r, h')"
  note run = init_versioned_run [OF i parts cls]
  have link: "isl r \<and> h_files h' p = Some (Symlink q)" if l: "h_files h p = Some (Symlink q)" for q
  proof -
    obtain e h1 where e: "ensure_owner_only_database_file p h = (e, h1)" by fastforce
    from ensure_link [OF e l] obtain x where "e = Inl x" "h_files h1 p = Some (Symlink q)" by (cases e) auto
    with i e show ?thesis by (auto simp: init_versioned_def try_except_def seq_apply split: if_splits)
  qed
  have other: "\<forall>q. q \<noteq> p \<longrightarrow> h_files h' q = h_files h q" using run by blast
  then have tables: "q \<noteq> p \<Longrightarrow> table_at h' q n' = table_at h q n'" for q n'
    by (simp add: table_at_def db_at_def)
  show "created [(p, n, t)] h r h'"
    unfolding created_def
  proof (intro conjI allI impI)
    show "h_files h' q = h_files h q" if "q \<notin> fst ` set [(p, n, t)]" for q
      using other that by simp
    fix p' q
    assume l: "h_files h p' = Some (Symlink q)"
    show "h_files h' p' = Some (Symlink q)"
      using link [of q] l other by (cases "p' = p") auto
    assume "p' \<in> fst ` set [(p, n, t)]"
    with link l show "isl r" by simp
  next
    assume a: "\<not> isl r" "\<forall>(p, n, t) \<in> set [(p, n, t)]. table_at h p n = None"
    with run obtain d d' where d: "start_db p h d" "db_at h' p = Some d'"
      "if map_of (db_tables d) n = None
       then db_version d = 0 \<and> d' = \<lparr>db_version = v, db_tables = db_tables d @ [(n, t)]\<rparr> else P d d'"
      by (cases r) auto
    have start: "table_at h p n' = map_of (db_tables d) n'" for n'
      using d(1) by (auto simp: start_db_def table_at_def db_at_def empty_db_def split: if_splits option.splits)
    with a(2) have none: "map_of (db_tables d) n = None" by simp
    with d(3) have d': "db_tables d' = db_tables d @ [(n, t)]" by simp
    with d(2) none show "\<forall>(p, n, t) \<in> set [(p, n, t)]. table_at h' p n = Some t"
      by (simp add: table_at_def map_add_def)
    fix p' n'
    assume "\<forall>t'. (p', n', t') \<notin> set [(p, n, t)]"
    with tables start d(2) d' show "table_at h' p' n' = table_at h p' n'"
      by (cases "p' = p") (auto simp: table_at_def map_add_def split: option.splits)
  qed
qed

lemma stores_created:
  "creator [(p, users_table, made user_schema user_unique [])] (user_init p)"
  "creator [(p, targets_table, made target_schema [[lit ''id'']] [])] (target_init p)"
  "creator [(p, accounts_table, made account_schema [[lit ''id'']] [])] (account_init p)"
  "creator [(p, policies_table, made policy_schema [[lit ''id'']] [])] (policy_init p)"
  "creator [(p, vault_table, made vault_schema [[lit ''id'']] [])] (vault_init p)"
proof -
  show "creator [(p, users_table, made user_schema user_unique [])] (user_init p)"
    unfolding user_init_def create_made [symmetric]
    by (rule init_versioned_creator [OF user_validates
        creates_table [of users_table "create user_schema user_unique" 1, folded user_create_schema_def]])
      (auto simp: unsupported_users_def)
  show "creator [(p, vault_table, made vault_schema [[lit ''id'']] [])] (vault_init p)"
    unfolding vault_init_def create_made [symmetric]
    by (rule init_versioned_creator [OF vault_validates
        creates_table [of vault_table "create vault_schema [[lit ''id'']]" 1, folded vault_create_schema_def]])
      (auto simp: unsupported_vault_def)
  show "creator [(p, targets_table, made target_schema [[lit ''id'']] [])] (target_init p)"
    unfolding target_init_def by (rule init_table_creator) (simp_all add: target_schema_def upper_def lit_def)
  show "creator [(p, accounts_table, made account_schema [[lit ''id'']] [])] (account_init p)"
    unfolding account_init_def by (rule init_table_creator) (simp_all add: account_schema_def upper_def lit_def)
  show "creator [(p, policies_table, made policy_schema [[lit ''id'']] [])] (policy_init p)"
    unfolding policy_init_def by (rule init_table_creator) (simp_all add: policy_schema_def upper_def lit_def)
qed

end
