(* ===== verification/Existing.thy ===== *)
theory Existing
  imports Created
begin

text \<open>
  Stores that exist: opening a database that already has the tables of the code changes nothing,
  and without a fault it succeeds. This is what every start of the program after the first does.
\<close>

section \<open>Tables that exist\<close>

lemma init_table_existing:
  assumes "quiet_db h p d" "map_of (db_tables d) n = Some (made cols unique rows)" "\<forall>(n, ty, x) \<in> set cols. upper ty = ty"
  shows "init_table cls unsupported failed n cols unique p h = (Inr (), h)"
proof -
  have f: "h_faults h = []" "h_files h p = Some (Regular 0x180 (Db d))"
    using assms(1) by (simp_all add: quiet_db_def)
  have e: "ensure_owner_only_database_file p h = (Inr (), h)"
    using ensure_regular [OF f] f by (simp add: fun_upd_idem)
  let ?f = "seq (create_table_if_absent n (create cols unique))
           (bind (pragma_table_info n) (\<lambda>definition'.
              lift (raise_if (definition' \<noteq> cols) (err cls unsupported))))"
  have "?f \<lparr>c_db = d, c_faults = []\<rparr> = (Inr (), \<lparr>c_db = d, c_faults = []\<rparr>)"
    using assms(2) table_info_made [OF assms(3)]
    by (simp add: seq_apply bind_apply create_table_if_absent_def pragma_table_info_def raise_if_def)
  moreover have "d \<noteq> empty_db" using assms(2) by (auto simp: empty_db_def)
  ultimately have "with_db True p ?f h = (Inr (), set_db p d h)"
    using f by (intro with_db_quiet [where c = "Db d" and d = d]) simp_all
  with e set_db_same [OF assms(1)] show ?thesis
    by (simp add: init_table_def try_except_def seq_apply connection_def)
qed

lemma init_versioned_existing:
  assumes "quiet_db h p d" "map_of (db_tables d) n = Some t"
    "validate (db_version d) \<lparr>c_db = d, c_faults = []\<rparr> = (Inr (), \<lparr>c_db = d, c_faults = []\<rparr>)"
  shows "init_versioned cls unsupported failed n validate create' p h = (Inr (), h)"
proof -
  have f: "h_faults h = []" "h_files h p = Some (Regular 0x180 (Db d))"
    using assms(1) by (simp_all add: quiet_db_def)
  have e: "ensure_owner_only_database_file p h = (Inr (), h)"
    using ensure_regular [OF f] f by (simp add: fun_upd_idem)
  let ?f = "bind (seq (execute (\<lambda>db. (Inr (), db)))
           (bind pragma_user_version (\<lambda>version.
            bind (table_exists n) (\<lambda>exists.
              if exists then validate version
              else if version = 0 then create' else raise unsupported)))) (\<lambda>x. seq commit (ret x))"
  have "?f \<lparr>c_db = d, c_faults = []\<rparr> = (Inr (), \<lparr>c_db = d, c_faults = []\<rparr>)"
    using assms(2,3) by (simp add: seq_apply bind_apply pragma_user_version_def table_exists_def commit_def)
  moreover have "d \<noteq> empty_db" using assms(2) by (auto simp: empty_db_def)
  ultimately have "with_db False p ?f h = (Inr (), set_db p d h)"
    using f by (intro with_db_quiet [where c = "Db d" and d = d]) simp_all
  with e set_db_same [OF assms(1)] show ?thesis
    by (simp add: init_versioned_def try_except_def seq_apply transaction_def)
qed

section \<open>The stores\<close>

lemma configuration_existing:
  assumes "quiet_db h p d"
  shows "map_of (db_tables d) policies_table = Some (made policy_schema [[lit ''id'']] rows) \<Longrightarrow> policy_init p h = (Inr (), h)"
    "map_of (db_tables d) targets_table = Some (made target_schema [[lit ''id'']] rows) \<Longrightarrow> target_init p h = (Inr (), h)"
    "map_of (db_tables d) accounts_table = Some (made account_schema [[lit ''id'']] rows) \<Longrightarrow> account_init p h = (Inr (), h)"
  unfolding policy_init_def target_init_def account_init_def
  using init_table_existing [OF assms]
  by (simp_all add: policy_schema_def target_schema_def account_schema_def upper_def lit_def)

lemma vault_init_existing:
  assumes "quiet_db h p d" "db_version d = 1" "map_of (db_tables d) vault_table = Some (made vault_schema [[lit ''id'']] rows)"
  shows "vault_init p h = (Inr (), h)"
  unfolding vault_init_def
proof (rule init_versioned_existing [OF assms(1,3)])
  have "table_info (made vault_schema [[lit ''id'']] rows) = vault_schema"
    by (rule table_info_made) (simp add: vault_schema_def upper_def lit_def)
  with assms(2,3) show "vault_validate_schema (db_version d) \<lparr>c_db = d, c_faults = []\<rparr> = (Inr (), \<lparr>c_db = d, c_faults = []\<rparr>)"
    by (simp add: vault_validate_schema_def bind_apply seq_apply pragma_table_info_def raise_if_def)
qed

lemma user_init_existing:
  assumes "quiet_db h p d" "db_version d = 1" "map_of (db_tables d) users_table = Some (made user_schema user_unique rows)"
  shows "user_init p h = (Inr (), h)"
  unfolding user_init_def
proof (rule init_versioned_existing [OF assms(1,3)])
  have "table_info (made user_schema user_unique rows) = user_schema"
    by (rule table_info_made) (simp add: user_schema_def upper_def lit_def)
  with assms(2,3) show "user_validate_schema (db_version d) \<lparr>c_db = d, c_faults = []\<rparr> = (Inr (), \<lparr>c_db = d, c_faults = []\<rparr>)"
    by (simp add: user_validate_schema_def bind_apply seq_apply pragma_table_info_def pragma_unique_columns_def
        raise_if_def user_unique_def)
qed

section \<open>Starting on them\<close>

text \<open>The stores of \<open>s\<close>, but for the audit trail, exist and nothing fails.\<close>

definition stores_exist :: "runtime_settings \<Rightarrow> dbhost \<Rightarrow> bool" where
  "stores_exist s h \<longleftrightarrow>
     (\<exists>d rows. quiet_db h (rs_vault_db s) d \<and> db_version d = 1
        \<and> map_of (db_tables d) vault_table = Some (made vault_schema [[lit ''id'']] rows))
     \<and> (\<exists>d rows1 rows2 rows3. quiet_db h (rs_config_db s) d
        \<and> map_of (db_tables d) policies_table = Some (made policy_schema [[lit ''id'']] rows1)
        \<and> map_of (db_tables d) targets_table = Some (made target_schema [[lit ''id'']] rows2)
        \<and> map_of (db_tables d) accounts_table = Some (made account_schema [[lit ''id'']] rows3))
     \<and> (\<exists>d rows. quiet_db h (rs_auth_db s) d \<and> db_version d = 1
        \<and> map_of (db_tables d) users_table = Some (made user_schema user_unique rows))"

lemma quiet_db_files: "quiet_db h p d \<Longrightarrow> h_files h' p = h_files h p \<Longrightarrow> h_faults h' = [] \<Longrightarrow> quiet_db h' p d"
  by (simp add: quiet_db_def)

lemma stores_exist_files:
  assumes "stores_exist s h" "\<forall>p \<in> {rs_vault_db s, rs_config_db s, rs_auth_db s}. h_files h' p = h_files h p" "h_faults h' = []"
  shows "stores_exist s h'"
  using assms unfolding stores_exist_def by (meson insertCI quiet_db_files)

lemma open_stores_existing:
  assumes "stores_exist s h" "rs_audit_db s \<notin> {rs_vault_db s, rs_config_db s, rs_auth_db s}"
    "mk_audit_repository (get_key (rs_audit_key s)) (rs_audit_db s) h = (Inr (), h')" "h_faults h' = []"
  shows "open_stores s h = (Inr (), h')"
proof -
  from audit_repository_opened [OF assms(3)] assms(2)
  have "\<forall>p \<in> {rs_vault_db s, rs_config_db s, rs_auth_db s}. h_files h' p = h_files h p" by (auto simp: opened_def)
  from stores_exist_files [OF assms(1) this assms(4)] have e: "stores_exist s h'" .
  from assms(1) have v: "vault_init (rs_vault_db s) h = (Inr (), h)"
    by (auto simp: stores_exist_def intro: vault_init_existing)
  from e have "policy_init (rs_config_db s) h' = (Inr (), h')" "target_init (rs_config_db s) h' = (Inr (), h')"
    "account_init (rs_config_db s) h' = (Inr (), h')" "user_init (rs_auth_db s) h' = (Inr (), h')"
    by (auto simp: stores_exist_def intro: configuration_existing user_init_existing)
  with v assms(3) show ?thesis by (simp add: open_stores_def seq_apply)
qed

lemma validate_distinct_works: "paths_ok h ps \<Longrightarrow> validate_distinct_paths ps m h = (Inr (), h)"
  by (auto simp: validate_distinct_paths_def paths_ok_def raise_if_def split: sum.splits)

lemma read_keys_works:
  assumes "keys_ok h s" "h_faults h = []" "key_of h (rs_vault_key s) = Some k"
  obtains h' where "read_keys s h = (Inr k, h')" "same_files h h'" "h_faults h' = []"
proof -
  from assms(1) obtain a where a: "key_of h (rs_audit_key s) = Some a" "k \<noteq> a"
    using assms(3) by (auto simp: keys_ok_def)
  obtain h1 where h1: "get_key (rs_vault_key s) h = (Inr k, h1)" "same_files h h1" "h_faults h1 = []"
    by (rule get_key_works [OF assms(3,2)])
  obtain h2 where h2: "get_key (rs_audit_key s) h1 = (Inr a, h2)" "same_files h1 h2" "h_faults h2 = []"
    using get_key_works [of h1 "rs_audit_key s" a] h1(2,3) a(1) by (metis same_files_key_of)
  from h1 h2 a(2) have "read_keys s h = (Inr k, h2)" by (simp add: read_keys_def bind_apply)
  with h1(2) h2(2,3) that show thesis by (blast intro: same_files_trans)
qed

lemma build_application_works:
  assumes "startable h s" "h_faults h = []" "stores_exist s h" "0 < rs_max_session s"
    "rs_audit_db s \<notin> {rs_vault_db s, rs_config_db s, rs_auth_db s}"
    "\<And>g. same_files h g \<Longrightarrow> h_faults g = [] \<Longrightarrow>
       \<exists>g'. mk_audit_repository (get_key (rs_audit_key s)) (rs_audit_db s) g = (Inr (), g')
         \<and> h_faults g' = [] \<and> h_entropy g' = h_entropy g"
    "32 \<le> length (h_entropy h)" "\<And>pw g. \<exists>x. a_hash lib pw g = (Inr x, g)"
  shows "\<exists>app h'. build_application lib s h = (Inr app, h') \<and> h_faults h' = []
    \<and> h_entropy h' = drop 32 (h_entropy h)"
proof -
  from assms(1) obtain k where k: "key_of h (rs_vault_key s) = Some k" by (auto simp: startable_def keys_ok_def)
  obtain h1 where h1: "read_keys s h = (Inr k, h1)" "same_files h h1" "h_faults h1 = []"
    using read_keys_works [OF _ assms(2) k] assms(1) by (auto simp: startable_def)
  from assms(6) [OF h1(2,3)] obtain h2 where h2:
    "mk_audit_repository (get_key (rs_audit_key s)) (rs_audit_db s) h1 = (Inr (), h2)"
    "h_faults h2 = []" "h_entropy h2 = h_entropy h1" by blast
  have "stores_exist s h1" by (rule stores_exist_files [OF assms(3) _ h1(3)]) (use h1(2) in \<open>simp add: same_files_def\<close>)
  then have o: "open_stores s h1 = (Inr (), h2)" by (rule open_stores_existing [OF _ assms(5) h2(1,2)])
  have "length k = 32" using k by (auto simp: key_of_def split: option.splits node.splits if_splits)
  then have c: "mk_cipher k = Inr k" by (simp add: mk_cipher_def)
  have len: "\<not> length (h_entropy h2) < 32" using h2(3) h1(2) assms(7) by (simp add: same_files_def)
  let ?t = "map (\<lambda>c. if c = 43 then 45 else if c = 47 then 95 else c) (rstrip_pad (b64encode (take 32 (h_entropy h2))))"
  have t: "token_urlsafe h2 = (Inr ?t, h2\<lparr>h_entropy := drop 32 (h_entropy h2)\<rparr>)"
    using len by (simp add: token_urlsafe_def token_bytes_def bind_apply)
  obtain x where x: "a_hash lib ?t (h2\<lparr>h_entropy := drop 32 (h_entropy h2)\<rparr>) = (Inr x, h2\<lparr>h_entropy := drop 32 (h_entropy h2)\<rparr>)"
    using assms(8) by blast
  have m: "mk_authentication (repository_auth (rs_auth_db s) lib) token_urlsafe h2 = (Inr x, h2\<lparr>h_entropy := drop 32 (h_entropy h2)\<rparr>)"
    using t x by (simp add: mk_authentication_def bind_apply repository_auth_def hash_password_def try_except_def)
  have "mk_access_service (rs_max_session s) = Inr (rs_max_session s)" using assms(4) by (simp add: mk_access_service_def)
  moreover have "mk_local_terminal 0 1 = Inr \<lparr>lt_input_fd = 0, lt_output_fd = 1\<rparr>"
    by (simp add: mk_local_terminal_def)
  moreover from assms(1) have "paths_ok h [rs_vault_key s, rs_audit_key s]"
    "paths_ok h [rs_auth_db s, rs_config_db s, rs_vault_db s, rs_audit_db s]" by (simp_all add: startable_def)
  moreover have "h_entropy h2 = h_entropy h" using h2(3) h1(2) by (simp add: same_files_def)
  ultimately show ?thesis
    using h1(1) c o m h2(2) by (simp add: build_application_def seq_apply bind_apply validate_distinct_works)
qed

text \<open>The audit repository on a file that is not there, or on one with a trail\<close>

lemma audit_repository_works:
  assumes "key_of h q = Some key" "length key = 32" "h_faults h = []"
    "base_db h p empty_db \<or> (\<exists>d rows. quiet_db h p d \<and> db_version d = 2
       \<and> map_of (db_tables d) audit_table = Some (made audit_schema audit_unique rows))"
  shows "\<exists>h'. mk_audit_repository (get_key q) p h = (Inr (), h') \<and> h_faults h' = [] \<and> h_entropy h' = h_entropy h"
proof -
  obtain h1 where h1: "audit_load_key (get_key q) h = (Inr key, h1)" "same_files h h1" "h_faults h1 = []"
    by (rule load_key_works [OF assms(1-3)])
  from assms(4) have "\<exists>h'. audit_init p h1 = (Inr (), h') \<and> h_faults h' = [] \<and> h_entropy h' = h_entropy h1"
  proof
    assume "base_db h p empty_db"
    then have "base_db h1 p empty_db" using base_db_same_files [OF h1(2) assms(3) h1(3)] by simp
    from audit_init_fresh [OF this] h1(3) show ?thesis by (simp add: set_db_def)
  next
    assume "\<exists>d rows. quiet_db h p d \<and> db_version d = 2
       \<and> map_of (db_tables d) audit_table = Some (made audit_schema audit_unique rows)"
    then obtain d rows where d: "quiet_db h p d" "db_version d = 2"
      "map_of (db_tables d) audit_table = Some (made audit_schema audit_unique rows)" by blast
    have "quiet_db h1 p d" using d(1) h1(2,3) by (simp add: quiet_db_def same_files_def)
    from audit_init_existing [OF this d(2,3)] h1(3) show ?thesis by simp
  qed
  with h1 show ?thesis by (auto simp: mk_audit_repository_def bind_apply same_files_def)
qed

section \<open>The first start\<close>

text \<open>Where there is no audit trail yet, opening the stores makes an empty one.\<close>

lemma audit_created: "creator [(p, audit_table, made audit_schema audit_unique [])] (mk_audit_repository (get_key q) p)"
proof -
  have init: "creator [(p, audit_table, made audit_schema audit_unique [])] (audit_init p)"
    unfolding audit_init_def create_made [symmetric]
    by (rule init_versioned_creator [OF audit_validates
        creates_table [of audit_table "create audit_schema audit_unique" 2, folded audit_create_schema_def]])
      (auto simp: unsupported_audit_def)
  show ?thesis
    unfolding creator_def
  proof (intro allI impI)
    fix h :: dbhost and r h'
    assume m: "mk_audit_repository (get_key q) p h = (r, h')"
    obtain k h1 where k: "audit_load_key (get_key q) h = (k, h1)" by fastforce
    from key_file.load_key_run [OF k] have f: "h_files h1 = h_files h" by (simp add: same_files_def)
    then have t: "table_at h1 x n = table_at h x n" for x n by (simp add: table_at_def db_at_def)
    show "created [(p, audit_table, made audit_schema audit_unique [])] h r h'"
    proof (cases k)
      case (Inl e)
      with m k have "r = Inl e" "h' = h1" by (simp_all add: mk_audit_repository_def bind_apply)
      with f show ?thesis by (simp add: created_def)
    next
      case (Inr u)
      with m k have "audit_init p h1 = (r, h')" by (simp add: mk_audit_repository_def bind_apply)
      with init have "created [(p, audit_table, made audit_schema audit_unique [])] h1 r h'"
        unfolding creator_def by blast
      with f t show ?thesis by (simp add: created_def)
    qed
  qed
qed

lemma open_stores_trail:
  assumes "open_stores s h = (Inr (), h')" "rs_audit_db s \<noteq> rs_vault_db s" "table_at h (rs_audit_db s) audit_table = None"
  shows "table_at h' (rs_audit_db s) audit_table = Some (made audit_schema audit_unique [])"
proof -
  let ?rest = "seq (policy_init (rs_config_db s)) (seq (target_init (rs_config_db s))
    (seq (account_init (rs_config_db s)) (user_init (rs_auth_db s))))"
  from assms(1) obtain h1 h2 where h: "vault_init (rs_vault_db s) h = (Inr (), h1)"
    "mk_audit_repository (get_key (rs_audit_key s)) (rs_audit_db s) h1 = (Inr (), h2)" "?rest h2 = (Inr (), h')"
    by (auto simp: open_stores_def seq_eq_iff)
  from vault_opened [OF h(1)] assms(2,3) have none: "table_at h1 (rs_audit_db s) audit_table = None"
    by (simp add: opened_def table_at_def db_at_def)
  from audit_created h(2) have "created [(rs_audit_db s, audit_table, made audit_schema audit_unique [])] h1 (Inr ()) h2"
    unfolding creator_def by blast
  with none have "table_at h2 (rs_audit_db s) audit_table = Some (made audit_schema audit_unique [])"
    by (simp add: created_def)
  moreover have "opens [(rs_config_db s, policies_table, policy_columns), (rs_config_db s, targets_table, target_columns),
     (rs_config_db s, accounts_table, account_columns), (rs_auth_db s, users_table, user_columns)] ?rest"
    by (rule opens_Cons stores_open)+
  with h(3) have "keeps_tables h2 h'" unfolding opens_def opened_all_def by blast
  ultimately show ?thesis by (simp add: keeps_tables_def)
qed

end
