(* ===== verification/Starting.thy ===== *)
theory Starting
  imports Existing
begin

text \<open>
  When the program starts: the exact condition on the host under which the six initializers and
  with them \<open>build_application\<close> succeed, and what a refused start leaves as it was.
\<close>

section \<open>Stores that can be opened\<close>












section \<open>Initializers\<close>











section \<open>Opening all of them\<close>









section \<open>Starting the application\<close>












end
