(* ===== verification/Provision.thy ===== *)
theory Provision
  imports Main_Program Created
begin

text \<open>
  The provisioning tool (\<open>tools/provision_lab.py\<close>): it checks the configuration, makes a
  private runtime directory, two keys and the databases, and stores one user, one target, one
  account, one policy and one credential. The reader of the passwords, the Argon2 library and
  the cipher are parameters.
\<close>

section \<open>The configuration\<close>

record lab_config =
  lc_runtime_dir :: path
  lc_user_id :: pystr
  lc_username :: pystr
  lc_target_id :: pystr
  lc_target_name :: pystr
  lc_target_host :: pystr
  lc_target_port :: int
  lc_host_key_fingerprint :: pystr
  lc_credential_ref :: pystr
  lc_account_id :: pystr
  lc_account_username :: pystr
  lc_policy_id :: pystr

text \<open>\<open>LabProvisioningConfig(runtime_dir)\<close> with the defaults of its other fields\<close>

definition default_config :: "path \<Rightarrow> lab_config" where
  "default_config dir =
     \<lparr>lc_runtime_dir = dir, lc_user_id = lit ''user-001'', lc_username = lit ''goksu'',
      lc_target_id = lit ''target-001'', lc_target_name = lit ''linux-server-1'',
      lc_target_host = lit ''192.168.122.227'', lc_target_port = 22,
      lc_host_key_fingerprint = lit ''SHA256:sN8IiNCiH3HWetmR/J3uRvPfer4s0AcIP3BebXieUuI'',
      lc_credential_ref = lit ''cred-001'', lc_account_id = lit ''account-001'',
      lc_account_username = lit ''pamadmin'', lc_policy_id = lit ''policy-001''\<rparr>"

record lab_paths =
  lp_runtime_dir :: path
  lp_vault_key :: path
  lp_audit_key :: path
  lp_auth_db :: path
  lp_config_db :: path
  lp_vault_db :: path
  lp_audit_db :: path

definition paths_within :: "path \<Rightarrow> lab_paths" where
  "paths_within dir =
     \<lparr>lp_runtime_dir = dir, lp_vault_key = dir @ [lit ''vault.key''],
      lp_audit_key = dir @ [lit ''audit.key''], lp_auth_db = dir @ [lit ''auth.db''],
      lp_config_db = dir @ [lit ''config.db''], lp_vault_db = dir @ [lit ''vault.db''],
      lp_audit_db = dir @ [lit ''audit.db'']\<rparr>"

definition databases :: "lab_paths \<Rightarrow> path list" where
  "databases paths = [lp_auth_db paths, lp_config_db paths, lp_vault_db paths, lp_audit_db paths]"

definition lab_error :: "string \<Rightarrow> exn" where
  "lab_error m = err LabProvisioningError m"

record lab_records =
  lr_user :: user
  lr_target :: target
  lr_account :: privileged_account
  lr_policy :: access_policy

definition build_records :: "lab_config \<Rightarrow> lab_records res" where
  "build_records c =
     catchR
       (bindR (parse_openssh_sha256_fingerprint (lc_host_key_fingerprint c)) (\<lambda>fingerprint.
        bindR (mk_credential_ref (lc_credential_ref c)) (\<lambda>credential_ref.
        bindR (mk_user (lc_user_id c) (lc_username c) True) (\<lambda>user.
        bindR (mk_target (lc_target_id c) (lc_target_name c) (lc_target_host c) (lc_target_port c)
                 fingerprint True) (\<lambda>target.
        bindR (mk_privileged_account (lc_account_id c) (lc_target_id c) (lc_account_username c)
                 credential_ref True) (\<lambda>account.
        bindR (mk_access_policy (lc_policy_id c) (lc_user_id c) (lc_target_id c)
                 OPEN_PRIVILEGED_SESSION ALLOW) (\<lambda>policy.
        Inr \<lparr>lr_user = user, lr_target = target, lr_account = account, lr_policy = policy\<rparr>)))))))
       (catches_any [TypeError, ValueError])
       (\<lambda>_. Inl (lab_error ''lab configuration contains invalid values''))"

section \<open>The runtime directory\<close>

text \<open>\<open>_ensure_private_runtime_directory\<close>: what the \<open>try\<close> statement gives is the node of \<open>fstat\<close>.\<close>

definition inspect_runtime_directory :: "path \<Rightarrow> ('d host, 'd node) io" where
  "inspect_runtime_directory dir =
     try_except
       (bind (path_is_symlink dir) (\<lambda>link.
        if link then raise (lab_error ''runtime directory must not be a symbolic link'') else
        bind (path_exists dir) (\<lambda>existed.
        seq (mkdir_parents 0x1C0 dir)
       (bind (os_open_directory dir) (\<lambda>descriptor.
        try_finally
          (seq (if existed then ret () else os_fchmod descriptor 0x1C0) (os_fstat descriptor))
          (close_quietly descriptor))))))
       (catches OSError)
       (\<lambda>_. raise (lab_error ''runtime directory could not be created or inspected''))"

definition ensure_private_runtime_directory :: "path \<Rightarrow> ('d host, unit) io" where
  "ensure_private_runtime_directory dir =
     bind (inspect_runtime_directory dir) (\<lambda>file_stat.
     if \<not> is_directory file_stat then raise (lab_error ''runtime path is not a directory'')
     else if node_mode file_stat \<noteq> 0x1C0
     then raise (lab_error ''runtime directory permissions must be owner-only (0700)'')
     else ret ())"

text \<open>\<open>_reject_existing_databases\<close>; \<open>any\<close> asks in order until one exists.\<close>

primrec any_exists :: "path list \<Rightarrow> ('d host, bool) io" where
  "any_exists [] = ret False"
| "any_exists (p # ps) = bind (path_exists p) (\<lambda>there. if there then ret True else any_exists ps)"

definition reject_existing_databases :: "lab_paths \<Rightarrow> ('d host, unit) io" where
  "reject_existing_databases paths =
     bind (any_exists (databases paths)) (\<lambda>there.
     if there then raise (lab_error ''a lab database already exists; use a fresh runtime directory'')
     else ret ())"

section \<open>Keys and passwords\<close>

text \<open>
  The \<open>try\<close> statement that writes a new key. \<open>fdopen\<close> may fail before the stream owns the
  descriptor, which is then closed by hand; the \<open>with\<close> statement closes the stream.
\<close>

definition write_key_stream :: "path \<Rightarrow> bytes \<Rightarrow> ('d host, unit) io" where
  "write_key_stream d key = (\<lambda>h.
     case flush_to d (Bytes key) (length key) 0 h of ((r, off), h1) \<Rightarrow>
       try_finally (seq (lift r) (os_fsync d)) (close_stream d (Bytes key) (length key) off) h1)"

definition write_key :: "string \<Rightarrow> path \<Rightarrow> bytes \<Rightarrow> ('d host, unit) io" where
  "write_key purpose d key =
     (let failed = lab_error (purpose @ '' key file could not be written'') in
      seq (try_except (seq (os_fchmod d 0x180) (os_call (ret ()))) (catches OSError)
             (\<lambda>_. seq (os_close d) (raise failed)))
          (try_except (write_key_stream d key) (catches OSError) (\<lambda>_. raise failed)))"

definition load_or_create_key :: "path \<Rightarrow> string \<Rightarrow> ('d host, bytes) io" where
  "load_or_create_key p purpose =
     bind (try_except (bind (os_create p 0x180) (\<lambda>d. ret (Some d))) (catches OSError)
             (\<lambda>e. if catches FileExistsError e then ret None
                   else raise (lab_error (purpose @ '' key file could not be created''))))
       (\<lambda>descriptor.
     seq (case descriptor of
            None \<Rightarrow> ret ()
          | Some d \<Rightarrow> bind (token_bytes key_size) (write_key purpose d))
         (try_except (get_key p) (catches KeyProviderError)
            (\<lambda>_. raise (lab_error (purpose @ '' key file is invalid or has unsafe permissions'')))))"

definition read_password :: "(string \<Rightarrow> ('w, pystr) io) \<Rightarrow> string \<Rightarrow> ('w, pystr) io" where
  "read_password secret_reader prompt =
     bind (try_except (secret_reader prompt) (catches_any [EOFError, KeyboardInterrupt])
             (\<lambda>_. raise (lab_error ''secret entry was cancelled'')))
       (\<lambda>password. if password = [] then raise (lab_error ''password cannot be empty'')
                    else ret password)"

text \<open>\<open>with _owner_only_file_creation(): m\<close>\<close>

definition with_owner_only_umask :: "('d host, 'a) io \<Rightarrow> ('d host, 'a) io" where
  "with_owner_only_umask m = (\<lambda>h.
     let previous_umask = h_umask h in
     try_finally m (\<lambda>h'. (Inr (), h'\<lparr>h_umask := previous_umask\<rparr>)) (h\<lparr>h_umask := 0x3F\<rparr>))"

section \<open>Provisioning\<close>

definition make_keys :: "lab_paths \<Rightarrow> (dbhost, bytes) io" where
  "make_keys paths =
     bind (load_or_create_key (lp_vault_key paths) ''vault'') (\<lambda>vault_key.
     bind (load_or_create_key (lp_audit_key paths) ''audit integrity'') (\<lambda>audit_key.
     if vault_key = audit_key
     then raise (lab_error ''vault and audit integrity keys must be distinct'')
     else try_except (lift (mk_cipher vault_key)) is_exception
            (\<lambda>_. raise (lab_error ''vault cipher could not be initialized''))))"

definition read_passwords :: "(string \<Rightarrow> (dbhost, pystr) io) \<Rightarrow> (dbhost, pystr \<times> pystr) io" where
  "read_passwords secret_reader =
     bind (read_password secret_reader ''PAM application user password: '') (\<lambda>pam_password.
     bind (read_password secret_reader ''Target pamadmin SSH password: '') (\<lambda>target_password.
     ret (pam_password, target_password)))"

definition init_databases :: "lab_paths \<Rightarrow> (dbhost, unit) io" where
  "init_databases paths =
     try_except
       (with_owner_only_umask
          (seq (user_init (lp_auth_db paths))
          (seq (target_init (lp_config_db paths))
          (seq (account_init (lp_config_db paths))
          (seq (policy_init (lp_config_db paths))
               (vault_init (lp_vault_db paths)))))))
       is_exception (\<lambda>_. raise (lab_error ''lab databases could not be initialized''))"

definition store_records ::
  "dbhost argon2 \<Rightarrow> aead \<Rightarrow> bytes \<Rightarrow> lab_paths \<Rightarrow> lab_records \<Rightarrow> pystr \<Rightarrow> pystr \<Rightarrow> (dbhost, unit) io" where
  "store_records hasher cipher key paths x pam_password target_password =
     seq (try_except (create_user (lp_auth_db paths) hasher (lr_user x) pam_password)
            is_exception (\<lambda>_. raise (lab_error ''PAM user could not be provisioned'')))
    (seq (try_except
            (seq (target_store (lp_config_db paths) (lr_target x))
            (seq (account_store (lp_config_db paths) (lr_account x))
                 (policy_store (lp_config_db paths) (lr_policy x))))
            is_exception (\<lambda>_. raise (lab_error ''lab configuration could not be provisioned'')))
    (bind (lift (catchR (utf8_encode target_password) (catches UnicodeEncodeError)
            (\<lambda>_. Inl (lab_error ''target password could not be encoded'')))) (\<lambda>target_secret.
     try_except (vault_store (lp_vault_db paths) cipher key (acc_credential_ref (lr_account x)) target_secret)
       is_exception
       (\<lambda>_. raise (lab_error ''target credential could not be encrypted and stored'')))))"

definition provision_lab ::
  "dbhost argon2 \<Rightarrow> aead \<Rightarrow> (string \<Rightarrow> (dbhost, pystr) io) \<Rightarrow> lab_config \<Rightarrow> (dbhost, lab_paths) io" where
  "provision_lab hasher cipher secret_reader config =
     (let paths = paths_within (lc_runtime_dir config) in
      bind (lift (build_records config)) (\<lambda>records.
      seq (ensure_private_runtime_directory (lp_runtime_dir paths))
     (seq (reject_existing_databases paths)
     (bind (make_keys paths) (\<lambda>key.
      bind (read_passwords secret_reader) (\<lambda>(pam_password, target_password).
      seq (init_databases paths)
     (seq (store_records hasher cipher key paths records pam_password target_password)
          (ret paths))))))))"

text \<open>
  \<open>main\<close> after its argument parser: the exit code and the lines that are printed. A path is shown
  with its separators.
\<close>

datatype stream = Stdout | Stderr

definition path_text :: "path \<Rightarrow> pystr" where
  "path_text p = lit ''/'' @ join (lit ''/'') p"

definition provision_report :: "lab_config \<Rightarrow> lab_paths \<Rightarrow> (stream \<times> pystr) list" where
  "provision_report config paths = map (Pair Stdout)
     [lit ''Provisioning complete.'',
      lit ''Runtime directory: '' @ path_text (lp_runtime_dir paths),
      lit ''PAM user: '' @ lc_username config,
      lit ''Target: '' @ lc_target_name config @ lit '' ('' @ lc_target_host config @ lit '':''
        @ dec_int (lc_target_port config) @ lit '')'',
      lit ''Privileged account: '' @ lc_account_username config,
      lit ''Policy: '' @ lc_user_id config @ lit '' -> '' @ lc_target_id config @ lit '' -> ALLOW'']"

definition provision_main ::
  "dbhost argon2 \<Rightarrow> aead \<Rightarrow> (string \<Rightarrow> (dbhost, pystr) io) \<Rightarrow> lab_config \<Rightarrow>
   (dbhost, int \<times> (stream \<times> pystr) list) io" where
  "provision_main hasher cipher secret_reader config =
     try_except
       (bind (provision_lab hasher cipher secret_reader config) (\<lambda>paths.
        ret (0, provision_report config paths)))
       (catches LabProvisioningError)
       (\<lambda>error. ret (1, [(Stderr, lit ''Provisioning failed: '' @ exn_message error)]))"

section \<open>The directory and the keys\<close>

lemma no_link_exists:
  assumes "\<not> exists_path h p" "\<nexists>q. h_files h p = Some (Symlink q)"
  shows "h_files h p = None"
  using assms by (simp add: exists_path_def stat_node_def follow_no_link)

lemma exists_only_link:
  "\<not> exists_path h p \<Longrightarrow> h_files h p = Some n \<Longrightarrow> \<exists>q. n = Symlink q"
  using no_link_exists [of h p] by auto

lemma inspect_directory_run:
  assumes "inspect_runtime_directory dir h = (r, h')"
  shows "adds_above dir h h' \<and> (case r of
      Inl e \<Rightarrow> exn_class e = LabProvisioningError | Inr n \<Rightarrow> h_files h' dir = Some n)"
proof -
  let ?link = "lab_error ''runtime directory must not be a symbolic link''"
  let ?failed = "lab_error ''runtime directory could not be created or inspected''"
  let ?finish = "\<lambda>existed d. try_finally
          (seq (if existed then ret () else os_fchmod d 0x1C0) (os_fstat d)) (close_quietly d)"
  let ?body = "bind (path_is_symlink dir) (\<lambda>link. if link then raise ?link else
     bind (path_exists dir) (\<lambda>existed. seq (mkdir_parents 0x1C0 dir)
       (bind (os_open_directory dir) (?finish existed))))"
  have cls: "exn_class ?link = LabProvisioningError" "exn_class ?failed = LabProvisioningError"
    by (simp_all add: lab_error_def)
  have body: "adds_above dir h h' \<and> (case r of
      Inl e \<Rightarrow> catches OSError e \<or> e = ?link | Inr n \<Rightarrow> h_files h' dir = Some n)"
    if b: "?body h = (r, h')" for r
  proof -
    obtain l h1 where l: "path_is_symlink dir h = (l, h1)" by fastforce
    note 1 = asksD [OF path_questions(1) l]
    obtain x h2 where x: "path_exists dir h1 = (x, h2)" by fastforce
    note 2 = asksD [OF path_questions(2) x]
    have s2: "same_files h h2" using 1 2 same_files_trans by blast
    have a: "same_files h i \<Longrightarrow> adds_above dir h i" for i
      by (simp add: adds_above_def same_files_grows) (simp add: same_files_def)
    show ?thesis
    proof (cases "l = Inr False \<and> \<not> isl x")
      case False
      then have "h' = h1 \<or> h' = h2" "\<exists>e. r = Inl e \<and> (catches OSError e \<or> e = ?link)"
        using b l x 1 2 by (auto simp: bind_apply split: sum.splits if_splits)
      with a s2 1 show ?thesis by auto
    next
      case True
      then obtain existed where e: "x = Inr existed" by (cases x) auto
      obtain m h3 where m: "mkdir_parents 0x1C0 dir h2 = (m, h3)" by fastforce
      note 3 = mkdir_parents_run [OF m]
      have a3: "adds_above dir h h3" using a [OF s2] 3 adds_above_trans by blast
      obtain d h4 where d: "os_open_directory dir h3 = (d, h4)" by fastforce
      note 4 = os_open_directory_run [OF d]
      have a4: "adds_above dir h h4" using a3 4 by (simp add: adds_above_def grows_def same_files_def)
      show ?thesis
      proof (cases "isl m \<or> isl d")
        case True
        with b l x \<open>l = Inr False \<and> \<not> isl x\<close> e m d 3 4 a3 a4 show ?thesis
          by (cases m; cases d) (auto simp: bind_apply seq_apply)
      next
        case False
        then have md: "m = Inr ()" "d = Inr dir" using 4 by (cases m; cases d; auto)+
        with b l x \<open>l = Inr False \<and> \<not> isl x\<close> e m d have "?finish existed dir h4 = (r, h')"
          by (simp add: bind_apply seq_apply)
        then obtain h5 where h5: "seq (if existed then ret () else os_fchmod dir 0x1C0) (os_fstat dir) h4 = (r, h5)"
          "same_files h5 h'" by (rule try_finally_close)
        obtain c h6 where c: "(if existed then ret () else os_fchmod dir 0x1C0) h4 = (c, h6)" by fastforce
        have new: "\<not> existed \<Longrightarrow> h_files h dir = None"
          using 1 2 True e no_link_exists [of h dir] stat_same_files(2) [of h h1 dir] by auto
        have a6: "adds_above dir h h6 \<and> (case c of Inl e \<Rightarrow> catches OSError e | Inr _ \<Rightarrow> True)"
        proof (cases existed)
          case True
          with c a4 show ?thesis by auto
        next
          case False
          with c have "os_fchmod dir 0x1C0 h4 = (c, h6)" by simp
          note fc = os_fchmod_run [OF this]
          show ?thesis
          proof (cases c)
            case (Inl e)
            with fc a4 show ?thesis by (simp add: adds_above_def grows_def catches_def)
          next
            case (Inr u)
            with fc obtain n where "h_files h6 = (h_files h4)(dir \<mapsto> n)" by auto
            with adds_above_update [OF a4 new [OF False] this] fc Inr show ?thesis by simp
          qed
        qed
        show ?thesis
        proof (cases c)
          case (Inl e)
          with h5 c a6 show ?thesis by (auto simp: seq_apply adds_above_def grows_def same_files_def)
        next
          case (Inr u)
          with h5 c have f: "os_fstat dir h6 = (r, h5)" by (simp add: seq_apply)
          from os_fstat_run [OF f] a6 h5(2) show ?thesis
            by (auto simp: adds_above_def grows_def same_files_def catches_def split: sum.splits)
        qed
      qed
    qed
  qed
  obtain q where q: "?body h = (q, h')"
    "r = (case q of Inl e \<Rightarrow> if catches OSError e then Inl ?failed else Inl e | Inr n \<Rightarrow> Inr n)"
    using assms by (auto simp: inspect_runtime_directory_def try_except_def split: prod.splits sum.splits if_splits)
  from body [OF q(1)] q(2) cls show ?thesis by (auto split: sum.splits)
qed

lemma ensure_private_run:
  assumes "ensure_private_runtime_directory dir h = (r, h')"
  shows "adds_above dir h h' \<and> (case r of Inl e \<Rightarrow> exn_class e = LabProvisioningError
    | Inr _ \<Rightarrow> h_files h' dir = Some (Directory 0x1C0))"
proof -
  obtain q h1 where q: "inspect_runtime_directory dir h = (q, h1)" by fastforce
  note run = inspect_directory_run [OF q]
  show ?thesis
  proof (cases q)
    case (Inl e)
    with assms q run show ?thesis by (auto simp: ensure_private_runtime_directory_def bind_apply)
  next
    case (Inr n)
    with assms q run show ?thesis
      by (cases n) (auto simp: ensure_private_runtime_directory_def bind_apply lab_error_def split: if_splits)
  qed
qed

lemma any_exists_run:
  assumes "any_exists ps h = (r, h')"
  shows "same_files h h' \<and> (case r of
      Inl e \<Rightarrow> e = err OSError ''EIO'' | Inr b \<Rightarrow> b = (\<exists>p \<in> set ps. exists_path h p))"
  using assms
proof (induction ps arbitrary: h)
  case (Cons p ps)
  obtain q h1 where q: "path_exists p h = (q, h1)" by fastforce
  note ask = asksD [OF path_questions(2) q]
  then have same: "exists_path h1 x = exists_path h x" for x by (simp add: stat_same_files)
  show ?case
  proof (cases "q = Inr False")
    case True
    with Cons.prems q have "any_exists ps h1 = (r, h')" by (simp add: bind_apply)
    from Cons.IH [OF this] ask True same show ?thesis
      by (auto intro: same_files_trans split: sum.splits)
  next
    case False
    with Cons.prems q ask show ?thesis by (auto simp: bind_apply split: sum.splits)
  qed
qed auto

lemma reject_existing_run:
  assumes "reject_existing_databases paths h = (r, h')"
  shows "same_files h h' \<and> (r = Inr () \<longrightarrow> (\<forall>p \<in> set (databases paths). \<not> exists_path h p))
    \<and> (isl r \<or> r = Inr ())"
proof -
  obtain q h1 where q: "any_exists (databases paths) h = (q, h1)" by fastforce
  from any_exists_run [OF q] assms q show ?thesis
    by (cases q) (auto simp: reject_existing_databases_def bind_apply split: if_splits)
qed

lemma write_key_stream_run:
  assumes "write_key_stream d key h = (r, h')" "h_files h d = Some (Regular m (Bytes []))"
  shows "confined {d} h h' \<and> h_entropy h' = h_entropy h \<and> (case r of Inl e \<Rightarrow> catches OSError e
    | Inr _ \<Rightarrow> h_files h' d = Some (Regular m (Bytes key)))"
proof -
  let ?c = "Bytes key"
  have len: "length (content_bytes ?c) = length key" by simp
  have start: "holds d m ?c 0 h h"
    using assms(2) by (cases "key = []") (auto simp: holds_def content_prefix_0 fun_upd_idem)
  obtain q off h1 where q: "flush_to d ?c (length key) 0 h = ((q, off), h1)" by (metis prod.exhaust)
  note flush = flush_to_run [OF q start]
  obtain y h2 where y: "seq (lift q) (os_fsync d) h1 = (y, h2)" by fastforce
  have s2: "same_files h1 h2 \<and> (case y of Inl e \<Rightarrow> catches OSError e | Inr _ \<Rightarrow> q = Inr ())"
    using y flush os_close_run(2) [of d h1 y h2] by (cases q; cases y) (auto simp: seq_apply)
  then have h2: "holds d m ?c off h h2" using flush holds_same_files by blast
  obtain u h3 where u: "close_stream d ?c (length key) off h2 = (u, h3)" by fastforce
  note c = close_stream_run [OF u h2]
  have "try_finally (seq (lift q) (os_fsync d)) (close_stream d ?c (length key) off) h1
      = (case u of Inl e \<Rightarrow> Inl e | Inr _ \<Rightarrow> y, h3)"
    using y u by (cases y; cases u) (simp_all add: try_finally_def finally_with_def bind_apply)
  with assms(1) q have r: "h' = h3" "r = (case u of Inl e \<Rightarrow> Inl e | Inr _ \<Rightarrow> y)"
    by (simp_all add: write_key_stream_def)
  from c flush obtain off' where o: "holds d m ?c off' h h3" "u = Inr () \<Longrightarrow> off' = length key" by auto
  from o(1) have e: "h_entropy h3 = h_entropy h" by (simp add: holds_def)
  show ?thesis
  proof (cases u)
    case (Inl e')
    with r c flush o e show ?thesis by (auto intro: holds_confined)
  next
    case (Inr v)
    with o len have "h_files h3 d = Some (Regular m ?c)"
      by (simp add: holds_def) (metis content_prefix_all len)
    with r Inr s2 o e show ?thesis by (auto intro: holds_confined split: sum.splits)
  qed
qed

lemma write_key_run:
  assumes "write_key purpose d key h = (r, h')" "h_files h d = Some (Regular m (Bytes []))"
  shows "confined {d} h h' \<and> h_entropy h' = h_entropy h
    \<and> (r = Inr () \<longrightarrow> h_files h' d = Some (Regular 0x180 (Bytes key)))"
proof -
  let ?failed = "lab_error (purpose @ '' key file could not be written'')"
  let ?m = "seq (os_fchmod d 0x180) (os_call (ret ()))"
  obtain q h1 where q: "?m h = (q, h1)" by fastforce
  have 1: "confined {d} h h1 \<and> h_entropy h1 = h_entropy h \<and> (case q of Inl e \<Rightarrow> catches OSError e
      | Inr _ \<Rightarrow> h_files h1 d = Some (Regular 0x180 (Bytes [])))"
  proof -
    obtain f h0 where f: "os_fchmod d 0x180 h = (f, h0)" by fastforce
    note run = os_fchmod_run [OF f]
    from q f run assms(2) show ?thesis
      by (cases f) (auto simp: seq_apply os_call_def faultable_eq confined_def catches_def)
  qed
  show ?thesis
  proof (cases q)
    case (Inl e)
    obtain u h2 where u: "os_close d h1 = (u, h2)" by fastforce
    from Inl q 1 u assms(1) have "isl r" "h' = h2"
      by (cases u; auto simp: write_key_def Let_def try_except_def seq_apply)+
    with os_close_run(1) [OF u] 1 show ?thesis
      by (auto simp: same_files_def confined_def)
  next
    case (Inr v)
    obtain w h2 where w: "write_key_stream d key h1 = (w, h2)" by fastforce
    from Inr q w assms(1) have r: "h' = h2" "r = Inr () \<longrightarrow> w = Inr ()"
      by (cases w; auto simp: write_key_def Let_def try_except_def seq_apply split: if_splits)+
    from Inr 1 have "h_files h1 d = Some (Regular 0x180 (Bytes []))" by simp
    note run = write_key_stream_run [OF w this]
    with 1 have "confined {d} h h2" "h_entropy h2 = h_entropy h" by (auto intro: confined_trans)
    with run r show ?thesis by auto
  qed
qed

lemma load_or_create_key_run:
  assumes "load_or_create_key p purpose h = (r, h')"
  shows "confined {p} h h' \<and> (h_files h p \<noteq> None \<longrightarrow> h_files h' p = h_files h p)
    \<and> (case r of Inl e \<Rightarrow> True | Inr k \<Rightarrow> key_of h' p = Some k \<and> length k = 32)"
proof -
  let ?open = "try_except (bind (os_create p 0x180) (\<lambda>d. ret (Some d))) (catches OSError)
             (\<lambda>e. if catches FileExistsError e then ret None
                   else raise (lab_error (purpose @ '' key file could not be created'')))"
  let ?make = "\<lambda>descriptor. case descriptor of None \<Rightarrow> ret ()
          | Some d \<Rightarrow> bind (token_bytes key_size) (write_key purpose d)"
  let ?load = "try_except (get_key p) (catches KeyProviderError)
            (\<lambda>_. raise (lab_error (purpose @ '' key file is invalid or has unsafe permissions'')))"
  obtain c h1 where c: "os_create p 0x180 h = (c, h1)" by fastforce
  note cr = os_create_run [OF c]
  define opened where "opened = (case c of Inr d \<Rightarrow> Inr (Some d) | Inl e \<Rightarrow>
      if \<not> catches OSError e then Inl e else if catches FileExistsError e then Inr None
      else Inl (lab_error (purpose @ '' key file could not be created'')))"
  have o: "?open h = (opened, h1)"
    using c by (cases c) (auto simp: try_except_def bind_apply opened_def)
  have um: "h_umask h1 = h_umask h" using c by (auto simp: os_create_def os_call_def faultable_eq put_node_def split: if_splits)
  have 1: "confined {p} h h1" "h_files h p \<noteq> None \<longrightarrow> h_files h1 p = h_files h p"
    using cr um by (auto simp: confined_def split: sum.splits)
  show ?thesis
  proof (cases opened)
    case (Inl e)
    with o assms 1 show ?thesis by (auto simp: load_or_create_key_def bind_apply)
  next
    case (Inr d)
    obtain w h2 where w: "?make d h1 = (w, h2)" by fastforce
    have 2: "confined {p} h1 h2 \<and> (h_files h p \<noteq> None \<longrightarrow> h_files h2 p = h_files h1 p)"
    proof (cases d)
      case None
      with w show ?thesis by simp
    next
      case (Some d')
      with Inr have cd: "c = Inr d'" by (cases c) (auto simp: opened_def split: if_splits)
      with cr obtain k where k: "d' = p" "h_files h p = None" "h_files h1 p = Some (Regular k (Bytes []))" by auto
      obtain t h3 where t: "token_bytes key_size h1 = (t, h3)" by fastforce
      then have s: "h_files h3 = h_files h1" "h_umask h3 = h_umask h1"
        by (auto simp: token_bytes_def split: if_splits)
      show ?thesis
      proof (cases t)
        case (Inl e)
        with w Some t s k show ?thesis by (auto simp: bind_apply confined_def)
      next
        case (Inr key)
        with w Some t k have "write_key purpose p key h3 = (w, h2)" by (simp add: bind_apply)
        from write_key_run [OF this] k s show ?thesis by (simp add: confined_def)
      qed
    qed
    obtain g h3 where g: "get_key p h2 = (g, h3)" by fastforce
    note 3 = get_key_run [OF g]
    have len: "key_of i q = Some k \<Longrightarrow> length k = 32" for i :: "'a host" and q k
      by (auto simp: key_of_def split: option.splits node.splits if_splits)
    show ?thesis
    proof (cases w)
      case (Inl e)
      with o Inr w assms 1 2 show ?thesis
        by (auto simp: load_or_create_key_def bind_apply seq_apply intro: confined_trans)
    next
      case (Inr u)
      have "h' = h3" "\<And>k. r = Inr k \<Longrightarrow> g = Inr k"
        using o \<open>opened = Inr d\<close> w Inr g assms
        by (cases g; auto simp: load_or_create_key_def bind_apply seq_apply try_except_def split: if_splits)+
      moreover have "confined {p} h h3" using 1 2 3 same_files_confined confined_trans by blast
      moreover have "key_of h3 p = key_of h2 p" using 3 by (simp add: key_of_def same_files_def)
      moreover have "h_files h3 p = h_files h2 p" using 3 by (simp add: same_files_def)
      ultimately show ?thesis using 1 2 3 len by (cases r) auto
    qed
  qed
qed

lemma load_or_create_key_grows:
  assumes "load_or_create_key p purpose h = (r, h')"
  shows "grows h h'"
proof -
  note run = load_or_create_key_run [OF assms]
  have "h_files h a = h_files h' a" if "h_files h a \<noteq> None" for a
    using run that by (cases "a = p") (auto simp: confined_def)
  with run show ?thesis by (simp add: grows_def map_le_def confined_def domIff)
qed

lemma make_keys_run:
  assumes "make_keys paths h = (r, h')" "lp_vault_key paths \<noteq> lp_audit_key paths"
  shows "confined {lp_vault_key paths, lp_audit_key paths} h h' \<and> grows h h'
    \<and> (case r of Inl e \<Rightarrow> True
       | Inr k \<Rightarrow> key_of h' (lp_vault_key paths) = Some k \<and> length k = 32
           \<and> (\<exists>a. key_of h' (lp_audit_key paths) = Some a \<and> a \<noteq> k))"
proof -
  let ?v = "lp_vault_key paths" and ?a = "lp_audit_key paths"
  obtain q h1 where q: "load_or_create_key ?v ''vault'' h = (q, h1)" by fastforce
  note 1 = load_or_create_key_run [OF q] load_or_create_key_grows [OF q]
  have c1: "confined {?v, ?a} h h1" using 1(1) by (auto intro: confined_mono)
  show ?thesis
  proof (cases q)
    case (Inl e)
    with assms(1) q 1 c1 show ?thesis by (auto simp: make_keys_def bind_apply)
  next
    case (Inr k)
    obtain w h2 where w: "load_or_create_key ?a ''audit integrity'' h1 = (w, h2)" by fastforce
    note 2 = load_or_create_key_run [OF w] load_or_create_key_grows [OF w]
    have c2: "confined {?v, ?a} h h2" "grows h h2"
      using c1 1 2 by (auto intro: confined_trans confined_mono grows_trans)
    have v: "key_of h2 ?v = key_of h1 ?v"
      using 2(1) assms(2) by (simp add: key_of_def confined_def)
    from Inr 1 have k: "mk_cipher k = Inr k" by (simp add: mk_cipher_def)
    from assms(1) q Inr w k have r: "h' = h2" "\<And>x. r = Inr x \<Longrightarrow> \<exists>a. w = Inr a \<and> a \<noteq> k \<and> x = k"
      by (cases w; auto simp: make_keys_def bind_apply try_except_def split: if_splits)+
    with 1 2 c2 v Inr show ?thesis by (cases r) auto
  qed
qed

section \<open>The databases\<close>

text \<open>The tables of a lab, and what opening them leaves\<close>

definition lab_tables :: "lab_paths \<Rightarrow> (path \<times> pystr \<times> table) list" where
  "lab_tables paths =
     [(lp_auth_db paths, users_table, made user_schema user_unique []),
      (lp_config_db paths, targets_table, made target_schema [[lit ''id'']] []),
      (lp_config_db paths, accounts_table, made account_schema [[lit ''id'']] []),
      (lp_config_db paths, policies_table, made policy_schema [[lit ''id'']] []),
      (lp_vault_db paths, vault_table, made vault_schema [[lit ''id'']] [])]"

definition lab_schemas :: "lab_paths \<Rightarrow> (path \<times> pystr \<times> pystr list) list" where
  "lab_schemas paths =
     [(lp_auth_db paths, users_table, user_columns), (lp_config_db paths, targets_table, target_columns),
      (lp_config_db paths, accounts_table, account_columns),
      (lp_config_db paths, policies_table, policy_columns), (lp_vault_db paths, vault_table, vault_columns)]"

definition store_databases :: "lab_paths \<Rightarrow> path set" where
  "store_databases paths = {lp_auth_db paths, lp_config_db paths, lp_vault_db paths}"

lemma table_names_distinct [simp]:
  "targets_table \<noteq> accounts_table" "targets_table \<noteq> policies_table" "accounts_table \<noteq> policies_table"
  "accounts_table \<noteq> targets_table" "policies_table \<noteq> targets_table" "policies_table \<noteq> accounts_table"
  by (simp_all add: targets_table_def accounts_table_def policies_table_def)

lemma init_databases_run:
  assumes "init_databases paths h = (r, h')"
    "distinct [lp_auth_db paths, lp_config_db paths, lp_vault_db paths]"
    "\<forall>p \<in> store_databases paths. h_files h p = None \<or> (\<exists>x. h_files h p = Some (Symlink x))"
  shows "confined (store_databases paths) h h' \<and> grows h h'
    \<and> (\<not> isl r \<longrightarrow> (\<forall>p \<in> store_databases paths. h_files h p = None
          \<and> (\<exists>c. h_files h' p = Some (Regular 0x180 c)))
        \<and> (\<forall>(p, n, t) \<in> set (lab_tables paths). table_at h' p n = Some t))"
proof -
  let ?inits = "seq (user_init (lp_auth_db paths))
          (seq (target_init (lp_config_db paths))
          (seq (account_init (lp_config_db paths))
          (seq (policy_init (lp_config_db paths))
               (vault_init (lp_vault_db paths)))))"
  let ?h = "h\<lparr>h_umask := 0x3F\<rparr>"
  obtain q h1 where q: "?inits ?h = (q, h1)" by fastforce
  have r: "h' = h1\<lparr>h_umask := h_umask h\<rparr>" "isl r = isl q"
    using assms(1) q by (cases q; auto simp: init_databases_def with_owner_only_umask_def Let_def
        try_except_def try_finally_def finally_with_def bind_apply split: if_splits)+
  have fst_tables: "fst ` set (lab_tables paths) = store_databases paths"
    "fst ` set (lab_schemas paths) = store_databases paths"
    by (auto simp: lab_tables_def lab_schemas_def store_databases_def)
  have "creator (lab_tables paths) ?inits"
    unfolding lab_tables_def by (rule creator_Cons stores_created)+
  with q have c: "created (lab_tables paths) ?h q h1" unfolding creator_def by blast
  have "opens (lab_schemas paths) ?inits"
    unfolding lab_schemas_def by (rule opens_Cons stores_open)+
  with q have o: "opened_all (lab_schemas paths) ?h q h1" unfolding opens_def by blast
  have none: "h_files h p = None \<or> (\<exists>x. h_files h p = Some (Symlink x))" if "p \<in> store_databases paths" for p
    using assms(3) that by blast
  have conf: "confined (store_databases paths) h h'"
    using createdD(1) [OF c] fst_tables r by (simp add: confined_def)
  have kept: "h_files h' p = Some n" if "h_files h p = Some n" for p n
  proof (cases "p \<in> store_databases paths")
    case True
    with none [OF True] that obtain x where "n = Symlink x" by auto
    with createdD(2) [OF c, of p x] that r show ?thesis by simp
  next
    case False
    with conf that show ?thesis by (simp add: confined_def)
  qed
  then have g: "grows h h'" using conf by (auto simp: grows_def map_le_def confined_def)
  have "h_files h p = None \<and> (\<exists>c. h_files h' p = Some (Regular 0x180 c))"
    if s: "\<not> isl r" "p \<in> store_databases paths" for p
  proof -
    have "\<nexists>x. h_files h p = Some (Symlink x)"
      using createdD(3) [OF c, of p] s r fst_tables by auto
    with none [OF s(2)] have "h_files h p = None" by blast
    moreover from o s r have "\<forall>(p, n, cols) \<in> set (lab_schemas paths). \<exists>c. h_files h1 p = Some (Regular 0x180 c)"
      by (auto simp: opened_all_def)
    with s(2) have "\<exists>c. h_files h1 p = Some (Regular 0x180 c)"
      by (auto simp: lab_schemas_def store_databases_def)
    ultimately show ?thesis using r by simp
  qed
  moreover have "\<forall>(p, n, t) \<in> set (lab_tables paths). table_at h' p n = Some t" if s: "\<not> isl r"
  proof -
    have "table_at ?h p n = None" if "p \<in> store_databases paths" for p n
      using none [OF that] by (auto simp: table_at_def db_at_def)
    then have "\<forall>(p, n, t) \<in> set (lab_tables paths). table_at ?h p n = None"
      using fst_tables(1) by fastforce
    moreover have "distinct (map (\<lambda>(p, n, t). (p, n)) (lab_tables paths))"
      using assms(2) by (simp add: lab_tables_def)
    moreover have "table_at h' = table_at h1" using r by (simp add: table_at_def db_at_def fun_eq_iff)
    ultimately show ?thesis using c s r by (simp add: created_def)
  qed
  ultimately show ?thesis using conf g by blast
qed

section \<open>The records\<close>

text \<open>Files of \<open>P\<close> may get another content, but keep their kind and mode.\<close>

definition refills :: "path set \<Rightarrow> dbhost \<Rightarrow> dbhost \<Rightarrow> bool" where
  "refills P h h' \<longleftrightarrow> confined P h h'
     \<and> (\<forall>p m c. h_files h p = Some (Regular m c) \<longrightarrow> (\<exists>c'. h_files h' p = Some (Regular m c')))"

lemma refills_refl [simp]: "refills P h h"
  by (simp add: refills_def)

lemma refills_trans: "refills P h i \<Longrightarrow> refills P i j \<Longrightarrow> refills P h j"
  unfolding refills_def by (metis confined_trans)

lemma refills_mono: "refills P h i \<Longrightarrow> P \<subseteq> Q \<Longrightarrow> refills Q h i"
  by (auto simp: refills_def intro: confined_mono)

lemma only_db_refills: "only_db p h h' \<Longrightarrow> refills {p} h h'"
  unfolding refills_def confined_def only_db_def by (metis singletonI)

lemma refills_table_other: "refills P h h' \<Longrightarrow> p \<notin> P \<Longrightarrow> table_at h' p n = table_at h p n"
  by (simp add: refills_def confined_def table_at_def db_at_def)

definition quiet_hasher :: "dbhost argon2 \<Rightarrow> bool" where
  "quiet_hasher lib \<longleftrightarrow> (\<forall>pw g. h_files (snd (a_hash lib pw g)) = h_files g
     \<and> h_umask (snd (a_hash lib pw g)) = h_umask g)"

lemma create_user_run:
  assumes "user_rows p h rows" "quiet_hasher lib" "create_user p lib x password h = (q, h')"
  shows "refills {p} h h' \<and> (q = Inr () \<longrightarrow> (\<exists>eh g g'. user_ok x \<and> a_hash lib password g = (Inr eh, g')
     \<and> startswith eh argon2_prefix \<and> bind_values (user_row x eh) = Inr ()
     \<and> user_rows p h' (rows @ [user_row x eh])))"
proof -
  obtain a h1 where a: "a_hash lib password h = (a, h1)" by fastforce
  from assms(2) have q1: "h_files h1 = h_files h" "h_umask h1 = h_umask h"
    by (metis a quiet_hasher_def snd_conv)+
  then have 1: "refills {p} h h1" "user_rows p h1 rows"
    using assms(1) by (auto simp: refills_def confined_def table_rows_def table_at_def db_at_def)
  show ?thesis
  proof (cases "user_ok x \<and> (\<exists>eh. a = Inr eh \<and> startswith eh argon2_prefix)")
    case False
    then have "isl q \<and> (h' = h \<or> h' = h1)"
      using assms(3) a user_serialize_Inr [of x]
      by (cases "user_serialize x"; cases a) (auto simp: create_user_def hash_password_def
          user_store_hash_def try_except_def bind_apply split: if_splits)
    with 1 show ?thesis by auto
  next
    case True
    then obtain eh where eh: "user_ok x" "a = Inr eh" "startswith eh argon2_prefix" by blast
    with assms(3) a have i: "user_insert p x eh h1 = (q, h')"
      by (simp add: create_user_def hash_password_def user_store_hash_def try_except_def bind_apply
          user_serialize_Inr [of x, THEN iffD2])
    note run = user_insert_run [OF 1(2) i]
    have "refills {p} h h'" using run only_db_refills refills_trans [OF 1(1)] by blast
    with run eh a show ?thesis by (cases q) auto
  qed
qed

lemma vault_store_run:
  assumes "vault_rows p h rows" "vault_store p lib key ref x h = (q, h')"
  shows "refills {p} h h' \<and> (q = Inr () \<longrightarrow> (\<exists>s. bind_values (vault_row ref s) = Inr ()
     \<and> vault_rows p h' (rows @ [vault_row ref s])
     \<and> (aead_correct lib \<and> length key = 32 \<longrightarrow> secret_ok s \<and> cipher_decrypt lib key s = Inr x)))"
proof -
  obtain c h1 where c: "cipher_encrypt lib key x h = (c, h1)" by fastforce
  then have "h1 = h\<lparr>h_entropy := h_entropy h1\<rparr>"
    by (auto simp: cipher_encrypt_def bind_apply token_bytes_def split: if_splits sum.splits)
  then have 1: "refills {p} h h1" "vault_rows p h1 rows"
    using assms(1) by (metis (no_types) confined_def host.ext_inject host.surjective host.update_convs(3) refills_def)
      (metis assms(1) \<open>h1 = h\<lparr>h_entropy := h_entropy h1\<rparr>\<close> table_rows_entropy)
  show ?thesis
  proof (cases c)
    case (Inl e)
    with assms(2) c have "isl q" "h' = h1"
      by (auto simp: vault_store_def bind_apply try_except_def split: if_splits)
    with 1 show ?thesis by auto
  next
    case (Inr s)
    with assms(2) c have i: "vault_insert p ref s h1 = (q, h')"
      by (simp add: vault_store_def bind_apply try_except_def)
    note run = vault_insert_run [OF 1(2) i]
    have "refills {p} h h'" using run only_db_refills refills_trans [OF 1(1)] by blast
    with run Inr c cipher_encrypt_run [of lib key x h s h1] show ?thesis by (cases q) auto
  qed
qed

text \<open>What a provisioned lab holds\<close>

definition lab_data ::
  "dbhost argon2 \<Rightarrow> aead \<Rightarrow> bytes \<Rightarrow> lab_paths \<Rightarrow> lab_records \<Rightarrow> pystr \<Rightarrow> pystr \<Rightarrow> dbhost \<Rightarrow> bool" where
  "lab_data hasher cipher key paths x pam_password target_password h \<longleftrightarrow>
     (\<exists>eh g g'. user_ok (lr_user x) \<and> a_hash hasher pam_password g = (Inr eh, g')
        \<and> startswith eh argon2_prefix \<and> bind_values (user_row (lr_user x) eh) = Inr ()
        \<and> user_rows (lp_auth_db paths) h [user_row (lr_user x) eh])
   \<and> target_ok (lr_target x) \<and> bind_values (target_row (lr_target x)) = Inr ()
   \<and> target_rows (lp_config_db paths) h [target_row (lr_target x)]
   \<and> account_ok (lr_account x) \<and> bind_values (account_row (lr_account x)) = Inr ()
   \<and> account_rows (lp_config_db paths) h [account_row (lr_account x)]
   \<and> (\<exists>vals. policy_serialize (lr_policy x) = Inr vals \<and> bind_values vals = Inr ()
        \<and> policy_rows (lp_config_db paths) h [vals])
   \<and> (\<exists>s secret. utf8_encode target_password = Inr secret
        \<and> bind_values (vault_row (acc_credential_ref (lr_account x)) s) = Inr ()
        \<and> vault_rows (lp_vault_db paths) h [vault_row (acc_credential_ref (lr_account x)) s]
        \<and> (aead_correct cipher \<and> length key = 32 \<longrightarrow> secret_ok s \<and> cipher_decrypt cipher key s = Inr secret))"

lemma reraise_run:
  assumes "try_except m p (\<lambda>_. raise e) s = (r, s')"
  obtains q where "m s = (q, s')" "isl r = isl q" "\<not> isl q \<Longrightarrow> r = q"
  using assms by (cases "m s"; cases "fst (m s)") (auto simp: try_except_def split: if_splits)

lemma seq_run:
  assumes "seq m k s = (r, s')"
  obtains (failed) e where "m s = (Inl e, s')" "r = Inl e" | (went) x s1 where "m s = (Inr x, s1)" "k s1 = (r, s')"
  using assms by (cases "m s"; cases "fst (m s)") (auto simp: seq_apply)

lemma store_configuration_run:
  assumes "target_rows p h []" "account_rows p h []" "policy_rows p h []"
    "seq (target_store p t) (seq (account_store p a) (policy_store p x)) h = (r, h')"
  shows "refills {p} h h' \<and> (\<not> isl r \<longrightarrow>
      target_ok t \<and> bind_values (target_row t) = Inr () \<and> target_rows p h' [target_row t]
    \<and> account_ok a \<and> bind_values (account_row a) = Inr () \<and> account_rows p h' [account_row a]
    \<and> (\<exists>vals. policy_serialize x = Inr vals \<and> bind_values vals = Inr () \<and> policy_rows p h' [vals]))"
  using assms(4)
proof (cases rule: seq_run)
  case (failed e)
  with target_store_run [OF assms(1) failed(1)] show ?thesis by (auto intro: only_db_refills)
next
  case (went u h1)
  note 1 = target_store_run [OF assms(1) went(1)]
  have t: "account_rows p h1 []" "policy_rows p h1 []"
    using 1 assms(2,3) by (simp_all add: table_rows_def)
  have r1: "refills {p} h h1" using 1 only_db_refills by blast
  from went(2) show ?thesis
  proof (cases rule: seq_run)
    case (failed e)
    with account_store_run [OF t(1) failed(1)] r1 show ?thesis
      by (auto intro: only_db_refills refills_trans)
  next
    case b: (went v h2)
    note 2 = account_store_run [OF t(1) b(1)]
    have p2: "policy_rows p h2 []" "target_rows p h2 [target_row t]"
      using 1 2 t(2) by (simp_all add: table_rows_def)
    note 3 = policy_store_run [OF p2(1) b(2)]
    from 2 have o2: "only_db p h1 h2" by (rule conjunct1)
    from 3 have o3: "only_db p h2 h'" by (rule conjunct1)
    have r3: "refills {p} h h'"
      by (rule refills_trans [OF refills_trans [OF r1 only_db_refills [OF o2]] only_db_refills [OF o3]])
    show ?thesis
    proof (cases r)
      case (Inl e)
      with r3 show ?thesis by simp
    next
      case (Inr w)
      have same: "table_at h' p n = table_at h2 p n" if "n \<noteq> policies_table" for n using 3 that by blast
      have "account_rows p h2 [account_row a]" using 2 by simp
      then have "target_rows p h' [target_row t]" "account_rows p h' [account_row a]"
        using p2(2) by (simp_all add: table_rows_def same)
      with 1 2 3 r3 Inr show ?thesis by auto
    qed
  qed
qed

lemma store_records_run:
  assumes "store_records hasher cipher key paths x pam_password target_password h = (r, h')"
    "quiet_hasher hasher" "distinct [lp_auth_db paths, lp_config_db paths, lp_vault_db paths]"
    "\<forall>(p, n, t) \<in> set (lab_tables paths). table_at h p n = Some t"
  shows "refills (store_databases paths) h h'
    \<and> (\<not> isl r \<longrightarrow> lab_data hasher cipher key paths x pam_password target_password h')"
proof -
  let ?a = "lp_auth_db paths" and ?c = "lp_config_db paths" and ?v = "lp_vault_db paths"
  let ?P = "store_databases paths" and ?ref = "acc_credential_ref (lr_account x)"
  have up: "refills {p} i j \<Longrightarrow> p \<in> ?P \<Longrightarrow> refills ?P i j" for p i j
    by (rule refills_mono) auto
  have in_P: "?a \<in> ?P" "?c \<in> ?P" "?v \<in> ?P" by (simp_all add: store_databases_def)
  have rows: "user_rows ?a h []" "target_rows ?c h []" "account_rows ?c h []" "policy_rows ?c h []"
    "vault_rows ?v h []"
    using assms(4) by (simp_all add: lab_tables_def table_rows_def)
  have keep: "table_rows n cols uq p j rs" if "refills {q} i j" "p \<noteq> q" "table_rows n cols uq p i rs"
    for n cols uq p q i j rs
    using that by (simp add: table_rows_def refills_table_other)
  from assms(1) show ?thesis
    unfolding store_records_def
  proof (cases rule: seq_run)
    case (failed e)
    from failed(1) obtain q where q: "create_user ?a hasher (lr_user x) pam_password h = (q, h')"
      by (rule reraise_run)
    from create_user_run [OF rows(1) assms(2) q] up [OF _ in_P(1)] failed(2) show ?thesis by simp
  next
    case (went u h1)
    from went(1) have u: "create_user ?a hasher (lr_user x) pam_password h = (Inr (), h1)"
      by (rule reraise_run) auto
    note 1 = create_user_run [OF rows(1) assms(2) u]
    from 1 obtain eh g g' where eh: "user_ok (lr_user x)" "a_hash hasher pam_password g = (Inr eh, g')"
      "startswith eh argon2_prefix" "bind_values (user_row (lr_user x) eh) = Inr ()"
      "user_rows ?a h1 [user_row (lr_user x) eh]" by auto
    have r1: "refills ?P h h1" using 1 up [OF _ in_P(1)] by blast
    have rows1: "target_rows ?c h1 []" "account_rows ?c h1 []" "policy_rows ?c h1 []" "vault_rows ?v h1 []"
      using rows keep [of ?a h h1] 1 assms(3) by auto
    from went(2) show ?thesis
    proof (cases rule: seq_run)
      case (failed e)
      from failed(1) obtain q where "seq (target_store ?c (lr_target x))
          (seq (account_store ?c (lr_account x)) (policy_store ?c (lr_policy x))) h1 = (q, h')"
        by (rule reraise_run)
      from store_configuration_run [OF rows1(1-3) this] up [OF _ in_P(2)] r1 failed(2) show ?thesis
        by (auto intro: refills_trans)
    next
      case c: (went w h2)
      from c(1) obtain q where "seq (target_store ?c (lr_target x))
          (seq (account_store ?c (lr_account x)) (policy_store ?c (lr_policy x))) h1 = (q, h2)" "\<not> isl q"
        by (rule reraise_run) auto
      note 2 = store_configuration_run [OF rows1(1-3) this(1)] this(2)
      have r2: "refills ?P h h2" using r1 2 up [OF _ in_P(2)] refills_trans by blast
      have rows2: "vault_rows ?v h2 []" "user_rows ?a h2 [user_row (lr_user x) eh]"
        using rows1(4) eh(5) keep [of ?c h1 h2] 2 assms(3) by auto
      let ?enc = "catchR (utf8_encode target_password) (catches UnicodeEncodeError)
            (\<lambda>_. Inl (lab_error ''target password could not be encoded''))"
      show ?thesis
      proof (cases ?enc)
        case (Inl e)
        with c(2) r2 show ?thesis by (auto simp: bind_apply)
      next
        case (Inr secret)
        then have enc: "utf8_encode target_password = Inr secret"
          by (auto simp: catchR_def split: sum.splits if_splits)
        from c(2) Inr have "try_except (vault_store ?v cipher key ?ref secret) is_exception
            (\<lambda>_. raise (lab_error ''target credential could not be encrypted and stored'')) h2 = (r, h')"
          by (simp add: bind_apply)
        then obtain q where q: "vault_store ?v cipher key ?ref secret h2 = (q, h')" "isl r = isl q"
          by (rule reraise_run)
        note 3 = vault_store_run [OF rows2(1) q(1)]
        have r3: "refills ?P h h'" using r2 3 up [OF _ in_P(3)] refills_trans by blast
        have "lab_data hasher cipher key paths x pam_password target_password h'" if nl: "\<not> isl r"
        proof -
          have qr: "q = Inr ()" using nl q(2) by (cases q) auto
          have ne: "?a \<noteq> ?v" "?c \<noteq> ?v" using assms(3) by auto
          have "user_rows ?a h' [user_row (lr_user x) eh]" using keep 3 ne(1) rows2(2) by blast
          moreover have "target_rows ?c h' [target_row (lr_target x)]"
            "account_rows ?c h' [account_row (lr_account x)]" using keep 3 ne(2) 2 by blast+
          moreover obtain vals where "policy_serialize (lr_policy x) = Inr vals" "bind_values vals = Inr ()"
            "policy_rows ?c h' [vals]" using keep 3 ne(2) 2 by blast
          ultimately show ?thesis using eh 2 3 qr enc unfolding lab_data_def by auto
        qed
        with r3 show ?thesis by blast
      qed
    qed
  qed
qed

section \<open>What provisioning does\<close>

definition quiet_reader :: "(string \<Rightarrow> (dbhost, pystr) io) \<Rightarrow> bool" where
  "quiet_reader reader \<longleftrightarrow> (\<forall>m g. h_files (snd (reader m g)) = h_files g \<and> h_umask (snd (reader m g)) = h_umask g)"

text \<open>The files and the umask are the same.\<close>

definition same_view :: "dbhost \<Rightarrow> dbhost \<Rightarrow> bool" where
  "same_view h h' \<longleftrightarrow> h_files h' = h_files h \<and> h_umask h' = h_umask h"

lemma read_password_run:
  assumes "quiet_reader reader" "read_password reader m h = (r, h')"
  shows "same_view h h' \<and> (\<forall>w. r = Inr w \<longrightarrow> w \<noteq> [] \<and> (\<exists>g g'. reader m g = (Inr w, g')))"
proof -
  obtain q h1 where q: "reader m h = (q, h1)" by fastforce
  from assms(1) have "same_view h h1" by (metis q quiet_reader_def same_view_def snd_conv)
  show ?thesis
  proof (cases q)
    case (Inl e)
    with assms(2) q have "h' = h1" "isl r"
      by (simp_all add: read_password_def bind_apply try_except_def split: if_splits) auto
    with \<open>same_view h h1\<close> show ?thesis by auto
  next
    case (Inr w)
    with assms(2) q have "h' = h1" "\<forall>x. r = Inr x \<longrightarrow> x = w \<and> w \<noteq> []"
      by (auto simp: read_password_def bind_apply try_except_def split: if_splits)
    with \<open>same_view h h1\<close> q Inr show ?thesis by blast
  qed
qed

lemma read_passwords_run:
  assumes "quiet_reader reader" "read_passwords reader h = (r, h')"
  shows "same_view h h' \<and> (\<forall>pam tp. r = Inr (pam, tp) \<longrightarrow> pam \<noteq> [] \<and> tp \<noteq> []
    \<and> (\<exists>g g'. reader ''PAM application user password: '' g = (Inr pam, g'))
    \<and> (\<exists>g g'. reader ''Target pamadmin SSH password: '' g = (Inr tp, g')))"
proof -
  obtain q h1 where q: "read_password reader ''PAM application user password: '' h = (q, h1)" by fastforce
  note 1 = read_password_run [OF assms(1) q]
  show ?thesis
  proof (cases q)
    case (Inl e)
    with assms(2) q 1 show ?thesis by (auto simp: read_passwords_def bind_apply)
  next
    case (Inr pam)
    obtain w h2 where w: "read_password reader ''Target pamadmin SSH password: '' h1 = (w, h2)" by fastforce
    note 2 = read_password_run [OF assms(1) w]
    from assms(2) q Inr w have r: "h' = h2" "r = (case w of Inl e \<Rightarrow> Inl e | Inr tp \<Rightarrow> Inr (pam, tp))"
      by (cases w; auto simp: read_passwords_def bind_apply)+
    have "same_view h h'" using 1 2 r(1) by (simp add: same_view_def)
    moreover have "pam \<noteq> []" "\<exists>g g'. reader ''PAM application user password: '' g = (Inr pam, g')"
      using 1 Inr by simp_all
    moreover have "tp \<noteq> [] \<and> (\<exists>g g'. reader ''Target pamadmin SSH password: '' g = (Inr tp, g'))"
      if "w = Inr tp" for tp using 2 that by simp
    ultimately show ?thesis using r(2) by (cases w) simp_all
  qed
qed

lemma lab_paths_distinct [simp]:
  "lp_vault_key (paths_within dir) \<noteq> lp_audit_key (paths_within dir)"
  "distinct [lp_auth_db (paths_within dir), lp_config_db (paths_within dir), lp_vault_db (paths_within dir)]"
  "lp_vault_key (paths_within dir) \<notin> store_databases (paths_within dir)"
  "lp_audit_key (paths_within dir) \<notin> store_databases (paths_within dir)"
  "dir \<notin> store_databases (paths_within dir)"
  "lp_vault_key (paths_within dir) \<noteq> dir" "lp_audit_key (paths_within dir) \<noteq> dir"
  "dir \<noteq> lp_vault_key (paths_within dir)" "dir \<noteq> lp_audit_key (paths_within dir)"
  "lp_runtime_dir (paths_within dir) = dir"
  by (simp_all add: paths_within_def store_databases_def)

text \<open>The paths a run may change, besides the directories down to the runtime directory\<close>

definition lab_files :: "path \<Rightarrow> path set" where
  "lab_files dir = insert (lp_vault_key (paths_within dir)) (insert (lp_audit_key (paths_within dir))
     (store_databases (paths_within dir)))"

text \<open>What a successful run has made of a host\<close>

definition provisioned ::
  "dbhost argon2 \<Rightarrow> aead \<Rightarrow> (string \<Rightarrow> (dbhost, pystr) io) \<Rightarrow> lab_config \<Rightarrow> dbhost \<Rightarrow> dbhost \<Rightarrow> bool" where
  "provisioned hasher cipher reader config h h' \<longleftrightarrow> (let dir = lc_runtime_dir config; paths = paths_within dir in
     h_files h' dir = Some (Directory 0x1C0)
     \<and> (\<forall>p \<in> store_databases paths. h_files h p = None \<and> (\<exists>c. h_files h' p = Some (Regular 0x180 c)))
     \<and> (\<exists>x key audit_key pam tp g g' i i'. build_records config = Inr x
          \<and> key_of h' (lp_vault_key paths) = Some key \<and> length key = 32
          \<and> key_of h' (lp_audit_key paths) = Some audit_key \<and> audit_key \<noteq> key
          \<and> reader ''PAM application user password: '' g = (Inr pam, g') \<and> pam \<noteq> []
          \<and> reader ''Target pamadmin SSH password: '' i = (Inr tp, i') \<and> tp \<noteq> []
          \<and> lab_data hasher cipher key paths x pam tp h'))"

definition lab_step :: "path \<Rightarrow> dbhost \<Rightarrow> dbhost \<Rightarrow> bool" where
  "lab_step dir h h' \<longleftrightarrow> grows h h'
     \<and> (\<forall>q. h_files h' q \<noteq> h_files h q \<longrightarrow> leads_to q dir \<or> q \<in> lab_files dir)"

lemma lab_step_trans: "lab_step dir h i \<Longrightarrow> lab_step dir i j \<Longrightarrow> lab_step dir h j"
  unfolding lab_step_def by (metis grows_trans)

lemma lab_step_confined: "confined P h h' \<Longrightarrow> grows h h' \<Longrightarrow> P \<subseteq> lab_files dir \<Longrightarrow> lab_step dir h h'"
  unfolding lab_step_def confined_def by blast

lemma lab_step_same: "same_view h h' \<Longrightarrow> lab_step dir h h'"
  by (simp add: lab_step_def same_view_def grows_def)

lemma lab_step_refills:
  assumes "lab_step dir h i" "refills (store_databases (paths_within dir)) i j"
    "\<forall>p \<in> store_databases (paths_within dir). h_files h p = None"
  shows "lab_step dir h j"
proof -
  let ?P = "store_databases (paths_within dir)"
  have same: "q \<notin> ?P \<Longrightarrow> h_files j q = h_files i q" for q
    using assms(2) by (simp add: refills_def confined_def)
  have "h_files j q = Some n" if n: "h_files h q = Some n" for q n
  proof -
    have "q \<notin> ?P" using assms(3) n by auto
    with same growsD [OF _ n] assms(1) show ?thesis by (simp add: lab_step_def)
  qed
  moreover have "h_umask j = h_umask h"
    using assms(1,2) by (simp add: grows_def lab_step_def refills_def confined_def)
  ultimately have "grows h j" by (auto simp: grows_def map_le_def)
  moreover have "leads_to q dir \<or> q \<in> lab_files dir" if "h_files j q \<noteq> h_files h q" for q
    using assms(1) same [of q] that by (cases "q \<in> ?P") (auto simp: lab_step_def lab_files_def)
  ultimately show ?thesis by (simp add: lab_step_def)
qed

lemma bind_run:
  assumes "bind m f s = (r, s')"
  obtains (failed) e where "m s = (Inl e, s')" "r = Inl e" | (went) x s1 where "m s = (Inr x, s1)" "f x s1 = (r, s')"
  using assms by (cases "m s"; cases "fst (m s)") (auto simp: bind_apply)

text \<open>The part after the checks: keys, passwords, databases, records\<close>

lemma provision_rest_run:
  assumes "bind (make_keys paths) (\<lambda>key.
      bind (read_passwords reader) (\<lambda>(pam_password, target_password).
      seq (init_databases paths)
     (seq (store_records hasher cipher key paths x pam_password target_password) (ret paths)))) h = (r, h')"
    and quiet: "quiet_hasher hasher" "quiet_reader reader"
    and paths: "paths = paths_within (lc_runtime_dir config)" "build_records config = Inr x"
    and dir: "h_files h (lc_runtime_dir config) = Some (Directory 0x1C0)"
    and fresh: "\<forall>p \<in> store_databases paths. h_files h p = None \<or> (\<exists>x. h_files h p = Some (Symlink x))"
  shows "lab_step (lc_runtime_dir config) h h'
    \<and> (\<forall>y. r = Inr y \<longrightarrow> y = paths \<and> provisioned hasher cipher reader config h h')"
  using assms(1)
proof (cases rule: bind_run)
  let ?dir = "lc_runtime_dir config" and ?dbs = "store_databases paths"
  have sub: "{lp_vault_key paths, lp_audit_key paths} \<subseteq> lab_files ?dir" "?dbs \<subseteq> lab_files ?dir"
    by (auto simp: lab_files_def paths)
  have keys: "lp_vault_key paths \<noteq> lp_audit_key paths" by (simp add: paths)
  {
    case (failed e)
    from make_keys_run [OF failed(1) keys] failed(2) sub show ?thesis by (auto intro: lab_step_confined)
  next
    case (went key h1)
    note 1 = make_keys_run [OF went(1) keys]
    then obtain audit_key where k: "key_of h1 (lp_vault_key paths) = Some key" "length key = 32"
      "key_of h1 (lp_audit_key paths) = Some audit_key" "audit_key \<noteq> key" by auto
    have s1: "lab_step ?dir h h1" using 1 sub by (auto intro: lab_step_confined)
    from went(2) show ?thesis
    proof (cases rule: bind_run)
      case (failed e)
      from read_passwords_run [OF quiet(2) failed(1)] failed(2) s1 show ?thesis
        by (auto intro: lab_step_trans lab_step_same)
    next
      case w: (went pw h2)
      obtain pam tp where pw: "pw = (pam, tp)" by fastforce
      note 2 = read_passwords_run [OF quiet(2) w(1)]
      have s2: "lab_step ?dir h h2" using 2 s1 lab_step_trans lab_step_same by blast
      have same2: "h_files h2 p = h_files h p" if "p \<notin> {lp_vault_key paths, lp_audit_key paths}" for p
        using 1 2 that by (simp add: confined_def same_view_def)
      have "p \<notin> {lp_vault_key paths, lp_audit_key paths}" if "p \<in> ?dbs" for p
        using that by (auto simp: paths)
      with same2 have dbs2: "h_files h2 p = h_files h p" if "p \<in> ?dbs" for p using that by blast
      with fresh have fresh2: "\<forall>p \<in> ?dbs. h_files h2 p = None \<or> (\<exists>x. h_files h2 p = Some (Symlink x))" by simp
      have dist: "distinct [lp_auth_db paths, lp_config_db paths, lp_vault_db paths]"
        unfolding paths(1) by (rule lab_paths_distinct(2))
      from w(2) pw have "seq (init_databases paths)
          (seq (store_records hasher cipher key paths x pam tp) (ret paths)) h2 = (r, h')" by simp
      then show ?thesis
      proof (cases rule: seq_run)
        case (failed e)
        note 3 = init_databases_run [OF failed(1) dist fresh2]
        then have "lab_step ?dir h2 h'" using sub(2) lab_step_confined by blast
        with failed(2) lab_step_trans [OF s2 this] show ?thesis by simp
      next
        case d: (went u h3)
        note 3 = init_databases_run [OF d(1) dist fresh2]
        then have "lab_step ?dir h2 h3" using sub(2) lab_step_confined by blast
        with s2 have s3: "lab_step ?dir h h3" by (rule lab_step_trans)
        have new: "\<forall>p \<in> ?dbs. h_files h p = None" using 3 dbs2 by simp
        obtain q h4 where q: "store_records hasher cipher key paths x pam tp h3 = (q, h4)" by fastforce
        have "\<forall>(p, n, t) \<in> set (lab_tables paths). table_at h3 p n = Some t" using 3 by simp
        note 4 = store_records_run [OF q quiet(1) dist this]
        from d(2) q have r: "h' = h4" "r = (case q of Inl e \<Rightarrow> Inl e | Inr _ \<Rightarrow> Inr paths)"
          by (cases q; simp add: seq_apply)+
        have s4: "lab_step ?dir h h'"
          using lab_step_refills [OF s3] 4 new r(1) by (simp add: paths)
        have "provisioned hasher cipher reader config h h'" if nl: "r = Inr y" for y
        proof -
          have other: "h_files h' p = h_files h2 p" if "p \<notin> ?dbs" for p
            using 3 4 r(1) that by (simp add: refills_def confined_def)
          have "h_files h' (lp_vault_key paths) = h_files h1 (lp_vault_key paths)"
            "h_files h' (lp_audit_key paths) = h_files h1 (lp_audit_key paths)"
            using other 2 by (simp_all add: paths same_view_def)
          then have k': "key_of h' (lp_vault_key paths) = Some key" "key_of h' (lp_audit_key paths) = Some audit_key"
            using k by (simp_all add: key_of_def)
          have "?dir \<notin> ?dbs" "?dir \<notin> {lp_vault_key paths, lp_audit_key paths}"
            using lab_paths_distinct [of ?dir] by (auto simp: paths)
          with other same2 dir have d': "h_files h' ?dir = Some (Directory 0x1C0)" by simp
          have modes: "\<exists>c. h_files h' p = Some (Regular 0x180 c)" if "p \<in> ?dbs" for p
          proof -
            from 3 that obtain c where "h_files h3 p = Some (Regular 0x180 c)" by auto
            with 4 r(1) show ?thesis by (auto simp: refills_def)
          qed
          from nl r(2) have "\<not> isl q" by (cases q) auto
          with 4 r(1) have data: "lab_data hasher cipher key paths x pam tp h'" by simp
          from 2 pw have "pam \<noteq> [] \<and> tp \<noteq> [] \<and> (\<exists>g g'. reader ''PAM application user password: '' g = (Inr pam, g'))
            \<and> (\<exists>g g'. reader ''Target pamadmin SSH password: '' g = (Inr tp, g'))" by simp
          then obtain g g' i i' where g: "pam \<noteq> []" "tp \<noteq> []"
            "reader ''PAM application user password: '' g = (Inr pam, g')"
            "reader ''Target pamadmin SSH password: '' i = (Inr tp, i')" by blast
          show ?thesis
            unfolding provisioned_def Let_def paths(1) [symmetric]
            using d' modes new k k' data g paths(2) by blast
        qed
        with s4 r(2) show ?thesis by (cases q) auto
      qed
    qed
  }
qed

lemma databases_within: "store_databases paths \<subseteq> set (databases paths)"
  by (auto simp: store_databases_def databases_def)

lemma long_paths [simp]: "q \<in> lab_files dir \<Longrightarrow> length q = Suc (length dir)"
  by (auto simp: lab_files_def paths_within_def store_databases_def)

lemma provision_lab_run:
  assumes "provision_lab hasher cipher reader config h = (r, h')"
    and quiet: "quiet_hasher hasher" "quiet_reader reader"
  shows "lab_step (lc_runtime_dir config) h h'
    \<and> ((\<exists>p \<in> set (databases (paths_within (lc_runtime_dir config))). exists_path h p) \<longrightarrow>
         isl r \<and> (\<forall>q \<in> lab_files (lc_runtime_dir config). h_files h' q = h_files h q))
    \<and> (\<forall>paths. r = Inr paths \<longrightarrow> paths = paths_within (lc_runtime_dir config)
         \<and> provisioned hasher cipher reader config h h')"
proof -
  let ?dir = "lc_runtime_dir config" and ?paths = "paths_within (lc_runtime_dir config)"
  have above: "lab_step ?dir h i \<and> (\<forall>q \<in> lab_files ?dir. h_files i q = h_files h q)"
    if "adds_above ?dir h i" for i
    using that unfolding adds_above_def lab_step_def by (metis leads_to_length long_paths not_less_eq_eq order_refl)
  from assms(1) show ?thesis
    unfolding provision_lab_def Let_def
  proof (cases rule: bind_run)
    case (failed e)
    then show ?thesis by (simp add: lab_step_same same_view_def)
  next
    case (went x h0)
    then have x: "build_records config = Inr x" "h0 = h" by simp_all
    from went(2) show ?thesis
    proof (cases rule: seq_run)
      case (failed e)
      with ensure_private_run [OF failed(1)] x(2) above show ?thesis by simp
    next
      case d: (went u h1)
      then have 1: "adds_above ?dir h h1" "h_files h1 ?dir = Some (Directory 0x1C0)"
        using ensure_private_run [OF d(1)] x(2) by simp_all
      from d(2) show ?thesis
      proof (cases rule: seq_run)
        case (failed e)
        then have "same_files h1 h'" using reject_existing_run by blast
        with 1(1) have "adds_above ?dir h h'" by (simp add: adds_above_def grows_def same_files_def)
        with above failed(2) show ?thesis by simp
      next
        case e: (went v h2)
        note 2 = reject_existing_run [OF e(1)]
        have a2: "adds_above ?dir h h2" using 1(1) 2 by (simp add: adds_above_def grows_def same_files_def)
        have f2: "h_files h2 = h_files h1" using 2 by (simp add: same_files_def)
        have none: "\<not> exists_path h1 p" if "p \<in> set (databases ?paths)" for p using 2 that by auto
        have "\<forall>p \<in> store_databases ?paths. h_files h2 p = None \<or> (\<exists>x. h_files h2 p = Some (Symlink x))"
          using none databases_within exists_only_link f2 by (metis not_None_eq subsetD)
        from provision_rest_run [OF e(2) quiet refl x(1) _ this] 1(2) f2
        have rest: "lab_step ?dir h2 h'"
          "\<forall>y. r = Inr y \<longrightarrow> y = ?paths \<and> provisioned hasher cipher reader config h2 h'" by simp_all
        have "\<not> exists_path h p" if "p \<in> set (databases ?paths)" for p
          using none [OF that] grows_exists [of h h1] 1(1) by (auto simp: adds_above_def)
        moreover have "provisioned hasher cipher reader config h h'"
          if "provisioned hasher cipher reader config h2 h'"
        proof -
          have "h_files h p = h_files h2 p" if "p \<in> store_databases ?paths" for p
            using above [OF a2] that by (simp add: lab_files_def)
          with that show ?thesis by (simp add: provisioned_def Let_def)
        qed
        ultimately show ?thesis using rest above [OF a2] lab_step_trans by blast
      qed
    qed
  qed
qed

end
