(* ===== verification/Lab.thy ===== *)
theory Lab
  imports Provision
begin

text \<open>
  What the provisioning tool promises: it never changes what was there, a provisioned lab passes
  the checks of the access command, and the repositories answer on it with the records of the
  configuration, so that the policy of the lab allows its user the access to its target.
\<close>

section \<open>The records of a configuration\<close>

definition valid_config :: "lab_config \<Rightarrow> bool" where
  "valid_config c \<longleftrightarrow> \<not> isl (parse_openssh_sha256_fingerprint (lc_host_key_fingerprint c))
     \<and> list_all (\<lambda>x. \<not> blank x) [lc_credential_ref c, lc_user_id c, lc_username c, lc_target_id c,
         lc_target_name c, lc_target_host c, lc_account_id c, lc_account_username c, lc_policy_id c]
     \<and> 1 \<le> lc_target_port c \<and> lc_target_port c \<le> 65535"

lemma parsed_fingerprint:
  assumes "parse_openssh_sha256_fingerprint v = Inr f"
  shows "f = \<lparr>hkf_value = v\<rparr> \<and> startswith v (lit ''SHA256:'')"
  using assms
  by (auto simp: parse_openssh_sha256_fingerprint_def mk_host_key_fingerprint_def catchR_def
      thenR_def bindR_def Let_def reject_def raise_if_def split: sum.splits if_splits)

lemma fingerprint_error:
  "parse_openssh_sha256_fingerprint v = Inl e \<Longrightarrow> e = malformed_fingerprint"
  by (auto simp: parse_openssh_sha256_fingerprint_def mk_host_key_fingerprint_def catchR_def
      thenR_def bindR_def Let_def reject_def raise_if_def b64decode_def compare_digest_text_def
      split: sum.splits if_splits option.splits)

text \<open>
  C33. The tool accepts exactly the configurations whose fingerprint is a pin, whose texts are not
  blank and whose port is a port, and turns them into records that satisfy the invariants of
  their classes and refer to each other: an active user, an enabled target with an enabled account
  of its own, and one policy that allows this user this target. Everything else is a
  \<open>LabProvisioningError\<close>.
\<close>

theorem build_records_wellformed:
  "case build_records c of
     Inl e \<Rightarrow> exn_class e = LabProvisioningError \<and> \<not> valid_config c
   | Inr x \<Rightarrow> valid_config c \<and> user_ok (lr_user x) \<and> target_ok (lr_target x) \<and> account_ok (lr_account x)
       \<and> policy_ok (lr_policy x) \<and> usr_is_active (lr_user x) \<and> tgt_enabled (lr_target x) \<and> acc_enabled (lr_account x)
       \<and> acc_target_id (lr_account x) = tgt_id (lr_target x) \<and> pol_user_id (lr_policy x) = usr_id (lr_user x)
       \<and> pol_target_id (lr_policy x) = tgt_id (lr_target x) \<and> pol_effect (lr_policy x) = ALLOW"
proof (cases "parse_openssh_sha256_fingerprint (lc_host_key_fingerprint c)")
  case (Inl e)
  with fingerprint_error [OF Inl] show ?thesis
    by (simp add: build_records_def malformed_fingerprint_def valid_config_def)
next
  case (Inr f)
  with parsed_fingerprint [OF Inr] show ?thesis
    by (auto simp: build_records_def constructor_defs invariant_defs valid_config_def thenR_def bindR_def
        catchR_def reject_def raise_if_def lab_error_def)
qed

section \<open>What was there stays\<close>

text \<open>
  C34. Whatever happens in a run, nothing that existed is changed or removed and the umask is the
  one of before; only the directories down to the runtime directory, the two keys and the three
  databases can be new. Where one of the databases exists already, the run fails and none of the
  lab's files is touched.
\<close>

theorem provision_keeps_existing:
  assumes "provision_lab hasher cipher reader config h = (r, h')"
    "quiet_hasher hasher" "quiet_reader reader"
  shows "(\<forall>p n. h_files h p = Some n \<longrightarrow> h_files h' p = Some n) \<and> h_umask h' = h_umask h
    \<and> (\<forall>p. h_files h' p \<noteq> h_files h p \<longrightarrow>
         leads_to p (lc_runtime_dir config) \<or> p \<in> lab_files (lc_runtime_dir config))
    \<and> ((\<exists>p \<in> set (databases (paths_within (lc_runtime_dir config))). exists_path h p) \<longrightarrow>
         isl r \<and> (\<forall>p \<in> lab_files (lc_runtime_dir config). h_files h' p = h_files h p))"
proof -
  note run = provision_lab_run [OF assms]
  then have "grows h h'" by (simp add: lab_step_def)
  then have "\<forall>p n. h_files h p = Some n \<longrightarrow> h_files h' p = Some n" "h_umask h' = h_umask h"
    by (auto simp: growsD, simp add: grows_def)
  with run show ?thesis by (simp add: lab_step_def)
qed

definition lab_reader :: "string \<Rightarrow> (dbhost, pystr) io" where
  "lab_reader = (\<lambda>_. ret (lit ''pw''))"

lemma lab_quiet: "quiet_hasher lab_argon2" "quiet_reader lab_reader"
  by (simp_all add: quiet_hasher_def quiet_reader_def lab_argon2_def lab_reader_def)

theorem provision_keeps_existing_witness:
  "isl (fst (provision_lab lab_argon2 toy_aead lab_reader (default_config [])
     (boot_host\<lparr>h_files := (h_files boot_host)([lit ''auth.db''] \<mapsto> Regular 0x180 (Bytes [1]))\<rparr>)))"
proof -
  let ?h = "boot_host\<lparr>h_files := (h_files boot_host)([lit ''auth.db''] \<mapsto> Regular 0x180 (Bytes [1]))\<rparr>"
  obtain r h' where r: "provision_lab lab_argon2 toy_aead lab_reader (default_config []) ?h = (r, h')" by fastforce
  have "exists_path ?h [lit ''auth.db'']"
    by (simp add: exists_path_def stat_node_def follow_no_link)
  then have "\<exists>p \<in> set (databases (paths_within (lc_runtime_dir (default_config [])))). exists_path ?h p"
    by (simp add: databases_def paths_within_def default_config_def)
  with provision_keeps_existing [OF r lab_quiet] r show ?thesis by simp
qed

section \<open>What a provisioned lab gives\<close>

lemma same_tables_rows: "h_files g = h_files h \<Longrightarrow> table_rows n cols uq p g rows = table_rows n cols uq p h rows"
  by (simp add: table_rows_def table_at_def db_at_def)

lemma built_records:
  assumes "build_records c = Inr x"
  shows "acc_target_id (lr_account x) = tgt_id (lr_target x)"
    "policy_key (lr_policy x) = (usr_id (lr_user x), tgt_id (lr_target x), OPEN_PRIVILEGED_SESSION)"
    "pol_effect (lr_policy x) = ALLOW" "usr_is_active (lr_user x)" "tgt_enabled (lr_target x)" "acc_enabled (lr_account x)"
    "usr_username (lr_user x) = lc_username c" "tgt_id (lr_target x) = lc_target_id c"
  using assms
  by (auto simp: build_records_def constructor_defs thenR_def bindR_def catchR_def reject_def raise_if_def
      policy_key_def split: sum.splits if_splits)

text \<open>What the rows of the lab say\<close>

lemma lab_data_rows:
  assumes "lab_data hasher cipher key paths x pam tp h"
    and linked: "acc_target_id (lr_account x) = tgt_id (lr_target x)"
      "policy_key (lr_policy x) = (usr_id (lr_user x), tgt_id (lr_target x), OPEN_PRIVILEGED_SESSION)"
  obtains i eh i' users targets accounts policies vault secret where "a_hash hasher pam i = (Inr eh, i')"
    "user_rows (lp_auth_db paths) h users"
    "user_of users (usr_username (lr_user x)) = Inr (Some \<lparr>sua_user = lr_user x, sua_password_hash = eh\<rparr>)"
    "target_rows (lp_config_db paths) h targets" "target_of targets (tgt_id (lr_target x)) = Inr (Some (lr_target x))"
    "account_rows (lp_config_db paths) h accounts" "account_of accounts (tgt_id (lr_target x)) = Inr (Some (lr_account x))"
    "policy_rows (lp_config_db paths) h policies"
    "policies_of policies (usr_id (lr_user x), tgt_id (lr_target x), OPEN_PRIVILEGED_SESSION) = Inr [lr_policy x]"
    "vault_rows (lp_vault_db paths) h vault" "utf8_encode tp = Inr secret"
    "aead_correct cipher \<and> length key = 32 \<longrightarrow>
       (\<exists>s. secret_of vault (acc_credential_ref (lr_account x)) = Inr s \<and> cipher_decrypt cipher key s = Inr secret)"
proof -
  note d = assms(1) [unfolded lab_data_def]
  from d obtain eh i i' where u: "user_ok (lr_user x)" "a_hash hasher pam i = (Inr eh, i')"
    "startswith eh argon2_prefix" "bind_values (user_row (lr_user x) eh) = Inr ()"
    "user_rows (lp_auth_db paths) h [user_row (lr_user x) eh]" by blast
  have "user_of [] (usr_username (lr_user x)) = Inr None"
    using u(4) by (simp add: user_of_def rows_where_def user_row_def thenR_def bindR_def split: sum.splits if_splits)
  from user_of_append [OF u(1,3,4) this]
  have user: "user_of [user_row (lr_user x) eh] (usr_username (lr_user x))
      = Inr (Some \<lparr>sua_user = lr_user x, sua_password_hash = eh\<rparr>)" by simp
  from d have t: "target_ok (lr_target x)" "bind_values (target_row (lr_target x)) = Inr ()"
    "target_rows (lp_config_db paths) h [target_row (lr_target x)]" by blast+
  from target_of_append [OF t(1,2), of "[]"]
  have target: "target_of [target_row (lr_target x)] (tgt_id (lr_target x)) = Inr (Some (lr_target x))" by simp
  from d have a: "account_ok (lr_account x)" "bind_values (account_row (lr_account x)) = Inr ()"
    "account_rows (lp_config_db paths) h [account_row (lr_account x)]" by blast+
  have "account_of [] (acc_target_id (lr_account x)) = Inr None"
    using a(2) by (simp add: account_of_def rows_where_def account_row_def single_account_def thenR_def bindR_def
        split: sum.splits if_splits)
  from account_of_append [OF a(1,2) this]
  have account: "account_of [account_row (lr_account x)] (tgt_id (lr_target x)) = Inr (Some (lr_account x))"
    by (simp add: linked(1) [symmetric])
  from d obtain vals where p: "policy_serialize (lr_policy x) = Inr vals" "bind_values vals = Inr ()"
    "policy_rows (lp_config_db paths) h [vals]" by blast
  have "policies_of [] (policy_key (lr_policy x)) = Inr []"
    using p(1,2) by (auto simp: policies_of_def rows_where_def policy_serialize_Inr policy_key_def thenR_def bindR_def
        split: sum.splits if_splits)
  from policies_of_append [OF p(1,2) this] linked(2)
  have policy: "policies_of [vals] (usr_id (lr_user x), tgt_id (lr_target x), OPEN_PRIVILEGED_SESSION) = Inr [lr_policy x]"
    by simp
  let ?ref = "acc_credential_ref (lr_account x)"
  from d obtain s secret where v: "utf8_encode tp = Inr secret" "bind_values (vault_row ?ref s) = Inr ()"
    "vault_rows (lp_vault_db paths) h [vault_row ?ref s]"
    "aead_correct cipher \<and> length key = 32 \<longrightarrow> secret_ok s \<and> cipher_decrypt cipher key s = Inr secret" by blast
  have "aead_correct cipher \<and> length key = 32 \<longrightarrow>
      (\<exists>s'. secret_of [vault_row ?ref s] ?ref = Inr s' \<and> cipher_decrypt cipher key s' = Inr secret)"
    using v(4) secret_of_append [OF _ v(2), of "[]"] by simp
  from that [OF u(2,5) user t(3) target a(3) account p(3) policy v(3,1) this] show thesis .
qed

lemma lab_data_lookups:
  assumes "lab_data hasher cipher key paths x pam tp h'" "h_files g = h_files h'" "h_faults g = []"
    and linked: "acc_target_id (lr_account x) = tgt_id (lr_target x)"
      "policy_key (lr_policy x) = (usr_id (lr_user x), tgt_id (lr_target x), OPEN_PRIVILEGED_SESSION)"
  shows "\<exists>eh. (\<exists>i i'. a_hash hasher pam i = (Inr eh, i'))
      \<and> fst (find_by_username (lp_auth_db paths) (usr_username (lr_user x)) g)
          = Inr (Some \<lparr>sua_user = lr_user x, sua_password_hash = eh\<rparr>)"
    and "fst (target_get (lp_config_db paths) (tgt_id (lr_target x)) g) = Inr (Some (lr_target x))"
    and "fst (account_find_for_target (lp_config_db paths) (tgt_id (lr_target x)) g) = Inr (Some (lr_account x))"
    and "fst (policy_find_matching (lp_config_db paths) (usr_id (lr_user x)) (tgt_id (lr_target x))
             OPEN_PRIVILEGED_SESSION g) = Inr [lr_policy x]"
    and "aead_correct cipher \<Longrightarrow> length key = 32 \<Longrightarrow> \<exists>secret. utf8_encode tp = Inr secret
      \<and> fst (vault_resolve (lp_vault_db paths) cipher key (acc_credential_ref (lr_account x)) g)
          = Inr \<lparr>bc_value = secret\<rparr>"
proof -
  obtain i i' eh users policies targets accounts vault secret where d: "a_hash hasher pam i = (Inr eh, i')"
    "user_rows (lp_auth_db paths) h' users"
    "user_of users (usr_username (lr_user x)) = Inr (Some \<lparr>sua_user = lr_user x, sua_password_hash = eh\<rparr>)"
    "target_rows (lp_config_db paths) h' targets" "target_of targets (tgt_id (lr_target x)) = Inr (Some (lr_target x))"
    "account_rows (lp_config_db paths) h' accounts" "account_of accounts (tgt_id (lr_target x)) = Inr (Some (lr_account x))"
    "policy_rows (lp_config_db paths) h' policies"
    "policies_of policies (usr_id (lr_user x), tgt_id (lr_target x), OPEN_PRIVILEGED_SESSION) = Inr [lr_policy x]"
    "vault_rows (lp_vault_db paths) h' vault" "utf8_encode tp = Inr secret"
    "aead_correct cipher \<and> length key = 32 \<longrightarrow>
       (\<exists>s. secret_of vault (acc_credential_ref (lr_account x)) = Inr s \<and> cipher_decrypt cipher key s = Inr secret)"
    by (rule lab_data_rows [OF assms(1) linked])
  note tables = d(2,4,6,8,10) [folded same_tables_rows [OF assms(2)]]
  obtain r g' where r: "find_by_username (lp_auth_db paths) (usr_username (lr_user x)) g = (r, g')" by fastforce
  from find_by_username_run [OF tables(1) r] assms(3) r d(1,3)
  show "\<exists>eh. (\<exists>i i'. a_hash hasher pam i = (Inr eh, i'))
      \<and> fst (find_by_username (lp_auth_db paths) (usr_username (lr_user x)) g)
          = Inr (Some \<lparr>sua_user = lr_user x, sua_password_hash = eh\<rparr>)"
    by (intro exI [of _ eh]) auto
  obtain r g' where r: "target_get (lp_config_db paths) (tgt_id (lr_target x)) g = (r, g')" by fastforce
  from target_get_run [OF tables(2) r] assms(3) r d(5)
  show "fst (target_get (lp_config_db paths) (tgt_id (lr_target x)) g) = Inr (Some (lr_target x))" by simp
  obtain r g' where r: "account_find_for_target (lp_config_db paths) (tgt_id (lr_target x)) g = (r, g')" by fastforce
  from account_find_for_target_run [OF tables(3) r] assms(3) r d(7)
  show "fst (account_find_for_target (lp_config_db paths) (tgt_id (lr_target x)) g) = Inr (Some (lr_account x))" by simp
  obtain r g' where r: "policy_find_matching (lp_config_db paths) (usr_id (lr_user x)) (tgt_id (lr_target x))
             OPEN_PRIVILEGED_SESSION g = (r, g')" by fastforce
  from policy_find_matching_run [OF tables(4) r] assms(3) r d(9)
  show "fst (policy_find_matching (lp_config_db paths) (usr_id (lr_user x)) (tgt_id (lr_target x))
             OPEN_PRIVILEGED_SESSION g) = Inr [lr_policy x]" by simp
  let ?ref = "acc_credential_ref (lr_account x)"
  assume c: "aead_correct cipher" "length key = 32"
  obtain r g' where r: "vault_resolve (lp_vault_db paths) cipher key ?ref g = (r, g')" by fastforce
  from vault_resolve_run [OF tables(5) r] assms(3) r d(11,12) c
  show "\<exists>secret. utf8_encode tp = Inr secret
      \<and> fst (vault_resolve (lp_vault_db paths) cipher key ?ref g) = Inr \<lparr>bc_value = secret\<rparr>" by auto
qed

text \<open>The tool does not make the audit database.\<close>

lemma lab_audit_absent:
  assumes "lab_step dir h h'" "h_files h (lp_audit_db (paths_within dir)) = None"
  shows "h_files h' (lp_audit_db (paths_within dir)) = None"
proof -
  have "lp_audit_db (paths_within dir) \<notin> lab_files dir" "\<not> leads_to (lp_audit_db (paths_within dir)) dir"
    using leads_to_length [of "lp_audit_db (paths_within dir)" dir]
    by (auto simp: lab_files_def paths_within_def store_databases_def)
  with assms show ?thesis unfolding lab_step_def by metis
qed

text \<open>
  C35. On a provisioned host the repositories answer with the records of the configuration: the user
  with a hash that Argon2 made of the entered password, the target, its only account, and exactly
  the one policy, which the evaluator turns into \<open>ALLOW\<close>; and the Vault, opened with the key of
  the lab, gives back the target password that was entered, encoded as UTF-8.
\<close>

theorem provisioned_lab_serves:
  assumes "provision_lab hasher cipher reader config h = (Inr paths, h')"
    "quiet_hasher hasher" "quiet_reader reader" "aead_correct cipher"
    "h_files g = h_files h'" "h_faults g = []"
  shows "\<exists>x key eh pam tp secret. build_records config = Inr x \<and> key_of g (lp_vault_key paths) = Some key
    \<and> (\<exists>i i'. a_hash hasher pam i = (Inr eh, i')) \<and> utf8_encode tp = Inr secret
    \<and> (\<exists>i i'. reader ''PAM application user password: '' i = (Inr pam, i'))
    \<and> (\<exists>i i'. reader ''Target pamadmin SSH password: '' i = (Inr tp, i'))
    \<and> fst (find_by_username (lp_auth_db paths) (usr_username (lr_user x)) g)
        = Inr (Some \<lparr>sua_user = lr_user x, sua_password_hash = eh\<rparr>)
    \<and> fst (target_get (lp_config_db paths) (tgt_id (lr_target x)) g) = Inr (Some (lr_target x))
    \<and> fst (account_find_for_target (lp_config_db paths) (tgt_id (lr_target x)) g) = Inr (Some (lr_account x))
    \<and> fst (policy_find_matching (lp_config_db paths) (usr_id (lr_user x)) (tgt_id (lr_target x))
             OPEN_PRIVILEGED_SESSION g) = Inr [lr_policy x]
    \<and> dec_effect (decide [lr_policy x]) = ALLOW
    \<and> fst (vault_resolve (lp_vault_db paths) cipher key (acc_credential_ref (lr_account x)) g)
        = Inr \<lparr>bc_value = secret\<rparr>"
proof -
  from provision_lab_run [OF assms(1-3)] have "paths = paths_within (lc_runtime_dir config)"
    "provisioned hasher cipher reader config h h'" by simp_all
  then obtain x key pam tp i i' j j' where x: "build_records config = Inr x"
    "key_of h' (lp_vault_key paths) = Some key" "length key = 32"
    "reader ''PAM application user password: '' i = (Inr pam, i')"
    "reader ''Target pamadmin SSH password: '' j = (Inr tp, j')"
    "lab_data hasher cipher key paths x pam tp h'"
    unfolding provisioned_def Let_def by blast
  note b = built_records [OF x(1)]
  note found = lab_data_lookups [OF x(6) assms(5,6) b(1,2)]
  from found(1) obtain eh where eh: "\<exists>i i'. a_hash hasher pam i = (Inr eh, i')"
    "fst (find_by_username (lp_auth_db paths) (usr_username (lr_user x)) g)
       = Inr (Some \<lparr>sua_user = lr_user x, sua_password_hash = eh\<rparr>)" by blast
  from found(5) [OF assms(4) x(3)] obtain secret where secret: "utf8_encode tp = Inr secret"
    "fst (vault_resolve (lp_vault_db paths) cipher key (acc_credential_ref (lr_account x)) g)
       = Inr \<lparr>bc_value = secret\<rparr>" by blast
  have "key_of g (lp_vault_key paths) = Some key" using x(2) assms(5) by (simp add: key_of_def)
  moreover have "dec_effect (decide [lr_policy x]) = ALLOW" using b(3) by (simp add: decide_allow_iff)
  ultimately show ?thesis using x(1,4,5) eh secret found(2-4)
    by (intro exI [of _ x] exI [of _ key] exI [of _ eh] exI [of _ pam] exI [of _ tp] exI [of _ secret]) blast
qed

text \<open>
  A provisioned lab starts: the access command finds the runtime provisioned, and the settings
  it makes for it pass every check of \<open>build_application\<close> on paths and keys. (That nothing is in
  the place of the audit database is a premise: the tool only checks that it does not exist, which
  a dangling link passes too.)
\<close>

theorem provisioned_lab_starts:
  assumes "provision_lab hasher cipher reader config h = (Inr paths, h')"
    "quiet_hasher hasher" "quiet_reader reader"
    "h_files h (lp_audit_db (paths_within (lc_runtime_dir config))) = None"
    "h_files g = h_files h'" "h_faults g = []"
    "runtime_settings_of (lc_runtime_dir config) secs = Inr s"
  shows "fst (runtime_is_provisioned (lc_runtime_dir config) g) = Inr True \<and> startable g s"
proof -
  let ?dir = "lc_runtime_dir config"
  from provision_lab_run [OF assms(1-3)] have p: "paths = paths_within ?dir" "lab_step ?dir h h'"
    "provisioned hasher cipher reader config h h'" by simp_all
  then obtain x key akey pam tp where x: "h_files h' ?dir = Some (Directory 0x1C0)"
    "key_of h' (lp_vault_key paths) = Some key" "key_of h' (lp_audit_key paths) = Some akey" "akey \<noteq> key"
    "length key = 32" "lab_data hasher cipher key paths x pam tp h'"
    unfolding provisioned_def Let_def by blast
  note P = p(1) [unfolded paths_within_def]
  have tables: "\<exists>n t. table_at g q n = Some t" if "q \<in> store_databases paths" for q
    using x(6) that assms(5)
    by (auto simp: lab_data_def table_rows_def store_databases_def table_at_def db_at_def)
  have db: "\<exists>m d. h_files g q = Some (Regular m (Db d))" if "q \<in> store_databases paths" for q
  proof -
    from tables [OF that] obtain n t where "table_at g q n = Some t" by blast
    then obtain m c d where "h_files g q = Some (Regular m c)" "load_content c = Inr d" "map_of (db_tables d) n = Some t"
      by (auto simp: table_at_def db_at_Some split: option.splits)
    then show ?thesis by (cases c) (auto simp: empty_db_def split: if_splits)
  qed
  have key: "\<exists>m c. h_files g q = Some (Regular m c) \<and> content_bytes c \<noteq> []"
    if "q \<in> {lp_vault_key paths, lp_audit_key paths}" for q
    using that x(2,3) assms(5) by (auto simp: key_of_def split: option.splits node.splits if_splits)
  have regular: "nonempty_file g q" if "(\<exists>m d. h_files g q = Some (Regular m (Db d)))
      \<or> (\<exists>m c. h_files g q = Some (Regular m c) \<and> content_bytes c \<noteq> [])" for q
    using that by (auto simp: nonempty_file_def stat_node_def follow_no_link lit_def)
  have "list_all (\<lambda>n. nonempty_file g (runtime_file ?dir n)) required_runtime_files"
    using regular key db
    by (simp add: required_runtime_files_def runtime_file_def P store_databases_def)
  then have run: "fst (runtime_is_provisioned ?dir g) = Inr True"
    using x(1) assms(5,6) by (simp add: runtime_is_provisioned_def try_except_def)
  have s: "rs_vault_key s = lp_vault_key paths" "rs_audit_key s = lp_audit_key paths"
    "rs_auth_db s = lp_auth_db paths" "rs_config_db s = lp_config_db paths"
    "rs_vault_db s = lp_vault_db paths" "rs_audit_db s = lp_audit_db paths"
    using assms(7) by (auto simp: runtime_settings_of_def mk_runtime_settings_def runtime_file_def P
        bindR_def thenR_def split: sum.splits)
  have "h_files h' (lp_audit_db paths) = None"
    using lab_audit_absent [OF p(2) assms(4)] by (simp add: p(1))
  then have link: "\<forall>l. h_files g q \<noteq> Some (Symlink l)"
    if "q \<in> {lp_vault_key paths, lp_audit_key paths, lp_audit_db paths} \<union> store_databases paths" for q
    using that key [of q] db [of q] assms(5) by auto
  then have res: "resolve_path g q = Inr q"
    if "q \<in> {lp_vault_key paths, lp_audit_key paths, lp_audit_db paths} \<union> store_databases paths" for q
    using that by (simp add: resolve_path_def follow_no_link)
  have "paths_ok g [rs_vault_key s, rs_audit_key s]"
    "paths_ok g [rs_auth_db s, rs_config_db s, rs_vault_db s, rs_audit_db s]"
    unfolding s paths_ok_def using res by (simp_all add: store_databases_def) (simp_all add: P)
  moreover have "keys_ok g s" using x(2-4) assms(5) by (simp add: keys_ok_def s key_of_def)
  ultimately show ?thesis using run by (simp add: startable_def)
qed

end
