(* ===== verification/Lab_Run.thy ===== *)
theory Lab_Run
  imports Lab
begin

text \<open>
  A run of the provisioning tool without faults: every step succeeds, so that on a host with
  enough entropy and a valid configuration a fresh lab is provisioned, whatever the sizes of the
  partial writes and reads.
\<close>

section \<open>The steps\<close>

lemma mkdir_quiet:
  assumes "h_faults h = []" "h_files h p = None" "parent_ok h p"
  shows "mkdir_parents m p h = (Inr (), put_node p (Directory (m AND NOT (h_umask h))) h)"
  using assms
  by (auto simp: mkdir_parents.simps [of m p] os_mkdir_def try_except_def parent_ok_def split: option.splits)

lemma ensure_private_quiet:
  assumes "h_faults h = []" "h_files h dir = None" "parent_ok h dir"
  shows "ensure_private_runtime_directory dir h = (Inr (), put_node dir (Directory 0x1C0) h)"
proof -
  have "\<not> exists_path h dir" using assms(2) by (simp add: exists_path_def stat_node_def follow_no_link)
  with assms show ?thesis
    by (simp add: ensure_private_runtime_directory_def inspect_runtime_directory_def path_is_symlink_def
        path_exists_def try_except_def bind_apply seq_apply mkdir_quiet os_open_directory_def put_node_def
        os_fchmod_def os_fstat_def try_finally_def finally_with_def)
qed

lemma any_exists_quiet:
  "h_faults h = [] \<Longrightarrow> \<forall>p \<in> set ps. h_files h p = None \<Longrightarrow> any_exists ps h = (Inr False, h)"
  by (induction ps) (simp_all add: path_exists_def bind_apply exists_path_def stat_node_def follow_no_link)

lemma write_key_quiet:
  assumes "h_faults h = []" "h_files h d = Some (Regular m (Bytes []))"
  obtains h' where "write_key purpose d key h = (Inr (), h')" "h_faults h' = []"
proof -
  let ?h = "put_node d (Regular 0x180 (Bytes [])) h"
  have f: "h_faults ?h = []" "h_files ?h d = Some (Regular 0x180 (Bytes []))"
    using assms(1) by (simp_all add: put_node_def)
  obtain off h1 where h0: "flush_to d (Bytes key) (length key) 0 ?h = ((Inr (), off), h1)" "h_faults h1 = []"
    by (rule drain_quiet [OF f])
  have "holds d 0x180 (Bytes key) 0 ?h ?h"
    using f(2) by (cases "key = []") (auto simp: holds_def content_prefix_0 fun_upd_idem)
  note run = flush_to_run [OF h0(1) this]
  have h1: "flush_to d (Bytes key) (length key) 0 ?h = ((Inr (), length key), h1)" "h_faults h1 = []"
    using h0 run by simp_all
  have "h_files h1 d = Some (Regular 0x180 (content_prefix (length key) (Bytes key)))"
    using run by (simp add: holds_def)
  then obtain h2 where h2: "close_stream d (Bytes key) (length key) (length key) h1 = (Inr (), h2)" "h_faults h2 = []"
    by (rule close_stream_quiet [OF h1(2)])
  have "write_key_stream d key ?h = (Inr (), h2)"
    using h1 h2 by (simp add: write_key_stream_def seq_apply os_fsync_def try_finally_def finally_with_def bind_apply)
  with assms f(1) h2(2) that show thesis
    by (simp add: write_key_def Let_def try_except_def seq_apply os_fchmod_def)
qed

lemma load_or_create_key_quiet:
  assumes "h_faults h = []" "h_files h p = None" "parent_ok h p" "32 \<le> length (h_entropy h)"
  obtains h' where "load_or_create_key p purpose h = (Inr (take 32 (h_entropy h)), h')"
    "h_faults h' = []" "h_entropy h' = drop 32 (h_entropy h)"
proof -
  let ?k = "take 32 (h_entropy h)"
  let ?h1 = "put_node p (Regular (0x180 AND NOT (h_umask h)) (Bytes [])) h"
  let ?h2 = "?h1\<lparr>h_entropy := drop 32 (h_entropy h)\<rparr>"
  have f2: "h_faults ?h2 = []" "h_files ?h2 p = Some (Regular (0x180 AND NOT (h_umask h)) (Bytes []))"
    using assms(1) by (simp_all add: put_node_def)
  obtain h3 where h3: "write_key purpose p ?k ?h2 = (Inr (), h3)" "h_faults h3 = []"
    by (rule write_key_quiet [OF f2])
  from write_key_run [OF h3(1) f2(2)] have w: "h_files h3 p = Some (Regular 0x180 (Bytes ?k))"
    "h_entropy h3 = drop 32 (h_entropy h)" by simp_all
  have "key_of h3 p = Some ?k" using w(1) assms(4) by (simp add: key_of_def)
  then obtain h4 where h4: "get_key p h3 = (Inr ?k, h4)" "same_files h3 h4" "h_faults h4 = []"
    by (rule get_key_works) (rule h3(2))
  have "load_or_create_key p purpose h = (Inr ?k, h4)"
    using assms h3 h4
    by (simp add: load_or_create_key_def bind_apply seq_apply try_except_def os_create_def token_bytes_def
        key_size_def put_node_def)
  moreover have "h_entropy h4 = drop 32 (h_entropy h)" using h4(2) w(2) by (simp add: same_files_def)
  ultimately show thesis using that h4(3) by blast
qed

section \<open>The databases and their records\<close>

lemma init_databases_quiet:
  assumes "h_faults h = []" "\<forall>p \<in> store_databases (paths_within dir). h_files h p = None"
    "h_files h dir = Some (Directory m)"
  obtains h' where "init_databases (paths_within dir) h = (Inr (), h')" "h_faults h' = []"
    "h_entropy h' = h_entropy h"
proof -
  let ?a = "lp_auth_db (paths_within dir)" and ?c = "lp_config_db (paths_within dir)"
  let ?v = "lp_vault_db (paths_within dir)"
  let ?h = "h\<lparr>h_umask := 0x3F\<rparr>"
  note P = paths_within_def and D = store_databases_def
  have base: "base_db ?h p empty_db" if "p \<in> {?a, ?c, ?v}" for p
    using that assms by (auto simp: base_db_def parent_ok_def P D)
  have ne: "?a \<noteq> ?c" "?a \<noteq> butlast ?c" "?a \<noteq> ?v" "?a \<noteq> butlast ?v" "?c \<noteq> ?v" "?c \<noteq> butlast ?v"
    by (simp_all add: P)
  let ?d0 = "\<lparr>db_version = 1, db_tables = [(users_table, made user_schema user_unique [])]\<rparr>"
  let ?g1 = "set_db ?a ?d0 ?h"
  define d1 where "d1 = empty_db\<lparr>db_tables := db_tables empty_db @ [(targets_table, made target_schema [[lit ''id'']] [])]\<rparr>"
  define d2 where "d2 = d1\<lparr>db_tables := db_tables d1 @ [(accounts_table, made account_schema [[lit ''id'']] [])]\<rparr>"
  define d3 where "d3 = d2\<lparr>db_tables := db_tables d2 @ [(policies_table, made policy_schema [[lit ''id'']] [])]\<rparr>"
  let ?g2 = "set_db ?c d1 ?g1" let ?g3 = "set_db ?c d2 ?g2" let ?g4 = "set_db ?c d3 ?g3"
  note [simp] = assms(1)
  have u: "user_init ?a ?h = (Inr (), ?g1)" by (rule user_init_fresh) (simp add: base)
  have c1: "base_db ?g1 ?c empty_db" by (intro base_db_other base ne) simp
  have t: "target_init ?c ?g1 = (Inr (), ?g2)"
    unfolding d1_def by (rule target_init_fresh [OF c1]) (simp add: empty_db_def)
  have a: "account_init ?c ?g2 = (Inr (), ?g3)"
    unfolding d2_def by (rule account_init_fresh) (simp_all add: d1_def empty_db_def)
  have p: "policy_init ?c ?g3 = (Inr (), ?g4)"
    unfolding d3_def by (rule policy_init_fresh) (simp_all add: d2_def d1_def empty_db_def)
  have "base_db ?g4 ?v empty_db" by (intro base_db_other base ne) simp
  from vault_init_fresh [OF this] obtain g5 where v: "vault_init ?v ?g4 = (Inr (), g5)"
    "h_faults g5 = []" "h_entropy g5 = h_entropy h" by simp
  have "init_databases (paths_within dir) h = (Inr (), g5\<lparr>h_umask := h_umask h\<rparr>)"
    using u t a p v(1) by (simp add: init_databases_def with_owner_only_umask_def Let_def try_except_def
        try_finally_def finally_with_def seq_apply bind_apply)
  with v that show thesis by simp
qed

text \<open>The parameters of a run: what is typed, hashed and encrypted\<close>

definition working ::
  "dbhost argon2 \<Rightarrow> aead \<Rightarrow> (string \<Rightarrow> (dbhost, pystr) io) \<Rightarrow> bool" where
  "working hasher cipher reader \<longleftrightarrow>
     (\<forall>w g. \<exists>eh. a_hash hasher w g = (Inr eh, g) \<and> startswith eh argon2_prefix \<and> list_all encodable eh)
   \<and> aead_correct cipher \<and> (\<forall>k n x. \<not> isl (ae_encrypt cipher k n x))
   \<and> (\<forall>m g. \<exists>w. reader m g = (Inr w, g) \<and> w \<noteq> [] \<and> list_all encodable w)"

text \<open>Texts that SQLite can store\<close>

definition storable_config :: "lab_config \<Rightarrow> bool" where
  "storable_config c \<longleftrightarrow> valid_config c \<and> list_all (list_all encodable)
     [lc_host_key_fingerprint c, lc_credential_ref c, lc_user_id c, lc_username c, lc_target_id c,
      lc_target_name c, lc_target_host c, lc_account_id c, lc_account_username c, lc_policy_id c]"

lemma storable_records:
  assumes "storable_config c"
  obtains x where "build_records c = Inr x" "user_ok (lr_user x)" "target_ok (lr_target x)"
    "account_ok (lr_account x)" "policy_ok (lr_policy x)"
    "list_all encodable (usr_id (lr_user x))" "list_all encodable (usr_username (lr_user x))"
    "bind_values (target_row (lr_target x)) = Inr ()" "bind_values (account_row (lr_account x)) = Inr ()"
    "bind_values (policy_row (lr_policy x)) = Inr ()"
    "list_all encodable (cref_id (acc_credential_ref (lr_account x)))"
proof -
  from assms obtain f where f: "parse_openssh_sha256_fingerprint (lc_host_key_fingerprint c) = Inr f"
    by (auto simp: storable_config_def valid_config_def isl_def split: sum.splits elim: sum.exhaust)
      (metis sum.exhaust)
  from parsed_fingerprint [OF f] have "f = \<lparr>hkf_value = lc_host_key_fingerprint c\<rparr>"
    "startswith (lc_host_key_fingerprint c) (lit ''SHA256:'')" by simp_all
  with f assms show thesis
    by (intro that) (auto simp: build_records_def constructor_defs invariant_defs valid_config_def storable_config_def
        thenR_def bindR_def catchR_def reject_def raise_if_def target_row_def account_row_def policy_row_def
        action_value_def encodable_lit)
qed

lemma only_db_quiet: "only_db p h h' \<Longrightarrow> h_faults h = [] \<Longrightarrow> h_faults h' = [] \<and> h_entropy h' = h_entropy h"
  by (simp add: only_db_def)

lemma create_user_quiet:
  assumes "user_rows p h []" "h_faults h = []" "working hasher cipher reader" "user_ok x"
    "list_all encodable (usr_id x)" "list_all encodable (usr_username x)"
  obtains h' where "create_user p hasher x w h = (Inr (), h')" "h_faults h' = []" "h_entropy h' = h_entropy h"
proof -
  from assms(3) obtain eh where eh: "a_hash hasher w h = (Inr eh, h)" "startswith eh argon2_prefix"
    "list_all encodable eh" unfolding working_def by blast
  obtain q h' where q: "user_insert p x eh h = (q, h')" by fastforce
  have b: "bind_values (user_row x eh) = Inr ()" using assms(5,6) eh(3) by (simp add: user_row_def)
  from user_insert_run [OF assms(1) q] b assms(2) have "q = Inr ()" "only_db p h h'"
    by (cases q; simp)+
  with only_db_quiet assms(2) have "h_faults h' = []" "h_entropy h' = h_entropy h" by blast+
  moreover have "create_user p hasher x w h = (Inr (), h')"
    using eh q \<open>q = Inr ()\<close> assms(4)
    by (simp add: create_user_def hash_password_def user_store_hash_def try_except_def bind_apply
        user_serialize_Inr [of x, THEN iffD2])
  ultimately show thesis using that by blast
qed

lemma store_configuration_quiet:
  assumes "target_rows p h []" "account_rows p h []" "policy_rows p h []" "h_faults h = []"
    "target_ok t" "account_ok a" "policy_ok x" "bind_values (target_row t) = Inr ()"
    "bind_values (account_row a) = Inr ()" "bind_values (policy_row x) = Inr ()"
  obtains h' where "seq (target_store p t) (seq (account_store p a) (policy_store p x)) h = (Inr (), h')"
    "h_faults h' = []" "h_entropy h' = h_entropy h"
proof -
  obtain q1 h1 where q1: "target_store p t h = (q1, h1)" by fastforce
  note 1 = target_store_run [OF assms(1) q1]
  have r1: "q1 = Inr ()" using 1 assms(4,5,8) by (cases q1) auto
  have e1: "h_faults h1 = []" "h_entropy h1 = h_entropy h" using 1 assms(4) only_db_quiet by blast+
  have t1: "account_rows p h1 []" "policy_rows p h1 []"
    using 1 assms(2,3) by (simp_all add: table_rows_def)
  obtain q2 h2 where q2: "account_store p a h1 = (q2, h2)" by fastforce
  note 2 = account_store_run [OF t1(1) q2]
  have r2: "q2 = Inr ()" using 2 e1 assms(6,9) by (cases q2) auto
  have e2: "h_faults h2 = []" "h_entropy h2 = h_entropy h" using 2 e1 only_db_quiet by metis+
  have t2: "policy_rows p h2 []" using 2 t1(2) by (simp add: table_rows_def)
  have ser: "policy_serialize x = Inr (policy_row x)"
    using assms(7) by (simp add: policy_serialize_Inr policy_row_def)
  obtain q3 h3 where q3: "policy_store p x h2 = (q3, h3)" by fastforce
  note 3 = policy_store_run [OF t2 q3]
  have r3: "q3 = Inr ()" using 3 e2 ser assms(10) by (cases q3) auto
  have "h_faults h3 = []" "h_entropy h3 = h_entropy h" using 3 e2 only_db_quiet by metis+
  with q1 q2 q3 r1 r2 r3 that show thesis by (simp add: seq_apply)
qed

lemma vault_store_quiet:
  assumes "vault_rows p h []" "h_faults h = []" "12 \<le> length (h_entropy h)" "length key = 32"
    "working hasher cipher reader" "list_all encodable (cref_id ref)"
  obtains h' where "vault_store p cipher key ref x h = (Inr (), h')" "h_faults h' = []"
proof -
  let ?n = "take 12 (h_entropy h)" and ?h = "h\<lparr>h_entropy := drop 12 (h_entropy h)\<rparr>"
  from assms(5) obtain c where c: "ae_encrypt cipher key ?n x = Inr c"
    unfolding working_def by (metis sum.collapse(2))
  have ac: "aead_correct cipher" using assms(5) by (simp only: working_def)
  have l: "length ?n = 12" using assms(3) by simp
  from ac [unfolded aead_correct_def, rule_format, OF assms(4) l c] have "c \<noteq> []" by simp
  then have mk: "mk_encrypted_secret 1 ?n c = Inr \<lparr>es_version = 1, es_nonce = ?n, es_ciphertext = c\<rparr>"
    using assms(3) by (simp add: mk_encrypted_secret_def)
  let ?s = "\<lparr>es_version = 1, es_nonce = ?n, es_ciphertext = c\<rparr>"
  obtain q h' where q: "vault_insert p ref ?s ?h = (q, h')" by fastforce
  have rows: "vault_rows p ?h []" using assms(1) by simp
  have "bind_values (vault_row ref ?s) = Inr ()" using assms(6) by (simp add: vault_row_def)
  with vault_insert_run [OF rows q] assms(2) have "q = Inr ()" "only_db p ?h h'" by (cases q; auto)+
  moreover from this(2) assms(2) have "h_faults h' = []" by (simp add: only_db_def)
  ultimately show thesis using that q c mk assms(3)
    by (simp add: vault_store_def bind_apply try_except_def cipher_encrypt_def token_bytes_def cipher_version_def)
qed

section \<open>Provisioning succeeds\<close>

definition prepared :: "path \<Rightarrow> dbhost \<Rightarrow> bool" where
  "prepared dir h \<longleftrightarrow> h_faults h = [] \<and> h_files h dir = None \<and> parent_ok h dir
     \<and> (\<forall>n. h_files h (dir @ [n]) = None) \<and> 76 \<le> length (h_entropy h)
     \<and> take 32 (h_entropy h) \<noteq> take 32 (drop 32 (h_entropy h))"

lemma make_keys_quiet:
  assumes "h_faults h = []" "h_files h dir = Some (Directory m)" "\<forall>n. h_files h (dir @ [n]) = None"
    "64 \<le> length (h_entropy h)" "take 32 (h_entropy h) \<noteq> take 32 (drop 32 (h_entropy h))"
  obtains h' where "make_keys (paths_within dir) h = (Inr (take 32 (h_entropy h)), h')" "h_faults h' = []"
    "h_entropy h' = drop 64 (h_entropy h)"
proof -
  let ?v = "lp_vault_key (paths_within dir)" and ?a = "lp_audit_key (paths_within dir)"
  have par: "butlast ?v = dir" "butlast ?a = dir" by (simp_all add: paths_within_def)
  have none: "h_files h ?v = None" "h_files h ?a = None" using assms(3) by (simp_all add: paths_within_def)
  have "parent_ok h ?v" using assms(2) par by (simp add: parent_ok_def)
  then obtain h1 where 1: "load_or_create_key ?v ''vault'' h = (Inr (take 32 (h_entropy h)), h1)"
    "h_faults h1 = []" "h_entropy h1 = drop 32 (h_entropy h)"
    by (rule load_or_create_key_quiet [OF assms(1) none(1)]) (use assms(4) in simp)
  have "confined {?v} h h1" using load_or_create_key_run [OF 1(1)] by simp
  then have same: "h_files h1 q = h_files h q" if "q \<noteq> ?v" for q using that by (simp add: confined_def)
  have n1: "h_files h1 ?a = None" using same [of ?a] none(2) lab_paths_distinct(1) [of dir] by simp
  have "h_files h1 dir = Some (Directory m)" using same [of dir] assms(2) by simp
  then have "parent_ok h1 ?a" using par by (simp add: parent_ok_def)
  then obtain h2 where 2: "load_or_create_key ?a ''audit integrity'' h1 = (Inr (take 32 (h_entropy h1)), h2)"
    "h_faults h2 = []" "h_entropy h2 = drop 32 (h_entropy h1)"
    by (rule load_or_create_key_quiet [OF 1(2) n1]) (use assms(4) 1(3) in simp)
  have "make_keys (paths_within dir) h = (Inr (take 32 (h_entropy h)), h2)"
    using 1 2 assms(4,5) by (simp add: make_keys_def bind_apply try_except_def mk_cipher_def)
  with 1 2 that show thesis by simp
qed

lemma provision_succeeds_run:
  assumes "prepared (lc_runtime_dir config) h" "storable_config config" "working hasher cipher reader"
  shows "\<exists>h'. provision_lab hasher cipher reader config h = (Inr (paths_within (lc_runtime_dir config)), h')
    \<and> provision_main hasher cipher reader config h
        = (Inr (0, provision_report config (paths_within (lc_runtime_dir config))), h')"
proof -
  let ?dir = "lc_runtime_dir config" and ?p = "paths_within (lc_runtime_dir config)"
  let ?h1 = "put_node ?dir (Directory 0x1C0) h"
  from assms(1) have h: "h_faults h = []" "h_files h ?dir = None" "parent_ok h ?dir"
    "\<And>n. h_files h (?dir @ [n]) = None" "76 \<le> length (h_entropy h)"
    "take 32 (h_entropy h) \<noteq> take 32 (drop 32 (h_entropy h))" by (simp_all add: prepared_def)
  from storable_records [OF assms(2)] obtain x where x: "build_records config = Inr x" "user_ok (lr_user x)"
    "target_ok (lr_target x)" "account_ok (lr_account x)" "policy_ok (lr_policy x)"
    "list_all encodable (usr_id (lr_user x))" "list_all encodable (usr_username (lr_user x))"
    "bind_values (target_row (lr_target x)) = Inr ()" "bind_values (account_row (lr_account x)) = Inr ()"
    "bind_values (policy_row (lr_policy x)) = Inr ()"
    "list_all encodable (cref_id (acc_credential_ref (lr_account x)))" .
  have f1: "h_faults ?h1 = []" "h_files ?h1 ?dir = Some (Directory 0x1C0)" "h_entropy ?h1 = h_entropy h"
    "\<forall>n. h_files ?h1 (?dir @ [n]) = None" using h(1,4) by (simp_all add: put_node_def)
  have dir: "ensure_private_runtime_directory ?dir h = (Inr (), ?h1)"
    by (rule ensure_private_quiet [OF h(1-3)])
  have none: "\<forall>p \<in> set (databases ?p). h_files ?h1 p = None"
    using f1(4) by (simp add: databases_def paths_within_def)
  have rej: "reject_existing_databases ?p ?h1 = (Inr (), ?h1)"
    using any_exists_quiet [OF f1(1) none] by (simp add: reject_existing_databases_def bind_apply)
  obtain h2 where keys: "make_keys ?p ?h1 = (Inr (take 32 (h_entropy h)), h2)" "h_faults h2 = []"
    "h_entropy h2 = drop 64 (h_entropy h)"
    by (rule make_keys_quiet [OF f1(1,2,4)]) (use h(5,6) f1(3) in simp_all)
  have conf: "confined {lp_vault_key ?p, lp_audit_key ?p} ?h1 h2"
    using make_keys_run [OF keys(1)] by simp
  then have d2: "h_files h2 ?dir = Some (Directory 0x1C0)" using f1(2) by (simp add: confined_def)
  have n2: "\<forall>p \<in> store_databases ?p. h_files h2 p = None"
  proof
    fix p assume p: "p \<in> store_databases ?p"
    then have "p \<notin> {lp_vault_key ?p, lp_audit_key ?p}" by auto
    with conf have "h_files h2 p = h_files ?h1 p" by (rule confinedD)
    with none p databases_within show "h_files h2 p = None" by auto
  qed
  have enters: "\<exists>w. reader m g = (Inr w, g) \<and> w \<noteq> [] \<and> list_all encodable w" for m g
    using assms(3) by (simp add: working_def)
  obtain pam where w1: "reader ''PAM application user password: '' h2 = (Inr pam, h2)" "pam \<noteq> []"
    using enters [of "''PAM application user password: ''" h2] by auto
  obtain tp where w2: "reader ''Target pamadmin SSH password: '' h2 = (Inr tp, h2)" "tp \<noteq> []"
    "list_all encodable tp"
    using enters [of "''Target pamadmin SSH password: ''" h2] by auto
  have pw: "read_passwords reader h2 = (Inr (pam, tp), h2)" "list_all encodable tp"
    using w1 w2 by (simp_all add: read_passwords_def read_password_def bind_apply try_except_def)
  obtain h3 where i: "init_databases ?p h2 = (Inr (), h3)" "h_faults h3 = []" "h_entropy h3 = h_entropy h2"
    by (rule init_databases_quiet [OF keys(2) n2 d2])
  have dist: "distinct [lp_auth_db ?p, lp_config_db ?p, lp_vault_db ?p]" by (rule lab_paths_distinct(2))
  have "\<forall>p \<in> store_databases ?p. h_files h2 p = None \<or> (\<exists>x. h_files h2 p = Some (Symlink x))" using n2 by simp
  from init_databases_run [OF i(1) dist this]
  have rows: "user_rows (lp_auth_db ?p) h3 []" "target_rows (lp_config_db ?p) h3 []"
    "account_rows (lp_config_db ?p) h3 []" "policy_rows (lp_config_db ?p) h3 []" "vault_rows (lp_vault_db ?p) h3 []"
    by (simp_all add: lab_tables_def table_rows_def)
  have qh: "quiet_hasher hasher" using assms(3) unfolding working_def quiet_hasher_def by (metis snd_conv)
  obtain h4 where u: "create_user (lp_auth_db ?p) hasher (lr_user x) pam h3 = (Inr (), h4)" "h_faults h4 = []"
    "h_entropy h4 = h_entropy h3" by (rule create_user_quiet [OF rows(1) i(2) assms(3) x(2,6,7)])
  have r4: "refills {lp_auth_db ?p} h3 h4" using create_user_run [OF rows(1) qh u(1)] by simp
  have keep: "table_rows n cols uq p k rs" if "refills {q} j k" "p \<noteq> q" "table_rows n cols uq p j rs"
    for n cols uq p q j k rs
    using that by (simp add: table_rows_def refills_table_other)
  have rows4: "target_rows (lp_config_db ?p) h4 []" "account_rows (lp_config_db ?p) h4 []"
    "policy_rows (lp_config_db ?p) h4 []" "vault_rows (lp_vault_db ?p) h4 []"
    using keep [OF r4] rows dist by auto
  obtain h5 where c: "seq (target_store (lp_config_db ?p) (lr_target x))
      (seq (account_store (lp_config_db ?p) (lr_account x)) (policy_store (lp_config_db ?p) (lr_policy x))) h4 = (Inr (), h5)"
    "h_faults h5 = []" "h_entropy h5 = h_entropy h4"
    by (rule store_configuration_quiet [OF rows4(1-3) u(2) x(3-5,8-10)])
  have "refills {lp_config_db ?p} h4 h5" using store_configuration_run [OF rows4(1-3) c(1)] by simp
  with rows4(4) dist have v5: "vault_rows (lp_vault_db ?p) h5 []" using keep by auto
  obtain secret where enc: "utf8_encode tp = Inr secret"
    using pw(2) by (auto simp: utf8_encode_def raise_if_def)
  have "12 \<le> length (h_entropy h5)" "length (take 32 (h_entropy h)) = 32"
    using c(3) u(3) i(3) keys(3) h(5) by simp_all
  then obtain h6 where v: "vault_store (lp_vault_db ?p) cipher (take 32 (h_entropy h))
      (acc_credential_ref (lr_account x)) secret h5 = (Inr (), h6)"
    by (rule vault_store_quiet [OF v5 c(2) _ _ assms(3) x(11)])
  have "store_records hasher cipher (take 32 (h_entropy h)) ?p x pam tp h3 = (Inr (), h6)"
    using u(1) c(1) enc v by (simp add: store_records_def try_except_def seq_apply bind_apply)
  with x(1) dir rej keys(1) pw(1) i(1) have "provision_lab hasher cipher reader config h = (Inr ?p, h6)"
    by (simp add: provision_lab_def Let_def bind_apply seq_apply)
  then show ?thesis by (simp add: provision_main_def bind_apply try_except_def)
qed

text \<open>
  C36. Without faults of the host the tool provisions every valid configuration into a fresh
  directory, whatever the sizes of the partial reads and writes: there is room for the two keys
  and the nonce in the entropy, the two keys differ, the passwords are entered, and Argon2 and
  AES-GCM do their work.
\<close>

theorem provision_succeeds:
  assumes "prepared (lc_runtime_dir config) h" "storable_config config" "working hasher cipher reader"
  shows "\<exists>h'. provision_lab hasher cipher reader config h = (Inr (paths_within (lc_runtime_dir config)), h')
    \<and> provision_main hasher cipher reader config h
        = (Inr (0, provision_report config (paths_within (lc_runtime_dir config))), h')"
  using assms by (rule provision_succeeds_run)


section \<open>A run\<close>

definition default_digest :: bytes where
  "default_digest = [176, 223, 8, 136, 208, 162, 31, 113, 214, 122, 217, 145, 252, 157, 238, 70, 243, 223, 122, 190, 44, 208, 7, 8, 63, 112, 94, 109, 120, 158, 82, 226]"

lemma default_pin:
  "lc_host_key_fingerprint (default_config dir) = digest_text default_digest"
proof -
  have "b64encode default_digest =
    [115, 78, 56, 73, 105, 78, 67, 105, 72, 51, 72, 87, 101, 116, 109, 82, 47, 74, 51, 117, 82, 118, 80, 102, 101, 114, 52, 115, 48, 65, 99, 73, 80, 51, 66, 101, 98, 88, 105, 101, 85, 117, 73, 61]"
    by (simp add: default_digest_def b64_char_def)
  then show ?thesis by (simp add: digest_text_def rstrip_pad_def default_config_def lit_def)
qed

definition lab_host :: dbhost where
  "lab_host = \<lparr>h_files = [[] \<mapsto> Directory 0x1ED], h_umask = 0x12,
     h_entropy = replicate 32 1 @ replicate 32 2 @ replicate 12 3, h_faults = [], h_chunks = [1, 5]\<rparr>"

abbreviation lab_config_here :: lab_config where
  "lab_config_here \<equiv> default_config [lit ''lab'']"

lemma default_storable: "storable_config (default_config dir)"
proof -
  have "\<not> isl (parse_openssh_sha256_fingerprint (lc_host_key_fingerprint (default_config dir)))"
    using parse_digest_text [of default_digest] by (simp add: default_pin default_digest_def)
  moreover have "list_all encodable (lc_host_key_fingerprint (default_config dir))"
    by (simp add: default_config_def encodable_lit)
  moreover have "list_all (\<lambda>x. \<not> blank x) (map lit [''cred-001'', ''user-001'', ''goksu'', ''target-001'',
      ''linux-server-1'', ''192.168.122.227'', ''account-001'', ''pamadmin'', ''policy-001''])"
    by (simp add: blank_iff lit_def py_isspace_def)
  ultimately show ?thesis
    by (simp add: storable_config_def valid_config_def) (simp add: default_config_def encodable_lit)
qed

lemma lab_ready:
  "prepared (lc_runtime_dir lab_config_here) lab_host" "storable_config lab_config_here"
  "working lab_argon2 toy_aead lab_reader"
proof -
  show "prepared (lc_runtime_dir lab_config_here) lab_host"
    by (simp add: prepared_def lab_host_def default_config_def parent_ok_def)
  show "storable_config lab_config_here" by (rule default_storable)
  show "working lab_argon2 toy_aead lab_reader"
    unfolding working_def
  proof (intro conjI)
    show "\<forall>w g. \<exists>eh. a_hash lab_argon2 w g = (Inr eh, g) \<and> startswith eh argon2_prefix \<and> list_all encodable eh"
      by (simp add: lab_argon2_def lab_hash_def argon2_prefix_def encodable_lit startswith_def lit_def)
        (simp add: encodable_def surrogate_def)
    show "\<forall>k n x. \<not> isl (ae_encrypt toy_aead k n x)" by (simp add: toy_aead_def)
  qed (simp_all add: toy_aead_correct lab_reader_def encodable_lit)
qed

text \<open>The hypotheses of the properties of a provisioned lab hold of this run.\<close>

lemma lab_provisioned:
  "\<exists>h'. provision_lab lab_argon2 toy_aead lab_reader lab_config_here lab_host = (Inr (paths_within [lit ''lab'']), h')"
  using provision_succeeds_run [OF lab_ready] by (auto simp: default_config_def)

theorem provision_succeeds_witness:
  "\<exists>h' lines. provision_main lab_argon2 toy_aead lab_reader lab_config_here lab_host = (Inr (0, lines), h')
     \<and> (Stdout, lit ''PAM user: goksu'') \<in> set lines"
proof -
  have "lit ''PAM user: '' @ lit ''goksu'' = lit ''PAM user: goksu''" by (simp add: lit_def)
  with provision_succeeds [OF lab_ready] show ?thesis by (auto simp: provision_report_def default_config_def)
qed

theorem provisioned_lab_serves_witness:
  "\<exists>h' key eh. provision_lab lab_argon2 toy_aead lab_reader lab_config_here lab_host
       = (Inr (paths_within [lit ''lab'']), h')
     \<and> fst (find_by_username [lit ''lab'', lit ''auth.db''] (lit ''goksu'') (h'\<lparr>h_faults := []\<rparr>))
        = Inr (Some \<lparr>sua_user = \<lparr>usr_id = lit ''user-001'', usr_username = lit ''goksu'', usr_is_active = True\<rparr>,
                     sua_password_hash = eh\<rparr>)
     \<and> fst (vault_resolve [lit ''lab'', lit ''vault.db''] toy_aead key \<lparr>cref_id = lit ''cred-001''\<rparr> (h'\<lparr>h_faults := []\<rparr>))
        = Inr \<lparr>bc_value = [112, 119]\<rparr>"
proof -
  obtain h' where r: "provision_lab lab_argon2 toy_aead lab_reader lab_config_here lab_host
    = (Inr (paths_within [lit ''lab'']), h')" using lab_provisioned by blast
  from lab_ready(2) obtain x where x: "build_records lab_config_here = Inr x"
    by (rule storable_records)
  have "lr_user x = \<lparr>usr_id = lit ''user-001'', usr_username = lit ''goksu'', usr_is_active = True\<rparr>"
    "acc_credential_ref (lr_account x) = \<lparr>cref_id = lit ''cred-001''\<rparr>"
    using x by (auto simp: build_records_def constructor_defs thenR_def bindR_def catchR_def reject_def
        raise_if_def default_config_def split: sum.splits if_splits)
  moreover have "utf8_encode (lit ''pw'') = Inr [112, 119]"
    by (simp add: utf8_encode_def lit_def encodable_def surrogate_def utf8_char_def byte_def)
  ultimately show ?thesis
    using provisioned_lab_serves [OF r lab_quiet toy_aead_correct, of "h'\<lparr>h_faults := []\<rparr>"] x r
    by (auto simp: paths_within_def lab_reader_def)
qed

theorem provisioned_lab_starts_witness:
  "\<exists>h' s. provision_lab lab_argon2 toy_aead lab_reader lab_config_here lab_host
       = (Inr (paths_within [lit ''lab'']), h')
     \<and> runtime_settings_of [lit ''lab''] (Some 60) = Inr s \<and> startable (h'\<lparr>h_faults := []\<rparr>) s"
proof -
  obtain h' where r: "provision_lab lab_argon2 toy_aead lab_reader lab_config_here lab_host
    = (Inr (paths_within [lit ''lab'']), h')" using lab_provisioned by blast
  have dir: "lc_runtime_dir lab_config_here = [lit ''lab'']" by (simp add: default_config_def)
  obtain s where s: "runtime_settings_of [lit ''lab''] (Some 60) = Inr s"
  proof -
    have "timedelta_seconds (Some 60) = Inr 60000000" by code_simp
    then show ?thesis using that by (simp add: runtime_settings_of_def mk_runtime_settings_def)
  qed
  from provisioned_lab_starts [OF r lab_quiet, of "h'\<lparr>h_faults := []\<rparr>", unfolded dir, OF _ _ _ s] s r
  show ?thesis by (auto simp: lab_host_def paths_within_def)
qed

end
