(* ===== verification/Negative_Lab.thy ===== *)
theory Negative_Lab
  imports Lab_Run
begin

text \<open>
  The tool that prepares a lab for a negative security test (\<open>tools/prepare_negative_lab.py\<close>): it
  copies a provisioned runtime into a new private directory beside it and damages the copy in one
  of five ways. Modelled is everything but the declaration of the command line options; \<open>main\<close> gives
  the exit code and the lines it prints.
\<close>

unbundle bit_operations_syntax

section \<open>Configuration and paths\<close>

definition scenarios :: "pystr list" where
  "scenarios = [lit ''deny'', lit ''disabled-target'', lit ''disabled-account'', lit ''bad-host-key'',
     lit ''tampered-audit'']"

definition required_files :: "pystr list" where
  "required_files = [lit ''vault.key'', lit ''audit.key'', lit ''auth.db'', lit ''config.db'', lit ''vault.db'']"

definition optional_files :: "pystr list" where
  "optional_files = [lit ''audit.db'']"

definition bad_host_key :: pystr where
  "bad_host_key = lit ''SHA256:AAAAAAAAAAAAAAAAAAAAAAAAAAAAAAAAAAAAAAAAAAA''"

definition preparation_error :: "string \<Rightarrow> exn" where
  "preparation_error m = err NegativeLabPreparationError m"

record negative_lab_config =
  nl_source :: path
  nl_destination :: path
  nl_scenario :: pystr

text \<open>\<open>Path.name\<close> and \<open>q in p.parents\<close>\<close>

definition path_name :: "path \<Rightarrow> pystr" where
  "path_name p = (if p = [] then [] else last p)"

definition in_parents :: "path \<Rightarrow> path \<Rightarrow> bool" where
  "in_parents q p \<longleftrightarrow> length q < length p \<and> take (length q) p = q"

text \<open>The short-circuit \<open>a or b\<close> and \<open>a and b\<close> of questions.\<close>

definition either :: "('w, bool) io \<Rightarrow> ('w, bool) io \<Rightarrow> ('w, bool) io" where
  "either m n = bind m (\<lambda>b. if b then ret True else n)"

definition both :: "('w, bool) io \<Rightarrow> ('w, bool) io \<Rightarrow> ('w, bool) io" where
  "both m n = bind m (\<lambda>b. if b then n else ret False)"

definition negate :: "('w, bool) io \<Rightarrow> ('w, bool) io" where
  "negate m = bind m (\<lambda>b. ret (\<not> b))"

text \<open>\<open>_validate_paths\<close>\<close>

definition destination_taken :: exn where
  "destination_taken = preparation_error ''destination already exists; remove it manually or choose another''"

definition resolve_both :: "path \<Rightarrow> path \<Rightarrow> ('d host, path \<times> path) io" where
  "resolve_both p q = (\<lambda>h.
     (catchR (bindR (resolve_path h p) (\<lambda>source. bindR (resolve_path h q) (\<lambda>destination.
        Inr (source, destination)))) (catches_any [OSError, RuntimeError])
       (\<lambda>_. Inl (preparation_error ''source or destination path could not be resolved safely'')), h))"

definition validate_paths :: "negative_lab_config \<Rightarrow> ('d host, path \<times> path) io" where
  "validate_paths config =
     seq (lift (raise_if (nl_scenario config \<notin> set scenarios)
            (preparation_error ''scenario configuration is invalid'')))
    (bind (resolve_both (nl_source config) (nl_destination config)) (\<lambda>(source, destination).
     seq (lift (raise_if (path_name source \<noteq> lit ''lab'' \<or> path_name (butlast source) \<noteq> lit ''runtime'')
            (preparation_error ''source must be the runtime/lab baseline'')))
    (seq (lift (raise_if (destination = source \<or> in_parents source destination)
            (preparation_error ''destination must not be the baseline runtime or one of its children'')))
    (seq (lift (raise_if (butlast destination \<noteq> butlast source @ [lit ''scenarios''])
            (preparation_error ''destination must be directly under runtime/scenarios'')))
    (bind (try_except (either (path_exists destination) (path_is_symlink destination)) (catches OSError)
            (\<lambda>_. raise (preparation_error ''destination path could not be inspected safely'')))
       (\<lambda>there. if there then raise destination_taken else ret (source, destination)))))))"

text \<open>\<open>_validate_source\<close>\<close>

primrec all_safe :: "path list \<Rightarrow> ('d host, bool) io" where
  "all_safe [] = ret True"
| "all_safe (p # ps) =
     bind (both (path_is_file p) (negate (path_is_symlink p))) (\<lambda>ok. if ok then all_safe ps else ret False)"

definition source_filenames :: "pystr \<Rightarrow> bool \<Rightarrow> pystr list res" where
  "source_filenames scenario audit_exists =
     (if scenario = lit ''tampered-audit''
      then (if \<not> audit_exists
            then Inl (preparation_error ''tampered-audit requires an existing baseline audit database'')
            else Inr [lit ''audit.key'', lit ''audit.db''])
      else Inr (if audit_exists then required_files @ optional_files else required_files))"

definition validate_source :: "path \<Rightarrow> pystr \<Rightarrow> ('d host, path list) io" where
  "validate_source source scenario =
     bind (try_except (both (path_is_dir source) (negate (path_is_symlink source))) (catches OSError)
             (\<lambda>_. ret False)) (\<lambda>safe.
     seq (lift (raise_if (\<not> safe) (preparation_error ''source runtime does not exist or is unsafe'')))
    (bind (try_except (path_exists (source @ [lit ''audit.db''])) (catches OSError)
             (\<lambda>_. raise (preparation_error ''source runtime could not be inspected safely''))) (\<lambda>audit_exists.
     bind (lift (source_filenames scenario audit_exists)) (\<lambda>filenames.
     let source_files = map (\<lambda>n. source @ [n]) filenames in
     bind (try_except (all_safe source_files) (catches OSError) (\<lambda>_. ret False)) (\<lambda>safe.
     seq (lift (raise_if (\<not> safe)
            (preparation_error ''source runtime is incomplete or contains unsafe files'')))
         (ret source_files))))))"

section \<open>Copying\<close>

text \<open>\<open>Path.chmod\<close> follows links.\<close>

definition os_chmod :: "path \<Rightarrow> mode \<Rightarrow> ('d host, unit) io" where
  "os_chmod p m = os_call (\<lambda>h. case follow max_links (h_files h) p of
       Inl e \<Rightarrow> (Inl e, h)
     | Inr q \<Rightarrow> (case h_files h q of
           None \<Rightarrow> (Inl (err FileNotFoundError ''ENOENT''), h)
         | Some n \<Rightarrow> (Inr (), put_node q (with_mode m n) h)))"

definition create_private_destination :: "path \<Rightarrow> ('d host, unit) io" where
  "create_private_destination destination =
     try_except
       (seq (mkdir_parents 0x1FF (butlast destination))
       (seq (os_mkdir destination 0x1C0) (os_chmod destination 0x1C0)))
       (catches OSError)
       (\<lambda>e. raise (if catches FileExistsError e then destination_taken
                    else preparation_error ''destination directory could not be created securely''))"

text \<open>
  \<open>source.open("rb")\<close>: the stream reads the content of the file that was opened. \<open>read(n)\<close> of a
  buffered reader returns \<open>n\<close> octets, or those up to the end.
\<close>

definition open_binary :: "path \<Rightarrow> ('d host, 'd content) io" where
  "open_binary p = os_call (\<lambda>h. case stat_node h p of
       Some (Regular m c) \<Rightarrow> (Inr c, h)
     | Some (Directory m) \<Rightarrow> (Inl (err OSError ''EISDIR''), h)
     | _ \<Rightarrow> (Inl (err FileNotFoundError ''ENOENT''), h))"

definition stream_read :: "'d content \<Rightarrow> nat \<Rightarrow> nat \<Rightarrow> ('d host, bytes) io" where
  "stream_read c pos n = os_call (ret (take n (drop pos (content_bytes c))))"

text \<open>
  \<open>write\<close> of the next \<open>n\<close> octets of \<open>c\<close> to a buffered writer that got \<open>stop\<close> and wrote \<open>off\<close>
  octets: they stay in the buffer (of 8192 octets) if it has room; otherwise the buffer is flushed
  and the octets are written directly until the rest fits. The result has the octets the writer
  holds and those it wrote.
\<close>

definition stream_write :: "path \<Rightarrow> 'd content \<Rightarrow> nat \<Rightarrow> nat \<Rightarrow> nat \<Rightarrow> 'd host \<Rightarrow>
    (unit res \<times> nat \<times> nat) \<times> 'd host" where
  "stream_write d c stop off n h =
     (if stop + n \<le> off + 8192 then ((Inr (), stop + n, off), h)
      else case flush_to d c stop off h of
        ((Inl e, off1), h1) \<Rightarrow> ((Inl e, stop, off1), h1)
      | ((Inr _, off1), h1) \<Rightarrow>
          (case drain 8192 d c (stop + n) off1 h1 of
             ((Inl e, off2), h2) \<Rightarrow> ((Inl e, off2, off2), h2)
           | ((Inr _, off2), h2) \<Rightarrow> ((Inr (), stop + n, off2), h2)))"

lemma stream_read_Inr:
  "stream_read c pos n h = (Inr chunk, h') \<Longrightarrow> chunk = take n (drop pos (content_bytes c))"
  by (auto simp: stream_read_def os_call_def faultable_eq)

lemma stream_write_Inr: "stream_write d c stop off n h = ((Inr u, stop2, off2), h') \<Longrightarrow> stop2 = stop + n"
  by (auto simp: stream_write_def split: if_splits prod.splits sum.splits)

text \<open>\<open>shutil.copyfileobj\<close> with its chunks of 64 KiB\<close>

definition copy_bufsize :: nat where
  "copy_bufsize = 65536"

function copy_stream :: "path \<Rightarrow> 'd content \<Rightarrow> nat \<Rightarrow> nat \<Rightarrow> 'd host \<Rightarrow> (unit res \<times> nat \<times> nat) \<times> 'd host" where
  "copy_stream d c stop off h =
     (case stream_read c stop copy_bufsize h of
        (Inl e, h1) \<Rightarrow> ((Inl e, stop, off), h1)
      | (Inr chunk, h1) \<Rightarrow>
          if chunk = [] then ((Inr (), stop, off), h1)
          else (case stream_write d c stop off (length chunk) h1 of
                  ((Inl e, stop2, off2), h2) \<Rightarrow> ((Inl e, stop2, off2), h2)
                | ((Inr _, stop2, off2), h2) \<Rightarrow> copy_stream d c stop2 off2 h2))"
  by pat_completeness auto
termination
  by (relation "measure (\<lambda>(d, c, stop, off, h). length (content_bytes c) - stop)")
    (auto dest!: sym [of "(Inr _, _)"] stream_read_Inr sym [of "((Inr _, _, _), _)"] stream_write_Inr simp: copy_bufsize_def)

declare copy_stream.simps [simp del]

text \<open>
  \<open>with os.fdopen(...) as s: copyfileobj; s.flush(); os.fsync(...)\<close>: whatever happens in the block,
  the stream is closed with what it still holds.
\<close>

definition write_copy :: "path \<Rightarrow> 'd content \<Rightarrow> ('d host, unit) io" where
  "write_copy d c = (\<lambda>h. case copy_stream d c 0 0 h of
     ((Inl e, stop, off), h1) \<Rightarrow> try_finally (raise e) (close_stream d c stop off) h1
   | ((Inr _, stop, off), h1) \<Rightarrow>
       (case flush_to d c stop off h1 of ((r, off2), h2) \<Rightarrow>
          try_finally (seq (lift r) (os_fsync d)) (close_stream d c stop off2) h2))"

text \<open>
  \<open>_copy_private_file\<close>: until the stream owns the descriptor a failure closes it by hand, after the
  source stream.
\<close>

definition copy_failed :: exn where
  "copy_failed = preparation_error ''runtime file could not be copied securely''"

definition copy_private_file :: "path \<Rightarrow> path \<Rightarrow> ('d host, unit) io" where
  "copy_private_file source destination =
     bind (try_except (os_create destination 0x180) (catches OSError) (\<lambda>_. raise copy_failed)) (\<lambda>d.
     bind (try_except (seq (os_fchmod d 0x180) (open_binary source)) (catches OSError)
             (\<lambda>_. seq (close_quietly d) (raise copy_failed))) (\<lambda>c.
     seq (try_except (os_call (ret ())) (catches OSError)
            (\<lambda>_. seq (close_quietly source) (seq (close_quietly d) (raise copy_failed))))
         (try_except (try_finally (write_copy d c) (os_close source)) (catches OSError)
            (\<lambda>_. raise copy_failed))))"

section \<open>Changing the copy\<close>

text \<open>
  \<open>_mutate_copied_config\<close>: the table, the column, its new value, and the condition on the other
  columns of the row.
\<close>

definition statement_of ::
  "pystr \<Rightarrow> (pystr \<times> pystr \<times> sqlval \<times> pystr \<times> (sqlval \<Rightarrow> bool)) option" where
  "statement_of scenario =
     (if scenario = lit ''deny''
      then Some (lit ''access_policies'', lit ''effect'', SqlText (lit ''deny''), lit ''policy-001'',
                 \<lambda>v. sql_eq v (SqlText (lit ''allow'')))
      else if scenario = lit ''disabled-target''
      then Some (lit ''targets'', lit ''enabled'', SqlInt 0, lit ''target-001'', \<lambda>v. sql_eq v (SqlInt 1))
      else if scenario = lit ''disabled-account''
      then Some (lit ''privileged_accounts'', lit ''enabled'', SqlInt 0, lit ''account-001'',
                 \<lambda>v. sql_eq v (SqlInt 1))
      else if scenario = lit ''bad-host-key''
      then Some (lit ''targets'', lit ''expected_host_key'', SqlText bad_host_key, lit ''target-001'',
                 \<lambda>v. sql_ne v (SqlText bad_host_key))
      else None)"

definition update_exactly_one ::
  "pystr \<Rightarrow> pystr \<Rightarrow> sqlval \<Rightarrow> pystr list \<Rightarrow> (table \<Rightarrow> row \<Rightarrow> bool) \<Rightarrow> string \<Rightarrow> (conn, unit) io" where
  "update_exactly_one n c v cols p m =
     bind (update_rows n c v cols p) (\<lambda>rowcount. lift (raise_if (rowcount \<noteq> 1) (preparation_error m)))"

definition mutate_copied_config :: "path \<Rightarrow> pystr \<Rightarrow> (dbhost, unit) io" where
  "mutate_copied_config database_path scenario = (case statement_of scenario of
       None \<Rightarrow> raise (preparation_error ''unsupported configuration scenario'')
     | Some (n, c, v, i, p) \<Rightarrow>
         try_except
           (transaction database_path (update_exactly_one n c v [lit ''id'', c]
              (\<lambda>t r. sql_eq (field t r (lit ''id'')) (SqlText i) \<and> p (field t r c))
              ''baseline configuration does not match scenario expectations''))
           (catches SqliteError)
           (\<lambda>_. raise (preparation_error ''copied configuration could not be changed'')))"

text \<open>\<open>SELECT MIN(c)\<close>: the least value that is not \<open>NULL\<close>, or \<open>NULL\<close>\<close>

definition sql_min :: "sqlval list \<Rightarrow> sqlval" where
  "sql_min vs = (case filter (\<lambda>v. v \<noteq> SqlNull) vs of [] \<Rightarrow> SqlNull | w # ws \<Rightarrow> fold min ws w)"

definition tampered_target :: sqlval where
  "tampered_target = SqlText (lit ''tampered-target-id'')"

definition first_with_other_target :: "table \<Rightarrow> row \<Rightarrow> bool" where
  "first_with_other_target t r \<longleftrightarrow>
     sql_eq (field t r (lit ''sequence_no''))
       (sql_min (map (\<lambda>r'. field t r' (lit ''sequence_no'')) (tb_rows t)))
     \<and> sql_ne (field t r (lit ''target_id'')) tampered_target"

definition tamper_copied_audit :: "path \<Rightarrow> (dbhost, unit) io" where
  "tamper_copied_audit database_path =
     try_except
       (transaction database_path (update_exactly_one (lit ''audit_events'') (lit ''target_id'')
          tampered_target [lit ''sequence_no''] first_with_other_target
          ''baseline audit database has no suitable event to tamper''))
       (catches SqliteError)
       (\<lambda>_. raise (preparation_error ''copied audit database could not be changed''))"

section \<open>\<open>prepare_negative_lab\<close> and \<open>main\<close>\<close>

primrec copy_files :: "path \<Rightarrow> path list \<Rightarrow> ('d host, unit) io" where
  "copy_files destination [] = ret ()"
| "copy_files destination (p # ps) =
     seq (copy_private_file p (destination @ [path_name p])) (copy_files destination ps)"

definition damage_copy :: "path \<Rightarrow> pystr \<Rightarrow> (dbhost, unit) io" where
  "damage_copy destination scenario =
     (if scenario = lit ''tampered-audit''
      then tamper_copied_audit (destination @ [lit ''audit.db''])
      else mutate_copied_config (destination @ [lit ''config.db'']) scenario)"

definition prepare_negative_lab :: "negative_lab_config \<Rightarrow> (dbhost, unit) io" where
  "prepare_negative_lab config =
     bind (validate_paths config) (\<lambda>(source, destination).
     bind (validate_source source (nl_scenario config)) (\<lambda>source_files.
     seq (create_private_destination destination)
         (try_except
            (seq (copy_files destination source_files) (damage_copy destination (nl_scenario config)))
            (\<lambda>e. is_exception e \<and> \<not> catches NegativeLabPreparationError e)
            (\<lambda>_. raise (preparation_error
               ''scenario preparation failed; inspect and remove the destination'')))))"

definition negative_report :: "negative_lab_config \<Rightarrow> (stream \<times> pystr) list" where
  "negative_report config = map (Pair Stdout)
     [lit ''Negative lab scenario prepared.'', lit ''Scenario: '' @ nl_scenario config,
      lit ''Destination: '' @ path_text (nl_destination config)]"

definition negative_lab_main :: "negative_lab_config \<Rightarrow> (dbhost, int \<times> (stream \<times> pystr) list) io" where
  "negative_lab_main config =
     try_except (seq (prepare_negative_lab config) (ret (0, negative_report config)))
       (catches NegativeLabPreparationError)
       (\<lambda>error. ret (1, [(Stderr, lit ''Scenario preparation failed: '' @ exn_message error)]))"

end
