(* ===== verification/Negative_Run.thy ===== *)
theory Negative_Run
  imports Negative_Lab
begin

text \<open>
  What each step of the negative lab tool does to the host: questions change no file, the destination
  and the copies are new, a copy holds what its source holds, and the change is made to one row of
  one table of the copied database.
\<close>

section \<open>Questions\<close>

text \<open>
  A question changes no file, its answer depends on the files only, and without faults of the host
  it is answered.
\<close>

definition answers :: "('d host, bool) io \<Rightarrow> ('d host \<Rightarrow> bool) \<Rightarrow> bool" where
  "answers m f \<longleftrightarrow> (\<forall>h r h'. m h = (r, h') \<longrightarrow> same_files h h'
       \<and> (r = Inr (f h) \<or> (\<exists>e. r = Inl e \<and> catches OSError e)))
     \<and> (\<forall>h. h_faults h = [] \<longrightarrow> m h = (Inr (f h), h)) \<and> (\<forall>h h'. same_files h h' \<longrightarrow> f h' = f h)"

lemma answersD: "answers m f \<Longrightarrow> m h = (r, h') \<Longrightarrow> same_files h h'
    \<and> (r = Inr (f h) \<or> (\<exists>e. r = Inl e \<and> catches OSError e))"
  unfolding answers_def by blast

lemma answers_quiet: "answers m f \<Longrightarrow> h_faults h = [] \<Longrightarrow> m h = (Inr (f h), h)"
  unfolding answers_def by blast

lemma answers_same: "answers m f \<Longrightarrow> same_files h h' \<Longrightarrow> f h' = f h"
  unfolding answers_def by blast

lemma answers_bind:
  assumes "answers m f" "\<And>b. answers (n b) (g b)"
  shows "answers (bind m n) (\<lambda>h. g (f h) h)"
proof -
  have "same_files h h' \<and> (r = Inr (g (f h) h) \<or> (\<exists>e. r = Inl e \<and> catches OSError e))"
    if e: "bind m n h = (r, h')" for h r h'
  proof -
    obtain q h1 where q: "m h = (q, h1)" by fastforce
    from answersD [OF assms(1) q] consider "q = Inr (f h)" "same_files h h1"
      | e where "q = Inl e" "catches OSError e" "same_files h h1" by blast
    then show ?thesis
    proof cases
      case 1
      with e q have "n (f h) h1 = (r, h')" by (simp add: bind_apply)
      from answersD [OF assms(2) this] answers_same [OF assms(2) 1(2)] show ?thesis
        using same_files_trans [OF 1(2)] by simp
    next
      case (2 d)
      with e q have "r = Inl d" "h' = h1" by (simp_all add: bind_apply)
      with 2 show ?thesis by simp
    qed
  qed
  moreover have "bind m n h = (Inr (g (f h) h), h)" if "h_faults h = []" for h
    using that answers_quiet [OF assms(1)] answers_quiet [OF assms(2)] by (simp add: bind_apply)
  moreover have "g (f h') h' = g (f h) h" if "same_files h h'" for h h'
    using answers_same [OF assms(1) that] answers_same [OF assms(2) that] by simp
  ultimately show ?thesis unfolding answers_def by blast
qed

lemma answers_ret [simp]: "answers (ret b) (\<lambda>h. b)"
  by (simp add: answers_def)

lemma answers_either: "answers m f \<Longrightarrow> answers n g \<Longrightarrow> answers (either m n) (\<lambda>h. f h \<or> g h)"
  using answers_bind [of m f "\<lambda>b. if b then ret True else n" "\<lambda>b h. b \<or> g h"]
  by (simp add: either_def)

lemma answers_both: "answers m f \<Longrightarrow> answers n g \<Longrightarrow> answers (both m n) (\<lambda>h. f h \<and> g h)"
  using answers_bind [of m f "\<lambda>b. if b then n else ret False" "\<lambda>b h. b \<and> g h"]
  by (simp add: both_def)

lemma answers_negate: "answers m f \<Longrightarrow> answers (negate m) (\<lambda>h. \<not> f h)"
  using answers_bind [of m f "\<lambda>b. ret (\<not> b)" "\<lambda>b h. \<not> b"] by (simp add: negate_def)

lemma answers_os_call:
  fixes f :: "'a host \<Rightarrow> bool"
  assumes "\<And>h h'. same_files h h' \<Longrightarrow> f h' = f h"
  shows "answers (os_call (\<lambda>h. (Inr (f h), h))) f"
proof -
  have f: "f (h\<lparr>h_faults := fs\<rparr>) = f h" for h fs by (rule assms) simp
  show ?thesis unfolding answers_def
  proof (intro conjI allI impI)
    fix h h' :: "'a host" assume "same_files h h'"
    then show "f h' = f h" by (rule assms)
  qed (auto simp: os_call_def faultable_eq f)
qed

lemma questions_answered:
  "answers (path_is_symlink p) (\<lambda>h. \<exists>q. h_files h p = Some (Symlink q))"
  "answers (path_exists p) (\<lambda>h. exists_path h p)"
  "answers (path_is_file p) (\<lambda>h. \<exists>m c. stat_node h p = Some (Regular m c))"
  "answers (path_is_dir p) (\<lambda>h. \<exists>m. stat_node h p = Some (Directory m))"
  unfolding path_is_symlink_def path_exists_def path_is_file_def path_is_dir_def is_file_def node_cases_option
  by (rule answers_os_call, simp add: same_files_def,
      (rule answers_os_call, simp add: stat_same_files)+)

lemma stat_no_link: "\<forall>q. h_files h p \<noteq> Some (Symlink q) \<Longrightarrow> stat_node h p = h_files h p"
  by (simp add: stat_node_def follow_no_link)

lemma answers_cong: "answers m f \<Longrightarrow> (\<And>h. f h = g h) \<Longrightarrow> answers m g"
proof -
  assume "answers m f" and "\<And>h. f h = g h"
  moreover from this(2) have "f = g" by blast
  ultimately show "answers m g" by simp
qed

lemma regular_answered:
  "answers (both (path_is_file p) (negate (path_is_symlink p))) (\<lambda>h. \<exists>m c. h_files h p = Some (Regular m c))"
  by (rule answers_cong [OF answers_both [OF questions_answered(3) answers_negate [OF questions_answered(1)]]])
    (auto simp: stat_no_link)

lemma directory_answered:
  "answers (both (path_is_dir p) (negate (path_is_symlink p))) (\<lambda>h. \<exists>m. h_files h p = Some (Directory m))"
  by (rule answers_cong [OF answers_both [OF questions_answered(4) answers_negate [OF questions_answered(1)]]])
    (auto simp: stat_no_link)

lemma taken_answered:
  "answers (either (path_exists p) (path_is_symlink p)) (\<lambda>h. h_files h p \<noteq> None)"
  by (rule answers_cong [OF answers_either [OF questions_answered(2,1)]])
    (metis exists_path_def not_None_eq option.distinct(1) stat_no_link)

lemma all_safe_answered: "answers (all_safe ps) (\<lambda>h :: 'd host. \<forall>p \<in> set ps. \<exists>m c. h_files h p = Some (Regular m c))"
proof (induction ps)
  case (Cons p ps)
  have "answers (if b then all_safe ps else ret False)
      (\<lambda>h :: 'd host. b \<and> (\<forall>p \<in> set ps. \<exists>m c. h_files h p = Some (Regular m c)))" for b
    using Cons by (cases b) simp_all
  from answers_bind [OF regular_answered this] show ?case by simp
qed (simp add: answers_def)

section \<open>The checks\<close>

text \<open>Where the tool may put a lab: beside the baseline, under \<open>scenarios\<close>.\<close>

definition placed :: "path \<Rightarrow> path \<Rightarrow> bool" where
  "placed source destination \<longleftrightarrow> (\<exists>root n. source = root @ [lit ''runtime'', lit ''lab'']
     \<and> destination = root @ [lit ''runtime'', lit ''scenarios'', n])"

lemma path_name_Some: "path_name p = lit s \<Longrightarrow> s \<noteq> [] \<Longrightarrow> p = butlast p @ [lit s]"
  by (cases p rule: rev_cases) (auto simp: path_name_def lit_def)

lemma placedI:
  assumes "path_name source = lit ''lab''" "path_name (butlast source) = lit ''runtime''"
    "\<not> in_parents source destination" "butlast destination = butlast source @ [lit ''scenarios'']"
  shows "placed source destination"
proof -
  define root where "root = butlast (butlast source)"
  have b: "butlast source = root @ [lit ''runtime'']"
    unfolding root_def by (rule path_name_Some [OF assms(2)]) simp
  have "source = butlast source @ [lit ''lab'']" by (rule path_name_Some [OF assms(1)]) simp
  then have s: "source = root @ [lit ''runtime'', lit ''lab'']" unfolding b by simp
  have "destination \<noteq> []"
    using assms(4) by auto
  then have "destination = butlast destination @ [last destination]" by simp
  then have "destination = root @ [lit ''runtime'', lit ''scenarios'', last destination]"
    unfolding assms(4) b by simp
  with s show ?thesis unfolding placed_def by blast
qed

lemma validate_paths_run:
  assumes "validate_paths config h = (r, h')"
  shows "same_files h h' \<and> (case r of Inl e \<Rightarrow> exn_class e = NegativeLabPreparationError
    | Inr (source, destination) \<Rightarrow> nl_scenario config \<in> set scenarios
        \<and> resolve_path h (nl_source config) = Inr source
        \<and> resolve_path h (nl_destination config) = Inr destination
        \<and> placed source destination \<and> h_files h destination = None)"
proof (cases "nl_scenario config \<in> set scenarios")
  case False
  with assms show ?thesis by (auto simp: validate_paths_def seq_apply preparation_error_def)
next
  case True
  obtain q h1 where q: "resolve_both (nl_source config) (nl_destination config) h = (q, h1)" by fastforce
  then have h1: "h1 = h" by (simp add: resolve_both_def)
  show ?thesis
  proof (cases q)
    case (Inl e)
    with q have "exn_class e = NegativeLabPreparationError"
      by (auto simp: resolve_both_def resolve_path_def catchR_def bindR_def preparation_error_def split: sum.splits)
    with assms True q h1 Inl show ?thesis by (auto simp: validate_paths_def seq_apply bind_apply)
  next
    case (Inr sd)
    obtain s d where sd: "sd = (s, d)" by fastforce
    with q Inr have res: "resolve_path h (nl_source config) = Inr s" "resolve_path h (nl_destination config) = Inr d"
      by (auto simp: resolve_both_def catchR_def bindR_def split: sum.splits if_splits)
    let ?m = "either (path_exists d) (path_is_symlink d)"
    obtain t h2 where t: "?m h = (t, h2)" by fastforce
    note a = answersD [OF taken_answered t]
    consider (bad) e where "r = Inl e" "exn_class e = NegativeLabPreparationError" "h' = h"
      | (asked) "path_name s = lit ''lab''" "path_name (butlast s) = lit ''runtime''" "\<not> in_parents s d"
          "butlast d = butlast s @ [lit ''scenarios'']"
          "bind (try_except ?m (catches OSError)
             (\<lambda>_. raise (preparation_error ''destination path could not be inspected safely'')))
           (\<lambda>there. if there then raise destination_taken else ret (s, d)) h = (r, h')"
      using assms True q h1 Inr sd
      by (auto simp: validate_paths_def seq_apply bind_apply preparation_error_def raise_if_def split: if_splits)
    then show ?thesis
    proof cases
      case bad
      then show ?thesis by simp
    next
      case asked
      note p = placedI [OF asked(1-4)]
      show ?thesis
      proof (cases t)
        case (Inl e)
        with asked(5) t a show ?thesis by (auto simp: bind_apply try_except_def preparation_error_def)
      next
        case (Inr b)
        with asked(5) t a have "r = (if b then Inl destination_taken else Inr (s, d))" "h' = h2"
          by (auto simp: bind_apply try_except_def)
        with a Inr True res p show ?thesis by (auto simp: destination_taken_def preparation_error_def)
      qed
    qed
  qed
qed

text \<open>The files that are copied\<close>

definition copied_names :: "pystr \<Rightarrow> bool \<Rightarrow> pystr list" where
  "copied_names scenario audit_exists = (if scenario = lit ''tampered-audit'' then [lit ''audit.key'', lit ''audit.db'']
     else if audit_exists then required_files @ optional_files else required_files)"

lemma validate_source_run:
  assumes "validate_source source scenario h = (r, h')"
  shows "same_files h h' \<and> (case r of Inl e \<Rightarrow> exn_class e = NegativeLabPreparationError
    | Inr ps \<Rightarrow> (\<forall>p \<in> set ps. \<exists>m c. h_files h p = Some (Regular m c))
        \<and> (scenario = lit ''tampered-audit'' \<longrightarrow> exists_path h (source @ [lit ''audit.db'']))
        \<and> ps = map (\<lambda>n. source @ [n]) (copied_names scenario (exists_path h (source @ [lit ''audit.db'']))))"
proof -
  note N = preparation_error_def
  let ?a = "source @ [lit ''audit.db'']"
  obtain q h1 where q: "both (path_is_dir source) (negate (path_is_symlink source)) h = (q, h1)" by fastforce
  note a1 = answersD [OF directory_answered q]
  show ?thesis
  proof (cases "q = Inr True")
    case False
    with assms q a1 show ?thesis
      by (cases q) (auto simp: validate_source_def bind_apply seq_apply try_except_def raise_if_def N)
  next
    case True
    obtain x h2 where x: "path_exists ?a h1 = (x, h2)" by fastforce
    note a2 = answersD [OF questions_answered(2) x]
    have s2: "same_files h h2" using a1 a2 same_files_trans by blast
    have ex: "exists_path h1 ?a = exists_path h ?a" using a1 stat_same_files by blast
    show ?thesis
    proof (cases x)
      case (Inl e)
      with assms q x True a2 s2 show ?thesis
        by (auto simp: validate_source_def bind_apply seq_apply try_except_def raise_if_def N)
    next
      case (Inr b)
      with a2 ex have b: "b = exists_path h ?a" by simp
      show ?thesis
      proof (cases "source_filenames scenario b")
        case (Inl e)
        then have "exn_class e = NegativeLabPreparationError"
          by (auto simp: source_filenames_def N split: if_splits)
        with assms q x True Inr Inl s2 show ?thesis
          by (auto simp: validate_source_def bind_apply seq_apply try_except_def raise_if_def)
      next
        case names: (Inr ns)
        then have ns: "ns = copied_names scenario b" "scenario = lit ''tampered-audit'' \<longrightarrow> b"
          by (auto simp: source_filenames_def copied_names_def split: if_splits)
        let ?ps = "map (\<lambda>n. source @ [n]) ns"
        obtain y h3 where y: "all_safe ?ps h2 = (y, h3)" by fastforce
        note a3 = answersD [OF all_safe_answered y]
        have s3: "same_files h h3" using s2 a3 same_files_trans by blast
        have r: "h' = h3" "r = (if y = Inr True then Inr ?ps
            else Inl (preparation_error ''source runtime is incomplete or contains unsafe files''))"
          using assms q x True Inr names y a3
          by (auto simp: validate_source_def bind_apply seq_apply try_except_def raise_if_def Let_def split: if_splits)
        have "\<forall>p \<in> set ?ps. \<exists>m c. h_files h p = Some (Regular m c)" if "y = Inr True"
          using a3 that s2 by (simp add: same_files_def)
        with r s3 ns b show ?thesis by (auto simp: N)
      qed
    qed
  qed
qed

section \<open>The destination\<close>

lemma catches_FileExists: "catches OSError e \<Longrightarrow> exn_class
    (if catches FileExistsError e then destination_taken else preparation_error m) = NegativeLabPreparationError"
  by (simp add: destination_taken_def preparation_error_def)

lemma create_destination_run:
  assumes "create_private_destination p h = (r, h')" "h_files h p = None" "p \<noteq> []"
  shows "adds_above p h h' \<and> (case r of Inl e \<Rightarrow> exn_class e = NegativeLabPreparationError
    | Inr _ \<Rightarrow> h_files h' p = Some (Directory 0x1C0))"
proof -
  let ?m = "seq (mkdir_parents 0x1FF (butlast p)) (seq (os_mkdir p 0x1C0) (os_chmod p 0x1C0))"
  have above: "adds_above (butlast p) i j \<Longrightarrow> adds_above p i j" for i j :: "'a host"
    by (simp add: adds_above_def leads_to_butlast)
  obtain q h3 where q: "?m h = (q, h3)" by fastforce
  have "adds_above p h h3 \<and> (case q of Inl e \<Rightarrow> catches OSError e | Inr _ \<Rightarrow> h_files h3 p = Some (Directory 0x1C0))"
    using q
  proof (cases rule: seq_run)
    case (failed e)
    with mkdir_parents_run [OF failed(1)] above show ?thesis by simp
  next
    case 1: (went u h1)
    with mkdir_parents_run [OF 1(1)] above have a1: "adds_above (butlast p) h h1" by simp
    have "\<not> leads_to p (butlast p)" using leads_to_length [of p "butlast p"] assms(3) by (cases p) auto
    with a1 assms(2) have n1: "h_files h1 p = None" unfolding adds_above_def by metis
    from 1(2) show ?thesis
    proof (cases rule: seq_run)
      case (failed e)
      with os_mkdir_run [OF failed(1)] adds_above_here [OF failed(1)] above [OF a1] show ?thesis
        by (auto intro: adds_above_trans)
    next
      case 2: (went v h2)
      note a2 = adds_above_trans [OF above [OF a1] adds_above_here [OF 2(1)]]
      from os_mkdir_run [OF 2(1)] 2 obtain m where m: "h_files h2 p = Some (Directory m)" by auto
      from 2(2) m have "(q = Inl (err OSError ''EIO'') \<and> same_files h2 h3)
          \<or> (q = Inr () \<and> h_files h3 = (h_files h2)(p \<mapsto> Directory 0x1C0) \<and> h_umask h3 = h_umask h2
             \<and> h_entropy h3 = h_entropy h2)"
        by (auto simp: os_chmod_def os_call_def faultable_eq follow_no_link put_node_def)
      then show ?thesis
        using a2 adds_above_update [OF a2 assms(2), of h3]
        by (auto simp: adds_above_def grows_def same_files_def)
    qed
  qed
  with assms(1) q catches_FileExists show ?thesis
    by (cases q) (auto simp: create_private_destination_def try_except_def)
qed

section \<open>Copies\<close>

lemma stream_read_run:
  "stream_read c pos n h = (r, h') \<Longrightarrow> same_files h h' \<and> (case r of Inl e \<Rightarrow> catches OSError e
     | Inr chunk \<Rightarrow> chunk = take n (drop pos (content_bytes c)))"
  by (auto simp: stream_read_def os_call_def faultable_eq)

lemma stream_write_run:
  assumes "stream_write d c stop off n h = ((r, stop', off'), h')" "holds d m c off h0 h" "off \<le> stop"
  shows "off' \<le> stop' \<and> holds d m c off' h0 h'
    \<and> (case r of Inl e \<Rightarrow> catches OSError e | Inr _ \<Rightarrow> stop' = stop + n)"
proof (cases "stop + n \<le> off + 8192")
  case True
  with assms show ?thesis by (auto simp: stream_write_def)
next
  case False
  obtain q off1 h1 where q: "flush_to d c stop off h = ((q, off1), h1)" by (metis prod.exhaust)
  note f = flush_to_run [OF q assms(2,3)]
  obtain w off2 h2 where w: "drain 8192 d c (stop + n) off1 h1 = ((w, off2), h2)" by (metis prod.exhaust)
  have "holds d m c off1 h0 h1" "off1 \<le> stop + n" using f by simp_all
  note g = drain_run [OF w this]
  show ?thesis
  proof (cases q)
    case (Inl e)
    with assms(1) False q f show ?thesis by (auto simp: stream_write_def)
  next
    case (Inr u)
    with assms(1) False q w f g show ?thesis by (cases w) (auto simp: stream_write_def)
  qed
qed

lemma copy_stream_run:
  assumes "copy_stream d c stop off h = ((r, stop', off'), h')" "holds d m c off h0 h" "off \<le> stop"
  shows "off' \<le> stop' \<and> holds d m c off' h0 h'
    \<and> (case r of Inl e \<Rightarrow> catches OSError e | Inr _ \<Rightarrow> length (content_bytes c) \<le> stop')"
  using assms
proof (induction d c stop off h rule: copy_stream.induct)
  case (1 d c stop off h)
  obtain q h1 where q: "stream_read c stop copy_bufsize h = (q, h1)" by fastforce
  note a = stream_read_run [OF q]
  have h1: "holds d m c off h0 h1" using "1.prems"(2) a holds_same_files by blast
  show ?case
  proof (cases "\<exists>chunk. q = Inr chunk \<and> chunk \<noteq> []")
    case False
    with "1.prems" q a h1 show ?thesis
      by (cases q) (auto simp: copy_stream.simps [of d c stop off h] copy_bufsize_def)
  next
    case True
    then obtain chunk where c: "q = Inr chunk" "chunk \<noteq> []" by blast
    obtain w stop2 off2 h2 where w: "stream_write d c stop off (length chunk) h1 = ((w, stop2, off2), h2)"
      by (metis prod.exhaust)
    note b = stream_write_run [OF w h1 "1.prems"(3)]
    show ?thesis
    proof (cases w)
      case (Inl e)
      with "1.prems" q c w b show ?thesis by (auto simp: copy_stream.simps [of d c stop off h])
    next
      case (Inr u)
      have "copy_stream d c stop2 off2 h2 = ((r, stop', off'), h')"
        using "1.prems"(1) q c w Inr by (simp add: copy_stream.simps [of d c stop off h])
      from "1.IH" [OF q [symmetric] c(1) c(2) w [symmetric] refl Inr refl this] b show ?thesis by simp
    qed
  qed
qed

lemma try_finally_value:
  "m h = (q, h1) \<Longrightarrow> k h1 = (u, h2) \<Longrightarrow>
     try_finally m k h = (case u of Inl e \<Rightarrow> Inl e | Inr _ \<Rightarrow> q, h2)"
  by (cases q; cases u) (simp_all add: try_finally_def finally_with_def bind_apply)

lemma write_copy_run:
  assumes "write_copy d c h = (r, h')" "holds d m c 0 h0 h"
  shows "(\<exists>off. holds d m c off h0 h' \<and> (r = Inr () \<longrightarrow> length (content_bytes c) \<le> off))
    \<and> (case r of Inl e \<Rightarrow> catches OSError e | Inr _ \<Rightarrow> True)"
proof -
  obtain q stop off h1 where q: "copy_stream d c 0 0 h = ((q, stop, off), h1)" by (metis prod.exhaust)
  note a = copy_stream_run [OF q assms(2)]
  show ?thesis
  proof (cases q)
    case (Inl e)
    obtain u h2 where u: "close_stream d c stop off h1 = (u, h2)" by fastforce
    from close_stream_run [OF u] a have cl: "\<exists>off. holds d m c off h0 h2"
      "case u of Inl e \<Rightarrow> catches OSError e | Inr _ \<Rightarrow> True" by auto
    from try_finally_value [where m = "raise e :: (_, unit) io" and k = "close_stream d c stop off", OF _ u, of h1 "Inl e"] assms(1) q Inl
    have r: "r = (case u of Inl e' \<Rightarrow> Inl e' | Inr _ \<Rightarrow> Inl e)" "h' = h2" by (simp_all add: write_copy_def)
    have "catches OSError e" using a Inl by simp
    then have "\<exists>d. r = Inl d \<and> catches OSError d" using r(1) cl(2) by (cases u) simp_all
    with cl(1) r(2) show ?thesis by auto
  next
    case (Inr v)
    obtain w off2 h2 where w: "flush_to d c stop off h1 = ((w, off2), h2)" by (metis prod.exhaust)
    from a have "holds d m c off h0 h1" "off \<le> stop" by simp_all
    note b = flush_to_run [OF w this]
    obtain x h3 where x: "seq (lift w) (os_fsync d) h2 = (x, h3)" by fastforce
    have f: "same_files h2 h3" "case x of Inl e \<Rightarrow> catches OSError e | Inr _ \<Rightarrow> w = Inr ()"
      using x b os_close_run(2) [of d h2 x h3] by (cases w; auto simp: seq_apply split: sum.splits)+
    obtain u h4 where u: "close_stream d c stop off2 h3 = (u, h4)" by fastforce
    have "holds d m c off2 h0 h3" "off2 \<le> stop" using b f(1) holds_same_files by blast+
    note cl = close_stream_run [OF u this]
    have r: "h' = h4" "r = (case u of Inl e \<Rightarrow> Inl e | Inr _ \<Rightarrow> x)"
      using try_finally_value [where m = "seq (lift w) (os_fsync d)" and k = "close_stream d c stop off2", OF x u] assms(1) q Inr w
      by (simp_all add: write_copy_def)
    from cl obtain off3 where o: "off2 \<le> off3" "holds d m c off3 h0 h4" by blast
    have "length (content_bytes c) \<le> off3" if "r = Inr ()"
      using that r(2) f(2) b o(1) a Inr by (auto split: sum.splits)
    moreover have "case r of Inl e \<Rightarrow> catches OSError e | Inr _ \<Rightarrow> True"
      using r(2) f(2) cl by (auto split: sum.splits)
    ultimately show ?thesis using o(2) r(1) by blast
  qed
qed

lemma empty_content: "content_bytes c = [] \<Longrightarrow> c = Bytes []"
  by (cases c) auto

lemma open_binary_run:
  "open_binary p h = (r, h') \<Longrightarrow> h_files h p = Some (Regular m c) \<Longrightarrow>
     same_files h h' \<and> (r = Inr c \<or> (\<exists>e. r = Inl e \<and> catches OSError e))"
  by (auto simp: open_binary_def os_call_def faultable_eq stat_no_link)

lemma copy_private_file_run:
  assumes "copy_private_file src dst h = (r, h')" "h_files h src = Some (Regular ms c)"
  shows "confined {dst} h h' \<and> grows h h' \<and> (case r of Inl e \<Rightarrow> exn_class e = NegativeLabPreparationError
    | Inr _ \<Rightarrow> h_files h dst = None \<and> h_files h' dst = Some (Regular 0x180 c))"
proof -
  have N: "exn_class copy_failed = NegativeLabPreparationError"
    by (simp add: copy_failed_def preparation_error_def)
  obtain q h1 where q: "os_create dst 0x180 h = (q, h1)" by fastforce
  show ?thesis
  proof (cases q)
    case (Inl e)
    with q have "same_files h h1" "catches OSError e"
      by (auto simp: os_create_def os_call_def faultable_eq split: if_splits)
    with assms(1) q Inl N show ?thesis
      by (auto simp: copy_private_file_def bind_apply try_except_def same_files_confined same_files_grows)
  next
    case (Inr d)
    with q have d: "d = dst" "h_files h dst = None" and
      f1: "h_files h1 = (h_files h)(dst \<mapsto> Regular (0x180 AND NOT (h_umask h)) (Bytes []))" "h_umask h1 = h_umask h"
        "h_entropy h1 = h_entropy h"
      by (auto simp: os_create_def os_call_def faultable_eq put_node_def split: if_splits)
    have src: "src \<noteq> dst" using d(2) assms(2) by auto
    have conf: "confined {dst} h i \<Longrightarrow> confined {dst} h i \<and> grows h i" for i :: "'a host"
      using confined_grows [of "{dst}" h i] d(2) by simp
    have c1: "confined {dst} h h1" using f1 by (simp add: confined_def)
    obtain x h2 where x: "seq (os_fchmod dst 0x180) (open_binary src) h1 = (x, h2)" by fastforce
    have x2: "confined {dst} h h2 \<and> (case x of Inl e \<Rightarrow> catches OSError e
        | Inr c' \<Rightarrow> c' = c \<and> holds dst 0x180 c 0 h h2)"
      using x
    proof (cases rule: seq_run)
      case (failed e)
      then have "same_files h1 h2" "catches OSError e"
        using f1(1) by (auto simp: os_fchmod_def os_call_def faultable_eq)
      with failed c1 show ?thesis by (auto intro: confined_trans same_files_confined)
    next
      case (went y g)
      then have g: "holds dst 0x180 c 0 h g"
        using f1 empty_content [of c]
        by (auto simp: os_fchmod_def os_call_def faultable_eq put_node_def holds_def content_prefix_0)
      then have "h_files g src = Some (Regular ms c)" using src assms(2) by (simp add: holds_def)
      note o = open_binary_run [OF went(2) this]
      have "holds dst 0x180 c 0 h h2" using holds_same_files [OF g] o by simp
      with holds_confined [OF this] o show ?thesis by auto
    qed
    show ?thesis
    proof (cases x)
      case (Inl e)
      obtain u h3 where u: "close_quietly dst h2 = (u, h3)" by fastforce
      note cl = close_quietly_run [OF u]
      have "r = Inl copy_failed" "h' = h3"
        using assms(1) q Inr d x x2 u cl Inl
        by (simp_all add: copy_private_file_def bind_apply try_except_def seq_apply)
      with x2 cl conf [of h3] N show ?thesis by (auto intro: confined_trans same_files_confined)
    next
      case x1: (Inr c')
      with x2 have c': "c' = c" and h2: "holds dst 0x180 c 0 h h2" by simp_all
      obtain y h3 where y: "os_call (ret ()) h2 = (y, h3 :: 'a host)" by fastforce
      have y3: "same_files h2 h3" "isl y \<longrightarrow> catches OSError (projl y)"
        using y by (auto simp: os_call_def faultable_eq)
      note h3 = holds_same_files [OF h2 y3(1)]
      show ?thesis
      proof (cases y)
        case (Inl e)
        obtain u h4 where u: "close_quietly src h3 = (u, h4)" by fastforce
        obtain v h5 where v: "close_quietly dst h4 = (v, h5)" by fastforce
        note cl = close_quietly_run [OF u] close_quietly_run [OF v]
        have "r = Inl copy_failed" "h' = h5"
          using assms(1) q Inr d x y y3 u v cl Inl x1
          by (simp_all add: copy_private_file_def bind_apply try_except_def seq_apply)
        moreover have "holds dst 0x180 c 0 h h5"
          using holds_same_files [OF h3] cl same_files_trans by blast
        ultimately show ?thesis using conf [OF holds_confined] N by auto
      next
        case y1: (Inr b)
        obtain w h4 where w: "write_copy dst c h3 = (w, h4)" by fastforce
        obtain u h5 where u: "os_close src h4 = (u, h5)" by fastforce
        note cl = os_close_run(1) [OF u]
        from write_copy_run [OF w h3] obtain off where off: "holds dst 0x180 c off h h4"
          "w = Inr () \<longrightarrow> length (content_bytes c) \<le> off" "case w of Inl e \<Rightarrow> catches OSError e | Inr _ \<Rightarrow> True"
          by blast
        have "holds dst 0x180 c off h h5" using off(1) cl holds_same_files by blast
        note h5 = this conf [OF holds_confined [OF this]]
        define z where "z = (case u of Inl e \<Rightarrow> Inl e | Inr _ \<Rightarrow> w)"
        have z: "case z of Inl e \<Rightarrow> catches OSError e | Inr _ \<Rightarrow> w = Inr ()"
          using cl off(3) by (auto simp: z_def split: sum.splits)
        have "try_finally (write_copy dst c) (os_close src) h3 = (z, h5)"
          using try_finally_value [where m = "write_copy dst c" and k = "os_close src", OF w u] by (simp add: z_def)
        with assms(1) q Inr d x y x1 y1 c' z
        have "r = (case z of Inl e \<Rightarrow> Inl copy_failed | Inr _ \<Rightarrow> z)" "h' = h5"
          by (auto simp: copy_private_file_def bind_apply try_except_def seq_apply split: sum.splits)
        with h5 z off(2) d(2) N show ?thesis
          by (auto simp: holds_def content_prefix_def split: sum.splits)
      qed
    qed
  qed
qed

lemma copy_files_run:
  assumes "copy_files dst ps h = (r, h')" "\<forall>p \<in> set ps. \<exists>m c. h_files h p = Some (Regular m c)"
  shows "confined ((\<lambda>p. dst @ [path_name p]) ` set ps) h h' \<and> grows h h'
    \<and> (case r of Inl e \<Rightarrow> exn_class e = NegativeLabPreparationError
       | Inr _ \<Rightarrow> (\<forall>p \<in> set ps. h_files h (dst @ [path_name p]) = None)
           \<and> (\<forall>p m c. p \<in> set ps \<longrightarrow> h_files h p = Some (Regular m c) \<longrightarrow>
                h_files h' (dst @ [path_name p]) = Some (Regular 0x180 c)))"
  using assms
proof (induction ps arbitrary: h)
  case (Cons p ps)
  let ?d = "dst @ [path_name p]" and ?P = "(\<lambda>p. dst @ [path_name p]) ` set ps"
  from Cons.prems(2) obtain m c where p: "h_files h p = Some (Regular m c)" by auto
  from Cons.prems(1) have "seq (copy_private_file p ?d) (copy_files dst ps) h = (r, h')" by simp
  then show ?case
  proof (cases rule: seq_run)
    case (failed e)
    from copy_private_file_run [OF failed(1) p] failed(2) confined_mono [of "{?d}" h h' "insert ?d ?P"]
    show ?thesis by simp
  next
    case (went u h1)
    from copy_private_file_run [OF went(1) p] have a: "confined {?d} h h1" "grows h h1"
      "h_files h1 ?d = Some (Regular 0x180 c)" "h_files h ?d = None" by simp_all
    have kept: "h_files h q = Some n \<Longrightarrow> h_files h1 q = Some n" for q n by (rule growsD [OF a(2)])
    then have "\<forall>p \<in> set ps. \<exists>m c. h_files h1 p = Some (Regular m c)" using Cons.prems(2) by fastforce
    note ih = Cons.IH [OF went(2) this]
    have "confined (insert ?d ?P) h h'"
      by (rule confined_trans [OF confined_mono [OF a(1)] confined_mono]) (use ih in auto)
    moreover have "grows h h'" using grows_trans [OF a(2)] ih by blast
    moreover have "h_files h' ?d = Some (Regular 0x180 c)" using growsD [OF _ a(3)] ih by blast
    moreover have "h_files h q = None" if "h_files h1 q = None" for q
      using kept [of q] that by (cases "h_files h q") auto
    ultimately show ?thesis using ih kept p a(4) by (cases r) auto
  qed
qed auto

section \<open>Changing one row\<close>

lemma connected_confined:
  assumes "with_db keep p m h = (r, h')" "h_files h p = Some (Regular x c)"
  shows "confined {p} h h' \<and> (\<exists>c'. h_files h' p = Some (Regular x c'))"
proof -
  obtain q h1 where q: "open_db p h = (q, h1)" by fastforce
  then have a: "same_files h h1" "\<And>y. q = Inr y \<Longrightarrow> fst y = p"
    using assms(2) by (auto simp: open_db_def faultable_eq follow_regular bindR_def split: sum.splits)
  then have f: "h_files h1 p = Some (Regular x c)" using assms(2) by (simp add: same_files_def)
  have save: "confined {p} h ((save_db p d h1)\<lparr>h_faults := fs\<rparr>)
      \<and> (\<exists>c'. h_files ((save_db p d h1)\<lparr>h_faults := fs\<rparr>) p = Some (Regular x c'))"
    "confined {p} h (h1\<lparr>h_faults := fs\<rparr>)" for d fs
    using a(1) f by (auto simp: save_db_def put_node_def confined_def same_files_def)
  show ?thesis
  proof (cases q)
    case (Inl e)
    with assms(1) q a f show ?thesis by (auto simp: with_db_def bind_apply same_files_confined)
  next
    case (Inr y)
    with a obtain d where y: "y = (p, d)" by (cases y) auto
    with assms(1) q Inr save f show ?thesis
      by (auto simp: with_db_def bind_apply split: sum.splits prod.splits)
  qed
qed

definition updated :: "(row \<Rightarrow> bool) \<Rightarrow> nat \<Rightarrow> sqlval \<Rightarrow> row list \<Rightarrow> row list" where
  "updated p k v rows = map (\<lambda>r. if p r then r[k := v] else r) rows"

lemma set_field_made:
  assumes "distinct (map fst cols)" "length r = length cols" "k < length cols"
  shows "set_field (made cols uq rows) (fst (cols ! k)) v r = r[k := v]"
proof (rule nth_equalityI)
  fix i assume "i < length (set_field (made cols uq rows) (fst (cols ! k)) v r)"
  then have "i < length cols" using assms(2) by (simp add: set_field_def)
  then show "set_field (made cols uq rows) (fst (cols ! k)) v r ! i = r[k := v] ! i"
    using assms nth_eq_iff_index_eq [OF assms(1), of i k] by (simp add: set_field_def nth_list_update)
qed (use assms in \<open>simp add: set_field_def\<close>)

lemma update_each_made:
  assumes "distinct (map fst cols)" "k < length cols" "v \<noteq> SqlNull" "\<forall>u \<in> set uq. fst (cols ! k) \<notin> set u"
    "\<forall>r \<in> set rows. length r = length cols"
  shows "update_each n (fst (cols ! k)) v p (made cols uq rs) past rows = Inr (past @ updated p k v rows)"
  using assms(5)
proof (induction rows arbitrary: past)
  case (Cons r rows)
  let ?t = "made cols uq (past @ rows)"
  have t: "(made cols uq rs)\<lparr>tb_rows := past @ rows\<rparr> = ?t" by (simp add: made_def)
  have "field ?t (r[k := v]) (fst (cols ! k)) = v"
    using field_made [OF assms(1), of "r[k := v]" k uq] Cons.prems assms(2) by simp
  moreover have "find (\<lambda>c. fst (cols ! k) \<in> set c \<and> duplicates ?t c (r[k := v])) (rev uq) = None"
    using assms(4) by (auto simp: find_None_iff)
  ultimately have "update_violation n ?t (fst (cols ! k)) (r[k := v]) = None"
    using assms(3) by (simp add: update_violation_def)
  moreover have "set_field (made cols uq rs) (fst (cols ! k)) v r = r[k := v]"
    using set_field_made [OF assms(1) _ assms(2)] Cons.prems by simp
  ultimately show ?case using Cons t by (simp add: updated_def)
qed (simp add: updated_def)

text \<open>The statement of a scenario in its transaction, on a table made by the program\<close>

lemma transaction_update:
  assumes "transaction p (update_exactly_one n (fst (cols ! k)) v names pr m) h = (r, h')"
    "table_rows n cols uq p h rows" "distinct (map fst cols)" "k < length cols"
    "set names \<subseteq> set (map fst cols)" "bind_value v = Inr ()" "v \<noteq> SqlNull"
    "\<forall>u \<in> set uq. fst (cols ! k) \<notin> set u"
  shows "only_db p h h' \<and> (\<forall>n'. n' \<noteq> n \<longrightarrow> table_at h' p n' = table_at h p n')
    \<and> (r = Inr () \<and> length (filter (pr (made cols uq rows)) rows) = 1
        \<and> table_rows n cols uq p h' (updated (pr (made cols uq rows)) k v rows)
      \<or> (\<exists>e. r = Inl e \<and> table_rows n cols uq p h' rows
          \<and> (e = sql_error \<and> h_faults h \<noteq> []
             \<or> e = preparation_error m \<and> length (filter (pr (made cols uq rows)) rows) \<noteq> 1)))"
proof -
  let ?t = "made cols uq rows"
  let ?hit = "pr ?t"
  from assms(2) have t: "table_at h p n = Some ?t" "\<forall>r \<in> set rows. length r = length cols"
    by (simp_all add: table_rows_def)
  then obtain d where d: "db_at h p = Some d" "map_of (db_tables d) n = Some ?t"
    by (auto simp: table_at_def split: option.splits)
  let ?t' = "made cols uq (updated ?hit k v rows)"
  let ?d' = "d\<lparr>db_tables := AList.update n ?t' (db_tables d)\<rparr>"
  have len: "\<forall>r \<in> set (updated ?hit k v rows). length r = length cols"
    using t(2) by (auto simp: updated_def)
  have names: "set (fst (cols ! k) # names) \<subseteq> set (column_names ?t)" using assms(4,5) by simp
  have up: "(q = Inr (length (filter ?hit rows)) \<and> c_db c' = ?d' \<or> q = Inl sql_error \<and> c_db c' = d \<and> fs \<noteq> [])
      \<and> (fs = [] \<longrightarrow> c_faults c' = [])"
    if "update_rows n (fst (cols ! k)) v names pr \<lparr>c_db = d, c_faults = fs\<rparr> = (q, c')" for q c' fs
  proof -
    let ?f = "\<lambda>t. case update_each n (fst (cols ! k)) v (pr t) t [] (tb_rows t) of
        Inl e \<Rightarrow> (Inl e, t) | Inr rs \<Rightarrow> (Inr (length (filter (pr t) (tb_rows t))), t\<lparr>tb_rows := rs\<rparr>)"
    have f: "?f ?t = (Inr (length (filter ?hit rows)), ?t')"
      using update_each_made [OF assms(3,4,7,8) t(2)] by (simp add: made_def)
    from that have "with_table n (fst (cols ! k) # names) ?f \<lparr>c_db = d, c_faults = fs\<rparr> = (q, c')"
      by (simp add: update_rows_def seq_apply assms(6))
    from with_table_run [OF this, of ?t] d(2) names f show ?thesis by simp
  qed
  from assms(1) [unfolded transaction_def] d(1) show ?thesis
  proof (cases rule: with_db_run)
    case unopened
    with d t show ?thesis by (simp add: table_at_def table_rows_def)
  next
    case (ran fs c)
    obtain q c1 where q: "update_rows n (fst (cols ! k)) v names pr \<lparr>c_db = d, c_faults = fs\<rparr> = (q, c1)" by fastforce
    note u = up [OF q]
    show ?thesis
    proof (cases "q = Inr 1")
      case False
      with q ran(1) u have r: "c = c1" "r = Inl (case q of Inl e \<Rightarrow> e | Inr _ \<Rightarrow> preparation_error m)"
        by (auto simp: update_exactly_one_def bind_apply split: sum.splits)
      with ran have "db_at h' p = Some d" "only_db p h h'" using u by auto
      with r u ran(2) d t False show ?thesis by (auto simp: table_at_def table_rows_def split: sum.splits)
    next
      case True
      with u have u': "length (filter ?hit rows) = 1" "c_db c1 = ?d'" by auto
      obtain w c2 where w: "commit c1 = (w, c2)" by fastforce
      from ran(1) q True w have r: "r = (case w of Inl e \<Rightarrow> Inl e | Inr _ \<Rightarrow> Inr ())" "c = c2"
        by (auto simp: update_exactly_one_def bind_apply seq_apply raise_if_def split: sum.splits)
      note cm = commit_run [OF w]
      show ?thesis
      proof (cases w)
        case (Inl e)
        with r cm ran u d t show ?thesis by (auto simp: table_at_def table_rows_def)
      next
        case (Inr x)
        with r cm ran u' have "db_at h' p = Some ?d'" by simp
        then have "table_at h' p n = Some ?t'" "\<forall>n'. n' \<noteq> n \<longrightarrow> table_at h' p n' = table_at h p n'"
          using d by (auto simp: table_at_def update_conv)
        with r Inr cm ran u u' len show ?thesis by (auto simp: table_rows_def)
      qed
    qed
  qed
qed

section \<open>Errors of the change\<close>

lemma raisesD: "raises P m \<Longrightarrow> m w = (Inl e, w') \<Longrightarrow> P e"
  unfolding raises_def by (metis fst_conv)

lemma raisesI: "(\<And>w e w'. m w = (Inl e, w') \<Longrightarrow> P e) \<Longrightarrow> raises P m"
  unfolding raises_def by (metis prod.collapse)

lemma raises_bind: "raises P m \<Longrightarrow> (\<And>x. raises P (k x)) \<Longrightarrow> raises P (bind m k)"
  by (rule raisesI) (auto simp: bind_apply dest: raisesD split: prod.splits sum.splits)

lemma raises_seq: "raises P m \<Longrightarrow> raises P k \<Longrightarrow> raises P (seq m k)"
  by (rule raisesI) (auto simp: seq_apply dest: raisesD split: prod.splits sum.splits)

lemma raises_lift: "(\<And>e. r = Inl e \<Longrightarrow> P e) \<Longrightarrow> raises P (lift r)"
  by (auto simp: raises_def)

definition change_error :: "exn \<Rightarrow> bool" where
  "change_error e \<longleftrightarrow> catches SqliteError e \<or> exn_class e = NegativeLabPreparationError"

lemma change_error_simps [simp]:
  "change_error sql_error" "change_error (preparation_error m)" "change_error (constraint_failed k n cols)"
  by (auto simp: change_error_def sql_error_def preparation_error_def constraint_failed_def catches_def)

lemma update_each_error: "update_each n c v p t past rows = Inl e \<Longrightarrow> change_error e"
  by (induction rows arbitrary: past)
    (auto simp: update_violation_def split: if_splits option.splits)

lemma raises_execute: "(\<And>db e. fst (f db) = Inl e \<Longrightarrow> change_error e) \<Longrightarrow> raises change_error (execute f)"
  by (auto simp: raises_def execute_def split: list.splits bool.splits prod.splits)
    (metis fst_conv)+

lemma raises_update:
  assumes "bind_value v = Inr ()"
  shows "raises change_error (update_exactly_one n c v cols p m)"
  unfolding update_exactly_one_def update_rows_def with_table_def
  by (intro raises_bind raises_seq raises_lift raises_execute)
    (use assms in \<open>auto simp: raise_if_def update_each_error split: if_splits option.splits sum.splits\<close>)

lemma raises_transaction:
  assumes "raises change_error m"
  shows "raises change_error (transaction p m)"
proof -
  have o: "raises change_error (open_db p)"
    by (auto simp: raises_def open_db_def faultable_def bindR_def change_error_def catches_def sql_error_def
        elim!: load_content.elims split: list.splits bool.splits sum.splits option.splits node.splits if_splits)
  have m: "raises change_error (bind m (\<lambda>x. seq commit (ret x)))"
    by (intro raises_bind raises_seq assms) (auto simp: commit_def raises_def execute_def split: list.splits bool.splits)
  have "change_error e" if "with_db False p n h = (Inl e, h')" "raises change_error n" for n :: "(conn, 'a) io" and e h h'
  proof -
    obtain q h1 where q: "open_db p h = (q, h1)" by fastforce
    show ?thesis
    proof (cases q)
      case (Inl d)
      with that(1) q o show ?thesis by (auto simp: with_db_def bind_apply raises_def dest!: spec [of _ h])
    next
      case (Inr y)
      with that q show ?thesis
        by (cases y) (auto simp: with_db_def bind_apply raises_def split: prod.splits sum.splits, metis fst_conv)
    qed
  qed
  with m show ?thesis unfolding raises_def transaction_def by (metis prod.collapse)
qed

lemma fixed_values:
  "statement_of scenario = Some (n, c, v, i, q) \<Longrightarrow> bind_value v = Inr () \<and> v \<noteq> SqlNull"
  "bind_value tampered_target = Inr ()"
  using encodable_lit
  by (auto simp: statement_of_def tampered_target_def bad_host_key_def split: if_splits)

lemma damage_error:
  "raises (\<lambda>e. exn_class e = NegativeLabPreparationError) (damage_copy dst scenario)"
proof -
  have tried: "raises (\<lambda>e. exn_class e = NegativeLabPreparationError)
      (try_except m (catches SqliteError) (\<lambda>_. raise (preparation_error t)))"
    if "raises change_error m" for m :: "(dbhost, unit) io" and t
  proof (rule raisesI)
    fix h e h' assume "try_except m (catches SqliteError) (\<lambda>_. raise (preparation_error t)) h = (Inl e, h')"
    then show "exn_class e = NegativeLabPreparationError"
      using raisesD [OF that] by (auto simp: try_except_eq_iff change_error_def preparation_error_def)
  qed
  show ?thesis
  proof (cases "scenario = lit ''tampered-audit''")
    case True
    then show ?thesis unfolding damage_copy_def tamper_copied_audit_def
      by (simp only: if_True refl) (intro tried raises_transaction raises_update fixed_values(2))
  next
    case False
    show ?thesis
    proof (cases "statement_of scenario")
      case None
      with False show ?thesis by (auto simp: damage_copy_def mutate_copied_config_def raises_def preparation_error_def)
    next
      case (Some x)
      obtain n c v i q where x: "x = (n, c, v, i, q)" by (metis prod.exhaust)
      with Some fixed_values(1) have v: "bind_value v = Inr ()" by blast
      from False Some x show ?thesis unfolding damage_copy_def mutate_copied_config_def
        by (simp only: if_False option.case prod.case) (intro tried raises_transaction raises_update v)
    qed
  qed
qed

lemma try_confined:
  "try_except (transaction p m) f (\<lambda>_. raise e) h = (r, h') \<Longrightarrow> h_files h p = Some (Regular x c) \<Longrightarrow>
     confined {p} h h' \<and> (\<exists>c'. h_files h' p = Some (Regular x c'))"
  by (auto simp: try_except_eq_iff transaction_def dest: connected_confined)

text \<open>The database of the copy that a scenario changes\<close>

definition damaged_file :: "pystr \<Rightarrow> pystr" where
  "damaged_file scenario = (if scenario = lit ''tampered-audit'' then lit ''audit.db'' else lit ''config.db'')"

lemma damage_run:
  assumes "damage_copy dst scenario h = (r, h')" "h_files h (dst @ [damaged_file scenario]) = Some (Regular m c)"
  shows "confined {dst @ [damaged_file scenario]} h h'
    \<and> (\<exists>c'. h_files h' (dst @ [damaged_file scenario]) = Some (Regular m c'))
    \<and> (case r of Inl e \<Rightarrow> exn_class e = NegativeLabPreparationError | Inr _ \<Rightarrow> True)"
proof -
  have "confined {dst @ [damaged_file scenario]} h h'
      \<and> (\<exists>c'. h_files h' (dst @ [damaged_file scenario]) = Some (Regular m c'))"
  proof (cases "scenario = lit ''tampered-audit''")
    case True
    with assms show ?thesis
      unfolding damage_copy_def tamper_copied_audit_def damaged_file_def
      by (simp only: if_True refl) (rule try_confined)
  next
    case False
    show ?thesis
    proof (cases "statement_of scenario")
      case None
      with False assms show ?thesis by (auto simp: damage_copy_def mutate_copied_config_def damaged_file_def)
    next
      case (Some x)
      obtain n v i q d where "x = (n, v, i, q, d)" by (metis prod.exhaust)
      with False Some assms show ?thesis
        unfolding damage_copy_def mutate_copied_config_def damaged_file_def
        by (simp only: if_False option.case prod.case) (rule try_confined)
    qed
  qed
  with raisesD [OF damage_error] assms(1) show ?thesis by (cases r) auto
qed

end
