(* ===== verification/Negative_Safety.thy ===== *)
theory Negative_Safety
  imports Negative_Run
begin

text \<open>
  What the negative lab tool promises: it never changes the baseline or anything else that exists,
  the copy is private and equals the baseline but for the one row of the scenario, and what the
  scenario is to show is what the repositories and the audit verification then do with the copy.
\<close>

section \<open>A whole run\<close>

lemma path_name_snoc [simp]: "path_name (p @ [n]) = n"
  by (simp add: path_name_def)

lemma copied_names_known: "set (copied_names scenario a) \<subseteq> set (required_files @ optional_files)"
  by (auto simp: copied_names_def required_files_def optional_files_def)

lemma damaged_file_copied:
  "(scenario = lit ''tampered-audit'' \<longrightarrow> a) \<Longrightarrow> damaged_file scenario \<in> set (copied_names scenario a)"
  by (auto simp: damaged_file_def copied_names_def required_files_def)

text \<open>Nothing that existed changes, and the new paths are those of the lab.\<close>

definition negative_step :: "path \<Rightarrow> dbhost \<Rightarrow> dbhost \<Rightarrow> bool" where
  "negative_step destination h h' \<longleftrightarrow> grows h h'
     \<and> (\<forall>p. h_files h' p \<noteq> h_files h p \<longrightarrow> leads_to p destination
          \<or> (\<exists>n \<in> set (required_files @ optional_files). p = destination @ [n]))"

lemma negative_step_trans: "negative_step d h i \<Longrightarrow> negative_step d i j \<Longrightarrow> negative_step d h j"
  unfolding negative_step_def by (metis grows_trans)

lemma negative_step_same: "same_files h h' \<Longrightarrow> negative_step d h h'"
  by (simp add: negative_step_def grows_def same_files_def)

lemma negative_step_above: "adds_above d h h' \<Longrightarrow> negative_step d h h'"
  by (simp add: negative_step_def adds_above_def)

lemma negative_step_confined:
  "confined P h h' \<Longrightarrow> grows h h' \<Longrightarrow> P \<subseteq> (\<lambda>n. d @ [n]) ` set (required_files @ optional_files) \<Longrightarrow>
    negative_step d h h'"
  unfolding negative_step_def confined_def by blast

lemma negative_step_damage:
  assumes "negative_step d h i" "confined {d @ [n]} i j" "h_files h (d @ [n]) = None"
    "n \<in> set (required_files @ optional_files)"
  shows "negative_step d h j"
proof -
  have "h_files j p = Some x" if p: "h_files h p = Some x" for p x
  proof -
    have "p \<noteq> d @ [n]" using assms(3) p by auto
    with confinedD [OF assms(2), of p] growsD [OF _ p] assms(1) show ?thesis by (simp add: negative_step_def)
  qed
  moreover have "h_umask j = h_umask h"
    using assms(1,2) by (simp add: negative_step_def grows_def confined_def)
  ultimately have "grows h j" by (auto simp: grows_def map_le_def)
  moreover have "leads_to p d \<or> (\<exists>n \<in> set (required_files @ optional_files). p = d @ [n])"
    if "h_files j p \<noteq> h_files h p" for p
    using assms(1,4) confinedD [OF assms(2), of p] that by (cases "p = d @ [n]") (auto simp: negative_step_def)
  ultimately show ?thesis by (simp add: negative_step_def)
qed

text \<open>What a run that succeeds went through: the copies in the state \<open>g\<close>, then the change.\<close>

definition negative_lab_made :: "path \<Rightarrow> path \<Rightarrow> pystr \<Rightarrow> dbhost \<Rightarrow> dbhost \<Rightarrow> dbhost \<Rightarrow> bool" where
  "negative_lab_made source destination scenario h g h' \<longleftrightarrow> scenario \<in> set scenarios
     \<and> h_files g destination = Some (Directory 0x1C0)
     \<and> (\<exists>a. (scenario = lit ''tampered-audit'' \<longrightarrow> a) \<and> (\<forall>n \<in> set (copied_names scenario a).
          \<exists>m c. h_files h (source @ [n]) = Some (Regular m c)
              \<and> h_files g (destination @ [n]) = Some (Regular 0x180 c)))
     \<and> damage_copy destination scenario g = (Inr (), h')"

lemma prepare_run:
  assumes "prepare_negative_lab config h = (r, h')"
  shows "(h_files h' = h_files h \<and> h_umask h' = h_umask h \<and> isl r
      \<or> (\<exists>source destination. resolve_path h (nl_source config) = Inr source
          \<and> resolve_path h (nl_destination config) = Inr destination
          \<and> placed source destination \<and> h_files h destination = None \<and> negative_step destination h h'
          \<and> (r = Inr () \<longrightarrow> (\<exists>g. negative_lab_made source destination (nl_scenario config) h g h'))))
    \<and> (case r of Inl e \<Rightarrow> exn_class e = NegativeLabPreparationError | Inr _ \<Rightarrow> True)"
  using assms unfolding prepare_negative_lab_def
proof (cases rule: bind_run)
  case (failed e)
  with validate_paths_run [OF failed(1)] show ?thesis by (simp add: same_files_def)
next
  case paths: (went sd h1)
  obtain source dst where sd: "sd = (source, dst)" by fastforce
  let ?s = "nl_scenario config"
  from validate_paths_run [OF paths(1)] sd have 1: "same_files h h1" "?s \<in> set scenarios"
    "resolve_path h (nl_source config) = Inr source" "resolve_path h (nl_destination config) = Inr dst"
    "placed source dst" "h_files h dst = None" by simp_all
  from paths(2) [unfolded sd prod.case] show ?thesis
  proof (cases rule: bind_run)
    case (failed e)
    with validate_source_run [OF failed(1)] 1(1) show ?thesis by (simp add: same_files_def)
  next
    case src: (went ps h2)
    define a where "a = exists_path h1 (source @ [lit ''audit.db''])"
    from validate_source_run [OF src(1)] have 2: "same_files h1 h2"
      "\<forall>p \<in> set ps. \<exists>m c. h_files h1 p = Some (Regular m c)" "?s = lit ''tampered-audit'' \<longrightarrow> a"
      "ps = map (\<lambda>n. source @ [n]) (copied_names ?s a)" by (simp_all add: a_def)
    have s2: "same_files h h2" using 1(1) 2(1) by (rule same_files_trans)
    have f2: "h_files h2 = h_files h" "h_files h1 = h_files h" using s2 1(1) by (simp_all add: same_files_def)
    from 1(5) have "dst \<noteq> []" by (auto simp: placed_def)
    note dest = create_destination_run [OF _ _ this]
    from src(2) show ?thesis
    proof (cases rule: seq_run)
      case (failed e)
      with dest [OF failed(1)] f2 1 negative_step_trans [OF negative_step_same [OF s2] negative_step_above]
      show ?thesis by auto
    next
      case mk: (went u h3)
      from dest [OF mk(1)] f2 1(6) mk have 3: "adds_above dst h2 h3" "h_files h3 dst = Some (Directory 0x1C0)"
        by simp_all
      note n3 = negative_step_trans [OF negative_step_same [OF s2] negative_step_above [OF 3(1)]]
      have keep3: "h_files h p = Some n \<Longrightarrow> h_files h3 p = Some n" for p n
        using n3 growsD by (auto simp: negative_step_def)
      obtain q h5 where q: "seq (copy_files dst ps) (damage_copy dst ?s) h3 = (q, h5)" by fastforce
      have body: "negative_step dst h3 h5 \<and> (case q of Inl e \<Rightarrow> exn_class e = NegativeLabPreparationError
        | Inr _ \<Rightarrow> \<exists>g. negative_lab_made source dst ?s h g h5)"
      proof -
        have reg: "\<forall>p \<in> set ps. \<exists>m c. h_files h3 p = Some (Regular m c)"
          using 2(2) f2 keep3 by fastforce
        have names: "(\<lambda>p. dst @ [path_name p]) ` set ps \<subseteq> (\<lambda>n. dst @ [n]) ` set (required_files @ optional_files)"
          using 2(4) copied_names_known [of ?s a] by auto
        from q show ?thesis
        proof (cases rule: seq_run)
          case (failed e)
          from copy_files_run [OF failed(1) reg] failed(2) negative_step_confined [OF _ _ names] show ?thesis by simp
        next
          case cp: (went v h4)
          from copy_files_run [OF cp(1) reg] have c: "negative_step dst h3 h4" "grows h3 h4"
            "\<forall>p m c. p \<in> set ps \<longrightarrow> h_files h3 p = Some (Regular m c) \<longrightarrow>
               h_files h4 (dst @ [path_name p]) = Some (Regular 0x180 c)"
            "\<forall>p \<in> set ps. h_files h3 (dst @ [path_name p]) = None"
            using negative_step_confined [OF _ _ names] by simp_all
          have copies: "\<exists>m c. h_files h (source @ [n]) = Some (Regular m c)
              \<and> h_files h4 (dst @ [n]) = Some (Regular 0x180 c)" if n: "n \<in> set (copied_names ?s a)" for n
          proof -
            have p: "source @ [n] \<in> set ps" using n 2(4) by simp
            with 2(2) f2 obtain m c' where f: "h_files h (source @ [n]) = Some (Regular m c')" by metis
            from c(3) p keep3 [OF f] have "h_files h4 (dst @ [n]) = Some (Regular 0x180 c')" by fastforce
            with f show ?thesis by blast
          qed
          let ?d = "dst @ [damaged_file ?s]"
          from copies [OF damaged_file_copied [OF 2(3)]] obtain c' where
            d: "h_files h4 ?d = Some (Regular 0x180 c')" by blast
          note dm = damage_run [OF cp(2) d]
          have known: "damaged_file ?s \<in> set (copied_names ?s a)" by (rule damaged_file_copied [OF 2(3)])
          with c(4) 2(4) have "h_files h3 ?d = None" by auto
          from negative_step_damage [OF c(1) _ this] dm known copied_names_known
          have st: "negative_step dst h3 h5" by blast
          show ?thesis
          proof (cases q)
            case (Inl e)
            with dm st show ?thesis by simp
          next
            case (Inr w)
            have "h_files h4 dst = Some (Directory 0x1C0)" using growsD [OF c(2) 3(2)] .
            then have "negative_lab_made source dst ?s h h4 h5"
              using 1(2) 2(3) copies cp(2) Inr unfolding negative_lab_made_def by auto
            with Inr st show ?thesis by auto
          qed
        qed
      qed
      have r: "h' = h5" "case r of Inl e \<Rightarrow> exn_class e = NegativeLabPreparationError | Inr _ \<Rightarrow> q = Inr ()"
        using mk(2) q body
        by (auto simp: try_except_def preparation_error_def catches_def split: sum.splits if_splits)
      with body negative_step_trans [OF n3] 1 show ?thesis by (auto split: sum.splits)
    qed
  qed
qed

section \<open>The effect of a scenario\<close>

definition damaged_target :: "pystr \<Rightarrow> target \<Rightarrow> target" where
  "damaged_target scenario t =
     (if scenario = lit ''disabled-target'' then t\<lparr>tgt_enabled := False\<rparr>
      else if scenario = lit ''bad-host-key'' then t\<lparr>tgt_expected_host_key := \<lparr>hkf_value = bad_host_key\<rparr>\<rparr>
      else t)"

definition damaged_account :: "pystr \<Rightarrow> privileged_account \<Rightarrow> privileged_account" where
  "damaged_account scenario a = (if scenario = lit ''disabled-account'' then a\<lparr>acc_enabled := False\<rparr> else a)"

definition damaged_policy :: "pystr \<Rightarrow> access_policy \<Rightarrow> access_policy" where
  "damaged_policy scenario x = (if scenario = lit ''deny'' then x\<lparr>pol_effect := DENY\<rparr> else x)"

definition damaged :: "pystr \<Rightarrow> lab_records \<Rightarrow> lab_records" where
  "damaged scenario x = x\<lparr>lr_target := damaged_target scenario (lr_target x),
     lr_account := damaged_account scenario (lr_account x), lr_policy := damaged_policy scenario (lr_policy x)\<rparr>"

lemma copied_table:
  "h_files h p = Some (Regular m c) \<Longrightarrow> h_files g q = Some (Regular m' c) \<Longrightarrow> table_at g q n = table_at h p n"
  by (simp add: table_at_def db_at_def)

lemma single_update:
  assumes "transaction p (update_exactly_one n c v names pr m) h = (Inr (), h')"
    "table_rows n cols uq p h [r0]" "c = fst (cols ! k)" "distinct (map fst cols)" "k < length cols"
    "set names \<subseteq> set (map fst cols)" "bind_value v = Inr ()" "v \<noteq> SqlNull" "\<forall>u \<in> set uq. c \<notin> set u"
  shows "table_rows n cols uq p h' [r0[k := v]] \<and> only_db p h h'
    \<and> (\<forall>n'. n' \<noteq> n \<longrightarrow> table_at h' p n' = table_at h p n')"
  using transaction_update [OF assms(1) [unfolded assms(3)] assms(2,4,5,6,7,8)] assms(3,9)
  by (auto simp: updated_def split: if_splits)

lemmas table_names = policies_table_def targets_table_def accounts_table_def

lemma damage_config_run:
  fixes p :: path
  assumes "damage_copy dst s g = (Inr (), h')" "s \<in> set scenarios" "s \<noteq> lit ''tampered-audit''"
    "p = dst @ [lit ''config.db'']" "policy_serialize x = Inr vals"
    "target_rows p g [target_row t]" "account_rows p g [account_row a]" "policy_rows p g [vals]"
  shows "target_rows p h' [target_row (damaged_target s t)] \<and> account_rows p h' [account_row (damaged_account s a)]
    \<and> (\<exists>vals'. policy_serialize (damaged_policy s x) = Inr vals' \<and> policy_rows p h' [vals']
        \<and> (bind_values vals = Inr () \<longrightarrow> bind_values vals' = Inr ())) \<and> only_db p g h'"
proof -
  have m: "mutate_copied_config p s g = (Inr (), h')" using assms(1,3,4) by (simp add: damage_copy_def)
  have ran: "transaction p M g = (Inr (), h')"
    if "try_except (transaction p M) (catches SqliteError) (\<lambda>_. raise e) g = (Inr (), h')" for M :: "(conn, unit) io" and e
    using that by (auto simp: try_except_eq_iff)
  have rest: "table_rows n cols uq p h' rows" if "table_at h' p n = table_at g p n" "table_rows n cols uq p g rows"
    for n cols uq rows using that by (simp add: table_rows_def)
  from assms(2,3) consider "s = lit ''deny''" | "s = lit ''disabled-target''" | "s = lit ''disabled-account''"
    | "s = lit ''bad-host-key''" by (auto simp: scenarios_def)
  then show ?thesis
  proof cases
    case 1
    have "policy_rows p h' [vals[4 := SqlText (lit ''deny'')]] \<and> only_db p g h'
        \<and> (\<forall>n'. n' \<noteq> policies_table \<longrightarrow> table_at h' p n' = table_at g p n')"
      by (rule single_update [where names = "[lit ''id'', lit ''effect'']"])
        (use ran m 1 assms(8) encodable_lit in
          \<open>auto simp: mutate_copied_config_def statement_of_def policies_table_def policy_schema_def\<close>)
    moreover have "policy_serialize (x\<lparr>pol_effect := DENY\<rparr>) = Inr (vals[4 := SqlText (lit ''deny'')])"
      "bind_values vals = Inr () \<longrightarrow> bind_values (vals[4 := SqlText (lit ''deny'')]) = Inr ()"
      using assms(5) encodable_lit by (auto simp: policy_serialize_def thenR_def split: sum.splits)
    ultimately show ?thesis using 1 assms(6,7) rest
      by (auto simp: damaged_target_def damaged_account_def damaged_policy_def table_names)
  next
    case 2
    have "target_rows p h' [(target_row t)[5 := SqlInt 0]] \<and> only_db p g h'
        \<and> (\<forall>n'. n' \<noteq> targets_table \<longrightarrow> table_at h' p n' = table_at g p n')"
      by (rule single_update [where names = "[lit ''id'', lit ''enabled'']"])
        (use ran m 2 assms(6) in
          \<open>auto simp: mutate_copied_config_def statement_of_def targets_table_def target_schema_def\<close>)
    moreover have "target_row (t\<lparr>tgt_enabled := False\<rparr>) = (target_row t)[5 := SqlInt 0]"
      by (simp add: target_row_def flag_value_def)
    ultimately show ?thesis using 2 assms(5,7,8) rest
      by (auto simp: damaged_target_def damaged_account_def damaged_policy_def table_names)
  next
    case 3
    have "account_rows p h' [(account_row a)[4 := SqlInt 0]] \<and> only_db p g h'
        \<and> (\<forall>n'. n' \<noteq> accounts_table \<longrightarrow> table_at h' p n' = table_at g p n')"
      by (rule single_update [where names = "[lit ''id'', lit ''enabled'']"])
        (use ran m 3 assms(7) in
          \<open>auto simp: mutate_copied_config_def statement_of_def accounts_table_def account_schema_def\<close>)
    moreover have "account_row (a\<lparr>acc_enabled := False\<rparr>) = (account_row a)[4 := SqlInt 0]"
      by (simp add: account_row_def flag_value_def)
    ultimately show ?thesis using 3 assms(5,6,8) rest
      by (auto simp: damaged_target_def damaged_account_def damaged_policy_def table_names)
  next
    case 4
    have "target_rows p h' [(target_row t)[4 := SqlText bad_host_key]] \<and> only_db p g h'
        \<and> (\<forall>n'. n' \<noteq> targets_table \<longrightarrow> table_at h' p n' = table_at g p n')"
      by (rule single_update [where names = "[lit ''id'', lit ''expected_host_key'']"])
        (use ran m 4 assms(6) encodable_lit in
          \<open>auto simp: mutate_copied_config_def statement_of_def targets_table_def target_schema_def bad_host_key_def\<close>)
    moreover have "target_row (t\<lparr>tgt_expected_host_key := \<lparr>hkf_value = bad_host_key\<rparr>\<rparr>)
        = (target_row t)[4 := SqlText bad_host_key]"
      by (simp add: target_row_def)
    ultimately show ?thesis using 4 assms(5,7,8) rest
      by (auto simp: damaged_target_def damaged_account_def damaged_policy_def table_names)
  qed
qed

lemma made_copy:
  assumes "negative_lab_made source dst s h g h'" "s \<noteq> lit ''tampered-audit''" "n \<in> set required_files"
  obtains m c where "h_files h (source @ [n]) = Some (Regular m c)" "h_files g (dst @ [n]) = Some (Regular 0x180 c)"
proof -
  from assms obtain a where "\<forall>n \<in> set (copied_names s a). \<exists>m c. h_files h (source @ [n]) = Some (Regular m c)
      \<and> h_files g (dst @ [n]) = Some (Regular 0x180 c)" by (auto simp: negative_lab_made_def)
  moreover have "n \<in> set (copied_names s a)" using assms(2,3) by (auto simp: copied_names_def)
  ultimately show thesis using that by blast
qed

lemma bad_host_key_facts: "startswith bad_host_key (lit ''SHA256:'')" "list_all encodable bad_host_key"
  by (simp add: bad_host_key_def startswith_def lit_def) (simp add: bad_host_key_def encodable_lit)

lemma damaged_ok:
  "target_ok t \<Longrightarrow> target_ok (damaged_target s t)" "account_ok a \<Longrightarrow> account_ok (damaged_account s a)"
  "bind_values (target_row t) = Inr () \<Longrightarrow> bind_values (target_row (damaged_target s t)) = Inr ()"
  "bind_values (account_row a) = Inr () \<Longrightarrow> bind_values (account_row (damaged_account s a)) = Inr ()"
  using bad_host_key_facts
  by (auto simp: damaged_target_def damaged_account_def invariant_defs target_row_def account_row_def
      flag_value_def thenR_def split: sum.splits)

lemma negative_lab_data:
  assumes "lab_data hasher cipher key (paths_within source) x pam tp h" "negative_lab_made source dst s h g h'"
    "s \<noteq> lit ''tampered-audit''"
  shows "lab_data hasher cipher key (paths_within dst) (damaged s x) pam tp h'"
proof -
  let ?p = "dst @ [lit ''config.db'']"
  have tab: "table_at g (dst @ [n]) t = table_at h (source @ [n]) t" if "n \<in> set required_files" for n t
    by (rule made_copy [OF assms(2,3) that]) (rule copied_table)
  then have rows: "table_rows t cols uq (dst @ [n]) g rs = table_rows t cols uq (source @ [n]) h rs"
    if "n \<in> set required_files" for n t cols uq rs using that by (simp add: table_rows_def)
  note R = required_files_def
  have D: "damage_copy dst s g = (Inr (), h')" "s \<in> set scenarios"
    using assms(2) by (simp_all add: negative_lab_made_def)
  from assms(1) obtain vals where vals: "policy_serialize (lr_policy x) = Inr vals" "bind_values vals = Inr ()"
    "policy_rows ?p g [vals]" by (auto simp: lab_data_def paths_within_def rows R)
  have conf: "target_rows ?p g [target_row (lr_target x)]" "account_rows ?p g [account_row (lr_account x)]"
    using assms(1) by (simp_all add: lab_data_def paths_within_def rows R)
  note run = damage_config_run [OF D assms(3) refl vals(1) conf vals(3)]
  have keep: "table_rows t cols uq (dst @ [n]) h' rs = table_rows t cols uq (source @ [n]) h rs"
    if "n \<in> set required_files" "n \<noteq> lit ''config.db''" for n t cols uq rs
    using that run only_db_table_other [of ?p g h' "dst @ [n]"] rows [OF that(1), of t cols uq rs] by (simp add: table_rows_def)
  show ?thesis
    using assms(1) run vals(2) damaged_ok
    unfolding lab_data_def damaged_def paths_within_def
    by (simp add: keep R) (auto simp: damaged_account_def)
qed

section \<open>Isolation\<close>

text \<open>
  C37. The tool is isolated, whatever it meets: nothing that exists is changed or removed, in
  particular no file of the baseline. New are at most the directories down to the destination and the
  runtime files in it; the destination did not exist and lies beside the baseline under
  \<open>scenarios\<close>. Every failure is a \<open>NegativeLabPreparationError\<close>, which becomes
  the exit code 1 and its message.
\<close>

theorem negative_lab_isolated:
  assumes "prepare_negative_lab config h = (r, h')"
  shows "(\<forall>p n. h_files h p = Some n \<longrightarrow> h_files h' p = Some n) \<and> h_umask h' = h_umask h
    \<and> (h_files h' \<noteq> h_files h \<longrightarrow> (\<exists>source destination. resolve_path h (nl_source config) = Inr source
         \<and> resolve_path h (nl_destination config) = Inr destination \<and> placed source destination
         \<and> h_files h destination = None
         \<and> (\<forall>p. h_files h' p \<noteq> h_files h p \<longrightarrow> leads_to p destination
              \<or> (\<exists>n \<in> set (required_files @ optional_files). p = destination @ [n]))))
    \<and> negative_lab_main config h = (Inr (case r of
        Inl e \<Rightarrow> (1, [(Stderr, lit ''Scenario preparation failed: '' @ exn_message e)])
      | Inr _ \<Rightarrow> (0, negative_report config)), h')
    \<and> (case r of Inl e \<Rightarrow> exn_class e = NegativeLabPreparationError | Inr _ \<Rightarrow> True)"
proof -
  note run = prepare_run [OF assms]
  then have "grows h h'" by (auto simp: negative_step_def grows_def)
  moreover have "negative_lab_main config h = (Inr (case r of
        Inl e \<Rightarrow> (1, [(Stderr, lit ''Scenario preparation failed: '' @ exn_message e)])
      | Inr _ \<Rightarrow> (0, negative_report config)), h')"
    using assms run by (cases r) (auto simp: negative_lab_main_def try_except_def seq_apply catches_def)
  ultimately show ?thesis
    using run growsD [of h h'] by (auto simp: negative_step_def grows_def)
qed

section \<open>The four configuration scenarios\<close>

lemma bad_host_key_digest: "bad_host_key = digest_text (replicate 32 0)"
proof -
  have "b64encode
      [0, 0, 0, 0, 0, 0, 0, 0, 0, 0, 0, 0, 0, 0, 0, 0, 0, 0, 0, 0, 0, 0, 0, 0, 0, 0, 0, 0, 0, 0, 0, 0] =
      [65, 65, 65, 65, 65, 65, 65, 65, 65, 65, 65, 65, 65, 65, 65, 65, 65, 65, 65, 65, 65, 65, 65, 65, 65, 65, 65, 65, 65, 65, 65, 65, 65, 65, 65, 65, 65, 65, 65, 65, 65, 65, 65, 61]"
    by (simp add: b64_char_def)
  moreover have "replicate 32 0 =
      ([0, 0, 0, 0, 0, 0, 0, 0, 0, 0, 0, 0, 0, 0, 0, 0, 0, 0, 0, 0, 0, 0, 0, 0, 0, 0, 0, 0, 0, 0, 0, 0] :: bytes)"
    by (simp add: numeral_eq_Suc)
  ultimately show ?thesis by (simp add: digest_text_def rstrip_pad_def bad_host_key_def lit_def)
qed

lemma bad_host_key_pin:
  assumes "\<forall>k. length (sha k) = 32"
  shows "verify_pinned_host_key sha (t\<lparr>tgt_expected_host_key := \<lparr>hkf_value = bad_host_key\<rparr>\<rparr>) k = Inr ()
    \<longleftrightarrow> sha k = replicate 32 0"
  using assms digest_text_inject [of "replicate 32 0" "sha k"] by (auto simp: verify_pinned_Inr bad_host_key_digest)

lemma resolve_directory: "h_files h p = Some (Directory m) \<Longrightarrow> resolve_path h p = Inr p"
  by (simp add: resolve_path_def follow_no_link)

text \<open>What the access service must refuse in the lab of a scenario\<close>

definition refuses :: "pystr \<Rightarrow> lab_records \<Rightarrow> bool" where
  "refuses scenario x \<longleftrightarrow>
     (scenario = lit ''deny'' \<longrightarrow> dec_effect (decide [lr_policy x]) = DENY)
   \<and> (scenario = lit ''disabled-target'' \<longrightarrow> \<not> tgt_enabled (lr_target x))
   \<and> (scenario = lit ''disabled-account'' \<longrightarrow> \<not> acc_enabled (lr_account x))
   \<and> (scenario = lit ''bad-host-key'' \<longrightarrow> (\<forall>sha k. (\<forall>k. length (sha k) = 32) \<longrightarrow>
        (verify_pinned_host_key sha (lr_target x) k = Inr () \<longleftrightarrow> sha k = replicate 32 0)))"

lemma damaged_refuses: "refuses s (damaged s x)"
  by (auto simp: refuses_def damaged_def damaged_policy_def damaged_target_def damaged_account_def
      bad_host_key_pin decide_def)

lemma provisioned_data:
  assumes "provision_lab hasher cipher reader config h = (Inr paths, h')" "quiet_hasher hasher" "quiet_reader reader"
  obtains x key pam tp where "build_records config = Inr x" "key_of h' (lp_vault_key paths) = Some key"
    "length key = 32" "lab_data hasher cipher key paths x pam tp h'" "paths = paths_within (lc_runtime_dir config)"
    "h_files h' (lc_runtime_dir config) = Some (Directory 0x1C0)"
proof -
  from provision_lab_run [OF assms] have "paths = paths_within (lc_runtime_dir config)"
    "provisioned hasher cipher reader config h h'" by simp_all
  then show thesis using that unfolding provisioned_def Let_def by blast
qed

text \<open>
  C38. The configuration scenarios test what they are named for. Prepared from a provisioned lab, the
  repositories of the copy answer with the records of the configuration but for the one field of the
  scenario, and the Vault of the copy, with the copied key, still gives the credential: so what is
  refused (by the policy, the disabled target or account, or the check of the server key, which only
  a key with the digest zero passes) is refused for that reason alone.
\<close>

theorem negative_lab_scenarios:
  assumes "provision_lab hasher cipher reader config i = (Inr paths, j)"
    "quiet_hasher hasher" "quiet_reader reader" "aead_correct cipher"
    "h_files h = h_files j" "nl_source c = lc_runtime_dir config" "nl_scenario c \<noteq> lit ''tampered-audit''"
    "resolve_path h (nl_destination c) = Inr destination"
    "prepare_negative_lab c h = (Inr (), h')" "h_files g = h_files h'" "h_faults g = []"
  shows "\<exists>x y key secret. build_records config = Inr x \<and> y = damaged (nl_scenario c) x \<and> refuses (nl_scenario c) y
    \<and> fst (target_get (destination @ [lit ''config.db'']) (tgt_id (lr_target x)) g) = Inr (Some (lr_target y))
    \<and> fst (account_find_for_target (destination @ [lit ''config.db'']) (tgt_id (lr_target x)) g) = Inr (Some (lr_account y))
    \<and> fst (policy_find_matching (destination @ [lit ''config.db'']) (usr_id (lr_user x)) (tgt_id (lr_target x))
             OPEN_PRIVILEGED_SESSION g) = Inr [lr_policy y]
    \<and> key_of g (destination @ [lit ''vault.key'']) = Some key
    \<and> fst (vault_resolve (destination @ [lit ''vault.db'']) cipher key (acc_credential_ref (lr_account x)) g)
        = Inr \<lparr>bc_value = secret\<rparr>
    \<and> fst (vault_resolve (lp_vault_db paths) cipher key (acc_credential_ref (lr_account x)) (j\<lparr>h_faults := []\<rparr>))
        = Inr \<lparr>bc_value = secret\<rparr>"
proof -
  let ?s = "nl_scenario c" and ?dir = "lc_runtime_dir config"
  obtain x key pam tp where x: "build_records config = Inr x" "key_of j (lp_vault_key paths) = Some key"
    "length key = 32" "lab_data hasher cipher key paths x pam tp j" "paths = paths_within ?dir"
    "h_files j ?dir = Some (Directory 0x1C0)" by (rule provisioned_data [OF assms(1-3)])
  have "h_files h ?dir = Some (Directory 0x1C0)" using x(6) assms(5) by simp
  then have "resolve_path h (nl_source c) = Inr ?dir" unfolding assms(6) by (rule resolve_directory)
  with prepare_run [OF assms(9)] assms(8) obtain k where made: "negative_lab_made ?dir destination ?s h k h'"
    by auto
  have rows: "table_rows n cols uq p j rs = table_rows n cols uq p h rs" for n cols uq p rs
    by (rule same_tables_rows) (simp add: assms(5))
  have data: "lab_data hasher cipher key (paths_within ?dir) x pam tp h"
    using x(4) unfolding x(5) lab_data_def rows .
  let ?y = "damaged ?s x"
  note b = built_records [OF x(1)]
  have ids: "acc_target_id (lr_account ?y) = tgt_id (lr_target ?y)" "tgt_id (lr_target ?y) = tgt_id (lr_target x)"
    "policy_key (lr_policy ?y) = (usr_id (lr_user ?y), tgt_id (lr_target ?y), OPEN_PRIVILEGED_SESSION)"
    "usr_id (lr_user ?y) = usr_id (lr_user x)" "acc_credential_ref (lr_account ?y) = acc_credential_ref (lr_account x)"
    using b(1,2) by (auto simp: damaged_def damaged_account_def damaged_target_def damaged_policy_def policy_key_def)
  note found = lab_data_lookups [OF negative_lab_data [OF data made assms(7)] assms(10,11) ids(1,3)]
  from lab_data_lookups(5) [OF x(4) _ _ b(1,2) assms(4) x(3), of "j\<lparr>h_faults := []\<rparr>"] obtain secret where
    secret: "utf8_encode tp = Inr secret" "fst (vault_resolve (lp_vault_db paths) cipher key
      (acc_credential_ref (lr_account x)) (j\<lparr>h_faults := []\<rparr>)) = Inr \<lparr>bc_value = secret\<rparr>" by auto
  have key: "key_of g (destination @ [lit ''vault.key'']) = Some key"
  proof -
    have "lit ''vault.key'' \<in> set required_files" by (simp add: required_files_def)
    from made_copy [OF made assms(7) this] obtain m d where f:
      "h_files h (?dir @ [lit ''vault.key'']) = Some (Regular m d)"
      "h_files k (destination @ [lit ''vault.key'']) = Some (Regular 0x180 d)" .
    obtain m2 d2 where "h_files k (destination @ [damaged_file ?s]) = Some (Regular m2 d2)"
      using made damaged_file_copied unfolding negative_lab_made_def by metis
    moreover have "damage_copy destination ?s k = (Inr (), h')" using made by (simp add: negative_lab_made_def)
    ultimately have "confined {destination @ [damaged_file ?s]} k h'" using damage_run by blast
    moreover have "damaged_file ?s \<noteq> lit ''vault.key''" by (simp add: damaged_file_def)
    ultimately have "h_files h' (destination @ [lit ''vault.key'']) = Some (Regular 0x180 d)"
      using f(2) by (simp add: confined_def)
    with f(1) x(2,5) assms(5,10) show ?thesis
      by (simp add: key_of_def paths_within_def split: if_splits)
  qed
  show ?thesis
    using x(1) damaged_refuses [of ?s x] found(2-4) found(5) [OF assms(4) x(3)] key secret ids
    by (intro exI [of _ x] exI [of _ ?y] exI [of _ key] exI [of _ secret]) (auto simp: paths_within_def)
qed

section \<open>The tampered trail\<close>

lemma sql_min_first: "v \<noteq> SqlNull \<Longrightarrow> \<forall>w \<in> set ws. w \<noteq> SqlNull \<and> v \<le> w \<Longrightarrow> sql_min (v # ws) = v"
proof -
  assume v: "v \<noteq> SqlNull" and ws: "\<forall>w \<in> set ws. w \<noteq> SqlNull \<and> v \<le> w"
  then have "filter (\<lambda>v. v \<noteq> SqlNull) ws = ws" by (simp add: filter_id_conv)
  moreover have "fold min ws v = v" using ws by (induction ws) (auto simp: min_def)
  ultimately show ?thesis using v by (simp add: sql_min_def)
qed

lemma first_of_chain:
  assumes "chain hmac key 1 prev fs = Some rows" "i < length rows"
  shows "first_with_other_target (made audit_schema audit_unique rows) (rows ! i)
    \<longleftrightarrow> i = 0 \<and> sql_ne (rows ! i ! 5) tampered_target"
proof -
  let ?t = "made audit_schema audit_unique rows"
  have len: "length r = 11" if "r \<in> set rows" for r
    using that chain_numbers [OF assms(1)] by (auto simp: in_set_conv_nth)
  have f: "field ?t r (lit ''sequence_no'') = r ! 0" "field ?t r (lit ''target_id'') = r ! 5" if "r \<in> set rows" for r
    using field_audit(1) [OF len [OF that]] field_made [of audit_schema r 5 audit_unique rows] len [OF that]
    by (simp_all add: audit_schema_def)
  have m: "map (\<lambda>r. field ?t r (lit ''sequence_no'')) (tb_rows ?t) = map (\<lambda>r. r ! 0) rows" using f(1) by simp
  obtain r0 rest where rows: "rows = r0 # rest" using assms(2) by (cases rows) auto
  have least: "sql_min (map (\<lambda>r. r ! 0) rows) = SqlInt 1"
  proof -
    have "r0 ! 0 = SqlInt 1" using chain_numbers [OF assms(1), of 0] rows by simp
    moreover have "r ! 0 \<noteq> SqlNull \<and> SqlInt 1 \<le> r ! 0" if r: "r \<in> set rest" for r
    proof -
      obtain j where "j < length rest" "rest ! j = r" using r unfolding in_set_conv_nth by blast
      with chain_numbers [OF assms(1), of "Suc j"] rows show ?thesis by simp
    qed
    ultimately show ?thesis using sql_min_first [of "SqlInt 1" "map (\<lambda>r. r ! 0) rest"] rows by simp
  qed
  have "sql_eq (rows ! i ! 0) (SqlInt 1) \<longleftrightarrow> i = 0"
    using chain_numbers [OF assms] by (simp add: sql_eq_def)
  with f [of "rows ! i"] assms(2) show ?thesis
    unfolding first_with_other_target_def m least by simp
qed

lemma canonical_other_target:
  assumes "canonical_event_bytes n f = Inr c" "list_all encodable t"
  shows "\<exists>c'. canonical_event_bytes n (f\<lparr>af_target_id := t\<rparr>) = Inr c'"
proof -
  have "list_all encodable (dumps_str t)"
    using dumps_encodable [of "JStr t"] assms(2) by simp
  moreover have "list_all encodable (dumps (canonical_event n f))"
    using assms(1) by (auto simp: canonical_event_bytes_def utf8_encode_def split: if_splits)
  ultimately have "list_all encodable (dumps (canonical_event n (f\<lparr>af_target_id := t\<rparr>)))"
    by (simp add: canonical_event_def json_pair_def)
  then show ?thesis by (simp add: canonical_event_bytes_def utf8_encode_def)
qed

text \<open>What the scenario does to a trail that verifies, and what the verification then says\<close>

definition retarget :: "audit_fields \<Rightarrow> audit_fields" where
  "retarget f = f\<lparr>af_target_id := lit ''tampered-target-id''\<rparr>"

lemma tamper_run:
  assumes "damage_copy dst (lit ''tampered-audit'') g = (Inr (), h')" "p = dst @ [lit ''audit.db'']"
    "audit_rows p g rows" "chain hmac key 1 prev fs = Some rows"
  obtains f fs' m rest where "fs = f # fs'" "rows = event_row 1 f prev m # rest"
    "audit_rows p h' (event_row 1 (retarget f) prev m # rest)" "only_db p g h'" "retarget f \<noteq> f"
proof -
  let ?t = "made audit_schema audit_unique rows" and ?hit = "first_with_other_target"
  have "tamper_copied_audit p g = (Inr (), h')" using assms(1,2) by (simp add: damage_copy_def)
  then have "transaction p (update_exactly_one (lit ''audit_events'') (lit ''target_id'')
      tampered_target [lit ''sequence_no''] ?hit ''baseline audit database has no suitable event to tamper'') g = (Inr (), h')"
    by (auto simp: tamper_copied_audit_def try_except_eq_iff)
  then have tr: "transaction p (update_exactly_one audit_table (fst (audit_schema ! 5))
      tampered_target [lit ''sequence_no''] ?hit ''baseline audit database has no suitable event to tamper'') g = (Inr (), h')"
    by (simp add: audit_table_def audit_schema_def)
  have fresh: "\<forall>u \<in> set audit_unique. fst (audit_schema ! 5) \<notin> set u" "set [lit ''sequence_no''] \<subseteq> set (map fst audit_schema)"
    "tampered_target \<noteq> SqlNull" by (simp_all add: audit_unique_def audit_schema_def tampered_target_def)
  from transaction_update [OF tr assms(3) _ _ fresh(2) fixed_values(2) fresh(3,1)]
  have up: "only_db p g h'" "length (filter (?hit ?t) rows) = 1" "audit_rows p h' (updated (?hit ?t) 5 tampered_target rows)"
    by simp_all
  then obtain r where "r \<in> set rows" "?hit ?t r" by (metis filter_False length_0_conv zero_neq_one)
  then obtain i where i: "i < length rows" "?hit ?t (rows ! i)" by (auto simp: in_set_conv_nth)
  with first_of_chain [OF assms(4)] have i0: "i = 0" "sql_ne (rows ! 0 ! 5) tampered_target" by auto
  obtain f fs' where fs: "fs = f # fs'" using i(1) assms(4) by (cases fs) auto
  with assms(4) obtain msg rest where rows: "rows = event_row 1 f prev (hmac key msg) # rest"
    by (auto split: option.splits)
  let ?r0 = "event_row 1 f prev (hmac key msg)"
  have "updated (?hit ?t) 5 tampered_target rows = ?r0[5 := tampered_target] # rest"
  proof (rule nth_equalityI)
    fix k assume "k < length (updated (?hit ?t) 5 tampered_target rows)"
    then have "k < length rows" by (simp add: updated_def)
    with first_of_chain [OF assms(4) this] i0 rows
    show "updated (?hit ?t) 5 tampered_target rows ! k = (?r0[5 := tampered_target] # rest) ! k"
      by (cases k) (auto simp: updated_def)
  qed (simp add: updated_def rows)
  moreover have "?r0[5 := tampered_target] = event_row 1 (retarget f) prev (hmac key msg)"
    by (simp add: event_row_def retarget_def tampered_target_def)
  moreover have "retarget f \<noteq> f"
  proof
    assume same: "retarget f = f"
    have "af_target_id (retarget f) = lit ''tampered-target-id''" by (simp add: retarget_def)
    then have "af_target_id f = lit ''tampered-target-id''" unfolding same .
    with i0(2) rows show False by (simp add: nth_event_row sql_ne_def tampered_target_def)
  qed
  ultimately show thesis using that fs rows up(1,3) by metis
qed

lemma event_row_mac: "event_row n f p m = event_row n' f' p' m' \<Longrightarrow> m = m'"
  by (drule arg_cong [where f = "\<lambda>r. r ! 10"]) (simp add: nth_event_row)

lemma chain_head_link:
  assumes "chain hmac key n prev (f # fs) = Some (event_row n f prev m # rest)"
  obtains msg where "link_message n f prev = Some msg" "hmac key msg = m" "chain hmac key (n + 1) m fs = Some rest"
proof -
  from assms obtain msg rs where msg: "link_message n f prev = Some msg" "chain hmac key (n + 1) (hmac key msg) fs = Some rs"
    "event_row n f prev (hmac key msg) # rs = event_row n f prev m # rest"
    by (cases "link_message n f prev") auto
  then have "hmac key msg = m" "rs = rest" using event_row_mac by blast+
  with msg that show thesis by simp
qed

lemma verify_retargeted:
  assumes "hmac_sized hmac" "length prev = 32" "chain hmac key n prev (f # fs) = Some (event_row n f prev m # rest)"
    "link_message n g prev = Some msg"
  shows "verify_rows hmac key n prev (event_row n g prev m # rest) = Inr () \<longleftrightarrow> hmac key msg = m"
proof -
  obtain msg0 where "hmac key msg0 = m" "chain hmac key (n + 1) m fs = Some rest"
    by (rule chain_head_link [OF assms(3)])
  then have m: "length m = 32" "verify_rows hmac key (n + 1) m rest = Inr ()"
    using assms(1) verify_rows_chain [OF assms(1), of m key "n + 1" rest] by (auto simp: hmac_sized_def)
  then have "stored_fields (event_row n g prev m) = Inr (n, g, prev, m)"
    using assms(2) by (simp add: event_row_fields)
  with m(2) assms(4) show ?thesis
    by (auto simp: macs_match_def calculate_event_mac_def link_message_def split: sum.splits)
qed

text \<open>
  C40. The tampered trail is detected, unless the MAC collides: the baseline trail verifies, the copy
  holds it with another target in its first event and nothing else changed, and the verification of
  the copy with the copied key reports an integrity failure exactly if the key gives the two first
  messages (that differ) different MACs.
\<close>

theorem tampered_lab_detected:
  assumes "prepare_negative_lab c h = (Inr (), h')" "nl_scenario c = lit ''tampered-audit''"
    "resolve_path h (nl_source c) = Inr source" "resolve_path h (nl_destination c) = Inr destination"
    "audit_rows (source @ [lit ''audit.db'']) h rows" "key_of h (source @ [lit ''audit.key'']) = Some key"
    "hmac_sized hmac" "verify_rows hmac key 1 genesis_mac rows = Inr ()" "h_files g = h_files h'" "h_faults g = []"
  shows "\<exists>f m rest msg msg'. rows = event_row 1 f genesis_mac m # rest
    \<and> audit_rows (destination @ [lit ''audit.db'']) g (event_row 1 (retarget f) genesis_mac m # rest)
    \<and> link_message 1 f genesis_mac = Some msg \<and> hmac key msg = m
    \<and> link_message 1 (retarget f) genesis_mac = Some msg' \<and> msg' \<noteq> msg
    \<and> fst (verify_integrity hmac (get_key (destination @ [lit ''audit.key''])) (destination @ [lit ''audit.db'']) g)
        = (if hmac key msg' = hmac key msg then Inr () else Inl integrity_failed)"
proof -
  let ?p = "destination @ [lit ''audit.db'']" and ?k = "destination @ [lit ''audit.key'']"
  have gen: "length genesis_mac = 32" by (simp add: genesis_mac_def)
  from prepare_run [OF assms(1)] assms(2-4) obtain i where
    made: "negative_lab_made source destination (lit ''tampered-audit'') h i h'" by auto
  then have dmg: "damage_copy destination (lit ''tampered-audit'') i = (Inr (), h')"
    and copy: "\<forall>n \<in> {lit ''audit.key'', lit ''audit.db''}. \<exists>m d. h_files h (source @ [n]) = Some (Regular m d)
        \<and> h_files i (destination @ [n]) = Some (Regular 0x180 d)"
    by (auto simp: negative_lab_made_def copied_names_def)
  from copy obtain m0 d0 where "h_files h (source @ [lit ''audit.db'']) = Some (Regular m0 d0)"
    "h_files i ?p = Some (Regular 0x180 d0)" by auto
  from copied_table [OF this] assms(5) have rows: "audit_rows ?p i rows" by (simp add: table_rows_def)
  from assms(7,8) obtain fs where fs: "chain hmac key 1 genesis_mac fs = Some rows"
    using verify_rows_chain [OF assms(7) gen] by blast
  obtain f fs' m rest where t: "fs = f # fs'" "rows = event_row 1 f genesis_mac m # rest"
    "audit_rows ?p h' (event_row 1 (retarget f) genesis_mac m # rest)" "only_db ?p i h'" "retarget f \<noteq> f"
    by (rule tamper_run [OF dmg refl rows fs])
  let ?rows = "event_row 1 (retarget f) genesis_mac m # rest"
  obtain msg where msg: "link_message 1 f genesis_mac = Some msg" "hmac key msg = m"
    by (rule chain_head_link [OF fs [unfolded t(1,2)]])
  then obtain c1 where "canonical_event_bytes 1 f = Inr c1" by (auto simp: link_message_def split: sum.splits)
  from canonical_other_target [OF this encodable_lit, of "''tampered-target-id''"] obtain c2 where
    "canonical_event_bytes 1 (retarget f) = Inr c2" by (auto simp: retarget_def)
  then have msg': "link_message 1 (retarget f) genesis_mac = Some (c2 @ genesis_mac)" by (simp add: link_message_def)
  define msg' where "msg' = c2 @ genesis_mac"
  note msg' = msg' [folded msg'_def]
  have diff: "msg' \<noteq> msg" using link_message_inject [OF msg(1) _ gen gen] msg' t(5) by metis
  have v: "verify_rows hmac key 1 genesis_mac ?rows = Inr () \<longleftrightarrow> hmac key msg' = m"
    using verify_retargeted [OF assms(7) gen _ msg'] fs t(1,2) by simp
  have sorted: "sort_key (\<lambda>r. r ! 0) ?rows = ?rows"
  proof -
    have "sorted (map (\<lambda>r. r ! 0) rows)" using sorted_sort_key [of "\<lambda>r. r ! 0" rows] chain_sorted [OF fs] by simp
    then show ?thesis unfolding t(2) by (intro sort_key_sorted) (simp add: nth_event_row)
  qed
  have rowsg: "audit_rows ?p g ?rows" using t(3) same_tables_rows [OF assms(9)] by blast
  have key: "key_of g ?k = Some key" "length key = 32"
  proof -
    from copy obtain m d where d: "h_files h (source @ [lit ''audit.key'']) = Some (Regular m d)"
      "h_files i ?k = Some (Regular 0x180 d)" by auto
    have "?k \<noteq> ?p" by simp
    with only_db_files [OF t(4)] d(2) assms(9) have "h_files g ?k = Some (Regular 0x180 d)" by simp
    with d(1) assms(6) show "key_of g ?k = Some key" "length key = 32" by (auto simp: key_of_def split: if_splits)
  qed
  obtain q g' where q: "verify_integrity hmac (get_key ?k) ?p g = (q, g')" by fastforce
  note run = key_file.verify_run [OF rowsg q]
  have "q = (if hmac key msg' = m then Inr () else Inl integrity_failed)"
    using run key v assms(10) sorted by (auto split: sum.splits)
  with t(2) rowsg msg msg' diff q show ?thesis by auto
qed

end
