(* ===== verification/Negative_Works.thy ===== *)
theory Negative_Works
  imports Negative_Safety
begin

text \<open>
  The negative lab tool succeeds on a provisioned lab: without faults of the host every step works,
  whatever the sizes of the partial writes. The runs on concrete hosts are at the end.
\<close>

section \<open>Copies without faults\<close>

lemma stream_write_quiet:
  assumes "holds d m c off h0 h" "off \<le> stop" "h_faults h = []"
  shows "\<exists>off' h'. stream_write d c stop off n h = ((Inr (), stop + n, off'), h') \<and> h_faults h' = []"
proof (cases "stop + n \<le> off + 8192")
  case True
  with assms(3) show ?thesis by (simp add: stream_write_def)
next
  case False
  have f: "h_files h d = Some (Regular m (content_prefix off c))" using assms(1) by (simp add: holds_def)
  obtain off1 h1 where 1: "flush_to d c stop off h = ((Inr (), off1), h1)" "h_faults h1 = []"
    by (rule drain_quiet [OF assms(3) f])
  from flush_to_run [OF 1(1) assms(1,2)] have "holds d m c off1 h0 h1" by blast
  then have f1: "h_files h1 d = Some (Regular m (content_prefix off1 c))" by (simp add: holds_def)
  obtain off2 h2 where "drain 8192 d c (stop + n) off1 h1 = ((Inr (), off2), h2)" "h_faults h2 = []"
    by (rule drain_quiet [OF 1(2) f1])
  with False 1 show ?thesis by (simp add: stream_write_def)
qed

lemma copy_stream_quiet:
  assumes "holds d m c off h0 h" "off \<le> stop" "h_faults h = []"
  shows "\<exists>stop' off' h'. copy_stream d c stop off h = ((Inr (), stop', off'), h') \<and> h_faults h' = []"
  using assms
proof (induction d c stop off h rule: copy_stream.induct)
  case (1 d c stop off h)
  let ?chunk = "take copy_bufsize (drop stop (content_bytes c))"
  have r: "stream_read c stop copy_bufsize h = (Inr ?chunk, h)" using "1.prems"(3) by (simp add: stream_read_def)
  show ?case
  proof (cases "?chunk = []")
    case True
    with r "1.prems"(3) show ?thesis by (simp add: copy_stream.simps [of d c stop off h])
  next
    case False
    from stream_write_quiet [OF "1.prems", of "length ?chunk"] obtain off2 h2 where
      w: "stream_write d c stop off (length ?chunk) h = ((Inr (), stop + length ?chunk, off2), h2)" "h_faults h2 = []"
      by blast
    from stream_write_run [OF w(1) "1.prems"(1,2)] have "holds d m c off2 h0 h2" "off2 \<le> stop + length ?chunk"
      by simp_all
    from "1.IH" [OF r [symmetric] refl False w(1) [symmetric] refl refl refl this w(2)]
    show ?thesis using r False w(1) by (simp add: copy_stream.simps [of d c stop off h])
  qed
qed

lemma write_copy_quiet:
  assumes "holds d m c 0 h0 h" "h_faults h = []"
  shows "\<exists>h'. write_copy d c h = (Inr (), h') \<and> h_faults h' = []"
proof -
  from copy_stream_quiet [OF assms(1) _ assms(2)] obtain stop off h1 where
    1: "copy_stream d c 0 0 h = ((Inr (), stop, off), h1)" "h_faults h1 = []" by blast
  from copy_stream_run [OF 1(1) assms(1)] have h1: "holds d m c off h0 h1" "off \<le> stop" by simp_all
  then have "h_files h1 d = Some (Regular m (content_prefix off c))" by (simp add: holds_def)
  from drain_quiet [OF 1(2) this] obtain off2 h2 where 2: "flush_to d c stop off h1 = ((Inr (), off2), h2)"
    "h_faults h2 = []" .
  from flush_to_run [OF 2(1) h1] have "h_files h2 d = Some (Regular m (content_prefix off2 c))" by (simp add: holds_def)
  from close_stream_quiet [OF 2(2) this] obtain h3 where 3: "close_stream d c stop off2 h2 = (Inr (), h3)"
    "h_faults h3 = []" .
  have "seq (lift (Inr ())) (os_fsync d) h2 = (Inr (), h2)" using 2(2) by (simp add: seq_apply os_fsync_def)
  from try_finally_value [where m = "seq (lift (Inr ())) (os_fsync d)" and k = "close_stream d c stop off2", OF this 3(1)]
    1(1) 2(1) 3(2) show ?thesis by (simp add: write_copy_def)
qed

lemma copy_private_file_quiet:
  assumes "h_faults h = []" "h_files h src = Some (Regular ms c)" "h_files h dst = None" "parent_ok h dst"
  shows "\<exists>h'. copy_private_file src dst h = (Inr (), h') \<and> h_faults h' = []"
proof -
  let ?h = "put_node dst (Regular 0x180 (Bytes [])) h"
  have src: "src \<noteq> dst" using assms(2,3) by auto
  have f: "h_faults ?h = []" "holds dst 0x180 c 0 ?h ?h" "stat_node ?h src = Some (Regular ms c)"
    using assms(1,2) src empty_content [of c]
    by (auto simp: put_node_def holds_def content_prefix_0 stat_no_link)
  from write_copy_quiet [OF f(2,1)] obtain h1 where w: "write_copy dst c ?h = (Inr (), h1)" "h_faults h1 = []" by blast
  have "os_close src h1 = (Inr (), h1)" using w(2) by (simp add: os_close_def)
  from try_finally_value [where m = "write_copy dst c" and k = "os_close src", OF w(1) this]
  have "try_finally (write_copy dst c) (os_close src) ?h = (Inr (), h1)" by simp
  moreover have "os_create dst 0x180 h = (Inr dst, put_node dst (Regular (0x180 AND NOT (h_umask h)) (Bytes [])) h)"
    using assms(1,3,4) by (simp add: os_create_def)
  moreover have "os_fchmod dst 0x180 (put_node dst (Regular (0x180 AND NOT (h_umask h)) (Bytes [])) h) = (Inr (), ?h)"
    using assms(1) by (simp add: os_fchmod_def put_node_def)
  moreover have "open_binary src ?h = (Inr c, ?h)" using f by (simp add: open_binary_def)
  ultimately show ?thesis using f(1) w(2)
    by (simp add: copy_private_file_def bind_apply seq_apply try_except_def)
qed

lemma copy_files_quiet:
  assumes "h_faults h = []" "h_files h dst = Some (Directory m)" "\<forall>p \<in> set ps. \<exists>m c. h_files h p = Some (Regular m c)"
    "distinct (map path_name ps)" "\<forall>p \<in> set ps. h_files h (dst @ [path_name p]) = None"
  shows "\<exists>h'. copy_files dst ps h = (Inr (), h') \<and> h_faults h' = []"
  using assms
proof (induction ps arbitrary: h)
  case (Cons p ps)
  let ?d = "dst @ [path_name p]"
  from Cons.prems(3) obtain ms c where p: "h_files h p = Some (Regular ms c)" by auto
  have "parent_ok h ?d" "h_files h ?d = None" using Cons.prems(2,5) by (simp_all add: parent_ok_def)
  with copy_private_file_quiet [OF Cons.prems(1) p] obtain h1 where
    1: "copy_private_file p ?d h = (Inr (), h1)" "h_faults h1 = []" by blast
  from copy_private_file_run [OF 1(1) p] have a: "confined {?d} h h1" "grows h h1" by simp_all
  have "\<forall>q \<in> set ps. h_files h1 (dst @ [path_name q]) = None"
  proof
    fix q assume q: "q \<in> set ps"
    then have "path_name q \<noteq> path_name p" using Cons.prems(4) by (metis distinct.simps(2) image_eqI list.simps(9) set_map)
    with confinedD [OF a(1), of "dst @ [path_name q]"] q Cons.prems(5)
    show "h_files h1 (dst @ [path_name q]) = None" by simp
  qed
  moreover have "\<forall>q \<in> set ps. \<exists>m c. h_files h1 q = Some (Regular m c)" using Cons.prems(3) growsD [OF a(2)] by fastforce
  ultimately obtain h' where "copy_files dst ps h1 = (Inr (), h')" "h_faults h' = []"
    using Cons.IH [OF 1(2) growsD [OF a(2) Cons.prems(2)]] Cons.prems(4) by auto
  with 1(1) show ?case by (simp add: seq_apply)
qed simp

section \<open>A run without faults\<close>

text \<open>The baseline is complete, and there is room for the new lab.\<close>

definition negative_ready :: "negative_lab_config \<Rightarrow> path \<Rightarrow> path \<Rightarrow> dbhost \<Rightarrow> bool" where
  "negative_ready c source destination h \<longleftrightarrow> h_faults h = [] \<and> nl_scenario c \<in> set scenarios
     \<and> resolve_path h (nl_source c) = Inr source \<and> resolve_path h (nl_destination c) = Inr destination
     \<and> placed source destination \<and> (\<exists>m. h_files h source = Some (Directory m))
     \<and> h_files h destination = None \<and> (\<forall>n. h_files h (destination @ [n]) = None)
     \<and> (parent_ok h destination \<or> h_files h (butlast destination) = None \<and> parent_ok h (butlast destination))
     \<and> (let a = exists_path h (source @ [lit ''audit.db'']) in (nl_scenario c = lit ''tampered-audit'' \<longrightarrow> a)
          \<and> (\<forall>n \<in> set (copied_names (nl_scenario c) a). \<exists>m d. h_files h (source @ [n]) = Some (Regular m d)))"

lemma create_destination_quiet:
  assumes "h_faults h = []" "h_files h p = None" "p \<noteq> []"
    "parent_ok h p \<or> h_files h (butlast p) = None \<and> parent_ok h (butlast p)"
  shows "\<exists>h'. create_private_destination p h = (Inr (), h') \<and> h_faults h' = []"
proof -
  let ?b = "butlast p"
  obtain h1 where 1: "mkdir_parents 0x1FF ?b h = (Inr (), h1)" "h_faults h1 = []" "parent_ok h1 p" "h_files h1 p = None"
  proof (cases "parent_ok h p")
    case True
    then obtain m where m: "h_files h ?b = Some (Directory m)" by (auto simp: parent_ok_def split: option.splits node.splits)
    then have "mkdir_parents 0x1FF ?b h = (Inr (), h)"
      using assms(1) answers_quiet [OF questions_answered(4), of h ?b] stat_no_link [of h ?b]
      by (simp add: mkdir_parents.simps [of _ ?b] os_mkdir_def try_except_def accept_directory_def bind_apply)
    with True assms(1,2) that show thesis by blast
  next
    case False
    with assms(4) have b: "h_files h ?b = None" "parent_ok h ?b" by simp_all
    then have "h_files h (butlast ?b) \<noteq> None" by (auto simp: parent_ok_def split: option.splits)
    with b assms(1) have m: "mkdir_parents 0x1FF ?b h = (Inr (), put_node ?b (Directory (0x1FF AND NOT (h_umask h))) h)"
      by (cases "?b = []") (auto simp: mkdir_parents.simps [of _ ?b] os_mkdir_def try_except_def)
    have "?b \<noteq> p" using assms(3) by (metis append_butlast_last_id not_Cons_self2 append_self_conv)
    with that m assms(1,2) show thesis by (simp add: put_node_def parent_ok_def)
  qed
  let ?h2 = "put_node p (Directory (0x1C0 AND NOT (h_umask h1))) h1"
  have pb: "h_files h1 (butlast p) \<noteq> None" using 1(3) by (auto simp: parent_ok_def split: option.splits)
  have 2: "os_mkdir p 0x1C0 h1 = (Inr (), ?h2)" using 1 pb by (simp add: os_mkdir_def)
  have "os_chmod p 0x1C0 ?h2 = (Inr (), put_node p (Directory 0x1C0) ?h2)" "h_faults (put_node p (Directory 0x1C0) ?h2) = []"
    using 1(2) by (simp_all add: os_chmod_def put_node_def follow_no_link)
  with 1(1) 2 show ?thesis by (simp add: create_private_destination_def try_except_def seq_apply)
qed

lemma prepare_quiet:
  assumes "negative_ready c source destination h"
    and works: "\<And>g. h_faults g = [] \<Longrightarrow> (\<forall>n \<in> set (copied_names (nl_scenario c) (exists_path h (source @ [lit ''audit.db'']))).
      \<exists>m d. h_files h (source @ [n]) = Some (Regular m d) \<and> h_files g (destination @ [n]) = Some (Regular 0x180 d))
      \<Longrightarrow> \<exists>g'. damage_copy destination (nl_scenario c) g = (Inr (), g')"
  shows "\<exists>h'. prepare_negative_lab c h = (Inr (), h')"
proof -
  let ?s = "nl_scenario c"
  define a where "a = exists_path h (source @ [lit ''audit.db''])"
  let ?ps = "map (\<lambda>n. source @ [n]) (copied_names ?s a)"
  from assms(1) obtain m where r: "h_faults h = []" "?s \<in> set scenarios" "resolve_path h (nl_source c) = Inr source"
    "resolve_path h (nl_destination c) = Inr destination" "placed source destination" "h_files h source = Some (Directory m)"
    "h_files h destination = None" "\<forall>n. h_files h (destination @ [n]) = None" "?s = lit ''tampered-audit'' \<longrightarrow> a"
    "parent_ok h destination \<or> h_files h (butlast destination) = None \<and> parent_ok h (butlast destination)"
    "\<forall>n \<in> set (copied_names ?s a). \<exists>m d. h_files h (source @ [n]) = Some (Regular m d)"
    unfolding negative_ready_def a_def Let_def by blast
  obtain root n where rt: "source = root @ [lit ''runtime'', lit ''lab'']"
    "destination = root @ [lit ''runtime'', lit ''scenarios'', n]" using r(5) by (auto simp: placed_def)
  have taken: "either (path_exists destination) (path_is_symlink destination) h = (Inr False, h)"
    using answers_quiet [OF taken_answered r(1), of destination] r(7) by simp
  have "validate_paths c h = (Inr (source, destination), h)"
    using r(2-4) taken rt
    by (simp add: validate_paths_def seq_apply bind_apply resolve_both_def raise_if_def try_except_def
        path_name_def in_parents_def butlast_append)
  moreover have "validate_source source ?s h = (Inr ?ps, h)"
  proof -
    have "both (path_is_dir source) (negate (path_is_symlink source)) h = (Inr True, h)"
      using answers_quiet [OF directory_answered r(1), of source] r(6) by simp
    moreover have "path_exists (source @ [lit ''audit.db'']) h = (Inr a, h)"
      using answers_quiet [OF questions_answered(2) r(1)] by (simp add: a_def)
    moreover have "source_filenames ?s a = Inr (copied_names ?s a)"
      using r(9) by (auto simp: source_filenames_def copied_names_def)
    moreover have "all_safe ?ps h = (Inr True, h)"
      using answers_quiet [OF all_safe_answered r(1), of ?ps] r(11) by simp
    ultimately show ?thesis
      by (simp add: validate_source_def bind_apply seq_apply try_except_def raise_if_def Let_def)
  qed
  moreover obtain h1 where 1: "create_private_destination destination h = (Inr (), h1)" "h_faults h1 = []"
    using create_destination_quiet [OF r(1,7) _ r(10)] rt(2) by auto
  moreover have "\<exists>h' u. seq (copy_files destination ?ps) (damage_copy destination ?s) h1 = (Inr u, h')"
  proof -
    have "destination \<noteq> []" by (simp add: rt(2))
    from create_destination_run [OF 1(1) r(7) this] have d: "adds_above destination h h1"
      "h_files h1 destination = Some (Directory 0x1C0)" by simp_all
    have below: "h_files h1 (destination @ [n]) = None" for n
    proof -
      have "\<not> leads_to (destination @ [n]) destination" using leads_to_length by fastforce
      with d(1) r(8) show ?thesis unfolding adds_above_def by metis
    qed
    have keep: "h_files h p = Some x \<Longrightarrow> h_files h1 p = Some x" for p x
      using d(1) growsD by (auto simp: adds_above_def)
    have reg: "\<forall>p \<in> set ?ps. \<exists>m c. h_files h1 p = Some (Regular m c)" using r(11) keep by fastforce
    have "map path_name ?ps = copied_names ?s a" by (simp add: comp_def)
    then have "distinct (map path_name ?ps)"
      by (simp add: copied_names_def required_files_def optional_files_def)
    with copy_files_quiet [OF 1(2) d(2) reg] below obtain h2 where
      2: "copy_files destination ?ps h1 = (Inr (), h2)" "h_faults h2 = []" by auto
    from copy_files_run [OF 2(1) reg] have cp: "\<forall>p m c. p \<in> set ?ps \<longrightarrow> h_files h1 p = Some (Regular m c) \<longrightarrow>
      h_files h2 (destination @ [path_name p]) = Some (Regular 0x180 c)" by simp
    have "\<forall>n \<in> set (copied_names ?s a). \<exists>m d. h_files h (source @ [n]) = Some (Regular m d)
        \<and> h_files h2 (destination @ [n]) = Some (Regular 0x180 d)"
    proof
      fix n assume n: "n \<in> set (copied_names ?s a)"
      with r(11) obtain m d where f: "h_files h (source @ [n]) = Some (Regular m d)" by blast
      from cp n keep [OF f] have "h_files h2 (destination @ [n]) = Some (Regular 0x180 d)" by fastforce
      with f show "\<exists>m d. h_files h (source @ [n]) = Some (Regular m d)
        \<and> h_files h2 (destination @ [n]) = Some (Regular 0x180 d)" by blast
    qed
    from works [OF 2(2) this [unfolded a_def]] 2(1) show ?thesis by (auto simp: seq_apply)
  qed
  ultimately show ?thesis
    by (auto simp: prepare_negative_lab_def bind_apply seq_apply try_except_def)
qed

section \<open>The tool succeeds on a provisioned lab\<close>

lemma single_update_quiet:
  assumes "table_rows n cols uq p h [r0]" "h_faults h = []" "pr (made cols uq [r0]) r0" "distinct (map fst cols)"
    "k < length cols" "set names \<subseteq> set (map fst cols)" "bind_value v = Inr ()" "v \<noteq> SqlNull"
    "\<forall>u \<in> set uq. fst (cols ! k) \<notin> set u" "c = fst (cols ! k)"
  shows "\<exists>h'. transaction p (update_exactly_one n c v names pr m) h = (Inr (), h')"
proof -
  obtain r h' where r: "transaction p (update_exactly_one n (fst (cols ! k)) v names pr m) h = (r, h')" by fastforce
  from transaction_update [OF r assms(1,4-9)] assms(2,3) have "r = Inr ()" by auto
  with r assms(10) show ?thesis by blast
qed

lemma damage_config_quiet:
  assumes "s \<in> set scenarios" "s \<noteq> lit ''tampered-audit''" "h_faults g = []" "p = dst @ [lit ''config.db'']"
    "target_rows p g [target_row t]" "account_rows p g [account_row a]" "policy_rows p g [vals]"
    "policy_serialize x = Inr vals" "pol_id x = lit ''policy-001''" "pol_effect x = ALLOW"
    "tgt_id t = lit ''target-001''" "tgt_enabled t" "hkf_value (tgt_expected_host_key t) \<noteq> bad_host_key"
    "acc_id a = lit ''account-001''" "acc_enabled a"
  shows "\<exists>g'. damage_copy dst s g = (Inr (), g')"
proof -
  have cell: "field (made cols uq rows) r (fst (cols ! k)) = r ! k"
    if "distinct (map fst cols)" "length r = length cols" "k < length cols" for cols uq rows r k
    by (rule field_made [OF that])
  have vals: "vals = [SqlText (pol_id x), SqlText (pol_user_id x), SqlText (pol_target_id x),
      SqlText (action_value (pol_action x)), SqlText (lit ''allow'')]"
    using assms(8,10) by (auto simp: policy_serialize_def thenR_def split: sum.splits)
  have pol: "field (made policy_schema uq rows) vals (lit ''id'') = vals ! 0"
    "field (made policy_schema uq rows) vals (lit ''effect'') = vals ! 4" for uq rows
    using cell [of policy_schema vals 0 uq rows] cell [of policy_schema vals 4 uq rows]
    by (simp_all add: policy_schema_def vals)
  have tgt: "field (made target_schema uq rows) (target_row t) (lit ''id'') = target_row t ! 0"
    "field (made target_schema uq rows) (target_row t) (lit ''enabled'') = target_row t ! 5"
    "field (made target_schema uq rows) (target_row t) (lit ''expected_host_key'') = target_row t ! 4" for uq rows
    using cell [of target_schema "target_row t" 0 uq rows] cell [of target_schema "target_row t" 5 uq rows]
      cell [of target_schema "target_row t" 4 uq rows]
    by (simp_all add: target_schema_def target_row_def)
  have acc: "field (made account_schema uq rows) (account_row a) (lit ''id'') = account_row a ! 0"
    "field (made account_schema uq rows) (account_row a) (lit ''enabled'') = account_row a ! 4" for uq rows
    using cell [of account_schema "account_row a" 0 uq rows] cell [of account_schema "account_row a" 4 uq rows]
    by (simp_all add: account_schema_def account_row_def)
  have conclude: "\<exists>g'. damage_copy dst s g = (Inr (), g')"
    if "statement_of s = Some (n, c, v, i, q)"
      "\<exists>h'. transaction p (update_exactly_one n c v [lit ''id'', c]
         (\<lambda>t r. sql_eq (field t r (lit ''id'')) (SqlText i) \<and> q (field t r c))
         ''baseline configuration does not match scenario expectations'') g = (Inr (), h')" for n c v i q
    using that assms(2,4) by (auto simp: damage_copy_def mutate_copied_config_def try_except_def)
  from assms(1,2) consider "s = lit ''deny''" | "s = lit ''disabled-target''" | "s = lit ''disabled-account''"
    | "s = lit ''bad-host-key''" by (auto simp: scenarios_def)
  then show ?thesis
  proof cases
    case 1
    have "statement_of s = Some (policies_table, lit ''effect'', SqlText (lit ''deny''), lit ''policy-001'',
        \<lambda>v. sql_eq v (SqlText (lit ''allow'')))" by (simp add: 1 statement_of_def policies_table_def)
    then show ?thesis
      by (rule conclude, intro single_update_quiet [where k = 4, OF assms(7,3)])
        (use vals pol encodable_lit assms(9) in \<open>auto simp: policy_schema_def\<close>)
  next
    case 2
    have "statement_of s = Some (targets_table, lit ''enabled'', SqlInt 0, lit ''target-001'', \<lambda>v. sql_eq v (SqlInt 1))"
      by (simp add: 2 statement_of_def targets_table_def)
    then show ?thesis
      by (rule conclude, intro single_update_quiet [where k = 5, OF assms(5,3)])
        (use tgt assms(11,12) in \<open>auto simp: target_schema_def target_row_def flag_value_def sql_eq_def\<close>)
  next
    case 3
    have "statement_of s = Some (accounts_table, lit ''enabled'', SqlInt 0, lit ''account-001'', \<lambda>v. sql_eq v (SqlInt 1))"
      by (simp add: 3 statement_of_def accounts_table_def)
    then show ?thesis
      by (rule conclude, intro single_update_quiet [where k = 4, OF assms(6,3)])
        (use acc assms(14,15) in \<open>auto simp: account_schema_def account_row_def flag_value_def sql_eq_def\<close>)
  next
    case 4
    have "statement_of s = Some (targets_table, lit ''expected_host_key'', SqlText bad_host_key, lit ''target-001'',
        \<lambda>v. sql_ne v (SqlText bad_host_key))" by (simp add: 4 statement_of_def targets_table_def)
    then show ?thesis
      by (rule conclude, intro single_update_quiet [where k = 4, OF assms(5,3)])
        (use tgt assms(11,13) bad_host_key_facts in \<open>auto simp: target_schema_def target_row_def sql_ne_def\<close>)
  qed
qed

text \<open>The records of the tool's own identifiers, whose pin is not the one the scenario sets\<close>

definition default_ids :: "lab_config \<Rightarrow> bool" where
  "default_ids c \<longleftrightarrow> lc_policy_id c = lit ''policy-001'' \<and> lc_target_id c = lit ''target-001''
     \<and> lc_account_id c = lit ''account-001'' \<and> lc_host_key_fingerprint c \<noteq> bad_host_key"

text \<open>There is room for a lab of the name \<open>n\<close> beside a baseline that has no audit trail yet.\<close>

definition roomy :: "path \<Rightarrow> pystr \<Rightarrow> dbhost \<Rightarrow> bool" where
  "roomy base n h \<longleftrightarrow> (\<exists>m. h_files h (base @ [lit ''runtime'']) = Some (Directory m))
     \<and> (h_files h (base @ [lit ''runtime'', lit ''scenarios'']) = None
        \<or> (\<exists>m. h_files h (base @ [lit ''runtime'', lit ''scenarios'']) = Some (Directory m)))
     \<and> (\<forall>p. h_files h (base @ [lit ''runtime'', lit ''scenarios'', n] @ p) = None)
     \<and> h_files h (base @ [lit ''runtime'', lit ''lab'', lit ''audit.db'']) = None"

lemma built_fields:
  assumes "build_records c = Inr x"
  shows "pol_id (lr_policy x) = lc_policy_id c" "tgt_id (lr_target x) = lc_target_id c" "tgt_enabled (lr_target x)"
    "acc_id (lr_account x) = lc_account_id c" "acc_enabled (lr_account x)"
    "hkf_value (tgt_expected_host_key (lr_target x)) = lc_host_key_fingerprint c"
  using assms
  by (auto simp: build_records_def constructor_defs thenR_def bindR_def catchR_def reject_def raise_if_def
      dest: parsed_fingerprint split: sum.splits if_splits)

lemma provisioned_files:
  assumes "provision_lab hasher cipher reader config h = (Inr paths, h')" "quiet_hasher hasher" "quiet_reader reader"
    "n \<in> set required_files"
  shows "\<exists>m d. h_files h' (lc_runtime_dir config @ [n]) = Some (Regular m d)"
proof -
  from provision_lab_run [OF assms(1-3)] have "provisioned hasher cipher reader config h h'" by simp
  then have s: "\<forall>p \<in> store_databases (paths_within (lc_runtime_dir config)). \<exists>c. h_files h' p = Some (Regular 0x180 c)"
    and k: "\<exists>key. key_of h' (lp_vault_key (paths_within (lc_runtime_dir config))) = Some key"
      "\<exists>key. key_of h' (lp_audit_key (paths_within (lc_runtime_dir config))) = Some key"
    unfolding provisioned_def Let_def by blast+
  have key: "key_of h' p = Some key \<Longrightarrow> \<exists>m d. h_files h' p = Some (Regular m d)" for p key
    by (auto simp: key_of_def split: option.splits node.splits if_splits)
  from assms(4) s k key show ?thesis
    by (auto simp: required_files_def store_databases_def paths_within_def)
qed

text \<open>
  The configuration scenarios succeed: from a provisioned lab with the identifiers the tool's
  statements name, with room for the new lab and without faults of the host, the tool prepares each
  of the four and exits with 0.
\<close>

theorem negative_lab_succeeds:
  assumes "provision_lab hasher cipher reader config i = (Inr paths, j)" "quiet_hasher hasher" "quiet_reader reader"
    "lc_runtime_dir config = base @ [lit ''runtime'', lit ''lab'']" "default_ids config"
    "h_files h = h_files j" "h_faults h = []" "roomy base n h"
    "nl_source c = lc_runtime_dir config" "nl_destination c = base @ [lit ''runtime'', lit ''scenarios'', n]"
    "nl_scenario c \<in> set scenarios" "nl_scenario c \<noteq> lit ''tampered-audit''"
  shows "\<exists>h'. prepare_negative_lab c h = (Inr (), h') \<and> negative_lab_main c h = (Inr (0, negative_report c), h')"
proof -
  let ?src = "lc_runtime_dir config" and ?dst = "nl_destination c" and ?s = "nl_scenario c"
  obtain x key pam tp where x: "build_records config = Inr x" "lab_data hasher cipher key paths x pam tp j"
    "paths = paths_within ?src" "h_files j ?src = Some (Directory 0x1C0)"
    by (rule provisioned_data [OF assms(1-3)])
  note b = built_fields [OF x(1)] and al = built_records(3) [OF x(1)]
  have dst: "h_files h (?dst @ p) = None" for p using assms(8,10) by (simp add: roomy_def)
  have noaudit: "\<not> exists_path h (?src @ [lit ''audit.db''])"
    using assms(4,8) by (simp add: roomy_def exists_path_def stat_no_link)
  have names: "copied_names ?s False = required_files" using assms(12) by (simp add: copied_names_def)
  have src: "h_files h ?src = Some (Directory 0x1C0)" using x(4) assms(6) by simp
  have "h_files h ?dst = None" using dst [of "[]"] by simp
  then have res: "resolve_path h ?dst = Inr ?dst" by (simp add: resolve_path_def follow_no_link)
  have "negative_ready c ?src ?dst h"
    unfolding negative_ready_def Let_def
  proof (intro conjI)
    show "placed ?src ?dst" using assms(4,10) by (auto simp: placed_def)
    show "parent_ok h ?dst \<or> h_files h (butlast ?dst) = None \<and> parent_ok h (butlast ?dst)"
      using assms(8,10) by (auto simp: roomy_def parent_ok_def butlast_append)
    show "\<forall>n \<in> set (copied_names ?s (exists_path h (?src @ [lit ''audit.db'']))).
        \<exists>m d. h_files h (?src @ [n]) = Some (Regular m d)"
      using provisioned_files [OF assms(1-3)] noaudit names assms(6) by simp
  qed (use assms(7,9,11,12) src res dst [of "[]"] dst noaudit resolve_directory [OF src] in auto)
  moreover have "\<exists>g'. damage_copy ?dst ?s g = (Inr (), g')"
    if g: "h_faults g = []" "\<forall>n \<in> set (copied_names ?s (exists_path h (?src @ [lit ''audit.db'']))).
      \<exists>m d. h_files h (?src @ [n]) = Some (Regular m d) \<and> h_files g (?dst @ [n]) = Some (Regular 0x180 d)" for g
  proof -
    have "lit ''config.db'' \<in> set required_files" by (simp add: required_files_def)
    with g(2) noaudit names obtain m d where "h_files h (?src @ [lit ''config.db'']) = Some (Regular m d)"
      "h_files g (?dst @ [lit ''config.db'']) = Some (Regular 0x180 d)" by auto
    from copied_table [OF this] have rows: "table_rows t cols uq (?dst @ [lit ''config.db'']) g rs
        = table_rows t cols uq (?src @ [lit ''config.db'']) j rs" for t cols uq rs
      using assms(6) by (simp add: table_rows_def table_at_def db_at_def)
    from x(2,3) obtain vals where d: "target_rows (?src @ [lit ''config.db'']) j [target_row (lr_target x)]"
      "account_rows (?src @ [lit ''config.db'']) j [account_row (lr_account x)]"
      "policy_rows (?src @ [lit ''config.db'']) j [vals]" "policy_serialize (lr_policy x) = Inr vals"
      by (auto simp: lab_data_def paths_within_def)
    from damage_config_quiet [OF assms(11,12) g(1) refl d(1-3) [folded rows] d(4)] b al assms(5)
    show ?thesis by (simp add: default_ids_def)
  qed
  ultimately obtain h' where "prepare_negative_lab c h = (Inr (), h')" using prepare_quiet by blast
  then show ?thesis by (simp add: negative_lab_main_def try_except_def seq_apply)
qed

section \<open>Runs\<close>

definition baseline_dir :: path where
  "baseline_dir = [lit ''runtime'', lit ''lab'']"

definition baseline_host :: dbhost where
  "baseline_host = lab_host\<lparr>h_files := [[] \<mapsto> Directory 0x1ED, [lit ''runtime''] \<mapsto> Directory 0x1ED]\<rparr>"

definition scenario_config :: "string \<Rightarrow> negative_lab_config" where
  "scenario_config s = \<lparr>nl_source = baseline_dir,
     nl_destination = [lit ''runtime'', lit ''scenarios'', lit s], nl_scenario = lit s\<rparr>"

lemma baseline_provisioned:
  obtains j where "provision_lab lab_argon2 toy_aead lab_reader (default_config baseline_dir) baseline_host
      = (Inr (paths_within baseline_dir), j)" "\<forall>n. roomy [] n (j\<lparr>h_faults := []\<rparr>)"
proof -
  let ?c = "default_config baseline_dir"
  have dir: "lc_runtime_dir ?c = baseline_dir" by (simp add: default_config_def)
  have "prepared (lc_runtime_dir ?c) baseline_host"
    unfolding dir by (simp add: prepared_def baseline_host_def lab_host_def baseline_dir_def parent_ok_def)
  from provision_succeeds_run [OF this default_storable lab_ready(3)] obtain j where
    j: "provision_lab lab_argon2 toy_aead lab_reader ?c baseline_host = (Inr (paths_within baseline_dir), j)"
    by (auto simp: dir)
  from provision_lab_run [OF j lab_quiet] have st: "lab_step baseline_dir baseline_host j" by (simp add: dir)
  then have "grows baseline_host j" by (simp add: lab_step_def)
  from growsD [OF this, of "[lit ''runtime'']"] have rt: "h_files j [lit ''runtime''] = Some (Directory 0x1ED)"
    by (simp add: baseline_host_def)
  have new: "h_files j p = None" if "h_files baseline_host p = None" "\<not> leads_to p baseline_dir" "p \<notin> lab_files baseline_dir" for p
    using st that unfolding lab_step_def by metis
  have sc: "h_files j (lit ''runtime'' # lit ''scenarios'' # p) = None" for p
    by (rule new) (auto simp: baseline_host_def leads_to_def baseline_dir_def lab_files_def store_databases_def
      paths_within_def)
  have "h_files j [lit ''runtime'', lit ''lab'', lit ''audit.db''] = None"
    by (rule new) (auto simp: baseline_host_def leads_to_def baseline_dir_def lab_files_def store_databases_def
      paths_within_def)
  with rt sc have "roomy [] n (j\<lparr>h_faults := []\<rparr>)" for n by (simp add: roomy_def)
  with j that show thesis by blast
qed

lemma baseline_ids: "default_ids (default_config baseline_dir)"
  by (simp add: default_ids_def default_config_def bad_host_key_def)

theorem negative_lab_succeeds_witness:
  "\<exists>j h' lines. provision_lab lab_argon2 toy_aead lab_reader (default_config baseline_dir) baseline_host
      = (Inr (paths_within baseline_dir), j)
    \<and> negative_lab_main (scenario_config ''bad-host-key'') (j\<lparr>h_faults := []\<rparr>) = (Inr (0, lines), h')"
proof -
  obtain j where j: "provision_lab lab_argon2 toy_aead lab_reader (default_config baseline_dir) baseline_host
      = (Inr (paths_within baseline_dir), j)" "\<forall>n. roomy [] n (j\<lparr>h_faults := []\<rparr>)" by (rule baseline_provisioned)
  from negative_lab_succeeds [OF j(1) lab_quiet _ baseline_ids _ _ j(2) [THEN spec], of "scenario_config ''bad-host-key''"] j(1)
  show ?thesis by (auto simp: scenario_config_def default_config_def baseline_dir_def scenarios_def)
qed

theorem negative_lab_scenarios_witness:
  "\<exists>j h' x. provision_lab lab_argon2 toy_aead lab_reader (default_config baseline_dir) baseline_host
      = (Inr (paths_within baseline_dir), j)
    \<and> prepare_negative_lab (scenario_config ''deny'') (j\<lparr>h_faults := []\<rparr>) = (Inr (), h')
    \<and> fst (policy_find_matching [lit ''runtime'', lit ''scenarios'', lit ''deny'', lit ''config.db'']
        (usr_id (lr_user x)) (tgt_id (lr_target x)) OPEN_PRIVILEGED_SESSION (h'\<lparr>h_faults := []\<rparr>))
      = Inr [lr_policy (damaged (lit ''deny'') x)]
    \<and> dec_effect (decide [lr_policy (damaged (lit ''deny'') x)]) = DENY"
proof -
  let ?c = "scenario_config ''deny''"
  have dst: "nl_destination ?c = [lit ''runtime'', lit ''scenarios'', lit ''deny'']" "nl_scenario ?c = lit ''deny''"
    "nl_source ?c = lc_runtime_dir (default_config baseline_dir)"
    by (simp_all add: scenario_config_def default_config_def)
  obtain j where j: "provision_lab lab_argon2 toy_aead lab_reader (default_config baseline_dir) baseline_host
      = (Inr (paths_within baseline_dir), j)" "\<forall>n. roomy [] n (j\<lparr>h_faults := []\<rparr>)" by (rule baseline_provisioned)
  let ?j = "j\<lparr>h_faults := []\<rparr>"
  obtain h' where h': "prepare_negative_lab ?c ?j = (Inr (), h')"
    using negative_lab_succeeds [OF j(1) lab_quiet _ baseline_ids _ _ j(2) [THEN spec], of ?c]
    by (auto simp: scenario_config_def default_config_def baseline_dir_def scenarios_def)
  have "h_files ?j (nl_destination ?c) = None" using j(2) by (simp add: roomy_def dst)
  then have res: "resolve_path ?j (nl_destination ?c) = Inr (nl_destination ?c)" by (simp add: resolve_path_def follow_no_link)
  from negative_lab_scenarios [OF j(1) lab_quiet toy_aead_correct _ dst(3) _ res h', of "h'\<lparr>h_faults := []\<rparr>"]
  show ?thesis using j(1) h' by (auto simp: dst refuses_def)
qed

theorem negative_lab_isolated_witness:
  "\<exists>r h'. prepare_negative_lab (scenario_config ''deny'') baseline_host = (r, h')
     \<and> h_files h' [lit ''runtime''] = Some (Directory 0x1ED) \<and> h_umask h' = h_umask baseline_host"
proof -
  obtain r h' where r: "prepare_negative_lab (scenario_config ''deny'') baseline_host = (r, h')" by fastforce
  have "h_files baseline_host [lit ''runtime''] = Some (Directory 0x1ED)" by (simp add: baseline_host_def)
  with negative_lab_isolated [OF r] r show ?thesis by blast
qed

text \<open>A baseline with a trail of one event, and a MAC that knows the message of that event\<close>

definition witness_mac :: hmac where
  "witness_mac k m = (if Some m = link_message 1 (example_fields ''e1'') genesis_mac
     then replicate 32 1 else replicate 32 2)"

lemma witness_mac_sized: "hmac_sized witness_mac"
  by (simp add: hmac_sized_def witness_mac_def)

definition trail_rows :: "row list" where
  "trail_rows = [event_row 1 (example_fields ''e1'') genesis_mac (replicate 32 1)]"

definition trail_host :: dbhost where
  "trail_host = \<lparr>h_files = [[] \<mapsto> Directory 0x1ED, [lit ''runtime''] \<mapsto> Directory 0x1ED,
       baseline_dir \<mapsto> Directory 0x1C0,
       baseline_dir @ [lit ''audit.key''] \<mapsto> Regular 0x180 (Bytes (replicate 32 1)),
       baseline_dir @ [lit ''audit.db''] \<mapsto> Regular 0x180 (Db \<lparr>db_version = 2, db_tables =
         [(audit_table, made audit_schema audit_unique trail_rows)]\<rparr>)],
     h_umask = 0x3F, h_entropy = [], h_faults = [], h_chunks = [0, 7]\<rparr>"

lemma trail_chain: "chain witness_mac key 1 genesis_mac [example_fields ''e1''] = Some trail_rows"
proof -
  obtain c where "canonical_event_bytes 1 (example_fields ''e1'') = Inr c"
    using canonical_encodable [OF example_fields_encodable] by blast
  then show ?thesis by (simp add: link_message_def witness_mac_def trail_rows_def)
qed

lemma tamper_quiet:
  assumes "h_faults g = []" "audit_rows (dst @ [lit ''audit.db'']) g rows" "chain hmac key 1 prev (f # fs) = Some rows"
    "af_target_id f \<noteq> lit ''tampered-target-id''"
  shows "\<exists>g'. damage_copy dst (lit ''tampered-audit'') g = (Inr (), g')"
proof -
  let ?p = "dst @ [lit ''audit.db'']" and ?hit = "first_with_other_target"
  let ?t = "made audit_schema audit_unique rows"
  obtain r h' where r: "transaction ?p (update_exactly_one audit_table (fst (audit_schema ! 5)) tampered_target
      [lit ''sequence_no''] ?hit ''baseline audit database has no suitable event to tamper'') g = (r, h')" by fastforce
  obtain r0 rest where rows: "rows = r0 # rest" "r0 ! 5 = SqlText (af_target_id f)"
    using assms(3) by (auto split: option.splits simp: nth_event_row)
  have "?hit ?t r0" using first_of_chain [OF assms(3), of 0] rows assms(4)
    by (simp add: sql_ne_def tampered_target_def)
  moreover have "\<not> ?hit ?t x" if "x \<in> set rest" for x
  proof -
    from that obtain k where "k < length rest" "rest ! k = x" unfolding in_set_conv_nth by blast
    with first_of_chain [OF assms(3), of "Suc k"] rows show ?thesis by simp
  qed
  ultimately have one: "length (filter (?hit ?t) rows) = 1" using rows by (simp add: filter_False)
  have fresh: "\<forall>u \<in> set audit_unique. fst (audit_schema ! 5) \<notin> set u" "set [lit ''sequence_no''] \<subseteq> set (map fst audit_schema)"
    "tampered_target \<noteq> SqlNull" by (simp_all add: audit_unique_def audit_schema_def tampered_target_def)
  from transaction_update [OF r assms(2) _ _ fresh(2) fixed_values(2) fresh(3,1)] one assms(1)
  have "r = Inr ()" by auto
  with r show ?thesis by (simp add: damage_copy_def tamper_copied_audit_def try_except_def audit_table_def audit_schema_def)
qed

theorem tampered_lab_detected_witness:
  "\<exists>h'. prepare_negative_lab (scenario_config ''tampered-audit'') trail_host = (Inr (), h')
     \<and> fst (verify_integrity witness_mac (get_key [lit ''runtime'', lit ''scenarios'', lit ''tampered-audit'', lit ''audit.key''])
         [lit ''runtime'', lit ''scenarios'', lit ''tampered-audit'', lit ''audit.db''] (h'\<lparr>h_faults := []\<rparr>))
       = Inl integrity_failed"
proof -
  let ?c = "scenario_config ''tampered-audit''" and ?h = trail_host
  let ?dst = "[lit ''runtime'', lit ''scenarios'', lit ''tampered-audit'']"
  note H = trail_host_def baseline_dir_def
  have c: "nl_destination ?c = ?dst" "nl_scenario ?c = lit ''tampered-audit''" "nl_source ?c = baseline_dir"
    by (simp_all add: scenario_config_def)
  have src: "h_files ?h baseline_dir = Some (Directory 0x1C0)" by (simp add: H)
  have none: "h_files ?h (?dst @ p) = None" for p by (simp add: H)
  have res: "resolve_path ?h (nl_source ?c) = Inr baseline_dir" "resolve_path ?h (nl_destination ?c) = Inr ?dst"
    using resolve_directory [OF src] none [of "[]"] c by (simp_all add: resolve_path_def follow_no_link)
  have db: "h_files ?h (baseline_dir @ [lit ''audit.db'']) = Some (Regular 0x180 (Db \<lparr>db_version = 2, db_tables =
         [(audit_table, made audit_schema audit_unique trail_rows)]\<rparr>))"
    and key: "h_files ?h (baseline_dir @ [lit ''audit.key'']) = Some (Regular 0x180 (Bytes (replicate 32 1)))"
    by (simp_all add: H)
  have rows: "audit_rows (baseline_dir @ [lit ''audit.db'']) ?h trail_rows"
    using db by (simp add: table_rows_def table_at_def db_at_def trail_rows_def nth_event_row(12))
  have ex: "exists_path ?h (baseline_dir @ [lit ''audit.db''])" using db by (simp add: exists_path_def stat_no_link)
  have "negative_ready ?c baseline_dir ?dst ?h"
    unfolding negative_ready_def Let_def
  proof (intro conjI)
    show "placed baseline_dir ?dst" by (auto simp: placed_def baseline_dir_def)
    show "\<forall>n \<in> set (copied_names (nl_scenario ?c) (exists_path ?h (baseline_dir @ [lit ''audit.db'']))).
        \<exists>m d. h_files ?h (baseline_dir @ [n]) = Some (Regular m d)"
      using db key by (simp add: c copied_names_def)
  qed (use res c ex src none [of "[]"] none in
      \<open>auto simp: scenarios_def parent_ok_def, simp_all add: H\<close>)
  moreover have "\<exists>g'. damage_copy ?dst (nl_scenario ?c) g = (Inr (), g')"
    if g: "h_faults g = []" "\<forall>n \<in> set (copied_names (nl_scenario ?c) (exists_path ?h (baseline_dir @ [lit ''audit.db'']))).
      \<exists>m d. h_files ?h (baseline_dir @ [n]) = Some (Regular m d) \<and> h_files g (?dst @ [n]) = Some (Regular 0x180 d)" for g
  proof -
    from g(2) obtain m d where "h_files ?h (baseline_dir @ [lit ''audit.db'']) = Some (Regular m d)"
      "h_files g (?dst @ [lit ''audit.db'']) = Some (Regular 0x180 d)" by (auto simp: c copied_names_def)
    from copied_table [OF this] rows have "audit_rows (?dst @ [lit ''audit.db'']) g trail_rows" by (simp add: table_rows_def)
    from tamper_quiet [OF g(1) this trail_chain] show ?thesis unfolding c by (simp add: example_fields_def)
  qed
  ultimately obtain h' where h': "prepare_negative_lab ?c ?h = (Inr (), h')" using prepare_quiet by blast
  have v: "verify_rows witness_mac (replicate 32 1) 1 genesis_mac trail_rows = Inr ()"
  proof -
    have "length genesis_mac = 32" by (simp add: genesis_mac_def)
    from verify_rows_chain [OF witness_mac_sized this] trail_chain show ?thesis by blast
  qed
  have k: "key_of ?h (baseline_dir @ [lit ''audit.key'']) = Some (replicate 32 1)" using key by (simp add: key_of_def)
  from tampered_lab_detected [OF h' c(2) res rows k witness_mac_sized v, of "h'\<lparr>h_faults := []\<rparr>"]
  obtain f msg msg' m rest where w: "trail_rows = event_row 1 f genesis_mac m # rest" "link_message 1 f genesis_mac = Some msg"
    "msg' \<noteq> msg" "fst (verify_integrity witness_mac (get_key (?dst @ [lit ''audit.key'']))
        (?dst @ [lit ''audit.db'']) (h'\<lparr>h_faults := []\<rparr>))
        = (if witness_mac (replicate 32 1) msg' = witness_mac (replicate 32 1) msg then Inr () else Inl integrity_failed)"
    by auto
  have "f = example_fields ''e1''"
  proof -
    have "event_row 1 f genesis_mac m = event_row 1 (example_fields ''e1'') genesis_mac (replicate 32 1)"
      using w(1) by (simp add: trail_rows_def)
    moreover have "length genesis_mac = 32" by (simp add: genesis_mac_def)
    ultimately show ?thesis
      using event_row_fields [of "event_row 1 f genesis_mac m" 1 f genesis_mac m]
        event_row_fields [of "event_row 1 f genesis_mac m" 1 "example_fields ''e1''" genesis_mac "replicate 32 1"]
        event_row_mac by force
  qed
  with w(2,3) have "witness_mac (replicate 32 1) msg' \<noteq> witness_mac (replicate 32 1) msg"
    by (auto simp: witness_mac_def)
  with w(4) h' show ?thesis by simp
qed

end
