(* ===== verification/Durations.thy ===== *)
theory Durations
  imports Main_Program
begin

text \<open>
  The bounds of the session limit that the command line accepts: what \<open>timedelta(seconds=...)\<close>
  makes of a float and what \<open>RuntimeSettings\<close> lets pass.
\<close>

lemma round_even_of_int [simp]: "round_even (of_int n) = n"
  by (simp add: round_even_def)

lemma toward_zero_of_int [simp]: "toward_zero (of_int n) = n"
  by (simp add: toward_zero_def flip: of_int_minus)

lemma timedelta_of_int:
  "timedelta_seconds (Some (of_int n)) =
     (if n * 1000000 < - 999999999 * 86400000000 \<or> 1000000000 * 86400000000 \<le> n * 1000000
      then Inl (err OverflowError ''date value out of range'') else Inr (n * 1000000))"
proof -
  have "toward_zero (of_int n :: rat) = n" by simp
  moreover have "round_double 0 = 0" by (simp add: round_double_def)
  ultimately show ?thesis
    unfolding timedelta_seconds_def Let_def option.case
    by (simp del: of_int_mult add: of_int_mult [symmetric])
qed

lemma timedelta_range: "timedelta_seconds v = Inr d \<Longrightarrow> d < 1000000000 * 86400000000"
  by (auto simp: timedelta_seconds_def Let_def split: option.splits if_splits)

lemma timedelta_nonpos:
  assumes "x \<le> 0" "timedelta_seconds (Some x) = Inr d"
  shows "d \<le> 0"
proof -
  let ?i = "toward_zero x"
  have i: "?i \<le> 0" "of_int ?i \<ge> x"
    using assms(1) by (auto simp: toward_zero_def) (simp_all add: le_floor_iff flip: of_int_minus, linarith)
  then have "round_double (1000000 * (x - of_int ?i)) \<le> 0" by (intro round_double_nonpos) simp
  moreover have "(of_int (?i * 1000000) :: rat) \<le> 0" using i(1) by (simp flip: of_int_mult)
  ultimately have "round_even (of_int (?i * 1000000) + round_double (1000000 * (x - of_int ?i))) \<le> 0"
    by (intro round_even_nonpos) simp
  with assms(2) show ?thesis by (auto simp: timedelta_seconds_def Let_def split: if_splits)
qed

text \<open>How far the rounding of a fraction can be off.\<close>

lemma bit_size_bounds: "0 < n \<Longrightarrow> 2 ^ bit_size n \<le> 2 * n \<and> n < 2 ^ bit_size n"
proof (induction n rule: bit_size.induct)
  case (1 n)
  show ?case
  proof (cases "n div 2 = 0")
    case True
    with 1(2) have "n = 1" by auto
    then show ?thesis by simp
  next
    case False
    with 1 have "2 ^ bit_size (n div 2) \<le> 2 * (n div 2) \<and> n div 2 < 2 ^ bit_size (n div 2)" by simp
    moreover have "bit_size n = Suc (bit_size (n div 2))" using 1(2) by simp
    ultimately show ?thesis by (simp del: bit_size.simps) linarith
  qed
qed

lemma power_of_two_diff: "power_of_two (int a - int b) = 2 ^ a / 2 ^ b"
  by (cases "b \<le> a") (auto simp: power_of_two_def nat_diff_distrib' power_diff field_simps
    simp flip: power_add)

lemma power_of_two_pred: "power_of_two (e - 1) = power_of_two e / 2"
proof (cases "0 \<le> e")
  case True
  then show ?thesis using power_of_two_diff [of "nat e" 1] power_of_two_diff [of "nat e" 0] by simp
next
  case False
  then show ?thesis using power_of_two_diff [of 0 "Suc (nat (- e))"] power_of_two_diff [of 0 "nat (- e)"]
    by (simp add: algebra_simps)
qed

lemma power_of_two_mono: "e \<le> e' \<Longrightarrow> power_of_two e \<le> power_of_two e'"
proof -
  have "power_of_two e \<le> power_of_two (e + int k)" for k
  proof (induction k)
    case (Suc k)
    then show ?case using power_of_two_pred [of "e + int (Suc k)"] power_of_two_pos [of "e + int (Suc k)"]
      by (simp add: algebra_simps)
  qed simp
  from this [of "nat (e' - e)"] show "e \<le> e' \<Longrightarrow> power_of_two e \<le> power_of_two e'" by simp
qed

lemma binary_exponent_le:
  assumes "x \<noteq> 0"
  shows "power_of_two (binary_exponent x) \<le> \<bar>x\<bar>"
proof -
  obtain p q where pq: "quotient_of \<bar>x\<bar> = (p, q)" by fastforce
  then have q: "0 < q" and x: "\<bar>x\<bar> = of_int p / of_int q"
    by (simp_all add: quotient_of_denom_pos quotient_of_div)
  have "0 < \<bar>x\<bar>" using assms by simp
  with x q have p: "0 < p" by (simp add: zero_less_divide_iff)
  let ?a = "bit_size (nat p)" and ?b = "bit_size (nat q)"
  have "(2::rat) ^ ?a \<le> 2 * of_int p" "of_int q < (2::rat) ^ ?b"
  proof -
    have "(2::nat) ^ ?a \<le> 2 * nat p" "nat q < 2 ^ ?b" 
      using bit_size_bounds [of "nat p"] bit_size_bounds [of "nat q"] p q
      by (simp_all del: bit_size.simps)
    then have "rat_of_nat (2 ^ ?a) \<le> rat_of_nat (2 * nat p)" "rat_of_nat (nat q) < rat_of_nat (2 ^ ?b)"
      by (simp_all only: of_nat_le_iff of_nat_less_iff)
    with p q show "(2::rat) ^ ?a \<le> 2 * of_int p" "of_int q < (2::rat) ^ ?b" by (simp_all del: bit_size.simps)
  qed
  with p q have "(2::rat) ^ ?a / 2 ^ ?b \<le> 2 * of_int p / of_int q"
    by (intro frac_le) (simp_all del: bit_size.simps)
  then have "power_of_two (int ?a - int ?b - 1) \<le> \<bar>x\<bar>"
    by (simp add: power_of_two_pred power_of_two_diff x del: bit_size.simps)
  then show ?thesis using pq by (simp add: binary_exponent_def Let_def del: bit_size.simps)
qed

lemma round_even_near: "\<bar>of_int (round_even x) - x\<bar> \<le> 1 / 2"
  using floor_correct [of x] by (auto simp: round_even_def Let_def abs_le_iff)

lemma round_double_near:
  assumes "\<bar>x\<bar> < 1000000"
  shows "\<bar>round_double x - x\<bar> \<le> 1 / 2 ^ 34"
proof (cases "x = 0")
  case False
  let ?u = "power_of_two (max (binary_exponent x - 52) (- 1074))"
  have "power_of_two (binary_exponent x) < power_of_two 20"
    using binary_exponent_le [OF False] assms by (simp add: power_of_two_def)
  then have "binary_exponent x < 20" using power_of_two_mono [of 20 "binary_exponent x"] by linarith
  then have "?u \<le> power_of_two (- 33)" by (intro power_of_two_mono) simp
  then have u: "?u \<le> 1 / 2 ^ 33" by (simp add: power_of_two_def)
  have pos: "0 < ?u" by (rule power_of_two_pos)
  have "round_double x - x = (of_int (round_even (x / ?u)) - x / ?u) * ?u"
    using False pos by (simp add: round_double_def Let_def left_diff_distrib)
  then have "\<bar>round_double x - x\<bar> \<le> 1 / 2 * ?u"
    using round_even_near [of "x / ?u"] pos by (simp add: abs_mult)
  with u show ?thesis by simp
qed (simp add: round_double_def)

lemma toward_zero_near: "\<bar>x - of_int (toward_zero x)\<bar> < 1"
  by (auto simp: toward_zero_def abs_less_iff) linarith+

text \<open>The duration in microseconds is the nearest to the seconds given, but for that error.\<close>

lemma near_trans:
  fixes a b c :: rat
  assumes "\<bar>c - y\<bar> \<le> 1 / 2 ^ 34" "\<bar>a - (b + c)\<bar> \<le> 1 / 2" "b + y = z"
  shows "\<bar>a - z\<bar> < 501 / 1000"
proof -
  have "\<bar>c - y\<bar> < 1 / 1000" using assms(1) by (rule le_less_trans) simp
  with assms(2,3) show ?thesis by linarith
qed

lemma timedelta_near:
  assumes "timedelta_seconds (Some x) = v"
  shows "\<exists>us. \<bar>of_int us - 1000000 * x\<bar> < 501 / 1000
    \<and> (v = Inr us \<or> isl v \<and> (us < - 999999999 * 86400000000 \<or> 1000000000 * 86400000000 \<le> us))"
proof -
  let ?i = "toward_zero x"
  let ?y = "1000000 * (x - of_int ?i)"
  let ?us = "round_even (of_int (?i * 1000000) + round_double ?y)"
  have "\<bar>?y\<bar> < 1000000" using toward_zero_near [of x] by (simp add: abs_mult)
  then have "\<bar>round_double ?y - ?y\<bar> \<le> 1 / 2 ^ 34" by (rule round_double_near)
  moreover have "\<bar>of_int ?us - (of_int (?i * 1000000) + round_double ?y)\<bar> \<le> 1 / 2"
    by (rule round_even_near)
  moreover have "of_int (?i * 1000000) + ?y = 1000000 * x" by (simp add: algebra_simps)
  ultimately have "\<bar>of_int ?us - 1000000 * x\<bar> < 501 / 1000" by (rule near_trans)
  moreover have "v = Inr ?us \<or> isl v \<and> (?us < - 999999999 * 86400000000 \<or> 1000000000 * 86400000000 \<le> ?us)"
    using assms unfolding timedelta_seconds_def Let_def option.case by (cases "?us < - 999999999 * 86400000000
      \<or> 1000000000 * 86400000000 \<le> ?us") (simp_all only: if_True if_False isl_def, blast+)
  ultimately show ?thesis by blast
qed

lemma settings_limit:
  "runtime_settings_of dir v = Inr s \<longleftrightarrow> (\<exists>d. timedelta_seconds v = Inr d \<and> 0 < d
     \<and> mk_runtime_settings (runtime_file dir ''auth.db'') (runtime_file dir ''config.db'')
       (runtime_file dir ''vault.db'') (runtime_file dir ''audit.db'')
       (runtime_file dir ''vault.key'') (runtime_file dir ''audit.key'') d = Inr s \<and> rs_max_session s = d)"
  by (auto simp: runtime_settings_of_def mk_runtime_settings_def bindR_def thenR_def reject_def raise_if_def
      split: sum.splits if_splits)

text \<open>
  C32. The session limit is bounded: what is accepted lies between one microsecond and the largest
  \<open>timedelta\<close> of just under 1000000000 days; a whole number of seconds is taken exactly, and
  accepted exactly in that range. Every other number of seconds, the fraction of a second
  included, is taken to the nearest microsecond (up to a thousandth of one, for the rounding of
  the fraction), and refused only when it is less than a microsecond or within one of the largest
  duration; nothing that is zero, negative, infinite or not a number passes.
\<close>

theorem session_limit_bounds:
  "(\<forall>s. runtime_settings_of dir v = Inr s \<longrightarrow>
      1 \<le> rs_max_session s \<and> rs_max_session s < 1000000000 * 86400000000)
   \<and> (\<forall>n. v = Some (of_int n) \<longrightarrow> (case runtime_settings_of dir v of
        Inl e \<Rightarrow> n < 1 \<or> 86400000000000 \<le> n
      | Inr s \<Rightarrow> rs_max_session s = n * 1000000 \<and> 1 \<le> n \<and> n < 86400000000000))
   \<and> (\<forall>x. v = Some x \<longrightarrow> (case runtime_settings_of dir v of
        Inl e \<Rightarrow> 1000000 * x < 1 \<or> 1000000000 * 86400000000 - 1 < 1000000 * x
      | Inr s \<Rightarrow> \<bar>of_int (rs_max_session s) - 1000000 * x\<bar> < 501 / 1000))
   \<and> (\<forall>x. v = Some x \<and> x \<le> 0 \<longrightarrow> isl (runtime_settings_of dir v))
   \<and> (v = None \<longrightarrow> isl (runtime_settings_of dir v))"
proof (intro conjI allI impI)
  fix s assume "runtime_settings_of dir v = Inr s"
  then show "1 \<le> rs_max_session s" "rs_max_session s < 1000000000 * 86400000000"
    using timedelta_range [of v] by (auto simp: settings_limit)
next
  fix n assume v: "v = Some (of_int n)"
  show "case runtime_settings_of dir v of Inl e \<Rightarrow> n < 1 \<or> 86400000000000 \<le> n
      | Inr s \<Rightarrow> rs_max_session s = n * 1000000 \<and> 1 \<le> n \<and> n < 86400000000000"
  proof (cases "runtime_settings_of dir v")
    case (Inl e)
    have "n < 1 \<or> 86400000000000 \<le> n"
    proof (rule ccontr)
      assume "\<not> ?thesis"
      then have "timedelta_seconds v = Inr (n * 1000000)" "0 < n * 1000000" by (simp_all add: v timedelta_of_int)
      with Inl show False by (simp add: runtime_settings_of_def mk_runtime_settings_def)
    qed
    with Inl show ?thesis by simp
  next
    case (Inr s)
    then obtain d where "timedelta_seconds (Some (of_int n)) = Inr d" "0 < d" "rs_max_session s = d"
      unfolding settings_limit v by blast
    then have "rs_max_session s = n * 1000000 \<and> 1 \<le> n \<and> n < 86400000000000"
      by (auto simp: timedelta_of_int split: if_splits)
    with Inr show ?thesis by simp
  qed
next
  fix x assume v: "v = Some x"
  obtain us where us: "\<bar>of_int us - 1000000 * x\<bar> < 501 / 1000" "timedelta_seconds v = Inr us
      \<or> isl (timedelta_seconds v) \<and> (us < - 999999999 * 86400000000 \<or> 1000000000 * 86400000000 \<le> us)"
    using timedelta_near [OF refl, of x] v by blast
  show "case runtime_settings_of dir v of
        Inl e \<Rightarrow> 1000000 * x < 1 \<or> 1000000000 * 86400000000 - 1 < 1000000 * x
      | Inr s \<Rightarrow> \<bar>of_int (rs_max_session s) - 1000000 * x\<bar> < 501 / 1000"
  proof (cases "runtime_settings_of dir v")
    case (Inl e)
    then have "timedelta_seconds v = Inr us \<longrightarrow> us \<le> 0"
      by (auto simp: runtime_settings_of_def mk_runtime_settings_def thenR_def reject_def raise_if_def
          split: if_splits)
    with us(2) have "us \<le> 0 \<or> 1000000000 * 86400000000 \<le> us" by auto
    then have "rat_of_int us \<le> 0 \<or> 1000000000 * 86400000000 \<le> rat_of_int us" by linarith
    with us(1) have "1000000 * x < 1 \<or> 1000000000 * 86400000000 - 1 < 1000000 * x" by linarith
    with Inl show ?thesis by simp
  next
    case (Inr s)
    with us(2) have "rs_max_session s = us" by (auto simp: settings_limit)
    with us(1) Inr show ?thesis by simp
  qed
next
  fix x assume "v = Some x \<and> x \<le> 0"
  then show "isl (runtime_settings_of dir v)"
    using timedelta_nonpos [of x] by (cases "runtime_settings_of dir v") (auto simp: settings_limit)
next
  assume "v = None"
  then show "isl (runtime_settings_of dir v)"
    by (simp add: runtime_settings_of_def timedelta_seconds_def)
qed

theorem session_limit_bounds_witness:
  "(\<exists>s. runtime_settings_of [lit ''r''] (Some 3600) = Inr s \<and> rs_max_session s = 3600000000)
   \<and> (\<exists>s. runtime_settings_of [lit ''r''] (Some (1 / 4)) = Inr s \<and> rs_max_session s = 250000)"
proof
  show "\<exists>s. runtime_settings_of [lit ''r''] (Some 3600) = Inr s \<and> rs_max_session s = 3600000000"
    using session_limit_bounds [of "[lit ''r'']" "Some 3600"]
    by (auto split: sum.splits dest: spec [of _ 3600])
  have "case runtime_settings_of [lit ''r''] (Some (1 / 4)) of Inl e \<Rightarrow> False
      | Inr s \<Rightarrow> \<bar>of_int (rs_max_session s) - (250000 :: rat)\<bar> < 501 / 1000"
    using session_limit_bounds [of "[lit ''r'']" "Some (1 / 4)", THEN conjunct2, THEN conjunct2,
        THEN conjunct1, THEN spec, of "1 / 4"] by (auto split: sum.splits)
  then obtain s where s: "runtime_settings_of [lit ''r''] (Some (1 / 4)) = Inr s"
    and near: "\<bar>of_int (rs_max_session s) - (250000 :: rat)\<bar> < 501 / 1000"
    by (cases "runtime_settings_of [lit ''r''] (Some (1 / 4))") simp_all
  from near have "of_int (rs_max_session s - 1) < (250000 :: rat)" "(250000 :: rat) < of_int (rs_max_session s + 1)"
    by linarith+
  then have "rs_max_session s = 250000" by linarith
  with s show "\<exists>s. runtime_settings_of [lit ''r''] (Some (1 / 4)) = Inr s \<and> rs_max_session s = 250000"
    by blast
qed

end
