(* ===== verification/Runtime.thy ===== *)
theory Runtime
  imports Host PyTime
begin

text \<open>
  The clock and the identifiers of the running program (\<open>infrastructure/runtime.py\<close>):
  \<open>datetime.now(UTC)\<close> over the time of the environment and \<open>str(uuid4())\<close> over the random octets
  of the host.
\<close>

unbundle bit_operations_syntax

section \<open>Identifiers\<close>

text \<open>
  \<open>uuid.UUID(bytes=b, version=4)\<close> sets four bits of octet 6 to the version and two of octet 8 to
  the variant; \<open>str\<close> writes the octets in lower case hexadecimal in five groups.
\<close>

definition uuid_version4 :: "bytes \<Rightarrow> bytes" where
  "uuid_version4 b = b[6 := (b ! 6 AND 0x0F) OR 0x40, 8 := (b ! 8 AND 0x3F) OR 0x80]"

definition hex_byte :: "8 word \<Rightarrow> pystr" where
  "hex_byte b = [hex_digit (unat b div 16), hex_digit (unat b mod 16)]"

definition hex :: "bytes \<Rightarrow> pystr" where
  "hex b = concat (map hex_byte b)"

definition uuid_text :: "bytes \<Rightarrow> pystr" where
  "uuid_text b = hex (take 4 b) @ [45] @ hex (take 2 (drop 4 b)) @ [45] @ hex (take 2 (drop 6 b)) @ [45]
     @ hex (take 2 (drop 8 b)) @ [45] @ hex (drop 10 b)"

definition uuid4 :: "('d host, bytes) io" where
  "uuid4 = bind (token_bytes 16) (\<lambda>b. ret (uuid_version4 b))"

definition new_uuid :: "('d host, pystr) io" where
  "new_uuid = bind uuid4 (\<lambda>b. ret (uuid_text b))"

section \<open>The clock\<close>

text \<open>\<open>datetime.now(UTC)\<close>, the microseconds since 0001-01-01 of the environment\<close>

definition system_now :: "('w, int) io \<Rightarrow> ('w, datetime) io" where
  "system_now wall = bind wall (\<lambda>u. ret (utc u))"

section \<open>What an identifier looks like\<close>

lemma length_hex [simp]: "length (hex b) = 2 * length b"
  by (induction b) (simp_all add: hex_def hex_byte_def)

lemma hex_digit_range: "n < 16 \<Longrightarrow> 48 \<le> hex_digit n \<and> hex_digit n \<le> 102"
  by (simp add: hex_digit_def)

lemma hex_digit_inj: "m < 16 \<Longrightarrow> n < 16 \<Longrightarrow> hex_digit m = hex_digit n \<longleftrightarrow> m = n"
  by (auto simp: hex_digit_def split: if_splits)

lemma nibbles: "unat (x :: 8 word) div 16 < 16" "unat (x :: 8 word) mod 16 < 16"
proof -
  have "unat x < 256" using unsigned_less [of x, where 'a = nat] by simp
  then show "unat x div 16 < 16" by (simp add: less_mult_imp_div_less)
qed simp

lemma hex_chars: "c \<in> set (hex b) \<Longrightarrow> 48 \<le> c \<and> c \<le> 102"
  using hex_digit_range [OF nibbles(1)] hex_digit_range [OF nibbles(2)] by (auto simp: hex_def hex_byte_def)

lemma hex_byte_inj [simp]: "hex_byte x = hex_byte y \<longleftrightarrow> x = y"
proof
  assume h: "hex_byte x = hex_byte y"
  from h have "unat x div 16 = unat y div 16" "unat x mod 16 = unat y mod 16"
    by (simp_all add: hex_byte_def hex_digit_inj nibbles)
  then have "unat x = unat y" by (metis div_mult_mod_eq)
  then show "x = y" by (metis word_unat_eq_iff)
qed simp

lemma hex_inj: "length a = length b \<Longrightarrow> hex a = hex b \<longleftrightarrow> a = b"
proof (induction a b rule: list_induct2)
  case (Cons x xs y ys)
  have "hex (z # zs) = hex_byte z @ hex zs" for z zs by (simp add: hex_def)
  moreover have "length (hex_byte x) = length (hex_byte y)" by (simp add: hex_byte_def)
  ultimately show ?case using Cons.IH by simp
qed simp

lemma uuid_text_inj:
  assumes "length a = 16" "length b = 16" "uuid_text a = uuid_text b"
  shows "a = b"
proof -
  from assms have "hex (take 4 a) = hex (take 4 b)" "hex (take 2 (drop 4 a)) = hex (take 2 (drop 4 b))"
    "hex (take 2 (drop 6 a)) = hex (take 2 (drop 6 b))" "hex (take 2 (drop 8 a)) = hex (take 2 (drop 8 b))"
    "hex (drop 10 a) = hex (drop 10 b)"
    by (simp_all add: uuid_text_def append_eq_append_conv)
  then have e: "take 4 a = take 4 b" "take 2 (drop 4 a) = take 2 (drop 4 b)" "take 2 (drop 6 a) = take 2 (drop 6 b)"
    "take 2 (drop 8 a) = take 2 (drop 8 b)" "drop 10 a = drop 10 b"
    using assms(1,2) by (simp_all add: hex_inj)
  have split: "c = take 4 c @ take 2 (drop 4 c) @ take 2 (drop 6 c) @ take 2 (drop 8 c) @ drop 10 c" for c :: bytes
  proof -
    have "drop n c = take 2 (drop n c) @ drop (n + 2) c" for n
      by (metis append_take_drop_id add.commute drop_drop)
    from this [of 4] this [of 6] this [of 8] show ?thesis
      using append_take_drop_id [of 4 c] by simp
  qed
  show ?thesis by (subst split [of a], subst split [of b]) (simp only: e)
qed

definition id_like :: "pystr \<Rightarrow> bool" where
  "id_like i \<longleftrightarrow> length i = 36 \<and> \<not> blank i \<and> list_all encodable i"

lemma uuid_text_id:
  assumes "length b = 16"
  shows "id_like (uuid_text b)"
proof -
  have c: "45 \<le> x \<and> x \<le> 102" if "x \<in> set (uuid_text b)" for x
    using that by (auto simp: uuid_text_def dest!: hex_chars)
  have l: "length (uuid_text b) = 36" using assms by (simp add: uuid_text_def)
  then have "hd (uuid_text b) \<in> set (uuid_text b)" by (intro hd_in_set) auto
  with c have "\<not> py_isspace (hd (uuid_text b))" by (force simp: py_isspace_def)
  with \<open>hd (uuid_text b) \<in> set (uuid_text b)\<close> have "\<not> blank (uuid_text b)" by (auto simp: blank_iff)
  moreover have "list_all encodable (uuid_text b)"
    using c by (force simp: list_all_iff encodable_def surrogate_def)
  ultimately show ?thesis using l by (simp add: id_like_def)
qed

text \<open>An identifier takes sixteen octets of entropy and changes no file.\<close>

lemma new_uuid_run:
  assumes "new_uuid h = (r, h')"
  shows "(length (h_entropy h) < 16 \<and> h' = h \<and> r = Inl (err OSError ''EIO''))
    \<or> (16 \<le> length (h_entropy h) \<and> h' = h\<lparr>h_entropy := drop 16 (h_entropy h)\<rparr>
       \<and> r = Inr (uuid_text (uuid_version4 (take 16 (h_entropy h)))) \<and> (\<forall>i. r = Inr i \<longrightarrow> id_like i))"
  using assms by (auto simp: new_uuid_def uuid4_def token_bytes_def bind_apply uuid_version4_def
      split: if_splits intro!: uuid_text_id)

end
