(* ===== verification/Wiring.thy ===== *)
theory Wiring
  imports Runtime Main_Program Broker
begin

text \<open>
  The program as \<open>bootstrap/application.py\<close> wires it and \<open>main.py\<close> runs it: the ports of the access
  service and of the command line are the operations of the repositories, the Vault, the SSH broker,
  the clock and the identifiers, over one world. What is not the program's own (cryptography, Argon2,
  sockets and Paramiko, time, the password prompt) is the record \<open>outside\<close>.
\<close>

section \<open>The world\<close>

record ('v, 'h) site =
  st_host :: dbhost
  st_ssh :: "('v, 'h) brokered"

record ('v, 'h) outside =
  o_ssh :: "('v, 'h) ssh_lib"
  o_relay :: "('v, 'h) relay_env"
  o_sha256 :: "bytes \<Rightarrow> bytes"
  o_hmac :: hmac
  o_aead :: aead
  o_argon2 :: "dbhost argon2"
  o_wall :: "('v, int) io"
  o_getpass :: "('v, pystr) io"

definition on_host :: "(dbhost, 'a) io \<Rightarrow> (('v, 'h) site, 'a) io" where
  "on_host m = (\<lambda>s. case m (st_host s) of (r, h) \<Rightarrow> (r, s\<lparr>st_host := h\<rparr>))"

definition on_ssh :: "('v, 'h, 'a) broker_io \<Rightarrow> (('v, 'h) site, 'a) io" where
  "on_ssh m = (\<lambda>s. case m (st_ssh s) of (r, b) \<Rightarrow> (r, s\<lparr>st_ssh := b\<rparr>))"

definition on_outside :: "('v, 'a) io \<Rightarrow> (('v, 'h) site, 'a) io" where
  "on_outside m = on_ssh (in_world m)"

section \<open>The access service of the application\<close>

text \<open>
  The broker's \<open>relay\<close>. A relay that does not return by itself ends when the process is
  interrupted: the exception passes the \<open>except Exception\<close> of the relay, whose \<open>finally\<close> still
  closes the channel. What was copied until then is not part of the state, as the moment of the
  interruption is not known; \<open>relay_terminates\<close> says when the relay returns.
\<close>

definition broker_relay :: "('v, 'h) outside \<Rightarrow> int \<Rightarrow> ('v, 'h, relay_value) broker_io" where
  "broker_relay X max_duration = (\<lambda>b. case session_relay (o_ssh X) (o_relay X) max_duration b of
       Some (r, st) \<Rightarrow> (bindR r (\<lambda>v. Inr (Outcome v)), world st)
     | None \<Rightarrow> try_finally (raise (err KeyboardInterrupt [])) (channel_close (o_ssh X)) b)"

text \<open>\<open>ParamikoSshConnector()\<close>: connections time out after ten seconds.\<close>

definition connect_timeout :: rat where
  "connect_timeout = 10"

definition application_ports :: "('v, 'h) outside \<Rightarrow> application \<Rightarrow> (('v, 'h) site, unit) ports" where
  "application_ports X app = (let s = app_settings app in
     \<lparr>p_find_matching = (\<lambda>u t a. on_host (policy_find_matching (rs_config_db s) u t a)),
      p_get_target = (\<lambda>t. on_host (target_get (rs_config_db s) t)),
      p_find_for_target = (\<lambda>t. on_host (account_find_for_target (rs_config_db s) t)),
      p_resolve = (\<lambda>ref. on_host (bind (vault_resolve (rs_vault_db s) (o_aead X) (app_vault_key app) ref)
                                   (\<lambda>c. ret (Some c)))),
      p_open_session = (\<lambda>t a c. on_ssh (open_session (o_ssh X) (o_sha256 X) connect_timeout t a c)),
      p_relay = (\<lambda>_ d. on_ssh (broker_relay X d)),
      p_close = (\<lambda>_. on_ssh (session_close (o_ssh X))),
      p_append = (\<lambda>ev. on_host (audit_append (o_hmac X) (get_key (rs_audit_key s)) (rs_audit_db s) ev)),
      p_now = on_outside (system_now (o_wall X)),
      p_new_id = on_host new_uuid\<rparr>)"

section \<open>The command line\<close>

text \<open>\<open>services.authentication.authenticate(username, password)\<close>\<close>

definition authenticate_on :: "('v, 'h) outside \<Rightarrow> application \<Rightarrow> pystr \<Rightarrow> pystr \<Rightarrow> (dbhost, authenticated_principal) io" where
  "authenticate_on X app username password = (\<lambda>h.
     case authenticate (repository_auth (rs_auth_db (app_settings app)) (o_argon2 X)) (app_dummy_hash app)
            username password \<lparr>world = h, trace = []\<rparr> of (r, t) \<Rightarrow> (r, world t))"

definition in_console :: "('w, 'b) io \<Rightarrow> (('a, 'w) console, 'b) io" where
  "in_console m = (\<lambda>s. case m (console_world s) of (r, w) \<Rightarrow> (r, s\<lparr>console_world := w\<rparr>))"

definition program_ports ::
  "('a \<Rightarrow> 'a) \<Rightarrow> ('v, 'h) outside \<Rightarrow> (('a, ('v, 'h) site) console, application) cli_ports" where
  "program_ports raw X =
     \<lparr>cp_provisioned = (\<lambda>dir. in_console (on_host (runtime_is_provisioned dir))),
      cp_build = (\<lambda>settings. in_console (on_host (build_application (o_argon2 X) settings))),
      cp_getpass = in_console (on_outside (o_getpass X)),
      cp_authenticate = (\<lambda>app u p. in_console (on_host (authenticate_on X app u p))),
      cp_new_id = in_console (on_host new_uuid),
      cp_now = in_console (on_outside (system_now (o_wall X))),
      cp_access = (\<lambda>app who req. execute_interactive_access raw (app_terminal app)
                     (application_ports X app) (app_max_session app) who req)\<rparr>"

text \<open>\<open>main\<close> with the parsed arguments; the line of a failed validation goes to the error output.\<close>

datatype parsed =
    Validate path path path path path path "rat option"
  | AccessTarget path pystr pystr "rat option"

definition pam_main ::
  "('a \<Rightarrow> 'a) \<Rightarrow> ('v, 'h) outside \<Rightarrow> parsed \<Rightarrow> (('a, ('v, 'h) site) console, application, int) cli_io" where
  "pam_main raw X parsed = (case parsed of
       Validate auth config vault audit vault_key audit_key secs \<Rightarrow>
         bind (\<lambda>s. case in_console (on_host (run_validation (o_argon2 X) auth config vault audit
                         vault_key audit_key secs)) (world s) of (r, w) \<Rightarrow> (r, s\<lparr>world := w\<rparr>))
           (\<lambda>code. if code = exit_success then ret code
                   else seq (print_line (lit ''Runtime validation failed.'')) (ret code))
     | AccessTarget dir username target_id secs \<Rightarrow>
         run_access (program_ports raw X) dir username target_id secs)"

text \<open>
  \<open>SafeArgumentParser.error\<close>: the usage text of the parser and a fixed line go to the error output,
  then the process exits; the message, which may quote an argument, is dropped.
\<close>

definition parser_error :: "pystr \<Rightarrow> pystr \<Rightarrow> pystr \<Rightarrow> int \<times> pystr list" where
  "parser_error usage prog message = (2, [usage, prog @ lit '': error: invalid arguments''])"

section \<open>Lifted calls\<close>

lemma on_host_run:
  assumes "on_host m s = (r, s')"
  obtains h where "m (st_host s) = (r, h)" "s' = s\<lparr>st_host := h\<rparr>"
  using assms by (auto simp: on_host_def split: prod.splits)

lemma on_ssh_run:
  assumes "on_ssh m s = (r, s')"
  obtains b where "m (st_ssh s) = (r, b)" "s' = s\<lparr>st_ssh := b\<rparr>"
  using assms by (auto simp: on_ssh_def split: prod.splits)

lemma on_ssh_host: "on_ssh m s = (r, s') \<Longrightarrow> st_host s' = st_host s"
  by (auto simp: on_ssh_def split: prod.splits)

lemma in_console_run:
  assumes "in_console m s = (r, s')"
  obtains w where "m (console_world s) = (r, w)" "s' = s\<lparr>console_world := w\<rparr>"
  using assms by (auto simp: in_console_def split: prod.splits)

end
