(* ===== verification/Service_Trace.thy ===== *)
theory Service_Trace
  imports Access_Safety
begin

text \<open>
  Invariants that relate the world of the ports to the calls that were made: if every call of a
  port keeps such an invariant, the whole of \<open>handle\<close> does. The locale is the interface between the
  access service and the adapters behind its ports.
\<close>

section \<open>Code that keeps an invariant\<close>

definition keeps :: "('w \<Rightarrow> 'o list \<Rightarrow> bool) \<Rightarrow> (('w, 'o, 'z) tstate_scheme, 'a) io \<Rightarrow> bool" where
  "keeps I m \<longleftrightarrow> (\<forall>s r s'. m s = (r, s') \<longrightarrow> I (world s) (trace s) \<longrightarrow> I (world s') (trace s'))"

named_theorems keeps_intros \<open>code that keeps an invariant\<close>

lemma keepsD: "keeps I m \<Longrightarrow> m s = (r, s') \<Longrightarrow> I (world s) (trace s) \<Longrightarrow> I (world s') (trace s')"
  unfolding keeps_def by blast

lemma keeps_basic [keeps_intros]: "keeps I (ret x)" "keeps I (raise e)" "keeps I (lift r)"
  by (simp_all add: keeps_def)

lemma keeps_bind [keeps_intros]: "keeps I m \<Longrightarrow> (\<And>x. keeps I (f x)) \<Longrightarrow> keeps I (bind m f)"
  unfolding keeps_def bind_eq_iff by blast

lemma keeps_seq [keeps_intros]: "keeps I m \<Longrightarrow> keeps I k \<Longrightarrow> keeps I (seq m k)"
  unfolding seq_def by (rule keeps_bind)

lemma keeps_try_except [keeps_intros]:
  "keeps I m \<Longrightarrow> (\<And>e. keeps I (h e)) \<Longrightarrow> keeps I (try_except m p h)"
  unfolding keeps_def try_except_eq_iff by blast

lemma keeps_finally_with [keeps_intros]: "keeps I m \<Longrightarrow> keeps I k \<Longrightarrow> keeps I (finally_with m k)"
  unfolding keeps_def finally_with_eq_iff by blast

lemma keeps_perform [keeps_intros]:
  "(\<And>w r w' tr. I w tr \<Longrightarrow> f w = (r, w') \<Longrightarrow> I w' (tr @ [ob r])) \<Longrightarrow> keeps I (perform f ob)"
  by (auto simp: keeps_def perform_eq_iff)

lemma keeps_session [keeps_intros]:
  "keeps I (on_session f)" "keeps I started_at" "keeps I (finish d)"
  "keeps I (\<lambda>s. (Inr (), s\<lparr>cell := x\<rparr>))"
  by (auto simp: keeps_def on_session_def started_at_def finish_def split: option.splits sum.splits)

section \<open>The service over ports that keep an invariant\<close>

locale call_invariant =
  fixes P :: "('w, 'h) ports" and I :: "'w \<Rightarrow> 'h obs list \<Rightarrow> bool"
  assumes find_matching: "I w tr \<Longrightarrow> p_find_matching P u t a w = (r1, w') \<Longrightarrow> I w' (tr @ [FindMatching u t a r1])"
    and get_target: "I w tr \<Longrightarrow> p_get_target P t w = (r2, w') \<Longrightarrow> I w' (tr @ [GetTarget t r2])"
    and find_for_target: "I w tr \<Longrightarrow> p_find_for_target P t w = (r3, w') \<Longrightarrow> I w' (tr @ [FindForTarget t r3])"
    and resolve: "I w tr \<Longrightarrow> p_resolve P ref w = (r4, w') \<Longrightarrow> I w' (tr @ [Resolve ref r4])"
    and open_session: "I w tr \<Longrightarrow> p_open_session P tgt acc c w = (r5, w') \<Longrightarrow> I w' (tr @ [OpenSession tgt acc c r5])"
    and relay: "I w tr \<Longrightarrow> p_relay P h d w = (r6, w') \<Longrightarrow> I w' (tr @ [Relay h d r6])"
    and close: "I w tr \<Longrightarrow> p_close P h w = (r7, w') \<Longrightarrow> I w' (tr @ [Close h r7])"
    and append: "I w tr \<Longrightarrow> p_append P ev w = (r7, w') \<Longrightarrow> I w' (tr @ [Append ev r7])"
    and now: "I w tr \<Longrightarrow> p_now P w = (r8, w') \<Longrightarrow> I w' (tr @ [Now r8])"
    and new_id: "I w tr \<Longrightarrow> p_new_id P w = (r9, w') \<Longrightarrow> I w' (tr @ [NewId r9])"
begin

lemma keeps_calls [keeps_intros]: "keeps I (call_now P)" "keeps I (call_new_id P)"
  by (auto simp: call_now_def call_new_id_def intro!: keeps_perform now new_id)

lemma keeps_append_event [keeps_intros]: "keeps I (append_event P req ty sid result reason actor ts)"
  unfolding append_event_def by (auto split: option.splits intro!: keeps_intros append)

lemma keeps_endings [keeps_intros]:
  "keeps I (terminal_timestamp P)" "keeps I (deny P req decision actor)" "keeps I (deny_with_reason P req reason)"
  "keeps I (fail_session P req sid reason)" "keeps I (abandon P e)"
  unfolding deny_with_reason_def terminal_timestamp_def deny_def fail_session_def abandon_def
  by (intro keeps_intros)+

lemma keeps_conclude [keeps_intros]: "keeps I (conclude P req decision sid outcome ok)"
  unfolding conclude_def Let_def by (auto split: option.splits intro!: keeps_intros)

lemma keeps_relay_session [keeps_intros]: "keeps I (relay_session P req sid d h)"
  unfolding relay_session_def by (auto split: relay_value.splits intro!: keeps_intros relay)

lemma keeps_close_broker [keeps_intros]: "keeps I (close_broker P h)"
  unfolding close_broker_def by (auto intro!: keeps_intros close)

lemma keeps_broker_phase [keeps_intros]: "keeps I (broker_phase P d req decision sid h)"
  unfolding broker_phase_def by (auto split: prod.splits intro!: keeps_intros)

lemma keeps_open_allowed [keeps_intros]: "keeps I (open_allowed P d req decision tgt account credential)"
  unfolding open_allowed_def run_session_def by (auto split: option.splits intro!: keeps_intros open_session)

lemma keeps_handle_account [keeps_intros]: "keeps I (handle_account P d req decision tgt configured)"
  unfolding handle_account_def by (auto split: option.splits intro!: keeps_intros resolve)

lemma keeps_handle_target [keeps_intros]: "keeps I (handle_target P d req decision x)"
  unfolding handle_target_def by (auto split: option.splits intro!: keeps_intros find_for_target)

lemma keeps_handle: "keeps I (handle P d who req)"
  unfolding handle_def evaluate_def
  by (auto split: option.splits intro!: keeps_intros find_matching get_target)

text \<open>What holds after a run that started with no calls.\<close>

lemma handle_invariant:
  assumes "handle P d who req (initial_state w) = (r, s')" "I w []"
  shows "I (world s') (trace s')"
  using keepsD [OF keeps_handle assms(1)] assms(2) by (simp add: initial_state_def)

end

end
