(* ===== verification/Service_Trail.thy ===== *)
theory Service_Trail
  imports Wiring Service_Trace Files
begin

text \<open>
  The access service on the real repositories: what the lookups leave alone, and the audit trail of
  a run, which is the trail of before followed by exactly the events that the service has persisted.
\<close>

section \<open>Lookups\<close>

text \<open>A lookup changes nothing that exists; a connection to a missing file creates it empty.\<close>

definition looked :: "dbhost \<Rightarrow> dbhost \<Rightarrow> bool" where
  "looked h h' \<longleftrightarrow> grows h h' \<and> h_entropy h' = h_entropy h \<and> (h_faults h = [] \<longrightarrow> h_faults h' = [])"

lemma looked_refl [simp]: "looked h h"
  by (simp add: looked_def)

lemma looked_trans: "looked h i \<Longrightarrow> looked i j \<Longrightarrow> looked h j"
  by (auto simp: looked_def intro: grows_trans)

lemma looked_table: "looked h h' \<Longrightarrow> table_at h p n = Some t \<Longrightarrow> table_at h' p n = Some t"
  by (auto simp: looked_def table_at_def db_at_def dest: growsD split: option.splits node.splits sum.splits)

lemma looked_rows: "looked h h' \<Longrightarrow> table_rows n cols uq p h rows \<Longrightarrow> table_rows n cols uq p h' rows"
  by (auto simp: table_rows_def looked_table)

lemma looked_key: "looked h h' \<Longrightarrow> key_of h q = Some k \<Longrightarrow> key_of h' q = Some k"
  by (auto simp: looked_def key_of_def dest: growsD split: option.splits node.splits if_splits)

lemma select_db:
  assumes "select n cols conds order c = (r, c')"
  shows "c_db c' = c_db c \<and> (c_faults c = [] \<longrightarrow> c_faults c' = [])"
proof -
  have "c_db c' = c_db c \<and> (c_faults c = [] \<longrightarrow> c_faults c' = [])"
    if "with_table n cs (\<lambda>t. (f t, t)) c = (r, c')" for cs and f :: "table \<Rightarrow> row list res"
    using execute_run [OF that [unfolded with_table_def]]
    by (auto simp: update_same split: option.splits if_splits)
  with assms show ?thesis by (auto simp: select_def seq_apply split: sum.splits)
qed

lemma connection_looked:
  assumes "connection p (select n cols conds order) h = (r, h')"
  shows "looked h h'"
proof -
  obtain q h1 where q: "open_db p h = (q, h1)" by fastforce
  have open1: "looked h h1 \<and> (\<forall>x d. q = Inr (x, d) \<longrightarrow> db_at h1 x = Some d)"
    using q by (auto simp: open_db_def faultable_eq looked_def grows_def map_le_def db_at_Some put_node_def
        bindR_def empty_db_def split: sum.splits option.splits node.splits if_splits)
  show ?thesis
  proof (cases q)
    case (Inl e)
    with assms q open1 show ?thesis by (simp add: connection_def with_db_def bind_apply)
  next
    case (Inr xd)
    obtain x d where xd: "xd = (x, d)" by (cases xd)
    obtain y c where y: "select n cols conds order \<lparr>c_db = d, c_faults = h_faults h1\<rparr> = (y, c)" by fastforce
    note s = select_db [OF y]
    from open1 Inr xd have d: "db_at h1 x = Some d" by simp
    then have "save_db x d h1 = h1" by (auto simp: db_at_Some save_db_def)
    with assms q Inr xd y s have "h' = h1\<lparr>h_faults := c_faults c\<rparr>"
      by (auto simp: connection_def with_db_def bind_apply split: sum.splits)
    with open1 s show ?thesis by (auto simp: looked_def grows_def)
  qed
qed

lemma query_looked: "query_rows failed p n cols conds order h = (r, h') \<Longrightarrow> looked h h'"
  by (auto simp: query_rows_def try_except_eq_iff dest: connection_looked)

lemma lookups_looked:
  "policy_find_matching p u t a h = (r1, h') \<Longrightarrow> looked h h'"
  "target_get p t h = (r2, h') \<Longrightarrow> looked h h'"
  "account_find_for_target p t h = (r3, h') \<Longrightarrow> looked h h'"
  "vault_resolve p lib key ref h = (r4, h') \<Longrightarrow> looked h h'"
  "find_by_username p t h = (r5, h') \<Longrightarrow> looked h h'"
proof -
  have pure: "looked h h'" if "bind (query_rows e p n cols conds order) f h = (r, h')"
      "\<And>rows i s j. f rows i = (s, j) \<Longrightarrow> j = i" for e n cols conds order f and r :: "'c res"
    using that(1) by (auto simp: bind_eq_iff dest!: that(2) dest: query_looked)
  show "policy_find_matching p u t a h = (r1, h') \<Longrightarrow> looked h h'"
    unfolding policy_find_matching_def by (erule pure) simp
  show "target_get p t h = (r2, h') \<Longrightarrow> looked h h'"
    unfolding target_get_def by (erule pure) (auto split: list.splits)
  show "account_find_for_target p t h = (r3, h') \<Longrightarrow> looked h h'"
    unfolding account_find_for_target_def by (erule pure) simp
  have "vault_load p ref h = (r, h') \<Longrightarrow> looked h h'" for r
    unfolding vault_load_def by (erule pure) (auto split: list.splits)
  then show "vault_resolve p lib key ref h = (r4, h') \<Longrightarrow> looked h h'"
    by (auto simp: vault_resolve_def bind_eq_iff try_except_eq_iff)
  show "find_by_username p t h = (r5, h') \<Longrightarrow> looked h h'"
    unfolding find_by_username_def by (erule pure) (auto split: list.splits)
qed

section \<open>The trail of a run\<close>

text \<open>The events whose append succeeded, in order\<close>

fun recorded :: "'h obs list \<Rightarrow> audit_event list" where
  "recorded [] = []"
| "recorded (Append ev (Inr u) # tr) = ev # recorded tr"
| "recorded (_ # tr) = recorded tr"

lemma recorded_append [simp]: "recorded (xs @ ys) = recorded xs @ recorded ys"
  by (induction xs rule: recorded.induct) simp_all

text \<open>
  The table at \<open>p\<close> is the chain of the old events \<open>fs\<close> followed by the recorded ones, under the key
  of the file \<open>q\<close>.
\<close>

definition trail_of ::
  "hmac \<Rightarrow> path \<Rightarrow> path \<Rightarrow> bytes \<Rightarrow> audit_fields list \<Rightarrow> ('v, 'k) site \<Rightarrow> 'h obs list \<Rightarrow> bool" where
  "trail_of hmac p q key fs w tr \<longleftrightarrow> (\<exists>gs rows. map audit_serialize (recorded tr) = map Inr gs
     \<and> chain hmac key 1 genesis_mac (fs @ gs) = Some rows \<and> distinct (map af_id (fs @ gs))
     \<and> audit_rows p (st_host w) rows \<and> key_of (st_host w) q = Some key)"

lemma trail_looked:
  assumes "trail_of hmac p q key fs w tr" "looked (st_host w) (st_host w')" "recorded [ob] = []"
  shows "trail_of hmac p q key fs w' (tr @ [ob])"
proof -
  from assms(1) obtain gs rows where t: "map audit_serialize (recorded tr) = map Inr gs"
    "chain hmac key 1 genesis_mac (fs @ gs) = Some rows" "distinct (map af_id (fs @ gs))"
    "audit_rows p (st_host w) rows" "key_of (st_host w) q = Some key"
    unfolding trail_of_def by blast
  from t(1) assms(3) have "map audit_serialize (recorded (tr @ [ob])) = map Inr gs" by simp
  with t(2,3) looked_rows [OF assms(2) t(4)] looked_key [OF assms(2) t(5)] show ?thesis
    unfolding trail_of_def by blast
qed

lemma trail_append:
  assumes "hmac_sized hmac" "p \<noteq> q" "trail_of hmac p q key fs w tr"
    "audit_append hmac (get_key q) p ev (st_host w) = (r, h')"
  shows "trail_of hmac p q key fs (w\<lparr>st_host := h'\<rparr>) (tr @ [Append ev r])"
proof -
  from assms(3) obtain gs rows where t: "map audit_serialize (recorded tr) = map Inr gs"
    "chain hmac key 1 genesis_mac (fs @ gs) = Some rows" "distinct (map af_id (fs @ gs))"
    "audit_rows p (st_host w) rows" "key_of (st_host w) q = Some key"
    unfolding trail_of_def by blast
  have all: "audit_all hmac (get_key q) p [ev] (st_host w) = ([r], h')"
    using assms(4) by simp
  from key_file.trail_run [OF assms(1,2) all t(4,5,2,3)] obtain gs' rows' where g:
    "map audit_serialize (accepted [ev] [r]) = map Inr gs'"
    "chain hmac key 1 genesis_mac ((fs @ gs) @ gs') = Some rows'" "audit_rows p h' rows'"
    "distinct (map af_id ((fs @ gs) @ gs'))" "key_of h' q = Some key" by blast
  have "recorded [Append ev r] = accepted [ev] [r]" by (cases r) (simp_all add: accepted_def)
  with g(1) have "map audit_serialize (recorded [Append ev r]) = map Inr gs'" by metis
  with g(2-5) t(1) show ?thesis
    unfolding trail_of_def by (intro exI [of _ "gs @ gs'"] exI [of _ rows']) simp
qed

lemma new_uuid_looked: "new_uuid h = (r, h') \<Longrightarrow> \<exists>es. looked h (h'\<lparr>h_entropy := es\<rparr>)"
  by (drule new_uuid_run) (auto simp: looked_def grows_def intro: exI [of _ "h_entropy h"])

text \<open>The trail of the wired service, with what the trail relies on: MACs of full size, a key file of its own\<close>

definition trail_kept ::
  "('v, 'k) outside \<Rightarrow> application \<Rightarrow> bytes \<Rightarrow> audit_fields list \<Rightarrow> ('v, 'k) site \<Rightarrow> 'h obs list \<Rightarrow> bool" where
  "trail_kept X app key fs w tr \<longleftrightarrow> (let s = app_settings app in
     hmac_sized (o_hmac X) \<and> rs_audit_db s \<noteq> rs_audit_key s
     \<and> trail_of (o_hmac X) (rs_audit_db s) (rs_audit_key s) key fs w tr)"

interpretation trail: call_invariant "application_ports X app" "trail_kept X app key fs" for X app key fs
proof -
  let ?I = "trail_kept X app key fs"
  have ssh: "?I w' (tr @ [ob])" if "?I w tr" "on_ssh m w = (r, w')" "recorded [ob] = []"
    for m :: "('a, 'b, 'c) broker_io" and r w w' tr and ob :: "unit obs"
    using that(1) by (auto simp: trail_kept_def Let_def on_ssh_host [OF that(2)] intro!: trail_looked [OF _ _ that(3)])
  have host: "?I w' (tr @ [ob])"
    if "?I w tr" "on_host m w = (r, w')" "\<And>h r h'. m h = (r, h') \<Longrightarrow> looked h h'" "recorded [ob] = []"
    for m :: "(dbhost, 'c) io" and r and w w' :: "('a, 'b) site" and tr and ob :: "unit obs"
    using that(1,2) by (auto simp: trail_kept_def Let_def elim!: on_host_run intro!: trail_looked [OF _ _ that(4)] that(3))
  note I = application_ports_def Let_def ports.simps
  show "call_invariant (application_ports X app) ?I"
  proof (unfold_locales, unfold I, goal_cases)
    case (1 w tr u t a r w')
    then show ?case by (rule host) (auto dest: lookups_looked(1))
  next
    case (2 w tr t r w')
    then show ?case by (rule host) (auto dest: lookups_looked(2))
  next
    case (3 w tr t r w')
    then show ?case by (rule host) (auto dest: lookups_looked(3))
  next
    case (4 w tr ref r w')
    then show ?case by (rule host) (auto simp: bind_eq_iff dest: lookups_looked(4))
  next
    case (5 w tr tgt acc c r w')
    then show ?case by (rule ssh) simp
  next
    case (6 w tr h d r w')
    then show ?case by (rule ssh) simp
  next
    case (7 w tr h r w')
    then show ?case by (rule ssh) simp
  next
    case (8 w tr ev r w')
    from 8(2) obtain h where h: "audit_append (o_hmac X) (get_key (rs_audit_key (app_settings app)))
        (rs_audit_db (app_settings app)) ev (st_host w) = (r, h)" "w' = w\<lparr>st_host := h\<rparr>"
      by (rule on_host_run)
    from 8(1) have "hmac_sized (o_hmac X)" "rs_audit_db (app_settings app) \<noteq> rs_audit_key (app_settings app)"
      "trail_of (o_hmac X) (rs_audit_db (app_settings app)) (rs_audit_key (app_settings app)) key fs w tr"
      by (simp_all add: trail_kept_def Let_def)
    from trail_append [OF this h(1)] this(1,2) h(2) show ?case by (simp add: trail_kept_def Let_def)
  next
    case (9 w tr r w')
    then show ?case unfolding on_outside_def by (rule ssh) simp
  next
    case (10 w tr r w')
    from 10(2) obtain h where h: "new_uuid (st_host w) = (r, h)" "w' = w\<lparr>st_host := h\<rparr>"
      by (rule on_host_run)
    from new_uuid_looked [OF h(1)] obtain es where "looked (st_host w) (h\<lparr>h_entropy := es\<rparr>)" ..
    with trail_looked [of "o_hmac X" "rs_audit_db (app_settings app)" "rs_audit_key (app_settings app)" key fs w tr
        "w'\<lparr>st_host := h\<lparr>h_entropy := es\<rparr>\<rparr>" "NewId r"] 10(1)
    show ?case
      by (simp add: trail_kept_def Let_def trail_of_def h(2) table_rows_def table_at_def db_at_def key_of_def)
  qed
qed

end
