(* ===== verification/Service_Stores.thy ===== *)
theory Service_Stores
  imports Service_Trail
begin

text \<open>
  The access service on stores with known contents: every lookup of a run is answered from the
  tables as they were at its start, since the service writes to the audit trail only.
\<close>

section \<open>What the stores answer\<close>

record service_rows =
  sr_policies :: "row list"
  sr_targets :: "row list"
  sr_accounts :: "row list"
  sr_vault :: "row list"

definition serves :: "runtime_settings \<Rightarrow> service_rows \<Rightarrow> dbhost \<Rightarrow> bool" where
  "serves s d h \<longleftrightarrow> policy_rows (rs_config_db s) h (sr_policies d) \<and> target_rows (rs_config_db s) h (sr_targets d)
     \<and> account_rows (rs_config_db s) h (sr_accounts d) \<and> vault_rows (rs_vault_db s) h (sr_vault d)"

definition credential_of :: "aead \<Rightarrow> bytes \<Rightarrow> row list \<Rightarrow> credential_ref \<Rightarrow> broker_credential option res" where
  "credential_of lib key rows ref =
     bindR (secret_of rows ref) (\<lambda>s. bindR (catchR (cipher_decrypt lib key s) is_exception (\<lambda>_. Inl not_decrypted))
       (\<lambda>x. Inr (Some \<lparr>bc_value = x\<rparr>)))"

text \<open>
  An answer is that of the tables; unless the host works without faults (\<open>quiet\<close>) a lookup may
  also fail.
\<close>

fun answer_ok :: "aead \<Rightarrow> bytes \<Rightarrow> service_rows \<Rightarrow> bool \<Rightarrow> 'h obs \<Rightarrow> bool" where
  "answer_ok lib key d quiet (FindMatching u t a r) = (r = policies_of (sr_policies d) (u, t, a) \<or> \<not> quiet \<and> isl r)"
| "answer_ok lib key d quiet (GetTarget t r) = (r = target_of (sr_targets d) t \<or> \<not> quiet \<and> isl r)"
| "answer_ok lib key d quiet (FindForTarget t r) = (r = account_of (sr_accounts d) t \<or> \<not> quiet \<and> isl r)"
| "answer_ok lib key d quiet (Resolve ref r) = (r = credential_of lib key (sr_vault d) ref \<or> \<not> quiet \<and> isl r)"
| "answer_ok lib key d quiet _ = True"

definition separate_audit :: "runtime_settings \<Rightarrow> bool" where
  "separate_audit s \<longleftrightarrow> rs_audit_db s \<notin> {rs_audit_key s, rs_config_db s, rs_vault_db s}"

definition answered ::
  "('v, 'k) outside \<Rightarrow> application \<Rightarrow> bytes \<Rightarrow> audit_fields list \<Rightarrow> service_rows \<Rightarrow> bool \<Rightarrow> ('v, 'k) site \<Rightarrow> 'h obs list \<Rightarrow> bool" where
  "answered X app key fs d quiet w tr \<longleftrightarrow> (let s = app_settings app in
     separate_audit s \<and> trail_kept X app key fs w tr \<and> serves s d (st_host w)
     \<and> (quiet \<longrightarrow> h_faults (st_host w) = [])
     \<and> list_all (answer_ok (o_aead X) (app_vault_key app) d quiet) tr)"

section \<open>Every call keeps this\<close>

lemma serves_looked: "looked h h' \<Longrightarrow> serves s d h \<Longrightarrow> serves s d h'"
  by (simp add: serves_def looked_rows)

lemma serves_files: "(\<forall>p. p = rs_config_db s \<or> p = rs_vault_db s \<longrightarrow> h_files h' p = h_files h p) \<Longrightarrow>
    serves s d h \<Longrightarrow> serves s d h'"
  by (simp add: serves_def table_rows_def table_at_def db_at_def)

lemma audit_append_host:
  assumes "audit_rows p h rows" "audit_append hmac (get_key q) p ev h = (r, h')"
  shows "h_entropy h' = h_entropy h \<and> (h_faults h = [] \<longrightarrow> h_faults h' = [])"
proof (cases "audit_serialize ev")
  case (Inl e)
  with assms show ?thesis by (simp add: audit_append_def)
next
  case (Inr f)
  obtain k h1 where k: "audit_load_key (get_key q) h = (k, h1)" by fastforce
  have f1: "h_entropy h1 = h_entropy h \<and> (h_faults h = [] \<longrightarrow> h_faults h1 = [])"
    using key_file.load_key_quiet [of h q] key_file.load_key_run [OF k] k by (auto simp: same_files_def)
  have "audit_rows p h1 rows" using key_file.load_key_run [OF k] assms(1)
    by (simp add: table_rows_def table_at_def db_at_def same_files_def)
  note run = append_transaction_run [OF this]
  show ?thesis
  proof (cases k)
    case (Inl e)
    with assms(2) Inr k f1 show ?thesis by (simp add: audit_append_def bind_apply)
  next
    case key: (Inr key)
    obtain w h2 where w: "transaction p (append_statements hmac key f) h1 = (w, h2)" by fastforce
    from run [OF w] f1 have "h_entropy h2 = h_entropy h \<and> (h_faults h = [] \<longrightarrow> h_faults h2 = [])"
      by (simp add: only_db_def)
    moreover from assms(2) Inr k key w have "h' = h2"
      by (auto simp: audit_append_def bind_apply try_except_def split: sum.splits if_splits)
    ultimately show ?thesis by simp
  qed
qed

lemma lookup_answers:
  assumes "serves s d h"
  shows "policy_find_matching (rs_config_db s) u t a h = (r1, h') \<Longrightarrow> r1 = policies_of (sr_policies d) (u, t, a) \<or> isl r1 \<and> h_faults h \<noteq> []"
    "target_get (rs_config_db s) t h = (r2, h') \<Longrightarrow> r2 = target_of (sr_targets d) t \<or> isl r2 \<and> h_faults h \<noteq> []"
    "account_find_for_target (rs_config_db s) t h = (r3, h') \<Longrightarrow> r3 = account_of (sr_accounts d) t \<or> isl r3 \<and> h_faults h \<noteq> []"
    "bind (vault_resolve (rs_vault_db s) lib key ref) (\<lambda>c. ret (Some c)) h = (r4, h') \<Longrightarrow>
       r4 = credential_of lib key (sr_vault d) ref \<or> isl r4 \<and> h_faults h \<noteq> []"
proof -
  from assms have rows: "policy_rows (rs_config_db s) h (sr_policies d)" "target_rows (rs_config_db s) h (sr_targets d)"
    "account_rows (rs_config_db s) h (sr_accounts d)" "vault_rows (rs_vault_db s) h (sr_vault d)"
    by (simp_all add: serves_def)
  show "policy_find_matching (rs_config_db s) u t a h = (r1, h') \<Longrightarrow> r1 = policies_of (sr_policies d) (u, t, a) \<or> isl r1 \<and> h_faults h \<noteq> []"
    using policy_find_matching_run [OF rows(1)] by blast
  show "target_get (rs_config_db s) t h = (r2, h') \<Longrightarrow> r2 = target_of (sr_targets d) t \<or> isl r2 \<and> h_faults h \<noteq> []"
    using target_get_run [OF rows(2)] by blast
  show "account_find_for_target (rs_config_db s) t h = (r3, h') \<Longrightarrow> r3 = account_of (sr_accounts d) t \<or> isl r3 \<and> h_faults h \<noteq> []"
    using account_find_for_target_run [OF rows(3)] by blast
  assume r: "bind (vault_resolve (rs_vault_db s) lib key ref) (\<lambda>c. ret (Some c)) h = (r4, h')"
  then obtain q where q: "vault_resolve (rs_vault_db s) lib key ref h = (q, h')" "r4 = bindR q (\<lambda>c. Inr (Some c))"
    by (auto simp: bind_eq_iff)
  from vault_resolve_run [OF rows(4) q(1)] q(2) show "r4 = credential_of lib key (sr_vault d) ref \<or> isl r4 \<and> h_faults h \<noteq> []"
    by (auto simp: credential_of_def bindR_def split: sum.splits)
qed

interpretation stores: call_invariant "application_ports X app" "answered X app key fs d quiet" for X app key fs d quiet
proof -
  let ?s = "app_settings app"
  let ?I = "answered X app key fs d quiet"
  note I = application_ports_def Let_def ports.simps
  have keep: "?I w' (tr @ [ob])"
    if "?I w tr" "trail_kept X app key fs w' (tr @ [ob])" "looked (st_host w) (st_host w')"
      "answer_ok (o_aead X) (app_vault_key app) d quiet ob" for w w' :: "('a, 'b) site" and tr and ob :: "unit obs"
    using that by (auto simp: answered_def Let_def serves_looked) (simp add: looked_def)
  have ssh: "?I w' (tr @ [ob])"
    if "?I w tr" "trail_kept X app key fs w' (tr @ [ob])" "on_ssh m w = (r, w')"
      "answer_ok (o_aead X) (app_vault_key app) d quiet ob"
    for m :: "('a, 'b, 'c) broker_io" and r w w' tr and ob :: "unit obs"
    by (rule keep [OF that(1,2) _ that(4)]) (simp add: on_ssh_host [OF that(3)])
  have host: "?I w' (tr @ [ob r])"
    if "?I w tr" "trail_kept X app key fs w' (tr @ [ob r])" "on_host m w = (r, w')"
      "\<And>h r h'. m h = (r, h') \<Longrightarrow> looked h h'"
      "\<And>h r h'. serves ?s d h \<Longrightarrow> m h = (r, h') \<Longrightarrow> r = v \<or> isl r \<and> h_faults h \<noteq> []"
      "\<And>r. r = v \<or> \<not> quiet \<and> isl r \<Longrightarrow> answer_ok (o_aead X) (app_vault_key app) d quiet (ob r)"
    for m :: "(dbhost, 'c) io" and r v w w' tr and ob :: "'c res \<Rightarrow> unit obs"
  proof -
    from that(3) obtain h where h: "m (st_host w) = (r, h)" "w' = w\<lparr>st_host := h\<rparr>" by (rule on_host_run)
    from that(1) have "serves ?s d (st_host w)" "quiet \<longrightarrow> h_faults (st_host w) = []"
      by (simp_all add: answered_def Let_def)
    with that(5) [OF _ h(1)] have "r = v \<or> \<not> quiet \<and> isl r" by auto
    with that(6) h that(4) [OF h(1)] show ?thesis by (intro keep [OF that(1,2)]) simp_all
  qed
  have kept: "trail_kept X app key fs w tr" if "?I w tr" for w and tr :: "unit obs list"
    using that by (simp add: answered_def Let_def)
  have resolve_looked: "looked h h'" if "bind (vault_resolve p lib k ref) (\<lambda>c. ret (Some c)) h = (r, h')"
    for p lib k ref h h' and r :: "broker_credential option res"
    using that by (auto simp: bind_eq_iff dest: lookups_looked(4))
  show "call_invariant (application_ports X app) ?I"
  proof (unfold_locales, goal_cases)
    case (1 w tr u t a r w')
    show ?case
      by (rule host [of _ _ _ "FindMatching u t a" _ _ "policies_of (sr_policies d) (u, t, a)",
            OF 1(1) trail.find_matching [OF kept [OF 1(1)] 1(2)] 1(2) [unfolded I]])
        (auto dest: lookups_looked(1) lookup_answers(1))
  next
    case (2 w tr t r w')
    show ?case
      by (rule host [of _ _ _ "GetTarget t" _ _ "target_of (sr_targets d) t",
            OF 2(1) trail.get_target [OF kept [OF 2(1)] 2(2)] 2(2) [unfolded I]])
        (auto dest: lookups_looked(2) lookup_answers(2))
  next
    case (3 w tr t r w')
    show ?case
      by (rule host [of _ _ _ "FindForTarget t" _ _ "account_of (sr_accounts d) t",
            OF 3(1) trail.find_for_target [OF kept [OF 3(1)] 3(2)] 3(2) [unfolded I]])
        (auto dest: lookups_looked(3) lookup_answers(3))
  next
    case (4 w tr ref r w')
    show ?case
      by (rule host [of _ _ _ "Resolve ref" _ _ "credential_of (o_aead X) (app_vault_key app) (sr_vault d) ref",
            OF 4(1) trail.resolve [OF kept [OF 4(1)] 4(2)] 4(2) [unfolded I]])
        (auto dest: resolve_looked lookup_answers(4))
  next
    case (5 w tr tgt acc c r w')
    show ?case
      by (rule ssh [OF 5(1) trail.open_session [OF kept [OF 5(1)] 5(2)] 5(2) [unfolded I]]) simp
  next
    case (6 w tr h d r w')
    show ?case by (rule ssh [OF 6(1) trail.relay [OF kept [OF 6(1)] 6(2)] 6(2) [unfolded I]]) simp
  next
    case (7 w tr h r w')
    show ?case by (rule ssh [OF 7(1) trail.close [OF kept [OF 7(1)] 7(2)] 7(2) [unfolded I]]) simp
  next
    case (8 w tr ev r w')
    note k = trail.append [OF kept [OF 8(1)] 8(2)]
    from 8(2) obtain h where h: "audit_append (o_hmac X) (get_key (rs_audit_key ?s)) (rs_audit_db ?s) ev (st_host w) = (r, h)"
      "w' = w\<lparr>st_host := h\<rparr>" unfolding I by (rule on_host_run)
    from 8(1) obtain rows where a: "separate_audit ?s" "audit_rows (rs_audit_db ?s) (st_host w) rows" "serves ?s d (st_host w)"
      by (auto simp: answered_def Let_def trail_kept_def trail_of_def)
    have other: "\<forall>x. x \<noteq> rs_audit_db ?s \<longrightarrow> h_files h x = h_files (st_host w) x"
      using key_file.append_run [OF a(2) h(1)] a(1) by (simp add: separate_audit_def)
    have "serves ?s d h"
      by (rule serves_files [OF _ a(3)]) (use other a(1) in \<open>auto simp: separate_audit_def\<close>)
    with 8(1) k h(2) audit_append_host [OF a(2) h(1)] show ?case by (simp add: answered_def Let_def)
  next
    case (9 w tr r w')
    show ?case by (rule ssh [OF 9(1) trail.now [OF kept [OF 9(1)] 9(2)] 9(2) [unfolded I on_outside_def]]) simp
  next
    case (10 w tr r w')
    from 10(2) obtain h where h: "new_uuid (st_host w) = (r, h)" "w' = w\<lparr>st_host := h\<rparr>"
      unfolding I by (rule on_host_run)
    from new_uuid_run [OF h(1)] have "h_files h = h_files (st_host w)" "h_faults h = h_faults (st_host w)" by auto
    with 10(1) trail.new_id [OF kept [OF 10(1)] 10(2)] h(2) show ?case
      by (simp add: answered_def Let_def serves_def table_rows_def table_at_def db_at_def)
  qed
qed

end
