(* ===== verification/Program_Run.thy ===== *)
theory Program_Run
  imports Wiring Service_Trace Existing
begin

text \<open>
  A run of the program that ends well: which calls it has made, each on the world that the one
  before has left, and what starting the application has changed.
\<close>

section \<open>The access command with exit code 0\<close>

lemma or_exit_zero:
  assumes "or_exit m p h k s = (Inr 0, s')" "\<And>e. snd (h e) \<noteq> 0"
  obtains x s1 where "m s = (Inr x, s1)" "k x s1 = (Inr 0, s')"
proof -
  obtain q s1 where q: "m s = (q, s1)" by fastforce
  from or_exit_run [OF assms(1) q] assms(2) obtain x where "q = Inr x" "k x s1 = (Inr 0, s')"
    by (metis Inr_inject Inr_not_Inl)
  with q that show ?thesis by blast
qed

lemma new_request_made:
  assumes "new_request P who target_id s = (Inr q, s')"
  obtains i d w where "cp_new_id P (world s) = (Inr i, w)" "cp_now P w = (Inr d, world s')"
    "mk_access_request i (pr_user_id who) target_id OPEN_PRIVILEGED_SESSION d = Inr q"
  using assms by (auto simp: new_request_def io_iffs)

lemma run_request_zero:
  assumes "run_request P services who target_id q s = (Inr 0, s')"
  obtains res where "cp_access P services who q (world s) = (Inr res, world s')" "closed_session res"
proof -
  let ?s = "s\<lparr>trace := trace s @ [Print (lit ''Authenticated. Requesting access to '' @ target_id @ lit ''...'')]\<rparr>"
  from assms have "or_exit (perform (cp_access P services who q) (Access who q)) (\<lambda>_. True)
       (\<lambda>_. (''Privileged session failed.'', exit_session_failed)) (\<lambda>result.
     seq (print_line (lit (fst (report_access_result result))))
         (ret (snd (report_access_result result)))) ?s = (Inr 0, s')"
    by (simp add: run_request_def seq_apply print_line_def)
  then obtain res s1 where r: "perform (cp_access P services who q) (Access who q) ?s = (Inr res, s1)"
    "seq (print_line (lit (fst (report_access_result res)))) (ret (snd (report_access_result res))) s1 = (Inr 0, s')"
    by (rule or_exit_zero) (simp add: exit_codes)
  from r(2) have "closed_session res" "world s' = world s1"
    using report_cases(1) [of res] by (auto simp: seq_apply print_line_def split: if_splits)
  with r(1) that show ?thesis by (auto simp: perform_eq_iff)
qed

text \<open>The calls of such a run\<close>

lemma run_access_zero:
  assumes "run_access P dir username target_id secs s = (Inr 0, s')"
  obtains settings services password who i d q res w1 w2 w3 w4 w5 w6 where
    "cp_provisioned P dir (world s) = (Inr True, w1)" "runtime_settings_of dir secs = Inr settings"
    "cp_build P settings w1 = (Inr services, w2)" "cp_getpass P w2 = (Inr password, w3)"
    "cp_authenticate P services username password w3 = (Inr who, w4)"
    "cp_new_id P w4 = (Inr i, w5)" "cp_now P w5 = (Inr d, w6)"
    "mk_access_request i (pr_user_id who) target_id OPEN_PRIVILEGED_SESSION d = Inr q"
    "cp_access P services who q w6 = (Inr res, world s')" "closed_session res"
proof -
  from assms obtain s1 where p: "perform (cp_provisioned P dir) Provisioned s = (Inr True, s1)"
    and "or_exit (bind (lift (runtime_settings_of dir secs)) (\<lambda>settings. perform (cp_build P settings) Build)) is_exception
       (\<lambda>_. (''Application startup failed. Check the provisioned runtime.'', exit_internal_failure))
       (run_started P username target_id) s1 = (Inr 0, s')"
    by (auto simp: run_access_def bind_eq_iff seq_apply exit_codes print_line_def split: if_splits)
  from this(2) obtain services s2 where
    b: "bind (lift (runtime_settings_of dir secs)) (\<lambda>settings. perform (cp_build P settings) Build) s1 = (Inr services, s2)"
    and "run_started P username target_id services s2 = (Inr 0, s')"
    by (rule or_exit_zero) (simp add: exit_codes)
  from this(2) obtain password s3 where g: "perform (cp_getpass P) Getpass s2 = (Inr password, s3)"
    and "run_login P username target_id services password s3 = (Inr 0, s')"
    unfolding run_started_def by (rule or_exit_zero) (simp add: exit_codes)
  from this(2) obtain who s4 where
    a: "perform (cp_authenticate P services username password) (Authenticate username password) s3 = (Inr who, s4)"
    and "run_authenticated P target_id services who s4 = (Inr 0, s')"
    unfolding run_login_def by (rule or_exit_zero) (simp add: exit_codes)
  from this(2) obtain q s5 where n: "new_request P who target_id s4 = (Inr q, s5)"
    and "run_request P services who target_id q s5 = (Inr 0, s')"
    unfolding run_authenticated_def by (rule or_exit_zero) (simp add: exit_codes)
  from this(2) obtain res where r: "cp_access P services who q (world s5) = (Inr res, world s')" "closed_session res"
    by (rule run_request_zero)
  from n obtain i d w where "cp_new_id P (world s4) = (Inr i, w)" "cp_now P w = (Inr d, world s5)"
    "mk_access_request i (pr_user_id who) target_id OPEN_PRIVILEGED_SESSION d = Inr q"
    by (rule new_request_made)
  with p b g a r that show ?thesis by (auto simp: io_iffs)
qed

text \<open>The console does not touch the world behind it.\<close>

lemma tty_world:
  "tcgetattr fd s = (r1, s') \<Longrightarrow> console_world s' = console_world s"
  "tcsetattr fd w a s = (r2, s') \<Longrightarrow> console_world s' = console_world s"
  "tty_setraw raw fd w s = (r2, s') \<Longrightarrow> console_world s' = console_world s"
proof -
  show g: "tcgetattr fd s = (r, s') \<Longrightarrow> console_world s' = console_world s" for s s' r
    by (auto simp: tcgetattr_def tty_call_def split: list.splits bool.splits option.splits)
  show t: "tcsetattr fd w a s = (r, s') \<Longrightarrow> console_world s' = console_world s" for a s s' r
    by (auto simp: tcsetattr_def tty_call_def split: list.splits bool.splits option.splits)
  show "tty_setraw raw fd w s = (r2, s') \<Longrightarrow> console_world s' = console_world s"
    by (auto simp: tty_setraw_def bind_eq_iff dest!: g t)
qed

lemma raw_terminal_success:
  assumes "with_raw_terminal raw fd body s = (Inr x, s')"
  obtains s1 s2 where "console_world s1 = console_world s" "body s1 = (Inr x, s2)" "console_world s' = console_world s2"
proof -
  from assms obtain s1 q s2 y where "console_world s1 = console_world s" "body s1 = (q, s2)"
    "console_world s' = console_world s2" "Inr (x, y) = (case q of Inl e \<Rightarrow> Inl e | Inr z \<Rightarrow> Inr (z, y))"
    unfolding with_raw_terminal_def io_iffs try_finally_def
    by (fastforce dest!: tty_world split: sum.splits)
  with that show ?thesis by (cases q) auto
qed

lemma interactive_success:
  assumes "execute_interactive_access raw t P d who q s = (Inr res, s')"
  obtains s1 where "handle P d (Some who) q (initial_state (console_world s)) = (Inr res, s1)"
    "console_world s' = world s1"
  using assms unfolding execute_interactive_access_def
  by (elim raw_terminal_success) (auto split: prod.splits)

section \<open>Starting\<close>

lemma provisioned_same_files:
  assumes "runtime_is_provisioned dir h = (r, h')"
  shows "h_files h' = h_files h"
  using assms by (auto simp: runtime_is_provisioned_def io_iffs os_call_def faultable_eq split: if_splits)

lemma build_application_success:
  assumes "build_application lib s h = (Inr app, h')"
    "\<forall>pw g. h_files (snd (a_hash lib pw g)) = h_files g"
  shows "app_settings app = s \<and> key_of h (rs_vault_key s) = Some (app_vault_key app)
    \<and> app_terminal app = \<lparr>lt_input_fd = 0, lt_output_fd = 1\<rparr> \<and> app_max_session app = rs_max_session s \<and> 0 < rs_max_session s \<and> keeps_tables h h'
    \<and> (\<forall>q. q \<notin> fst ` set (store_schemas s) \<longrightarrow> h_files h' q = h_files h q)
    \<and> (rs_audit_db s \<noteq> rs_vault_db s \<longrightarrow> table_at h (rs_audit_db s) audit_table = None \<longrightarrow>
        table_at h' (rs_audit_db s) audit_table = Some (made audit_schema audit_unique []))"
proof -
  from assms(1) have "\<exists>k h1 c h2 d m t. read_keys s h = (Inr k, h1) \<and> mk_cipher k = Inr c
    \<and> open_stores s h1 = (Inr (), h2)
    \<and> mk_authentication (repository_auth (rs_auth_db s) lib) token_urlsafe h2 = (Inr d, h')
    \<and> mk_access_service (rs_max_session s) = Inr m \<and> mk_local_terminal 0 1 = Inr t
    \<and> app = \<lparr>app_settings = s, app_vault_key = c, app_dummy_hash = d, app_max_session = m, app_terminal = t\<rparr>"
    by (auto simp: build_application_def io_iffs dest!: validate_distinct_run)
  then obtain k h1 c h2 d m t where p:
    "read_keys s h = (Inr k, h1)" "mk_cipher k = Inr c" "open_stores s h1 = (Inr (), h2)"
    "mk_authentication (repository_auth (rs_auth_db s) lib) token_urlsafe h2 = (Inr d, h')"
    "mk_access_service (rs_max_session s) = Inr m" "mk_local_terminal 0 1 = Inr t"
    "app = \<lparr>app_settings = s, app_vault_key = c, app_dummy_hash = d, app_max_session = m, app_terminal = t\<rparr>" by blast
  have "c = k" using p(2) by (auto simp: mk_cipher_def split: if_splits)
  moreover from p(5) have "m = rs_max_session s" "0 < m"
    by (auto simp: mk_access_service_def split: if_splits)
  moreover from read_keys_run [OF p(1)] have "key_of h (rs_vault_key s) = Some k" "h_files h1 = h_files h"
    by (auto simp: same_files_def)
  moreover from open_stores_run [OF p(3)] have "keeps_tables h1 h2"
    "\<forall>q. q \<notin> fst ` set (store_schemas s) \<longrightarrow> h_files h2 q = h_files h1 q" by (simp_all add: opened_all_def)
  moreover note mk_authentication_files [OF p(4) assms(2)]
  moreover have "keeps_tables h h'"
    by (rule keeps_tables_trans [OF same_files_tables keeps_tables_trans [OF _ same_files_tables]]) (fact calculation)+
  moreover have "rs_audit_db s \<noteq> rs_vault_db s \<Longrightarrow> table_at h (rs_audit_db s) audit_table = None \<Longrightarrow>
      table_at h' (rs_audit_db s) audit_table = Some (made audit_schema audit_unique [])"
    using open_stores_trail [OF p(3)] calculation(5,8) by (simp add: table_at_def db_at_def)
  ultimately show ?thesis using p(6,7) by (auto simp: mk_local_terminal_def reject_def)
qed

lemma runtime_settings_paths:
  assumes "runtime_settings_of dir secs = Inr s"
  shows "rs_auth_db s = runtime_file dir ''auth.db''" "rs_config_db s = runtime_file dir ''config.db''"
    "rs_vault_db s = runtime_file dir ''vault.db''" "rs_audit_db s = runtime_file dir ''audit.db''"
    "rs_vault_key s = runtime_file dir ''vault.key''" "rs_audit_key s = runtime_file dir ''audit.key''"
  using assms by (auto simp: runtime_settings_of_def mk_runtime_settings_def bindR_def split: sum.splits)

end
