(* ===== verification/Program_Record.thy ===== *)
theory Program_Record
  imports Service_Stores Program_Run
begin

text \<open>
  What a successful run of the program leaves on record. The audit trail of a run of the service is
  that of before with exactly the persisted events appended; and exit code 0 of the access command
  means that the user with that name proved the password, that all matching policies of the database
  allow the access, and that the trail, which verifies, ends with the four events of the session.
\<close>

section \<open>The trail after a run of the service\<close>

lemma trail_start:
  assumes "hmac_sized (o_hmac X)" "rs_audit_db (app_settings app) \<noteq> rs_audit_key (app_settings app)"
    "key_of (st_host w) (rs_audit_key (app_settings app)) = Some key"
    "table_at (st_host w) (rs_audit_db (app_settings app)) audit_table = Some (made audit_schema audit_unique rows)"
    "chain (o_hmac X) key 1 genesis_mac fs = Some rows" "distinct (map af_id fs)"
  shows "trail_kept X app key fs w []"
  using assms rows_of_table [OF assms(4,5)]
  by (auto simp: trail_kept_def Let_def trail_of_def)

lemma trail_verifies:
  assumes "hmac_sized hmac" "trail_of hmac p q key fs w tr" "h_faults (st_host w) = []"
  shows "fst (verify_integrity hmac (get_key q) p (st_host w)) = Inr ()"
proof -
  from assms(2) obtain gs rows where t: "chain hmac key 1 genesis_mac (fs @ gs) = Some rows"
    "audit_rows p (st_host w) rows" "key_of (st_host w) q = Some key"
    unfolding trail_of_def by blast
  obtain r h where r: "verify_integrity hmac (get_key q) p (st_host w) = (r, h)" by fastforce
  have "length genesis_mac = 32" by (simp add: genesis_mac_def)
  then have "verify_rows hmac key 1 genesis_mac rows = Inr ()" using verify_rows_chain [OF assms(1)] t(1) by blast
  moreover have "length key = 32" using t(3) by (auto simp: key_of_def split: option.splits node.splits if_splits)
  ultimately have "r = Inr ()"
    using key_file.verify_run [OF t(2) r] assms(3) t(3) chain_sorted [OF t(1)] by (auto split: sum.splits)
  with r show ?thesis by simp
qed

text \<open>
  C17. The audit trail of a run: whatever the request, the faults of the host and the remote side
  do, the trail after a run of the wired service is a chain that consists of the events of before
  and exactly the events the service has persisted in this run, in their order and with distinct
  ids; without a fault its verification passes.
\<close>

theorem audit_trail_of_run:
  fixes X :: "('v, 'k) outside"
  assumes "hmac_sized (o_hmac X)" "p \<noteq> q" "p = rs_audit_db (app_settings app)" "q = rs_audit_key (app_settings app)"
    "key_of (st_host w) q = Some key" "table_at (st_host w) p audit_table = Some (made audit_schema audit_unique rows)"
    "chain (o_hmac X) key 1 genesis_mac fs = Some rows" "distinct (map af_id fs)"
    "handle (application_ports X app) maxd who req (initial_state w) = (r, s')"
  shows "\<exists>gs rows'. map audit_serialize (recorded (trace s')) = map Inr gs
    \<and> chain (o_hmac X) key 1 genesis_mac (fs @ gs) = Some rows' \<and> distinct (map af_id (fs @ gs))
    \<and> table_at (st_host (world s')) p audit_table = Some (made audit_schema audit_unique rows')
    \<and> (h_faults (st_host (world s')) = [] \<longrightarrow>
         fst (verify_integrity (o_hmac X) (get_key q) p (st_host (world s'))) = Inr ())"
proof -
  have "trail_kept X app key fs w []" using assms(1-8) by (intro trail_start) simp_all
  from trail.handle_invariant [OF assms(9) this]
  have t: "trail_of (o_hmac X) p q key fs (world s') (trace s')"
    by (simp add: trail_kept_def Let_def assms(3,4))
  from trail_verifies [OF assms(1) t] t show ?thesis by (auto simp: trail_of_def table_rows_def)
qed

section \<open>The calls of a session that was closed\<close>

lemma recorded_steps: "recorded (steps tr) = recorded tr"
proof (induction tr rule: recorded.induct)
  case (2 ev u tr)
  then show ?case by (simp add: steps_def)
qed (simp_all add: steps_def)

lemma closed_run:
  assumes "protocol c maxd who req cs x (Inr res)" "closed_session res"
  shows "\<exists>pr ps t a k h out al op ac cl sid. who = Some pr \<and> pr_user_id pr = req_user_id req
    \<and> ps \<noteq> [] \<and> list_all (\<lambda>p. pol_effect p = ALLOW) ps \<and> tgt_enabled t \<and> acc_enabled a \<and> acc_target_id a = tgt_id t
    \<and> cs = [FindMatching (req_user_id req) (req_target_id req) (req_action req) (Inr ps),
         GetTarget (req_target_id req) (Inr (Some t)), FindForTarget (tgt_id t) (Inr (Some a)),
         Resolve (acc_credential_ref a) (Inr (Some k)), Append al (Inr ()), Append op (Inr ()),
         OpenSession t a k (Inr h), Append ac (Inr ()), Relay h maxd (Inr (Outcome out)), Close h (Inr ()),
         Append cl (Inr ())]
    \<and> map ev_type [al, op, ac, cl] = [ACCESS_ALLOWED, SESSION_OPENING, SESSION_ACTIVE, SESSION_CLOSED]
    \<and> (\<forall>ev \<in> {al, op, ac, cl}. ev_session_id ev = Some sid \<and> ev_actor_user_id ev = req_user_id req
         \<and> ev_target_id ev = req_target_id req)"
  using assms(1)
proof (cases rule: protocol.cases)
  case (resolved pr ps t a v cs')
  from resolved(7) show ?thesis
  proof (cases rule: after_resolve.cases)
    case no_credential
    from denied_returns [OF no_credential(3)] assms(2) show ?thesis by (auto simp: closed_session_def deny_decision_def)
  next
    case (session_created i d k x')
    let ?x = "new_session req t a i d"
    have x: "ar_session res = Some x'" "ses_status x' = CLOSED"
      using session_run_returns [OF session_created(4,3)] assms(2) by (auto simp: closed_session_def new_session_def)
    from session_created(4) show ?thesis
    proof (cases rule: session_run.cases)
      case (open_failed al op e cs'' q)
      from open_failed(6) x(2) show ?thesis
        by (cases rule: ending.cases) (auto simp: failed_at_def new_session_def)
    next
      case (active_unaudited al op cs'' e e' cr h)
      then show ?thesis by (auto split: sum.splits if_splits)
    next
      case (relayed al op ac v' cr cs'' h)
      from relayed(5) show ?thesis
      proof (cases rule: concluded.cases)
        case (relay_failed q)
        from relay_failed(6) x(2) show ?thesis
          by (cases rule: ending.cases) (auto simp: failed_at_def new_session_def)
      next
        case (close_failed out e q)
        from close_failed(5) x(2) show ?thesis
          by (cases rule: ending.cases) (auto simp: failed_at_def new_session_def)
      next
        case (closed out reason q)
        then have "q = Inr ()" by (cases q) simp_all
        from closed(5) x(2) obtain d' where "audited (\<lambda>ev. event_for req SESSION_CLOSED (Some (ses_id ?x)) ''closed''
            (Some (lit reason)) (req_user_id req) ev \<and> ev_timestamp ev = d') cs'' q"
          by (cases rule: ending.cases) (auto simp: new_session_def)
        with \<open>q = Inr ()\<close> obtain cl where cl: "cs'' = [Append cl (Inr ())]"
          "event_for req SESSION_CLOSED (Some (ses_id ?x)) ''closed'' (Some (lit reason)) (req_user_id req) cl"
          by (auto simp: audited_iff)
        have acc: "acc_enabled a" "acc_target_id a = tgt_id t" using resolved(6) by (simp_all add: account_refusal_None)
        have ev: "map ev_type [al, op, ac, cl] = [ACCESS_ALLOWED, SESSION_OPENING, SESSION_ACTIVE, SESSION_CLOSED]"
          "\<forall>ev \<in> {al, op, ac, cl}. ev_session_id ev = Some (ses_id ?x) \<and> ev_actor_user_id ev = req_user_id req
             \<and> ev_target_id ev = req_target_id req"
          using relayed(2-4) cl(2) by (simp_all add: event_for_def)
        show ?thesis
          using resolved session_created relayed(1) closed cl(1) acc ev
          by (intro exI [of _ pr] exI [of _ ps] exI [of _ t] exI [of _ a] exI [of _ k] exI [of _ h] exI [of _ out]
              exI [of _ al] exI [of _ op] exI [of _ ac] exI [of _ cl] exI [of _ "ses_id ?x"])
            (simp add: decide_allow_iff list_all_iff)
      qed
    qed
  qed
qed (use assms(2) in \<open>auto dest!: denied_returns simp: closed_session_def deny_decision_def\<close>)

section \<open>What exit code 0 means\<close>

text \<open>What is on the host stays: every table, and the key in the file \<open>q\<close>.\<close>

definition state_kept :: "path \<Rightarrow> dbhost \<Rightarrow> dbhost \<Rightarrow> bool" where
  "state_kept q h h' \<longleftrightarrow> keeps_tables h h' \<and> (\<forall>k. key_of h q = Some k \<longrightarrow> key_of h' q = Some k)"

lemma state_kept_trans: "state_kept q h i \<Longrightarrow> state_kept q i j \<Longrightarrow> state_kept q h j"
  by (auto simp: state_kept_def intro: keeps_tables_trans)

lemma state_kept_files: "h_files h' = h_files h \<Longrightarrow> state_kept q h h'"
  by (simp add: state_kept_def same_files_tables key_of_def)

lemma state_kept_looked: "looked h h' \<Longrightarrow> state_kept q h h'"
  by (simp add: state_kept_def keeps_tables_def looked_table looked_key)

lemma state_kept_rows: "state_kept q h h' \<Longrightarrow> table_rows n cols uq p h rows \<Longrightarrow> table_rows n cols uq p h' rows"
  by (simp add: state_kept_def keeps_tables_def table_rows_def)

text \<open>Argon2 changes no file.\<close>

definition files_untouched :: "dbhost argon2 \<Rightarrow> bool" where
  "files_untouched lib \<longleftrightarrow> (\<forall>pw g. h_files (snd (a_hash lib pw g)) = h_files g)
     \<and> (\<forall>x pw g. h_files (snd (a_verify lib x pw g)) = h_files g)"

lemma authenticate_on_success:
  assumes "authenticate_on X app username password h = (Inr who, h')" "files_untouched (o_argon2 X)"
    "user_rows (rs_auth_db (app_settings app)) h users"
  shows "state_kept q h h' \<and> (\<exists>u g g'. user_of users username = Inr (Some u) \<and> usr_is_active (sua_user u)
    \<and> verify_password (o_argon2 X) password (sua_password_hash u) g = (Inr True, g')
    \<and> who = \<lparr>pr_user_id = usr_id (sua_user u), pr_username = usr_username (sua_user u)\<rparr>)"
proof -
  let ?p = "rs_auth_db (app_settings app)"
  let ?A = "repository_auth ?p (o_argon2 X)"
  from assms(1) obtain t where t: "authenticate ?A (app_dummy_hash app) username password \<lparr>world = h, trace = []\<rparr> = (Inr who, t)"
    "h' = world t" by (auto simp: authenticate_on_def split: prod.splits)
  obtain f g where f: "find_by_username ?p username h = (f, g)" by fastforce
  let ?s = "\<lparr>world = g, trace = [FindUser username f]\<rparr>"
  from t(1) f obtain x where x: "f = Inr x" "decide_authentication ?A (app_dummy_hash app) password x ?s = (Inr who, t)"
    by (cases f) (auto simp: authenticate_def find_user_def perform_def repository_auth_def bind_apply
        try_except_def seq_apply verify_dummy_def split: sum.splits prod.splits if_splits)
  then obtain u where u: "find_by_username ?p username h = (Inr (Some u), g)"
    "verify_password (o_argon2 X) password (sua_password_hash u) g = (Inr True, h')" "usr_is_active (sua_user u)"
    "who = \<lparr>pr_user_id = usr_id (sua_user u), pr_username = usr_username (sua_user u)\<rparr>"
    using f t(2)
    by (cases x) (auto simp: decide_authentication_def check_password_def perform_def repository_auth_def bind_apply
        try_except_def mk_principal_cases split: prod.splits sum.splits if_splits)
  have "h_files h' = h_files g"
    using u(2) assms(2) [unfolded files_untouched_def, THEN conjunct2, rule_format, of "sua_password_hash u" password g]
    by (auto simp: verify_password_def io_iffs)
  then have "state_kept q h h'"
    using state_kept_trans [OF state_kept_looked [OF lookups_looked(5) [OF u(1)]] state_kept_files] by blast
  moreover from find_by_username_run [OF assms(3) u(1)] have "user_of users username = Inr (Some u)" by auto
  ultimately show ?thesis using u(2-4) by blast
qed

text \<open>
  The databases and the audit key of a runtime directory, and the audit trail of the events \<open>fs\<close>:
  a chain of them, or, before the first start, no trail at all.
\<close>

definition runtime_holds :: "path \<Rightarrow> row list \<Rightarrow> service_rows \<Rightarrow> bytes \<Rightarrow> dbhost \<Rightarrow> bool" where
  "runtime_holds dir users d key h \<longleftrightarrow> user_rows (runtime_file dir ''auth.db'') h users
     \<and> policy_rows (runtime_file dir ''config.db'') h (sr_policies d)
     \<and> target_rows (runtime_file dir ''config.db'') h (sr_targets d)
     \<and> account_rows (runtime_file dir ''config.db'') h (sr_accounts d)
     \<and> vault_rows (runtime_file dir ''vault.db'') h (sr_vault d)
     \<and> key_of h (runtime_file dir ''audit.key'') = Some key"

definition trail_stored :: "hmac \<Rightarrow> path \<Rightarrow> bytes \<Rightarrow> audit_fields list \<Rightarrow> dbhost \<Rightarrow> bool" where
  "trail_stored hmac p key fs h \<longleftrightarrow> distinct (map af_id fs)
     \<and> (\<exists>rows. audit_rows p h rows \<and> chain hmac key 1 genesis_mac fs = Some rows)"

definition trail_begun :: "hmac \<Rightarrow> path \<Rightarrow> bytes \<Rightarrow> audit_fields list \<Rightarrow> dbhost \<Rightarrow> bool" where
  "trail_begun hmac p key fs h \<longleftrightarrow> trail_stored hmac p key fs h \<or> fs = [] \<and> table_at h p audit_table = None"

lemma runtime_holds_kept:
  "runtime_holds dir users d key h \<Longrightarrow> state_kept (runtime_file dir ''audit.key'') h h' \<Longrightarrow>
   runtime_holds dir users d key h'"
  using state_kept_rows [of "runtime_file dir ''audit.key''" h h']
  by (auto simp: runtime_holds_def) (simp add: state_kept_def)

lemma trail_stored_kept: "trail_stored hmac p key fs h \<Longrightarrow> state_kept q h h' \<Longrightarrow> trail_stored hmac p key fs h'"
  unfolding trail_stored_def using state_kept_rows by blast

text \<open>Starting the application begins the trail.\<close>

lemma trail_after_start:
  assumes "build_application lib s h = (Inr app, h')" "\<forall>pw g. h_files (snd (a_hash lib pw g)) = h_files g"
    "rs_audit_db s \<noteq> rs_vault_db s" "trail_begun hmac (rs_audit_db s) key fs h"
  shows "trail_stored hmac (rs_audit_db s) key fs h'"
proof -
  note b = build_application_success [OF assms(1,2)]
  from assms(4) show ?thesis
    unfolding trail_begun_def
  proof (elim disjE conjE)
    assume "trail_stored hmac (rs_audit_db s) key fs h"
    with b show ?thesis by (auto simp: trail_stored_def table_rows_def keeps_tables_def)
  next
    assume "fs = []" "table_at h (rs_audit_db s) audit_table = None"
    with b assms(3) show ?thesis by (simp add: trail_stored_def table_rows_def)
  qed
qed

lemma set_steps: "set (steps tr) \<subseteq> set tr"
  by (simp add: steps_def)

text \<open>What the stores said when a session was opened and closed, and what the trail says of it\<close>

definition session_granted :: "aead \<Rightarrow> bytes \<Rightarrow> service_rows \<Rightarrow> pystr \<Rightarrow> pystr \<Rightarrow> bool" where
  "session_granted lib vault_key d user_id target_id \<longleftrightarrow> (\<exists>ps t a k.
     policies_of (sr_policies d) (user_id, target_id, OPEN_PRIVILEGED_SESSION) = Inr ps
     \<and> ps \<noteq> [] \<and> list_all (\<lambda>p. pol_effect p = ALLOW) ps
     \<and> target_of (sr_targets d) target_id = Inr (Some t) \<and> tgt_enabled t
     \<and> account_of (sr_accounts d) (tgt_id t) = Inr (Some a) \<and> acc_enabled a \<and> acc_target_id a = tgt_id t
     \<and> credential_of lib vault_key (sr_vault d) (acc_credential_ref a) = Inr (Some k))"

definition session_events :: "pystr \<Rightarrow> pystr \<Rightarrow> audit_event list \<Rightarrow> bool" where
  "session_events user_id target_id evs \<longleftrightarrow>
     map ev_type evs = [ACCESS_ALLOWED, SESSION_OPENING, SESSION_ACTIVE, SESSION_CLOSED]
     \<and> (\<exists>sid. \<forall>ev \<in> set evs. ev_session_id ev = Some sid \<and> ev_actor_user_id ev = user_id
         \<and> ev_target_id ev = target_id)"

lemma closed_session_recorded:
  fixes X :: "('v, 'k) outside"
  assumes "handle (application_ports X app) maxd (Some who) req (initial_state w) = (Inr res, s')" "closed_session res"
    "answered X app key fs d False w ([] :: unit obs list)" "req_action req = OPEN_PRIVILEGED_SESSION"
  shows "session_granted (o_aead X) (app_vault_key app) d (req_user_id req) (req_target_id req)
    \<and> pr_user_id who = req_user_id req
    \<and> (\<exists>evs. recorded (trace s') = evs \<and> session_events (req_user_id req) (req_target_id req) evs)
    \<and> trail_kept X app key fs (world s') (trace s')"
proof -
  from stores.handle_invariant [OF assms(1,3)] have inv:
    "list_all (answer_ok (o_aead X) (app_vault_key app) d False) (trace s')" "trail_kept X app key fs (world s') (trace s')"
    by (simp_all add: answered_def Let_def)
  from closed_run [OF handle_protocol [OF assms(1)] assms(2)] obtain pr ps t a k h out al op ac cl sid where
    pr: "Some who = Some pr" "pr_user_id pr = req_user_id req" and
    c: "ps \<noteq> []" "list_all (\<lambda>p. pol_effect p = ALLOW) ps"
      "tgt_enabled t" "acc_enabled a" "acc_target_id a = tgt_id t"
      "map ev_type [al, op, ac, cl] = [ACCESS_ALLOWED, SESSION_OPENING, SESSION_ACTIVE, SESSION_CLOSED]"
      "\<forall>ev \<in> {al, op, ac, cl}. ev_session_id ev = Some sid \<and> ev_actor_user_id ev = req_user_id req
         \<and> ev_target_id ev = req_target_id req"
    and tr: "steps (trace s') = [FindMatching (req_user_id req) (req_target_id req) (req_action req) (Inr ps),
         GetTarget (req_target_id req) (Inr (Some t)), FindForTarget (tgt_id t) (Inr (Some a)),
         Resolve (acc_credential_ref a) (Inr (Some k)), Append al (Inr ()), Append op (Inr ()),
         OpenSession t a k (Inr h), Append ac (Inr ()), Relay h maxd (Inr (Outcome out)), Close h (Inr ()),
         Append cl (Inr ())]"
    by (elim exE conjE) (rule that; assumption)
  have ok: "\<forall>ob \<in> set (steps (trace s')). answer_ok (o_aead X) (app_vault_key app) d False ob"
    using inv(1) set_steps by (auto simp: list_all_iff)
  have "session_granted (o_aead X) (app_vault_key app) d (req_user_id req) (req_target_id req)"
    unfolding session_granted_def
    by (rule exI [of _ ps], rule exI [of _ t], rule exI [of _ a], rule exI [of _ k])
      (use ok [unfolded tr] c(1-5) assms(4) in simp)
  moreover have "recorded (trace s') = [al, op, ac, cl]"
    using recorded_steps [of "trace s'"] tr by simp
  moreover have "session_events (req_user_id req) (req_target_id req) [al, op, ac, cl]"
    unfolding session_events_def using c(6,7) by (intro conjI exI [of _ sid]) simp_all
  ultimately show ?thesis using pr inv(2) by blast
qed

lemma console_host_run:
  assumes "in_console (on_host m) s = (r, s')"
  shows "m (st_host (console_world s)) = (r, st_host (console_world s')) \<and> st_ssh (console_world s') = st_ssh (console_world s)"
  using assms by (auto elim!: in_console_run on_host_run)

lemma console_outside_run:
  assumes "in_console (on_outside m) s = (r, s')"
  shows "fst (in_world m (st_ssh (console_world s))) = r \<and> st_host (console_world s') = st_host (console_world s)"
  using assms by (auto simp: on_outside_def elim!: in_console_run on_ssh_run)

text \<open>
  C1. Exit code 0 is accounted for. Whatever the host, the network and the user do, the access
  command exits with 0 only if the password that was typed is that of an active user of the
  database with the given name, the policies of that user for the target exist and all allow, the
  target and its only account are enabled and the Vault holds the secret of the account, and the
  audit trail is that of before followed by exactly the four events of one session of that user on
  that target; without a fault the trail verifies.
\<close>

theorem exit_zero_accounted:
  fixes X :: "('v, 'k) outside" and s :: "(('a, ('v, 'k) site) console, application cli_obs) tstate"
  assumes "hmac_sized (o_hmac X)" "files_untouched (o_argon2 X)"
    "runtime_holds dir users d key (st_host (console_world (world s)))"
    "trail_begun (o_hmac X) (runtime_file dir ''audit.db'') key fs (st_host (console_world (world s)))"
    "pam_main raw X (AccessTarget dir username target_id secs) s = (Inr 0, s')"
  shows "\<exists>password u vault_key evs gs rows.
      fst (in_world (o_getpass X) (st_ssh (console_world (world s)))) = Inr password
    \<and> user_of users username = Inr (Some u) \<and> usr_is_active (sua_user u)
    \<and> (\<exists>g g'. verify_password (o_argon2 X) password (sua_password_hash u) g = (Inr True, g'))
    \<and> key_of (st_host (console_world (world s))) (runtime_file dir ''vault.key'') = Some vault_key
    \<and> session_granted (o_aead X) vault_key d (usr_id (sua_user u)) target_id
    \<and> session_events (usr_id (sua_user u)) target_id evs \<and> map audit_serialize evs = map Inr gs
    \<and> chain (o_hmac X) key 1 genesis_mac (fs @ gs) = Some rows
    \<and> audit_rows (runtime_file dir ''audit.db'') (st_host (console_world (world s'))) rows
    \<and> (h_faults (st_host (console_world (world s'))) = [] \<longrightarrow>
        fst (verify_integrity (o_hmac X) (get_key (runtime_file dir ''audit.key'')) (runtime_file dir ''audit.db'')
               (st_host (console_world (world s')))) = Inr ())"
proof -
  let ?P = "program_ports raw X" and ?q = "runtime_file dir ''audit.key''" and ?db = "runtime_file dir ''audit.db''"
  let ?w = "console_world (world s)" and ?w' = "console_world (world s')"
  from assms(5) have "run_access ?P dir username target_id secs s = (Inr 0, s')" by (simp add: pam_main_def)
  then obtain st app password who i t q res w1 w2 w3 w4 w5 w6 where
    r: "cp_provisioned ?P dir (world s) = (Inr True, w1)" "runtime_settings_of dir secs = Inr st"
    "cp_build ?P st w1 = (Inr app, w2)" "cp_getpass ?P w2 = (Inr password, w3)"
    "cp_authenticate ?P app username password w3 = (Inr who, w4)"
    "cp_new_id ?P w4 = (Inr i, w5)" "cp_now ?P w5 = (Inr t, w6)"
    "mk_access_request i (pr_user_id who) target_id OPEN_PRIVILEGED_SESSION t = Inr q"
    "cp_access ?P app who q w6 = (Inr res, world s')" "closed_session res"
    by (rule run_access_zero)
  note P = program_ports_def cli_ports.simps
  note path = runtime_settings_paths [OF r(2)]
  have h1: "h_files (st_host (console_world w1)) = h_files (st_host ?w)" "st_ssh (console_world w1) = st_ssh ?w"
    using console_host_run [OF r(1) [unfolded P]] provisioned_same_files by blast+
  have b: "build_application (o_argon2 X) st (st_host (console_world w1)) = (Inr app, st_host (console_world w2))"
    "st_ssh (console_world w2) = st_ssh ?w"
    using console_host_run [OF r(3) [unfolded P]] h1(2) by simp_all
  note built = build_application_success [OF b(1) assms(2) [unfolded files_untouched_def, THEN conjunct1]]
  have "?q \<notin> fst ` set (store_schemas st)" by (simp add: store_schemas_def path runtime_file_def lit_eq_iff)
  with built have "state_kept ?q (st_host (console_world w1)) (st_host (console_world w2))"
    by (simp add: state_kept_def key_of_def)
  with state_kept_files [OF h1(1)] have k2: "state_kept ?q (st_host ?w) (st_host (console_world w2))"
    by (rule state_kept_trans)
  note g = console_outside_run [OF r(4) [unfolded P]]
  note a = console_host_run [OF r(5) [unfolded P], THEN conjunct1]
  have "trail_begun (o_hmac X) ?db key fs (st_host (console_world w1))"
    using assms(4) h1(1) by (simp add: trail_begun_def trail_stored_def table_rows_def table_at_def db_at_def)
  then have begun: "trail_stored (o_hmac X) ?db key fs (st_host (console_world w2))"
    using trail_after_start [OF b(1) assms(2) [unfolded files_untouched_def, THEN conjunct1]]
    by (simp add: path runtime_file_def)
  from runtime_holds_kept [OF assms(3) k2] g have "runtime_holds dir users d key (st_host (console_world w3))"
    by simp
  then have "user_rows (rs_auth_db (app_settings app)) (st_host (console_world w3)) users"
    using built by (simp add: runtime_holds_def path)
  from authenticate_on_success [OF a assms(2) this, of ?q] obtain u where
    u: "state_kept ?q (st_host (console_world w3)) (st_host (console_world w4))" "user_of users username = Inr (Some u)"
      "usr_is_active (sua_user u)" "\<exists>g g'. verify_password (o_argon2 X) password (sua_password_hash u) g = (Inr True, g')"
      "pr_user_id who = usr_id (sua_user u)" by fastforce
  have "h_files (st_host (console_world w5)) = h_files (st_host (console_world w4))"
    using console_host_run [OF r(6) [unfolded P], THEN conjunct1, THEN new_uuid_run] by auto
  with state_kept_files have k5: "state_kept ?q (st_host (console_world w4)) (st_host (console_world w5))" by blast
  note k6 = state_kept_trans [OF u(1) [unfolded g [THEN conjunct2]] k5]
  have "st_host (console_world w6) = st_host (console_world w5)"
    using console_outside_run [OF r(7) [unfolded P]] by simp
  then have holds: "runtime_holds dir users d key (st_host (console_world w6))"
    "trail_stored (o_hmac X) ?db key fs (st_host (console_world w6))"
    using runtime_holds_kept [OF assms(3) state_kept_trans [OF k2 k6]] trail_stored_kept [OF begun k6] by simp_all
  obtain s2 where s2: "handle (application_ports X app) (app_max_session app) (Some who) q (initial_state (console_world w6))
      = (Inr res, s2)" "?w' = world s2"
    using r(9) [unfolded P] by (rule interactive_success)
  have q: "req_action q = OPEN_PRIVILEGED_SESSION" "req_target_id q = target_id" "req_user_id q = usr_id (sua_user u)"
    using r(8) u(5) by (auto simp: mk_access_request_def)
  have paths: "app_settings app = st" "rs_audit_db st \<noteq> rs_audit_key st" "separate_audit st"
    using built by (simp_all add: separate_audit_def path runtime_file_def lit_eq_iff)
  have "trail_kept X app key fs (console_world w6) ([] :: unit obs list)"
    using holds assms(1) paths by (auto simp: runtime_holds_def trail_stored_def trail_kept_def Let_def trail_of_def path)
  then have "answered X app key fs d False (console_world w6) ([] :: unit obs list)"
    using holds paths by (auto simp: answered_def Let_def serves_def runtime_holds_def path)
  note run = closed_session_recorded [OF s2(1) r(10) this q(1)]
  from run have t: "trail_of (o_hmac X) ?db ?q key fs ?w' (trace s2)"
    by (simp add: trail_kept_def Let_def paths(1) path s2(2))
  then obtain gs rows where "map audit_serialize (recorded (trace s2)) = map Inr gs"
    "chain (o_hmac X) key 1 genesis_mac (fs @ gs) = Some rows" "audit_rows ?db (st_host ?w') rows"
    unfolding trail_of_def by blast
  moreover have "key_of (st_host ?w) (rs_vault_key st) = Some (app_vault_key app)"
    using built h1(1) by (simp add: key_of_def)
  moreover have "fst (in_world (o_getpass X) (st_ssh ?w)) = Inr password" using g b(2) by simp
  moreover note trail_verifies [OF assms(1) t] run [unfolded q] u(2-4)
  ultimately show ?thesis unfolding path by blast
qed

end
