(* ===== verification/Service_Works.thy ===== *)
theory Service_Works
  imports Wiring Service_Trace
begin

text \<open>
  The access service when nothing goes wrong: if every port answers, and answers that the access
  is granted, then \<open>handle\<close> runs to its end and returns a closed session. The ports move through
  four stages: no session yet, opened, relayed, closed.
\<close>

section \<open>Code that succeeds\<close>

definition works :: "('s \<Rightarrow> bool) \<Rightarrow> ('s, 'a) io \<Rightarrow> ('a \<Rightarrow> 's \<Rightarrow> bool) \<Rightarrow> bool" where
  "works I m Q \<longleftrightarrow> (\<forall>s. I s \<longrightarrow> (\<exists>x s'. m s = (Inr x, s') \<and> Q x s'))"

lemma worksD: "works I m Q \<Longrightarrow> I s \<Longrightarrow> \<exists>x s'. m s = (Inr x, s') \<and> Q x s'"
  unfolding works_def by blast

lemma works_ret: "(\<And>s. I s \<Longrightarrow> Q x s) \<Longrightarrow> works I (ret x) Q"
  by (simp add: works_def)

lemma works_bind: "works I m Q \<Longrightarrow> (\<And>x. works (Q x) (f x) R) \<Longrightarrow> works I (bind m f) R"
  unfolding works_def bind_apply by (fastforce split: prod.splits sum.splits)

lemma works_seq: "works I m (\<lambda>_. J) \<Longrightarrow> works J k R \<Longrightarrow> works I (seq m k) R"
  unfolding seq_def by (rule works_bind)

lemma works_lift_bind: "r = Inr x \<Longrightarrow> works I (f x) Q \<Longrightarrow> works I (bind (lift r) f) Q"
  by simp

lemma works_try: "works I m Q \<Longrightarrow> works I (try_except m p h) Q"
  unfolding works_def try_except_def by (fastforce split: prod.splits sum.splits)

lemma works_finally: "works I m Q \<Longrightarrow> (\<And>x. works (Q x) k (\<lambda>y. R (x, y))) \<Longrightarrow> works I (finally_with m k) R"
  unfolding works_def finally_with_def by (fastforce split: prod.splits sum.splits)

lemma works_if: "\<not> b \<Longrightarrow> works I k Q \<Longrightarrow> works I (if b then m else k) Q"
  by simp

lemma bind_assoc: "bind (bind m f) g = bind m (\<lambda>x. bind (f x) g)"
  by (auto simp: bind_def fun_eq_iff split: prod.splits sum.splits)

section \<open>Ports that answer\<close>

text \<open>Texts and timestamps that the audit trail can store\<close>

definition stamp :: "datetime \<Rightarrow> bool" where
  "stamp d \<longleftrightarrow> (\<exists>u. d = utc u \<and> 0 \<le> u \<and> u < max_us)"

definition storable_event :: "audit_event \<Rightarrow> bool" where
  "storable_event ev \<longleftrightarrow> (\<exists>f. audit_serialize ev = Inr f) \<and> event_encodable ev"

text \<open>
  The policies \<open>ps\<close>, the target \<open>t\<close> and its account \<open>a\<close> grant the user the access, and \<open>req\<close>
  asks for it.
\<close>

definition grants :: "pystr \<Rightarrow> pystr \<Rightarrow> access_policy list \<Rightarrow> target \<Rightarrow> privileged_account \<Rightarrow> bool" where
  "grants user_id target_id ps t a \<longleftrightarrow> \<not> blank user_id \<and> list_all encodable user_id
     \<and> \<not> blank target_id \<and> list_all encodable target_id \<and> \<not> blank (tgt_id t) \<and> \<not> blank (acc_id a)
     \<and> ps \<noteq> [] \<and> list_all (\<lambda>p. pol_effect p = ALLOW \<and> list_all encodable (pol_id p)) ps
     \<and> tgt_enabled t \<and> acc_enabled a \<and> acc_target_id a = tgt_id t"

definition grantable ::
  "pystr \<Rightarrow> pystr \<Rightarrow> access_policy list \<Rightarrow> target \<Rightarrow> privileged_account \<Rightarrow> access_request \<Rightarrow> bool" where
  "grantable user_id target_id ps t a req \<longleftrightarrow> grants user_id target_id ps t a \<and> req_user_id req = user_id
     \<and> req_target_id req = target_id \<and> req_action req = OPEN_PRIVILEGED_SESSION \<and> \<not> blank (req_id req)"

text \<open>
  \<open>K n pend ids w\<close>: the world \<open>w\<close> is in stage \<open>n\<close>, the identifiers \<open>pend\<close> have been drawn, and
  \<open>ids\<close> are the next ones. The parameters are the access that is granted.
\<close>

locale answering_ports =
  fixes P :: "('w, 'h) ports"
    and K :: "nat \<Rightarrow> pystr set \<Rightarrow> pystr list \<Rightarrow> 'w \<Rightarrow> bool"
    and user_id :: pystr and target_id :: pystr and ps :: "access_policy list"
    and t :: target and a :: privileged_account and c :: broker_credential and maxd :: int
  assumes find_matching: "K n B is w \<Longrightarrow> \<exists>w'. p_find_matching P user_id target_id OPEN_PRIVILEGED_SESSION w = (Inr ps, w') \<and> K n B is w'"
    and get_target: "K n B is w \<Longrightarrow> \<exists>w'. p_get_target P target_id w = (Inr (Some t), w') \<and> K n B is w'"
    and find_for_target: "K n B is w \<Longrightarrow> \<exists>w'. p_find_for_target P (tgt_id t) w = (Inr (Some a), w') \<and> K n B is w'"
    and resolve: "K n B is w \<Longrightarrow> \<exists>w'. p_resolve P (acc_credential_ref a) w = (Inr (Some c), w') \<and> K n B is w'"
    and open_session: "K 0 B is w \<Longrightarrow> \<exists>h w'. p_open_session P t a c w = (Inr h, w') \<and> K 1 B is w'"
    and relay: "K 1 B is w \<Longrightarrow> \<exists>out w'. p_relay P h maxd w = (Inr (Outcome out), w') \<and> K 2 B is w'"
    and close: "K 2 B is w \<Longrightarrow> \<exists>w'. p_close P h w = (Inr (), w') \<and> K 3 B is w'"
    and append: "K n (insert (ev_id ev) B) is w \<Longrightarrow> ev_id ev \<notin> B \<Longrightarrow> storable_event ev \<Longrightarrow>
      \<exists>w'. p_append P ev w = (Inr (), w') \<and> K n B is w'"
    and now: "K n B is w \<Longrightarrow> \<exists>d w'. p_now P w = (Inr d, w') \<and> stamp d \<and> K n B is w'"
    and new_id: "K n B (i # is) w \<Longrightarrow> \<exists>w'. p_new_id P w = (Inr i, w') \<and> K n (insert i B) is w' \<and> i \<notin> B \<and> id_like i"
begin

abbreviation wanted :: "access_request \<Rightarrow> bool" where
  "wanted \<equiv> grantable user_id target_id ps t a"

definition stands :: "nat \<Rightarrow> pystr set \<Rightarrow> pystr list \<Rightarrow> session option \<Rightarrow> ('w, 'h) svc \<Rightarrow> bool" where
  "stands n B is x s \<longleftrightarrow> K n B is (world s) \<and> cell s = x"

lemma works_perform:
  assumes "\<And>w. K n B is w \<Longrightarrow> \<exists>y w'. f w = (Inr y, w') \<and> K m C is' w' \<and> q y"
  shows "works (stands n B is x) (perform f ob) (\<lambda>y s. stands m C is' x s \<and> q y)"
  using assms unfolding works_def stands_def perform_def by (fastforce split: prod.splits)

lemma works_pure: "(q \<Longrightarrow> works I m Q) \<Longrightarrow> works (\<lambda>s. I s \<and> q) m Q"
  by (auto simp: works_def)

lemma works_new_id:
  "works (stands n B (i # is) x) (call_new_id P) (\<lambda>y s. stands n (insert i B) is x s \<and> y = i \<and> i \<notin> B \<and> id_like i)"
  unfolding call_new_id_def by (rule works_perform) (use new_id in fastforce)

lemma works_now: "works (stands n B is x) (call_now P) (\<lambda>d s. stands n B is x s \<and> stamp d)"
  unfolding call_now_def by (rule works_perform) (use now in fastforce)

lemma stamp_storable:
  assumes "stamp d" "id_like i" "id_like sid" "wanted req" "\<forall>x. reason = Some x \<longrightarrow> list_all encodable x"
  shows "storable_event \<lparr>ev_id = i, ev_timestamp = d, ev_type = ty, ev_actor_user_id = req_user_id req,
      ev_target_id = req_target_id req, ev_session_id = Some sid, ev_result = lit result, ev_reason_code = reason\<rparr>"
  using assms
  by (auto simp: storable_event_def stamp_def id_like_def grantable_def grants_def event_encodable_def encodable_lit
      audit_serialize_def astimezone_utc_def thenR_def raise_if_def)

lemma works_append_event:
  assumes "id_like sid" "wanted req" "\<forall>x. reason = Some x \<longrightarrow> list_all encodable x" "\<forall>d. ts = Some d \<longrightarrow> stamp d"
  shows "works (stands n B (i # is) x) (append_event P req ty (Some sid) result reason None ts) (\<lambda>_. stands n B is x)"
  unfolding append_event_def
proof (rule works_bind [OF works_new_id])
  fix y
  have "works (\<lambda>s. stands n (insert i B) is x s \<and> y = i \<and> i \<notin> B \<and> id_like i)
    (case ts of None \<Rightarrow> call_now P | Some t \<Rightarrow> ret t) (\<lambda>d s. stands n (insert i B) is x s \<and> stamp d \<and> y = i \<and> i \<notin> B \<and> id_like i)"
    using assms(4) by (cases ts) (auto intro!: works_pure works_ret simp: works_def dest: worksD [OF works_now])
  then show "works (\<lambda>s. stands n (insert i B) is x s \<and> y = i \<and> i \<notin> B \<and> id_like i)
    (bind (case ts of None \<Rightarrow> call_now P | Some t \<Rightarrow> ret t) (\<lambda>t. bind (lift (mk_audit_event y t ty
       (case None of None \<Rightarrow> req_user_id req | Some u \<Rightarrow> u) (req_target_id req) (Some sid) (lit result) reason))
       (\<lambda>ev. perform (p_append P ev) (Append ev)))) (\<lambda>_. stands n B is x)"
  proof (rule works_bind, goal_cases)
    case (1 d)
    show ?case
    proof (rule works_pure, elim conjE)
      assume f: "stamp d" "y = i" "i \<notin> B" "id_like i"
      let ?ev = "\<lparr>ev_id = i, ev_timestamp = d, ev_type = ty, ev_actor_user_id = req_user_id req,
        ev_target_id = req_target_id req, ev_session_id = Some sid, ev_result = lit result, ev_reason_code = reason\<rparr>"
      have "mk_audit_event i d ty (req_user_id req) (req_target_id req) (Some sid) (lit result) reason = Inr ?ev"
        using f(1) by (auto simp: mk_audit_event_def stamp_def)
      moreover have "works (stands n (insert i B) is x) (perform (p_append P ?ev) (Append ?ev)) (\<lambda>_ s. stands n B is x s \<and> True)"
        by (rule works_perform) (use append [of n ?ev B "is"] f(3) stamp_storable [OF f(1,4) assms(1-3)] in simp)
      ultimately show "works (stands n (insert i B) is x) (bind (lift (mk_audit_event y d ty
          (case None of None \<Rightarrow> req_user_id req | Some u \<Rightarrow> u) (req_target_id req) (Some sid) (lit result) reason))
          (\<lambda>ev. perform (p_append P ev) (Append ev))) (\<lambda>_. stands n B is x)"
        using f(2) by simp
    qed
  qed
qed

lemma works_on_session:
  "f x = Inr y \<Longrightarrow> works (stands n B is (Some x)) (on_session f) (\<lambda>_. stands n B is (Some y))"
  by (simp add: works_def on_session_def stands_def)

lemma works_terminal_timestamp:
  assumes "stamp (ses_started_at x)"
  shows "works (stands n B is (Some x)) (terminal_timestamp P)
    (\<lambda>d s. stands n B is (Some x) s \<and> stamp d \<and> utc_us (ses_started_at x) \<le> utc_us d)"
  unfolding terminal_timestamp_def
proof (rule works_bind [OF works_now], rule works_pure)
  fix d
  assume "stamp d"
  then have "\<exists>e. dt_max d (ses_started_at x) = Inr e \<and> stamp e \<and> utc_us (ses_started_at x) \<le> utc_us e"
    using assms by (auto simp: stamp_def)
  then show "works (stands n B is (Some x)) (bind started_at (\<lambda>started. lift (dt_max d started)))
    (\<lambda>d s. stands n B is (Some x) s \<and> stamp d \<and> utc_us (ses_started_at x) \<le> utc_us d)"
    by (auto simp: works_def bind_apply started_at_def stands_def)
qed

section \<open>The session\<close>

text \<open>A session that is on its way\<close>

definition running :: "session_status \<Rightarrow> session \<Rightarrow> bool" where
  "running st x \<longleftrightarrow> ses_status x = st \<and> stamp (ses_started_at x) \<and> id_like (ses_id x)"

lemma works_conclude:
  assumes "running ACTIVE x" "wanted req" "dec_effect decision = ALLOW"
  shows "works (stands 3 B [i] (Some x)) (conclude P req decision (ses_id x) (Some out) True)
    (\<lambda>res s. closed_session res \<and> K 3 B [] (world s))"
proof -
  let ?r = "if out = MAX_DURATION_EXCEEDED then ''max_duration_exceeded'' else ''relay_completed''"
  have st: "stamp (ses_started_at x)" "id_like (ses_id x)" using assms(1) by (simp_all add: running_def)
  have fin: "works (stands 3 B [] (Some (x\<lparr>ses_status := CLOSED, ses_ended_at := Some d, ses_close_reason := Some (lit ?r)\<rparr>)))
      (finish decision) (\<lambda>res s. closed_session res \<and> K 3 B [] (world s))" for d
    using assms(3) by (simp add: works_def finish_def stands_def closed_session_def)
  have close: "mark_closed x d (lit ?r) = Inr (x\<lparr>ses_status := CLOSED, ses_ended_at := Some d, ses_close_reason := Some (lit ?r)\<rparr>)"
    if "stamp d" "utc_us (ses_started_at x) \<le> utc_us d" for d
    using that assms(1) by (auto simp: mark_closed_def validate_terminal_values_def require_aware_def running_def
        require_not_before_start_def require_reason_def stamp_def blank_iff py_isspace_def lit_def)
  show ?thesis
    unfolding conclude_def Let_def option.case if_not_P [of "\<not> True", simplified]
  proof (simp only: not_True_eq_False if_False, rule works_seq, rule works_bind [OF works_terminal_timestamp [OF st(1)]],
      rule works_pure, elim conjE)
    fix d
    assume d: "stamp d" "utc_us (ses_started_at x) \<le> utc_us d"
    show "works (stands 3 B [i] (Some x)) (seq (on_session (\<lambda>x. mark_closed x d (lit ?r)))
        (append_event P req SESSION_CLOSED (Some (ses_id x)) ''closed'' (Some (lit ?r)) None (Some d)))
      (\<lambda>_ s. \<exists>d. stands 3 B [] (Some (x\<lparr>ses_status := CLOSED, ses_ended_at := Some d, ses_close_reason := Some (lit ?r)\<rparr>)) s)"
      by (rule works_seq [OF works_on_session [where f = "\<lambda>x. mark_closed x d (lit ?r)", OF close [OF d]]])
        (use works_append_event [OF st(2) assms(2), of "Some (lit ?r)" "Some d"] d(1) in
          \<open>fastforce simp: works_def encodable_lit\<close>)
  next
    show "works (\<lambda>s. \<exists>d. stands 3 B [] (Some (x\<lparr>ses_status := CLOSED, ses_ended_at := Some d, ses_close_reason := Some (lit ?r)\<rparr>)) s)
      (finish decision) (\<lambda>res s. closed_session res \<and> K 3 B [] (world s))"
      using fin by (auto simp: works_def)
  qed
qed

lemma works_broker_phase:
  assumes "running OPENING x" "wanted req" "dec_effect decision = ALLOW"
  shows "works (stands 1 B [i, j] (Some x)) (broker_phase P maxd req decision (ses_id x) h)
    (\<lambda>res s. closed_session res \<and> K 3 B [] (world s))"
  unfolding broker_phase_def
proof (rule works_bind)
  let ?y = "x\<lparr>ses_status := ACTIVE\<rparr>"
  have active: "mark_active x = Inr ?y" using assms(1) by (simp add: mark_active_def running_def)
  have id: "id_like (ses_id x)" using assms(1) by (simp add: running_def)
  have relayed: "works (stands 1 B [j] (Some ?y)) (try_except
       (bind (perform (p_relay P h maxd) (Relay h maxd)) (\<lambda>v.
          case v of Outcome out \<Rightarrow> ret (Some out)
          | NotAnOutcome \<Rightarrow> raise (err ValueError ''unsupported relay outcome'')))
       is_exception (\<lambda>_. ret None)) (\<lambda>v s. stands 2 B [j] (Some ?y) s \<and> v \<noteq> None)"
  proof (rule works_try, rule works_bind)
    show "works (stands 1 B [j] (Some ?y)) (perform (p_relay P h maxd) (Relay h maxd))
      (\<lambda>v s. stands 2 B [j] (Some ?y) s \<and> (\<exists>out. v = Outcome out))"
      by (rule works_perform) (use relay in fastforce)
  next
    fix v
    show "works (\<lambda>s. stands 2 B [j] (Some ?y) s \<and> (\<exists>out. v = Outcome out)) (case v of Outcome out \<Rightarrow> ret (Some out)
          | NotAnOutcome \<Rightarrow> raise (err ValueError ''unsupported relay outcome''))
      (\<lambda>v s. stands 2 B [j] (Some ?y) s \<and> v \<noteq> None)"
      by (auto simp: works_def)
  qed
  show "works (stands 1 B [i, j] (Some x)) (finally_with (relay_session P req (ses_id x) maxd h) (close_broker P h))
    (\<lambda>v s. stands 3 B [j] (Some ?y) s \<and> (\<exists>out. v = (Some out, True)))"
  proof (rule works_finally)
    show "works (stands 1 B [i, j] (Some x)) (relay_session P req (ses_id x) maxd h)
      (\<lambda>v s. stands 2 B [j] (Some ?y) s \<and> v \<noteq> None)"
      unfolding relay_session_def
      by (rule works_seq [OF works_on_session [where f = mark_active, OF active]],
          rule works_seq [OF works_try [OF works_append_event [OF id assms(2)]] relayed]) simp_all
    fix v
    show "works (\<lambda>s. stands 2 B [j] (Some ?y) s \<and> v \<noteq> None) (close_broker P h)
      (\<lambda>b s. stands 3 B [j] (Some ?y) s \<and> (\<exists>out. (v, b) = (Some out, True)))"
      unfolding close_broker_def
    proof (rule works_pure, rule works_try, rule works_seq)
      show "works (stands 2 B [j] (Some ?y)) (perform (p_close P h) (Close h)) (\<lambda>_ s. stands 3 B [j] (Some ?y) s \<and> True)"
        by (rule works_perform) (use close in fastforce)
    qed (auto simp: works_def)
  qed
  fix v
  show "works (\<lambda>s. stands 3 B [j] (Some ?y) s \<and> (\<exists>out. v = (Some out, True)))
      (case v of (outcome, close_succeeded) \<Rightarrow> conclude P req decision (ses_id x) outcome close_succeeded)
      (\<lambda>res s. closed_session res \<and> K 3 B [] (world s))"
    using works_conclude [of ?y, OF _ assms(2,3)] assms(1) by (auto intro!: works_pure simp: running_def)
qed

lemma works_run_session:
  assumes "running OPENING x" "wanted req" "dec_effect decision = ALLOW" "list_all encodable (dec_reason decision)"
  shows "works (stands 0 B [i, j, k, l] (Some x)) (run_session P maxd req decision t a c (ses_id x))
    (\<lambda>res s. closed_session res \<and> K 3 B [] (world s))"
  unfolding run_session_def
proof (rule works_seq)
  have id: "id_like (ses_id x)" using assms(1) by (simp add: running_def)
  show "works (stands 0 B [i, j, k, l] (Some x)) (try_except
           (seq (append_event P req ACCESS_ALLOWED (Some (ses_id x)) ''allowed'' (Some (dec_reason decision)) None None)
                (append_event P req SESSION_OPENING (Some (ses_id x)) ''opening'' None None None))
           is_exception (abandon P)) (\<lambda>_. stands 0 B [k, l] (Some x))"
    by (rule works_try, rule works_seq [OF works_append_event [OF id assms(2)] works_append_event [OF id assms(2)]])
      (use assms(4) in simp_all)
  show "works (stands 0 B [k, l] (Some x)) (bind (try_except
              (bind (perform (p_open_session P t a c) (OpenSession t a c)) (\<lambda>h. ret (Some h)))
              is_exception (\<lambda>_. seq (fail_session P req (ses_id x) ''broker_open_failed'') (ret None)))
       (\<lambda>opened. case opened of None \<Rightarrow> finish decision
         | Some h \<Rightarrow> broker_phase P maxd req decision (ses_id x) h))
    (\<lambda>res s. closed_session res \<and> K 3 B [] (world s))"
  proof (rule works_bind, rule works_try, rule works_bind)
    show "works (stands 0 B [k, l] (Some x)) (perform (p_open_session P t a c) (OpenSession t a c))
      (\<lambda>h s. stands 1 B [k, l] (Some x) s \<and> True)"
      by (rule works_perform) (use open_session in fastforce)
    show "works (\<lambda>s. stands 1 B [k, l] (Some x) s \<and> True) (ret (Some h))
      (\<lambda>v s. stands 1 B [k, l] (Some x) s \<and> v \<noteq> None)" for h
      by (simp add: works_def)
    show "works (\<lambda>s. stands 1 B [k, l] (Some x) s \<and> v \<noteq> None)
      (case v of None \<Rightarrow> finish decision | Some h \<Rightarrow> broker_phase P maxd req decision (ses_id x) h)
      (\<lambda>res s. closed_session res \<and> K 3 B [] (world s))" for v
      using works_broker_phase [OF assms(1-3)] by (cases v) (auto simp: works_def)
  qed
qed

lemma decide_granted:
  assumes "wanted req"
  shows "dec_effect (decide ps) = ALLOW \<and> list_all encodable (dec_reason (decide ps))"
proof -
  have granted: "ps \<noteq> []" "list_all (\<lambda>p. pol_effect p = ALLOW \<and> list_all encodable (pol_id p)) ps"
    using assms by (simp_all add: grantable_def grants_def)
  have "dec_effect (decide ps) = ALLOW"
    using granted(1,2) by (simp add: decide_allow_iff list_all_iff)
  moreover have "find (\<lambda>p. pol_effect p = DENY) ps = None" "\<not> list_ex (\<lambda>p. pol_effect p = REQUIRES_APPROVAL) ps"
    using granted(2) by (auto simp: find_None_iff list_all_iff list_ex_iff)
  ultimately show ?thesis
    using granted(2) encodable_lit by (auto simp: decide_def list_all_iff find_Some_iff split: option.splits)
qed

lemma works_open_allowed:
  assumes "wanted req"
  shows "works (stands 0 {} [sid, i, j, k, l] None) (open_allowed P maxd req (decide ps) t a c)
    (\<lambda>res s. closed_session res \<and> K 3 {sid} [] (world s))"
  unfolding open_allowed_def
proof (rule works_bind [OF works_new_id], rule works_pure, elim conjE, rule works_bind [OF works_now], rule works_pure)
  fix y d
  assume f: "y = sid" "id_like sid" "stamp d"
  let ?x = "\<lparr>ses_id = y, ses_request_id = req_id req, ses_user_id = req_user_id req, ses_target_id = tgt_id t,
    ses_account_id = acc_id a, ses_status = OPENING, ses_started_at = d, ses_ended_at = None, ses_close_reason = None\<rparr>"
  have "mk_session ?x = Inr ?x"
    using f assms by (auto simp: mk_session_iff session_ok_def grantable_def grants_def id_like_def stamp_def terminal_def)
  moreover have "running OPENING ?x" using f by (simp add: running_def)
  note run = works_run_session [OF this assms, of "decide ps" "{sid}" i j k l] decide_granted [OF assms]
  have "works (stands 0 {sid} [i, j, k, l] None) (\<lambda>s. (Inr (), s\<lparr>cell := Some ?x\<rparr>))
      (\<lambda>_. stands 0 {sid} [i, j, k, l] (Some ?x))"
    by (simp add: works_def stands_def)
  from works_seq [OF this] run have "works (stands 0 {sid} [i, j, k, l] None)
      (seq (\<lambda>s. (Inr (), s\<lparr>cell := Some ?x\<rparr>)) (run_session P maxd req (decide ps) t a c y))
      (\<lambda>res s. closed_session res \<and> K 3 {sid} [] (world s))" by simp
  ultimately show "works (stands 0 {sid} [i, j, k, l] None)
      (bind (lift (mk_session ?x)) (\<lambda>session. seq (\<lambda>s. (Inr (), s\<lparr>cell := Some session\<rparr>))
         (run_session P maxd req (decide ps) t a c y)))
      (\<lambda>res s. closed_session res \<and> K 3 {sid} [] (world s))" by simp
qed

lemma works_lookup:
  assumes "\<And>w. K 0 {} is w \<Longrightarrow> \<exists>w'. f w = (Inr v, w') \<and> K 0 {} is w'"
    "works (stands 0 {} is None) (g v) Q"
  shows "works (stands 0 {} is None) (bind (perform f ob) g) Q"
proof (rule works_bind)
  show "works (stands 0 {} is None) (perform f ob) (\<lambda>y s. stands 0 {} is None s \<and> y = v)"
    by (rule works_perform) (use assms(1) in fastforce)
  show "works (\<lambda>s. stands 0 {} is None s \<and> y = v) (g y) Q" for y
    using assms(2) by (auto intro: works_pure)
qed

lemma works_handle_target:
  assumes "wanted req"
  shows "works (stands 0 {} [sid, i, j, k, l] None) (handle_target P maxd req (decide ps) (Some t))
    (\<lambda>res s. closed_session res \<and> K 3 {sid} [] (world s))"
proof -
  have "works (stands 0 {} [sid, i, j, k, l] None) (handle_account P maxd req (decide ps) t (Some a))
    (\<lambda>res s. closed_session res \<and> K 3 {sid} [] (world s))"
    using assms works_open_allowed [OF assms]
    by (simp add: handle_account_def grantable_def grants_def) (rule works_lookup [OF resolve], simp_all)
  then show ?thesis
    using assms by (simp add: handle_target_def grantable_def grants_def) (rule works_lookup [OF find_for_target], simp_all)
qed

lemma handle_works:
  assumes "K 0 {} [sid, i, j, k, l] w" "wanted req" "pr_user_id who = user_id"
  shows "\<exists>res s'. handle P maxd (Some who) req (initial_state w) = (Inr res, s') \<and> closed_session res
    \<and> K 3 {sid} [] (world s')"
proof -
  have req: "req_user_id req = user_id" "req_target_id req = target_id" "req_action req = OPEN_PRIVILEGED_SESSION"
    using assms(2) by (simp_all add: grantable_def)
  have "works (stands 0 {} [sid, i, j, k, l] None)
      (bind (perform (p_get_target P target_id) (GetTarget target_id)) (handle_target P maxd req (decide ps)))
      (\<lambda>res s. closed_session res \<and> K 3 {sid} [] (world s))"
    by (rule works_lookup [OF get_target], assumption) (rule works_handle_target [OF assms(2)])
  then have "works (stands 0 {} [sid, i, j, k, l] None) (bind (perform (p_find_matching P user_id target_id OPEN_PRIVILEGED_SESSION)
        (FindMatching user_id target_id OPEN_PRIVILEGED_SESSION)) (\<lambda>policies.
        if dec_effect (decide policies) \<noteq> ALLOW then deny P req (decide policies) None
        else bind (perform (p_get_target P target_id) (GetTarget target_id)) (handle_target P maxd req (decide policies))))
      (\<lambda>res s. closed_session res \<and> K 3 {sid} [] (world s))"
    by - (rule works_lookup [OF find_matching], assumption, simp add: decide_granted [OF assms(2)])
  then have "works (stands 0 {} [sid, i, j, k, l] None) (handle P maxd (Some who) req)
    (\<lambda>res s. closed_session res \<and> K 3 {sid} [] (world s))"
    using assms(3) unfolding handle_def evaluate_def req by (simp add: bind_assoc)
  from worksD [OF this] assms(1) show ?thesis by (simp add: stands_def initial_state_def)
qed

end

end
