(* ===== verification/Granted_Access.thy ===== *)
theory Granted_Access
  imports Service_Stores Service_Works
begin

text \<open>
  The wired service on stores that grant an access, on a host without faults, towards a server
  that accepts: the session is opened, relayed and closed.
\<close>

section \<open>Identifiers to come\<close>

text \<open>The next \<open>n\<close> identifiers that the entropy \<open>es\<close> gives\<close>

primrec uuid_draws :: "nat \<Rightarrow> bytes \<Rightarrow> pystr list" where
  "uuid_draws 0 es = []"
| "uuid_draws (Suc n) es = uuid_text (uuid_version4 (take 16 es)) # uuid_draws n (drop 16 es)"

lemma length_draws [simp]: "length (uuid_draws n es) = n"
  by (induction n arbitrary: es) simp_all

section \<open>The other side\<close>

text \<open>
  What the network, the server and the clock do, in stages: before the session, opened, relayed,
  closed; the clock gives a time that can be written at every stage.
\<close>

definition remote_accepts ::
  "('v, 'k) outside \<Rightarrow> target \<Rightarrow> privileged_account \<Rightarrow> broker_credential \<Rightarrow> int \<Rightarrow>
   (nat \<Rightarrow> ('v, 'k) brokered \<Rightarrow> bool) \<Rightarrow> bool" where
  "remote_accepts X t a c maxd R \<longleftrightarrow>
     (\<forall>b. R 0 b \<longrightarrow> (\<exists>b'. open_session (o_ssh X) (o_sha256 X) connect_timeout t a c b = (Inr (), b') \<and> R 1 b'))
     \<and> (\<forall>b. R 1 b \<longrightarrow> (\<exists>out b'. broker_relay X maxd b = (Inr (Outcome out), b') \<and> R 2 b'))
     \<and> (\<forall>b. R 2 b \<longrightarrow> (\<exists>b'. session_close (o_ssh X) b = (Inr (), b') \<and> R 3 b'))
     \<and> (\<forall>n b. R n b \<longrightarrow> (\<exists>u b'. in_world (o_wall X) b = (Inr u, b') \<and> 0 \<le> u \<and> u < max_us \<and> R n b'))"

section \<open>The world of a granted access\<close>

text \<open>
  The trail is a chain, and neither the identifiers \<open>B\<close> that were drawn nor those to come are on it.
\<close>

definition trail_open :: "hmac \<Rightarrow> path \<Rightarrow> path \<Rightarrow> pystr set \<Rightarrow> pystr list \<Rightarrow> dbhost \<Rightarrow> bool" where
  "trail_open hmac p q B is h \<longleftrightarrow> finite B \<and> distinct is \<and> set is \<inter> B = {}
     \<and> is = uuid_draws (length is) (h_entropy h) \<and> 16 * length is \<le> length (h_entropy h)
     \<and> (\<exists>key fs rows. audit_rows p h rows \<and> chain hmac key 1 genesis_mac fs = Some rows
          \<and> key_of h q = Some key \<and> af_id ` set fs \<inter> (B \<union> set is) = {}
          \<and> length fs + card B + length is < 2 ^ 62)"

definition granting ::
  "('v, 'k) outside \<Rightarrow> application \<Rightarrow> service_rows \<Rightarrow> pystr \<Rightarrow> pystr \<Rightarrow> access_policy list \<Rightarrow> target \<Rightarrow>
   privileged_account \<Rightarrow> broker_credential \<Rightarrow> int \<Rightarrow> (nat \<Rightarrow> ('v, 'k) brokered \<Rightarrow> bool) \<Rightarrow>
   nat \<Rightarrow> pystr set \<Rightarrow> pystr list \<Rightarrow> ('v, 'k) site \<Rightarrow> bool" where
  "granting X app d user_id target_id ps t a c maxd R n B is w \<longleftrightarrow> (let s = app_settings app in
     hmac_sized (o_hmac X) \<and> separate_audit s \<and> serves s d (st_host w) \<and> h_faults (st_host w) = []
     \<and> policies_of (sr_policies d) (user_id, target_id, OPEN_PRIVILEGED_SESSION) = Inr ps
     \<and> target_of (sr_targets d) target_id = Inr (Some t) \<and> account_of (sr_accounts d) (tgt_id t) = Inr (Some a)
     \<and> credential_of (o_aead X) (app_vault_key app) (sr_vault d) (acc_credential_ref a) = Inr (Some c)
     \<and> remote_accepts X t a c maxd R \<and> R n (st_ssh w)
     \<and> trail_open (o_hmac X) (rs_audit_db s) (rs_audit_key s) B is (st_host w))"

lemma trail_open_looked: "trail_open hmac p q B is h \<Longrightarrow> looked h h' \<Longrightarrow> trail_open hmac p q B is h'"
  unfolding trail_open_def using looked_rows [of h h'] looked_key [of h h'] by (auto simp: looked_def)

lemma granting_looked:
  assumes "granting X app d user_id target_id ps t a c maxd R n B is w" "looked (st_host w) h"
  shows "granting X app d user_id target_id ps t a c maxd R n B is (w\<lparr>st_host := h\<rparr>)"
  using assms serves_looked [OF assms(2)] trail_open_looked [OF _ assms(2)]
  by (simp add: granting_def Let_def) (simp add: looked_def)

lemma granting_ssh:
  assumes "granting X app d user_id target_id ps t a c maxd R n B is w" "R m b"
  shows "granting X app d user_id target_id ps t a c maxd R m B is (w\<lparr>st_ssh := b\<rparr>)"
  using assms by (simp add: granting_def Let_def)

lemma granting_new_id:
  assumes "granting X app d user_id target_id ps t a c maxd R n B (i # is) w"
  shows "\<exists>h. new_uuid (st_host w) = (Inr i, h) \<and> i \<notin> B \<and> id_like i
    \<and> granting X app d user_id target_id ps t a c maxd R n (insert i B) is (w\<lparr>st_host := h\<rparr>)"
proof -
  let ?h = "st_host w" and ?s = "app_settings app"
  from assms have tr: "trail_open (o_hmac X) (rs_audit_db ?s) (rs_audit_key ?s) B (i # is) ?h"
    by (simp add: granting_def Let_def)
  have c: "distinct (i # is)" "set (i # is) \<inter> B = {}" "i # is = uuid_draws (length (i # is)) (h_entropy ?h)"
    "16 * length (i # is) \<le> length (h_entropy ?h)"
    using tr unfolding trail_open_def by blast+
  have e: "16 + 16 * length is \<le> length (h_entropy ?h)" "i = uuid_text (uuid_version4 (take 16 (h_entropy ?h)))"
    "is = uuid_draws (length is) (drop 16 (h_entropy ?h))" "i \<notin> B" "i \<notin> set is"
    using c(4) c(3) [unfolded list.size uuid_draws.simps add_Suc_right add_0_right] c(1,2) by simp_all
  obtain r h where r: "new_uuid ?h = (r, h)" by fastforce
  from new_uuid_run [OF r] e(1,2) have h: "h = ?h\<lparr>h_entropy := drop 16 (h_entropy ?h)\<rparr>" "r = Inr i" "id_like i" by auto
  have "trail_open (o_hmac X) (rs_audit_db ?s) (rs_audit_key ?s) (insert i B) is h"
  proof -
    from tr obtain key fs rows where t: "audit_rows (rs_audit_db ?s) ?h rows" "chain (o_hmac X) key 1 genesis_mac fs = Some rows"
      "key_of ?h (rs_audit_key ?s) = Some key" "af_id ` set fs \<inter> (B \<union> set (i # is)) = {}"
      "length fs + card B + length (i # is) < 2 ^ 62" "finite B" "distinct (i # is)" "set (i # is) \<inter> B = {}"
      by (auto simp: trail_open_def)
    from t(1,3) have "audit_rows (rs_audit_db ?s) h rows" "key_of h (rs_audit_key ?s) = Some key"
      unfolding h(1) by (simp_all add: table_rows_def table_at_def db_at_def key_of_def)
    moreover have "is = uuid_draws (length is) (h_entropy h)" "16 * length is \<le> length (h_entropy h)"
      using e(1,3) by (simp_all add: h(1))
    ultimately show ?thesis
      using t(2,4-8) unfolding trail_open_def by (intro conjI exI [of _ key] exI [of _ fs] exI [of _ rows]) auto
  qed
  moreover have "serves ?s d h" using assms unfolding granting_def Let_def h(1)
    by (simp add: serves_def table_rows_def table_at_def db_at_def)
  ultimately show ?thesis using assms r h e(4) by (simp add: granting_def Let_def)
qed

lemma granting_append:
  assumes "granting X app d user_id target_id ps t a c maxd R n (insert (ev_id ev) B) is w"
    "ev_id ev \<notin> B" "storable_event ev"
  shows "\<exists>h. audit_append (o_hmac X) (get_key (rs_audit_key (app_settings app))) (rs_audit_db (app_settings app)) ev (st_host w)
      = (Inr (), h) \<and> granting X app d user_id target_id ps t a c maxd R n B is (w\<lparr>st_host := h\<rparr>)"
proof -
  let ?h = "st_host w" and ?s = "app_settings app"
  let ?p = "rs_audit_db ?s" and ?q = "rs_audit_key ?s"
  from assms(1) have g: "hmac_sized (o_hmac X)" "separate_audit ?s" "serves ?s d ?h" "h_faults ?h = []"
    "trail_open (o_hmac X) ?p ?q (insert (ev_id ev) B) is ?h" by (simp_all add: granting_def Let_def)
  from g(5) obtain key fs rows where t: "audit_rows ?p ?h rows" "chain (o_hmac X) key 1 genesis_mac fs = Some rows"
    "key_of ?h ?q = Some key" "af_id ` set fs \<inter> (insert (ev_id ev) B \<union> set is) = {}"
    "length fs + card (insert (ev_id ev) B) + length is < 2 ^ 62" "finite B" "distinct is"
    "set is \<inter> insert (ev_id ev) B = {}"
    by (auto simp: trail_open_def)
  from assms(3) obtain f where f: "audit_serialize ev = Inr f" "event_encodable ev" by (auto simp: storable_event_def)
  obtain r h where r: "audit_append (o_hmac X) (get_key ?q) ?p ev ?h = (r, h)" by fastforce
  have pq: "?p \<noteq> ?q" using g(2) by (simp add: separate_audit_def)
  from audit_append_chain [OF g(1) pq t(3) g(4) _ t(2) _ f(2) r] t(1,4,5) f(1) have a: "r = Inr ()"
    by (simp add: table_rows_def)
  from key_file.append_run [OF t(1) r pq] a f(1) t(3) obtain row where
    row: "next_row (o_hmac X) key f rows = Inr row" "audit_rows ?p h (rows @ [row])" "key_of h ?q = Some key"
      "\<forall>x. x \<noteq> ?p \<longrightarrow> h_files h x = h_files ?h x" by auto
  have chain: "chain (o_hmac X) key 1 genesis_mac (fs @ [f]) = Some (rows @ [row])"
    by (rule next_row_chain [OF g(1) t(2) row(1)])
  have quiet: "h_faults h = []" and ent: "h_entropy h = h_entropy ?h"
    using audit_append_host [OF t(1) r] g(4) by simp_all
  have "af_id f = ev_id ev" using serialize_encodable [OF f(2,1)] by simp
  then have "trail_open (o_hmac X) ?p ?q B is h"
    using g(5) t(4-8) row(2,3) chain ent assms(2) unfolding trail_open_def
    by (intro conjI exI [of _ key] exI [of _ "fs @ [f]"] exI [of _ "rows @ [row]"]) auto
  moreover have "serves ?s d h"
    by (rule serves_files [OF _ g(3)]) (use row(4) g(2) in \<open>auto simp: separate_audit_def\<close>)
  ultimately show ?thesis using assms(1) r a quiet by (auto simp: granting_def Let_def)
qed

section \<open>The ports answer\<close>

interpretation granted: answering_ports "application_ports X app" "granting X app d user_id target_id ps t a c maxd R"
  user_id target_id ps t a c maxd
  for X app d user_id target_id ps t a c maxd R
proof -
  let ?K = "granting X app d user_id target_id ps t a c maxd R" and ?s = "app_settings app"
  note I = application_ports_def Let_def ports.simps
  have lookup: "\<exists>w'. on_host m w = (Inr v, w') \<and> ?K n B is w'"
    if "?K n B is w" "\<And>h r h'. m h = (r, h') \<Longrightarrow> looked h h'"
      "\<And>h r h'. serves ?s d h \<Longrightarrow> m h = (r, h') \<Longrightarrow> r = Inr v \<or> isl r \<and> h_faults h \<noteq> []"
    for m :: "(dbhost, 'x) io" and v n B "is" w
  proof -
    obtain r h where h: "m (st_host w) = (r, h)" by fastforce
    from that(1) have "serves ?s d (st_host w)" "h_faults (st_host w) = []" by (simp_all add: granting_def Let_def)
    with that(3) [OF _ h] have "r = Inr v" by auto
    with h granting_looked [OF that(1) that(2) [OF h]] show ?thesis by (simp add: on_host_def)
  qed
  have says: "policies_of (sr_policies d) (user_id, target_id, OPEN_PRIVILEGED_SESSION) = Inr ps"
    "target_of (sr_targets d) target_id = Inr (Some t)" "account_of (sr_accounts d) (tgt_id t) = Inr (Some a)"
    "credential_of (o_aead X) (app_vault_key app) (sr_vault d) (acc_credential_ref a) = Inr (Some c)"
    "remote_accepts X t a c maxd R" "R n (st_ssh w)"
    if "?K n B is w" for n B "is" w
    using that by (simp_all add: granting_def Let_def)
  have resolve_looked: "looked h h'" if "bind (vault_resolve p lib k ref) (\<lambda>c. ret (Some c)) h = (r, h')"
    for p lib k ref h h' and r :: "broker_credential option res"
    using that by (auto simp: bind_eq_iff dest: lookups_looked(4))
  show "answering_ports (application_ports X app) ?K user_id target_id ps t a c maxd"
  proof (unfold_locales, unfold I, goal_cases)
    case (1 n B "is" w)
    show ?case by (rule lookup [OF 1]) (use says(1) [OF 1] in \<open>auto dest: lookups_looked(1) lookup_answers(1)\<close>)
  next
    case (2 n B "is" w)
    show ?case by (rule lookup [OF 2]) (use says(2) [OF 2] in \<open>auto dest: lookups_looked(2) lookup_answers(2)\<close>)
  next
    case (3 n B "is" w)
    show ?case by (rule lookup [OF 3]) (use says(3) [OF 3] in \<open>auto dest: lookups_looked(3) lookup_answers(3)\<close>)
  next
    case (4 n B "is" w)
    show ?case by (rule lookup [OF 4]) (use says(4) [OF 4] in \<open>auto dest: resolve_looked lookup_answers(4)\<close>)
  next
    case (5 B "is" w)
    from says(5,6) [OF 5] obtain b where "open_session (o_ssh X) (o_sha256 X) connect_timeout t a c (st_ssh w) = (Inr (), b)"
      "R 1 b" unfolding remote_accepts_def by blast
    with granting_ssh [OF 5] show ?case by (auto simp: on_ssh_def)
  next
    case (6 B "is" w h)
    from says(5,6) [OF 6] obtain out b where "broker_relay X maxd (st_ssh w) = (Inr (Outcome out), b)" "R 2 b"
      unfolding remote_accepts_def by blast
    with granting_ssh [OF 6] show ?case by (auto simp: on_ssh_def)
  next
    case (7 B "is" w h)
    from says(5,6) [OF 7] obtain b where "session_close (o_ssh X) (st_ssh w) = (Inr (), b)" "R 3 b"
      unfolding remote_accepts_def by blast
    with granting_ssh [OF 7] show ?case by (auto simp: on_ssh_def)
  next
    case (8 n ev B "is" w)
    from granting_append [OF 8] show ?case by (auto simp: on_host_def)
  next
    case (9 n B "is" w)
    from says(5,6) [OF 9] obtain u b where "in_world (o_wall X) (st_ssh w) = (Inr u, b)" "0 \<le> u" "u < max_us" "R n b"
      unfolding remote_accepts_def by blast
    moreover from this(1) have "in_world (system_now (o_wall X)) (st_ssh w) = (Inr (utc u), b)"
      by (auto simp: in_world_def system_now_def bind_apply split: prod.splits)
    ultimately show ?case using granting_ssh [OF 9] by (auto simp: on_outside_def on_ssh_def stamp_def)
  next
    case (10 n B i "is" w)
    from granting_new_id [OF 10] show ?case by (auto simp: on_host_def)
  qed
qed

end
