(* ===== verification/Program_Works.thy ===== *)
theory Program_Works
  imports Program_Record Granted_Access
begin

text \<open>
  The access command works: on a runtime directory with everything in place, with the right password
  and a server that accepts, it exits with 0.
\<close>

section \<open>Calls that succeed\<close>

lemma or_exit_works: "m s = (Inr x, s1) \<Longrightarrow> or_exit m p h k s = k x s1"
  by (simp add: or_exit_def bind_apply try_except_def)

lemma run_request_works:
  assumes "cp_access P services who q (world s) = (Inr res, w)" "closed_session res"
  shows "\<exists>s'. run_request P services who target_id q s = (Inr 0, s') \<and> world s' = w"
  using assms report_cases(1) [of res]
  by (simp add: run_request_def seq_apply print_line_def or_exit_def bind_apply try_except_def perform_def
      closed_session_def)

lemma run_access_works:
  assumes "cp_provisioned P dir (world s) = (Inr True, w1)" "runtime_settings_of dir secs = Inr settings"
    "cp_build P settings w1 = (Inr services, w2)" "cp_getpass P w2 = (Inr password, w3)"
    "cp_authenticate P services username password w3 = (Inr who, w4)"
    "cp_new_id P w4 = (Inr i, w5)" "cp_now P w5 = (Inr d, w6)"
    "mk_access_request i (pr_user_id who) target_id OPEN_PRIVILEGED_SESSION d = Inr q"
    "cp_access P services who q w6 = (Inr res, w7)" "closed_session res"
  shows "\<exists>s'. run_access P dir username target_id secs s = (Inr 0, s') \<and> world s' = w7"
proof -
  let ?tr = "\<lambda>obs w. s\<lparr>world := w, trace := trace s @ obs\<rparr>"
  let ?o = "[Provisioned (Inr True), Build (Inr services), Getpass (Inr password), Authenticate username password (Inr who)]"
  let ?s6 = "?tr (?o @ [RequestId (Inr i), RequestTime (Inr d)]) w6"
  have "run_authenticated P target_id services who (?tr ?o w4) = run_request P services who target_id q ?s6"
    unfolding run_authenticated_def
    by (rule or_exit_works) (use assms(6-8) in \<open>simp add: new_request_def bind_apply perform_def\<close>)
  moreover have "run_access P dir username target_id secs s = run_authenticated P target_id services who (?tr ?o w4)"
    using assms(1-5)
    by (simp add: run_access_def run_started_def run_login_def or_exit_def bind_apply perform_def try_except_def)
  ultimately show ?thesis using run_request_works [of P services who q ?s6 res w7 target_id] assms(9,10) by simp
qed

lemma on_console_host: "m (st_host (console_world s)) = (r, h) \<Longrightarrow>
    in_console (on_host m) s = (r, s\<lparr>console_world := (console_world s)\<lparr>st_host := h\<rparr>\<rparr>)"
  by (simp add: in_console_def on_host_def)

lemma on_console_outside: "in_world m (st_ssh (console_world s)) = (r, b) \<Longrightarrow>
    in_console (on_outside m) s = (r, s\<lparr>console_world := (console_world s)\<lparr>st_ssh := b\<rparr>\<rparr>)"
  by (simp add: in_console_def on_outside_def on_ssh_def)

lemma interactive_works:
  assumes "lt_input_fd t = 0" "tty_attrs s 0 = Some attrs" "tty_faults s = []"
    "handle P d (Some who) q (initial_state (console_world s)) = (Inr res, s1)"
  shows "\<exists>s'. execute_interactive_access raw t P d who q s = (Inr res, s') \<and> console_world s' = world s1"
  using assms
  by (simp add: execute_interactive_access_def with_raw_terminal_def seq_apply bind_apply reject_def
      tcgetattr_def tty_call_def tty_setraw_def tcsetattr_def try_except_def try_finally_def finally_with_def)

lemma authenticate_on_works:
  assumes "user_rows (rs_auth_db (app_settings app)) h users" "h_faults h = []"
    "user_of users username = Inr (Some u)" "usr_is_active (sua_user u)"
    "\<not> blank (usr_id (sua_user u))" "\<not> blank (usr_username (sua_user u))"
    "\<And>g. a_verify (o_argon2 X) (sua_password_hash u) password g = (Inr True, g)"
  shows "\<exists>h'. authenticate_on X app username password h = (Inr \<lparr>pr_user_id = usr_id (sua_user u),
      pr_username = usr_username (sua_user u)\<rparr>, h') \<and> looked h h'"
proof -
  let ?p = "rs_auth_db (app_settings app)"
  obtain f g where f: "find_by_username ?p username h = (f, g)" by fastforce
  from find_by_username_run [OF assms(1) f] assms(2,3) have r: "f = Inr (Some u)" by auto
  have "authenticate_on X app username password h = (Inr \<lparr>pr_user_id = usr_id (sua_user u),
      pr_username = usr_username (sua_user u)\<rparr>, g)"
    using f r assms(4-7)
    by (simp add: authenticate_on_def authenticate_def find_user_def perform_def repository_auth_def bind_apply
        try_except_def decide_authentication_def check_password_def verify_password_def mk_principal_cases)
  with lookups_looked(5) [OF f] show ?thesis by blast
qed

section \<open>Everything in place\<close>

text \<open>The runtime directory, its stores and the keys\<close>

definition runtime_ready :: "path \<Rightarrow> runtime_settings \<Rightarrow> dbhost \<Rightarrow> bool" where
  "runtime_ready dir st h \<longleftrightarrow> h_faults h = [] \<and> h_files h dir = Some (Directory 0x1C0)
     \<and> list_all (\<lambda>n. nonempty_file h (runtime_file dir n)) required_runtime_files
     \<and> startable h st \<and> stores_exist st h
     \<and> (base_db h (rs_audit_db st) empty_db \<or> (\<exists>d rows. quiet_db h (rs_audit_db st) d \<and> db_version d = 2
          \<and> map_of (db_tables d) audit_table = Some (made audit_schema audit_unique rows)))"

text \<open>Entropy for the dummy password and six identifiers that are new\<close>

definition entropy_ready :: "audit_fields list \<Rightarrow> dbhost \<Rightarrow> bool" where
  "entropy_ready fs h \<longleftrightarrow> 128 \<le> length (h_entropy h)
     \<and> (let is = uuid_draws 6 (drop 32 (h_entropy h)) in distinct is \<and> set is \<inter> af_id ` set fs = {})
     \<and> length fs + 5 < 2 ^ 62"

text \<open>The user, who is known, and the access, which is granted\<close>

definition access_ready ::
  "('v, 'k) outside \<Rightarrow> row list \<Rightarrow> service_rows \<Rightarrow> bytes \<Rightarrow> pystr \<Rightarrow> pystr \<Rightarrow> pystr \<Rightarrow>
   stored_user_authentication \<Rightarrow> access_policy list \<Rightarrow> target \<Rightarrow> privileged_account \<Rightarrow> broker_credential \<Rightarrow> bool" where
  "access_ready X users d vault_key username password target_id u ps t a c \<longleftrightarrow>
     user_of users username = Inr (Some u) \<and> usr_is_active (sua_user u) \<and> \<not> blank (usr_username (sua_user u))
     \<and> (\<forall>g. a_verify (o_argon2 X) (sua_password_hash u) password g = (Inr True, g))
     \<and> (\<forall>pw g. \<exists>x. a_hash (o_argon2 X) pw g = (Inr x, g))
     \<and> policies_of (sr_policies d) (usr_id (sua_user u), target_id, OPEN_PRIVILEGED_SESSION) = Inr ps
     \<and> target_of (sr_targets d) target_id = Inr (Some t) \<and> account_of (sr_accounts d) (tgt_id t) = Inr (Some a)
     \<and> credential_of (o_aead X) vault_key (sr_vault d) (acc_credential_ref a) = Inr (Some c)
     \<and> grants (usr_id (sua_user u)) target_id ps t a"

text \<open>The prompt gives the password, the clock the time of the request, and the server then accepts.\<close>

definition outside_ready ::
  "('v, 'k) outside \<Rightarrow> pystr \<Rightarrow> target \<Rightarrow> privileged_account \<Rightarrow> broker_credential \<Rightarrow> int \<Rightarrow>
   (nat \<Rightarrow> ('v, 'k) brokered \<Rightarrow> bool) \<Rightarrow> ('v, 'k) brokered \<Rightarrow> bool" where
  "outside_ready X password t a c maxd R b \<longleftrightarrow> remote_accepts X t a c maxd R
     \<and> (\<exists>b' b'' u. in_world (o_getpass X) b = (Inr password, b') \<and> in_world (o_wall X) b' = (Inr u, b'') \<and> R 0 b'')"

section \<open>The command succeeds\<close>

lemma ready_provisioned:
  assumes "runtime_ready dir st h"
  shows "runtime_is_provisioned dir h = (Inr True, h)"
  using assms by (simp add: runtime_ready_def runtime_is_provisioned_def try_except_def os_call_def faultable_def)

lemma ready_builds:
  assumes "runtime_ready dir st h" "runtime_settings_of dir secs = Inr st" "128 \<le> length (h_entropy h)"
    "key_of h (rs_audit_key st) = Some key" "\<And>pw g. \<exists>x. a_hash lib pw g = (Inr x, g)"
  shows "\<exists>app h'. build_application lib st h = (Inr app, h') \<and> h_faults h' = [] \<and> h_entropy h' = drop 32 (h_entropy h)"
proof (rule build_application_works)
  note path = runtime_settings_paths [OF assms(2)]
  show "rs_audit_db st \<notin> {rs_vault_db st, rs_config_db st, rs_auth_db st}" by (simp add: path runtime_file_def)
  show "0 < rs_max_session st"
    using assms(2) by (auto simp: runtime_settings_of_def mk_runtime_settings_def reject_def raise_if_def split: if_splits)
  fix g
  assume g: "same_files h g" "h_faults g = []"
  have "length key = 32" using assms(4) by (auto simp: key_of_def split: option.splits node.splits if_splits)
  moreover have "base_db g (rs_audit_db st) empty_db \<or> (\<exists>d rows. quiet_db g (rs_audit_db st) d \<and> db_version d = 2
       \<and> map_of (db_tables d) audit_table = Some (made audit_schema audit_unique rows))"
    using assms(1) g base_db_same_files [OF g(1) _ g(2)]
    by (auto simp: runtime_ready_def quiet_db_def same_files_def)
  moreover have "key_of g (rs_audit_key st) = Some key" using assms(4) same_files_key_of [OF g(1)] by simp
  ultimately show "\<exists>g'. mk_audit_repository (get_key (rs_audit_key st)) (rs_audit_db st) g = (Inr (), g')
         \<and> h_faults g' = [] \<and> h_entropy g' = h_entropy g"
    using audit_repository_works g(2) by blast
qed (use assms(1,3,5) in \<open>simp_all add: runtime_ready_def\<close>)

text \<open>The service is ready when the request is made: the stores, the trail and the identifiers.\<close>

lemma ready_granting:
  fixes X :: "('v, 'k) outside"
  assumes "hmac_sized (o_hmac X)" "app_settings app = st" "runtime_settings_of dir secs = Inr st"
    "runtime_holds dir users d key (st_host w)" "trail_stored (o_hmac X) (rs_audit_db st) key fs (st_host w)"
    "h_faults (st_host w) = []" "access_ready X users d (app_vault_key app) username password target_id u ps t a c"
    "remote_accepts X t a c maxd R" "R 0 (st_ssh w)" "80 \<le> length (h_entropy (st_host w))"
    "distinct (uuid_draws 5 (h_entropy (st_host w)))" "set (uuid_draws 5 (h_entropy (st_host w))) \<inter> af_id ` set fs = {}"
    "length fs + 5 < 2 ^ 62"
  shows "granting X app d (usr_id (sua_user u)) target_id ps t a c maxd R 0 {} (uuid_draws 5 (h_entropy (st_host w))) w"
proof -
  note path = runtime_settings_paths [OF assms(3)]
  from assms(5) obtain rows where r: "audit_rows (rs_audit_db st) (st_host w) rows"
    "chain (o_hmac X) key 1 genesis_mac fs = Some rows" by (auto simp: trail_stored_def)
  have "trail_open (o_hmac X) (rs_audit_db st) (rs_audit_key st) {} (uuid_draws 5 (h_entropy (st_host w))) (st_host w)"
    unfolding trail_open_def using r assms(4,10-13)
    by (intro conjI exI [of _ key] exI [of _ fs] exI [of _ rows]) (auto simp: runtime_holds_def path)
  moreover have "separate_audit st" by (simp add: separate_audit_def path runtime_file_def)
  moreover have "serves st d (st_host w)" using assms(4) by (simp add: serves_def runtime_holds_def path)
  ultimately show ?thesis
    using assms(1,2,6-9) by (simp add: granting_def Let_def access_ready_def)
qed

lemma ready_access_run:
  fixes X :: "('v, 'k) outside" and s :: "(('a, ('v, 'k) site) console, application cli_obs) tstate"
  assumes "hmac_sized (o_hmac X)" "runtime_settings_of dir secs = Inr st"
    "h = st_host (console_world (world s))" "runtime_ready dir st h" "runtime_holds dir users d key h"
    "trail_begun (o_hmac X) (runtime_file dir ''audit.db'') key fs h" "entropy_ready fs h"
    "key_of h (runtime_file dir ''vault.key'') = Some vault_key"
    "access_ready X users d vault_key username password target_id u ps t a c"
    "outside_ready X password t a c (rs_max_session st) R (st_ssh (console_world (world s)))"
    "tty_attrs (world s) 0 = Some attrs" "tty_faults (world s) = []"
  shows "\<exists>s'. pam_main raw X (AccessTarget dir username target_id secs) s = (Inr 0, s')"
proof -
  let ?c = "world s" and ?P = "program_ports raw X"
  let ?on = "\<lambda>g b. ?c\<lparr>console_world := (console_world ?c)\<lparr>st_host := g, st_ssh := b\<rparr>\<rparr>"
  note path = runtime_settings_paths [OF assms(2)]
  note P = program_ports_def cli_ports.simps
  have key: "key_of h (rs_audit_key st) = Some key" using assms(5) by (simp add: runtime_holds_def path)
  have hash: "\<exists>x. a_hash (o_argon2 X) pw g = (Inr x, g)" for pw g using assms(9) by (simp add: access_ready_def)
  have ent: "128 \<le> length (h_entropy h)" "distinct (uuid_draws 6 (drop 32 (h_entropy h)))"
    "set (uuid_draws 6 (drop 32 (h_entropy h))) \<inter> af_id ` set fs = {}" "length fs + 5 < 2 ^ 62"
    using assms(7) by (simp_all add: entropy_ready_def Let_def)
  obtain app h2 where app: "build_application (o_argon2 X) st h = (Inr app, h2)" "h_faults h2 = []"
    "h_entropy h2 = drop 32 (h_entropy h)"
    using ready_builds [OF assms(4,2) ent(1) key hash] by blast
  have files: "\<forall>pw g. h_files (snd (a_hash (o_argon2 X) pw g)) = h_files g" using hash by (metis snd_conv)
  note built = build_application_success [OF app(1) files]
  have trail: "trail_stored (o_hmac X) (rs_audit_db st) key fs h2"
    by (rule trail_after_start [OF app(1) files]) (use assms(6) in \<open>simp_all add: path runtime_file_def\<close>)
  have "runtime_file dir ''audit.key'' \<notin> fst ` set (store_schemas st)"
    by (simp add: store_schemas_def path runtime_file_def)
  with built have "state_kept (runtime_file dir ''audit.key'') h h2" by (simp add: state_kept_def key_of_def)
  then have holds: "runtime_holds dir users d key h2" by (rule runtime_holds_kept [OF assms(5)])
  from assms(10) obtain b1 b2 n where out: "in_world (o_getpass X) (st_ssh (console_world ?c)) = (Inr password, b1)"
    "in_world (o_wall X) b1 = (Inr n, b2)" "R 0 b2" "remote_accepts X t a c (rs_max_session st) R"
    by (auto simp: outside_ready_def)
  have user: "user_of users username = Inr (Some u)" "usr_is_active (sua_user u)" "\<not> blank (usr_username (sua_user u))"
    "\<And>g. a_verify (o_argon2 X) (sua_password_hash u) password g = (Inr True, g)"
    "grants (usr_id (sua_user u)) target_id ps t a" using assms(9) by (simp_all add: access_ready_def)
  let ?who = "\<lparr>pr_user_id = usr_id (sua_user u), pr_username = usr_username (sua_user u)\<rparr>"
  have "user_rows (rs_auth_db (app_settings app)) h2 users"
    using holds built by (simp add: runtime_holds_def path)
  then obtain h4 where h4: "authenticate_on X app username password h2 = (Inr ?who, h4)" "looked h2 h4"
    using authenticate_on_works [OF _ app(2) user(1,2) _ user(3,4)] user(5) by (auto simp: grants_def)
  from h4(2) app have e4: "h_entropy h4 = drop 32 (h_entropy h)" "h_faults h4 = []" by (simp_all add: looked_def)
  obtain r h5 where r: "new_uuid h4 = (r, h5)" by fastforce
  from new_uuid_run [OF r] e4 ent(1) obtain i where i: "r = Inr i" "id_like i"
    "h5 = h4\<lparr>h_entropy := drop 16 (h_entropy h4)\<rparr>" by auto
  have "uuid_draws 6 (drop 32 (h_entropy h)) = uuid_text (uuid_version4 (take 16 (drop 32 (h_entropy h)))) # uuid_draws 5 (h_entropy h5)"
    by (simp add: i(3) e4(1) numeral_eq_Suc)
  then have ids: "distinct (uuid_draws 5 (h_entropy h5))" "set (uuid_draws 5 (h_entropy h5)) \<inter> af_id ` set fs = {}"
    "80 \<le> length (h_entropy h5)" using ent(1-3) by (auto simp: i(3) e4(1))
  have k5: "state_kept (runtime_file dir ''audit.key'') h2 h5"
    by (rule state_kept_trans [OF state_kept_looked [OF h4(2)] state_kept_files]) (simp add: i(3))
  let ?w6 = "(console_world ?c)\<lparr>st_host := h5, st_ssh := b2\<rparr>"
  have st: "app_settings app = st" "app_max_session app = rs_max_session st" "lt_input_fd (app_terminal app) = 0"
    "app_vault_key app = vault_key" using built assms(8) by (simp_all add: path)
  have K: "granting X app d (usr_id (sua_user u)) target_id ps t a c (app_max_session app) R 0 {} (uuid_draws 5 (h_entropy h5)) ?w6"
    using ready_granting [of X app st dir secs users d key ?w6 fs username password target_id u ps t a c
        "rs_max_session st" R] assms(1,2,9) st runtime_holds_kept [OF holds k5] trail_stored_kept [OF trail k5]
      e4(2) out(3,4) ids ent(4) by (simp add: i(3))
  obtain q where q: "mk_access_request i (usr_id (sua_user u)) target_id OPEN_PRIVILEGED_SESSION (utc n) = Inr q"
    "grantable (usr_id (sua_user u)) target_id ps t a q"
    using i(2) user(5) by (auto simp: mk_access_request_def grantable_def grants_def id_like_def)
  obtain i1 i2 i3 i4 i5 where five: "uuid_draws 5 (h_entropy h5) = [i1, i2, i3, i4, i5]" by (simp add: numeral_eq_Suc)
  obtain res s1 where run: "handle (application_ports X app) (app_max_session app) (Some ?who) q (initial_state ?w6) = (Inr res, s1)"
    "closed_session res" using granted.handle_works [OF K [unfolded five] q(2), of ?who] by fastforce
  obtain s' where s': "execute_interactive_access raw (app_terminal app) (application_ports X app) (app_max_session app) ?who q
      (?on h5 b2) = (Inr res, s')" using interactive_works [of _ "?on h5 b2" attrs] st(3) assms(11,12) run(1) by fastforce
  have "\<exists>z. run_access ?P dir username target_id secs s = (Inr 0, z) \<and> world z = s'"
  proof (rule run_access_works)
    show "cp_provisioned ?P dir ?c = (Inr True, ?on h (st_ssh (console_world ?c)))"
      using ready_provisioned [OF assms(4)] by (simp add: P on_console_host assms(3))
    show "cp_build ?P st (?on h (st_ssh (console_world ?c))) = (Inr app, ?on h2 (st_ssh (console_world ?c)))"
      by (simp add: P on_console_host app(1))
    show "cp_getpass ?P (?on h2 (st_ssh (console_world ?c))) = (Inr password, ?on h2 b1)"
      by (simp add: P on_console_outside out(1))
    show "cp_authenticate ?P app username password (?on h2 b1) = (Inr ?who, ?on h4 b1)"
      by (simp add: P on_console_host h4(1))
    show "cp_new_id ?P (?on h4 b1) = (Inr i, ?on h5 b1)"
      using r i(1) by (simp add: P on_console_host)
    have "in_world (system_now (o_wall X)) b1 = (Inr (utc n), b2)"
      using out(2) by (auto simp: in_world_def system_now_def bind_apply split: prod.splits)
    then show "cp_now ?P (?on h5 b1) = (Inr (utc n), ?on h5 b2)" by (simp add: P on_console_outside)
    show "mk_access_request i (pr_user_id ?who) target_id OPEN_PRIVILEGED_SESSION (utc n) = Inr q" using q(1) by simp
    show "cp_access ?P app ?who q (?on h5 b2) = (Inr res, s')" using s' by (simp add: P)
  qed (use assms(2) run(2) in simp_all)
  then show ?thesis by (auto simp: pam_main_def)
qed

text \<open>
  C30. The access command succeeds where it should: on a provisioned runtime directory (with an audit
  trail or, at the first start, without one), for an active user of the database who types the
  right password and whom all policies for the target allow, with an enabled target and account
  whose secret is in the Vault, and a server that accepts, the program runs to its end and exits
  with 0.
\<close>

theorem ready_access_exits_zero:
  fixes X :: "('v, 'k) outside" and s :: "(('a, ('v, 'k) site) console, application cli_obs) tstate"
  assumes "hmac_sized (o_hmac X)" "runtime_settings_of dir secs = Inr st"
    "h = st_host (console_world (world s))" "runtime_ready dir st h" "runtime_holds dir users d key h"
    "trail_begun (o_hmac X) (runtime_file dir ''audit.db'') key fs h" "entropy_ready fs h"
    "key_of h (runtime_file dir ''vault.key'') = Some vault_key"
    "access_ready X users d vault_key username password target_id u ps t a c"
    "outside_ready X password t a c (rs_max_session st) R (st_ssh (console_world (world s)))"
    "tty_attrs (world s) 0 = Some attrs" "tty_faults (world s) = []"
  shows "\<exists>s'. pam_main raw X (AccessTarget dir username target_id secs) s = (Inr 0, s')"
  using assms by (rule ready_access_run)

end
