(* ===== verification/Service_Decision.thy ===== *)
theory Service_Decision
  imports Program_Record
begin

text \<open>
  What the stored rows decide: the outcome of a request as a function of the rows of the databases,
  and that the wired service never decides, and never opens a session, otherwise.
\<close>

section \<open>The decision as a function of the rows\<close>

text \<open>
  The decision, and where it is an access the target, the account and the credential of the session
\<close>

datatype stored_outcome =
    Refused access_decision
  | Granted access_decision target privileged_account broker_credential

definition stored_account ::
  "aead \<Rightarrow> bytes \<Rightarrow> service_rows \<Rightarrow> access_decision \<Rightarrow> target \<Rightarrow> stored_outcome res" where
  "stored_account lib key d decision t =
     bindR (account_of (sr_accounts d) (tgt_id t)) (\<lambda>configured.
     case configured of
       None \<Rightarrow> Inr (Refused (deny_decision ''account_not_found''))
     | Some a \<Rightarrow>
         if \<not> acc_enabled a then Inr (Refused (deny_decision ''privileged_account_disabled''))
         else if acc_target_id a \<noteq> tgt_id t then Inr (Refused (deny_decision ''account_target_mismatch''))
         else bindR (credential_of lib key (sr_vault d) (acc_credential_ref a)) (\<lambda>c.
           case c of
             None \<Rightarrow> Inr (Refused (deny_decision ''credential_not_found''))
           | Some k \<Rightarrow> Inr (Granted decision t a k)))"

definition stored_target ::
  "aead \<Rightarrow> bytes \<Rightarrow> service_rows \<Rightarrow> access_decision \<Rightarrow> pystr \<Rightarrow> stored_outcome res" where
  "stored_target lib key d decision target_id =
     bindR (target_of (sr_targets d) target_id) (\<lambda>found.
     case found of
       None \<Rightarrow> Inr (Refused (deny_decision ''target_not_found''))
     | Some t \<Rightarrow>
         if \<not> tgt_enabled t then Inr (Refused (deny_decision ''target_disabled''))
         else stored_account lib key d decision t)"

definition stored_decision ::
  "aead \<Rightarrow> bytes \<Rightarrow> service_rows \<Rightarrow> authenticated_principal \<Rightarrow> access_request \<Rightarrow> stored_outcome res" where
  "stored_decision lib key d who req =
     (if pr_user_id who \<noteq> req_user_id req
      then Inr (Refused (deny_decision ''authenticated_identity_mismatch''))
      else bindR (policies_of (sr_policies d) (req_user_id req, req_target_id req, req_action req)) (\<lambda>ps.
        if dec_effect (decide ps) \<noteq> ALLOW then Inr (Refused (decide ps))
        else stored_target lib key d (decide ps) (req_target_id req)))"

lemmas stored_defs = stored_decision_def stored_target_def stored_account_def

fun decision_of :: "stored_outcome \<Rightarrow> access_decision" where
  "decision_of (Refused x) = x"
| "decision_of (Granted x t a k) = x"

section \<open>The service decides this way\<close>

lemma answer_ok_Inr:
  "answer_ok lib key d quiet (FindMatching u t x (Inr ps)) \<longleftrightarrow> policies_of (sr_policies d) (u, t, x) = Inr ps"
  "answer_ok lib key d quiet (GetTarget t (Inr g)) \<longleftrightarrow> target_of (sr_targets d) t = Inr g"
  "answer_ok lib key d quiet (FindForTarget t (Inr a)) \<longleftrightarrow> account_of (sr_accounts d) t = Inr a"
  "answer_ok lib key d quiet (Resolve ref (Inr c)) \<longleftrightarrow> credential_of lib key (sr_vault d) ref = Inr c"
  by auto

declare answer_ok.simps(1-4) [simp del] answer_ok_Inr [simp]

lemma opened_lookups:
  assumes "protocol c maxd who req cs x r" "OpenSession t a k q \<in> set cs"
  shows "\<exists>pr ps cs'. who = Some pr \<and> pr_user_id pr = req_user_id req \<and> dec_effect (decide ps) = ALLOW
    \<and> tgt_enabled t \<and> acc_enabled a \<and> acc_target_id a = tgt_id t
    \<and> cs = [FindMatching (req_user_id req) (req_target_id req) (req_action req) (Inr ps),
         GetTarget (req_target_id req) (Inr (Some t)), FindForTarget (tgt_id t) (Inr (Some a)),
         Resolve (acc_credential_ref a) (Inr (Some k))] @ cs'"
proof -
  have sc: "session_call (OpenSession t a k q)" "\<not> is_append (OpenSession t a k q)" by simp_all
  from protocol_session_call [OF assms sc] obtain pr ps t' a' k' i d cs' x' where
    p: "who = Some pr" "pr_user_id pr = req_user_id req" "dec_effect (decide ps) = ALLOW" "tgt_enabled t'"
      "acc_enabled a'" "acc_target_id a' = tgt_id t'"
      "cs = [FindMatching (req_user_id req) (req_target_id req) (req_action req) (Inr ps),
         GetTarget (req_target_id req) (Inr (Some t')), FindForTarget (tgt_id t') (Inr (Some a')),
         Resolve (acc_credential_ref a') (Inr (Some k'))] @ cs'"
      "session_run c maxd req (decide ps) t' a' k' (new_session req t' a' i d) cs' x' r" by metis
  from p(7) assms(2) have "OpenSession t a k q \<in> set cs'" by auto
  with session_run_opening [OF p(8)] have "t = t'" "a = a'" "k = k'" by (elim disjE exE conjE; auto)+
  with p show ?thesis by blast
qed

lemma protocol_decides:
  assumes "protocol c maxd who req cs x (Inr res)" "list_all (answer_ok lib key d quiet) cs"
  shows "\<exists>pr. who = Some pr \<and> (\<exists>sd. stored_decision lib key d pr req = Inr sd \<and> ar_decision res = decision_of sd)"
  using assms(1)
proof (cases rule: protocol.cases)
  case (identity_mismatch pr)
  with denied_returns [OF identity_mismatch(4)] show ?thesis by (simp add: stored_defs)
next
  case (policy_denies pr ps cs')
  with denied_returns [OF policy_denies(6)] assms(2) show ?thesis by (simp add: stored_defs)
next
  case (target_refused pr ps found reason cs')
  with denied_returns [OF target_refused(7)] assms(2) show ?thesis
    by (auto simp: stored_defs target_refusal_def split: option.splits if_splits)
next
  case (account_refused pr ps t configured reason cs')
  with denied_returns [OF account_refused(8)] assms(2) show ?thesis
    by (auto simp: stored_defs account_refusal_def split: option.splits if_splits)
next
  case (resolved pr ps t a v cs')
  from resolved(7) show ?thesis
  proof (cases rule: after_resolve.cases)
    case no_credential
    with denied_returns [OF no_credential(3)] resolved assms(2) show ?thesis
      by (simp add: stored_defs account_refusal_None)
  next
    case (session_created i dt k x')
    have "ar_decision res = decide ps" 
      using session_run_returns [OF session_created(4,3)] by simp
    with session_created resolved assms(2) show ?thesis by (simp add: stored_defs account_refusal_None)
  qed
qed

lemma wired_answers:
  fixes X :: "('v, 'k) outside"
  assumes "hmac_sized (o_hmac X)" "separate_audit (app_settings app)" "serves (app_settings app) d (st_host w)"
    "key_of (st_host w) (rs_audit_key (app_settings app)) = Some key"
    "trail_stored (o_hmac X) (rs_audit_db (app_settings app)) key fs (st_host w)"
    "handle (application_ports X app) maxd who req (initial_state w) = (r, s')"
  shows "list_all (answer_ok (o_aead X) (app_vault_key app) d False) (trace s')"
proof -
  have "answered X app key fs d False w ([] :: unit obs list)"
    using assms(1-5) by (auto simp: answered_def Let_def trail_kept_def trail_of_def trail_stored_def separate_audit_def)
  from stores.handle_invariant [OF assms(6) this] show ?thesis by (simp add: answered_def Let_def)
qed

text \<open>
  C2. The stored rows decide. Whatever the host, the network and the user do, a result that the
  wired service returns has the decision that \<open>stored_decision\<close> computes from the rows of the
  databases, and it asks the broker only for the session that \<open>stored_decision\<close> grants: with that
  target, that account and the secret that the Vault keeps for it. A refusal of any kind (another
  identity, no policy or one that does not allow, a target or account that is missing, disabled or
  of another target) therefore never reaches the server.
\<close>

theorem decision_from_stores:
  fixes X :: "('v, 'k) outside"
  assumes "hmac_sized (o_hmac X)" "separate_audit (app_settings app)" "serves (app_settings app) d (st_host w)"
    "key_of (st_host w) (rs_audit_key (app_settings app)) = Some key"
    "trail_stored (o_hmac X) (rs_audit_db (app_settings app)) key fs (st_host w)"
    "handle (application_ports X app) maxd who req (initial_state w) = (r, s')"
  shows "(\<forall>res. r = Inr res \<longrightarrow> (\<exists>pr sd. who = Some pr
        \<and> stored_decision (o_aead X) (app_vault_key app) d pr req = Inr sd \<and> ar_decision res = decision_of sd))
    \<and> (\<forall>t a k q. OpenSession t a k q \<in> set (trace s') \<longrightarrow> (\<exists>pr x. who = Some pr
        \<and> stored_decision (o_aead X) (app_vault_key app) d pr req = Inr (Granted x t a k)))"
proof -
  have ok: "list_all (answer_ok (o_aead X) (app_vault_key app) d False) (steps (trace s'))"
    using wired_answers [OF assms] set_steps by (auto simp: list_all_iff)
  note run = handle_protocol [OF assms(6)]
  have "\<exists>pr x. who = Some pr \<and> stored_decision (o_aead X) (app_vault_key app) d pr req = Inr (Granted x t a k)"
    if "OpenSession t a k q \<in> set (trace s')" for t a k q
  proof -
    from that have "OpenSession t a k q \<in> set (steps (trace s'))" by (simp add: in_steps [symmetric])
    then obtain pr ps cs where c: "who = Some pr" "pr_user_id pr = req_user_id req" "dec_effect (decide ps) = ALLOW"
      "tgt_enabled t" "acc_enabled a" "acc_target_id a = tgt_id t"
      "steps (trace s') = [FindMatching (req_user_id req) (req_target_id req) (req_action req) (Inr ps),
         GetTarget (req_target_id req) (Inr (Some t)), FindForTarget (tgt_id t) (Inr (Some a)),
         Resolve (acc_credential_ref a) (Inr (Some k))] @ cs"
      using opened_lookups [OF run] by blast
    with ok show ?thesis by (auto simp: stored_defs)
  qed
  moreover have "\<exists>pr sd. who = Some pr \<and> stored_decision (o_aead X) (app_vault_key app) d pr req = Inr sd
      \<and> ar_decision res = decision_of sd" if "r = Inr res" for res
    using protocol_decides [OF run [unfolded that] ok] by blast
  ultimately show ?thesis by blast
qed

end
