(* ===== verification/Versions.thy ===== *)
theory Versions
  imports Lab
begin

text \<open>
  The schema version (\<open>PRAGMA user_version\<close>) of a database file: only the initializers set it, and
  every statement and every store operation keeps it. A provisioned lab therefore has the versions
  that the repositories expect when the application starts on it.
\<close>

section \<open>Operations that keep a relation\<close>

definition steps_in :: "('s \<Rightarrow> 's \<Rightarrow> bool) \<Rightarrow> ('s, 'a) io \<Rightarrow> bool" where
  "steps_in R m \<longleftrightarrow> (\<forall>s. R s (snd (m s)))"

text \<open>Code composed of steps of a preorder is a step of it.\<close>

locale preorder_steps =
  fixes R :: "'s \<Rightarrow> 's \<Rightarrow> bool"
  assumes refl: "R s s" and trans: "R s t \<Longrightarrow> R t u \<Longrightarrow> R s u"
begin

lemma pure: "steps_in R (ret x)" "steps_in R (raise e)" "steps_in R (lift r)"
  by (simp_all add: steps_in_def refl)

lemma bound:
  assumes "steps_in R m" "\<And>x. steps_in R (f x)"
  shows "steps_in R (bind m f)"
  unfolding steps_in_def
proof
  fix s
  obtain r t where m: "m s = (r, t)" by fastforce
  with assms(1) have "R s t" unfolding steps_in_def by (metis snd_conv)
  moreover have "R t (snd (f x t))" for x using assms(2) by (simp add: steps_in_def)
  ultimately show "R s (snd (bind m f s))" using m trans by (cases r) (auto simp: bind_apply)
qed

lemma sequence: "steps_in R m \<Longrightarrow> steps_in R k \<Longrightarrow> steps_in R (seq m k)"
  unfolding seq_def by (rule bound)

lemma tried:
  assumes "steps_in R m" "\<And>e. steps_in R (h e)"
  shows "steps_in R (try_except m p h)"
  unfolding steps_in_def
proof
  fix s
  obtain r t where m: "m s = (r, t)" by fastforce
  with assms(1) have "R s t" unfolding steps_in_def by (metis snd_conv)
  moreover have "R t (snd (h e t))" for e using assms(2) by (simp add: steps_in_def)
  ultimately show "R s (snd (try_except m p h s))" using m trans by (cases r) (auto simp: try_except_def)
qed

lemmas composed = pure bound sequence tried

end

section \<open>Versions\<close>

definition same_version :: "conn \<Rightarrow> conn \<Rightarrow> bool" where
  "same_version c c' \<longleftrightarrow> db_version (c_db c') = db_version (c_db c)"

definition version_at :: "dbhost \<Rightarrow> path \<Rightarrow> int option" where
  "version_at h p = map_option db_version (db_at h p)"

definition keeps_versions :: "dbhost \<Rightarrow> dbhost \<Rightarrow> bool" where
  "keeps_versions h h' \<longleftrightarrow> (\<forall>p v. version_at h p = Some v \<longrightarrow> version_at h' p = Some v)"

interpretation on_conn: preorder_steps same_version
  by unfold_locales (simp_all add: same_version_def)

interpretation on_files: preorder_steps keeps_versions
  by unfold_locales (simp_all add: keeps_versions_def)

text \<open>The statements\<close>

lemma execute_version:
  assumes "\<And>db. db_version (snd (f db)) = db_version db"
  shows "steps_in same_version (execute f)"
  using assms
  by (auto simp: steps_in_def same_version_def execute_def split: list.splits bool.splits prod.splits)
    (metis snd_conv)+

lemma with_table_version: "steps_in same_version (with_table n cols f)"
  unfolding with_table_def by (rule execute_version) (auto split: option.splits prod.splits)

lemma insert_version: "steps_in same_version (insert_into n cols vals)"
  unfolding insert_into_def by (intro on_conn.composed with_table_version)

lemma commit_version: "steps_in same_version commit"
  unfolding commit_def by (rule execute_version) simp

text \<open>A connection writes back to the file it read.\<close>

lemma with_db_version:
  assumes "steps_in same_version m"
  shows "steps_in keeps_versions (with_db keep p m)"
  unfolding steps_in_def keeps_versions_def
proof (intro allI impI)
  fix h q v
  assume v: "version_at h q = Some v"
  obtain r h1 where o: "open_db p h = (r, h1)" by fastforce
  have v1: "version_at h1 q = Some v"
    using o v by (auto simp: open_db_def faultable_def version_at_def db_at_def put_node_def
        split: list.splits bool.splits sum.splits option.splits node.splits if_splits)
  show "version_at (snd (with_db keep p m h)) q = Some v"
  proof (cases r)
    case (Inl e)
    with o v1 show ?thesis by (simp add: with_db_def bind_apply)
  next
    case (Inr x)
    obtain a d where x: "x = (a, d)" by (cases x)
    have d: "h_files h1 a = Some (Regular k c) \<Longrightarrow> load_content c = Inr d" for k c
      using o Inr x by (auto simp: open_db_def faultable_def put_node_def empty_db_def
          split: list.splits bool.splits sum.splits option.splits node.splits if_splits)
    obtain r2 c2 where m: "m \<lparr>c_db = d, c_faults = h_faults h1\<rparr> = (r2, c2)" by fastforce
    with assms have "db_version (c_db c2) = db_version d"
      by (metis conn.select_convs(1) same_version_def snd_conv steps_in_def)
    with d v1 have "version_at (save_db a (c_db c2) h1\<lparr>h_faults := fs\<rparr>) q = Some v" for fs
      by (auto simp: version_at_def db_at_def save_db_def put_node_def split: option.splits node.splits)
    with v1 o Inr x m show ?thesis
      by (auto simp: with_db_def bind_apply version_at_def db_at_def split: sum.splits)
  qed
qed

lemma transaction_version: "steps_in same_version m \<Longrightarrow> steps_in keeps_versions (transaction p m)"
  unfolding transaction_def by (intro with_db_version on_conn.composed commit_version)

text \<open>Operations that leave the files alone\<close>

lemma quiet_version: "(\<And>h. h_files (snd (m h)) = h_files h) \<Longrightarrow> steps_in keeps_versions m"
  by (simp add: steps_in_def keeps_versions_def version_at_def db_at_def)

section \<open>The stores\<close>

lemma store_row_version: "steps_in keeps_versions (store_row dup failed p n cols vals)"
  unfolding store_row_def
  by (intro on_files.composed transaction_version insert_version) (auto intro: on_files.pure)

lemma create_user_version:
  assumes "quiet_hasher hasher"
  shows "steps_in keeps_versions (create_user p hasher x pw)"
proof -
  have "steps_in keeps_versions (a_hash hasher w)" for w
    by (rule quiet_version) (use assms in \<open>simp add: quiet_hasher_def\<close>)
  then show ?thesis
    unfolding create_user_def hash_password_def
    by (intro on_files.composed) (auto simp: user_store_hash_def user_insert_def
        intro!: on_files.composed transaction_version insert_version)
qed

lemma vault_store_version: "steps_in keeps_versions (vault_store p lib key ref x)"
proof -
  have "steps_in keeps_versions (token_bytes n)" for n
    by (rule quiet_version) (auto simp: token_bytes_def)
  then show ?thesis
    unfolding vault_store_def cipher_encrypt_def vault_insert_def
    by (intro on_files.composed transaction_version insert_version) (auto intro: on_files.pure)
qed

lemma store_records_version:
  assumes "quiet_hasher hasher"
  shows "steps_in keeps_versions (store_records hasher cipher key paths x pw tp)"
  unfolding store_records_def target_store_def account_store_def policy_store_def
  by (intro on_files.composed create_user_version [OF assms] store_row_version vault_store_version)

section \<open>The versions of a provisioned lab\<close>

lemma init_versioned_version:
  assumes "init_versioned cls unsupported failed n validate create' p h = (Inr u, h')"
    "validates validate unsupported P" "creates n t v create'"
    "base_class SqliteError \<noteq> Some cls" "cls \<noteq> SqliteError"
    "cls \<noteq> DatabasePermissionError" "base_class DatabasePermissionError \<noteq> Some cls"
    "catches cls unsupported" "\<And>d d'. P d d' \<Longrightarrow> db_version d' = v"
  shows "version_at h' p = Some v"
  using init_versioned_run [OF assms(1-8)] assms(9) by (auto simp: version_at_def split: if_splits)

lemma stores_versions:
  "user_init p h = (Inr u, h') \<Longrightarrow> version_at h' p = Some 1"
  "vault_init p h = (Inr u, h') \<Longrightarrow> version_at h' p = Some 1"
  unfolding user_init_def vault_init_def
  by (erule init_versioned_version [OF _ user_validates
        creates_table [of users_table "create user_schema user_unique" 1, folded user_create_schema_def]];
      auto simp: unsupported_users_def)
    (erule init_versioned_version [OF _ vault_validates
        creates_table [of vault_table "create vault_schema [[lit ''id'']]" 1, folded vault_create_schema_def]];
      auto simp: unsupported_vault_def)

lemma created_version:
  assumes "creator [(p, n, t)] m" "m h = (r, h')" "q \<noteq> p"
  shows "version_at h' q = version_at h q"
proof -
  from assms(1,2) have "created [(p, n, t)] h r h'" unfolding creator_def by blast
  from createdD(1) [OF this, of q] assms(3) show ?thesis by (simp add: version_at_def db_at_def)
qed

lemma init_databases_versions:
  assumes "init_databases paths h = (Inr u, h')"
    "distinct [lp_auth_db paths, lp_config_db paths, lp_vault_db paths]"
  shows "version_at h' (lp_auth_db paths) = Some 1 \<and> version_at h' (lp_vault_db paths) = Some 1"
proof -
  let ?a = "lp_auth_db paths" and ?c = "lp_config_db paths"
  let ?inits = "seq (user_init ?a) (seq (target_init ?c) (seq (account_init ?c) (seq (policy_init ?c)
      (vault_init (lp_vault_db paths)))))"
  obtain q h5 where q: "?inits (h\<lparr>h_umask := 0x3F\<rparr>) = (q, h5)" by fastforce
  have h': "h' = h5\<lparr>h_umask := h_umask h\<rparr>" "q = Inr ()"
    using assms(1) q by (cases q; auto simp: init_databases_def with_owner_only_umask_def Let_def
        try_except_def try_finally_def finally_with_def bind_apply split: if_splits)+
  from q [unfolded h'(2)] obtain h1 h2 h3 h4 where r: "user_init ?a (h\<lparr>h_umask := 0x3F\<rparr>) = (Inr (), h1)"
    "target_init ?c h1 = (Inr (), h2)" "account_init ?c h2 = (Inr (), h3)" "policy_init ?c h3 = (Inr (), h4)"
    "vault_init (lp_vault_db paths) h4 = (Inr (), h5)"
    by (auto simp: seq_eq_iff)
  have "version_at h5 ?a = Some 1"
    using created_version [OF stores_created(5) r(5), of ?a] created_version [OF stores_created(4) r(4), of ?a]
      created_version [OF stores_created(3) r(3), of ?a] created_version [OF stores_created(2) r(2), of ?a]
      stores_versions(1) [OF r(1)] assms(2) by simp
  with stores_versions(2) [OF r(5)] show ?thesis by (simp add: h'(1) version_at_def db_at_def)
qed

lemma provisioned_versions:
  assumes "provision_lab hasher cipher reader config h = (Inr paths, h')" "quiet_hasher hasher"
  shows "version_at h' (lp_auth_db paths) = Some 1 \<and> version_at h' (lp_vault_db paths) = Some 1"
proof -
  from assms(1) obtain x key pam tp h1 h2 where r: "init_databases paths h1 = (Inr (), h2)"
    "store_records hasher cipher key paths x pam tp h2 = (Inr (), h')" "paths = paths_within (lc_runtime_dir config)"
    by (auto simp: provision_lab_def Let_def bind_eq_iff seq_eq_iff)
  have "distinct [lp_auth_db paths, lp_config_db paths, lp_vault_db paths]"
    unfolding r(3) by (rule lab_paths_distinct(2))
  moreover have "keeps_versions h2 h'"
    using store_records_version [OF assms(2)] r(2) unfolding steps_in_def by (metis snd_conv)
  ultimately show ?thesis using init_databases_versions [OF r(1)] by (simp add: keeps_versions_def)
qed

end
