(* ===== verification/Lab_Access.thy ===== *)
theory Lab_Access
  imports Versions Program_Works
begin

text \<open>
  The two programs together: what the provisioning tool has written is what the access command
  needs, so that on a provisioned lab the user who was entered opens a session to the target that
  was entered, with the password that was entered for its account.
\<close>

section \<open>The runtime that the tool leaves\<close>

lemma lab_settings:
  assumes "runtime_settings_of dir secs = Inr st"
  shows "rs_vault_key st = lp_vault_key (paths_within dir)" "rs_audit_key st = lp_audit_key (paths_within dir)"
    "rs_auth_db st = lp_auth_db (paths_within dir)" "rs_config_db st = lp_config_db (paths_within dir)"
    "rs_vault_db st = lp_vault_db (paths_within dir)" "rs_audit_db st = lp_audit_db (paths_within dir)"
  using runtime_settings_paths [OF assms] by (simp_all add: runtime_file_def paths_within_def)

lemma stored_quiet:
  assumes "h_files h p = Some (Regular 0x180 c)" "table_at h p n = Some t" "h_faults h = []"
  obtains d where "quiet_db h p d" "db_at h p = Some d" "map_of (db_tables d) n = Some t"
proof -
  from assms(2) obtain d where d: "db_at h p = Some d" "map_of (db_tables d) n = Some t"
    by (auto simp: table_at_def split: option.splits)
  with assms(1) have "load_content c = Inr d" by (auto simp: db_at_Some)
  with d(2) have "c = Db d" by (cases c) (auto simp: empty_db_def split: if_splits)
  with assms d that show thesis by (simp add: quiet_db_def)
qed

lemma lab_stores_exist:
  assumes "\<forall>p \<in> store_databases paths. \<exists>c. h_files h p = Some (Regular 0x180 c)" "h_faults h = []"
    "user_rows (lp_auth_db paths) h users" "target_rows (lp_config_db paths) h targets"
    "account_rows (lp_config_db paths) h accounts" "policy_rows (lp_config_db paths) h policies"
    "vault_rows (lp_vault_db paths) h vault"
    "version_at h (lp_auth_db paths) = Some 1" "version_at h (lp_vault_db paths) = Some 1"
    "rs_auth_db st = lp_auth_db paths" "rs_config_db st = lp_config_db paths" "rs_vault_db st = lp_vault_db paths"
  shows "stores_exist st h"
proof -
  have regular: "\<exists>c. h_files h (lp_auth_db paths) = Some (Regular 0x180 c)"
    "\<exists>c. h_files h (lp_config_db paths) = Some (Regular 0x180 c)"
    "\<exists>c. h_files h (lp_vault_db paths) = Some (Regular 0x180 c)"
    using assms(1) by (simp_all add: store_databases_def)
  note tables = assms(3-7) [unfolded table_rows_def, THEN conjunct1]
  from regular(1) obtain ca where fa: "h_files h (lp_auth_db paths) = Some (Regular 0x180 ca)" ..
  from regular(2) obtain cc where fc: "h_files h (lp_config_db paths) = Some (Regular 0x180 cc)" ..
  from regular(3) obtain cv where fv: "h_files h (lp_vault_db paths) = Some (Regular 0x180 cv)" ..
  obtain da where a: "quiet_db h (lp_auth_db paths) da" "db_at h (lp_auth_db paths) = Some da"
    "map_of (db_tables da) users_table = Some (made user_schema user_unique users)"
    by (rule stored_quiet [OF fa tables(1) assms(2)])
  obtain dv where v: "quiet_db h (lp_vault_db paths) dv" "db_at h (lp_vault_db paths) = Some dv"
    "map_of (db_tables dv) vault_table = Some (made vault_schema [[lit ''id'']] vault)"
    by (rule stored_quiet [OF fv tables(5) assms(2)])
  obtain dc where c: "quiet_db h (lp_config_db paths) dc" "db_at h (lp_config_db paths) = Some dc"
    "map_of (db_tables dc) targets_table = Some (made target_schema [[lit ''id'']] targets)"
    by (rule stored_quiet [OF fc tables(2) assms(2)])
  have c3: "map_of (db_tables dc) accounts_table = Some (made account_schema [[lit ''id'']] accounts)"
    "map_of (db_tables dc) policies_table = Some (made policy_schema [[lit ''id'']] policies)"
    using tables(3,4) c(2) by (simp_all add: table_at_def)
  have ver: "db_version da = 1" "db_version dv = 1"
    using assms(8,9) a(2) v(2) by (simp_all add: version_at_def)
  show ?thesis
    unfolding stores_exist_def assms(10-12)
    by (intro conjI) (use v(1,3) ver(2) in blast, use c(1,3) c3 in blast, use a(1,3) ver(1) in blast)
qed

lemma lab_grants:
  assumes "lab_data hasher cipher key paths x pam tp h" "build_records config = Inr x"
  shows "grants (usr_id (lr_user x)) (tgt_id (lr_target x)) [lr_policy x] (lr_target x) (lr_account x)"
proof -
  note d = assms(1) [unfolded lab_data_def] and b = built_records [OF assms(2)]
  from d obtain eh where "user_ok (lr_user x)" "bind_values (user_row (lr_user x) eh) = Inr ()" by blast
  then have "\<not> blank (usr_id (lr_user x))" "list_all encodable (usr_id (lr_user x))"
    by (simp_all add: user_ok_def user_row_def)
  moreover from d have "target_ok (lr_target x)" "bind_values (target_row (lr_target x)) = Inr ()" "account_ok (lr_account x)"
    by blast+
  then have "\<not> blank (tgt_id (lr_target x))" "list_all encodable (tgt_id (lr_target x))" "\<not> blank (acc_id (lr_account x))"
    by (simp_all add: target_ok_def target_row_def account_ok_def)
  moreover from d obtain vals where "policy_serialize (lr_policy x) = Inr vals" "bind_values vals = Inr ()" by blast
  then have "list_all encodable (pol_id (lr_policy x))"
    by (auto simp: policy_serialize_Inr)
  ultimately show ?thesis using b by (simp add: grants_def)
qed

text \<open>Argon2 that leaves the host alone and accepts what it hashed; a reader of what is entries\<close>

definition honest_argon2 :: "dbhost argon2 \<Rightarrow> bool" where
  "honest_argon2 lib \<longleftrightarrow> (\<forall>pw g. \<exists>eh. a_hash lib pw g = (Inr eh, g) \<and> (\<forall>i. a_verify lib eh pw i = (Inr True, i)))"

definition typing :: "(string \<Rightarrow> pystr) \<Rightarrow> string \<Rightarrow> (dbhost, pystr) io" where
  "typing entries prompt = ret (entries prompt)"

lemma honest_quiet: "honest_argon2 lib \<Longrightarrow> quiet_hasher lib" "quiet_reader (typing entries)"
  by (metis honest_argon2_def quiet_hasher_def snd_conv) (simp add: quiet_reader_def typing_def)

text \<open>Everything the access command needs\<close>

lemma lab_ready_for_access:
  fixes X :: "('v, 'k) outside"
  assumes "provision_lab (o_argon2 X) (o_aead X) (typing entries) config h0 = (Inr paths, h1)"
    "honest_argon2 (o_argon2 X)" "aead_correct (o_aead X)"
    "h_files h0 (lp_audit_db (paths_within (lc_runtime_dir config))) = None"
    "build_records config = Inr x" "utf8_encode (entries ''Target pamadmin SSH password: '') = Inr secret"
    "runtime_settings_of (lc_runtime_dir config) secs = Inr st" "h_files h = h_files h1" "h_faults h = []"
  obtains users d u key vault_key where "runtime_ready (lc_runtime_dir config) st h"
    "runtime_holds (lc_runtime_dir config) users d key h"
    "trail_begun hmac (runtime_file (lc_runtime_dir config) ''audit.db'') key [] h"
    "key_of h (runtime_file (lc_runtime_dir config) ''vault.key'') = Some vault_key"
    "access_ready X users d vault_key (lc_username config) (entries ''PAM application user password: '')
       (lc_target_id config) u [lr_policy x] (lr_target x) (lr_account x) \<lparr>bc_value = secret\<rparr>"
proof -
  let ?dir = "lc_runtime_dir config"
  note quiet = honest_quiet(1) [OF assms(2)] honest_quiet(2)
  from provision_lab_run [OF assms(1) quiet] have p: "paths = paths_within ?dir" "lab_step ?dir h0 h1"
    "provisioned (o_argon2 X) (o_aead X) (typing entries) config h0 h1" by simp_all
  from p(3) [unfolded provisioned_def Let_def] assms(5) p(1) obtain vkey akey pam tp g g' i i' where
    f: "h_files h1 ?dir = Some (Directory 0x1C0)"
      "\<forall>p \<in> store_databases paths. \<exists>c. h_files h1 p = Some (Regular 0x180 c)"
    and k: "key_of h1 (lp_vault_key paths) = Some vkey" "length vkey = 32" "key_of h1 (lp_audit_key paths) = Some akey"
    and w: "typing entries ''PAM application user password: '' g = (Inr pam, g')"
      "typing entries ''Target pamadmin SSH password: '' i = (Inr tp, i')"
    and data: "lab_data (o_argon2 X) (o_aead X) vkey paths x pam tp h1" by auto
  from w have entries: "pam = entries ''PAM application user password: ''" "tp = entries ''Target pamadmin SSH password: ''"
    by (simp_all add: typing_def)
  note b = built_records [OF assms(5)] and st = lab_settings [OF assms(7), folded p(1)]
  obtain j j' eh users policies targets accounts vault secret' where d: "a_hash (o_argon2 X) pam j = (Inr eh, j')"
    "user_rows (lp_auth_db paths) h1 users"
    "user_of users (usr_username (lr_user x)) = Inr (Some \<lparr>sua_user = lr_user x, sua_password_hash = eh\<rparr>)"
    "target_rows (lp_config_db paths) h1 targets" "target_of targets (tgt_id (lr_target x)) = Inr (Some (lr_target x))"
    "account_rows (lp_config_db paths) h1 accounts" "account_of accounts (tgt_id (lr_target x)) = Inr (Some (lr_account x))"
    "policy_rows (lp_config_db paths) h1 policies"
    "policies_of policies (usr_id (lr_user x), tgt_id (lr_target x), OPEN_PRIVILEGED_SESSION) = Inr [lr_policy x]"
    "vault_rows (lp_vault_db paths) h1 vault" "utf8_encode tp = Inr secret'"
    "aead_correct (o_aead X) \<and> length vkey = 32 \<longrightarrow>
       (\<exists>s. secret_of vault (acc_credential_ref (lr_account x)) = Inr s \<and> cipher_decrypt (o_aead X) vkey s = Inr secret')"
    by (rule lab_data_rows [OF data b(1,2)])
  note tables = d(2,4,6,8,10) [folded same_tables_rows [OF assms(8)]]
  let ?d = "\<lparr>sr_policies = policies, sr_targets = targets, sr_accounts = accounts, sr_vault = vault\<rparr>"
  let ?u = "\<lparr>sua_user = lr_user x, sua_password_hash = eh\<rparr>"
  have key: "key_of h q = key_of h1 q" for q using assms(8) by (simp add: key_of_def)
  have "version_at h1 (lp_auth_db paths) = Some 1 \<and> version_at h1 (lp_vault_db paths) = Some 1"
    by (rule provisioned_versions [OF assms(1) quiet(1)])
  then have "stores_exist st h"
    using f(2) assms(8,9) tables st
    by (intro lab_stores_exist [of paths h users targets accounts policies vault]) (simp_all add: version_at_def db_at_def)
  moreover have none: "h_files h (rs_audit_db st) = None"
    using lab_audit_absent [OF p(2) assms(4)] assms(8) by (simp add: st p(1))
  moreover have "parent_ok h (rs_audit_db st)"
    using f(1) assms(8) by (simp add: st p(1) parent_ok_def paths_within_def)
  moreover have "fst (runtime_is_provisioned ?dir h) = Inr True \<and> startable h st"
    by (rule provisioned_lab_starts [OF assms(1) quiet assms(4,8,9,7)])
  ultimately have "runtime_ready ?dir st h"
    using assms(9) f(1) assms(8)
    by (auto simp: runtime_ready_def base_db_def runtime_is_provisioned_def try_except_def os_call_def faultable_def)
  moreover have "runtime_holds ?dir users ?d akey h"
    using tables k(3) key by (simp add: runtime_holds_def p(1) paths_within_def runtime_file_def)
  moreover have "trail_begun hmac (runtime_file ?dir ''audit.db'') akey [] h"
    using none by (simp add: trail_begun_def table_at_def db_at_def st p(1) paths_within_def runtime_file_def)
  moreover have "key_of h (runtime_file ?dir ''vault.key'') = Some vkey"
    using k(1) key by (simp add: p(1) paths_within_def runtime_file_def)
  moreover have "access_ready X users ?d vkey (lc_username config) (entries ''PAM application user password: '')
       (lc_target_id config) ?u [lr_policy x] (lr_target x) (lr_account x) \<lparr>bc_value = secret\<rparr>"
  proof -
    obtain eh2 where e: "a_hash (o_argon2 X) pam j = (Inr eh2, j)" "\<forall>i. a_verify (o_argon2 X) eh2 pam i = (Inr True, i)"
      using assms(2) unfolding honest_argon2_def by blast
    with d(1) have v: "\<forall>i. a_verify (o_argon2 X) eh pam i = (Inr True, i)" by simp
    have hash: "\<forall>pw g. \<exists>y. a_hash (o_argon2 X) pw g = (Inr y, g)" using assms(2) unfolding honest_argon2_def by blast
    have "credential_of (o_aead X) vkey vault (acc_credential_ref (lr_account x)) = Inr (Some \<lparr>bc_value = secret\<rparr>)"
      using d(11,12) assms(3,6) k(2) entries(2) by (auto simp: credential_of_def)
    moreover have "\<not> blank (usr_username (lr_user x))"
      using data by (auto simp: lab_data_def user_ok_def)
    ultimately show ?thesis
      using v hash d b lab_grants [OF data assms(5)] entries(1) by (simp add: access_ready_def)
  qed
  ultimately show thesis by (rule that)
qed

text \<open>
  C3. Provision, then access. On every lab that the provisioning tool reports as provisioned, with
  nothing in the place of the audit database, the access command of the user of the configuration
  for its target exits with 0 when the user types the password that was entered for him and the
  server accepts the password that was entered for its account: the tool writes everything the
  command needs, in the form in which it needs it.
\<close>

theorem provisioned_lab_opens:
  fixes X :: "('v, 'k) outside" and s :: "(('a, ('v, 'k) site) console, application cli_obs) tstate"
  assumes "provision_lab (o_argon2 X) (o_aead X) (typing entries) config h0 = (Inr paths, h1)"
    "honest_argon2 (o_argon2 X)" "aead_correct (o_aead X)" "hmac_sized (o_hmac X)"
    "h_files h0 (lp_audit_db (paths_within (lc_runtime_dir config))) = None"
    "build_records config = Inr x" "utf8_encode (entries ''Target pamadmin SSH password: '') = Inr secret"
    "runtime_settings_of (lc_runtime_dir config) secs = Inr st"
    "h = st_host (console_world (world s))" "h_files h = h_files h1" "h_faults h = []" "entropy_ready [] h"
    "outside_ready X (entries ''PAM application user password: '') (lr_target x) (lr_account x) \<lparr>bc_value = secret\<rparr>
       (rs_max_session st) R (st_ssh (console_world (world s)))"
    "tty_attrs (world s) 0 = Some attrs" "tty_faults (world s) = []"
  shows "\<exists>s'. pam_main raw X (AccessTarget (lc_runtime_dir config) (lc_username config) (lc_target_id config) secs) s
    = (Inr 0, s')"
proof -
  obtain users d u key vault_key where ready: "runtime_ready (lc_runtime_dir config) st h"
    "runtime_holds (lc_runtime_dir config) users d key h"
    "trail_begun (o_hmac X) (runtime_file (lc_runtime_dir config) ''audit.db'') key [] h"
    "key_of h (runtime_file (lc_runtime_dir config) ''vault.key'') = Some vault_key"
    "access_ready X users d vault_key (lc_username config) (entries ''PAM application user password: '')
       (lc_target_id config) u [lr_policy x] (lr_target x) (lr_account x) \<lparr>bc_value = secret\<rparr>"
    by (rule lab_ready_for_access [OF assms(1-3,5-8,10,11)])
  show ?thesis by (rule ready_access_run [OF assms(4,8,9) ready(1-3) assms(12) ready(4,5) assms(13-15)])
qed

end
