(* ===== verification/Program_Lab.thy ===== *)
theory Program_Lab
  imports Program_Works Service_Decision Lab_Access Lab_Run
begin

text \<open>
  A concrete runtime directory, server and terminal on which the access command runs to its end: the
  hypotheses of the properties of the program hold together.
\<close>

section \<open>The outside\<close>

definition accepting_world :: "(unit, nat) outside" where
  "accepting_world = \<lparr>o_ssh = lab_ssh, o_relay = lab_relay_env, o_sha256 = lab_sha, o_hmac = toy_hmac,
     o_aead = toy_aead, o_argon2 = lab_argon2, o_wall = ret 63902908800000000, o_getpass = ret (lit ''pw'')\<rparr>"

definition relayed_lab :: "(unit, nat) brokered" where
  "relayed_lab = snd (broker_relay accepting_world 60000000 lab_open)"

definition lab_stage :: "nat \<Rightarrow> (unit, nat) brokered \<Rightarrow> bool" where
  "lab_stage n b \<longleftrightarrow> n = 0 \<and> b = lab_broker_start \<or> n = 1 \<and> b = lab_open \<or> n = 2 \<and> b = relayed_lab
     \<or> n = 3 \<and> b = snd (session_close lab_ssh relayed_lab)"

lemma lab_relay_result:
  "broker_relay accepting_world 60000000 lab_open = (Inr (Outcome COMPLETED), relayed_lab)"
  "bs_channel relayed_lab \<noteq> None" "bs_connection relayed_lab \<noteq> None"
proof -
  have "\<exists>st. session_relay lab_ssh lab_relay_env 60000000 lab_open = Some (Inr COMPLETED, st)
      \<and> bs_channel (world st) \<noteq> None \<and> bs_connection (world st) \<noteq> None"
    using lab_open_run(2)
    by (simp add: session_open_def session_relay_def relay_terminal_def session_relay_lib_def perform_def
        in_world_def lab_relay_env_def relay_loop.simps relay_turn_def bind_def channel_is_closed_def
        with_channel_def relay_end_def try_finally_def try_except_def finally_with_def channel_close_def lab_ssh_def)
  then have "\<exists>b. broker_relay accepting_world 60000000 lab_open = (Inr (Outcome COMPLETED), b)
      \<and> bs_channel b \<noteq> None \<and> bs_connection b \<noteq> None"
    by (auto simp: broker_relay_def accepting_world_def)
  then show "broker_relay accepting_world 60000000 lab_open = (Inr (Outcome COMPLETED), relayed_lab)"
    "bs_channel relayed_lab \<noteq> None" "bs_connection relayed_lab \<noteq> None"
    by (auto simp: relayed_lab_def)
qed

lemma lab_close_result: "fst (session_close lab_ssh relayed_lab) = Inr ()"
proof -
  obtain c k where "bs_channel relayed_lab = Some c" "bs_connection relayed_lab = Some k"
    using lab_relay_result(2,3) by blast
  then show ?thesis
    by (simp add: session_close_def try_finally_def finally_with_def channel_close_def connection_close_def
        perform_def lab_ssh_def bind_def seq_def close_resources_def quietly_def try_except_def
        close_transport_def close_socket_def)
qed

lemma unit_world: "(b :: (unit, nat) brokered)\<lparr>world := ()\<rparr> = b"
  by (cases b) simp

lemma lab_accepts:
  "outside_ready accepting_world (lit ''pw'') ssh_target ssh_account \<lparr>bc_value = [0x70]\<rparr> 60000000 lab_stage lab_broker_start"
proof -
  have "remote_accepts accepting_world ssh_target ssh_account \<lparr>bc_value = [0x70]\<rparr> 60000000 lab_stage"
    unfolding remote_accepts_def
  proof (intro conjI allI impI)
    fix b :: "(unit, nat) brokered"
    assume "lab_stage 0 b"
    then show "\<exists>b'. open_session (o_ssh accepting_world) (o_sha256 accepting_world) connect_timeout ssh_target ssh_account
        \<lparr>bc_value = [0x70]\<rparr> b = (Inr (), b') \<and> lab_stage 1 b'"
      using lab_open_run(1) by (simp add: lab_stage_def accepting_world_def connect_timeout_def)
  next
    fix b :: "(unit, nat) brokered"
    assume "lab_stage 1 b"
    then show "\<exists>out b'. broker_relay accepting_world 60000000 b = (Inr (Outcome out), b') \<and> lab_stage 2 b'"
      using lab_relay_result(1) by (simp add: lab_stage_def)
  next
    fix b :: "(unit, nat) brokered"
    assume "lab_stage 2 b"
    then show "\<exists>b'. session_close (o_ssh accepting_world) b = (Inr (), b') \<and> lab_stage 3 b'"
      using lab_close_result by (simp add: lab_stage_def accepting_world_def prod_eq_iff)
  next
    fix n and b :: "(unit, nat) brokered"
    assume "lab_stage n b"
    then show "\<exists>u b'. in_world (o_wall accepting_world) b = (Inr u, b') \<and> 0 \<le> u \<and> u < max_us \<and> lab_stage n b'"
      by (simp add: in_world_def accepting_world_def max_us_def us_per_day_def unit_world)
  qed
  then show ?thesis
    by (simp add: outside_ready_def in_world_def accepting_world_def lab_stage_def unit_world)
qed

section \<open>The runtime directory\<close>

definition lab_dir :: path where
  "lab_dir = [lit ''lab'']"

definition lab_grant :: access_policy where
  "lab_grant = \<lparr>pol_id = lit ''p'', pol_user_id = lit ''u1'', pol_target_id = lit ''t'',
     pol_action = OPEN_PRIVILEGED_SESSION, pol_effect = ALLOW\<rparr>"

definition lab_secret :: encrypted_secret where
  "lab_secret = \<lparr>es_version = 1, es_nonce = replicate 12 3, es_ciphertext = replicate 32 7 @ replicate 12 3 @ [0x70]\<rparr>"

definition lab_users :: "row list" where
  "lab_users = [user_row lab_user lab_hash]"

definition lab_rows :: service_rows where
  "lab_rows = \<lparr>sr_policies = [policy_row lab_grant], sr_targets = [target_row ssh_target],
     sr_accounts = [account_row ssh_account], sr_vault = [vault_row \<lparr>cref_id = lit ''c''\<rparr> lab_secret]\<rparr>"

definition ready_host :: dbhost where
  "ready_host = \<lparr>h_files = [[] \<mapsto> Directory 0x1ED, lab_dir \<mapsto> Directory 0x1C0,
       runtime_file lab_dir ''vault.key'' \<mapsto> Regular 0x180 (Bytes (replicate 32 7)),
       runtime_file lab_dir ''audit.key'' \<mapsto> Regular 0x180 (Bytes (replicate 32 8)),
       runtime_file lab_dir ''auth.db'' \<mapsto> Regular 0x180 (Db \<lparr>db_version = 1,
         db_tables = [(users_table, made user_schema user_unique lab_users)]\<rparr>),
       runtime_file lab_dir ''config.db'' \<mapsto> Regular 0x180 (Db \<lparr>db_version = 0, db_tables =
         [(policies_table, made policy_schema [[lit ''id'']] (sr_policies lab_rows)),
          (targets_table, made target_schema [[lit ''id'']] (sr_targets lab_rows)),
          (accounts_table, made account_schema [[lit ''id'']] (sr_accounts lab_rows))]\<rparr>),
       runtime_file lab_dir ''vault.db'' \<mapsto> Regular 0x180 (Db \<lparr>db_version = 1,
         db_tables = [(vault_table, made vault_schema [[lit ''id'']] (sr_vault lab_rows))]\<rparr>)],
     h_umask = 0x3F, h_entropy = replicate 32 9 @ concat (map (replicate 16) [1, 2, 3, 4, 5, 6]),
     h_faults = [], h_chunks = []\<rparr>"

definition ready_settings :: runtime_settings where
  "ready_settings = \<lparr>rs_auth_db = runtime_file lab_dir ''auth.db'', rs_config_db = runtime_file lab_dir ''config.db'',
     rs_vault_db = runtime_file lab_dir ''vault.db'', rs_audit_db = runtime_file lab_dir ''audit.db'',
     rs_vault_key = runtime_file lab_dir ''vault.key'', rs_audit_key = runtime_file lab_dir ''audit.key'',
     rs_max_session = 60000000\<rparr>"

lemma ready_settings_of: "runtime_settings_of lab_dir (Some 60) = Inr ready_settings"
proof -
  have "timedelta_seconds (Some 60) = Inr 60000000" by code_simp
  then show ?thesis by (simp add: runtime_settings_of_def mk_runtime_settings_def ready_settings_def)
qed

lemmas lab_table_names = policies_table_def targets_table_def accounts_table_def vault_table_def users_table_def

lemma runtime_file_eq [simp]: "runtime_file dir a = runtime_file dir b \<longleftrightarrow> a = b"
  by (simp add: runtime_file_def)

lemma ready_files [simp]:
  "h_files ready_host lab_dir = Some (Directory 0x1C0)"
  "h_files ready_host (runtime_file lab_dir ''vault.key'') = Some (Regular 0x180 (Bytes (replicate 32 7)))"
  "h_files ready_host (runtime_file lab_dir ''audit.key'') = Some (Regular 0x180 (Bytes (replicate 32 8)))"
  "h_files ready_host (runtime_file lab_dir ''auth.db'') = Some (Regular 0x180 (Db \<lparr>db_version = 1,
         db_tables = [(users_table, made user_schema user_unique lab_users)]\<rparr>))"
  "h_files ready_host (runtime_file lab_dir ''config.db'') = Some (Regular 0x180 (Db \<lparr>db_version = 0, db_tables =
         [(policies_table, made policy_schema [[lit ''id'']] (sr_policies lab_rows)),
          (targets_table, made target_schema [[lit ''id'']] (sr_targets lab_rows)),
          (accounts_table, made account_schema [[lit ''id'']] (sr_accounts lab_rows))]\<rparr>))"
  "h_files ready_host (runtime_file lab_dir ''vault.db'') = Some (Regular 0x180 (Db \<lparr>db_version = 1,
         db_tables = [(vault_table, made vault_schema [[lit ''id'']] (sr_vault lab_rows))]\<rparr>))"
  "h_files ready_host (runtime_file lab_dir ''audit.db'') = None" "h_faults ready_host = []"
  by (simp_all add: ready_host_def runtime_file_def lab_dir_def)

lemma ready_runtime: "runtime_ready lab_dir ready_settings ready_host"
proof -
  have ok: "paths_ok ready_host ps" if "distinct ps" "\<forall>p \<in> set ps. \<forall>q. h_files ready_host p \<noteq> Some (Symlink q)" for ps
  proof -
    from that(2) have "mapR (resolve_path ready_host) ps = Inr ps"
      by (induction ps) (simp_all add: resolve_path_def follow_no_link)
    with that(1) show ?thesis by (simp add: paths_ok_def)
  qed
  have "paths_ok ready_host [rs_vault_key ready_settings, rs_audit_key ready_settings]"
    "paths_ok ready_host [rs_auth_db ready_settings, rs_config_db ready_settings, rs_vault_db ready_settings, rs_audit_db ready_settings]"
    by (rule ok; simp add: ready_settings_def)+
  moreover have "replicate 32 7 \<noteq> (replicate 32 8 :: bytes)" by (simp add: replicate_eq_replicate)
  then have "keys_ok ready_host ready_settings"
    by (simp add: keys_ok_def key_of_def ready_settings_def)
  moreover have "stores_exist ready_settings ready_host"
    unfolding stores_exist_def quiet_db_def
    by (simp add: ready_settings_def lab_table_names) blast
  moreover have "base_db ready_host (rs_audit_db ready_settings) empty_db"
    by (simp add: base_db_def ready_settings_def parent_ok_def) (simp add: runtime_file_def)
  moreover have "list_all (\<lambda>n. nonempty_file ready_host (runtime_file lab_dir n)) required_runtime_files"
    by (simp add: required_runtime_files_def nonempty_file_def stat_node_def follow_no_link)
  ultimately show ?thesis by (simp add: runtime_ready_def startable_def)
qed

section \<open>What the stores say\<close>

lemma lab_texts:
  "\<not> blank (lit ''u1'')" "\<not> blank (lit ''alice'')" "\<not> blank (lit ''t'')" "\<not> blank (lit ''a'')" "\<not> blank (lit ''p'')"
  by (simp_all add: blank_iff py_isspace_def lit_def)

lemma ready_holds: "runtime_holds lab_dir lab_users lab_rows (replicate 32 8) ready_host"
  by (simp add: runtime_holds_def table_rows_def table_at_def db_at_def key_of_def lab_table_names lab_users_def
      lab_rows_def user_row_def user_schema_def policy_row_def policy_schema_def target_row_def target_schema_def
      account_row_def account_schema_def vault_row_def vault_schema_def)

lemma lab_fingerprint: "list_all encodable (digest_text (replicate 32 0))"
proof -
  have "set (rstrip_pad (b64encode (replicate 32 0))) \<subseteq> set (b64encode (replicate 32 0))"
    by (auto simp: rstrip_pad_def dest: set_dropWhileD)
  then have "list_all encodable (rstrip_pad (b64encode (replicate 32 0)))"
    using b64encode_ascii [of "replicate 32 0"] by (auto simp: list_all_iff intro!: ascii_encodable)
  then show ?thesis by (simp add: digest_text_def encodable_lit)
qed

lemma lab_policies:
  "policies_of (sr_policies lab_rows) = (policies_of [])((lit ''u1'', lit ''t'', OPEN_PRIVILEGED_SESSION) := Inr [lab_grant])"
proof -
  have "policy_serialize lab_grant = Inr (policy_row lab_grant)"
    by (simp add: policy_serialize_Inr policy_ok_def policy_row_def lab_grant_def lab_texts)
  moreover have "bind_values (policy_row lab_grant) = Inr ()"
    by (simp add: policy_row_def lab_grant_def encodable_lit action_value_def)
  moreover have "policies_of [] (policy_key lab_grant) = Inr []"
    by (simp add: policies_of_def rows_where_def policy_key_def lab_grant_def encodable_lit action_value_def)
  ultimately show ?thesis
    using policies_of_append [of lab_grant "policy_row lab_grant" "[]"]
    by (simp add: lab_rows_def policy_key_def lab_grant_def)
qed

lemma ready_access:
  "access_ready accepting_world lab_users lab_rows (replicate 32 7) (lit ''alice'') (lit ''pw'') (lit ''t'')
     \<lparr>sua_user = lab_user, sua_password_hash = lab_hash\<rparr> [lab_grant] ssh_target ssh_account \<lparr>bc_value = [0x70]\<rparr>"
proof -
  have "user_ok lab_user" "startswith lab_hash argon2_prefix" "bind_values (user_row lab_user lab_hash) = Inr ()"
    "user_of [] (usr_username lab_user) = Inr None"
    by (simp_all add: user_ok_def lab_user_def lab_texts user_row_def encodable_lit user_of_def rows_where_def lab_hash_def)
      (simp add: argon2_prefix_def startswith_def lit_def)
  from user_of_append [OF this]
  have "user_of lab_users (lit ''alice'') = Inr (Some \<lparr>sua_user = lab_user, sua_password_hash = lab_hash\<rparr>)"
    by (simp add: lab_users_def lab_user_def)
  moreover have "policies_of (sr_policies lab_rows) (lit ''u1'', lit ''t'', OPEN_PRIVILEGED_SESSION) = Inr [lab_grant]"
    by (simp add: lab_policies)
  moreover have "target_of (sr_targets lab_rows) (lit ''t'') = Inr (Some ssh_target)"
  proof -
    have "target_ok ssh_target" "bind_values (target_row ssh_target) = Inr ()"
      using lab_fingerprint
      by (simp_all add: target_ok_def ssh_target_def lab_texts target_row_def encodable_lit)
        (simp add: startswith_def digest_text_def blank_iff py_isspace_def lit_def)
    from target_of_append [OF this, of "[]"] show ?thesis by (simp add: lab_rows_def ssh_target_def)
  qed
  moreover have "account_of (sr_accounts lab_rows) (lit ''t'') = Inr (Some ssh_account)"
  proof -
    have "account_ok ssh_account" "bind_values (account_row ssh_account) = Inr ()"
      "account_of [] (acc_target_id ssh_account) = Inr None"
      by (simp_all add: account_ok_def ssh_account_def lab_texts account_row_def encodable_lit account_of_def
          rows_where_def single_account_def)
        (simp_all add: blank_iff py_isspace_def lit_def)
    from account_of_append [OF this] show ?thesis by (simp add: lab_rows_def ssh_account_def)
  qed
  moreover have "credential_of toy_aead (replicate 32 7) (sr_vault lab_rows) \<lparr>cref_id = lit ''c''\<rparr> = Inr (Some \<lparr>bc_value = [0x70]\<rparr>)"
  proof -
    have "secret_ok lab_secret" "bind_values (vault_row \<lparr>cref_id = lit ''c''\<rparr> lab_secret) = Inr ()"
      by (simp_all add: secret_ok_def lab_secret_def vault_row_def encodable_lit)
    from secret_of_append [OF this, of "[]"]
    have "secret_of (sr_vault lab_rows) \<lparr>cref_id = lit ''c''\<rparr> = Inr lab_secret" by (simp add: lab_rows_def)
    moreover have "cipher_decrypt toy_aead (replicate 32 7) lab_secret = Inr [0x70]"
      by (simp add: cipher_decrypt_def cipher_version_def lab_secret_def toy_aead_def)
    ultimately show ?thesis by (simp add: credential_of_def)
  qed
  moreover have "grants (lit ''u1'') (lit ''t'') [lab_grant] ssh_target ssh_account"
    by (simp add: grants_def lab_texts encodable_lit ssh_target_def ssh_account_def lab_grant_def)
  ultimately show ?thesis
    by (simp add: access_ready_def accepting_world_def lab_argon2_def lab_texts lab_user_def ssh_target_def ssh_account_def)
qed

lemma ready_entropy: "entropy_ready [] ready_host"
proof -
  have "distinct (uuid_draws 6 (concat (map (replicate 16) [1, 2, 3, 4, 5, 6])))" by code_simp
  then show ?thesis by (simp add: entropy_ready_def ready_host_def)
qed

section \<open>The run\<close>

definition ready_console :: "((nat, (unit, nat) site) console, application cli_obs) tstate" where
  "ready_console = \<lparr>world = \<lparr>tty_shown = (\<lambda>fd. []), tty_input = (\<lambda>fd. []), tty_chunks = [],
     tty_attrs = (\<lambda>fd. if fd = 0 then Some 5 else None), tty_faults = [],
     console_world = \<lparr>st_host = ready_host, st_ssh = lab_broker_start\<rparr>\<rparr>, trace = []\<rparr>"

abbreviation lab_arguments :: parsed where
  "lab_arguments \<equiv> AccessTarget lab_dir (lit ''alice'') (lit ''t'') (Some 60)"

lemma ready_facts:
  "hmac_sized (o_hmac accepting_world)" "ready_host = st_host (console_world (world ready_console))"
  "trail_begun (o_hmac accepting_world) (runtime_file lab_dir ''audit.db'') (replicate 32 8) [] ready_host"
  "key_of ready_host (runtime_file lab_dir ''vault.key'') = Some (replicate 32 7)"
  "outside_ready accepting_world (lit ''pw'') ssh_target ssh_account \<lparr>bc_value = [0x70]\<rparr> (rs_max_session ready_settings)
     lab_stage (st_ssh (console_world (world ready_console)))"
  "tty_attrs (world ready_console) 0 = Some 5" "tty_faults (world ready_console) = []"
  using lab_accepts toy_hmac_sized
  by (simp_all add: accepting_world_def ready_console_def ready_settings_def trail_begun_def table_at_def db_at_def key_of_def)

theorem ready_access_exits_zero_witness:
  "\<exists>s'. pam_main (\<lambda>a. a + 1) accepting_world lab_arguments ready_console = (Inr 0, s')"
  by (rule ready_access_exits_zero [OF ready_facts(1) ready_settings_of ready_facts(2) ready_runtime ready_holds
        ready_facts(3) ready_entropy ready_facts(4) ready_access ready_facts(5-7)])

theorem exit_zero_accounted_witness:
  "\<exists>s' evs rows. pam_main (\<lambda>a. a + 1) accepting_world lab_arguments ready_console = (Inr 0, s')
     \<and> session_events (lit ''u1'') (lit ''t'') evs
     \<and> session_granted toy_aead (replicate 32 7) lab_rows (lit ''u1'') (lit ''t'')
     \<and> audit_rows (runtime_file lab_dir ''audit.db'') (st_host (console_world (world s'))) rows \<and> length rows = 4"
proof -
  obtain s' where r: "pam_main (\<lambda>a. a + 1) accepting_world lab_arguments ready_console = (Inr 0, s')"
    using ready_access_run [OF ready_facts(1) ready_settings_of ready_facts(2) ready_runtime ready_holds
        ready_facts(3) ready_entropy ready_facts(4) ready_access ready_facts(5-7)] by blast
  have f: "files_untouched (o_argon2 accepting_world)"
    by (simp add: files_untouched_def accepting_world_def lab_argon2_def)
  have user: "user_of lab_users (lit ''alice'') = Inr (Some \<lparr>sua_user = lab_user, sua_password_hash = lab_hash\<rparr>)"
    using ready_access by (simp add: access_ready_def)
  note holds = ready_holds [unfolded ready_facts(2)] and begun = ready_facts(3) [unfolded ready_facts(2)]
  from exit_zero_accounted [OF ready_facts(1) f holds begun r] obtain u k evs gs rows where
    e: "user_of lab_users (lit ''alice'') = Inr (Some u)"
      "key_of (st_host (console_world (world ready_console))) (runtime_file lab_dir ''vault.key'') = Some k"
      "session_granted (o_aead accepting_world) k lab_rows (usr_id (sua_user u)) (lit ''t'')"
      "session_events (usr_id (sua_user u)) (lit ''t'') evs" "map audit_serialize evs = map Inr gs"
      "chain (o_hmac accepting_world) (replicate 32 8) 1 genesis_mac ([] @ gs) = Some rows"
      "audit_rows (runtime_file lab_dir ''audit.db'') (st_host (console_world (world s'))) rows" by blast
  from user e(1) have u: "usr_id (sua_user u) = lit ''u1''" by (simp add: lab_user_def)
  have "k = replicate 32 7" "o_aead accepting_world = toy_aead"
    using e(2) ready_facts(4) by (simp_all add: ready_facts(2) accepting_world_def)
  moreover have "length rows = 4"
  proof -
    have "length evs = 4" using e(4) by (auto simp: session_events_def dest: arg_cong [where f = length])
    moreover have "length gs = length evs" using e(5) by (metis length_map)
    ultimately show ?thesis using chain_length [OF e(6)] by simp
  qed
  ultimately show ?thesis using r e(3,4,7) u by (intro exI [of _ s'] exI [of _ evs] exI [of _ rows]) simp
qed

text \<open>The trail of a run that denies: another principal than the one of the request\<close>

definition denying_app :: application where
  "denying_app = \<lparr>app_settings = ready_settings\<lparr>rs_audit_db := [lit ''a''], rs_audit_key := [lit ''k'']\<rparr>,
     app_vault_key = replicate 32 7, app_dummy_hash = [], app_max_session = 60,
     app_terminal = \<lparr>lt_input_fd = 0, lt_output_fd = 1\<rparr>\<rparr>"

theorem audit_trail_of_run_witness:
  "\<exists>r s' gs rows'. handle (application_ports accepting_world denying_app) 60 (Some example_principal)
       (example_request\<lparr>req_user_id := lit ''eve''\<rparr>)
       (initial_state \<lparr>st_host = audit_host\<lparr>h_entropy := replicate 16 4\<rparr>, st_ssh = lab_broker_start\<rparr>) = (r, s')
     \<and> map audit_serialize (recorded (trace s')) = map Inr gs
     \<and> chain toy_hmac (replicate 32 1) 1 genesis_mac gs = Some rows'
     \<and> table_at (st_host (world s')) [lit ''a''] audit_table = Some (made audit_schema audit_unique rows')"
proof -
  let ?w = "\<lparr>st_host = audit_host\<lparr>h_entropy := replicate 16 4\<rparr>, st_ssh = lab_broker_start\<rparr>"
  obtain r s' where r: "handle (application_ports accepting_world denying_app) 60 (Some example_principal)
       (example_request\<lparr>req_user_id := lit ''eve''\<rparr>) (initial_state ?w) = (r, s')" by fastforce
  have k: "key_of (st_host ?w) [lit ''k''] = Some (replicate 32 1)"
    and t: "table_at (st_host ?w) [lit ''a''] audit_table = Some (made audit_schema audit_unique [])"
    by (simp_all add: key_of_def table_at_def db_at_def audit_host_def)
  have d: "[lit ''a''] \<noteq> [lit ''k'']" and p: "[lit ''a''] = rs_audit_db (app_settings denying_app)"
    and q: "[lit ''k''] = rs_audit_key (app_settings denying_app)" and h: "o_hmac accepting_world = toy_hmac"
    by (simp_all add: denying_app_def accepting_world_def)
  have c: "chain (o_hmac accepting_world) (replicate 32 1) 1 genesis_mac [] = Some []" "distinct (map af_id [])"
    by simp_all
  from audit_trail_of_run [OF ready_facts(1) d p q k t c r, unfolded h] obtain gs rows' where
    "map audit_serialize (recorded (trace s')) = map Inr gs"
    "chain toy_hmac (replicate 32 1) 1 genesis_mac ([] @ gs) = Some rows'"
    "table_at (st_host (world s')) [lit ''a''] audit_table = Some (made audit_schema audit_unique rows')" by blast
  with r show ?thesis unfolding append_Nil by blast
qed

text \<open>The stored rows decide: a user for whom no policy is stored\<close>

definition started_host :: dbhost where
  "started_host = ready_host\<lparr>h_files := (h_files ready_host)(runtime_file lab_dir ''audit.db'' \<mapsto>
     Regular 0x180 (Db \<lparr>db_version = 2, db_tables = [(audit_table, made audit_schema audit_unique [])]\<rparr>))\<rparr>"

definition lab_app :: application where
  "lab_app = \<lparr>app_settings = ready_settings, app_vault_key = replicate 32 7, app_dummy_hash = [], app_max_session = 60000000,
     app_terminal = \<lparr>lt_input_fd = 0, lt_output_fd = 1\<rparr>\<rparr>"

lemma started_facts:
  "separate_audit (app_settings lab_app)"
  "serves (app_settings lab_app) lab_rows started_host"
  "key_of started_host (rs_audit_key (app_settings lab_app)) = Some (replicate 32 8)"
  "trail_stored toy_hmac (rs_audit_db (app_settings lab_app)) (replicate 32 8) [] started_host"
proof -
  show "separate_audit (app_settings lab_app)"
    by (simp add: separate_audit_def lab_app_def ready_settings_def)
  show "serves (app_settings lab_app) lab_rows started_host"
    using ready_holds
    by (simp add: serves_def runtime_holds_def table_rows_def table_at_def db_at_def started_host_def
        lab_app_def ready_settings_def)
  show "key_of started_host (rs_audit_key (app_settings lab_app)) = Some (replicate 32 8)"
    by (simp add: key_of_def started_host_def lab_app_def ready_settings_def)
  show "trail_stored toy_hmac (rs_audit_db (app_settings lab_app)) (replicate 32 8) [] started_host"
    by (simp add: trail_stored_def table_rows_def table_at_def db_at_def started_host_def lab_app_def ready_settings_def)
qed

abbreviation stranger :: authenticated_principal where
  "stranger \<equiv> \<lparr>pr_user_id = lit ''u9'', pr_username = lit ''n''\<rparr>"

abbreviation strange_request :: access_request where
  "strange_request \<equiv> \<lparr>req_id = lit ''r'', req_user_id = lit ''u9'', req_target_id = lit ''t'',
     req_action = OPEN_PRIVILEGED_SESSION, req_requested_at = utc 5\<rparr>"

lemma stranger_refused:
  "stored_decision toy_aead (replicate 32 7) lab_rows stranger strange_request = Inr (Refused (decide []))"
proof -
  have "policies_of (sr_policies lab_rows) (lit ''u9'', lit ''t'', OPEN_PRIVILEGED_SESSION) = Inr []"
    by (simp add: lab_policies policies_of_def rows_where_def encodable_lit action_value_def)
  then show ?thesis by (simp add: stored_defs decide_def)
qed

theorem decision_from_stores_witness:
  "\<exists>r s'. handle (application_ports accepting_world lab_app) 60000000 (Some stranger) strange_request
       (initial_state \<lparr>st_host = started_host, st_ssh = lab_broker_start\<rparr>) = (r, s')
     \<and> (\<forall>res. r = Inr res \<longrightarrow> ar_decision res = decide [])
     \<and> (\<forall>t a k q. OpenSession t a k q \<notin> set (trace s'))"
proof -
  let ?w = "\<lparr>st_host = started_host, st_ssh = lab_broker_start\<rparr>"
  have h: "hmac_sized (o_hmac accepting_world)" "serves (app_settings lab_app) lab_rows (st_host ?w)"
    "key_of (st_host ?w) (rs_audit_key (app_settings lab_app)) = Some (replicate 32 8)"
    "trail_stored (o_hmac accepting_world) (rs_audit_db (app_settings lab_app)) (replicate 32 8) [] (st_host ?w)"
    using ready_facts(1) started_facts(2-4) by (simp_all add: accepting_world_def)
  have o: "stored_decision (o_aead accepting_world) (app_vault_key lab_app) lab_rows stranger strange_request
      = Inr (Refused (decide []))"
    using stranger_refused by (simp add: accepting_world_def lab_app_def)
  obtain r s' where r: "handle (application_ports accepting_world lab_app) 60000000 (Some stranger) strange_request
       (initial_state ?w) = (r, s')" by fastforce
  note d = decision_from_stores [OF h(1) started_facts(1) h(2-4) r]
  from d have "\<forall>res. r = Inr res \<longrightarrow> ar_decision res = decide []"
    by (metis decision_of.simps(1) o option.inject sum.inject(2))
  moreover from d have "\<forall>t a k q. OpenSession t a k q \<notin> set (trace s')"
    by (metis o option.inject stored_outcome.distinct(1) sum.inject(2))
  ultimately show ?thesis using r by blast
qed

section \<open>A lab from the tool to the session\<close>

definition open_config :: lab_config where
  "open_config = \<lparr>lc_runtime_dir = lab_dir, lc_user_id = lit ''u1'', lc_username = lit ''alice'',
     lc_target_id = lit ''t'', lc_target_name = lit ''n'', lc_target_host = lit ''h'', lc_target_port = 22,
     lc_host_key_fingerprint = digest_text (replicate 32 0), lc_credential_ref = lit ''c'',
     lc_account_id = lit ''a'', lc_account_username = lit ''root'', lc_policy_id = lit ''p''\<rparr>"

definition open_argon2 :: "dbhost argon2" where
  "open_argon2 = (let hash = (\<lambda>pw. lab_hash @ map (\<lambda>c. if encodable c then c else 0) pw) in
     \<lparr>a_hash = (\<lambda>pw. ret (hash pw)), a_verify = (\<lambda>h pw. ret (h = hash pw))\<rparr>)"

definition open_world :: "(unit, nat) outside" where
  "open_world = accepting_world\<lparr>o_argon2 := open_argon2\<rparr>"

definition lab_entries :: "string \<Rightarrow> pystr" where
  "lab_entries prompt = (if prompt = ''PAM application user password: '' then lit ''pw'' else lit ''p'')"

abbreviation started :: "dbhost \<Rightarrow> dbhost" where
  "started h \<equiv> h\<lparr>h_faults := [], h_entropy := h_entropy ready_host\<rparr>"

abbreviation open_console :: "dbhost \<Rightarrow> ((nat, (unit, nat) site) console, application cli_obs) tstate" where
  "open_console h \<equiv> ready_console\<lparr>world := (world ready_console)
     \<lparr>console_world := \<lparr>st_host = h, st_ssh = lab_broker_start\<rparr>\<rparr>\<rparr>"

lemma open_records:
  "build_records open_config = Inr \<lparr>lr_user = lab_user, lr_target = ssh_target, lr_account = ssh_account, lr_policy = lab_grant\<rparr>"
proof -
  have "parse_openssh_sha256_fingerprint (digest_text (replicate 32 0)) = Inr \<lparr>hkf_value = digest_text (replicate 32 0)\<rparr>"
    by (rule parse_digest_text) simp
  moreover have "\<not> blank (lit ''n'')" "\<not> blank (lit ''h'')" "\<not> blank (lit ''c'')" "\<not> blank (lit ''root'')"
    by (simp_all add: blank_iff py_isspace_def lit_def)
  ultimately show ?thesis
    by (simp add: build_records_def open_config_def constructor_defs lab_texts reject_def lab_user_def ssh_target_def
        ssh_account_def lab_grant_def startswith_def digest_text_def)
qed

lemma open_ready:
  "prepared (lc_runtime_dir open_config) lab_host" "storable_config open_config"
  "working open_argon2 toy_aead (typing lab_entries)" "honest_argon2 open_argon2"
proof -
  show "prepared (lc_runtime_dir open_config) lab_host"
    by (simp add: prepared_def lab_host_def open_config_def lab_dir_def parent_ok_def)
  have "\<not> blank (lit ''n'')" "\<not> blank (lit ''h'')" "\<not> blank (lit ''c'')" "\<not> blank (lit ''root'')"
    by (simp_all add: blank_iff py_isspace_def lit_def)
  moreover have "\<not> isl (parse_openssh_sha256_fingerprint (digest_text (replicate 32 0)))"
    using parse_digest_text [of "replicate 32 0"] by simp
  ultimately show "storable_config open_config"
    using lab_fingerprint
    by (simp add: storable_config_def valid_config_def open_config_def lab_texts encodable_lit)
  have hash: "startswith (lab_hash @ w) argon2_prefix" "list_all encodable lab_hash" for w
    by (simp_all add: lab_hash_def argon2_prefix_def encodable_lit startswith_def lit_def)
      (simp add: encodable_def surrogate_def)
  have "list_all encodable (map (\<lambda>c. if encodable c then c else 0) w)" for w
    by (induction w) (auto simp: encodable_def surrogate_def)
  with hash show "working open_argon2 toy_aead (typing lab_entries)"
    using lab_ready(3) by (simp add: working_def open_argon2_def Let_def typing_def lab_entries_def encodable_lit)
  show "honest_argon2 open_argon2"
    by (simp add: honest_argon2_def open_argon2_def Let_def)
qed

theorem provisioned_lab_opens_witness:
  "\<exists>h1 s'. provision_lab open_argon2 toy_aead (typing lab_entries) open_config lab_host = (Inr (paths_within lab_dir), h1)
     \<and> pam_main (\<lambda>a. a + 1) open_world lab_arguments (open_console (started h1)) = (Inr 0, s')"
proof -
  have o: "o_argon2 open_world = open_argon2" "o_aead open_world = toy_aead" "lc_runtime_dir open_config = lab_dir"
    "lc_username open_config = lit ''alice''" "lc_target_id open_config = lit ''t''"
    by (simp_all add: open_world_def accepting_world_def open_config_def)
  obtain h1 where h1: "provision_lab (o_argon2 open_world) (o_aead open_world) (typing lab_entries) open_config lab_host
      = (Inr (paths_within (lc_runtime_dir open_config)), h1)"
    using provision_succeeds_run [OF open_ready(1-3)] unfolding o by blast
  have honest: "honest_argon2 (o_argon2 open_world)" "aead_correct (o_aead open_world)" "hmac_sized (o_hmac open_world)"
    using open_ready(4) toy_aead_correct ready_facts(1) by (simp_all add: open_world_def accepting_world_def)
  have absent: "h_files lab_host (lp_audit_db (paths_within (lc_runtime_dir open_config))) = None"
    by (simp add: lab_host_def o paths_within_def lab_dir_def)
  have secret: "utf8_encode (lab_entries ''Target pamadmin SSH password: '') = Inr [0x70]"
    by (simp add: lab_entries_def utf8_encode_def lit_def encodable_def surrogate_def utf8_char_def byte_def)
  have settings: "runtime_settings_of (lc_runtime_dir open_config) (Some 60) = Inr ready_settings"
    using ready_settings_of by (simp add: o)
  have host: "started h1 = st_host (console_world (world (open_console (started h1))))"
    "h_files (started h1) = h_files h1" "h_faults (started h1) = []"
    by simp_all
  have entropy: "entropy_ready [] (started h1)"
    using ready_entropy by (simp add: entropy_ready_def)
  have relay: "broker_relay open_world d b = broker_relay accepting_world d b" for d b
    by (simp add: broker_relay_def open_world_def split: option.split)
  have outside: "outside_ready open_world (lab_entries ''PAM application user password: '') ssh_target ssh_account
      \<lparr>bc_value = [0x70]\<rparr> (rs_max_session ready_settings) lab_stage (st_ssh (console_world (world (open_console (started h1)))))"
    using lab_accepts relay
    by (simp add: outside_ready_def remote_accepts_def open_world_def lab_entries_def ready_settings_def)
  have tty: "tty_attrs (world (open_console (started h1))) 0 = Some 5" "tty_faults (world (open_console (started h1))) = []"
    by (simp_all add: ready_console_def)
  have "\<exists>s'. pam_main (\<lambda>a. a + 1) open_world
      (AccessTarget (lc_runtime_dir open_config) (lc_username open_config) (lc_target_id open_config) (Some 60))
      (open_console (started h1)) = (Inr 0, s')"
    by (rule provisioned_lab_opens [OF h1 honest absent open_records secret settings host entropy _ tty,
          unfolded lab_records.simps, OF outside])
  with h1 show ?thesis unfolding o by blast
qed

end
