(* ===== verification/Secret_Scan.thy ===== *)
theory Secret_Scan
  imports Files
begin

text \<open>
  The secret scan of the repository (\<open>scripts/check_secrets.py\<close> beside \<open>src\<close>): the names that git
  lists, decoded as Python decodes file names, the regular files among them, and the verdict of the
  detector on all of them. Git and the package \<open>detect_secrets\<close> are the record \<open>scanner\<close>.
\<close>

section \<open>Names of files\<close>

text \<open>\<open>text.split(separator)\<close>\<close>

fun split_on :: "'a \<Rightarrow> 'a list \<Rightarrow> 'a list list" where
  "split_on c [] = [[]]"
| "split_on c (x # xs) =
     (if x = c then [] # split_on c xs
      else case split_on c xs of w # ws \<Rightarrow> (x # w) # ws | [] \<Rightarrow> [[x]])"

text \<open>
  \<open>decode("utf-8", errors="surrogateescape")\<close>: where no character starts, the octet becomes a lone
  surrogate. \<open>whole_char\<close> gives the character at the front with the number of its octets.
\<close>

fun whole_char :: "nat list \<Rightarrow> bytes \<Rightarrow> (nat \<times> nat) option" where
  "whole_char [] bs = None"
| "whole_char (n # ns) bs =
     (case utf8_scan (take n bs) of Some [c] \<Rightarrow> Some (c, n) | _ \<Rightarrow> whole_char ns bs)"

function fsdecode :: "bytes \<Rightarrow> pystr" where
  "fsdecode [] = []"
| "fsdecode (b # bs) =
     (case whole_char [1, 2, 3, 4] (b # bs) of
        Some (c, n) \<Rightarrow> c # fsdecode (drop (n - 1) bs)
      | None \<Rightarrow> (0xDC00 + unat b) # fsdecode bs)"
  by pat_completeness auto
termination by (relation "measure length") auto

text \<open>\<open>os.fsencode\<close>, as the operating system is given the name\<close>

definition fsencode_char :: "nat \<Rightarrow> bytes" where
  "fsencode_char c = (if 0xDC80 \<le> c \<and> c < 0xDD00 then [byte (c - 0xDC00)] else utf8_char c)"

definition fsencode :: "pystr \<Rightarrow> bytes" where
  "fsencode s = concat (map fsencode_char s)"

text \<open>\<open>Path(text)\<close> from the working directory\<close>

definition work_path :: "path \<Rightarrow> pystr \<Rightarrow> path" where
  "work_path cwd text = (if take 1 text = [47] then [] else cwd)
     @ filter (\<lambda>w. w \<noteq> [] \<and> w \<noteq> [46]) (split_on 47 text)"

section \<open>The scan\<close>

text \<open>
  \<open>subprocess.run\<close> of a command with its exit code and output, the context \<open>default_settings()\<close>,
  and a \<open>SecretsCollection\<close> with \<open>scan_file\<close> and whether its \<open>data\<close> has entries
\<close>

record ('d, 'c) scanner =
  sc_run :: "string list \<Rightarrow> ('d host, int \<times> bytes) io"
  sc_enter :: "('d host, unit) io"
  sc_leave :: "('d host, unit) io"
  sc_new :: 'c
  sc_scan :: "pystr \<Rightarrow> 'c \<Rightarrow> ('d host, 'c) io"
  sc_data :: "'c \<Rightarrow> bool"

definition git_command :: "string list" where
  "git_command = [''git'', ''ls-files'', ''--cached'', ''--others'', ''--exclude-standard'', ''-z'']"

text \<open>\<open>check=True\<close> raises for another exit code than 0.\<close>

definition tracked_names :: "('d, 'c) scanner \<Rightarrow> ('d host, bytes list) io" where
  "tracked_names S = bind (sc_run S git_command) (\<lambda>(code, out).
     if code \<noteq> 0 then raise (err CalledProcessError []) else ret (split_on 0 out))"

primrec regular_names :: "path \<Rightarrow> bytes list \<Rightarrow> ('d host, pystr list) io" where
  "regular_names cwd [] = ret []"
| "regular_names cwd (v # vs) =
     (if v = [] then regular_names cwd vs
      else bind (path_is_file (work_path cwd (fsdecode v))) (\<lambda>there.
           bind (regular_names cwd vs) (\<lambda>ns. ret (if there then fsdecode v # ns else ns))))"

primrec scan_all :: "('d, 'c) scanner \<Rightarrow> pystr list \<Rightarrow> 'c \<Rightarrow> ('d host, 'c) io" where
  "scan_all S [] c = ret c"
| "scan_all S (f # fs) c = bind (sc_scan S f c) (scan_all S fs)"

definition scan_files :: "('d, 'c) scanner \<Rightarrow> pystr list \<Rightarrow> ('d host, 'c) io" where
  "scan_files S fs = seq (sc_enter S) (try_finally (scan_all S fs (sc_new S)) (sc_leave S))"

text \<open>\<open>try: x = m except p: print; return 1\<close>, then the rest of the function\<close>

definition or_fail :: "('s, 'a) io \<Rightarrow> (exn \<Rightarrow> bool) \<Rightarrow> string \<Rightarrow> ('a \<Rightarrow> ('s, int \<times> pystr) io) \<Rightarrow> ('s, int \<times> pystr) io" where
  "or_fail m p line k = (\<lambda>s. case m s of
       (Inr x, s') \<Rightarrow> k x s'
     | (Inl e, s') \<Rightarrow> if p e then (Inr (1, lit line), s') else (Inl e, s'))"

text \<open>\<open>main\<close>: the exit code with the line that is printed\<close>

definition secret_scan_main :: "('d, 'c) scanner \<Rightarrow> path \<Rightarrow> ('d host, int \<times> pystr) io" where
  "secret_scan_main S cwd =
     or_fail (tracked_names S) (catches_any [OSError, CalledProcessError])
       ''Secret scan: FAILED (tracked files could not be enumerated).'' (\<lambda>tracked.
     bind (regular_names cwd tracked) (\<lambda>filenames.
     or_fail (scan_files S filenames) is_exception
       ''Secret scan: FAILED (files could not be scanned).'' (\<lambda>candidates.
     if sc_data S candidates then ret (1, lit ''Secret scan: FAILED (candidate locations withheld).'')
     else ret (0, lit ''Secret scan: OK''))))"

section \<open>Names come back\<close>

declare byte_unat [simp]

lemma low6_less: "cont_byte b \<Longrightarrow> low6 b < 64"
  by (auto simp: cont_byte_def low6_def)

lemma base64_digits: "y < 64 \<Longrightarrow> (x * 64 + y) div 64 = x" "y < 64 \<Longrightarrow> (x * 64 + y) mod 64 = y" for x y :: nat
  by simp_all

lemma cont_byte_low6: "cont_byte b \<Longrightarrow> byte (128 + low6 b) = b"
  by (simp add: cont_byte_def low6_def)

lemma byte_add_unat: "a \<le> unat b \<Longrightarrow> byte (a + (unat b - a)) = b"
  by simp

lemma utf8_two:
  assumes "194 \<le> unat b" "unat b < 224" "cont_byte b1"
  shows "utf8_char ((unat b - 192) * 64 + low6 b1) = [b, b1]"
proof -
  let ?c = "(unat b - 192) * 64 + low6 b1"
  have "?c div 64 = unat b - 192" "?c mod 64 = low6 b1" using low6_less [OF assms(3)] by simp_all
  moreover have "128 \<le> ?c" "?c < 2048" using assms low6_less [OF assms(3)] by linarith+
  ultimately show ?thesis using assms cont_byte_low6 [OF assms(3)] by (simp add: utf8_char_def)
qed

lemma utf8_three:
  assumes "224 \<le> unat b" "unat b < 240" "cont_byte b1" "cont_byte b2"
    "c = (unat b - 224) * 4096 + low6 b1 * 64 + low6 b2" "2048 \<le> c"
  shows "utf8_char c = [b, b1, b2]"
proof -
  have l: "low6 b1 < 64" "low6 b2 < 64" using assms(3,4) low6_less by simp_all
  have c: "c = ((unat b - 224) * 64 + low6 b1) * 64 + low6 b2" using assms(5) by simp
  have d: "c div 64 = (unat b - 224) * 64 + low6 b1" "c mod 64 = low6 b2"
    unfolding c using l by (simp_all only: base64_digits)
  have "c div 4096 = c div 64 div 64" by (simp add: div_mult2_eq [symmetric])
  with l have "c div 4096 = unat b - 224" "c div 64 mod 64 = low6 b1" by (simp_all only: d base64_digits)
  moreover have "c < 65536" using assms l by linarith
  ultimately show ?thesis
    using assms d cont_byte_low6 [OF assms(3)] cont_byte_low6 [OF assms(4)] by (simp add: utf8_char_def)
qed

lemma utf8_four:
  assumes "240 \<le> unat b" "cont_byte b1" "cont_byte b2" "cont_byte b3"
    "c = (unat b - 240) * 262144 + low6 b1 * 4096 + low6 b2 * 64 + low6 b3" "65536 \<le> c"
  shows "utf8_char c = [b, b1, b2, b3]"
proof -
  have l: "low6 b1 < 64" "low6 b2 < 64" "low6 b3 < 64" using assms(2-4) low6_less by simp_all
  have c: "c = (((unat b - 240) * 64 + low6 b1) * 64 + low6 b2) * 64 + low6 b3" using assms(5) by simp
  have d: "c div 64 = ((unat b - 240) * 64 + low6 b1) * 64 + low6 b2" "c mod 64 = low6 b3"
    unfolding c using l by (simp_all only: base64_digits)
  have e: "c div 4096 = c div 64 div 64" "c div 262144 = c div 64 div 64 div 64"
    by (simp_all add: div_mult2_eq [symmetric])
  with l have "c div 4096 mod 64 = low6 b1" "c div 64 mod 64 = low6 b2" "c div 262144 = unat b - 240"
    by (simp_all only: d base64_digits)
  then show ?thesis
    using assms d cont_byte_low6 [OF assms(2)] cont_byte_low6 [OF assms(3)] cont_byte_low6 [OF assms(4)]
    by (simp add: utf8_char_def)
qed

lemma utf8_scan_cases:
  assumes "utf8_scan (b # bs) = Some s" "128 \<le> unat b"
  obtains (two) b1 r s' where "194 \<le> unat b" "unat b < 224" "bs = b1 # r" "cont_byte b1" "utf8_scan r = Some s'"
      "s = ((unat b - 192) * 64 + low6 b1) # s'"
    | (three) b1 b2 r c s' where "224 \<le> unat b" "unat b < 240" "bs = b1 # b2 # r" "cont_byte b1" "cont_byte b2"
      "c = (unat b - 224) * 4096 + low6 b1 * 64 + low6 b2" "2048 \<le> c" "\<not> surrogate c" "utf8_scan r = Some s'"
      "s = c # s'"
    | (four) b1 b2 b3 r c s' where "240 \<le> unat b" "bs = b1 # b2 # b3 # r" "cont_byte b1" "cont_byte b2" "cont_byte b3"
      "c = (unat b - 240) * 262144 + low6 b1 * 4096 + low6 b2 * 64 + low6 b3" "65536 \<le> c" "utf8_scan r = Some s'"
      "s = c # s'"
proof -
  note scan = assms(1) [unfolded utf8_scan.simps Let_def]
  have ascii: "\<not> unat b < 128" using assms(2) by simp
  let ?two = "194 \<le> unat b \<and> unat b < 224" and ?three = "224 \<le> unat b \<and> unat b < 240" and ?four = "240 \<le> unat b \<and> unat b < 245"
  have "?two \<or> ?three \<or> ?four"
  proof (rule ccontr)
    assume n: "\<not> (?two \<or> ?three \<or> ?four)"
    then have "\<not> ?two" "\<not> ?three" "\<not> ?four" by blast+
    from scan [unfolded if_not_P [OF ascii] this [THEN if_not_P]] show False by (rule option.distinct(1) [THEN notE])
  qed
  then consider (a) "194 \<le> unat b \<and> unat b < 224" | (b) "\<not> (194 \<le> unat b \<and> unat b < 224)" "224 \<le> unat b \<and> unat b < 240"
    | (c) "\<not> (194 \<le> unat b \<and> unat b < 224)" "\<not> (224 \<le> unat b \<and> unat b < 240)" "240 \<le> unat b \<and> unat b < 245"
    by blast
  then show thesis
  proof cases
    case a
    from scan [unfolded if_not_P [OF ascii] if_P [OF a]] obtain b1 r where r: "bs = b1 # r"
      by (cases bs) (simp_all only: list.case option.distinct)
    from scan [unfolded if_not_P [OF ascii] if_P [OF a] r list.case] have c: "cont_byte b1"
      by (rule_tac ccontr) (simp only: if_False option.distinct)
    from scan [unfolded if_not_P [OF ascii] if_P [OF a] r list.case if_P [OF c]] obtain s' where
      "utf8_scan r = Some s'" "s = ((unat b - 192) * 64 + low6 b1) # s'" unfolding map_option_eq_Some by metis
    from two [OF conjunct1 [OF a] conjunct2 [OF a] r c this] show thesis .
  next
    case b
    note s = scan [unfolded if_not_P [OF ascii] if_not_P [OF b(1)] if_P [OF b(2)]]
    from s obtain b1 r1 where r1: "bs = b1 # r1" by (cases bs) (simp_all only: list.case option.distinct)
    from s [unfolded r1 list.case] obtain b2 r where r: "r1 = b2 # r" by (cases r1) (simp_all only: list.case option.distinct)
    let ?c = "(unat b - 224) * 4096 + low6 b1 * 64 + low6 b2"
    note s' = s [unfolded r1 r list.case]
    have c: "cont_byte b1 \<and> cont_byte b2 \<and> 2048 \<le> ?c \<and> \<not> surrogate ?c"
      by (rule ccontr) (use s' in \<open>simp only: if_False option.distinct\<close>)
    from s' [unfolded if_P [OF c]] obtain s2 where s2: "utf8_scan r = Some s2" "s = ?c # s2"
      unfolding map_option_eq_Some by metis
    show thesis by (rule three [of b1 b2 r ?c s2]) (use b(2) r1 r c s2 in \<open>simp_all only: not_False_eq_True\<close>)
  next
    case c
    note s = scan [unfolded if_not_P [OF ascii] if_not_P [OF c(1)] if_not_P [OF c(2)] if_P [OF c(3)]]
    from s obtain b1 r1 where r1: "bs = b1 # r1" by (cases bs) (simp_all only: list.case option.distinct)
    from s [unfolded r1 list.case] obtain b2 r2 where r2: "r1 = b2 # r2" by (cases r1) (simp_all only: list.case option.distinct)
    from s [unfolded r1 r2 list.case] obtain b3 r where r: "r2 = b3 # r" by (cases r2) (simp_all only: list.case option.distinct)
    let ?c = "(unat b - 240) * 262144 + low6 b1 * 4096 + low6 b2 * 64 + low6 b3"
    note s' = s [unfolded r1 r2 r list.case]
    have k: "cont_byte b1 \<and> cont_byte b2 \<and> cont_byte b3 \<and> 65536 \<le> ?c \<and> ?c < 1114112"
      by (rule ccontr) (use s' in \<open>simp only: if_False option.distinct\<close>)
    from s' [unfolded if_P [OF k]] obtain s2 where s2: "utf8_scan r = Some s2" "s = ?c # s2"
      unfolding map_option_eq_Some by metis
    show thesis by (rule four [of b1 b2 b3 r ?c s2]) (use c(3) r1 r2 r k s2 in \<open>simp_all only: not_False_eq_True\<close>)
  qed
qed

lemma utf8_scan_chars:
  "utf8_scan bs = Some s \<Longrightarrow> concat (map utf8_char s) = bs \<and> list_all (\<lambda>c. \<not> surrogate c) s"
proof (induction bs arbitrary: s rule: length_induct)
  case (1 bs)
  show ?case
  proof (cases bs)
    case Nil
    with 1(2) show ?thesis by simp
  next
    case (Cons b r0)
    have IH: "concat (map utf8_char s') = r \<and> list_all (\<lambda>c. \<not> surrogate c) s'"
      if "utf8_scan r = Some s'" "length r < Suc (length r0)" for r s'
      using 1(1) that by (simp add: Cons)
    show ?thesis
    proof (cases "unat b < 128")
      case True
      with 1(2) obtain s' where "utf8_scan r0 = Some s'" "s = unat b # s'" by (auto simp: Cons)
      moreover from True have "utf8_char (unat b) = [b]" "\<not> surrogate (unat b)"
        by (simp_all add: utf8_char_def surrogate_def)
      ultimately show ?thesis using IH [of r0 s'] by (simp add: Cons)
    next
      case False
      then have "128 \<le> unat b" by simp
      from 1(2) [unfolded Cons] this show ?thesis
      proof (cases rule: utf8_scan_cases)
        case (two b1 r s')
        moreover have "low6 b1 < 64" using two(4) by (rule low6_less)
        with two have "\<not> surrogate ((unat b - 192) * 64 + low6 b1)" by (simp add: surrogate_def)
        ultimately show ?thesis using IH [of r s'] by (simp add: Cons utf8_two)
      next
        case (three b1 b2 r c s')
        with IH [of r s'] utf8_three show ?thesis by (simp add: Cons)
      next
        case (four b1 b2 b3 r c s')
        moreover have "\<not> surrogate c" using four(7) by (simp add: surrogate_def)
        ultimately show ?thesis using IH [of r s'] utf8_four [OF four(1,3-7)] by (simp add: Cons)
      qed
    qed
  qed
qed

lemma whole_char_front:
  "whole_char ns bs = Some (c, n) \<Longrightarrow> n \<in> set ns \<and> utf8_scan (take n bs) = Some [c]"
  by (induction ns) (auto split: option.splits list.splits)

text \<open>An ASCII octet is a character of its own.\<close>

lemma no_char_high: "whole_char [1, 2, 3, 4] (b # bs) = None \<Longrightarrow> 128 \<le> unat b"
  by (cases "unat b < 128") simp_all

text \<open>
  What Python makes of the octets of a file name names the same file: giving the decoded name
  back to the operating system yields the octets again, well-formed or not, so two files never
  share a decoded name.
\<close>

theorem fsencode_fsdecode: "fsencode (fsdecode bs) = bs"
proof (induction bs rule: fsdecode.induct)
  case (2 b bs)
  show ?case
  proof (cases "whole_char [1, 2, 3, 4] (b # bs)")
    case None
    from no_char_high [OF this] have "128 \<le> unat b" .
    moreover have "unat b < 256" using unsigned_less [of b, where 'a = nat] by simp
    ultimately have "fsencode_char (0xDC00 + unat b) = [b]" by (simp add: fsencode_char_def)
    with 2(1) [OF None] None show ?thesis by (simp add: fsencode_def del: whole_char.simps)
  next
    case (Some p)
    obtain c n where p: "p = (c, n)" by (cases p)
    from whole_char_front [OF Some [unfolded p]] have n: "0 < n" "utf8_scan (take n (b # bs)) = Some [c]" by auto
    from utf8_scan_chars [OF n(2)] have c: "utf8_char c = take n (b # bs)" "\<not> surrogate c" by simp_all
    from c(2) have "fsencode_char c = utf8_char c" by (auto simp: fsencode_char_def surrogate_def)
    moreover have "take n (b # bs) @ drop (n - 1) bs = b # bs" using n(1) by (cases n) simp_all
    ultimately show ?thesis
      using 2(2) [OF Some p [symmetric]] Some p c(1) by (simp add: fsencode_def del: whole_char.simps)
  qed
qed (simp add: fsencode_def)

section \<open>The verdict\<close>

text \<open>
  What the scan relies on: git and the settings leave the files alone, a new collection is empty,
  and scanning a file adds an entry exactly when the detector suspects its contents.
\<close>

definition detects :: "('d, 'c) scanner \<Rightarrow> (pystr \<Rightarrow> (path \<Rightarrow> 'd node option) \<Rightarrow> bool) \<Rightarrow> bool" where
  "detects S suspect \<longleftrightarrow> \<not> sc_data S (sc_new S)
     \<and> (\<forall>h. h_files (snd (sc_run S git_command h)) = h_files h \<and> h_files (snd (sc_enter S h)) = h_files h)
     \<and> (\<forall>f c h c' h'. sc_scan S f c h = (Inr c', h') \<longrightarrow>
          h_files h' = h_files h \<and> (sc_data S c' \<longleftrightarrow> sc_data S c \<or> suspect f (h_files h)))"

text \<open>The files git lists that are there, and that the detector suspects\<close>

definition listed_suspect ::
  "path \<Rightarrow> (pystr \<Rightarrow> (path \<Rightarrow> 'd node option) \<Rightarrow> bool) \<Rightarrow> 'd host \<Rightarrow> bytes \<Rightarrow> bool" where
  "listed_suspect cwd suspect h name \<longleftrightarrow>
     is_file h (work_path cwd (fsdecode name)) \<and> suspect (fsdecode name) (h_files h)"

lemma split_on_zero: "0 \<notin> set n \<Longrightarrow> split_on 0 (n @ 0 # xs) = n # split_on 0 xs" for n :: bytes
  by (induction n) auto

lemma split_on_names:
  "\<forall>n \<in> set names. 0 \<notin> set n \<Longrightarrow> split_on 0 (concat (map (\<lambda>n. n @ [0]) names)) = names @ [[]]" for names :: "bytes list"
  by (induction names) (simp_all add: split_on_zero)

lemma or_fail_returns:
  "or_fail m p line k s = (Inr y, s') \<longleftrightarrow> (\<exists>x s1. m s = (Inr x, s1) \<and> k x s1 = (Inr y, s'))
     \<or> (\<exists>e. m s = (Inl e, s') \<and> p e \<and> y = (1, lit line))"
  by (auto simp: or_fail_def split: prod.splits sum.splits)

lemma is_file_cong: "h_files g = h_files h \<Longrightarrow> is_file g p = is_file h p"
  by (simp add: is_file_def stat_node_def split: sum.split)

lemma path_is_file_run:
  "path_is_file p h = (r, h') \<Longrightarrow> h_files h' = h_files h \<and> (\<forall>b. r = Inr b \<longrightarrow> b = is_file h p)"
  by (auto simp: path_is_file_def os_call_def faultable_def split: list.splits bool.splits intro!: is_file_cong)

lemma regular_names_run:
  "regular_names cwd vs h = (Inr ns, h') \<Longrightarrow> h_files h' = h_files h
     \<and> set ns = fsdecode ` {v \<in> set vs. v \<noteq> [] \<and> is_file h (work_path cwd (fsdecode v))}"
proof (induction vs arbitrary: ns h)
  case (Cons v vs)
  show ?case
  proof (cases "v = []")
    case True
    with Cons show ?thesis by auto
  next
    case False
    with Cons(2) obtain there h1 ms where
      r: "path_is_file (work_path cwd (fsdecode v)) h = (Inr there, h1)" "regular_names cwd vs h1 = (Inr ms, h')"
        "ns = (if there then fsdecode v # ms else ms)"
      by (auto simp: bind_eq_iff)
    from path_is_file_run [OF r(1)] have f: "h_files h1 = h_files h" "there = is_file h (work_path cwd (fsdecode v))"
      by simp_all
    from Cons(1) [OF r(2)] have "h_files h' = h_files h"
      "set ms = fsdecode ` {v \<in> set vs. v \<noteq> [] \<and> is_file h (work_path cwd (fsdecode v))}"
      by (simp_all add: f(1) is_file_cong [OF f(1)])
    with r(3) f(2) False show ?thesis by auto
  qed
qed simp

lemma scan_all_data:
  "detects S suspect \<Longrightarrow> scan_all S fs c h = (Inr c', h') \<Longrightarrow>
     sc_data S c' \<longleftrightarrow> sc_data S c \<or> (\<exists>f \<in> set fs. suspect f (h_files h))"
proof (induction fs arbitrary: c h)
  case (Cons f fs)
  from Cons(3) obtain d h1 where r: "sc_scan S f c h = (Inr d, h1)" "scan_all S fs d h1 = (Inr c', h')"
    by (auto simp: bind_eq_iff)
  from Cons(2) r(1) have "h_files h1 = h_files h" "sc_data S d \<longleftrightarrow> sc_data S c \<or> suspect f (h_files h)"
    unfolding detects_def by blast+
  with Cons(1) [OF Cons(2) r(2)] show ?case by auto
qed simp

lemma scan_files_data:
  assumes "detects S suspect" "scan_files S fs h = (Inr c, h')"
  shows "sc_data S c \<longleftrightarrow> (\<exists>f \<in> set fs. suspect f (h_files h))"
proof -
  from assms(2) obtain h1 h2 where r: "sc_enter S h = (Inr (), h1)" "scan_all S fs (sc_new S) h1 = (Inr c, h2)"
    by (auto simp: scan_files_def seq_eq_iff try_finally_def bind_eq_iff finally_with_eq_iff split: sum.splits)
      (metis sum.exhaust)
  have "h_files h1 = h_files h" "\<not> sc_data S (sc_new S)"
    using assms(1) r(1) unfolding detects_def by (metis snd_conv)+
  with scan_all_data [OF assms(1) r(2)] show ?thesis by simp
qed

text \<open>
  C39. The verdict of the secret scan. Exit code 0, with the line OK, means that git listed the files
  and that no file it listed, of those that are there, is suspected; the line of a finding means that
  one is; a failure of git or of the detector is never a success. The output never names a file.
\<close>

theorem secret_scan_verdict:
  assumes "detects S suspect" "secret_scan_main S cwd h = (Inr (code, line), h')"
  shows "(code = 0 \<longleftrightarrow> line = lit ''Secret scan: OK'')
    \<and> (code = 0 \<longrightarrow> (\<exists>out. fst (sc_run S git_command h) = Inr (0, out)
         \<and> (\<forall>names. out = concat (map (\<lambda>n. n @ [0]) names) \<and> (\<forall>n \<in> set names. n \<noteq> [] \<and> 0 \<notin> set n) \<longrightarrow>
              \<not> (\<exists>n \<in> set names. listed_suspect cwd suspect h n))))
    \<and> (code \<noteq> 0 \<longrightarrow> code = 1 \<and> line \<in> lit ` {''Secret scan: FAILED (tracked files could not be enumerated).'',
         ''Secret scan: FAILED (files could not be scanned).'', ''Secret scan: FAILED (candidate locations withheld).''})
    \<and> (line = lit ''Secret scan: FAILED (candidate locations withheld).'' \<longrightarrow>
         (\<exists>out. fst (sc_run S git_command h) = Inr (0, out)
            \<and> (\<exists>n \<in> set (split_on 0 out). listed_suspect cwd suspect h n)))"
proof -
  from assms(2) consider
      "code = 1" "line = lit ''Secret scan: FAILED (tracked files could not be enumerated).''"
    | "code = 1" "line = lit ''Secret scan: FAILED (files could not be scanned).''"
    | tracked h1 fs h2 c h3 where "tracked_names S h = (Inr tracked, h1)" "regular_names cwd tracked h1 = (Inr fs, h2)"
      "scan_files S fs h2 = (Inr c, h3)"
      "(code, line) = (if sc_data S c then (1, lit ''Secret scan: FAILED (candidate locations withheld).'')
         else (0, lit ''Secret scan: OK''))"
    unfolding secret_scan_main_def or_fail_returns bind_eq_iff by (auto split: if_splits)
  then show ?thesis
  proof cases
    case (3 tracked h1 fs h2 c h3)
    from 3(1) obtain out where out: "sc_run S git_command h = (Inr (0, out), h1)" "tracked = split_on 0 out"
      by (auto simp: tracked_names_def bind_eq_iff split: if_splits)
    have f: "h_files h1 = h_files h" using assms(1) out(1) unfolding detects_def by (metis snd_conv)
    have data: "sc_data S c \<longleftrightarrow> (\<exists>n \<in> set (split_on 0 out). n \<noteq> [] \<and> listed_suspect cwd suspect h n)"
      using scan_files_data [OF assms(1) 3(3)] regular_names_run [OF 3(2)]
      by (auto simp: listed_suspect_def f is_file_cong [OF f] out(2))
    show ?thesis
    proof (cases "sc_data S c")
      case True
      with 3(4) have "code = 1" "line = lit ''Secret scan: FAILED (candidate locations withheld).''" by simp_all
      moreover from True data have "\<exists>n \<in> set (split_on 0 out). listed_suspect cwd suspect h n" by blast
      ultimately show ?thesis using out(1) by simp
    next
      case False
      with 3(4) have "code = 0" "line = lit ''Secret scan: OK''" by simp_all
      moreover have "\<forall>names. out = concat (map (\<lambda>n. n @ [0]) names) \<and> (\<forall>n \<in> set names. n \<noteq> [] \<and> 0 \<notin> set n) \<longrightarrow>
              \<not> (\<exists>n \<in> set names. listed_suspect cwd suspect h n)"
      proof (intro allI impI)
        fix names
        assume that: "out = concat (map (\<lambda>n. n @ [0]) names) \<and> (\<forall>n \<in> set names. n \<noteq> [] \<and> 0 \<notin> set n)"
        then have "split_on 0 out = names @ [[]]" using split_on_names by blast
        with False data that show "\<not> (\<exists>n \<in> set names. listed_suspect cwd suspect h n)" by auto
      qed
      ultimately show ?thesis using out(1) by simp
    qed
  qed simp_all
qed

text \<open>A detector that suspects one name, and git that lists another\<close>

definition name_scanner :: "(unit, bool) scanner" where
  "name_scanner = \<lparr>sc_run = (\<lambda>args. ret (0, [0x61, 0, 0x62, 0])), sc_enter = ret (), sc_leave = ret (),
     sc_new = False, sc_scan = (\<lambda>f c. ret (c \<or> f = lit ''b'')), sc_data = (\<lambda>c. c)\<rparr>"

definition one_file :: "unit host" where
  "one_file = \<lparr>h_files = [[lit ''a''] \<mapsto> Regular 0x180 (Bytes [])], h_umask = 0, h_entropy = [], h_faults = [], h_chunks = []\<rparr>"

theorem secret_scan_verdict_witness:
  "fst (secret_scan_main name_scanner [] one_file) = Inr (0, lit ''Secret scan: OK'')
     \<and> \<not> listed_suspect [] (\<lambda>f fs. f = lit ''b'') one_file [0x61] \<and> \<not> listed_suspect [] (\<lambda>f fs. f = lit ''b'') one_file [0x62]"
proof -
  have "fst (secret_scan_main name_scanner [] one_file) = Inr (0, lit ''Secret scan: OK'')"
    by code_simp
  then obtain h' where run: "secret_scan_main name_scanner [] one_file = (Inr (0, lit ''Secret scan: OK''), h')"
    by (metis prod.collapse)
  have "detects name_scanner (\<lambda>f fs. f = lit ''b'')"
    by (simp add: detects_def name_scanner_def)
  from secret_scan_verdict [OF this run] obtain out where
    "fst (sc_run name_scanner git_command one_file) = Inr (0, out)"
    "\<forall>names. out = concat (map (\<lambda>n. n @ [0]) names) \<and> (\<forall>n \<in> set names. n \<noteq> [] \<and> 0 \<notin> set n) \<longrightarrow>
       \<not> (\<exists>n \<in> set names. listed_suspect [] (\<lambda>f fs. f = lit ''b'') one_file n)"
    by blast
  from this(1) this(2) [rule_format, of "[[0x61], [0x62]]"] run show ?thesis
    by (simp add: name_scanner_def)
qed

end
