(* ===== verification/Spec2Isabelle.thy ===== *)
theory Spec2Isabelle
  imports Access_Safety Policy_Store Target_Store Account_Store User_Store Vault Audit_Store
    Broker Main_Program Bootstrap Fresh Starting Negative_Works Durations Program_Lab Secret_Scan
begin

text \<open>
  A verification library of the PAM service: a local command line program that authenticates a
  user, decides by policy whether the user may open a privileged SSH session on a target, takes the
  password of the privileged account from an encrypted Vault, brokers the session and records every
  step in a chained audit trail. File names are relative to the directory \<open>src\<close> of the sources
  unless they begin with it.

  \<^bold>\<open>The program and how its parts interact.\<close> \<open>main.py\<close> reads the password, builds the
  application (\<open>bootstrap/application.py\<close>: settings, two keys, five repositories on four database
  files), authenticates (\<open>application/authentication_service.py\<close>), and calls
  \<open>AccessService.handle\<close> (\<open>application/access_service.py\<close>) within the raw mode of the terminal.
  \<open>handle\<close> asks the policy evaluator, the target and account repositories, the Vault and the SSH
  broker, in this order, moves the \<open>Session\<close> entity through its life cycle, and appends an audit
  event for every step. The broker connects, verifies the pinned host key, logs in, and relays
  between terminal and channel. Two tools prepare runtimes: \<open>tools/provision_lab.py\<close> makes a lab,
  \<open>tools/prepare_negative_lab.py\<close> copies one and damages the copy; \<open>tools/verify_audit.py\<close> verifies
  a trail. Beside the program, \<open>scripts/check_secrets.py\<close> scans the files of the repository.

  \<^bold>\<open>How code becomes definitions.\<close> A call that may raise is a \<open>'a res\<close> (\<open>exn + 'a\<close>); one with
  effects is a \<open>('w, 'a) io\<close>, a state transformer whose state survives a raise, so that what
  happened before an exception stays. \<open>try\<close>, \<open>except C\<close>, \<open>finally\<close> and \<open>with\<close> are \<open>try_except\<close>,
  \<open>catches C\<close>, \<open>try_finally\<close>; exceptions carry their class and message, with the hierarchy of the
  sources (\<open>base_class\<close>), and \<open>KeyboardInterrupt\<close> is no \<open>Exception\<close>. Dataclasses are records made
  by \<open>mk_\<close> functions with the checks of \<open>__post_init__\<close>; statically typed fields make the
  \<open>isinstance\<close> tests on them branches without a case. The definitions keep the names of the
  functions, and their parts have names of their own where a handler is long.

  \<^bold>\<open>The theories.\<close>

  \<^item> \<^theory_text>\<open>Prelude\<close>, \<^theory_text>\<open>PyText\<close>, \<^theory_text>\<open>PyTime\<close>: results, exceptions and effects; \<open>str\<close>, \<open>bytes\<close>, UTF-8,
    compact JSON; aware datetimes and \<open>isoformat\<close>.

  \<^item> \<^theory_text>\<open>Domain\<close>, \<^theory_text>\<open>Session\<close>, \<^theory_text>\<open>Policy\<close>: \<open>domain/\<close>, the value types of \<open>ports/\<close>, and
    \<open>application/policy_evaluator.py\<close>. Constructors succeed exactly when the entity's invariant
    holds; the life cycle of a session is a step relation with an invariant; the decision is allowed
    exactly when a policy matches and all matching ones allow it.

  \<^item> \<^theory_text>\<open>Access\<close>, \<^theory_text>\<open>Access_Protocol\<close>, \<^theory_text>\<open>Access_Safety\<close>: \<open>application/access_service.py\<close>. The ports
    are a record of operations on an arbitrary world and every call is recorded with its outcome.
    \<open>Access_Protocol\<close> is the abstract specification (inductive relations over traces) with the
    refinement theorem; the safety properties are read off it by cases.

  \<^item> \<^theory_text>\<open>Host\<close>, \<^theory_text>\<open>Files\<close>, \<^theory_text>\<open>Sqlite\<close>: the host (files with modes and links, umask, entropy) and the
    part of SQLite and \<open>sqlite3\<close> that is used. A list of faults lets every system call and every
    statement fail, and a list of chunk sizes makes reads and writes partial; the properties hold for
    all such lists unless they say that there are no faults. \<open>Host\<close> has
    \<open>infrastructure/sqlite_security.py\<close> and \<open>infrastructure/security/file_key_provider.py\<close>.

  \<^item> \<^theory_text>\<open>Store\<close>: the interface of a keyed store as a locale, with the laws of lookup after put; the
    repositories interpret it: \<^theory_text>\<open>Policy_Store\<close>, \<^theory_text>\<open>Target_Store\<close>, \<^theory_text>\<open>Account_Store\<close>, \<^theory_text>\<open>User_Store\<close>,
    \<^theory_text>\<open>Vault\<close> (the files \<open>sqlite_*.py\<close> below \<open>infrastructure/policy\<close>, \<open>config\<close>, \<open>auth\<close>, \<open>vault\<close>,
    with the Argon2 hasher and the AES-GCM cipher). \<^theory_text>\<open>Schema\<close> has what the versioned schemas share.

  \<^item> \<^theory_text>\<open>Audit_Chain\<close>, \<^theory_text>\<open>Audit_Store\<close>: \<open>infrastructure/audit/\<close>. The stored trail is a chain of
    canonical encodings; \<open>append\<close> keeps it, \<open>verify_integrity\<close> accepts exactly the chains, and
    tampering is detected unless a message that was never authenticated has a valid MAC.

  \<^item> \<^theory_text>\<open>Authentication\<close>: the service over its two ports and, with \<open>User_Store\<close>, end to end.

  \<^item> \<^theory_text>\<open>Host_Key\<close>, \<^theory_text>\<open>Ssh\<close>, \<^theory_text>\<open>Relay\<close>, \<^theory_text>\<open>Broker\<close>, \<^theory_text>\<open>Terminal\<close>: \<open>infrastructure/ssh/\<close> and
    \<open>infrastructure/terminal/\<close>: base64 and pins, the connector, the relay loop, the objects that own
    a session with the flags that make \<open>close\<close> idempotent, the local terminal and its raw mode. What
    a screen promises the relay is the locale \<open>screen\<close>.

  \<^item> \<^theory_text>\<open>Bootstrap\<close>, \<^theory_text>\<open>Fresh\<close>, \<^theory_text>\<open>Main_Program\<close>, \<^theory_text>\<open>Durations\<close>: \<open>bootstrap/application.py\<close>, \<open>main.py\<close> and
    \<open>tools/verify_audit.py\<close>: how the application starts, what the exit codes mean, and the bounds of
    the session limit, with the error of its rounding. \<open>Fresh\<close> evaluates the initializers on hosts without faults.

  \<^item> \<^theory_text>\<open>Created\<close>, \<^theory_text>\<open>Provision\<close>, \<^theory_text>\<open>Lab\<close>, \<^theory_text>\<open>Lab_Run\<close>: \<open>tools/provision_lab.py\<close>: nothing that existed
    is changed, a provisioned lab starts and serves the records of its configuration, and without
    faults a valid configuration is provisioned.

  \<^item> \<^theory_text>\<open>Negative_Lab\<close>, \<^theory_text>\<open>Negative_Run\<close>, \<^theory_text>\<open>Negative_Safety\<close>, \<^theory_text>\<open>Negative_Works\<close>:
    \<open>tools/prepare_negative_lab.py\<close>: the baseline stays untouched, the copy differs in the one row of
    the scenario, and the repositories or the audit verification refuse the copy as intended.

  \<^item> \<^theory_text>\<open>Runtime\<close>, \<^theory_text>\<open>Wiring\<close>: \<open>infrastructure/runtime.py\<close> (UTC clock, \<open>uuid4\<close> over the random
    octets of the host) and the program as it is wired: the ports of the access service and of the
    command line are the operations of the theories above, over one world that has the host and the
    SSH objects. \<open>pam_main\<close> is \<open>main\<close> from the parsed arguments.

  \<^item> \<^theory_text>\<open>Service_Trace\<close>, \<^theory_text>\<open>Service_Trail\<close>, \<^theory_text>\<open>Service_Stores\<close>, \<^theory_text>\<open>Service_Decision\<close>: what holds in every
    run of the wired service. An invariant that every port call keeps holds after \<open>handle\<close> (the
    locale \<open>call_invariant\<close>); it is interpreted for the audit trail and for the answers of the
    stores. \<open>stored_decision\<close> is the decision as a function of the stored rows, and the service is
    shown to decide by it.

  \<^item> \<^theory_text>\<open>Starting\<close>: the exact condition on paths, keys and stores (\<open>startable\<close>, \<open>stores_ready\<close>) under
    which \<open>build_application\<close> succeeds, from one contract (\<open>admits\<close>) that each initializer meets.

  \<^item> \<^theory_text>\<open>Existing\<close>, \<^theory_text>\<open>Program_Run\<close>, \<^theory_text>\<open>Program_Record\<close>: the initializers on databases that exist, the
    steps behind an exit code, and what exit code 0 of the access command says about the stored
    rows and the trail.

  \<^item> \<^theory_text>\<open>Service_Works\<close>, \<^theory_text>\<open>Granted_Access\<close>, \<^theory_text>\<open>Program_Works\<close>: when the ports answer, a granted request
    ends with a closed session (the locale \<open>answering_ports\<close>, interpreted on the wired ports), so
    that the command exits with 0.

  \<^item> \<^theory_text>\<open>Versions\<close>, \<^theory_text>\<open>Lab_Access\<close>, \<^theory_text>\<open>Program_Lab\<close>: only the initializers set a schema version (the
    locale \<open>preorder_steps\<close>: code composed of steps of a preorder is a step of it); a provisioned lab
    has all that the access command needs; and concrete runs of both programs.

  \<^item> \<^theory_text>\<open>Secret_Scan\<close>: \<open>scripts/check_secrets.py\<close>. Decoded file names encode to the same octets, and
    the verdict OK means that the detector suspects no file that git lists.

  \<^bold>\<open>Bounds and termination.\<close> The relay loop need not end, so \<open>relay_loop\<close> is a partial function
  with value \<open>None\<close> when it does not; \<open>relay_terminates\<close> shows that it returns if every turn takes a
  least time. Links are followed 40 times as by the kernel (\<open>max_links\<close> is one more, for the path
  itself). The loops \<open>write_rest\<close>, \<open>read_rest\<close>, \<open>drain\<close>, \<open>copy_stream\<close> and \<open>mkdir_parents\<close> are total:
  every partial read or write moves at least one octet. A buffered writer holds 8192 octets and
  \<open>copyfileobj\<close> copies 64 KiB at a time, as in CPython. Integers are Python's; octets are 8-bit and
  file modes 12-bit words; floats of durations are rationals rounded to doubles where the code
  computes with them.

  \<^bold>\<open>Parameters.\<close> AES-GCM (\<open>aead\<close>), HMAC-SHA256 (\<open>hmac\<close>), SHA-256, Argon2 (\<open>argon2\<close>), the socket
  module and Paramiko (\<open>ssh_lib\<close>), \<open>select\<close> and the monotonic clock (\<open>relay_lib\<close>), the time of the
  environment and \<open>getpass\<close> (all of them fields of \<open>outside\<close>), git and the package
  \<open>detect_secrets\<close> (\<open>scanner\<close>). What a property relies on is one of its hypotheses, such as
  that decryption undoes encryption, that Argon2 verifies what it hashed, or that a MAC has 32 octets;
  the witnesses instantiate them with concrete functions.

  \<^bold>\<open>Not modelled.\<close> The declarations of command line options (\<open>build_parser\<close>): what \<open>argparse\<close>
  makes of them is the grammar of that package, and the programs start from the parsed arguments.
  The textual representations (\<open>__repr__\<close>), timing (\<open>hmac.compare_digest\<close> is equality), the erasure
  of variables that held a secret, concurrent processes on one runtime directory, and the tests and
  documents of the repository. In the wired program a relay that never returns by itself ends when
  the process is interrupted; its channel is closed, what it copied is not kept. \<open>print\<close> does not
  fail: in \<open>main.py\<close> a target identifier that standard output cannot encode would end the command
  with a traceback. \<open>Path.resolve\<close> follows the links of the last component of a path: directories
  on the way are not links. The \<open>Protocol\<close> classes have no code; their operations are the fields
  of the records of ports.
\<close>

end
